(* ===== verification/Prelude.thy ===== *)
theory Prelude
  imports Main "HOL-Library.AList"
begin

text \<open>
  Shared vocabulary of the development: Python dictionaries as insertion-ordered association
  lists, Python values as a datatype, and the generic list and map lemmas the components use.

  A Python \<open>dict\<close> keeps insertion order, and overwriting a key keeps its position. Both are what
  \<^const>\<open>AList.update\<close> does, so \<open>d[k] = v\<close> is \<open>dict_set\<close>, \<open>d.pop(k, None)\<close> is \<open>dict_pop\<close> and
  \<open>d.get(k)\<close> is \<^const>\<open>map_of\<close>. A dictionary of the source never holds a key twice; that is
  the invariant \<open>dict_ok\<close>, kept by every operation.
\<close>

named_theorems dict_simps
named_theorems frame_simps

section \<open>Dictionaries\<close>

type_synonym ('k, 'v) dict = "('k \<times> 'v) list"

abbreviation dict_get :: "('k, 'v) dict \<Rightarrow> 'k \<Rightarrow> 'v option" where
  "dict_get d k \<equiv> map_of d k"

definition dict_set :: "'k \<Rightarrow> 'v \<Rightarrow> ('k, 'v) dict \<Rightarrow> ('k, 'v) dict" where
  "dict_set k v d = AList.update k v d"

definition dict_pop :: "'k \<Rightarrow> ('k, 'v) dict \<Rightarrow> ('k, 'v) dict" where
  "dict_pop k d = AList.delete k d"

definition dict_keys :: "('k, 'v) dict \<Rightarrow> 'k list" where
  "dict_keys d = map fst d"

definition dict_values :: "('k, 'v) dict \<Rightarrow> 'v list" where
  "dict_values d = map snd d"

definition dict_ok :: "('k, 'v) dict \<Rightarrow> bool" where
  "dict_ok d \<longleftrightarrow> distinct (map fst d)"

lemma map_of_dict_set [simp, dict_simps]: "map_of (dict_set k v d) = (map_of d)(k \<mapsto> v)"
  by (simp add: dict_set_def update_conv')

lemma map_of_dict_pop [simp, dict_simps]: "map_of (dict_pop k d) = (map_of d)(k := None)"
  by (simp add: dict_pop_def delete_conv')

lemma dom_dict_set: "dom (map_of (dict_set k v d)) = insert k (dom (map_of d))"
  by simp

lemma dom_dict_pop: "dom (map_of (dict_pop k d)) = dom (map_of d) - {k}"
  by simp

lemma dict_ok_Nil [simp, dict_simps]: "dict_ok []"
  by (simp add: dict_ok_def)

lemma dict_ok_set [simp, dict_simps]: "dict_ok d \<Longrightarrow> dict_ok (dict_set k v d)"
  by (simp add: dict_ok_def dict_set_def distinct_update)

lemma dict_ok_pop [simp, dict_simps]: "dict_ok d \<Longrightarrow> dict_ok (dict_pop k d)"
  by (simp add: dict_ok_def dict_pop_def distinct_delete)

lemma dict_get_in_iff: "dict_ok d \<Longrightarrow> (k, v) \<in> set d \<longleftrightarrow> dict_get d k = Some v"
  by (simp add: dict_ok_def)

lemma forall_dict:
  "dict_ok d \<Longrightarrow> (\<forall>(k, v) \<in> set d. P k v) \<longleftrightarrow> (\<forall>k v. dict_get d k = Some v \<longrightarrow> P k v)"
  by (auto simp: dict_get_in_iff[symmetric])

lemma set_dict_keys [simp]: "set (dict_keys d) = dom (map_of d)"
  by (simp add: dict_keys_def dom_map_of_conv_image_fst)

lemma dict_ok_filter: "dict_ok d \<Longrightarrow> dict_ok (filter Q d)"
  by (simp add: dict_ok_def distinct_map_filter)

lemma map_of_filter_dict:
  "dict_ok d \<Longrightarrow> map_of (filter (\<lambda>(k, v). Q k v) d) k = (case map_of d k of None \<Rightarrow> None | Some v \<Rightarrow> if Q k v then Some v else None)"
  by (induction d) (auto simp: dict_ok_def map_of_eq_None_iff split: option.split)

lemma map_of_rev_dict: "distinct (map fst d) \<Longrightarrow> map_of (rev d) k = map_of d k"
proof (induction d)
  case (Cons e d)
  obtain j x where "e = (j, x)" by (cases e)
  moreover have "map_of d j = None" if "e = (j, x)" for j x using Cons.prems that by (simp add: map_of_eq_None_iff)
  ultimately show ?case using Cons by (auto simp: map_add_def split: option.split)
qed simp

lemma set_dict_values: "dict_ok d \<Longrightarrow> set (dict_values d) = ran (map_of d)"
  by (simp add: dict_values_def dict_ok_def ran_distinct)

lemma dict_keys_set:
  "dict_keys (dict_set k v d) = (if k \<in> set (dict_keys d) then dict_keys d else dict_keys d @ [k])"
  by (simp add: dict_keys_def dict_set_def update_keys)

lemma dict_keys_pop: "dict_keys (dict_pop k d) = [x \<leftarrow> dict_keys d. x \<noteq> k]"
  by (simp add: dict_keys_def dict_pop_def delete_keys removeAll_filter_not_eq eq_commute)

lemma length_dict_keys [simp]: "length (dict_keys d) = length d"
  by (simp add: dict_keys_def)

section \<open>Values of the language\<close>

text \<open>
  The values the source inspects by their run-time type: \<open>None\<close>, booleans, integers, strings,
  lists, dictionaries with string keys, and pydantic models (an object with named fields).
\<close>

datatype pyval =
    PNone
  | PBool bool
  | PInt int
  | PStr string
  | PList "pyval list"
  | PDict "(string \<times> pyval) list"
  | PModel "(string \<times> pyval) list"

section \<open>Lists and folds\<close>

lemma fold_invariant:
  assumes "P s" and "\<And>x s. x \<in> set xs \<Longrightarrow> P s \<Longrightarrow> P (f x s)"
  shows "P (fold f xs s)"
  using assms by (induction xs arbitrary: s) auto

lemma filter_neq_id: "x \<notin> set xs \<Longrightarrow> [y \<leftarrow> xs. y \<noteq> x] = xs"
  by (induction xs) auto

lemma find_SomeD: "find P xs = Some x \<Longrightarrow> x \<in> set xs \<and> P x"
  by (induction xs) (auto split: if_splits)

text \<open>\<open>str.startswith\<close>.\<close>

definition startswith :: "string \<Rightarrow> string \<Rightarrow> bool" where
  "startswith s p \<longleftrightarrow> take (length p) s = p"

lemma startswith_append [simp]: "startswith (p @ s) p"
  by (simp add: startswith_def)

section \<open>Rows of a database table\<close>

text \<open>A column with a unique constraint.\<close>

definition unique_by :: "('v \<Rightarrow> 'a) \<Rightarrow> ('k, 'v) dict \<Rightarrow> bool" where
  "unique_by f d \<longleftrightarrow> (\<forall>(i, a) \<in> set d. \<forall>(j, b) \<in> set d. f a = f b \<longrightarrow> i = j)"

lemma unique_by_iff:
  "dict_ok d \<Longrightarrow> unique_by f d \<longleftrightarrow>
     (\<forall>i a. dict_get d i = Some a \<longrightarrow> (\<forall>j b. dict_get d j = Some b \<longrightarrow> f a = f b \<longrightarrow> i = j))"
  by (simp only: unique_by_def forall_dict)

lemma unique_by_set:
  assumes "dict_ok d" and "unique_by f d" and "\<And>j b. dict_get d j = Some b \<Longrightarrow> j \<noteq> k \<Longrightarrow> f b \<noteq> f v"
  shows "unique_by f (dict_set k v d)"
  unfolding unique_by_iff[OF dict_ok_set[OF assms(1)]]
proof (intro allI impI)
  fix i a j b
  assume "dict_get (dict_set k v d) i = Some a" and "dict_get (dict_set k v d) j = Some b" and "f a = f b"
  with assms(2)[unfolded unique_by_iff[OF assms(1)]] assms(3)[of j b] assms(3)[of i a] show "i = j"
    by (auto split: if_splits)
qed

lemma unique_by_pop: "dict_ok d \<Longrightarrow> unique_by f d \<Longrightarrow> unique_by f (dict_pop k d)"
  by (force simp: unique_by_iff)


text \<open>A row id that the database assigns is one above the largest in the table.\<close>

definition next_row_id :: "int list \<Rightarrow> int" where
  "next_row_id ids = Max (set (0 # ids)) + 1"

lemma next_row_id_fresh: "i \<in> set ids \<Longrightarrow> i < next_row_id ids"
proof -
  assume "i \<in> set ids"
  then have "i \<le> Max (set (0 # ids))" by (intro Max_ge) auto
  then show ?thesis by (simp add: next_row_id_def)
qed

lemma next_row_id_notin: "next_row_id ids \<notin> set ids"
  using next_row_id_fresh by force

lemma next_row_id_new: "dict_get d (next_row_id (dict_keys d)) = None"
  using next_row_id_notin[of "dict_keys d"] by (simp add: domIff)

end
