(* ===== verification/Node_State.thy ===== *)
theory Node_State
  imports Prelude
begin

text \<open>
  The mutable execution state of a node: \<open>flow_node/state.py\<close> (\<open>SourceFileInfo\<close>,
  \<open>NodeExecutionState\<close>) and the value classes of \<open>flow_node/models.py\<close> (\<open>NodeStepStats\<close>,
  \<open>NodeResults\<close>, the execution strategies and invalidation reasons).

  Data the code only passes around (a \<open>FlowDataEngine\<close>, a generator closure) is a reference of
  type \<open>obj\<close>. A file time stamp is an integer: the code only compares time stamps for equality.
  \<open>os.stat\<close> is the parameter \<open>stat\<close>; it returns \<open>None\<close> where the call raises \<open>OSError\<close>.
\<close>

type_synonym obj = nat
type_synonym schema = "(string \<times> string) list"
type_synonym stat_fun = "string \<Rightarrow> (int \<times> int) option"

section \<open>Enumerations\<close>

datatype execution_strategy = SKIP | FULL_LOCAL | LOCAL_WITH_SAMPLING | REMOTE

datatype invalidation_reason =
    NEVER_RAN | SETTINGS_CHANGED | SOURCE_FILE_CHANGED | CACHE_MISSING
  | FORCED_REFRESH | OUTPUT_NODE | PERFORMANCE_MODE

record execution_decision =
  should_run :: bool
  strategy :: execution_strategy
  reason :: "invalidation_reason option"

section \<open>Source files\<close>

record source_file =
  sf_path :: string
  sf_mtime :: int
  sf_size :: int

definition source_from_path :: "stat_fun \<Rightarrow> string \<Rightarrow> source_file option" where
  "source_from_path stat path =
     (case stat path of
        None \<Rightarrow> None
      | Some (mtime, sz) \<Rightarrow> Some \<lparr>sf_path = path, sf_mtime = mtime, sf_size = sz\<rparr>)"

definition has_changed :: "stat_fun \<Rightarrow> source_file \<Rightarrow> bool" where
  "has_changed stat f =
     (case stat (sf_path f) of
        None \<Rightarrow> True
      | Some (mtime, sz) \<Rightarrow> mtime \<noteq> sf_mtime f \<or> sz \<noteq> sf_size f)"

definition source_to_dict :: "source_file \<Rightarrow> (string, pyval) dict" where
  "source_to_dict f =
     [(''path'', PStr (sf_path f)), (''mtime'', PInt (sf_mtime f)), (''size'', PInt (sf_size f))]"

text \<open>
  Reading a field back: \<open>data["k"]\<close> and \<open>data.get("k", default)\<close>. A missing mandatory key is
  \<open>KeyError\<close>. The dataclass does not check types; a value of another type than the field's is
  outside the model and yields \<open>IllTyped\<close>.
\<close>

datatype load_error = KeyError string | IllTyped string

fun as_str :: "string \<Rightarrow> pyval \<Rightarrow> load_error + string" where
  "as_str k (PStr s) = Inr s"
| "as_str k v = Inl (IllTyped k)"

fun as_int :: "string \<Rightarrow> pyval \<Rightarrow> load_error + int" where
  "as_int k (PInt i) = Inr i"
| "as_int k v = Inl (IllTyped k)"

fun as_bool :: "string \<Rightarrow> pyval \<Rightarrow> load_error + bool" where
  "as_bool k (PBool b) = Inr b"
| "as_bool k v = Inl (IllTyped k)"

fun as_opt_str :: "string \<Rightarrow> pyval \<Rightarrow> load_error + string option" where
  "as_opt_str k PNone = Inr None"
| "as_opt_str k (PStr s) = Inr (Some s)"
| "as_opt_str k v = Inl (IllTyped k)"

definition field ::
  "(string \<Rightarrow> pyval \<Rightarrow> load_error + 'a) \<Rightarrow> (string, pyval) dict \<Rightarrow> string \<Rightarrow> load_error + 'a" where
  "field conv d k = (case dict_get d k of None \<Rightarrow> Inl (KeyError k) | Some v \<Rightarrow> conv k v)"

definition field_or ::
  "'a \<Rightarrow> (string \<Rightarrow> pyval \<Rightarrow> load_error + 'a) \<Rightarrow> (string, pyval) dict \<Rightarrow> string \<Rightarrow> load_error + 'a" where
  "field_or dflt conv d k = (case dict_get d k of None \<Rightarrow> Inr dflt | Some v \<Rightarrow> conv k v)"

fun bindE :: "'e + 'a \<Rightarrow> ('a \<Rightarrow> 'e + 'b) \<Rightarrow> 'e + 'b" where
  "bindE (Inl e) f = Inl e"
| "bindE (Inr x) f = f x"

definition source_from_dict :: "(string, pyval) dict \<Rightarrow> load_error + source_file" where
  "source_from_dict d =
     bindE (field as_str d ''path'') (\<lambda>p.
     bindE (field as_int d ''mtime'') (\<lambda>m.
     bindE (field as_int d ''size'') (\<lambda>s.
       Inr \<lparr>sf_path = p, sf_mtime = m, sf_size = s\<rparr>)))"

section \<open>Execution state of a node\<close>

record exec_state =
  has_run_with_current_setup :: bool
  has_completed_last_run :: bool
  is_canceled :: bool
  st_error :: "string option"
  st_resulting_data :: "obj option"
  st_example_data_path :: "string option"
  st_example_data_generator :: "obj option"
  st_warnings :: "string option"
  st_result_schema :: "schema option"
  st_predicted_schema :: "schema option"
  source_file_info :: "source_file option"
  execution_hash :: "string option"

definition exec_state0 :: exec_state where
  "exec_state0 =
     \<lparr>has_run_with_current_setup = False, has_completed_last_run = False, is_canceled = False,
      st_error = None, st_resulting_data = None, st_example_data_path = None,
      st_example_data_generator = None, st_warnings = None, st_result_schema = None,
      st_predicted_schema = None, source_file_info = None, execution_hash = None\<rparr>"

definition state_reset :: "exec_state \<Rightarrow> exec_state" where
  "state_reset s =
     s\<lparr>has_run_with_current_setup := False, has_completed_last_run := False, is_canceled := False,
       st_error := None, st_resulting_data := None, st_example_data_path := None,
       st_example_data_generator := None, st_warnings := None, st_result_schema := None,
       st_predicted_schema := None, execution_hash := None\<rparr>"

definition reset_results_only :: "exec_state \<Rightarrow> exec_state" where
  "reset_results_only s =
     s\<lparr>st_error := None, st_resulting_data := None, st_example_data_path := None,
       st_example_data_generator := None, st_warnings := None\<rparr>"

definition mark_successful :: "exec_state \<Rightarrow> exec_state" where
  "mark_successful s =
     s\<lparr>has_run_with_current_setup := True, has_completed_last_run := True, st_error := None\<rparr>"

definition mark_failed :: "string \<Rightarrow> exec_state \<Rightarrow> exec_state" where
  "mark_failed e s =
     s\<lparr>has_run_with_current_setup := False, has_completed_last_run := False, st_error := Some e\<rparr>"

fun opt_str :: "string option \<Rightarrow> pyval" where
  "opt_str None = PNone"
| "opt_str (Some s) = PStr s"

definition state_to_dict :: "exec_state \<Rightarrow> (string, pyval) dict" where
  "state_to_dict s =
     [(''has_run_with_current_setup'', PBool (has_run_with_current_setup s)),
      (''has_completed_last_run'', PBool (has_completed_last_run s)),
      (''is_canceled'', PBool (is_canceled s)),
      (''error'', opt_str (st_error s)),
      (''example_data_path'', opt_str (st_example_data_path s)),
      (''warnings'', opt_str (st_warnings s)),
      (''execution_hash'', opt_str (execution_hash s)),
      (''source_file_info'',
        (case source_file_info s of None \<Rightarrow> PNone | Some f \<Rightarrow> PDict (source_to_dict f)))]"

text \<open>
  \<open>if data.get("source_file_info"): ...\<close>: absent, \<open>None\<close> and the empty dictionary are falsy and
  leave the field at its default.
\<close>

definition load_source :: "(string, pyval) dict \<Rightarrow> load_error + source_file option" where
  "load_source d =
     (case dict_get d ''source_file_info'' of
        None \<Rightarrow> Inr None
      | Some PNone \<Rightarrow> Inr None
      | Some (PDict []) \<Rightarrow> Inr None
      | Some (PDict sub) \<Rightarrow> bindE (source_from_dict sub) (\<lambda>f. Inr (Some f))
      | Some _ \<Rightarrow> Inl (IllTyped ''source_file_info''))"

definition state_from_dict :: "(string, pyval) dict \<Rightarrow> load_error + exec_state" where
  "state_from_dict d =
     bindE (field_or False as_bool d ''has_run_with_current_setup'') (\<lambda>run.
     bindE (field_or False as_bool d ''has_completed_last_run'') (\<lambda>completed.
     bindE (field_or False as_bool d ''is_canceled'') (\<lambda>canceled.
     bindE (field_or None as_opt_str d ''error'') (\<lambda>e.
     bindE (field_or None as_opt_str d ''example_data_path'') (\<lambda>path.
     bindE (field_or None as_opt_str d ''warnings'') (\<lambda>w.
     bindE (field_or None as_opt_str d ''execution_hash'') (\<lambda>h.
     bindE (load_source d) (\<lambda>src.
       Inr (exec_state0
         \<lparr>has_run_with_current_setup := run, has_completed_last_run := completed,
          is_canceled := canceled, st_error := e, st_example_data_path := path,
          st_warnings := w, execution_hash := h, source_file_info := src\<rparr>)))))))))"

section \<open>Run statistics and results\<close>

record step_stats =
  stat_error :: "string option"
  stat_has_run :: bool
  stat_completed :: bool
  stat_active :: bool
  stat_canceled :: bool

definition step_stats0 :: step_stats where
  "step_stats0 = \<lparr>stat_error = None, stat_has_run = False, stat_completed = False,
     stat_active = True, stat_canceled = False\<rparr>"

text \<open>The setter of \<open>has_run_with_current_setup\<close>: setting it to true completes the last run.\<close>

definition set_stat_has_run :: "bool \<Rightarrow> step_stats \<Rightarrow> step_stats" where
  "set_stat_has_run v s =
     (if v then s\<lparr>stat_has_run := True, stat_completed := True\<rparr> else s\<lparr>stat_has_run := False\<rparr>)"

record node_results =
  r_resulting_data :: "obj option"
  r_example_data :: "obj option"
  r_example_data_path :: "string option"
  r_example_data_generator :: "obj option"
  r_run_time_ms :: int
  r_errors :: "string option"
  r_warnings :: "string option"

definition node_results0 :: node_results where
  "node_results0 = \<lparr>r_resulting_data = None, r_example_data = None, r_example_data_path = None,
     r_example_data_generator = None, r_run_time_ms = -1, r_errors = None, r_warnings = None\<rparr>"

definition results_reset :: "node_results \<Rightarrow> node_results" where
  "results_reset r = r\<lparr>r_resulting_data := None, r_run_time_ms := -1\<rparr>"

section \<open>Lemmas\<close>

lemma bindE_Inr_iff: "bindE m f = Inr y \<longleftrightarrow> (\<exists>x. m = Inr x \<and> f x = Inr y)"
  by (cases m) auto

lemma source_roundtrip [simp]: "source_from_dict (source_to_dict f) = Inr f"
  by (simp add: source_from_dict_def source_to_dict_def field_def)

lemma as_opt_str_opt_str [simp]: "as_opt_str k (opt_str v) = Inr v"
  by (cases v) auto

lemma load_source_to_dict [simp]: "load_source (state_to_dict s) = Inr (source_file_info s)"
proof (cases "source_file_info s")
  case None
  then show ?thesis by (simp add: load_source_def state_to_dict_def)
next
  case (Some f)
  have "source_to_dict f \<noteq> []" by (simp add: source_to_dict_def)
  with Some show ?thesis
    by (auto simp: load_source_def state_to_dict_def neq_Nil_conv split: list.split)
       (metis bindE.simps(2) source_roundtrip)
qed

lemma has_changed_fresh:
  "source_from_path stat p = Some f \<Longrightarrow> \<not> has_changed stat f"
  by (auto simp: source_from_path_def has_changed_def split: option.splits prod.splits)

text \<open>
  Storing a node's execution state outside the process and loading it again gives back the
  state, except that the fields the code declares as too large to serialise (the resulting data,
  the example data generator and the two schemas) are empty in the loaded state.
\<close>

theorem state_roundtrip:
  "state_from_dict (state_to_dict s) =
     Inr (s\<lparr>st_resulting_data := None, st_example_data_generator := None,
            st_result_schema := None, st_predicted_schema := None\<rparr>)"
proof -
  have "field_or False as_bool (state_to_dict s) ''has_run_with_current_setup''
          = Inr (has_run_with_current_setup s)"
    and "field_or False as_bool (state_to_dict s) ''has_completed_last_run''
          = Inr (has_completed_last_run s)"
    and "field_or False as_bool (state_to_dict s) ''is_canceled'' = Inr (is_canceled s)"
    and "field_or None as_opt_str (state_to_dict s) ''error'' = Inr (st_error s)"
    and "field_or None as_opt_str (state_to_dict s) ''example_data_path'' = Inr (st_example_data_path s)"
    and "field_or None as_opt_str (state_to_dict s) ''warnings'' = Inr (st_warnings s)"
    and "field_or None as_opt_str (state_to_dict s) ''execution_hash'' = Inr (execution_hash s)"
    by (simp_all add: field_or_def state_to_dict_def)
  then show ?thesis
    by (simp add: state_from_dict_def exec_state0_def)
qed

end
