(* ===== verification/Flow_Node.thy ===== *)
theory Flow_Node
  imports Node_State
begin

text \<open>
  Nodes of a flow: \<open>flow_node/flow_node.py\<close> (\<open>FlowNode\<close>) with its inputs (\<open>NodeStepInputs\<close> of
  \<open>flow_node/models.py\<close>).

  Node objects are shared by reference: the graph's registry, the inputs of a node and the
  \<open>leads_to_nodes\<close> of a node hold the same object, and an object can outlive its registration. So
  nodes live in a heap, a map from addresses to records, and every reference is an address.

  \<open>get_hash\<close> is SHA-256 of a JSON rendering. The rendering and the digest are the parameter
  \<open>D :: pyval \<Rightarrow> string\<close>; which fields take part is modelled. \<open>hash\<close> and \<open>reset\<close> recurse through the
  graph, so they carry fuel; \<open>None\<close> is the \<open>RecursionError\<close> of a cyclic graph, and
  \<open>reset_all_enough\<close> gives the fuel that suffices on an acyclic one.
\<close>

type_synonym addr = nat

section \<open>Records\<close>

record node_template =
  t_name :: string
  t_input :: int
  t_multi :: bool
  t_can_be_start :: bool
  t_node_group :: string
  t_laziness :: string

text \<open>
  The settings object of a node. \<open>s_is_promise\<close> says that its class is \<open>NodePromise\<close>;
  \<open>s_depending_on_id\<close> and \<open>s_depending_on_ids\<close> are \<open>None\<close> where the class has no such field, and
  \<open>s_fields\<close> holds the fields of the concrete settings class.
\<close>

record node_setting =
  s_is_promise :: bool
  s_node_id :: int
  s_flow_id :: int
  s_cache_results :: bool
  s_pos_x :: int
  s_pos_y :: int
  s_group_id :: "int option"
  s_is_setup :: bool
  s_description :: string
  s_depending_on_id :: "int option"
  s_depending_on_ids :: "int list option"
  s_fields :: "(string, pyval) dict"

datatype callback_status = NoCallback | CallbackCreated | CallbackStarted

record flow_node =
  node_id :: int
  node_type :: string
  parent_uuid :: string
  node_template :: node_template
  default_transform :: "string option"
  setting_input :: "node_setting option"
  cache_results :: bool
  leads_to_nodes :: "addr list"
  main_inputs :: "addr list option"
  left_input :: "addr option"
  right_input :: "addr option"
  input_output_handles :: "(int, string) dict"
  node_hash :: "string option"
  cache_epoch :: int
  node_stats :: step_stats
  results :: node_results
  node_result_schema :: "schema option"
  node_predicted_schema :: "schema option"
  info_is_setup :: bool
  is_placeholder :: bool
  execution_state :: exec_state
  schema_callback :: callback_status

text \<open>The defaults of \<open>post_init\<close>, with the identity that the constructor sets.\<close>

definition new_node :: "int \<Rightarrow> string \<Rightarrow> string \<Rightarrow> node_template \<Rightarrow> flow_node" where
  "new_node i ty uuid tpl =
     \<lparr>node_id = i, node_type = ty, parent_uuid = uuid, node_template = tpl, default_transform = None,
      setting_input = None, cache_results = False, leads_to_nodes = [], main_inputs = None,
      left_input = None, right_input = None, input_output_handles = [], node_hash = None,
      cache_epoch = 0, node_stats = step_stats0, results = node_results0, node_result_schema = None,
      node_predicted_schema = None, info_is_setup = False, is_placeholder = False,
      execution_state = exec_state0, schema_callback = NoCallback\<rparr>"

type_synonym heap = "addr \<Rightarrow> flow_node option"

datatype py_error =
    TypeError
  | AttributeError
  | ValueError string
  | HTTPException int string
  | PyException string

section \<open>Inputs\<close>

definition get_all_inputs :: "flow_node \<Rightarrow> addr list" where
  "get_all_inputs nd =
     (case main_inputs nd of None \<Rightarrow> [] | Some xs \<Rightarrow> xs)
     @ (case left_input nd of None \<Rightarrow> [] | Some a \<Rightarrow> [a])
     @ (case right_input nd of None \<Rightarrow> [] | Some a \<Rightarrow> [a])"

definition has_input :: "flow_node \<Rightarrow> bool" where
  "has_input nd \<longleftrightarrow> get_all_inputs nd \<noteq> []"

definition is_start :: "flow_node \<Rightarrow> bool" where
  "is_start nd \<longleftrightarrow> \<not> has_input nd \<and> t_input (node_template nd) = 0"

definition is_promise_node :: "flow_node \<Rightarrow> bool" where
  "is_promise_node nd = (case setting_input nd of None \<Rightarrow> False | Some s \<Rightarrow> s_is_promise s)"

definition is_correct :: "flow_node \<Rightarrow> bool" where
  "is_correct nd \<longleftrightarrow>
     (if is_promise_node nd then False
      else t_input (node_template nd) = int (length (get_all_inputs nd))
        \<or> (t_multi (node_template nd) \<and> length (get_all_inputs nd) > 0)
        \<or> (t_multi (node_template nd) \<and> t_can_be_start (node_template nd)))"

definition id_at :: "heap \<Rightarrow> addr \<Rightarrow> int option" where
  "id_at h a = map_option node_id (h a)"

text \<open>\<open>list(set(...))\<close> has no defined order, so the connection types form a set here.\<close>

definition get_input_type :: "heap \<Rightarrow> flow_node \<Rightarrow> int \<Rightarrow> py_error + string set" where
  "get_input_type h nd nid =
     (case main_inputs nd of
        None \<Rightarrow> Inl TypeError
      | Some ms \<Rightarrow> Inr
          ((if Some nid \<in> id_at h ` set ms then {''main''} else {})
           \<union> (case left_input nd of None \<Rightarrow> {} | Some a \<Rightarrow> if id_at h a = Some nid then {''left''} else {})
           \<union> (case right_input nd of None \<Rightarrow> {} | Some a \<Rightarrow> if id_at h a = Some nid then {''right''} else {})))"

text \<open>
  The result \<open>None\<close> of falling through every branch is falsy. The branch for \<open>right\<close> reads the
  right input without testing it, unlike the two branches above it.
\<close>

definition validate_if_input_connection_exists ::
  "heap \<Rightarrow> flow_node \<Rightarrow> int \<Rightarrow> string \<Rightarrow> py_error + bool" where
  "validate_if_input_connection_exists h nd nid conn =
     (if conn = ''main'' \<and> main_inputs nd \<noteq> None \<and> main_inputs nd \<noteq> Some [] then
        Inr (\<exists>a \<in> set (case main_inputs nd of None \<Rightarrow> [] | Some xs \<Rightarrow> xs). id_at h a = Some nid)
      else if conn = ''left'' \<and> left_input nd \<noteq> None then
        Inr (case left_input nd of None \<Rightarrow> False | Some a \<Rightarrow> id_at h a = Some nid)
      else if conn = ''right'' then
        (case right_input nd of None \<Rightarrow> Inl AttributeError | Some a \<Rightarrow> Inr (id_at h a = Some nid))
      else Inr False)"

section \<open>Hashing\<close>

definition upd_node :: "addr \<Rightarrow> (flow_node \<Rightarrow> flow_node) \<Rightarrow> heap \<Rightarrow> heap" where
  "upd_node a f h = h(a := map_option f (h a))"

definition setting_vars :: "node_setting \<Rightarrow> (string, pyval) dict" where
  "setting_vars s =
     [(''flow_id'', PInt (s_flow_id s)), (''node_id'', PInt (s_node_id s)),
      (''cache_results'', PBool (s_cache_results s)),
      (''pos_x'', PInt (s_pos_x s)), (''pos_y'', PInt (s_pos_y s)),
      (''group_id'', (case s_group_id s of None \<Rightarrow> PNone | Some g \<Rightarrow> PInt g)),
      (''is_setup'', PBool (s_is_setup s)), (''description'', PStr (s_description s))]
     @ (case s_depending_on_id s of None \<Rightarrow> [] | Some d \<Rightarrow> [(''depending_on_id'', PInt d)])
     @ (case s_depending_on_ids s of None \<Rightarrow> [] | Some ds \<Rightarrow> [(''depending_on_ids'', PList (map PInt ds))])
     @ s_fields s"

definition hash_vars :: "node_setting \<Rightarrow> (string, pyval) dict" where
  "hash_vars s =
     [p \<leftarrow> setting_vars s. fst p \<noteq> ''pos_x'' \<and> fst p \<noteq> ''pos_y'' \<and> fst p \<noteq> ''description'']"

definition get_hash :: "(pyval \<Rightarrow> string) \<Rightarrow> node_setting option \<Rightarrow> string" where
  "get_hash D so = (case so of None \<Rightarrow> D PNone | Some s \<Rightarrow> D (PDict (hash_vars s)))"

definition combine_hash :: "(pyval \<Rightarrow> string) \<Rightarrow> string list \<Rightarrow> flow_node \<Rightarrow> string" where
  "combine_hash D hs nd =
     D (PList (map PStr hs @ [PStr (get_hash D (setting_input nd)), PStr (parent_uuid nd), PInt (cache_epoch nd)]))"

definition hash_cached :: "flow_node \<Rightarrow> bool" where
  "hash_cached nd \<longleftrightarrow> node_hash nd \<noteq> None \<and> node_hash nd \<noteq> Some []"

definition store_hash :: "addr \<Rightarrow> string \<Rightarrow> heap \<Rightarrow> heap" where
  "store_hash a x h = upd_node a (node_hash_update (\<lambda>_. Some x)) h"

fun hash_all :: "(pyval \<Rightarrow> string) \<Rightarrow> nat \<Rightarrow> heap \<Rightarrow> addr list \<Rightarrow> (string list \<times> heap) option" where
  "hash_all D n h [] = Some ([], h)"
| "hash_all D 0 h (a # as) = None"
| "hash_all D (Suc n) h (a # as) =
     (case h a of
        None \<Rightarrow> None
      | Some nd \<Rightarrow>
          (if hash_cached nd then
             (case hash_all D (Suc n) h as of
                None \<Rightarrow> None
              | Some (xs, h1) \<Rightarrow> Some (the (node_hash nd) # xs, h1))
           else
             (case hash_all D n h (get_all_inputs nd) of
                None \<Rightarrow> None
              | Some (hs, h1) \<Rightarrow>
                  (case hash_all D (Suc n) (store_hash a (combine_hash D hs nd) h1) as of
                     None \<Rightarrow> None
                   | Some (xs, h2) \<Rightarrow> Some (combine_hash D hs nd # xs, h2)))))"

definition calculate_hash ::
  "(pyval \<Rightarrow> string) \<Rightarrow> nat \<Rightarrow> heap \<Rightarrow> flow_node \<Rightarrow> (string \<times> heap) option" where
  "calculate_hash D n h nd =
     (case hash_all D n h (get_all_inputs nd) of
        None \<Rightarrow> None
      | Some (hs, h1) \<Rightarrow> Some (combine_hash D hs nd, h1))"

section \<open>Resetting\<close>

text \<open>The field updates of \<open>reset\<close> in the branch where a reset is needed.\<close>

definition clear_node :: "flow_node \<Rightarrow> flow_node" where
  "clear_node nd =
     (let nd1 = nd\<lparr>
        node_stats := set_stat_has_run False (node_stats nd),
        results := (results_reset (results nd))\<lparr>r_errors := None\<rparr>,
        node_result_schema := None,
        node_predicted_schema := None,
        node_hash := None,
        info_is_setup := False,
        execution_state := (execution_state nd)\<lparr>
          has_run_with_current_setup := False, has_completed_last_run := False,
          is_canceled := False, st_result_schema := None, st_predicted_schema := None,
          execution_hash := None\<rparr>\<rparr>
      in if is_correct nd1
         then nd1\<lparr>schema_callback := (if is_start nd1 then CallbackStarted else NoCallback)\<rparr>
         else nd1)"

fun reset_all :: "(pyval \<Rightarrow> string) \<Rightarrow> nat \<Rightarrow> bool \<Rightarrow> heap \<Rightarrow> addr list \<Rightarrow> heap option" where
  "reset_all D n deep h [] = Some h"
| "reset_all D 0 deep h (a # as) = None"
| "reset_all D (Suc n) deep h (a # as) =
     (case h a of
        None \<Rightarrow> None
      | Some nd \<Rightarrow>
          (case calculate_hash D n h nd of
             None \<Rightarrow> None
           | Some (x, h1) \<Rightarrow>
               (if node_hash nd \<noteq> Some x \<or> deep then
                  (case reset_all D n False (upd_node a clear_node h1) (leads_to_nodes nd) of
                     None \<Rightarrow> None
                   | Some h2 \<Rightarrow>
                       (case hash_all D n h2 [a] of
                          None \<Rightarrow> None
                        | Some (_, h3) \<Rightarrow> reset_all D (Suc n) deep h3 as))
                else reset_all D (Suc n) deep h1 as)))"

definition reset :: "(pyval \<Rightarrow> string) \<Rightarrow> nat \<Rightarrow> bool \<Rightarrow> addr \<Rightarrow> heap \<Rightarrow> heap option" where
  "reset D n deep a h = reset_all D n deep h [a]"

definition invalidate_cache :: "flow_node \<Rightarrow> flow_node" where
  "invalidate_cache nd =
     nd\<lparr>cache_epoch := cache_epoch nd + 1, node_hash := None,
        execution_state := state_reset (execution_state nd),
        node_stats := (set_stat_has_run False (node_stats nd))\<lparr>stat_completed := False\<rparr>\<rparr>"

section \<open>Connecting and disconnecting\<close>

definition insert_input :: "addr \<Rightarrow> string \<Rightarrow> flow_node \<Rightarrow> flow_node" where
  "insert_input from insert_type nd =
     (if insert_type = ''main'' then
        (case main_inputs nd of
           None \<Rightarrow> nd\<lparr>main_inputs := Some [from]\<rparr>
         | Some ms \<Rightarrow>
             if t_input (node_template nd) \<le> 2 then nd\<lparr>main_inputs := Some [from]\<rparr>
             else nd\<lparr>main_inputs := Some (ms @ [from])\<rparr>)
      else if insert_type = ''right'' then nd\<lparr>right_input := Some from\<rparr>
      else nd\<lparr>left_input := Some from\<rparr>)"

definition set_depending :: "int \<Rightarrow> string \<Rightarrow> flow_node \<Rightarrow> flow_node" where
  "set_depending from_id insert_type nd =
     (case setting_input nd of
        None \<Rightarrow> nd
      | Some s \<Rightarrow>
          if s_is_setup s \<and> s_depending_on_id s \<noteq> None \<and> insert_type = ''main''
          then nd\<lparr>setting_input := Some (s\<lparr>s_depending_on_id := Some from_id\<rparr>)\<rparr>
          else nd)"

text \<open>
  The heap changes up to an exception stay: the source node already leads to the target when an
  unknown input type is rejected. The result is the heap and the exception, if any.
\<close>

definition add_node_connection ::
  "(pyval \<Rightarrow> string) \<Rightarrow> nat \<Rightarrow> addr \<Rightarrow> addr \<Rightarrow> string \<Rightarrow> string \<Rightarrow> heap \<Rightarrow> (heap \<times> py_error option) option" where
  "add_node_connection D n self from insert_type handle h =
     (case (h self, h from) of
        (Some nd, Some fnd) \<Rightarrow>
          (let h1 = upd_node from (\<lambda>x. x\<lparr>leads_to_nodes := leads_to_nodes x @ [self]\<rparr>) h
           in if insert_type \<notin> {''main'', ''right'', ''left''}
              then Some (h1, Some (PyException ''Cannot find the connection''))
              else let h2 = upd_node self (insert_input from insert_type) h1;
                       h3 = upd_node self (\<lambda>x. x\<lparr>input_output_handles :=
                              dict_set (node_id fnd) handle (input_output_handles x)\<rparr>) h2
                   in if setting_input nd = None then Some (h3, Some AttributeError)
                      else (case reset_all D n False (upd_node self (set_depending (node_id fnd) insert_type) h3)
                                   [self, from] of
                              None \<Rightarrow> None
                            | Some h4 \<Rightarrow> Some (h4, None)))
      | _ \<Rightarrow> None)"

fun remove_first :: "('a \<Rightarrow> bool) \<Rightarrow> 'a list \<Rightarrow> 'a list" where
  "remove_first p [] = []"
| "remove_first p (x # xs) = (if p x then xs else x # remove_first p xs)"

definition delete_lead_to_node :: "addr \<Rightarrow> int \<Rightarrow> heap \<Rightarrow> heap \<times> bool" where
  "delete_lead_to_node self nid h =
     (case h self of
        None \<Rightarrow> (h, False)
      | Some nd \<Rightarrow>
          if \<exists>a \<in> set (leads_to_nodes nd). id_at h a = Some nid
          then (upd_node self (\<lambda>x. x\<lparr>leads_to_nodes :=
                  remove_first (\<lambda>a. id_at h a = Some nid) (leads_to_nodes x)\<rparr>) h, True)
          else (h, False))"

text \<open>
  \<open>for i, node in enumerate(xs): if p(node): xs.pop(i)\<close> skips the element that moves into the
  position of the one popped.
\<close>

fun pop_while_enumerating :: "('a \<Rightarrow> bool) \<Rightarrow> 'a list \<Rightarrow> 'a list" where
  "pop_while_enumerating p [] = []"
| "pop_while_enumerating p (x # xs) =
     (if p x then (case xs of [] \<Rightarrow> [] | y # ys \<Rightarrow> y # pop_while_enumerating p ys)
      else x # pop_while_enumerating p xs)"

text \<open>
  The first branch is taken for \<open>input-0\<close> whatever \<open>complete\<close> says, and the branch of the left
  input compares the id of the right input; both are as in the source.
\<close>

definition delete_input_fields ::
  "heap \<Rightarrow> int \<Rightarrow> string \<Rightarrow> bool \<Rightarrow> flow_node \<Rightarrow> py_error + (flow_node \<times> bool)" where
  "delete_input_fields h nid connection_type complete nd =
     (if connection_type = ''input-0'' then
        (case main_inputs nd of
           None \<Rightarrow> Inl TypeError
         | Some ms \<Rightarrow> Inr (nd\<lparr>main_inputs := Some (pop_while_enumerating (\<lambda>a. id_at h a = Some nid) ms)\<rparr>,
                          \<exists>a \<in> set ms. id_at h a = Some nid))
      else if connection_type = ''input-1'' \<or> complete then
        (case right_input nd of
           None \<Rightarrow> Inr (nd, False)
         | Some a \<Rightarrow> if id_at h a = Some nid then Inr (nd\<lparr>right_input := None\<rparr>, True) else Inr (nd, False))
      else if connection_type = ''input-2'' \<or> complete then
        (case left_input nd of
           None \<Rightarrow> Inr (nd, False)
         | Some _ \<Rightarrow>
             (case right_input nd of
                None \<Rightarrow> Inl AttributeError
              | Some a \<Rightarrow> if id_at h a = Some nid then Inr (nd\<lparr>left_input := None\<rparr>, True) else Inr (nd, False)))
      else Inr (nd, False))"

definition delete_input_node ::
  "(pyval \<Rightarrow> string) \<Rightarrow> nat \<Rightarrow> addr \<Rightarrow> int \<Rightarrow> string \<Rightarrow> bool \<Rightarrow> heap \<Rightarrow> (heap \<times> (py_error + bool)) option" where
  "delete_input_node D n self nid connection_type complete h =
     (case h self of
        None \<Rightarrow> None
      | Some nd \<Rightarrow>
          (case delete_input_fields h nid connection_type complete nd of
             Inl e \<Rightarrow> Some (h, Inl e)
           | Inr (nd1, deleted) \<Rightarrow>
               if deleted then
                 (case reset D n False self
                         (h(self \<mapsto> nd1\<lparr>input_output_handles := dict_pop nid (input_output_handles nd1)\<rparr>)) of
                    None \<Rightarrow> None
                  | Some h1 \<Rightarrow> Some (h1, Inr True))
               else Some (h(self \<mapsto> nd1), Inr False)))"

section \<open>Downstream traversal\<close>

text \<open>\<open>get_all_dependent_nodes\<close>: the nodes in the order the generator yields them.\<close>

fun dependents_of :: "heap \<Rightarrow> nat \<Rightarrow> addr list \<Rightarrow> addr list option" where
  "dependents_of h n [] = Some []"
| "dependents_of h 0 (a # as) = None"
| "dependents_of h (Suc n) (a # as) =
     (case h a of
        None \<Rightarrow> None
      | Some nd \<Rightarrow>
          (case dependents_of h n (leads_to_nodes nd) of
             None \<Rightarrow> None
           | Some below \<Rightarrow>
               (case dependents_of h (Suc n) as of
                  None \<Rightarrow> None
                | Some rest \<Rightarrow> Some (a # below @ rest))))"

definition get_all_dependent_nodes :: "heap \<Rightarrow> nat \<Rightarrow> flow_node \<Rightarrow> addr list option" where
  "get_all_dependent_nodes h n nd = dependents_of h n (leads_to_nodes nd)"

section \<open>Topology\<close>

text \<open>
  What hashing and resetting leave alone: identity, template and the edges. \<open>same_topo\<close> says two
  heaps have the same nodes with the same topology.
\<close>

definition topo :: "flow_node \<Rightarrow> int \<times> string \<times> node_template \<times> addr list \<times> addr list option \<times> addr option \<times> addr option" where
  "topo nd = (node_id nd, node_type nd, node_template nd, leads_to_nodes nd, main_inputs nd, left_input nd, right_input nd)"

definition same_topo :: "heap \<Rightarrow> heap \<Rightarrow> bool" where
  "same_topo h h' \<longleftrightarrow> (\<forall>a. map_option topo (h a) = map_option topo (h' a))"

definition leads :: "heap \<Rightarrow> addr \<Rightarrow> addr list" where
  "leads h a = (case h a of None \<Rightarrow> [] | Some nd \<Rightarrow> leads_to_nodes nd)"

definition edge :: "heap \<Rightarrow> addr \<Rightarrow> addr \<Rightarrow> bool" where
  "edge h a b \<longleftrightarrow> b \<in> set (leads h a)"

text \<open>A rank that grows along every edge, in both representations of the edges.\<close>

definition ranked :: "heap \<Rightarrow> (addr \<Rightarrow> nat) \<Rightarrow> nat \<Rightarrow> bool" where
  "ranked h r N \<longleftrightarrow>
     (\<forall>a nd. h a = Some nd \<longrightarrow>
        r a \<le> N \<and> (\<forall>b \<in> set (leads_to_nodes nd). h b \<noteq> None \<and> r a < r b)
        \<and> (\<forall>b \<in> set (get_all_inputs nd). h b \<noteq> None \<and> r b < r a))"

lemma same_topo_refl [simp]: "same_topo h h"
  by (simp add: same_topo_def)

lemma same_topo_trans: "same_topo h h1 \<Longrightarrow> same_topo h1 h2 \<Longrightarrow> same_topo h h2"
  by (simp add: same_topo_def)

lemma upd_node_apply: "upd_node a f h b = (if b = a then map_option f (h a) else h b)"
  by (simp add: upd_node_def)

lemma store_hash_apply:
  "store_hash a x h b = (if b = a then map_option (node_hash_update (\<lambda>_. Some x)) (h a) else h b)"
  by (simp add: store_hash_def upd_node_apply)

lemma topo_clear [simp, frame_simps]: "topo (clear_node nd) = topo nd"
  by (simp add: topo_def clear_node_def Let_def)

lemma topo_hash [simp, frame_simps]: "topo (node_hash_update f nd) = topo nd"
  by (simp add: topo_def)

lemma same_topo_upd:
  assumes "same_topo h h1" and "\<And>x. topo (f x) = topo x"
  shows "same_topo h (upd_node a f h1)"
  using assms by (auto simp: same_topo_def option.map_comp o_def upd_node_apply)

lemma same_topo_store: "same_topo h h1 \<Longrightarrow> same_topo h (store_hash a x h1)"
  unfolding store_hash_def by (rule same_topo_upd) simp_all

lemma same_topo_sym: "same_topo h h' \<Longrightarrow> same_topo h' h"
  by (simp add: same_topo_def)

lemma same_topoE:
  assumes "same_topo h h'" and "h a = Some nd"
  obtains nd' where "h' a = Some nd'" and "topo nd' = topo nd"
proof -
  from assms have "map_option topo (h' a) = Some (topo nd)"
    unfolding same_topo_def by (metis option.simps(9))
  then show ?thesis using that by auto
qed

lemma same_topo_None: "same_topo h h' \<Longrightarrow> h' a = None \<longleftrightarrow> h a = None"
  by (metis map_option_is_None same_topo_def)

lemma topo_inputs:
  "topo nd' = topo nd \<Longrightarrow> get_all_inputs nd' = get_all_inputs nd \<and> leads_to_nodes nd' = leads_to_nodes nd"
  by (simp add: topo_def get_all_inputs_def)

lemma same_topo_leads: "same_topo h h' \<Longrightarrow> leads h' = leads h"
proof
  fix a assume st: "same_topo h h'"
  show "leads h' a = leads h a"
  proof (cases "h a")
    case None
    then have "h' a = None" using same_topo_None[OF st] by blast
    with None show ?thesis by (simp add: leads_def)
  next
    case (Some nd)
    from same_topoE[OF st this] obtain nd' where "h' a = Some nd'" and "topo nd' = topo nd" .
    with Some topo_inputs[of nd' nd] show ?thesis by (simp add: leads_def)
  qed
qed

lemma same_topo_ranked:
  assumes st: "same_topo h h'" and rk: "ranked h r N"
  shows "ranked h' r N"
  unfolding ranked_def
proof (intro allI impI)
  fix a nd' assume "h' a = Some nd'"
  from same_topoE[OF same_topo_sym[OF st] this] obtain nd where
    nd: "h a = Some nd" "topo nd = topo nd'" .
  from rk nd(1) have "r a \<le> N \<and> (\<forall>b \<in> set (leads_to_nodes nd). h b \<noteq> None \<and> r a < r b)
        \<and> (\<forall>b \<in> set (get_all_inputs nd). h b \<noteq> None \<and> r b < r a)"
    unfolding ranked_def by blast
  with topo_inputs[OF nd(2)] same_topo_None[OF st]
  show "r a \<le> N \<and> (\<forall>b \<in> set (leads_to_nodes nd'). h' b \<noteq> None \<and> r a < r b)
        \<and> (\<forall>b \<in> set (get_all_inputs nd'). h' b \<noteq> None \<and> r b < r a)"
    by simp
qed

section \<open>Invariants of hashing and resetting\<close>

text \<open>
  Hashing changes the heap by storing hashes only, resetting by storing hashes and clearing nodes:
  whatever these two updates keep, both keep.
\<close>

lemma hash_all_invariant:
  assumes "hash_all D n h as = Some (xs, h')" and "P h"
    and "\<And>a x h. P h \<Longrightarrow> P (store_hash a x h)"
  shows "P h'"
  using assms(1,2)
proof (induction D n h as arbitrary: xs h' rule: hash_all.induct)
  case (3 D n h a as)
  then obtain nd where nd: "h a = Some nd" by (auto split: option.splits)
  show ?case
  proof (cases "hash_cached nd")
    case True
    with 3 nd show ?thesis by (auto split: option.splits)
  next
    case False
    with "3.prems" nd obtain hs h1 ys where
      h1: "hash_all D n h (get_all_inputs nd) = Some (hs, h1)" and
      r: "hash_all D (Suc n) (store_hash a (combine_hash D hs nd) h1) as = Some (ys, h')"
      by (auto split: option.splits)
    from "3.IH"(2)[OF nd False h1 "3.prems"(2)] have "P (store_hash a (combine_hash D hs nd) h1)"
      by (rule assms(3))
    with "3.IH"(3)[OF nd False h1 refl r] show ?thesis by blast
  qed
qed simp_all

lemma reset_all_invariant:
  assumes "reset_all D n deep h as = Some h'" and "P h"
    and store: "\<And>a x h. P h \<Longrightarrow> P (store_hash a x h)"
    and clear: "\<And>a h. P h \<Longrightarrow> P (upd_node a clear_node h)"
  shows "P h'"
  using assms(1,2)
proof (induction D n deep h as arbitrary: h' rule: reset_all.induct)
  case (3 D n deep h a as)
  from "3.prems" obtain nd x h1 where nd: "h a = Some nd" and x: "calculate_hash D n h nd = Some (x, h1)"
    by (auto split: option.splits)
  then have h1: "P h1"
    by (auto simp: calculate_hash_def split: option.splits
          intro: hash_all_invariant[where P = P, OF _ "3.prems"(2)] store)
  show ?case
  proof (cases "node_hash nd \<noteq> Some x \<or> deep")
    case True
    with nd x "3.prems" obtain h2 hs h3 where
      h2: "reset_all D n False (upd_node a clear_node h1) (leads_to_nodes nd) = Some h2" and
      h3: "hash_all D n h2 [a] = Some (hs, h3)" and r: "reset_all D (Suc n) deep h3 as = Some h'"
      by (auto split: option.splits prod.splits)
    from "3.IH"(1)[OF nd x refl True h2] clear[OF h1] have "P h2" by blast
    from hash_all_invariant[where P = P, OF h3 this store] have "P h3" .
    with "3.IH"(2)[OF nd x refl True h2 h3 refl r] show ?thesis by blast
  next
    case False
    with nd x "3.prems" have "reset_all D (Suc n) deep h1 as = Some h'" by auto
    with "3.IH"(3)[OF nd x refl False] h1 show ?thesis by blast
  qed
qed simp_all

lemma hash_all_topo: "hash_all D n h as = Some (xs, h') \<Longrightarrow> same_topo h h'"
  by (erule hash_all_invariant[where P = "same_topo h"]) (auto intro: same_topo_store)

lemma reset_all_topo: "reset_all D n deep h as = Some h' \<Longrightarrow> same_topo h h'"
  by (erule reset_all_invariant[where P = "same_topo h"]) (auto intro: same_topo_store same_topo_upd)

section \<open>Enough fuel on an acyclic graph\<close>

lemma ranked_inputs:
  assumes "ranked h r N" and "h a = Some nd" and "b \<in> set (get_all_inputs nd)"
  shows "h b \<noteq> None" and "r b < r a"
  using assms unfolding ranked_def by blast+

lemma ranked_leads:
  assumes "ranked h r N" and "h a = Some nd" and "b \<in> set (leads_to_nodes nd)"
  shows "h b \<noteq> None" and "r a < r b"
  using assms unfolding ranked_def by blast+

lemma ranked_bound: "ranked h r N \<Longrightarrow> h a = Some nd \<Longrightarrow> r a \<le> N"
  unfolding ranked_def by blast

lemma hash_all_enough:
  assumes "ranked h r N" and "\<forall>a \<in> set as. h a \<noteq> None \<and> r a < n"
  shows "\<exists>xs h'. hash_all D n h as = Some (xs, h') \<and> length xs = length as"
  using assms
proof (induction D n h as rule: hash_all.induct)
  case (3 D n h a as)
  then obtain nd where nd: "h a = Some nd" by auto
  show ?case
  proof (cases "hash_cached nd")
    case True
    with "3.IH"(1)[OF nd True "3.prems"(1)] "3.prems"(2) nd show ?thesis by auto
  next
    case False
    from "3.prems"(2) ranked_inputs[OF "3.prems"(1) nd]
    have "\<forall>b \<in> set (get_all_inputs nd). h b \<noteq> None \<and> r b < n"
      by (fastforce simp: less_Suc_eq)
    from "3.IH"(2)[OF nd False "3.prems"(1) this] obtain hs h1 where
      h1: "hash_all D n h (get_all_inputs nd) = Some (hs, h1)" by blast
    let ?h2 = "store_hash a (combine_hash D hs nd) h1"
    have st: "same_topo h ?h2" using hash_all_topo[OF h1] by (rule same_topo_store)
    with "3.prems"(2) have "\<forall>b \<in> set as. ?h2 b \<noteq> None \<and> r b < Suc n"
      by (simp add: same_topo_None)
    from "3.IH"(3)[OF nd False h1 refl same_topo_ranked[OF st "3.prems"(1)] this]
    show ?thesis using nd False h1 by auto
  qed
qed auto

lemma calculate_hash_enough:
  assumes "ranked h r N" and "h a = Some nd" and "r a \<le> n"
  shows "\<exists>x h1. calculate_hash D n h nd = Some (x, h1)"
proof -
  have "\<forall>b \<in> set (get_all_inputs nd). h b \<noteq> None \<and> r b < n"
    using ranked_inputs[OF assms(1,2)] assms(3) by fastforce
  from hash_all_enough[OF assms(1) this, of D] show ?thesis
    by (auto simp: calculate_hash_def)
qed

lemma calculate_hash_topo: "calculate_hash D n h nd = Some (x, h') \<Longrightarrow> same_topo h h'"
  by (auto simp: calculate_hash_def split: option.splits dest: hash_all_topo)

lemma reset_all_enough:
  assumes "ranked h r N" and "\<forall>a \<in> set as. h a \<noteq> None \<and> 2 * N + 2 \<le> n + r a"
  shows "\<exists>h'. reset_all D n deep h as = Some h'"
  using assms
proof (induction D n deep h as rule: reset_all.induct)
  case (2 D deep h a as)
  then obtain nd where "h a = Some nd" by auto
  from ranked_bound[OF "2.prems"(1) this] "2.prems"(2) show ?case by simp
next
  case (3 D n deep h a as)
  then obtain nd where nd: "h a = Some nd" and fuel: "2 * N + 2 \<le> Suc n + r a" by auto
  have ra: "r a \<le> N" using ranked_bound[OF "3.prems"(1) nd] .
  with fuel have "r a \<le> n" by simp
  from calculate_hash_enough[OF "3.prems"(1) nd this] obtain x h1 where
    x: "calculate_hash D n h nd = Some (x, h1)" by blast
  note st1 = calculate_hash_topo[OF x]
  show ?case
  proof (cases "node_hash nd \<noteq> Some x \<or> deep")
    case True
    let ?h1 = "upd_node a clear_node h1"
    have st2: "same_topo h ?h1" using st1 by (rule same_topo_upd) simp
    have "\<forall>b \<in> set (leads_to_nodes nd). ?h1 b \<noteq> None \<and> 2 * N + 2 \<le> n + r b"
    proof
      fix b assume "b \<in> set (leads_to_nodes nd)"
      from ranked_leads[OF "3.prems"(1) nd this] fuel same_topo_None[OF st2, of b]
      show "?h1 b \<noteq> None \<and> 2 * N + 2 \<le> n + r b" by simp
    qed
    from "3.IH"(1)[OF nd x refl True same_topo_ranked[OF st2 "3.prems"(1)] this] obtain h2 where
      h2: "reset_all D n False ?h1 (leads_to_nodes nd) = Some h2" by blast
    have st3: "same_topo h h2" using st2 reset_all_topo[OF h2] by (rule same_topo_trans)
    have "\<forall>b \<in> set [a]. h2 b \<noteq> None \<and> r b < n"
      using same_topo_None[OF st3, of a] nd fuel ra by simp
    from hash_all_enough[OF same_topo_ranked[OF st3 "3.prems"(1)] this, of D] obtain xs h3 where
      h3: "hash_all D n h2 [a] = Some (xs, h3)" by blast
    have st4: "same_topo h h3" using st3 hash_all_topo[OF h3] by (rule same_topo_trans)
    have "\<forall>b \<in> set as. h3 b \<noteq> None \<and> 2 * N + 2 \<le> Suc n + r b"
      using "3.prems"(2) same_topo_None[OF st4] by simp
    from "3.IH"(2)[OF nd x refl True h2 h3 refl same_topo_ranked[OF st4 "3.prems"(1)] this]
    show ?thesis using nd x True h2 h3 by auto
  next
    case False
    have "\<forall>b \<in> set as. h1 b \<noteq> None \<and> 2 * N + 2 \<le> Suc n + r b"
      using "3.prems"(2) same_topo_None[OF st1] by simp
    from "3.IH"(3)[OF nd x refl False same_topo_ranked[OF st1 "3.prems"(1)] this]
    show ?thesis using nd x False by auto
  qed
qed simp

lemma dependents_of_enough:
  assumes "ranked h r N" and "\<forall>a \<in> set as. h a \<noteq> None \<and> N < n + r a"
  shows "\<exists>xs. dependents_of h n as = Some xs"
  using assms
proof (induction h n as rule: dependents_of.induct)
  case (2 h a as)
  then obtain nd where "h a = Some nd" by auto
  from ranked_bound[OF "2.prems"(1) this] "2.prems"(2) show ?case by simp
next
  case (3 h n a as)
  then obtain nd where nd: "h a = Some nd" and fuel: "N < Suc n + r a" by auto
  have "h b \<noteq> None \<and> N < n + r b" if "b \<in> set (leads_to_nodes nd)" for b
    using ranked_leads[OF "3.prems"(1) nd that] fuel by simp
  then have "\<exists>xs. dependents_of h n (leads_to_nodes nd) = Some xs"
    using "3.IH"(1)[OF nd "3.prems"(1)] by blast
  moreover from this have "\<exists>xs. dependents_of h (Suc n) as = Some xs"
    using "3.IH"(2)[OF nd _ "3.prems"(1)] "3.prems"(2) by auto
  ultimately show ?case using nd by auto
qed simp

lemma dependents_of_set:
  "dependents_of h n as = Some xs \<Longrightarrow> set xs = {b. \<exists>a \<in> set as. (edge h)\<^sup>*\<^sup>* a b}"
proof (induction h n as arbitrary: xs rule: dependents_of.induct)
  case (3 h n a as)
  then obtain nd below rest where nd: "h a = Some nd"
    and below: "dependents_of h n (leads_to_nodes nd) = Some below"
    and rest: "dependents_of h (Suc n) as = Some rest" and xs: "xs = a # below @ rest"
    by (auto split: option.splits)
  have e: "edge h a b \<longleftrightarrow> b \<in> set (leads_to_nodes nd)" for b
    using nd by (simp add: edge_def leads_def)
  have "set below = {b. \<exists>c \<in> set (leads_to_nodes nd). (edge h)\<^sup>*\<^sup>* c b}"
    using "3.IH"(1)[OF nd below] .
  moreover have "(edge h)\<^sup>*\<^sup>* a b \<longleftrightarrow> b = a \<or> (\<exists>c \<in> set (leads_to_nodes nd). (edge h)\<^sup>*\<^sup>* c b)" for b
    using e by (metis converse_rtranclpE converse_rtranclp_into_rtranclp rtranclp.rtrancl_refl)
  ultimately show ?case
    using "3.IH"(2)[OF nd below rest] xs by auto
qed simp_all

end
