(* ===== verification/Exec_Order.thy ===== *)
theory Exec_Order
  imports Flow_Node
begin

text \<open>
  The execution plan of a flow: \<open>util/node_skipper.py\<close> and \<open>util/execution_orderer.py\<close>.

  \<open>in_degree\<close> and \<open>adjacency_list\<close> are default dictionaries whose keys the code never lists, so they
  are total functions with the default value. Nodes are addresses; \<open>nid h a\<close> is \<open>node.node_id\<close>.
  The locale \<open>edge_table\<close> states what the topological sort relies on of the tables that
  \<open>compute_in_degrees_and_adjacency_list\<close> builds, and carries the correctness proof of the sort.
\<close>

definition nid :: "heap \<Rightarrow> addr \<Rightarrow> int" where
  "nid h a = (case h a of None \<Rightarrow> 0 | Some nd \<Rightarrow> node_id nd)"

definition node_correct :: "heap \<Rightarrow> addr \<Rightarrow> bool" where
  "node_correct h a = (case h a of None \<Rightarrow> False | Some nd \<Rightarrow> is_correct nd)"

section \<open>Definitions\<close>

definition determine_nodes_to_skip :: "heap \<Rightarrow> addr list \<Rightarrow> addr list" where
  "determine_nodes_to_skip h nodes =
     (let skip_nodes = [a \<leftarrow> nodes. \<not> node_correct h a]
      in skip_nodes @ concat (map (leads h) skip_nodes))"

type_synonym node_map = "(int, addr) dict"
type_synonym degrees = "int \<Rightarrow> int"
type_synonym adjacency = "int \<Rightarrow> int list"

definition build_node_map :: "heap \<Rightarrow> addr list \<Rightarrow> node_map" where
  "build_node_map h all_nodes = fold (\<lambda>a nm. dict_set (nid h a) a nm) all_nodes []"

definition add_edge :: "heap \<Rightarrow> int \<Rightarrow> addr \<Rightarrow> degrees \<times> adjacency \<times> node_map \<Rightarrow> degrees \<times> adjacency \<times> node_map" where
  "add_edge h u b st =
     (case st of (deg, adj, nm) \<Rightarrow>
        (deg(nid h b := deg (nid h b) + 1),
         adj(u := adj u @ [nid h b]),
         (if dict_get nm (nid h b) = None then dict_set (nid h b) b nm else nm)))"

definition compute_in_degrees_and_adjacency_list ::
  "heap \<Rightarrow> addr list \<Rightarrow> node_map \<Rightarrow> degrees \<times> adjacency \<times> node_map" where
  "compute_in_degrees_and_adjacency_list h all_nodes nm =
     fold (\<lambda>a st. fold (add_edge h (nid h a)) (leads h a) st) all_nodes (\<lambda>_. 0, \<lambda>_. [], nm)"

definition initialize_queue :: "heap \<Rightarrow> addr list \<Rightarrow> addr list \<Rightarrow> degrees \<Rightarrow> int list \<times> int set" where
  "initialize_queue h flow_starts all_nodes deg =
     (let candidates = (if flow_starts \<noteq> [] then flow_starts else all_nodes);
          queue = [i \<leftarrow> map (nid h) candidates. deg i = 0]
      in (queue, set queue))"

text \<open>One decrement of \<open>in_degree\<close>, and one node id of the current stage.\<close>

definition visit_next :: "int \<Rightarrow> degrees \<times> int set \<times> int list \<Rightarrow> degrees \<times> int set \<times> int list" where
  "visit_next v st =
     (case st of (deg, visited, queue) \<Rightarrow>
        let deg' = deg(v := deg v - 1)
        in if deg' v = 0 \<and> v \<notin> visited then (deg', insert v visited, queue @ [v])
           else (deg', visited, queue))"

definition visit_id ::
  "node_map \<Rightarrow> adjacency \<Rightarrow> int \<Rightarrow> (degrees \<times> int set \<times> int list) \<times> addr list
    \<Rightarrow> (degrees \<times> int set \<times> int list) \<times> addr list" where
  "visit_id nm adj u st =
     (case st of (core, stage) \<Rightarrow>
        (case dict_get nm u of
           None \<Rightarrow> (core, stage)
         | Some a \<Rightarrow> (fold visit_next (adj u) core, stage @ [a])))"

definition visit_stage ::
  "node_map \<Rightarrow> adjacency \<Rightarrow> int list \<Rightarrow> degrees \<Rightarrow> int set \<Rightarrow> (degrees \<times> int set \<times> int list) \<times> addr list" where
  "visit_stage nm adj ids deg visited = fold (visit_id nm adj) ids ((deg, visited, []), [])"

text \<open>The targets the loop can still discover; they bound the number of stages.\<close>

definition targets :: "node_map \<Rightarrow> adjacency \<Rightarrow> int set" where
  "targets nm adj = (\<Union>u \<in> set (dict_keys nm). set (adj u))"

lemma visit_next_eq:
  "visit_next v (deg, visited, queue) =
     (if deg v = 1 \<and> v \<notin> visited then (deg(v := 0), insert v visited, queue @ [v])
      else (deg(v := deg v - 1), visited, queue))"
  by (auto simp: visit_next_def Let_def)

lemma visit_id_eq:
  "visit_id nm adj u (core, stage) =
     (case dict_get nm u of None \<Rightarrow> (core, stage) | Some a \<Rightarrow> (fold visit_next (adj u) core, stage @ [a]))"
  by (simp add: visit_id_def)

lemma visit_next_visited:
  "fold visit_next xs (deg, vis, q) = (deg', vis', q') \<Longrightarrow>
     \<exists>new. q' = q @ new \<and> vis' = vis \<union> set new \<and> set new \<subseteq> set xs - vis \<and> distinct new"
proof (induction xs arbitrary: deg vis q)
  case (Cons x xs)
  show ?case
  proof (cases "deg x = 1 \<and> x \<notin> vis")
    case True
    with Cons.prems have "fold visit_next xs (deg(x := 0), insert x vis, q @ [x]) = (deg', vis', q')"
      by (simp add: visit_next_eq)
    from Cons.IH[OF this] obtain new where "q' = (q @ [x]) @ new" "vis' = insert x vis \<union> set new"
      "set new \<subseteq> set xs - insert x vis" "distinct new" by blast
    with True show ?thesis by (intro exI[of _ "x # new"]) auto
  next
    case False
    with Cons.prems have "fold visit_next xs (deg(x := deg x - 1), vis, q) = (deg', vis', q')"
      by (auto simp: visit_next_eq)
    from Cons.IH[OF this] show ?thesis by auto
  qed
qed simp

lemma visit_ids_visited:
  "fold (visit_id nm adj) ids ((deg, vis, q), st) = ((deg', vis', q'), st') \<Longrightarrow>
     \<exists>new. q' = q @ new \<and> vis' = vis \<union> set new \<and> set new \<subseteq> targets nm adj - vis \<and> distinct new"
proof (induction ids arbitrary: deg vis q st)
  case (Cons u ids)
  show ?case
  proof (cases "dict_get nm u")
    case None
    with Cons show ?thesis by (simp add: visit_id_eq)
  next
    case (Some a)
    obtain deg1 vis1 q1 where 1: "fold visit_next (adj u) (deg, vis, q) = (deg1, vis1, q1)"
      by (cases "fold visit_next (adj u) (deg, vis, q)") auto
    from visit_next_visited[OF 1] obtain new1 where
      n1: "q1 = q @ new1" "vis1 = vis \<union> set new1" "set new1 \<subseteq> set (adj u) - vis" "distinct new1" by blast
    from Cons.prems Some 1 have "fold (visit_id nm adj) ids ((deg1, vis1, q1), st @ [a]) = ((deg', vis', q'), st')"
      by (simp add: visit_id_eq)
    from Cons.IH[OF this] obtain new where
      n2: "q' = q1 @ new" "vis' = vis1 \<union> set new" "set new \<subseteq> targets nm adj - vis1" "distinct new" by blast
    have "set (adj u) \<subseteq> targets nm adj"
      using Some by (auto simp: targets_def)
    with n1 n2 show ?thesis by (intro exI[of _ "new1 @ new"]) auto
  qed
qed simp

lemma finite_targets [simp]: "finite (targets nm adj)"
  by (simp add: targets_def dict_keys_def)

lemma visit_stage_measure:
  assumes "visit_stage nm adj queue deg visited = ((deg', visited', queue'), stage)" and "queue \<noteq> []"
  shows "2 * card (targets nm adj - visited') + (if queue' = [] then 0 else 1)
         < Suc (2 * card (targets nm adj - visited))"
proof -
  from assms(1) obtain new where q: "queue' = new" and vis: "visited' = visited \<union> set new"
    and new: "set new \<subseteq> targets nm adj - visited"
    using visit_ids_visited[of nm adj queue deg visited "[]" "[]" deg' visited' queue' stage]
    unfolding visit_stage_def by auto
  show ?thesis
  proof (cases "new = []")
    case True
    with q vis show ?thesis by simp
  next
    case False
    with new vis have "targets nm adj - visited' \<subset> targets nm adj - visited"
      by (auto simp: neq_Nil_conv)
    then have "card (targets nm adj - visited') < card (targets nm adj - visited)"
      by (intro psubset_card_mono) simp_all
    then show ?thesis by simp
  qed
qed

function perform_topological_sort ::
  "node_map \<Rightarrow> adjacency \<Rightarrow> int list \<Rightarrow> degrees \<Rightarrow> int set \<Rightarrow> addr list list" where
  "perform_topological_sort nm adj queue deg visited =
     (if queue = [] then []
      else (case visit_stage nm adj queue deg visited of
              ((deg', visited', queue'), stage) \<Rightarrow>
                (if stage \<noteq> [] then [stage] else [])
                @ perform_topological_sort nm adj queue' deg' visited'))"
  by pat_completeness auto
termination
  by (relation "measure (\<lambda>(nm, adj, queue, deg, visited).
        2 * card (targets nm adj - visited) + (if queue = [] then 0 else 1))")
     (auto dest: visit_stage_measure[OF sym] split del: if_split)

declare perform_topological_sort.simps [simp del]

definition determine_execution_order :: "heap \<Rightarrow> addr list \<Rightarrow> addr list \<Rightarrow> py_error + addr list list" where
  "determine_execution_order h all_nodes flow_starts =
     (case compute_in_degrees_and_adjacency_list h all_nodes (build_node_map h all_nodes) of
        (deg, adj, nm) \<Rightarrow>
          (case initialize_queue h flow_starts all_nodes deg of
             (queue, visited) \<Rightarrow>
               (let stages = perform_topological_sort nm adj queue deg visited
                in if length (concat stages) \<noteq> length nm
                   then Inl (PyException ''Cycle detected in the graph. Execution order cannot be determined.'')
                   else Inr stages)))"

record execution_plan =
  skip_nodes :: "addr list"
  stages :: "addr list list"

definition plan_all_nodes :: "execution_plan \<Rightarrow> addr list" where
  "plan_all_nodes p = concat (stages p)"

definition plan_node_count :: "execution_plan \<Rightarrow> nat" where
  "plan_node_count p = sum_list (map length (stages p))"

definition compute_execution_plan :: "heap \<Rightarrow> addr list \<Rightarrow> addr list \<Rightarrow> py_error + execution_plan" where
  "compute_execution_plan h nodes flow_starts =
     (let skip = determine_nodes_to_skip h nodes
      in case determine_execution_order h [a \<leftarrow> nodes. a \<notin> set skip] flow_starts of
           Inl e \<Rightarrow> Inl e
         | Inr st \<Rightarrow> Inr \<lparr>skip_nodes = skip, stages = st\<rparr>)"

section \<open>Counting the edges that are still open\<close>

text \<open>
  \<open>open_edges E P v\<close> counts the edges into \<open>v\<close> whose source is not yet in a stage; \<open>in_order\<close> says
  that every predecessor of a stage's member is in an earlier stage.
\<close>

definition open_edges :: "(int \<times> int) list \<Rightarrow> int set \<Rightarrow> int \<Rightarrow> nat" where
  "open_edges E P v = length [e \<leftarrow> E. snd e = v \<and> fst e \<notin> P]"

fun in_order :: "(int \<times> int) list \<Rightarrow> int set \<Rightarrow> int list list \<Rightarrow> bool" where
  "in_order E P [] = True"
| "in_order E P (s # ss) =
     ((\<forall>v \<in> set s. \<forall>u. (u, v) \<in> set E \<longrightarrow> u \<in> P) \<and> in_order E (P \<union> set s) ss)"

lemma open_edges_insert:
  "u \<notin> P \<Longrightarrow> open_edges E P v =
     open_edges E (insert u P) v + count_list (map snd [e \<leftarrow> E. fst e = u]) v"
  by (induction E) (auto simp: open_edges_def)

lemma open_edges_0: "open_edges E P v = 0 \<longleftrightarrow> (\<forall>u. (u, v) \<in> set E \<longrightarrow> u \<in> P)"
  by (force simp: open_edges_def filter_empty_conv)

lemma in_order_stages:
  assumes "in_order E P ss" and "(u, v) \<in> set E" and "j < length ss" and "v \<in> set (ss ! j)" and "u \<notin> P"
  shows "\<exists>i < j. u \<in> set (ss ! i)"
  using assms
proof (induction ss arbitrary: P j)
  case (Cons s ss)
  show ?case
  proof (cases j)
    case 0
    with Cons.prems show ?thesis by auto
  next
    case (Suc k)
    show ?thesis
    proof (cases "u \<in> set s")
      case True
      with Suc show ?thesis by (intro exI[of _ 0]) simp
    next
      case False
      with Suc Cons.prems Cons.IH[of "P \<union> set s" k] obtain i where "i < k" "u \<in> set (ss ! i)" by auto
      with Suc show ?thesis by (intro exI[of _ "Suc i"]) simp
    qed
  qed
qed simp

lemma visit_next_counts:
  assumes "\<And>v. deg v = int (f v + count_list xs v)"
    and "fold visit_next xs (deg, vis, q) = (deg', vis', q')"
  shows "(\<forall>v. deg' v = int (f v)) \<and> vis' = vis \<union> {v \<in> set xs. f v = 0}"
  using assms
proof (induction xs arbitrary: deg vis q)
  case (Cons x xs)
  have deg1: "(deg(x := deg x - 1)) v = int (f v + count_list xs v)" for v
    using Cons.prems(1)[of v] by auto
  show ?case
  proof (cases "deg x = 1 \<and> x \<notin> vis")
    case True
    with Cons.prems(1)[of x] have x: "f x = 0" "count_list xs x = 0" by auto
    from True Cons.prems(2) have "fold visit_next xs (deg(x := deg x - 1), insert x vis, q @ [x]) = (deg', vis', q')"
      by (simp add: visit_next_eq)
    from Cons.IH[of "deg(x := deg x - 1)" "insert x vis" "q @ [x]", OF deg1 this] x show ?thesis by auto
  next
    case False
    with Cons.prems(2) have "fold visit_next xs (deg(x := deg x - 1), vis, q) = (deg', vis', q')"
      by (auto simp: visit_next_eq)
    from Cons.IH[of "deg(x := deg x - 1)" vis q, OF deg1 this]
    have ih: "\<forall>v. deg' v = int (f v)" "vis' = vis \<union> {v \<in> set xs. f v = 0}" by auto
    have "f x = 0 \<Longrightarrow> x \<in> set xs \<or> x \<in> vis"
      using False Cons.prems(1)[of x] by (auto simp: count_list_0_iff)
    with ih show ?thesis by auto
  qed
qed auto

section \<open>What the sort relies on, and what it then guarantees\<close>

definition sort_inv :: "(int \<times> int) list \<Rightarrow> node_map \<Rightarrow> int set \<Rightarrow> degrees \<Rightarrow> int set \<Rightarrow> bool" where
  "sort_inv E nm P deg vis \<longleftrightarrow>
     (\<forall>v. deg v = int (open_edges E P v)) \<and> (\<forall>v \<in> vis. open_edges E P v = 0)
     \<and> (\<forall>v. 0 < open_edges E {} v \<and> v \<notin> vis \<longrightarrow> 0 < open_edges E P v) \<and> vis - P \<subseteq> dom (map_of nm)"

locale edge_table =
  fixes E :: "(int \<times> int) list"
    and adj :: adjacency
    and deg0 :: degrees
    and nm :: node_map
    and ident :: "addr \<Rightarrow> int"
  assumes adj_edges: "adj u = map snd [e \<leftarrow> E. fst e = u]"
    and deg_edges: "deg0 v = int (length [e \<leftarrow> E. snd e = v])"
    and edge_nodes: "(u, v) \<in> set E \<Longrightarrow> u \<in> dom (map_of nm) \<and> v \<in> dom (map_of nm)"
    and ident_key: "map_of nm u = Some a \<Longrightarrow> ident a = u"
    and nm_ok: "dict_ok nm"
begin

lemma visit_id_inv:
  assumes inv: "sort_inv E nm P deg vis" and u: "u \<in> vis" "u \<notin> P"
    and step: "visit_id nm adj u ((deg, vis, q), st) = ((deg', vis', q'), st')"
  shows "sort_inv E nm (insert u P) deg' vis' \<and> map ident st' = map ident st @ [u]"
proof -
  from inv u obtain a where a: "map_of nm u = Some a" by (auto simp: sort_inv_def)
  with step have fold: "fold visit_next (adj u) (deg, vis, q) = (deg', vis', q')" and st: "st' = st @ [a]"
    by (simp_all add: visit_id_eq)
  have cnt: "open_edges E P v = open_edges E (insert u P) v + count_list (adj u) v" for v
    unfolding adj_edges using u(2) by (rule open_edges_insert)
  have deg: "deg v = int (open_edges E (insert u P) v + count_list (adj u) v)" for v
    using inv cnt by (simp add: sort_inv_def)
  from visit_next_counts[OF deg fold]
  have d': "\<forall>v. deg' v = int (open_edges E (insert u P) v)"
    and v': "vis' = vis \<union> {v \<in> set (adj u). open_edges E (insert u P) v = 0}" by auto
  have "set (adj u) \<subseteq> dom (map_of nm)"
  proof
    fix b assume "b \<in> set (adj u)"
    then have "(u, b) \<in> set E" by (auto simp: adj_edges)
    then show "b \<in> dom (map_of nm)" using edge_nodes by blast
  qed
  moreover have "0 < open_edges E (insert u P) v" if "0 < open_edges E {} v" "v \<notin> vis'" for v
  proof (cases "v \<in> set (adj u)")
    case True
    with that v' show ?thesis by auto
  next
    case False
    with cnt[of v] have "open_edges E (insert u P) v = open_edges E P v"
      by (simp add: count_list_0_iff)
    with inv that v' show ?thesis by (simp add: sort_inv_def)
  qed
  moreover have "open_edges E (insert u P) v = 0" if "v \<in> vis'" for v
  proof (cases "v \<in> vis")
    case True
    with inv have "open_edges E P v = 0" by (simp add: sort_inv_def)
    with cnt[of v] show ?thesis by simp
  next
    case False
    with that v' show ?thesis by simp
  qed
  moreover have "vis - P \<subseteq> dom (map_of nm)" using inv by (simp add: sort_inv_def)
  ultimately have "sort_inv E nm (insert u P) deg' vis'"
    unfolding sort_inv_def using d' v' by blast
  with st ident_key[OF a] show ?thesis by simp
qed

lemma visit_ids_inv:
  assumes "sort_inv E nm P deg vis" and "set ids \<subseteq> vis" and "set ids \<inter> P = {}" and "distinct ids"
    and "fold (visit_id nm adj) ids ((deg, vis, q), st) = ((deg', vis', q'), st')"
  shows "sort_inv E nm (P \<union> set ids) deg' vis' \<and> map ident st' = map ident st @ ids"
  using assms
proof (induction ids arbitrary: P deg vis q st)
  case (Cons u ids)
  obtain deg1 vis1 q1 st1 where 1: "visit_id nm adj u ((deg, vis, q), st) = ((deg1, vis1, q1), st1)"
    by (metis surj_pair)
  from Cons.prems(2,3) have u: "u \<in> vis" "u \<notin> P" by auto
  note inv1 = visit_id_inv[OF Cons.prems(1) u 1]
  have "fold (visit_id nm adj) [u] ((deg, vis, q), st) = ((deg1, vis1, q1), st1)" using 1 by simp
  from visit_ids_visited[OF this] have "vis \<subseteq> vis1" by auto
  with Cons.prems have "set ids \<subseteq> vis1" "set ids \<inter> insert u P = {}" "distinct ids" by auto
  moreover have "fold (visit_id nm adj) ids ((deg1, vis1, q1), st1) = ((deg', vis', q'), st')"
    using Cons.prems(5) 1 by simp
  ultimately show ?case
    using Cons.IH[of "insert u P" deg1 vis1 q1 st1] inv1 by simp
qed simp

definition sorted_from :: "int set \<Rightarrow> int list \<Rightarrow> int list list \<Rightarrow> bool" where
  "sorted_from P q ss \<longleftrightarrow>
     distinct (concat ss) \<and> set (concat ss) \<inter> P = {} \<and> set q \<subseteq> set (concat ss)
     \<and> set (concat ss) \<subseteq> dom (map_of nm) \<and> in_order E P ss
     \<and> (\<forall>v. 0 < open_edges E {} v \<and> v \<notin> P \<union> set (concat ss) \<longrightarrow> 0 < open_edges E (P \<union> set (concat ss)) v)"

lemma sorted_from_Cons:
  assumes "sorted_from (P \<union> set q) q1 ss" and "\<forall>v \<in> set q. \<forall>u. (u, v) \<in> set E \<longrightarrow> u \<in> P"
    and "set q \<subseteq> dom (map_of nm)" and "distinct q" and "set q \<inter> P = {}"
  shows "sorted_from P q (q # ss)"
proof -
  obtain C where C: "concat ss = C" by blast
  with assms show ?thesis
    unfolding sorted_from_def by (auto simp del: set_concat simp: Un_assoc)
qed

lemma perform_sorted:
  assumes "sort_inv E nm P deg vis" and "vis = P \<union> set q" and "distinct q" and "set q \<inter> P = {}"
  shows "sorted_from P q (map (map ident) (perform_topological_sort nm adj q deg vis))"
  using assms
proof (induction "2 * card (targets nm adj - vis) + (if q = [] then 0 else 1)"
    arbitrary: P q deg vis rule: less_induct)
  case less
  show ?case
  proof (cases "q = []")
    case True
    with less.prems show ?thesis
      by (simp add: sorted_from_def perform_topological_sort.simps sort_inv_def)
  next
    case False
    obtain deg1 vis1 q1 st1 where st: "visit_stage nm adj q deg vis = ((deg1, vis1, q1), st1)"
      by (metis surj_pair)
    then have f: "fold (visit_id nm adj) q ((deg, vis, []), []) = ((deg1, vis1, q1), st1)"
      by (simp add: visit_stage_def)
    have "set q \<subseteq> vis" using less.prems by simp
    from visit_ids_inv[OF less.prems(1) this less.prems(4,3) f]
    have inv1: "sort_inv E nm (P \<union> set q) deg1 vis1" and st1: "map ident st1 = q" by simp_all
    from visit_ids_visited[OF f] have vis1: "vis1 = (P \<union> set q) \<union> set q1"
      "distinct q1" "set q1 \<inter> (P \<union> set q) = {}"
      using less.prems(2) by auto
    let ?rest = "map (map ident) (perform_topological_sort nm adj q1 deg1 vis1)"
    from visit_stage_measure[OF st False] False
    have "2 * card (targets nm adj - vis1) + (if q1 = [] then 0 else 1)
            < 2 * card (targets nm adj - vis) + (if q = [] then 0 else 1)" by simp
    from less.hyps[OF this inv1 vis1(1,2,3)]
    have ih: "sorted_from (P \<union> set q) q1 ?rest" .
    have "st1 \<noteq> []" using st1 False by auto
    then have eq: "map (map ident) (perform_topological_sort nm adj q deg vis) = q # ?rest"
      using False st st1 by (subst perform_topological_sort.simps) simp
    have "\<forall>v \<in> set q. \<forall>u. (u, v) \<in> set E \<longrightarrow> u \<in> P"
      using less.prems(1,2) open_edges_0 by (auto simp: sort_inv_def)
    moreover have "set q \<subseteq> dom (map_of nm)" using less.prems(1,2,4) by (auto simp: sort_inv_def)
    ultimately show ?thesis
      using sorted_from_Cons[OF ih] less.prems(3,4) unfolding eq by blast
  qed
qed

lemma visit_ids_known:
  "fold (visit_id nm adj) [u \<leftarrow> ids. u \<in> dom (map_of nm)] st = fold (visit_id nm adj) ids st"
  by (induction ids arbitrary: st) (auto simp: visit_id_def split: option.splits prod.splits)

lemma perform_known:
  "perform_topological_sort nm adj [u \<leftarrow> q. u \<in> dom (map_of nm)] deg vis
     = perform_topological_sort nm adj q deg vis"
proof (cases "[u \<leftarrow> q. u \<in> dom (map_of nm)] = []")
  case True
  then have "visit_stage nm adj q deg vis = ((deg, vis, []), [])"
    using visit_ids_known[of q] by (simp add: visit_stage_def)
  with True show ?thesis
    by (simp add: perform_topological_sort.simps[of nm adj "[]"] perform_topological_sort.simps[of nm adj q])
next
  case False
  then have "q \<noteq> []" by auto
  with False show ?thesis
    by (simp add: perform_topological_sort.simps[of nm adj q] visit_stage_def visit_ids_known
        perform_topological_sort.simps[of nm adj "[u \<leftarrow> q. u \<in> dom (map_of nm)]"])
qed

lemma open_edges_outside:
  assumes "J \<inter> dom (map_of nm) = {}"
  shows "open_edges E J v = open_edges E {} v"
proof -
  have "fst e \<notin> J" if "e \<in> set E" for e
  proof -
    from edge_nodes[of "fst e" "snd e"] that have "fst e \<in> dom (map_of nm)" by simp
    with assms show ?thesis by blast
  qed
  then have "[e \<leftarrow> E. snd e = v \<and> fst e \<notin> J] = [e \<leftarrow> E. snd e = v]"
    by (intro filter_cong[OF refl]) blast
  then show ?thesis by (simp add: open_edges_def)
qed

lemma perform_correct:
  assumes q: "\<forall>u \<in> set q. deg0 u = 0" "distinct q"
  defines "ss \<equiv> map (map ident) (perform_topological_sort nm adj q deg0 (set q))"
    and "J \<equiv> set q - dom (map_of nm)"
  shows "sorted_from J [u \<leftarrow> q. u \<in> dom (map_of nm)] ss"
proof -
  have "J \<inter> dom (map_of nm) = {}" by (auto simp: J_def)
  note open_J = open_edges_outside[OF this]
  have deg: "deg0 v = int (open_edges E J v)" for v
    unfolding open_J by (simp add: deg_edges open_edges_def)
  with q have "sort_inv E nm J deg0 (set q)"
    by (auto simp: sort_inv_def J_def open_J[unfolded J_def])
  from perform_sorted[OF this, of "[u \<leftarrow> q. u \<in> dom (map_of nm)]"] q
  show ?thesis unfolding ss_def perform_known by (force simp: J_def)
qed

lemma sorted_complete:
  assumes s: "sorted_from J q ss" and J: "J \<inter> dom (map_of nm) = {}"
    and start: "\<And>v. v \<in> dom (map_of nm) \<Longrightarrow> open_edges E {} v = 0 \<Longrightarrow> v \<in> set q"
    and acyc: "acyclic (set E)"
  shows "set (concat ss) = dom (map_of nm)"
proof (rule ccontr)
  let ?S = "dom (map_of nm) - set (concat ss)"
  assume "set (concat ss) \<noteq> dom (map_of nm)"
  with s obtain x where x: "x \<in> ?S" unfolding sorted_from_def by blast
  have "wf (set E)" using acyc by (simp add: finite_acyclic_wf)
  from wfE_min[OF this x] obtain v where v: "v \<in> ?S" and min: "\<And>u. (u, v) \<in> set E \<Longrightarrow> u \<notin> ?S" by auto
  from v start[of v] s have "0 < open_edges E {} v" unfolding sorted_from_def by fastforce
  moreover have "v \<notin> J \<union> set (concat ss)" using v J by blast
  ultimately have "0 < open_edges E (J \<union> set (concat ss)) v"
    using s unfolding sorted_from_def by blast
  then obtain u where "(u, v) \<in> set E" "u \<notin> set (concat ss)"
    using open_edges_0[of E "J \<union> set (concat ss)" v] by auto
  with edge_nodes min show False by blast
qed

lemma sorted_acyclic:
  assumes s: "sorted_from J q ss" and J: "J \<inter> dom (map_of nm) = {}"
    and all: "set (concat ss) = dom (map_of nm)"
  shows "acyclic (set E)"
proof -
  let ?stage = "\<lambda>v. LEAST i. i < length ss \<and> v \<in> set (ss ! i)"
  have "?stage u < ?stage v" if e: "(u, v) \<in> set E" for u v
  proof -
    from edge_nodes[OF e] all obtain s where "s \<in> set ss" "v \<in> set s" by fastforce
    then have "\<exists>i. i < length ss \<and> v \<in> set (ss ! i)" by (metis in_set_conv_nth)
    then have v: "?stage v < length ss \<and> v \<in> set (ss ! ?stage v)" by (rule LeastI_ex)
    have "u \<notin> J" using edge_nodes[OF e] J by blast
    with in_order_stages[OF _ e, of J ss "?stage v"] s v
    obtain i where i: "i < ?stage v" "u \<in> set (ss ! i)" unfolding sorted_from_def by auto
    with v have "i < length ss \<and> u \<in> set (ss ! i)" by simp
    then have "?stage u \<le> i" by (rule Least_le)
    with i show ?thesis by simp
  qed
  then have "set E \<subseteq> measure ?stage" by auto
  then show ?thesis by (metis acyclic_subset wf_acyclic wf_measure)
qed

end

section \<open>The tables of the code meet the interface\<close>

text \<open>The edges of the graph in the order the code adds them to its tables.\<close>

definition edge_list :: "heap \<Rightarrow> addr list \<Rightarrow> (int \<times> int) list" where
  "edge_list h nodes = concat (map (\<lambda>a. map (\<lambda>b. (nid h a, nid h b)) (leads h a)) nodes)"

definition tables :: "heap \<Rightarrow> addr list \<Rightarrow> degrees \<times> adjacency \<times> node_map" where
  "tables h nodes = compute_in_degrees_and_adjacency_list h nodes (build_node_map h nodes)"

definition tables_ok ::
  "heap \<Rightarrow> (int \<times> int) list \<Rightarrow> int set \<Rightarrow> degrees \<times> adjacency \<times> node_map \<Rightarrow> bool" where
  "tables_ok h E V st =
     (case st of (deg, adj, nm) \<Rightarrow>
        (\<forall>v. deg v = int (length [e \<leftarrow> E. snd e = v])) \<and> (\<forall>u. adj u = map snd [e \<leftarrow> E. fst e = u])
        \<and> dict_ok nm \<and> (\<forall>u a. map_of nm u = Some a \<longrightarrow> nid h a = u)
        \<and> dom (map_of nm) = V \<union> snd ` set E)"

lemma tables_okI:
  assumes "\<And>v. deg v = int (length [e \<leftarrow> E. snd e = v])" and "\<And>u. adj u = map snd [e \<leftarrow> E. fst e = u]"
    and "dict_ok nm" and "\<And>u a. map_of nm u = Some a \<Longrightarrow> nid h a = u"
    and "dom (map_of nm) = V \<union> snd ` set E"
  shows "tables_ok h E V (deg, adj, nm)"
  using assms by (simp add: tables_ok_def)

lemma tables_ok_edge:
  assumes "tables_ok h E V st"
  shows "tables_ok h (E @ [(u, nid h b)]) V (add_edge h u b st)"
proof -
  obtain deg adj nm where st: "st = (deg, adj, nm)" by (cases st) auto
  let ?nm = "if dict_get nm (nid h b) = None then dict_set (nid h b) b nm else nm"
  from assms st have nm: "dict_ok nm" "\<forall>u a. map_of nm u = Some a \<longrightarrow> nid h a = u"
    "dom (map_of nm) = V \<union> snd ` set E" by (simp_all add: tables_ok_def)
  have dom: "dom (map_of ?nm) = insert (nid h b) (dom (map_of nm))"
    by (cases "dict_get nm (nid h b)") (auto simp: dom_dict_set simp del: map_of_dict_set)
  have "tables_ok h (E @ [(u, nid h b)]) V
      (deg(nid h b := deg (nid h b) + 1), adj(u := adj u @ [nid h b]), ?nm)"
  proof (rule tables_okI)
    show "dom (map_of ?nm) = V \<union> snd ` set (E @ [(u, nid h b)])"
      unfolding dom nm(3) by simp
    show "nid h a = w" if "map_of ?nm w = Some a" for w a
      using that nm(2) by (cases "dict_get nm (nid h b)") (auto split: if_splits)
    show "dict_ok ?nm" using nm(1) by simp
  qed (use assms st in \<open>simp_all add: tables_ok_def\<close>)
  then show ?thesis by (simp add: add_edge_def st)
qed

lemma tables_ok_edges:
  "tables_ok h E V st \<Longrightarrow> tables_ok h (E @ map (\<lambda>b. (u, nid h b)) bs) V (fold (add_edge h u) bs st)"
proof (induction bs arbitrary: E st)
  case (Cons b bs)
  from Cons.IH[OF tables_ok_edge[OF Cons.prems]] show ?case by simp
qed simp

lemma tables_ok_nodes:
  "tables_ok h E V st \<Longrightarrow>
     tables_ok h (E @ edge_list h as) V (fold (\<lambda>a. fold (add_edge h (nid h a)) (leads h a)) as st)"
proof (induction as arbitrary: E st)
  case (Cons a as)
  from Cons.IH[OF tables_ok_edges[OF Cons.prems, of "nid h a" "leads h a"]]
  show ?case by (simp add: edge_list_def)
qed (simp add: edge_list_def)

lemma build_node_map_ok:
  "dict_ok (build_node_map h as) \<and> dom (map_of (build_node_map h as)) = nid h ` set as
     \<and> (\<forall>u a. map_of (build_node_map h as) u = Some a \<longrightarrow> nid h a = u)"
proof (induction as rule: rev_induct)
  case (snoc a as)
  have "build_node_map h (as @ [a]) = dict_set (nid h a) a (build_node_map h as)"
    by (simp add: build_node_map_def)
  then show ?case
    using snoc.IH dom_dict_set[of "nid h a" a "build_node_map h as"] by (simp del: dom_fun_upd fun_upd_apply) simp
qed (simp add: build_node_map_def)

lemma tables_ok: "tables_ok h (edge_list h nodes) (nid h ` set nodes) (tables h nodes)"
proof -
  have "tables_ok h [] (nid h ` set nodes) (\<lambda>_. 0, \<lambda>_. [], build_node_map h nodes)"
    using build_node_map_ok[of h nodes] by (simp add: tables_ok_def)
  from tables_ok_nodes[OF this] show ?thesis
    by (simp add: tables_def compute_in_degrees_and_adjacency_list_def)
qed

abbreviation tab_deg :: "heap \<Rightarrow> addr list \<Rightarrow> degrees" where "tab_deg h nodes \<equiv> fst (tables h nodes)"
abbreviation tab_adj :: "heap \<Rightarrow> addr list \<Rightarrow> adjacency" where "tab_adj h nodes \<equiv> fst (snd (tables h nodes))"
abbreviation tab_map :: "heap \<Rightarrow> addr list \<Rightarrow> node_map" where "tab_map h nodes \<equiv> snd (snd (tables h nodes))"

interpretation exec: edge_table "edge_list h nodes" "tab_adj h nodes" "tab_deg h nodes" "tab_map h nodes" "nid h"
  for h nodes
proof
  note ok = tables_ok[of h nodes, unfolded tables_ok_def]
  show "tab_adj h nodes u = map snd [e \<leftarrow> edge_list h nodes. fst e = u]"
    and "tab_deg h nodes v = int (length [e \<leftarrow> edge_list h nodes. snd e = v])"
    and "dict_ok (tab_map h nodes)"
    and "map_of (tab_map h nodes) u = Some a \<Longrightarrow> nid h a = u" for u v a
    using ok by (auto split: prod.splits)
  show "u \<in> dom (map_of (tab_map h nodes)) \<and> v \<in> dom (map_of (tab_map h nodes))"
    if "(u, v) \<in> set (edge_list h nodes)" for u v
  proof -
    have "dom (map_of (tab_map h nodes)) = nid h ` set nodes \<union> snd ` set (edge_list h nodes)"
      using ok by (auto split: prod.splits)
    moreover have "u \<in> nid h ` set nodes" using that by (auto simp: edge_list_def)
    moreover have "v \<in> snd ` set (edge_list h nodes)" using that by force
    ultimately show ?thesis by simp
  qed
qed

section \<open>The execution order\<close>

definition start_ids :: "heap \<Rightarrow> addr list \<Rightarrow> addr list \<Rightarrow> int list" where
  "start_ids h nodes flow_starts =
     [i \<leftarrow> map (nid h) (if flow_starts \<noteq> [] then flow_starts else nodes). tab_deg h nodes i = 0]"

definition sort_result :: "heap \<Rightarrow> addr list \<Rightarrow> addr list \<Rightarrow> addr list list" where
  "sort_result h nodes flow_starts =
     perform_topological_sort (tab_map h nodes) (tab_adj h nodes) (start_ids h nodes flow_starts)
       (tab_deg h nodes) (set (start_ids h nodes flow_starts))"

lemma determine_execution_order_eq:
  "determine_execution_order h nodes flow_starts =
     (if length (concat (sort_result h nodes flow_starts)) \<noteq> length (tab_map h nodes)
      then Inl (PyException ''Cycle detected in the graph. Execution order cannot be determined.'')
      else Inr (sort_result h nodes flow_starts))"
  by (auto simp: determine_execution_order_def tables_def[symmetric] initialize_queue_def sort_result_def
      start_ids_def Let_def split: prod.splits)

lemma dom_tab_map:
  "dom (map_of (tab_map h nodes)) = nid h ` (set nodes \<union> (\<Union>a \<in> set nodes. set (leads h a)))"
proof -
  have "dom (map_of (tab_map h nodes)) = nid h ` set nodes \<union> snd ` set (edge_list h nodes)"
    using tables_ok[of h nodes] by (auto simp: tables_ok_def split: prod.splits)
  moreover have "snd ` set (edge_list h nodes) = nid h ` (\<Union>a \<in> set nodes. set (leads h a))"
    by (force simp: edge_list_def)
  ultimately show ?thesis by (simp add: image_Un)
qed

lemma length_tab_map: "length (tab_map h nodes) = card (dom (map_of (tab_map h nodes)))"
  using distinct_card[of "map fst (tab_map h nodes)"] exec.nm_ok[of h nodes]
  by (simp add: dict_ok_def dom_map_of_conv_image_fst)

lemma sort_result_sorted:
  assumes "distinct (map (nid h) (if flow_starts \<noteq> [] then flow_starts else nodes))"
  shows "exec.sorted_from h nodes (set (start_ids h nodes flow_starts) - dom (map_of (tab_map h nodes)))
           [u \<leftarrow> start_ids h nodes flow_starts. u \<in> dom (map_of (tab_map h nodes))]
           (map (map (nid h)) (sort_result h nodes flow_starts))"
  unfolding sort_result_def
  by (rule exec.perform_correct) (use assms in \<open>simp_all add: start_ids_def del: map_map\<close>)

lemma sorted_all_iff:
  assumes "exec.sorted_from h nodes J q (map (map (nid h)) ss)"
  shows "length (concat ss) = length (tab_map h nodes)
    \<longleftrightarrow> set (concat (map (map (nid h)) ss)) = dom (map_of (tab_map h nodes))"
proof -
  let ?ids = "concat (map (map (nid h)) ss)"
  from assms have d: "distinct ?ids" and sub: "set ?ids \<subseteq> dom (map_of (tab_map h nodes))"
    unfolding exec.sorted_from_def by blast+
  have "length (concat ss) = length ?ids" by (simp add: map_concat[symmetric])
  also have "\<dots> = card (set ?ids)" using d by (rule distinct_card[symmetric])
  finally show ?thesis
    unfolding length_tab_map using sub card_subset_eq[OF _ sub] by (auto simp: finite_dom_map_of)
qed

lemma execution_order_facts:
  assumes "distinct (map (nid h) (if flow_starts \<noteq> [] then flow_starts else nodes))"
    and "determine_execution_order h nodes flow_starts = Inr ss"
  shows "distinct (map (nid h) (concat ss))
    \<and> nid h ` set (concat ss) = nid h ` (set nodes \<union> (\<Union>a \<in> set nodes. set (leads h a)))
    \<and> (\<forall>a \<in> set nodes. \<forall>b \<in> set (leads h a). \<forall>j < length ss. nid h b \<in> nid h ` set (ss ! j) \<longrightarrow>
         (\<exists>i < j. nid h a \<in> nid h ` set (ss ! i)))"
proof -
  let ?J = "set (start_ids h nodes flow_starts) - dom (map_of (tab_map h nodes))"
  let ?ids = "map (map (nid h)) ss"
  from assms(2) have ss: "ss = sort_result h nodes flow_starts"
    and len: "length (concat ss) = length (tab_map h nodes)"
    by (auto simp: determine_execution_order_eq split: if_splits)
  note s = sort_result_sorted[OF assms(1), folded ss]
  from s have ids: "distinct (concat ?ids)" and ord: "in_order (edge_list h nodes) ?J ?ids"
    unfolding exec.sorted_from_def by blast+
  have "set (concat ?ids) = dom (map_of (tab_map h nodes))"
    using sorted_all_iff[OF s] len by blast
  then have all: "nid h ` set (concat ss) = nid h ` (set nodes \<union> (\<Union>a \<in> set nodes. set (leads h a)))"
    unfolding dom_tab_map map_concat[symmetric] set_map .
  have "\<exists>i < j. nid h a \<in> nid h ` set (ss ! i)"
    if "a \<in> set nodes" "b \<in> set (leads h a)" "j < length ss" "nid h b \<in> nid h ` set (ss ! j)" for a b j
  proof -
    have e: "(nid h a, nid h b) \<in> set (edge_list h nodes)" using that unfolding edge_list_def by auto
    have "nid h a \<notin> ?J" using exec.edge_nodes[OF e] by blast
    with in_order_stages[OF ord e, of j] that obtain i where "i < j" "nid h a \<in> set (?ids ! i)" by auto
    with that show ?thesis by (intro exI[of _ i]) simp
  qed
  with ids all show ?thesis unfolding map_concat by blast
qed

text \<open>
  C1: An execution order the code returns is valid: it lists every node and every successor of a node
  exactly once (by node id), and when \<open>a\<close> leads to \<open>b\<close>, the stage of \<open>a\<close> is strictly before the
  stage of \<open>b\<close>, so the nodes of one stage never depend on each other and may run in parallel. The
  starting nodes only have to carry distinct ids; starting nodes outside the node list are harmless.
\<close>
theorem execution_order_valid:
  assumes "distinct (map (nid h) (if flow_starts \<noteq> [] then flow_starts else nodes))"
    and "determine_execution_order h nodes flow_starts = Inr ss"
  shows "distinct (map (nid h) (concat ss))
    \<and> nid h ` set (concat ss) = nid h ` (set nodes \<union> (\<Union>a \<in> set nodes. set (leads h a)))
    \<and> (\<forall>a \<in> set nodes. \<forall>b \<in> set (leads h a). \<forall>j < length ss. nid h b \<in> nid h ` set (ss ! j) \<longrightarrow>
         (\<exists>i < j. nid h a \<in> nid h ` set (ss ! i)))"
  using assms by (rule execution_order_facts)

text \<open>
  C40: \<open>determine_execution_order\<close> refuses exactly when the nodes it is given have a cycle, provided the ids of its starting
  nodes are distinct and include every node without an incoming edge (or none are given). A cycle is a cycle of the
  relation between node ids that the code's edges span. The planner around it leaves out skipped nodes first, and may
  then not give such starting nodes (\<open>skipping_is_not_transitive\<close>).
\<close>
theorem execution_order_error_iff:
  assumes "distinct (map (nid h) (if flow_starts \<noteq> [] then flow_starts else nodes))"
    and "flow_starts \<noteq> [] \<Longrightarrow>
      \<forall>a \<in> set nodes. nid h a \<notin> snd ` set (edge_list h nodes) \<longrightarrow> nid h a \<in> nid h ` set flow_starts"
  shows "(\<exists>e. determine_execution_order h nodes flow_starts = Inl e) \<longleftrightarrow> \<not> acyclic (set (edge_list h nodes))"
proof -
  let ?J = "set (start_ids h nodes flow_starts) - dom (map_of (tab_map h nodes))"
  let ?ids = "map (map (nid h)) (sort_result h nodes flow_starts)"
  note s = sort_result_sorted[OF assms(1)]
  have J: "?J \<inter> dom (map_of (tab_map h nodes)) = {}" by blast
  have start: "v \<in> set [u \<leftarrow> start_ids h nodes flow_starts. u \<in> dom (map_of (tab_map h nodes))]"
    if v: "v \<in> dom (map_of (tab_map h nodes))" "open_edges (edge_list h nodes) {} v = 0" for v
  proof -
    from v(2) have no: "v \<notin> snd ` set (edge_list h nodes)" by (auto simp: open_edges_0)
    have "tab_deg h nodes v = 0" using v(2) by (simp add: exec.deg_edges open_edges_def)
    moreover from v(1) no have "v \<in> nid h ` set nodes"
      unfolding dom_tab_map by (force simp: edge_list_def)
    ultimately show ?thesis
      using v(1) no assms(2) by (auto simp: start_ids_def)
  qed
  have "acyclic (set (edge_list h nodes)) \<longleftrightarrow> set (concat ?ids) = dom (map_of (tab_map h nodes))"
    using exec.sorted_complete[OF s J start] exec.sorted_acyclic[OF s J] by blast
  with sorted_all_iff[OF s] show ?thesis
    by (auto simp: determine_execution_order_eq)
qed

section \<open>Concrete flows\<close>

text \<open>A source, a one-input transformation, and a flow read -> filter -> sort -> select.\<close>

definition source_template :: node_template where
  "source_template = \<lparr>t_name = ''Read data'', t_input = 0, t_multi = False, t_can_be_start = True,
     t_node_group = ''input'', t_laziness = ''conditional''\<rparr>"

definition transform_template :: node_template where
  "transform_template = \<lparr>t_name = ''Filter data'', t_input = 1, t_multi = False, t_can_be_start = False,
     t_node_group = ''transform'', t_laziness = ''lazy''\<rparr>"

definition chain_node :: "int \<Rightarrow> addr list \<Rightarrow> addr list \<Rightarrow> flow_node" where
  "chain_node i ins outs =
     (new_node i (if ins = [] then ''read'' else ''filter'') ''flow'' (if ins = [] then source_template else transform_template))
       \<lparr>main_inputs := (if ins = [] then None else Some ins), leads_to_nodes := outs\<rparr>"

definition chain_flow :: heap where
  "chain_flow = map_of [(1, chain_node 1 [] [2]), (2, chain_node 2 [1] [3]), (3, chain_node 3 [2] [4]),
     (4, chain_node 4 [3] [])]"

lemma execution_order_valid_witness:
  "determine_execution_order chain_flow [4, 3, 2, 1] [1] = Inr [[1], [2], [3], [4]]
   \<and> distinct (map (nid chain_flow) (concat [[1], [2], [3], [4]]))"
proof -
  have e: "determine_execution_order chain_flow [4, 3, 2, 1] [1] = Inr [[1], [2], [3], [4]]" by code_simp
  have d: "distinct (map (nid chain_flow) (if [1] \<noteq> ([] :: addr list) then [1] else [4, 3, 2, 1]))" by simp
  from execution_order_valid[OF d e] e show ?thesis by blast
qed

lemma execution_order_error_iff_witness:
  "(\<exists>e. determine_execution_order (chain_flow(4 \<mapsto> chain_node 4 [3] [2])) [1, 2, 3, 4] [1] = Inl e)
   \<longleftrightarrow> \<not> acyclic (set (edge_list (chain_flow(4 \<mapsto> chain_node 4 [3] [2])) [1, 2, 3, 4]))"
  by (rule execution_order_error_iff) (simp, code_simp)

text \<open>
  \<open>determine_nodes_to_skip\<close> looks one step ahead only: of an incorrect node it skips the direct
  successors, not what follows them. In the flow read -> promise -> sort -> select, where the second node is an
  unconfigured one, the last node stays in the plan, is reachable from no starting node, and the planner
  reports a cycle although the graph is acyclic.
\<close>
theorem skipping_is_not_transitive:
  defines "h \<equiv> chain_flow(2 \<mapsto> (chain_node 2 [1] [3])\<lparr>main_inputs := None\<rparr>)"
  shows "determine_nodes_to_skip h [1, 2, 3, 4] = [2, 3] \<and> edge_list h [1, 4] = [(1, 2)]
    \<and> compute_execution_plan h [1, 2, 3, 4] [1]
        = Inl (PyException ''Cycle detected in the graph. Execution order cannot be determined.'')"
  unfolding h_def by (intro conjI; code_simp)

end
