(* ===== verification/Flow_Graph.thy ===== *)
theory Flow_Graph
  imports Exec_Order
begin

text \<open>
  The graph object of \<open>flow_graph.py\<close>: the registry \<open>_node_db\<close>, the list \<open>_node_ids\<close>, the starting nodes
  and the visual groups. The nodes themselves live in \<open>node_heap\<close>. Node ids are integers.

  A graph is well formed (\<open>graph_ok\<close>) when the registry holds every id once, under the id its node
  carries, and every registered address exists. Canvas coordinates are floats in the source; the code
  only adds, subtracts and compares them, and they are integers here.
\<close>

record group =
  g_id :: int
  g_name :: string
  g_color :: "string option"
  g_x :: int
  g_y :: int
  g_width :: int
  g_height :: int
  g_collapsed :: bool
  g_parent :: "int option"

record flow_graph =
  node_db :: "(int, addr) dict"
  node_ids :: "int list"
  flow_starts :: "addr list"
  groups :: "(int, group) dict"
  group_id_seq :: int
  graph_uuid :: string
  node_heap :: heap

definition empty_graph :: "string \<Rightarrow> flow_graph" where
  "empty_graph uuid = \<lparr>node_db = [], node_ids = [], flow_starts = [], groups = [], group_id_seq = 0,
     graph_uuid = uuid, node_heap = (\<lambda>_. None)\<rparr>"

definition nodes :: "flow_graph \<Rightarrow> addr list" where
  "nodes g = dict_values (node_db g)"

definition get_node :: "flow_graph \<Rightarrow> int \<Rightarrow> addr option" where
  "get_node g i = dict_get (node_db g) i"

definition last_node :: "flow_graph \<Rightarrow> py_error + addr option" where
  "last_node g = (if node_ids g = [] then Inl (PyException ''IndexError'') else Inr (get_node g (last (node_ids g))))"

definition node_setting_at :: "flow_graph \<Rightarrow> addr \<Rightarrow> node_setting option" where
  "node_setting_at g a = Option.bind (node_heap g a) setting_input"

definition add_node_to_starting_list :: "addr \<Rightarrow> flow_graph \<Rightarrow> flow_graph" where
  "add_node_to_starting_list a g =
     (if nid (node_heap g) a \<in> nid (node_heap g) ` set (flow_starts g) then g
      else g\<lparr>flow_starts := flow_starts g @ [a]\<rparr>)"

definition get_implicit_starter_nodes :: "flow_graph \<Rightarrow> addr list" where
  "get_implicit_starter_nodes g =
     [a \<leftarrow> nodes g. case node_heap g a of None \<Rightarrow> False
        | Some nd \<Rightarrow> t_can_be_start (node_template nd) \<and> \<not> has_input nd
            \<and> node_id nd \<notin> nid (node_heap g) ` set (flow_starts g)]"

text \<open>The arguments that the planner is called with everywhere in \<open>flow_graph.py\<close>.\<close>

definition plan_of :: "flow_graph \<Rightarrow> py_error + execution_plan" where
  "plan_of g = compute_execution_plan (node_heap g) (nodes g) (flow_starts g @ get_implicit_starter_nodes g)"

definition node_connections :: "flow_graph \<Rightarrow> (int \<times> int) set" where
  "node_connections g =
     (\<Union>a \<in> set (nodes g). case node_heap g a of None \<Rightarrow> {} | Some nd \<Rightarrow>
        set (map (\<lambda>b. (node_id nd, nid (node_heap g) b)) (leads_to_nodes nd)
             @ map (\<lambda>b. (nid (node_heap g) b, node_id nd)) (get_all_inputs nd)))"

definition graph_ok :: "flow_graph \<Rightarrow> bool" where
  "graph_ok g \<longleftrightarrow>
     dict_ok (node_db g)
     \<and> (\<forall>(i, a) \<in> set (node_db g). node_heap g a \<noteq> None \<and> nid (node_heap g) a = i)"

lemma graph_okD:
  assumes "graph_ok g" and "get_node g i = Some a"
  shows "nid (node_heap g) a = i" and "node_heap g a \<noteq> None"
  using assms by (auto simp: graph_ok_def get_node_def dest!: map_of_SomeD)

lemma get_node_nodes: "graph_ok g \<Longrightarrow> a \<in> set (nodes g) \<longleftrightarrow> (\<exists>i. get_node g i = Some a)"
  by (auto simp: graph_ok_def nodes_def get_node_def set_dict_values ran_def)

lemma nodes_ids_distinct: "graph_ok g \<Longrightarrow> map (nid (node_heap g)) (nodes g) = dict_keys (node_db g)"
  by (auto simp: graph_ok_def nodes_def dict_values_def dict_keys_def intro!: nth_equalityI dest: nth_mem)

end
