(* ===== verification/Visual_Groups.thy ===== *)
theory Visual_Groups
  imports Flow_Graph
begin

text \<open>
  Visual groups of \<open>flow_graph.py\<close>: allocation, nesting, bounds and membership. A node belongs to a
  group through \<open>group_id\<close> of its settings; a group nests through \<open>parent_group_id\<close>. The operations
  are the mutating bodies (\<open>_do\<close>) of the methods; the history wrapper around them is in \<open>History\<close>.

  \<open>groups_ok\<close> is the invariant: registry keys are the ids of their groups and never exceed the id
  counter, parents exist, and the nesting has no cycle.
\<close>

section \<open>Registry and nesting\<close>

definition next_group_id :: "flow_graph \<Rightarrow> int \<times> flow_graph" where
  "next_group_id g =
     (let i = Max (set (group_id_seq g # dict_keys (groups g))) + 1 in (i, g\<lparr>group_id_seq := i\<rparr>))"

definition member_of :: "flow_graph \<Rightarrow> addr \<Rightarrow> int option" where
  "member_of g a = (case node_setting_at g a of None \<Rightarrow> None | Some s \<Rightarrow> s_group_id s)"

definition member_node_ids :: "flow_graph \<Rightarrow> int \<Rightarrow> int list" where
  "member_node_ids g gid = map (nid (node_heap g)) [a \<leftarrow> nodes g. member_of g a = Some gid]"

definition set_node_setting :: "(node_setting \<Rightarrow> node_setting) \<Rightarrow> int \<Rightarrow> flow_graph \<Rightarrow> flow_graph" where
  "set_node_setting f i g =
     (case get_node g i of
        None \<Rightarrow> g
      | Some a \<Rightarrow> g\<lparr>node_heap := upd_node a (\<lambda>nd. nd\<lparr>setting_input := map_option f (setting_input nd)\<rparr>) (node_heap g)\<rparr>)"

definition set_node_group :: "int option \<Rightarrow> int \<Rightarrow> flow_graph \<Rightarrow> flow_graph" where
  "set_node_group gid = set_node_setting (s_group_id_update (\<lambda>_. gid))"

definition child_group_ids :: "flow_graph \<Rightarrow> int \<Rightarrow> int list" where
  "child_group_ids g gid = map fst [p \<leftarrow> groups g. g_parent (snd p) = Some gid]"

text \<open>
  The two upward walks. Each step moves an id of the registry into \<open>seen\<close>, so they terminate on
  every registry, cyclic ones included.
\<close>

function group_depth_from :: "(int, group) dict \<Rightarrow> int set \<Rightarrow> int \<Rightarrow> nat" where
  "group_depth_from gs seen i =
     (case dict_get gs i of
        None \<Rightarrow> 0
      | Some gr \<Rightarrow>
          (case g_parent gr of
             None \<Rightarrow> 0
           | Some p \<Rightarrow> if g_id gr \<in> seen then 0 else Suc (group_depth_from gs (insert (g_id gr) seen) p)))"
  by pat_completeness auto

function ancestor_walk :: "(int, group) dict \<Rightarrow> int \<Rightarrow> int set \<Rightarrow> int \<Rightarrow> bool" where
  "ancestor_walk gs anc seen i =
     (case dict_get gs i of
        None \<Rightarrow> False
      | Some gr \<Rightarrow>
          if g_id gr \<in> seen then False
          else if g_id gr = anc then True
          else (case g_parent gr of None \<Rightarrow> False | Some p \<Rightarrow> ancestor_walk gs anc (insert (g_id gr) seen) p))"
  by pat_completeness auto

lemma seen_grows:
  assumes "dict_get gs i = Some gr" and "g_id gr \<notin> seen"
  shows "card (g_id ` snd ` set gs - insert (g_id gr) seen) < card (g_id ` snd ` set gs - seen)"
proof (rule psubset_card_mono)
  from assms have "g_id gr \<in> g_id ` snd ` set gs" by (force dest: map_of_SomeD)
  with assms(2) show "g_id ` snd ` set gs - insert (g_id gr) seen \<subset> g_id ` snd ` set gs - seen" by auto
qed simp

termination group_depth_from
  by (relation "measure (\<lambda>(gs, seen, i). card (g_id ` snd ` set gs - seen))") (simp_all add: seen_grows)

termination ancestor_walk
  by (relation "measure (\<lambda>(gs, anc, seen, i). card (g_id ` snd ` set gs - seen))") (simp_all add: seen_grows)

declare group_depth_from.simps [simp del] ancestor_walk.simps [simp del]

definition group_depth :: "flow_graph \<Rightarrow> int \<Rightarrow> nat" where
  "group_depth g i = group_depth_from (groups g) {} i"

definition is_ancestor_group :: "flow_graph \<Rightarrow> int \<Rightarrow> int \<Rightarrow> bool" where
  "is_ancestor_group g anc i = ancestor_walk (groups g) anc {} i"

section \<open>Bounds\<close>

text \<open>Boxes are (x, y, width, height).\<close>

type_synonym box = "int \<times> int \<times> int \<times> int"

definition node_boxes :: "flow_graph \<Rightarrow> int \<Rightarrow> box list" where
  "node_boxes g gid =
     map (\<lambda>s. (s_pos_x s, s_pos_y s, 180, 80))
       (List.map_filter (\<lambda>i. Option.bind (get_node g i) (node_setting_at g)) (member_node_ids g gid))"

definition child_boxes :: "flow_graph \<Rightarrow> int \<Rightarrow> box list" where
  "child_boxes g gid =
     map (\<lambda>c. (g_x c, g_y c, g_width c, g_height c))
       (List.map_filter (\<lambda>i. dict_get (groups g) i) (child_group_ids g gid))"

definition fit_box :: "box list \<Rightarrow> group \<Rightarrow> group" where
  "fit_box bs gr =
     (let min_x = Min (set (map fst bs)) - 40;
          min_y = Min (set (map (\<lambda>b. fst (snd b)) bs)) - 40 - 36;
          max_x = Max (set (map (\<lambda>(x, y, w, ht). x + w) bs)) + 40;
          max_y = Max (set (map (\<lambda>(x, y, w, ht). y + ht) bs)) + 40
      in gr\<lparr>g_x := min_x, g_y := min_y, g_width := max_x - min_x, g_height := max_y - min_y\<rparr>)"

definition upd_group :: "int \<Rightarrow> (group \<Rightarrow> group) \<Rightarrow> flow_graph \<Rightarrow> flow_graph" where
  "upd_group i f g =
     (case dict_get (groups g) i of None \<Rightarrow> g | Some gr \<Rightarrow> g\<lparr>groups := dict_set i (f gr) (groups g)\<rparr>)"

definition refit_group :: "int \<Rightarrow> flow_graph \<Rightarrow> flow_graph" where
  "refit_group gid g =
     (let boxes = node_boxes g gid @ child_boxes g gid
      in if boxes = [] then g else upd_group gid (fit_box boxes) g)"

definition recompute_group_bounds :: "int option \<Rightarrow> flow_graph \<Rightarrow> flow_graph" where
  "recompute_group_bounds gid g =
     fold refit_group
       (case gid of Some i \<Rightarrow> [i]
        | None \<Rightarrow> rev (sort_key (group_depth g) (rev (dict_keys (groups g))))) g"

definition set_bounds :: "box \<Rightarrow> group \<Rightarrow> group" where
  "set_bounds b gr = (case b of (x, y, w, ht) \<Rightarrow> gr\<lparr>g_x := x, g_y := y, g_width := w, g_height := ht\<rparr>)"

section \<open>Operations\<close>

definition adopt_child :: "int \<Rightarrow> int \<Rightarrow> flow_graph \<Rightarrow> flow_graph" where
  "adopt_child gid cid g =
     (if is_ancestor_group g cid gid then g else upd_group cid (g_parent_update (\<lambda>_. Some gid)) g)"

definition create_group ::
  "string \<Rightarrow> int list \<Rightarrow> string option \<Rightarrow> box option \<Rightarrow> int option \<Rightarrow> int list \<Rightarrow> flow_graph \<Rightarrow> int \<times> flow_graph" where
  "create_group name ids color bounds parent children g =
     (case next_group_id g of
        (gid, g1) \<Rightarrow>
          (let gr = \<lparr>g_id = gid, g_name = name, g_color = color, g_x = 0, g_y = 0, g_width = 400,
                     g_height = 250, g_collapsed = False, g_parent = parent\<rparr>;
               gr1 = (case bounds of None \<Rightarrow> gr | Some b \<Rightarrow> set_bounds b gr);
               g2 = g1\<lparr>groups := dict_set gid gr1 (groups g1)\<rparr>;
               g3 = fold (set_node_group (Some gid)) ids g2;
               g4 = fold (adopt_child gid) children g3
           in (gid, if bounds = None then recompute_group_bounds (Some gid) g4 else g4)))"

definition update_group ::
  "int \<Rightarrow> string option \<Rightarrow> string option \<Rightarrow> box option \<Rightarrow> bool option \<Rightarrow> flow_graph \<Rightarrow> py_error + flow_graph" where
  "update_group gid name color bounds collapsed g =
     (case dict_get (groups g) gid of
        None \<Rightarrow> Inl (ValueError ''Group does not exist'')
      | Some _ \<Rightarrow> Inr (upd_group gid (\<lambda>gr.
          let gr1 = (case name of None \<Rightarrow> gr | Some x \<Rightarrow> gr\<lparr>g_name := x\<rparr>);
              gr2 = (case color of None \<Rightarrow> gr1 | Some c \<Rightarrow> gr1\<lparr>g_color := Some c\<rparr>);
              gr3 = (case bounds of None \<Rightarrow> gr2 | Some b \<Rightarrow> set_bounds b gr2)
          in (case collapsed of None \<Rightarrow> gr3 | Some c \<Rightarrow> gr3\<lparr>g_collapsed := c\<rparr>)) g))"

definition delete_group :: "int \<Rightarrow> flow_graph \<Rightarrow> flow_graph" where
  "delete_group gid g =
     (case dict_get (groups g) gid of
        None \<Rightarrow> g
      | Some gr \<Rightarrow>
          (let g1 = fold (set_node_group (g_parent gr)) (member_node_ids g gid) g;
               g2 = fold (\<lambda>cid. upd_group cid (g_parent_update (\<lambda>_. g_parent gr))) (child_group_ids g1 gid) g1
           in g2\<lparr>groups := dict_pop gid (groups g2)\<rparr>))"

definition add_nodes_to_group :: "int \<Rightarrow> int list \<Rightarrow> flow_graph \<Rightarrow> py_error + flow_graph" where
  "add_nodes_to_group gid ids g =
     (case dict_get (groups g) gid of
        None \<Rightarrow> Inl (ValueError ''Group does not exist'')
      | Some _ \<Rightarrow> Inr (recompute_group_bounds (Some gid) (fold (set_node_group (Some gid)) ids g)))"

definition is_unused_group :: "flow_graph \<Rightarrow> int \<Rightarrow> bool" where
  "is_unused_group g gid \<longleftrightarrow> member_node_ids g gid = [] \<and> child_group_ids g gid = []"

definition prune_or_refit :: "int \<Rightarrow> flow_graph \<Rightarrow> flow_graph" where
  "prune_or_refit gid g =
     (if is_unused_group g gid then g\<lparr>groups := dict_pop gid (groups g)\<rparr>
      else recompute_group_bounds (Some gid) g)"

definition detach_node :: "int \<Rightarrow> int set \<times> flow_graph \<Rightarrow> int set \<times> flow_graph" where
  "detach_node i st =
     (case st of (affected, g) \<Rightarrow>
        (case Option.bind (get_node g i) (member_of g) of
           None \<Rightarrow> (affected, g)
         | Some gid \<Rightarrow> (insert gid affected, set_node_group None i g)))"

text \<open>The order in which Python iterates over the set \<open>affected\<close> is the parameter \<open>iter\<close>.\<close>

definition remove_nodes_from_group :: "(int set \<Rightarrow> int list) \<Rightarrow> int list \<Rightarrow> flow_graph \<Rightarrow> flow_graph" where
  "remove_nodes_from_group iter ids g =
     (case fold detach_node ids ({}, g) of (affected, g1) \<Rightarrow> fold prune_or_refit (iter affected) g1)"

definition assign_node_to_named_group ::
  "int \<Rightarrow> string \<Rightarrow> string option \<Rightarrow> flow_graph \<Rightarrow> py_error + int \<times> flow_graph" where
  "assign_node_to_named_group i name color g =
     (case List.find (\<lambda>gr. g_name gr = name) (dict_values (groups g)) of
        Some gr \<Rightarrow> map_sum id (Pair (g_id gr)) (add_nodes_to_group (g_id gr) [i] g)
      | None \<Rightarrow> Inr (create_group name [i] color None None [] g))"

definition set_node_positions :: "(int \<times> int \<times> int) list \<Rightarrow> flow_graph \<Rightarrow> flow_graph" where
  "set_node_positions updates g =
     fold (\<lambda>(i, x, y). set_node_setting (\<lambda>s. s\<lparr>s_pos_x := x, s_pos_y := y\<rparr>) i) updates g"

definition set_group_bounds :: "(int \<times> box) list \<Rightarrow> flow_graph \<Rightarrow> flow_graph" where
  "set_group_bounds updates g = fold (\<lambda>(i, b). upd_group i (set_bounds b)) updates g"

definition restore_groups :: "group list \<Rightarrow> flow_graph \<Rightarrow> flow_graph" where
  "restore_groups grs g =
     (let gs = fold (\<lambda>gr. dict_set (g_id gr) gr) grs [];
          g1 = g\<lparr>groups := gs, group_id_seq := (if gs = [] then 0 else Max (set (dict_keys gs)))\<rparr>
      in fold (\<lambda>i g. case dict_get (groups g) i of None \<Rightarrow> g
                 | Some gr \<Rightarrow> if g_width gr \<le> 0 \<or> g_height gr \<le> 0 then recompute_group_bounds (Some i) g else g)
           (dict_keys gs) g1)"

section \<open>The nesting relation\<close>

definition parent_edge :: "(int, group) dict \<Rightarrow> int \<Rightarrow> int \<Rightarrow> bool" where
  "parent_edge gs i p \<longleftrightarrow> (case dict_get gs i of None \<Rightarrow> False | Some gr \<Rightarrow> g_parent gr = Some p)"

definition nesting :: "(int, group) dict \<Rightarrow> (int \<times> int) set" where
  "nesting gs = {(i, p). parent_edge gs i p}"

definition keyed :: "(int, group) dict \<Rightarrow> bool" where
  "keyed gs \<longleftrightarrow> dict_ok gs \<and> (\<forall>i gr. dict_get gs i = Some gr \<longrightarrow> g_id gr = i)"

definition groups_ok :: "flow_graph \<Rightarrow> bool" where
  "groups_ok g \<longleftrightarrow>
     keyed (groups g) \<and> (\<forall>i \<in> dom (map_of (groups g)). i \<le> group_id_seq g)
     \<and> (\<forall>i p. parent_edge (groups g) i p \<longrightarrow> p \<in> dom (map_of (groups g)))
     \<and> acyclic (nesting (groups g))"

lemma parent_edgeI: "dict_get gs i = Some gr \<Longrightarrow> g_parent gr = Some p \<Longrightarrow> parent_edge gs i p"
  by (simp add: parent_edge_def)

lemma parent_edge_functional: "parent_edge gs i p \<Longrightarrow> parent_edge gs i q \<Longrightarrow> p = q"
  by (auto simp: parent_edge_def split: option.splits)

lemma closed_reach:
  assumes "(parent_edge gs)\<^sup>*\<^sup>* i j" and "i \<in> S" and "\<And>s t. s \<in> S \<Longrightarrow> parent_edge gs s t \<Longrightarrow> t \<in> S"
  shows "j \<in> S"
  using assms by (induction rule: rtranclp_induct) auto

lemma root_reach:
  assumes "\<And>p. \<not> parent_edge gs i p" and "i \<noteq> j"
  shows "\<not> (parent_edge gs)\<^sup>*\<^sup>* i j"
proof
  assume "(parent_edge gs)\<^sup>*\<^sup>* i j"
  then show False using assms by (cases rule: converse_rtranclpE) auto
qed

lemma ancestor_walk_iff:
  assumes "keyed gs" and "anc \<in> dom (map_of gs)" and "anc \<notin> seen"
    and "\<And>s t. s \<in> seen \<Longrightarrow> parent_edge gs s t \<Longrightarrow> t \<in> insert i seen"
  shows "ancestor_walk gs anc seen i \<longleftrightarrow> (parent_edge gs)\<^sup>*\<^sup>* i anc"
  using assms
proof (induction gs anc seen i rule: ancestor_walk.induct)
  case (1 gs anc seen i)
  show ?case
  proof (cases "dict_get gs i")
    case None
    then have "\<not> (parent_edge gs)\<^sup>*\<^sup>* i anc"
      using "1.prems"(2) by (intro root_reach) (auto simp: parent_edge_def)
    with None show ?thesis by (simp add: ancestor_walk.simps[of gs anc seen i])
  next
    case (Some gr)
    then have key: "g_id gr = i" using "1.prems"(1) by (simp add: keyed_def)
    show ?thesis
    proof (cases "i \<in> seen")
      case True
      have "t \<in> seen" if "s \<in> seen" "parent_edge gs s t" for s t
        using "1.prems"(4)[OF that] True by auto
      with closed_reach[of gs i anc seen] True "1.prems"(3) have "\<not> (parent_edge gs)\<^sup>*\<^sup>* i anc" by blast
      with Some key True show ?thesis by (simp add: ancestor_walk.simps[of gs anc seen i])
    next
      case new: False
      show ?thesis
      proof (cases "i = anc")
        case True
        with Some key new show ?thesis by (subst ancestor_walk.simps) simp
      next
        case False
        show ?thesis
        proof (cases "g_parent gr")
          case None
          then have "\<not> (parent_edge gs)\<^sup>*\<^sup>* i anc"
            using Some False by (intro root_reach) (auto simp: parent_edge_def \<open>dict_get gs i = Some gr\<close>)
          with Some key new False None show ?thesis by (simp add: ancestor_walk.simps[of gs anc seen i])
        next
          case (Some p)
          with \<open>dict_get gs i = Some gr\<close> have e: "parent_edge gs i p" by (simp add: parent_edge_def)
          have cl: "t \<in> insert p (insert i seen)" if "s \<in> insert i seen" "parent_edge gs s t" for s t
            using that e parent_edge_functional[of gs i p t] "1.prems"(4)[of s t] by auto
          have "ancestor_walk gs anc (insert i seen) p \<longleftrightarrow> (parent_edge gs)\<^sup>*\<^sup>* p anc"
            using "1.IH"[of gr p] \<open>dict_get gs i = Some gr\<close> key new False Some "1.prems" cl by auto
          moreover have "(parent_edge gs)\<^sup>*\<^sup>* i anc \<longleftrightarrow> (parent_edge gs)\<^sup>*\<^sup>* p anc"
            using e False parent_edge_functional[of gs i p]
            by (metis converse_rtranclpE converse_rtranclp_into_rtranclp)
          ultimately show ?thesis
            using Some \<open>dict_get gs i = Some gr\<close> key new False by (simp add: ancestor_walk.simps[of gs anc seen i])
        qed
      qed
    qed
  qed
qed

lemma ancestor_walk_outside:
  "keyed gs \<Longrightarrow> anc \<notin> dom (map_of gs) \<Longrightarrow> \<not> ancestor_walk gs anc seen i"
proof (induction gs anc seen i rule: ancestor_walk.induct)
  case (1 gs anc seen i)
  show ?case
  proof (cases "dict_get gs i")
    case None
    then show ?thesis by (simp add: ancestor_walk.simps[of gs anc seen i])
  next
    case (Some gr)
    have "g_id gr = i" using Some "1.prems"(1) unfolding keyed_def by blast
    moreover have "i \<noteq> anc" using Some "1.prems"(2) by blast
    ultimately have ne: "g_id gr \<noteq> anc" by simp
    have "\<not> ancestor_walk gs anc (insert (g_id gr) seen) p"
      if "g_id gr \<notin> seen" "g_parent gr = Some p" for p
      by (rule "1.IH"[OF Some that(1) ne that(2) "1.prems"])
    with ne show ?thesis
      using Some by (simp add: ancestor_walk.simps[of gs anc seen i] split: option.split)
  qed
qed

text \<open>
  \<open>_is_ancestor_group(a, g)\<close> decides reachability: it returns True exactly when \<open>a\<close> is a registered
  group that the chain of parents from \<open>g\<close> reaches (\<open>g\<close> itself included), on every registry, also on one
  whose nesting has a cycle.
\<close>
theorem is_ancestor_group_iff:
  assumes "keyed (groups g)"
  shows "is_ancestor_group g anc i \<longleftrightarrow> anc \<in> dom (map_of (groups g)) \<and> (i, anc) \<in> (nesting (groups g))\<^sup>*"
proof (cases "anc \<in> dom (map_of (groups g))")
  case True
  from ancestor_walk_iff[OF assms True, of "{}" i] True show ?thesis
    by (simp add: is_ancestor_group_def nesting_def rtranclp_rtrancl_eq)
next
  case False
  with ancestor_walk_outside[OF assms] show ?thesis by (auto simp: is_ancestor_group_def)
qed

section \<open>The invariant of the registry\<close>

text \<open>What the invariant reads of the registry, and what the operations leave alone.\<close>

definition shape :: "(int, group) dict \<Rightarrow> int \<Rightarrow> (int \<times> int option) option" where
  "shape gs i = map_option (\<lambda>gr. (g_id gr, g_parent gr)) (dict_get gs i)"

definition same_registry :: "flow_graph \<Rightarrow> flow_graph \<Rightarrow> bool" where
  "same_registry g g' \<longleftrightarrow>
     shape (groups g') = shape (groups g) \<and> group_id_seq g' = group_id_seq g
     \<and> (dict_ok (groups g) \<longrightarrow> dict_ok (groups g'))"

lemma same_registry_refl [simp]: "same_registry g g"
  by (simp add: same_registry_def)

lemma same_registry_trans: "same_registry g g1 \<Longrightarrow> same_registry g1 g2 \<Longrightarrow> same_registry g g2"
  by (simp add: same_registry_def)

lemma shape_dom: "dom (map_of gs) = dom (shape gs)"
  by (auto simp: shape_def)

lemma shape_parent: "parent_edge gs i p \<longleftrightarrow> (\<exists>j. shape gs i = Some (j, Some p))"
  by (auto simp: parent_edge_def shape_def split: option.splits)

lemma shape_keyed: "keyed gs \<longleftrightarrow> dict_ok gs \<and> (\<forall>i j p. shape gs i = Some (j, p) \<longrightarrow> j = i)"
  by (auto simp: keyed_def shape_def)

lemma groups_ok_registry:
  assumes "same_registry g g'" and "groups_ok g"
  shows "groups_ok g'"
proof -
  from assms(1) have sh: "shape (groups g') = shape (groups g)" by (simp add: same_registry_def)
  then have "parent_edge (groups g') = parent_edge (groups g)"
    by (intro ext) (simp add: shape_parent)
  then have "nesting (groups g') = nesting (groups g)" by (simp add: nesting_def)
  with sh assms show ?thesis
    by (simp add: groups_ok_def shape_keyed shape_dom shape_parent same_registry_def)
qed

lemma same_registry_node [simp, frame_simps]: "same_registry g (set_node_setting f i g)"
  by (simp add: set_node_setting_def same_registry_def split: option.split)

lemma same_registry_upd:
  assumes "\<And>gr. g_id (f gr) = g_id gr \<and> g_parent (f gr) = g_parent gr"
  shows "same_registry g (upd_group i f g)"
  using assms by (auto simp: upd_group_def same_registry_def shape_def split: option.split)

lemma same_registry_fold:
  "(\<And>x g. same_registry g (f x g)) \<Longrightarrow> same_registry g (fold f xs g)"
proof (induction xs arbitrary: g)
  case (Cons x xs)
  from Cons.IH[OF Cons.prems, of "f x g"] Cons.prems[of g x] show ?case
    by (auto intro: same_registry_trans)
qed simp

lemma fit_box_fields [simp]: "g_id (fit_box bs gr) = g_id gr" "g_parent (fit_box bs gr) = g_parent gr"
  by (simp_all add: fit_box_def Let_def)

lemma set_bounds_fields [simp]: "g_id (set_bounds b gr) = g_id gr" "g_parent (set_bounds b gr) = g_parent gr"
  by (simp_all add: set_bounds_def split: prod.split)

lemma same_registry_refit [simp]: "same_registry g (refit_group i g)"
  by (simp add: refit_group_def Let_def same_registry_upd)

lemma same_registry_recompute [simp]: "same_registry g (recompute_group_bounds i g)"
  unfolding recompute_group_bounds_def by (rule same_registry_fold) simp

lemma same_registry_set_group [simp]: "same_registry g (set_node_group k i g)"
  by (simp add: set_node_group_def)

lemma groups_ok_new:
  assumes ok: "groups_ok g" and new: "\<forall>j \<in> dom (map_of (groups g)). j < i" "group_id_seq g \<le> i"
    and gr: "g_id gr = i" "\<And>p. g_parent gr = Some p \<Longrightarrow> p \<in> dom (map_of (groups g))"
  shows "groups_ok (g\<lparr>group_id_seq := i, groups := dict_set i gr (groups g)\<rparr>)"
proof -
  let ?gs = "dict_set i gr (groups g)"
  from ok have keyed: "keyed (groups g)" and closed: "\<And>j p. parent_edge (groups g) j p \<Longrightarrow> p \<in> dom (map_of (groups g))"
    and ac: "acyclic (nesting (groups g))" by (auto simp: groups_ok_def)
  from new have fresh: "i \<notin> dom (map_of (groups g))" by blast
  have pe: "parent_edge ?gs j p \<longleftrightarrow> (if j = i then g_parent gr = Some p else parent_edge (groups g) j p)" for j p
    by (simp add: parent_edge_def)
  have nest: "nesting ?gs = nesting (groups g) \<union> (case g_parent gr of None \<Rightarrow> {} | Some p \<Rightarrow> {(i, p)})"
    using fresh by (auto simp: nesting_def pe parent_edge_def split: option.splits if_splits)
  have no_in: "(x, i) \<notin> (nesting (groups g))\<^sup>*" if "x \<noteq> i" for x
    using that closed fresh by (metis nesting_def mem_Collect_eq case_prodD rtranclE)
  have "acyclic (nesting ?gs)"
  proof (cases "g_parent gr")
    case None
    with ac nest show ?thesis by simp
  next
    case (Some p)
    with gr(2) fresh have "p \<noteq> i" by blast
    with no_in ac nest Some show ?thesis by (simp add: acyclic_insert)
  qed
  moreover have "keyed ?gs" using keyed gr(1) by (simp add: keyed_def)
  moreover have "p \<in> dom (map_of ?gs)" if "parent_edge ?gs j p" for j p
    using that gr(2) closed by (auto simp: pe split: if_splits)
  moreover have "j \<le> i" if "j \<in> dom (map_of ?gs)" for j
  proof -
    from that have "j = i \<or> j \<in> dom (map_of (groups g))" by simp
    then show ?thesis using new(1) by (elim disjE) (simp, rule less_imp_le, blast)
  qed
  ultimately show ?thesis by (simp add: groups_ok_def)
qed

lemma groups_ok_adopt:
  assumes ok: "groups_ok g" and gid: "gid \<in> dom (map_of (groups g))"
  shows "groups_ok (adopt_child gid cid g)"
proof (cases "is_ancestor_group g cid gid \<or> dict_get (groups g) cid = None")
  case True
  with ok show ?thesis by (auto simp: adopt_child_def upd_group_def)
next
  case False
  then obtain gr where gr: "dict_get (groups g) cid = Some gr" by auto
  let ?gs = "dict_set cid (gr\<lparr>g_parent := Some gid\<rparr>) (groups g)"
  from ok have keyed: "keyed (groups g)" and closed: "\<And>j p. parent_edge (groups g) j p \<Longrightarrow> p \<in> dom (map_of (groups g))"
    and ac: "acyclic (nesting (groups g))" and seq: "\<forall>i \<in> dom (map_of (groups g)). i \<le> group_id_seq g"
    by (auto simp: groups_ok_def)
  have eq: "adopt_child gid cid g = g\<lparr>groups := ?gs\<rparr>"
    using False gr by (simp add: adopt_child_def upd_group_def)
  from False gr ancestor_walk_iff[OF keyed, of cid "{}" gid]
  have no: "(gid, cid) \<notin> (nesting (groups g))\<^sup>*"
    by (auto simp: is_ancestor_group_def nesting_def rtranclp_rtrancl_eq)
  have pe: "parent_edge ?gs j p \<longleftrightarrow> (if j = cid then p = gid else parent_edge (groups g) j p)" for j p
    by (auto simp: parent_edge_def)
  have "nesting ?gs \<subseteq> insert (cid, gid) (nesting (groups g))"
    by (auto simp: nesting_def pe split: if_splits)
  moreover have "acyclic (insert (cid, gid) (nesting (groups g)))"
    using ac no by (simp add: acyclic_insert)
  ultimately have "acyclic (nesting ?gs)" by (rule acyclic_subset[rotated])
  moreover have "keyed ?gs" using keyed gr by (auto simp: keyed_def)
  moreover have "dom (map_of ?gs) = dom (map_of (groups g))" using gr by auto
  moreover have "p \<in> dom (map_of ?gs)" if "parent_edge ?gs j p" for j p
    using that closed gid by (auto simp: pe split: if_splits)
  ultimately show ?thesis using seq unfolding eq groups_ok_def by simp
qed

lemma adopt_child_dom [simp]: "dom (map_of (groups (adopt_child gid cid g))) = dom (map_of (groups g))"
  by (auto simp: adopt_child_def upd_group_def split: option.splits)

lemma groups_ok_adopts:
  "groups_ok g \<Longrightarrow> gid \<in> dom (map_of (groups g)) \<Longrightarrow> groups_ok (fold (adopt_child gid) cids g)"
  by (induction cids arbitrary: g) (simp_all add: groups_ok_adopt)

lemma groups_ok_pop:
  assumes ok: "groups_ok g" and no: "\<And>i. \<not> parent_edge (groups g) i gid"
  shows "groups_ok (g\<lparr>groups := dict_pop gid (groups g)\<rparr>)"
proof -
  let ?gs = "dict_pop gid (groups g)"
  have pe: "parent_edge ?gs j p \<longleftrightarrow> j \<noteq> gid \<and> parent_edge (groups g) j p" for j p
    by (simp add: parent_edge_def)
  have "nesting ?gs \<subseteq> nesting (groups g)" by (auto simp: nesting_def pe)
  moreover have "acyclic (nesting (groups g))" using ok by (simp add: groups_ok_def)
  ultimately have "acyclic (nesting ?gs)" by (rule acyclic_subset[rotated])
  moreover have "keyed ?gs" using ok by (simp add: groups_ok_def keyed_def)
  moreover have "p \<in> dom (map_of ?gs)" if "parent_edge ?gs j p" for j p
  proof -
    from that have "parent_edge (groups g) j p" by (simp add: pe)
    with ok no show ?thesis by (auto simp: groups_ok_def)
  qed
  moreover have "\<forall>i \<in> dom (map_of ?gs). i \<le> group_id_seq g" using ok by (simp add: groups_ok_def)
  ultimately show ?thesis by (simp add: groups_ok_def)
qed

lemma set_child_group_ids: "dict_ok (groups g) \<Longrightarrow> set (child_group_ids g gid) = {i. parent_edge (groups g) i gid}"
  by (auto simp: child_group_ids_def parent_edge_def dict_get_in_iff image_iff split: option.splits)

lemma upd_groups_get:
  assumes "\<And>gr. f (f gr) = f gr"
  shows "dict_get (groups (fold (\<lambda>i. upd_group i f) is g)) j
           = (if j \<in> set is then map_option f (dict_get (groups g) j) else dict_get (groups g) j)"
proof (induction "is" arbitrary: g)
  case (Cons i "is")
  have "dict_get (groups (upd_group i f g)) j
          = (if j = i then map_option f (dict_get (groups g) j) else dict_get (groups g) j)"
    by (simp add: upd_group_def split: option.split)
  with Cons.IH[of "upd_group i f g"] assms show ?case by (auto simp: option.map_comp o_def)
qed simp

lemma upd_groups_frame:
  "dict_ok (groups g) \<Longrightarrow> dict_ok (groups (fold (\<lambda>i. upd_group i f) is g))"
  "group_id_seq (fold (\<lambda>i. upd_group i f) is g) = group_id_seq g"
  "node_db (fold (\<lambda>i. upd_group i f) is g) = node_db g"
  "node_heap (fold (\<lambda>i. upd_group i f) is g) = node_heap g"
  by (induction "is" arbitrary: g) (simp_all add: upd_group_def split: option.split)

lemma groups_ok_lift:
  assumes ok: "groups_ok g" and gr: "dict_get (groups g) gid = Some gr"
    and is_eq: "set is = {i. parent_edge (groups g) i gid}"
  defines "g' \<equiv> fold (\<lambda>i. upd_group i (g_parent_update (\<lambda>_. g_parent gr))) is g"
  shows "groups_ok g' \<and> (\<forall>i. \<not> parent_edge (groups g') i gid)"
proof -
  from ok have keyed: "keyed (groups g)" and closed: "\<And>j p. parent_edge (groups g) j p \<Longrightarrow> p \<in> dom (map_of (groups g))"
    and ac: "acyclic (nesting (groups g))" and seq: "\<forall>i \<in> dom (map_of (groups g)). i \<le> group_id_seq g"
    by (auto simp: groups_ok_def)
  have get: "dict_get (groups g') j = (if j \<in> set is then map_option (g_parent_update (\<lambda>_. g_parent gr)) (dict_get (groups g) j)
      else dict_get (groups g) j)" for j
    unfolding g'_def by (rule upd_groups_get) simp
  have pe: "parent_edge (groups g') j p \<longleftrightarrow>
      (if parent_edge (groups g) j gid then g_parent gr = Some p else parent_edge (groups g) j p)" for j p
    using is_eq by (auto simp: parent_edge_def get split: option.splits)
  have up: "parent_edge (groups g) gid p" if "g_parent gr = Some p" for p
    using gr that by (simp add: parent_edge_def)
  have "nesting (groups g') \<subseteq> (nesting (groups g))\<^sup>+"
  proof
    fix e assume "e \<in> nesting (groups g')"
    then obtain j p where e: "e = (j, p)" "parent_edge (groups g') j p" by (auto simp: nesting_def)
    show "e \<in> (nesting (groups g))\<^sup>+"
    proof (cases "parent_edge (groups g) j gid")
      case True
      with e pe have "g_parent gr = Some p" by simp
      from True up[OF this] have "(j, gid) \<in> nesting (groups g)" "(gid, p) \<in> nesting (groups g)"
        by (simp_all add: nesting_def)
      then show ?thesis unfolding e by (rule trancl_into_trancl[OF r_into_trancl])
    next
      case False
      with e(2) pe have "(j, p) \<in> nesting (groups g)" by (simp add: nesting_def)
      then show ?thesis unfolding e by (rule r_into_trancl)
    qed
  qed
  moreover have "acyclic ((nesting (groups g))\<^sup>+)" using ac by (simp add: acyclic_def)
  ultimately have "acyclic (nesting (groups g'))" by (rule acyclic_subset[rotated])
  moreover have "dict_ok (groups g')"
    unfolding g'_def using keyed by (intro upd_groups_frame) (simp add: keyed_def)
  with keyed have "keyed (groups g')" by (auto simp: keyed_def get)
  moreover have dom: "dom (map_of (groups g')) = dom (map_of (groups g))" by (auto simp: get split: if_splits)
  moreover have "p \<in> dom (map_of (groups g))" if "parent_edge (groups g') j p" for j p
    using that closed up by (auto simp: pe split: if_splits)
  moreover have "group_id_seq g' = group_id_seq g" by (simp add: g'_def upd_groups_frame)
  ultimately have "groups_ok g'" using seq unfolding groups_ok_def by simp
  moreover have "\<not> parent_edge (groups g') i gid" for i
  proof
    assume "parent_edge (groups g') i gid"
    then have "parent_edge (groups g) gid gid" using up by (auto simp: pe split: if_splits)
    then have "(gid, gid) \<in> nesting (groups g)" by (simp add: nesting_def)
    with ac show False by (meson acyclic_def r_into_trancl')
  qed
  ultimately show ?thesis by blast
qed

lemma groups_ok_delete:
  assumes ok: "groups_ok g"
  shows "groups_ok (delete_group gid g)"
proof (cases "dict_get (groups g) gid")
  case None
  with ok show ?thesis by (simp add: delete_group_def)
next
  case (Some gr)
  let ?g1 = "fold (set_node_group (g_parent gr)) (member_node_ids g gid) g"
  have reg: "same_registry g ?g1" by (rule same_registry_fold) simp
  then have ok1: "groups_ok ?g1" using ok by (rule groups_ok_registry)
  from reg Some have "shape (groups ?g1) gid = Some (g_id gr, g_parent gr)"
    by (simp add: same_registry_def shape_def)
  then obtain gr1 where gr1: "dict_get (groups ?g1) gid = Some gr1" "g_parent gr1 = g_parent gr"
    by (auto simp: shape_def)
  have "set (child_group_ids ?g1 gid) = {i. parent_edge (groups ?g1) i gid}"
    using ok1 by (intro set_child_group_ids) (simp add: groups_ok_def keyed_def)
  from groups_ok_lift[OF ok1 gr1(1) this] show ?thesis
    by (simp add: delete_group_def Some Let_def gr1(2) groups_ok_pop)
qed

lemma groups_ok_create:
  assumes ok: "groups_ok g" and parent: "\<And>p. parent = Some p \<Longrightarrow> p \<in> dom (map_of (groups g))"
    and create: "create_group name ids color bounds parent children g = (gid, g')"
  shows "groups_ok g'"
proof -
  let ?i = "Max (set (group_id_seq g # dict_keys (groups g))) + 1"
  let ?gr = "\<lparr>g_id = ?i, g_name = name, g_color = color, g_x = 0, g_y = 0, g_width = 400,
                     g_height = 250, g_collapsed = False, g_parent = parent\<rparr>"
  let ?gr1 = "case bounds of None \<Rightarrow> ?gr | Some b \<Rightarrow> set_bounds b ?gr"
  let ?g2 = "g\<lparr>group_id_seq := ?i, groups := dict_set ?i ?gr1 (groups g)\<rparr>"
  let ?g3 = "fold (set_node_group (Some ?i)) ids ?g2"
  let ?g4 = "fold (adopt_child ?i) children ?g3"
  have id: "g_id ?gr1 = ?i" and par: "g_parent ?gr1 = parent" by (simp_all split: option.split)
  have fin: "finite (set (group_id_seq g # dict_keys (groups g)))" by (rule finite_set)
  have lt: "j < ?i" if "j \<in> set (group_id_seq g # dict_keys (groups g))" for j
    using Max_ge[OF fin that] by simp
  have "groups_ok ?g2"
    by (rule groups_ok_new[OF ok]) (use lt id par parent in \<open>auto simp: less_imp_le\<close>)
  moreover have reg: "same_registry ?g2 ?g3" by (rule same_registry_fold) simp
  ultimately have ok3: "groups_ok ?g3" by (rule groups_ok_registry[rotated])
  have "dom (map_of (groups ?g3)) = dom (map_of (groups ?g2))"
    using reg unfolding shape_dom same_registry_def by simp
  then have "?i \<in> dom (map_of (groups ?g3))" by simp
  with ok3 have ok4: "groups_ok ?g4" by (rule groups_ok_adopts)
  have eq: "g' = (if bounds = None then recompute_group_bounds (Some ?i) ?g4 else ?g4)"
    using create[symmetric] by (simp only: create_group_def next_group_id_def Let_def prod.case prod.inject) simp
  show ?thesis
    unfolding eq using ok4 groups_ok_registry[OF same_registry_recompute ok4] by (split if_split) blast
qed

lemma groups_ok_prune:
  assumes "groups_ok g"
  shows "groups_ok (prune_or_refit gid g)"
proof (cases "is_unused_group g gid")
  case True
  then have "{i. parent_edge (groups g) i gid} = {}"
    using set_child_group_ids[of g gid] assms by (simp add: is_unused_group_def groups_ok_def keyed_def)
  with assms True show ?thesis by (simp add: prune_or_refit_def groups_ok_pop)
next
  case False
  with assms show ?thesis
    by (simp add: prune_or_refit_def groups_ok_registry[OF same_registry_recompute])
qed

lemma same_registry_detach: "same_registry g (snd (detach_node i (aff, g)))"
  by (simp add: detach_node_def split: option.split)

lemma groups_ok_remove:
  assumes "groups_ok g"
  shows "groups_ok (remove_nodes_from_group iter ids g)"
proof -
  have "groups_ok (snd (fold detach_node ids (aff, g)))" for aff
    using assms
  proof (induction ids arbitrary: aff g)
    case (Cons i ids)
    obtain aff1 g1 where d: "detach_node i (aff, g) = (aff1, g1)" by (metis surj_pair)
    with same_registry_detach[of g i aff] Cons.prems have "groups_ok g1" by (auto intro: groups_ok_registry)
    from Cons.IH[OF this, of aff1] d show ?case by simp
  qed simp
  moreover have "groups_ok (fold prune_or_refit gids h)" if "groups_ok h" for gids h
    using that by (rule fold_invariant[where P = groups_ok]) (rule groups_ok_prune)
  ultimately show ?thesis by (auto simp: remove_nodes_from_group_def split: prod.split) (metis snd_conv)
qed

lemma groups_ok_add:
  "groups_ok g \<Longrightarrow> add_nodes_to_group gid ids g = Inr g' \<Longrightarrow> groups_ok g'"
  by (auto simp: add_nodes_to_group_def split: option.splits
      intro!: groups_ok_registry[OF same_registry_recompute] groups_ok_registry[OF same_registry_fold])

lemma groups_ok_update:
  "groups_ok g \<Longrightarrow> update_group gid name color bounds collapsed g = Inr g' \<Longrightarrow> groups_ok g'"
  by (auto simp: update_group_def Let_def split: option.splits
      intro!: groups_ok_registry[OF same_registry_upd])

lemma dict_set_new: "k \<notin> fst ` set d \<Longrightarrow> dict_set k v d = d @ [(k, v)]"
  by (induction d) (auto simp: dict_set_def)

lemma fold_dict_set:
  assumes "distinct (map g_id grs)" and "g_id ` set grs \<inter> fst ` set d = {}"
  shows "fold (\<lambda>gr. dict_set (g_id gr) gr) grs d = d @ map (\<lambda>gr. (g_id gr, gr)) grs"
  using assms
proof (induction grs arbitrary: d)
  case (Cons gr grs)
  have "dict_set (g_id gr) gr d = d @ [(g_id gr, gr)]" using Cons.prems by (intro dict_set_new) auto
  with Cons show ?case by auto
qed simp

text \<open>Restoring the groups of a snapshot.\<close>

lemma rebuilt_registry:
  assumes "keyed gs"
  shows "fold (\<lambda>gr. dict_set (g_id gr) gr) (dict_values gs) [] = gs"
proof -
  have key: "g_id gr = i" if "(i, gr) \<in> set gs" for i gr
    using assms that by (simp add: keyed_def dict_get_in_iff)
  have map: "map (\<lambda>gr. (g_id gr, gr)) (dict_values gs) = gs"
    using key by (auto simp: dict_values_def intro!: map_idI)
  have ids: "map g_id (dict_values gs) = map fst gs"
    using key by (auto simp: dict_values_def)
  show ?thesis
    using fold_dict_set[of "dict_values gs" "[]"] assms map ids by (simp add: keyed_def dict_ok_def)
qed

lemma groups_ok_restore:
  assumes "groups_ok g0"
  shows "groups_ok (restore_groups (dict_values (groups g0)) g)"
proof -
  let ?gs = "groups g0"
  let ?g1 = "g\<lparr>groups := ?gs, group_id_seq := (if ?gs = [] then 0 else Max (set (dict_keys ?gs)))\<rparr>"
  have "i \<le> Max (set (dict_keys ?gs))" if "i \<in> dom (map_of ?gs)" for i
    using that by (intro Max_ge) (simp_all add: finite_dom_map_of)
  then have start: "groups_ok ?g1" using assms by (auto simp: groups_ok_def)
  have refit: "groups_ok (case dict_get (groups g) i of None \<Rightarrow> g
      | Some gr \<Rightarrow> if g_width gr \<le> 0 \<or> g_height gr \<le> 0 then recompute_group_bounds (Some i) g else g)" if "groups_ok g" for i g
    using that groups_ok_registry[OF same_registry_recompute that] by (simp split: option.split)
  have "groups_ok (fold (\<lambda>i g. case dict_get (groups g) i of None \<Rightarrow> g
      | Some gr \<Rightarrow> if g_width gr \<le> 0 \<or> g_height gr \<le> 0 then recompute_group_bounds (Some i) g else g) (dict_keys ?gs) ?g1)"
    by (rule fold_invariant[where P = groups_ok, OF start refit])
  moreover have "keyed ?gs" using assms by (simp add: groups_ok_def)
  ultimately show ?thesis by (simp only: restore_groups_def rebuilt_registry Let_def)
qed

text \<open>The operations on groups as steps of the graph.\<close>

inductive group_step :: "flow_graph \<Rightarrow> flow_graph \<Rightarrow> bool" where
  step_create: "(\<And>p. parent = Some p \<Longrightarrow> p \<in> dom (map_of (groups g))) \<Longrightarrow>
     create_group name ids color bounds parent children g = (gid, g') \<Longrightarrow> group_step g g'"
| step_update: "update_group gid name color bounds collapsed g = Inr g' \<Longrightarrow> group_step g g'"
| step_delete: "group_step g (delete_group gid g)"
| step_add: "add_nodes_to_group gid ids g = Inr g' \<Longrightarrow> group_step g g'"
| step_remove: "group_step g (remove_nodes_from_group iter ids g)"
| step_assign: "assign_node_to_named_group i name color g = Inr (gid, g') \<Longrightarrow> group_step g g'"
| step_positions: "group_step g (set_node_positions updates g)"
| step_bounds: "group_step g (set_group_bounds boxes g)"
| step_refit: "group_step g (recompute_group_bounds gid g)"
| step_restore: "groups_ok g0 \<Longrightarrow> group_step g (restore_groups (dict_values (groups g0)) g)"

lemma groups_ok_assign:
  assumes "groups_ok g" and "assign_node_to_named_group i name color g = Inr (gid, g')"
  shows "groups_ok g'"
proof (cases "List.find (\<lambda>gr. g_name gr = name) (dict_values (groups g))")
  case None
  with assms(2) have "create_group name [i] color None None [] g = (gid, g')"
    by (simp add: assign_node_to_named_group_def)
  with groups_ok_create[OF assms(1) _ this] show ?thesis by simp
next
  case (Some gr)
  with assms(2) have "add_nodes_to_group (g_id gr) [i] g = Inr g'"
    by (cases "add_nodes_to_group (g_id gr) [i] g") (simp_all add: assign_node_to_named_group_def)
  with assms(1) show ?thesis by (rule groups_ok_add)
qed

lemma group_steps_ok:
  assumes "group_step\<^sup>*\<^sup>* g g'" and "groups_ok g"
  shows "groups_ok g'"
  using assms
proof (induction rule: rtranclp_induct)
  case (step g1 g2)
  then have ok: "groups_ok g1" by blast
  from step.hyps(2) show ?case
  proof (cases rule: group_step.cases)
    case (step_create parent name ids color bounds children gid)
    with groups_ok_create[OF ok] show ?thesis by blast
  next
    case step_update
    with groups_ok_update[OF ok] show ?thesis by blast
  next
    case step_add
    with groups_ok_add[OF ok] show ?thesis by blast
  next
    case step_assign
    with groups_ok_assign[OF ok] show ?thesis by blast
  next
    case (step_positions updates)
    show ?thesis unfolding step_positions set_node_positions_def
      by (rule groups_ok_registry[OF same_registry_fold ok]) (auto split: prod.split)
  next
    case (step_bounds boxes)
    show ?thesis unfolding step_bounds set_group_bounds_def
      by (rule groups_ok_registry[OF same_registry_fold ok]) (auto split: prod.split intro: same_registry_upd)
  next
    case (step_refit gid)
    show ?thesis unfolding step_refit by (rule groups_ok_registry[OF same_registry_recompute ok])
  qed (simp_all add: groups_ok_delete groups_ok_remove groups_ok_restore ok)
qed simp

text \<open>
  C38: Every operation on groups keeps the registry well formed: keys are group ids, the id counter stays
  above all ids, every parent exists and the nesting stays free of cycles, also when groups are created
  around existing groups or deleted from the middle of a chain, and when the groups of a well-formed snapshot are
  restored. The condition is that a parent passed to \<open>create_group\<close> exists, which the code does not check
  (\<open>create_group_can_nest_in_itself\<close>).
\<close>
theorem groups_stay_well_formed:
  assumes "group_step\<^sup>*\<^sup>* g g'" and "groups_ok g"
  shows "groups_ok g'"
  using assms by (rule group_steps_ok)

section \<open>Refitting encloses\<close>

definition inside :: "box \<Rightarrow> group \<Rightarrow> bool" where
  "inside b gr \<longleftrightarrow>
     (case b of (x, y, w, ht) \<Rightarrow>
        g_x gr + 40 \<le> x \<and> g_y gr + 76 \<le> y \<and> x + w + 40 \<le> g_x gr + g_width gr \<and> y + ht + 40 \<le> g_y gr + g_height gr)"

definition encloses :: "flow_graph \<Rightarrow> int \<Rightarrow> bool" where
  "encloses g gid \<longleftrightarrow>
     (case dict_get (groups g) gid of None \<Rightarrow> True
      | Some gr \<Rightarrow> \<forall>b \<in> set (node_boxes g gid) \<union> set (child_boxes g gid). inside b gr)"

lemma fit_box_inside: "b \<in> set bs \<Longrightarrow> inside b (fit_box bs gr)"
proof -
  assume b: "b \<in> set bs"
  obtain x y w ht where xy: "b = (x, y, w, ht)" by (cases b) auto
  have "Min (set (map fst bs)) \<le> x" "Min (set (map (\<lambda>b. fst (snd b)) bs)) \<le> y"
    using b xy by (force intro!: Min_le)+
  moreover have "x + w \<le> Max (set (map (\<lambda>(x, y, w, ht). x + w) bs))"
    "y + ht \<le> Max (set (map (\<lambda>(x, y, w, ht). y + ht) bs))"
    using b xy by (force intro!: Max_ge)+
  ultimately show ?thesis by (simp add: inside_def fit_box_def Let_def xy)
qed

lemma set_child_boxes:
  assumes "dict_ok (groups g)"
  shows "set (child_boxes g gid) =
     {(g_x c, g_y c, g_width c, g_height c) | c i. dict_get (groups g) i = Some c \<and> g_parent c = Some gid}"
proof -
  have "b \<in> set (child_boxes g gid) \<longleftrightarrow>
      (\<exists>i c. parent_edge (groups g) i gid \<and> dict_get (groups g) i = Some c
         \<and> b = (g_x c, g_y c, g_width c, g_height c))" for b
    using set_child_group_ids[OF assms, of gid] by (auto simp: child_boxes_def List.map_filter_def image_iff)
  moreover have "(\<exists>i c. parent_edge (groups g) i gid \<and> dict_get (groups g) i = Some c
         \<and> b = (g_x c, g_y c, g_width c, g_height c))
      \<longleftrightarrow> (\<exists>c i. b = (g_x c, g_y c, g_width c, g_height c) \<and> dict_get (groups g) i = Some c \<and> g_parent c = Some gid)" for b
    by (rule iffI; elim exE conjE) (force simp: parent_edge_def)+
  ultimately show ?thesis by blast
qed

lemma node_boxes_frame:
  "node_db g' = node_db g \<Longrightarrow> node_heap g' = node_heap g \<Longrightarrow> node_boxes g' = node_boxes g"
  unfolding node_boxes_def member_node_ids_def get_node_def nodes_def member_of_def node_setting_at_def by simp

lemma refit_other: "j \<noteq> i \<Longrightarrow> dict_get (groups (refit_group i g)) j = dict_get (groups g) j"
  by (simp add: refit_group_def upd_group_def Let_def split: option.split)

lemma refit_frame: "node_db (refit_group i g) = node_db g" "node_heap (refit_group i g) = node_heap g"
  by (simp_all add: refit_group_def upd_group_def Let_def split: option.split)

lemma refit_child_boxes:
  assumes "dict_ok (groups g)" and "\<not> parent_edge (groups g) i gid"
  shows "set (child_boxes (refit_group i g) gid) = set (child_boxes g gid)"
proof -
  have reg: "same_registry g (refit_group i g)" by simp
  then have ok: "dict_ok (groups (refit_group i g))" using assms(1) by (simp add: same_registry_def)
  have "\<not> parent_edge (groups (refit_group i g)) i gid"
    using assms(2) reg by (simp add: shape_parent same_registry_def)
  with assms(2) have "dict_get (groups (refit_group i g)) j = Some c \<and> g_parent c = Some gid
      \<longleftrightarrow> dict_get (groups g) j = Some c \<and> g_parent c = Some gid" for j c
    using refit_other[of j i g] by (cases "j = i") (auto simp: parent_edge_def)
  then show ?thesis unfolding set_child_boxes[OF assms(1)] set_child_boxes[OF ok] by simp
qed

lemma refit_encloses_self:
  assumes ok: "dict_ok (groups g)" and irr: "\<not> parent_edge (groups g) i i"
  shows "encloses (refit_group i g) i"
proof -
  let ?g = "refit_group i g"
  let ?boxes = "node_boxes g i @ child_boxes g i"
  have nb: "node_boxes ?g = node_boxes g" by (rule node_boxes_frame) (simp_all add: refit_frame)
  note cb = refit_child_boxes[OF ok irr]
  show ?thesis
  proof (cases "dict_get (groups ?g) i")
    case None
    then show ?thesis by (simp add: encloses_def)
  next
    case (Some gr')
    have "inside b gr'" if "b \<in> set ?boxes" for b
    proof -
      from that have "?boxes \<noteq> []" by (metis empty_iff list.set(1))
      with Some obtain gr where "gr' = fit_box ?boxes gr"
        by (auto simp: refit_group_def upd_group_def Let_def split: option.splits)
      with fit_box_inside[OF that] show ?thesis by simp
    qed
    with Some nb cb show ?thesis by (auto simp: encloses_def)
  qed
qed

lemma refit_encloses_other:
  assumes "dict_ok (groups g)" and "\<not> parent_edge (groups g) i gid" and "i \<noteq> gid" and "encloses g gid"
  shows "encloses (refit_group i g) gid"
proof -
  have "node_boxes (refit_group i g) = node_boxes g" by (rule node_boxes_frame) (simp_all add: refit_frame)
  with refit_child_boxes[OF assms(1,2)] refit_other[OF assms(3)[symmetric]] assms(4) show ?thesis
    unfolding encloses_def by (simp split: option.splits)
qed

text \<open>A refit in an order that puts children before their parents encloses everything.\<close>

lemma refits_enclose:
  assumes "dict_ok (groups g)" and "\<And>i. \<not> parent_edge (groups g) i i"
    and "sorted_wrt (\<lambda>a b. \<not> parent_edge (groups g) b a) xs" and "distinct xs"
    and "\<And>a b. a \<in> done \<Longrightarrow> b \<in> set xs \<Longrightarrow> \<not> parent_edge (groups g) b a \<and> b \<noteq> a"
    and "\<And>a. a \<in> done \<Longrightarrow> encloses g a" and "a \<in> done \<union> set xs"
  shows "encloses (fold refit_group xs g) a"
  using assms
proof (induction xs arbitrary: g "done")
  case (Cons x xs)
  let ?g = "refit_group x g"
  have reg: "same_registry g ?g" by simp
  then have pe: "parent_edge (groups ?g) = parent_edge (groups g)"
    by (intro ext) (simp add: shape_parent same_registry_def)
  have ok: "dict_ok (groups ?g)" using reg Cons.prems(1) by (simp add: same_registry_def)
  have enc: "encloses ?g b" if "b \<in> insert x done" for b
  proof (cases "b = x")
    case True
    with refit_encloses_self[OF Cons.prems(1,2)] show ?thesis by simp
  next
    case False
    with that have "b \<in> done" by simp
    with Cons.prems(5)[of b x] Cons.prems(6) refit_encloses_other[OF Cons.prems(1)] show ?thesis by simp
  qed
  have sep: "\<not> parent_edge (groups ?g) b c \<and> b \<noteq> c" if "c \<in> insert x done" "b \<in> set xs" for b c
    using that Cons.prems(3,4) Cons.prems(5)[of c b] unfolding pe by auto
  have "encloses (fold refit_group xs ?g) a"
    by (rule Cons.IH[OF ok, of "insert x done"])
       (use Cons.prems(2,3,4,7) sep enc in \<open>auto simp: pe\<close>)
  then show ?case by simp
qed simp

lemma depth_seen:
  assumes "keyed gs" and "\<And>s. s \<in> seen \<union> seen2 \<Longrightarrow> \<not> (parent_edge gs)\<^sup>*\<^sup>* i s"
    and "acyclic (nesting gs)"
  shows "group_depth_from gs seen i = group_depth_from gs seen2 i"
  using assms
proof (induction gs seen i arbitrary: seen2 rule: group_depth_from.induct)
  case (1 gs seen i)
  show ?case
  proof (cases "\<exists>gr p. dict_get gs i = Some gr \<and> g_parent gr = Some p")
    case False
    then show ?thesis
      by (subst (1 2) group_depth_from.simps) (auto split: option.splits)
  next
    case True
    then obtain gr p where gr: "dict_get gs i = Some gr" "g_parent gr = Some p" by blast
    have key: "g_id gr = i" using gr(1) "1.prems"(1) unfolding keyed_def by blast
    have e: "parent_edge gs i p" using gr by (simp add: parent_edge_def)
    have "\<not> (parent_edge gs)\<^sup>*\<^sup>* p i"
    proof
      assume "(parent_edge gs)\<^sup>*\<^sup>* p i"
      with e have "(parent_edge gs)\<^sup>+\<^sup>+ i i" by (rule rtranclp_into_tranclp2)
      then have "(i, i) \<in> (nesting gs)\<^sup>+" by (simp add: nesting_def trancl_def)
      with "1.prems"(3) show False by (simp add: acyclic_def)
    qed
    moreover have "\<not> (parent_edge gs)\<^sup>*\<^sup>* p s" if "s \<in> seen \<union> seen2" for s
      using "1.prems"(2)[OF that] e by (meson converse_rtranclp_into_rtranclp)
    ultimately have sub: "\<not> (parent_edge gs)\<^sup>*\<^sup>* p s" if "s \<in> insert i seen \<union> insert i seen2" for s
      using that by blast
    have new: "i \<notin> seen" "i \<notin> seen2" using "1.prems"(2)[of i] by blast+
    have "group_depth_from gs (insert i seen) p = group_depth_from gs (insert i seen2) p"
      using "1.IH"[OF gr(1,2) _ "1.prems"(1) _ "1.prems"(3), of "insert i seen2"] new sub unfolding key by blast
    then show ?thesis using gr key new
      by (subst (1 2) group_depth_from.simps) simp
  qed
qed

lemma group_depth_parent:
  assumes "groups_ok g" and "parent_edge (groups g) i p"
  shows "group_depth g i = Suc (group_depth g p)"
proof -
  from assms(1) have keyed: "keyed (groups g)" and ac: "acyclic (nesting (groups g))"
    by (simp_all add: groups_ok_def)
  from assms(2) obtain gr where gr: "dict_get (groups g) i = Some gr" "g_parent gr = Some p"
    by (auto simp: parent_edge_def split: option.splits)
  have key: "g_id gr = i" using gr(1) keyed unfolding keyed_def by blast
  have "\<not> (parent_edge (groups g))\<^sup>*\<^sup>* p i"
  proof
    assume "(parent_edge (groups g))\<^sup>*\<^sup>* p i"
    with assms(2) have "(parent_edge (groups g))\<^sup>+\<^sup>+ i i" by (rule rtranclp_into_tranclp2)
    with ac show False by (simp add: acyclic_def nesting_def trancl_def)
  qed
  with depth_seen[OF keyed _ ac, of "{i}" "{}" p]
  have "group_depth_from (groups g) {i} p = group_depth_from (groups g) {} p" by simp
  moreover have "group_depth_from (groups g) {} i = Suc (group_depth_from (groups g) {i} p)"
    using gr key by (subst group_depth_from.simps) simp
  ultimately show ?thesis by (simp add: group_depth_def)
qed

text \<open>
  Refitting all groups leaves every group enclosing, with its padding, all its member nodes and all its
  sub-groups at their final sizes: children are fitted before the parents that are computed from them.
\<close>
theorem recompute_all_encloses:
  assumes "groups_ok g"
  shows "encloses (recompute_group_bounds None g) gid"
proof (cases "gid \<in> dom (map_of (groups g))")
  case True
  let ?xs = "rev (sort_key (group_depth g) (rev (dict_keys (groups g))))"
  have irr: "\<not> parent_edge (groups g) i i" for i
    using group_depth_parent[OF assms, of i i] by auto
  have "sorted (map (group_depth g) (sort_key (group_depth g) (rev (dict_keys (groups g)))))"
    by (rule sorted_sort_key)
  then have "sorted_wrt (\<lambda>b a. group_depth g a \<le> group_depth g b) ?xs"
    by (simp only: sorted_wrt_rev sorted_map)
  moreover have "\<not> parent_edge (groups g) b a" if "group_depth g b \<le> group_depth g a" for a b
    using that group_depth_parent[OF assms, of b a] by auto
  ultimately have "sorted_wrt (\<lambda>a b. \<not> parent_edge (groups g) b a) ?xs"
    by (rule sorted_wrt_mono_rel[rotated])
  moreover have "distinct ?xs"
    using assms by (simp add: groups_ok_def keyed_def dict_ok_def dict_keys_def)
  moreover have "gid \<in> {} \<union> set ?xs" using True by simp
  moreover have "dict_ok (groups g)" using assms by (simp add: groups_ok_def keyed_def)
  ultimately show ?thesis
    using refits_enclose[of g ?xs "{}" gid] irr by (simp add: recompute_group_bounds_def)
next
  case False
  have "same_registry g (recompute_group_bounds None g)" by simp
  with False have "gid \<notin> dom (map_of (groups (recompute_group_bounds None g)))"
    unfolding shape_dom same_registry_def by simp
  then show ?thesis by (simp add: encloses_def domIff)
qed

section \<open>Membership\<close>

lemma set_node_setting_nid [simp]: "nid (node_heap (set_node_setting f i g)) = nid (node_heap g)"
  by (auto simp: set_node_setting_def nid_def upd_node_apply fun_eq_iff split: option.split)

lemma set_node_setting_db [simp]:
  "node_db (set_node_setting f i g) = node_db g" "nodes (set_node_setting f i g) = nodes g"
  "groups (set_node_setting f i g) = groups g" "get_node (set_node_setting f i g) = get_node g"
  by (simp_all add: set_node_setting_def nodes_def get_node_def fun_eq_iff split: option.split)

lemma graph_ok_set_node_setting [simp]: "graph_ok g \<Longrightarrow> graph_ok (set_node_setting f i g)"
  unfolding graph_ok_def set_node_setting_nid set_node_setting_db
  by (auto simp: set_node_setting_def upd_node_apply split: option.split)

lemma node_setting_at_set:
  "node_setting_at (set_node_setting f i g) a
     = (if get_node g i = Some a then map_option f (node_setting_at g a) else node_setting_at g a)"
  by (auto simp: set_node_setting_def node_setting_at_def upd_node_apply split: option.split bind_split)

lemma get_node_iff: "graph_ok g \<Longrightarrow> a \<in> set (nodes g) \<Longrightarrow> get_node g i = Some a \<longleftrightarrow> nid (node_heap g) a = i"
  using graph_okD[of g] get_node_nodes[of g a] by blast

lemma member_of_set_group:
  assumes "graph_ok g" and "a \<in> set (nodes g)"
  shows "member_of (set_node_group k i g) a
    = (if nid (node_heap g) a = i \<and> node_setting_at g a \<noteq> None then k else member_of g a)"
  using get_node_iff[OF assms, of i]
  by (auto simp: member_of_def set_node_group_def node_setting_at_set split: option.split)

lemma member_of_set_groups:
  assumes "graph_ok g" and "a \<in> set (nodes g)"
  shows "member_of (fold (set_node_group k) is g) a
    = (if nid (node_heap g) a \<in> set is \<and> node_setting_at g a \<noteq> None then k else member_of g a)"
  using assms
proof (induction "is" arbitrary: g)
  case (Cons i "is")
  let ?g = "set_node_group k i g"
  have "graph_ok ?g" "a \<in> set (nodes ?g)" using Cons.prems by (simp_all add: set_node_group_def)
  from Cons.IH[OF this] member_of_set_group[OF Cons.prems, of k i] show ?case
    by (auto simp: set_node_group_def node_setting_at_set)
qed simp

lemma set_groups_frame:
  "groups (fold (set_node_group k) is g) = groups g" "nodes (fold (set_node_group k) is g) = nodes g"
  by (induction "is" arbitrary: g) (simp_all add: set_node_group_def)

lemma member_of_frame: "node_heap g' = node_heap g \<Longrightarrow> member_of g' = member_of g"
  by (simp add: member_of_def node_setting_at_def fun_eq_iff)

lemma in_member_node_ids:
  assumes "graph_ok g" and "a \<in> set (nodes g)"
  shows "nid (node_heap g) a \<in> set (member_node_ids g gid) \<longleftrightarrow> member_of g a = Some gid"
proof
  assume "nid (node_heap g) a \<in> set (member_node_ids g gid)"
  then obtain b where b: "b \<in> set (nodes g)" "member_of g b = Some gid" "nid (node_heap g) b = nid (node_heap g) a"
    by (auto simp: member_node_ids_def)
  have "get_node g (nid (node_heap g) a) = Some a" "get_node g (nid (node_heap g) a) = Some b"
    using get_node_iff[OF assms] get_node_iff[OF assms(1) b(1)] b(3) by simp_all
  with b show "member_of g a = Some gid" by simp
qed (use assms in \<open>auto simp: member_node_ids_def\<close>)

text \<open>
  Ungrouping lifts everything one level: the group disappears, its member nodes and its sub-groups get
  the deleted group's parent, and the membership of every other node and group is unchanged.
\<close>
theorem delete_group_lifts:
  assumes g: "graph_ok g" "groups_ok g" and gr: "dict_get (groups g) gid = Some gr"
  shows "dict_get (groups (delete_group gid g)) gid = None
    \<and> (\<forall>a \<in> set (nodes g). member_of (delete_group gid g) a
         = (if member_of g a = Some gid then g_parent gr else member_of g a))
    \<and> (\<forall>i p. i \<noteq> gid \<longrightarrow> parent_edge (groups (delete_group gid g)) i p
         = (if parent_edge (groups g) i gid then g_parent gr = Some p else parent_edge (groups g) i p))"
proof -
  let ?g1 = "fold (set_node_group (g_parent gr)) (member_node_ids g gid) g"
  let ?g2 = "fold (\<lambda>cid. upd_group cid (g_parent_update (\<lambda>_. g_parent gr))) (child_group_ids ?g1 gid) ?g1"
  have eq: "delete_group gid g = ?g2\<lparr>groups := dict_pop gid (groups ?g2)\<rparr>"
    by (simp add: delete_group_def gr Let_def)
  have ok1: "dict_ok (groups ?g1)" using g(2) by (simp add: set_groups_frame groups_ok_def keyed_def)
  have ch: "set (child_group_ids ?g1 gid) = {i. parent_edge (groups g) i gid}"
    unfolding set_child_group_ids[OF ok1] by (simp add: set_groups_frame)
  have get: "dict_get (groups ?g2) j = (if j \<in> set (child_group_ids ?g1 gid)
      then map_option (g_parent_update (\<lambda>_. g_parent gr)) (dict_get (groups g) j) else dict_get (groups g) j)" for j
    by (subst upd_groups_get) (simp_all add: set_groups_frame)
  have "member_of (delete_group gid g) a = (if member_of g a = Some gid then g_parent gr else member_of g a)"
    if a: "a \<in> set (nodes g)" for a
  proof -
    have "member_of (delete_group gid g) a = member_of ?g1 a"
      using member_of_frame[of "delete_group gid g" ?g1] by (simp add: eq upd_groups_frame)
    also have "\<dots> = (if member_of g a = Some gid then g_parent gr else member_of g a)"
      unfolding member_of_set_groups[OF g(1) a] in_member_node_ids[OF g(1) a]
      by (auto simp: member_of_def split: option.splits)
    finally show ?thesis .
  qed
  moreover have "parent_edge (groups (delete_group gid g)) i p
      = (if parent_edge (groups g) i gid then g_parent gr = Some p else parent_edge (groups g) i p)"
    if "i \<noteq> gid" for i p
    using that ch by (auto simp: eq parent_edge_def get split: option.splits)
  ultimately show ?thesis by (simp add: eq)
qed

section \<open>Concrete groups\<close>

definition plain_setting :: "int \<Rightarrow> node_setting" where
  "plain_setting i = \<lparr>s_is_promise = False, s_node_id = i, s_flow_id = 1, s_cache_results = False, s_pos_x = 100 * i,
     s_pos_y = 50, s_group_id = None, s_is_setup = True, s_description = [], s_depending_on_id = None,
     s_depending_on_ids = None, s_fields = []\<rparr>"

definition set_up_node :: "int \<Rightarrow> addr list \<Rightarrow> addr list \<Rightarrow> flow_node" where
  "set_up_node i ins outs = (chain_node i ins outs)\<lparr>setting_input := Some (plain_setting i)\<rparr>"

definition chain_graph :: flow_graph where
  "chain_graph = (empty_graph ''flow'')\<lparr>
     node_db := [(1, 1), (2, 2), (3, 3)], node_ids := [1, 2, 3], flow_starts := [1],
     node_heap := map_of [(1, set_up_node 1 [] [2]), (2, set_up_node 2 [1] [3]), (3, set_up_node 3 [2] [])]\<rparr>"

text \<open>Node 2 in the group 1 inside the group 2, beside node 3.\<close>

definition grouped_graph :: flow_graph where
  "grouped_graph =
     snd (create_group ''outer'' [3] None None None [1] (snd (create_group ''inner'' [2] None None None [] chain_graph)))"

lemma graph_ok_chain: "graph_ok chain_graph"
  by (simp add: graph_ok_def chain_graph_def empty_graph_def dict_ok_def nid_def set_up_node_def chain_node_def new_node_def)

lemma groups_ok_chain: "groups_ok chain_graph"
  by (simp add: groups_ok_def chain_graph_def empty_graph_def keyed_def nesting_def parent_edge_def acyclic_def)

lemma grouped_steps: "group_step\<^sup>*\<^sup>* chain_graph grouped_graph"
proof -
  let ?g = "snd (create_group ''inner'' [2] None None None [] chain_graph)"
  have "group_step chain_graph ?g"
    by (rule step_create[OF _ surjective_pairing]) simp
  moreover have "group_step ?g grouped_graph"
    unfolding grouped_graph_def by (rule step_create[OF _ surjective_pairing]) simp
  ultimately show ?thesis by (meson converse_rtranclp_into_rtranclp r_into_rtranclp)
qed

lemma groups_ok_grouped: "groups_ok grouped_graph"
  using grouped_steps groups_ok_chain by (rule group_steps_ok)

lemma graph_ok_grouped: "graph_ok grouped_graph"
  unfolding graph_ok_def by (intro conjI; code_simp)

lemma groups_stay_well_formed_witness:
  "groups_ok grouped_graph \<and> dict_keys (groups grouped_graph) = [1, 2]"
proof -
  have "dict_keys (groups grouped_graph) = [1, 2]" by code_simp
  with groups_stay_well_formed[OF grouped_steps groups_ok_chain] show ?thesis by blast
qed

lemma is_ancestor_group_iff_witness:
  "is_ancestor_group grouped_graph 2 1 \<and> (1, 2) \<in> (nesting (groups grouped_graph))\<^sup>*"
proof -
  have k: "keyed (groups grouped_graph)" using groups_ok_grouped by (simp add: groups_ok_def)
  have "is_ancestor_group grouped_graph 2 1" by code_simp
  with is_ancestor_group_iff[OF k, of 2 1] show ?thesis by blast
qed

lemma recompute_all_encloses_witness:
  "encloses (recompute_group_bounds None grouped_graph) 2
   \<and> g_width (the (dict_get (groups (recompute_group_bounds None grouped_graph)) 2)) = 400"
proof -
  have "g_width (the (dict_get (groups (recompute_group_bounds None grouped_graph)) 2)) = 400" by code_simp
  with recompute_all_encloses[OF groups_ok_grouped, of 2] show ?thesis by blast
qed

lemma delete_group_lifts_witness: "member_of (delete_group 1 grouped_graph) 2 = Some 2"
proof -
  obtain gr where gr: "dict_get (groups grouped_graph) 1 = Some gr" "g_parent gr = Some 2"
  proof -
    have "map_option g_parent (dict_get (groups grouped_graph) 1) = Some (Some 2)" by code_simp
    with that show ?thesis by auto
  qed
  have a: "2 \<in> set (nodes grouped_graph)" by code_simp
  have "member_of grouped_graph 2 = Some 1" by code_simp
  with delete_group_lifts[OF graph_ok_grouped groups_ok_grouped gr(1)] gr(2) a show ?thesis by simp
qed

text \<open>
  \<open>create_group\<close> stores the requested parent without looking it up. A request that names the id the
  group is about to get makes the group its own parent, which no later operation on the group can tell
  from a legal nesting.
\<close>
theorem create_group_can_nest_in_itself:
  "parent_edge (groups (snd (create_group name ids color bounds (Some 1) [] (empty_graph uuid)))) 1 1"
proof -
  have reg: "shape (groups (fold (set_node_group k) is g)) = shape (groups g)" for g k "is"
    by (simp add: set_groups_frame)
  have refit: "shape (groups (recompute_group_bounds i g)) = shape (groups g)" for g i
    using same_registry_recompute[of g i] by (simp add: same_registry_def)
  let ?gr = "\<lparr>g_id = 1, g_name = name, g_color = color, g_x = 0, g_y = 0, g_width = 400,
                     g_height = 250, g_collapsed = False, g_parent = Some 1\<rparr>"
  have "shape (groups (snd (create_group name ids color bounds (Some 1) [] (empty_graph uuid))))
      = shape (dict_set 1 (case bounds of None \<Rightarrow> ?gr | Some b \<Rightarrow> set_bounds b ?gr) [])"
    by (simp add: create_group_def next_group_id_def empty_graph_def Let_def dict_keys_def reg refit)
  then show ?thesis by (auto simp: shape_parent shape_def split: option.split)
qed

end
