(* ===== verification/Graph_Edit.thy ===== *)
theory Graph_Edit
  imports Visual_Groups
begin

text \<open>
  Editing the graph: \<open>add_node_step\<close>, \<open>delete_node\<close>, \<open>add_connection\<close> and \<open>delete_connection\<close> of
  \<open>flow_graph.py\<close>, with the parts of \<open>FlowNode\<close> they call. An operation returns \<open>None\<close> when the fuel for
  the recursive hashing and resetting is too small, and else the new graph with the exception, if one
  was raised: what was changed before the exception stays changed.

  The cycle check walks downstream with a stack and a set of visited ids. Its fuel counts the nodes it
  takes from the stack; \<open>would_create_cycle_correct\<close> shows that more fuel than the graph has nodes is
  enough, and that the answer is right.
\<close>

section \<open>Settings of a node\<close>

definition set_is_setup :: "flow_node \<Rightarrow> flow_node" where
  "set_is_setup nd =
     (if \<not> info_is_setup nd \<and> \<not> is_placeholder nd
      then nd\<lparr>info_is_setup := True, setting_input := map_option (s_is_setup_update (\<lambda>_. True)) (setting_input nd)\<rparr>
      else nd)"

definition is_manual_update :: "flow_node \<Rightarrow> node_setting option \<Rightarrow> bool" where
  "is_manual_update nd new =
     (node_type nd = ''manual_input''
      \<and> (case new of None \<Rightarrow> False | Some s \<Rightarrow> \<not> s_is_promise s)
      \<and> (case setting_input nd of None \<Rightarrow> False | Some s \<Rightarrow> \<not> s_is_promise s))"

definition hash_node :: "(pyval \<Rightarrow> string) \<Rightarrow> nat \<Rightarrow> addr \<Rightarrow> heap \<Rightarrow> heap option" where
  "hash_node D n a h = map_option snd (hash_all D n h [a])"

definition set_setting_input ::
  "(pyval \<Rightarrow> string) \<Rightarrow> nat \<Rightarrow> addr \<Rightarrow> node_setting option \<Rightarrow> heap \<Rightarrow> (heap \<times> py_error option) option" where
  "set_setting_input D n a new h =
     (case h a of
        None \<Rightarrow> None
      | Some nd \<Rightarrow>
          (case (if is_manual_update nd new then hash_node D n a h else Some h) of
             None \<Rightarrow> None
           | Some h1 \<Rightarrow>
               (let h2 = upd_node a (\<lambda>x. x\<lparr>setting_input := new,
                            cache_results := (case new of None \<Rightarrow> cache_results x | Some s \<Rightarrow> s_cache_results s)\<rparr>) h1
                in if new = None then Some (h2, Some AttributeError)
                   else let h3 = upd_node a set_is_setup h2
                   in if is_manual_update nd new then
                        (case (hash_node D n a h3) of
                           None \<Rightarrow> None
                         | Some h4 \<Rightarrow>
                             (case Option.bind (h4 a) (\<lambda>x. calculate_hash D n h4 x) of
                                None \<Rightarrow> None
                              | Some (x, h5) \<Rightarrow>
                                  if Option.bind (h5 a) node_hash \<noteq> Some x
                                     \<or> \<not> (case h5 a of None \<Rightarrow> False | Some nd5 \<Rightarrow> stat_has_run (node_stats nd5))
                                  then map_option (\<lambda>h6. (h6, None)) (reset D n False a h5)
                                  else Some (h5, None)))
                      else map_option (\<lambda>h4. (h4, None)) (reset D n False a h3))))"

definition add_lead_to_in_depend_source :: "addr \<Rightarrow> heap \<Rightarrow> heap" where
  "add_lead_to_in_depend_source a h =
     (case h a of
        None \<Rightarrow> h
      | Some nd \<Rightarrow>
          fold (\<lambda>i h. if nid h a \<in> nid h ` set (leads h i) then h
                      else upd_node i (\<lambda>x. x\<lparr>leads_to_nodes := leads_to_nodes x @ [a]\<rparr>) h)
            (get_all_inputs nd) h)"

definition update_node ::
  "(pyval \<Rightarrow> string) \<Rightarrow> nat \<Rightarrow> (string \<Rightarrow> node_template option) \<Rightarrow> bool \<Rightarrow> addr \<Rightarrow> node_setting option
    \<Rightarrow> heap \<Rightarrow> (heap \<times> py_error option) option" where
  "update_node D n templates placeholder a new h =
     (let h1 = upd_node a (\<lambda>x. x\<lparr>is_placeholder := placeholder,
                 cache_results := (case new of None \<Rightarrow> cache_results x | Some s \<Rightarrow> s_cache_results s),
                 results := (results x)\<lparr>r_errors := None\<rparr>\<rparr>) h
      in case hash_node D n a (add_lead_to_in_depend_source a h1) of
           None \<Rightarrow> None
         | Some h2 \<Rightarrow>
             (case Option.bind (h2 a) (\<lambda>x. templates (node_type x)) of
                None \<Rightarrow> Some (h2, Some (PyException ''Node template not found''))
              | Some t \<Rightarrow> set_setting_input D n a new (upd_node a (node_template_update (\<lambda>_. t)) h2)))"

section \<open>Nodes\<close>

definition delete_node_inputs ::
  "(pyval \<Rightarrow> string) \<Rightarrow> nat \<Rightarrow> int \<Rightarrow> addr list \<Rightarrow> heap \<Rightarrow> (heap \<times> py_error option) option" where
  "delete_node_inputs D n i bs h =
     fold (\<lambda>b st. case st of
             Some (h, None) \<Rightarrow>
               (case delete_input_node D n b i ''input-0'' True h of
                  None \<Rightarrow> None | Some (h1, Inl e) \<Rightarrow> Some (h1, Some e) | Some (h1, Inr _) \<Rightarrow> Some (h1, None))
           | _ \<Rightarrow> st) bs (Some (h, None))"

definition prune_group_of :: "int option \<Rightarrow> flow_graph \<Rightarrow> flow_graph" where
  "prune_group_of gid g =
     (case gid of
        None \<Rightarrow> g
      | Some i \<Rightarrow> if dict_get (groups g) i \<noteq> None \<and> is_unused_group g i
                  then g\<lparr>groups := dict_pop i (groups g)\<rparr> else g)"

definition delete_node ::
  "(pyval \<Rightarrow> string) \<Rightarrow> nat \<Rightarrow> int \<Rightarrow> flow_graph \<Rightarrow> (flow_graph \<times> py_error option) option" where
  "delete_node D n i g =
     (case get_node g i of
        None \<Rightarrow> Some (g, Some (PyException ''Node does not exist''))
      | Some a \<Rightarrow>
          (case delete_node_inputs D n i (leads (node_heap g) a) (node_heap g) of
             None \<Rightarrow> None
           | Some (h1, Some e) \<Rightarrow> Some (g\<lparr>node_heap := h1\<rparr>, Some e)
           | Some (h1, None) \<Rightarrow>
               (let depends_on = (case h1 a of None \<Rightarrow> [] | Some nd \<Rightarrow> if is_start nd then [] else get_all_inputs nd);
                    h2 = fold (\<lambda>b h. fst (delete_lead_to_node b i h)) depends_on h1
                in Some (prune_group_of (member_of g a)
                           (g\<lparr>node_heap := h2, node_db := dict_pop i (node_db g)\<rparr>), None))))"

definition fresh_addr :: "flow_graph \<Rightarrow> addr \<Rightarrow> bool" where
  "fresh_addr g a \<longleftrightarrow> node_heap g a = None"

definition data_node_types :: "string list" where
  "data_node_types = [''cloud_storage_reader'', ''catalog_reader'', ''polars_lazy_frame'', ''input_data'']"

text \<open>
  The address \<open>a\<close> is the one the new object gets. \<open>named_placeholder\<close> says that the node's function is
  called \<open>placeholder\<close> or \<open>analysis_preparation\<close>.
\<close>

definition add_node_step ::
  "(pyval \<Rightarrow> string) \<Rightarrow> nat \<Rightarrow> (string \<Rightarrow> node_template option) \<Rightarrow> addr \<Rightarrow> bool \<Rightarrow> int \<Rightarrow> string
    \<Rightarrow> node_setting option \<Rightarrow> int list option \<Rightarrow> flow_graph \<Rightarrow> (flow_graph \<times> py_error option) option" where
  "add_node_step D n templates a named_placeholder i ty new input_node_ids g =
     (let existing = get_node g i;
          retyped = (case Option.bind existing (node_heap g) of None \<Rightarrow> False | Some nd \<Rightarrow> node_type nd \<noteq> ty)
      in case (if retyped then delete_node D n i g else Some (g, None)) of
           None \<Rightarrow> None
         | Some (g1, Some e) \<Rightarrow> Some (g1, Some e)
         | Some (g1, None) \<Rightarrow>
             (let existing = (if retyped then None else existing)
              in if existing = None \<and> input_node_ids = None \<and> \<not> named_placeholder \<and> ty \<notin> set data_node_types
                 then Some (g1, Some (PyException ''No data initialized''))
                 else
                   (let b = (case existing of None \<Rightarrow> a | Some b \<Rightarrow> b);
                        h1 = (case existing of
                                Some _ \<Rightarrow> node_heap g1
                              | None \<Rightarrow> (node_heap g1)(a \<mapsto> new_node i ty (graph_uuid g1)
                                          (case templates ty of Some t \<Rightarrow> t | None \<Rightarrow> transform_template)))
                    in case update_node D n templates named_placeholder b new h1 of
                         None \<Rightarrow> None
                       | Some (h2, Some e) \<Rightarrow> Some (g1\<lparr>node_heap := h2\<rparr>, Some e)
                       | Some (h2, None) \<Rightarrow>
                           Some (g1\<lparr>node_heap := h2, node_db := dict_set i b (node_db g1),
                                    node_ids := node_ids g1 @ [i]\<rparr>, None))))"

section \<open>Connections\<close>

definition scan_downstream ::
  "heap \<Rightarrow> int \<Rightarrow> addr \<Rightarrow> bool \<times> int set \<times> addr list \<Rightarrow> bool \<times> int set \<times> addr list" where
  "scan_downstream h i b st =
     (case st of (found, visited, stack) \<Rightarrow>
        if found \<or> nid h b = i then (True, visited, stack)
        else if nid h b \<notin> visited then (False, insert (nid h b) visited, b # stack)
        else st)"

text \<open>The head of the list is the top of the stack.\<close>

fun cycle_search :: "heap \<Rightarrow> int \<Rightarrow> nat \<Rightarrow> int set \<Rightarrow> addr list \<Rightarrow> bool option" where
  "cycle_search h i n visited [] = Some False"
| "cycle_search h i 0 visited (a # stack) = None"
| "cycle_search h i (Suc n) visited (a # stack) =
     (case fold (scan_downstream h i) (leads h a) (False, visited, stack) of
        (True, _, _) \<Rightarrow> Some True
      | (False, visited', stack') \<Rightarrow> cycle_search h i n visited' stack')"

definition would_create_cycle :: "heap \<Rightarrow> nat \<Rightarrow> addr \<Rightarrow> addr \<Rightarrow> bool option" where
  "would_create_cycle h n from to =
     (if nid h from = nid h to then Some True
      else cycle_search h (nid h from) n {nid h to} [to])"

definition node_is_source :: "flow_node \<Rightarrow> bool" where
  "node_is_source nd \<longleftrightarrow> t_input (node_template nd) = 0"

datatype connection_error = TargetIsSource | WouldCreateCycle

definition validate_connection :: "heap \<Rightarrow> nat \<Rightarrow> addr \<Rightarrow> addr \<Rightarrow> connection_error option option" where
  "validate_connection h n from to =
     (if (case h to of None \<Rightarrow> False | Some nd \<Rightarrow> node_is_source nd) then Some (Some TargetIsSource)
      else map_option (\<lambda>c. if c then Some WouldCreateCycle else None) (would_create_cycle h n from to))"

record node_connection =
  nc_to :: int
  nc_input_class :: string
  nc_from :: int
  nc_output_class :: string

definition get_node_input_connection_type :: "string \<Rightarrow> py_error + string" where
  "get_node_input_connection_type c =
     (if c = ''input-0'' then Inr ''main'' else if c = ''input-1'' then Inr ''right''
      else if c = ''input-2'' then Inr ''left'' else Inl (ValueError ''Unexpected connection_class''))"

definition create_from_simple_input :: "int \<Rightarrow> int \<Rightarrow> string \<Rightarrow> string \<Rightarrow> node_connection" where
  "create_from_simple_input from_id to_id input_type output_handle =
     \<lparr>nc_to = to_id,
      nc_input_class = (if input_type = ''main'' then ''input-0'' else if input_type = ''right'' then ''input-1''
                        else if input_type = ''left'' then ''input-2'' else ''input-0''),
      nc_from = from_id, nc_output_class = output_handle\<rparr>"

definition add_connection ::
  "(pyval \<Rightarrow> string) \<Rightarrow> nat \<Rightarrow> node_connection \<Rightarrow> flow_graph \<Rightarrow> (flow_graph \<times> py_error option) option" where
  "add_connection D n c g =
     (case (get_node g (nc_from c), get_node g (nc_to c)) of
        (Some from, Some to) \<Rightarrow>
          (case validate_connection (node_heap g) n from to of
             None \<Rightarrow> None
           | Some (Some TargetIsSource) \<Rightarrow> Some (g, Some (HTTPException 422 ''target is a source''))
           | Some (Some WouldCreateCycle) \<Rightarrow> Some (g, Some (HTTPException 422 ''would create a cycle''))
           | Some None \<Rightarrow>
               (case get_node_input_connection_type (nc_input_class c) of
                  Inl e \<Rightarrow> Some (g, Some e)
                | Inr ty \<Rightarrow>
                    map_option (\<lambda>(h, e). (g\<lparr>node_heap := h\<rparr>, e))
                      (add_node_connection D n to from ty (nc_output_class c) (node_heap g))))
      | _ \<Rightarrow> Some (g, Some (HTTPException 404 ''Node(s) not found'')))"

definition delete_connection ::
  "(pyval \<Rightarrow> string) \<Rightarrow> nat \<Rightarrow> node_connection \<Rightarrow> flow_graph \<Rightarrow> (flow_graph \<times> py_error option) option" where
  "delete_connection D n c g =
     (case (get_node g (nc_from c), get_node g (nc_to c)) of
        (Some from, Some to) \<Rightarrow>
          (case get_node_input_connection_type (nc_input_class c) of
             Inl e \<Rightarrow> Some (g, Some e)
           | Inr ty \<Rightarrow>
               (case node_heap g to of
                  None \<Rightarrow> None
                | Some nd \<Rightarrow>
                    (case validate_if_input_connection_exists (node_heap g) nd (nid (node_heap g) from) ty of
                       Inl e \<Rightarrow> Some (g, Some e)
                     | Inr False \<Rightarrow> Some (g, Some (HTTPException 422 ''Connection does not exist on the input node''))
                     | Inr True \<Rightarrow>
                         (let h1 = fst (delete_lead_to_node from (nc_to c) (node_heap g))
                          in case delete_input_node D n to (nc_from c) (nc_input_class c) False h1 of
                               None \<Rightarrow> None
                             | Some (h2, Inl e) \<Rightarrow> Some (g\<lparr>node_heap := h2\<rparr>, Some e)
                             | Some (h2, Inr _) \<Rightarrow> Some (g\<lparr>node_heap := h2\<rparr>, None)))))
      | _ \<Rightarrow> Some (g, Some (HTTPException 422 ''Connection does not exist on the input node'')))"

text \<open>Copying a node: the fields of the promise that are set replace those of the copied settings.\<close>

definition combine_existing_settings_and_new_settings :: "node_setting \<Rightarrow> node_setting \<Rightarrow> node_setting" where
  "combine_existing_settings_and_new_settings old new =
     old\<lparr>s_node_id := s_node_id new, s_pos_x := s_pos_x new, s_pos_y := s_pos_y new,
         s_description := s_description new, s_flow_id := s_flow_id new,
         s_fields := map (\<lambda>(k, v). (k, if k = ''node_reference'' then PNone else v)) (s_fields old)\<rparr>"

section \<open>The cycle check decides reachability\<close>

lemma scan_found: "fold (scan_downstream h i) bs (True, vis, st) = (True, vis, st)"
  by (induction bs) (simp_all add: scan_downstream_def)

lemma scan_result:
  "fold (scan_downstream h i) bs (False, vis, st) = (found, vis', st') \<Longrightarrow>
     found = (i \<in> nid h ` set bs)
     \<and> (\<not> found \<longrightarrow> (\<exists>new. st' = new @ st \<and> vis' = vis \<union> nid h ` set bs \<and> set new \<subseteq> set bs
           \<and> nid h ` set new = nid h ` set bs - vis \<and> distinct (map (nid h) new)))"
proof (induction bs arbitrary: vis st)
  case (Cons b bs)
  consider "nid h b = i" | "nid h b \<noteq> i" "nid h b \<in> vis" | "nid h b \<noteq> i" "nid h b \<notin> vis" by blast
  then show ?case
  proof cases
    case 1
    then have "scan_downstream h i b (False, vis, st) = (True, vis, st)" by (simp add: scan_downstream_def)
    with Cons.prems have "found" by (simp add: scan_found)
    with 1 show ?thesis by auto
  next
    case 2
    then have "scan_downstream h i b (False, vis, st) = (False, vis, st)" by (simp add: scan_downstream_def)
    with Cons.prems have "fold (scan_downstream h i) bs (False, vis, st) = (found, vis', st')" by simp
    from Cons.IH[OF this] 2 show ?thesis by auto
  next
    case 3
    then have "scan_downstream h i b (False, vis, st) = (False, insert (nid h b) vis, b # st)"
      by (simp add: scan_downstream_def)
    with Cons.prems have "fold (scan_downstream h i) bs (False, insert (nid h b) vis, b # st) = (found, vis', st')"
      by simp
    from Cons.IH[OF this] have f: "found = (i \<in> nid h ` set bs)" and
      new: "\<not> found \<longrightarrow> (\<exists>new. st' = new @ b # st \<and> vis' = insert (nid h b) vis \<union> nid h ` set bs
        \<and> set new \<subseteq> set bs \<and> nid h ` set new = nid h ` set bs - insert (nid h b) vis \<and> distinct (map (nid h) new))"
      by blast+
    have "\<exists>new. st' = new @ st \<and> vis' = vis \<union> nid h ` set (b # bs) \<and> set new \<subseteq> set (b # bs)
           \<and> nid h ` set new = nid h ` set (b # bs) - vis \<and> distinct (map (nid h) new)" if nf: "\<not> found"
    proof -
      from new nf obtain new where n: "st' = new @ b # st" "vis' = insert (nid h b) vis \<union> nid h ` set bs"
        "set new \<subseteq> set bs" "nid h ` set new = nid h ` set bs - insert (nid h b) vis" "distinct (map (nid h) new)"
        by blast
      then have "nid h b \<notin> nid h ` set new" by blast
      with n 3 show ?thesis by (intro exI[of _ "new @ [b]"]) auto
    qed
    with f 3 show ?thesis by auto
  qed
qed simp

text \<open>The ids that the walk can still meet are finite in number; they bound the fuel.\<close>

definition reach_ids :: "heap \<Rightarrow> addr \<Rightarrow> int set" where
  "reach_ids h a = nid h ` {b. (edge h)\<^sup>*\<^sup>* a b}"

lemma cycle_search_step:
  assumes inj: "inj_on (nid h) {b. (edge h)\<^sup>*\<^sup>* to b}" and fin: "finite (reach_ids h to)"
    and st: "\<forall>b \<in> set st. (edge h)\<^sup>*\<^sup>* to b \<and> nid h b \<in> vis" and vis: "vis \<subseteq> reach_ids h to" and i: "i \<notin> vis"
    and closed: "\<And>b c. nid h b \<in> vis \<Longrightarrow> (edge h)\<^sup>*\<^sup>* to b \<Longrightarrow> b \<notin> set st \<Longrightarrow> edge h b c \<Longrightarrow> nid h c \<in> vis"
    and root: "nid h to \<in> vis" and fuel: "card (reach_ids h to - vis) + length st \<le> n"
  shows "cycle_search h i n vis st = Some (i \<in> reach_ids h to)"
  using assms(3-)
proof (induction n arbitrary: vis st)
  case 0
  then have "st = []" by simp
  with "0.prems"(4) have cl: "nid h c \<in> vis" if "nid h b \<in> vis" "(edge h)\<^sup>*\<^sup>* to b" "edge h b c" for b c
    using that by simp
  have "nid h b \<in> vis" if "(edge h)\<^sup>*\<^sup>* to b" for b
    using that by (induction rule: rtranclp_induct) (use "0.prems"(5) cl in blast)+
  then have "i \<notin> reach_ids h to" using "0.prems"(3) by (auto simp: reach_ids_def)
  with "0.prems"(6) show ?case by simp
next
  case (Suc n)
  show ?case
  proof (cases st)
    case Nil
    with Suc.prems(4) have cl: "nid h c \<in> vis" if "nid h b \<in> vis" "(edge h)\<^sup>*\<^sup>* to b" "edge h b c" for b c
      using that by simp
    have "nid h b \<in> vis" if "(edge h)\<^sup>*\<^sup>* to b" for b
      using that by (induction rule: rtranclp_induct) (use Suc.prems(5) cl in blast)+
    then have "i \<notin> reach_ids h to" using Suc.prems(3) by (auto simp: reach_ids_def)
    with Nil show ?thesis by simp
  next
    case (Cons a st1)
    obtain found vis' st' where sc: "fold (scan_downstream h i) (leads h a) (False, vis, st1) = (found, vis', st')"
      by (metis surj_pair)
    note r = scan_result[OF sc]
    from Suc.prems(1) Cons have a: "(edge h)\<^sup>*\<^sup>* to a" by simp
    have down: "(edge h)\<^sup>*\<^sup>* to b" if "b \<in> set (leads h a)" for b
      using a that by (meson edge_def rtranclp.rtrancl_into_rtrancl)
    show ?thesis
    proof (cases found)
      case True
      with r down have "i \<in> reach_ids h to" by (auto simp: reach_ids_def)
      with True sc Cons show ?thesis by simp
    next
      case False
      with r obtain new where n: "st' = new @ st1" "vis' = vis \<union> nid h ` set (leads h a)"
        "set new \<subseteq> set (leads h a)" "nid h ` set new = nid h ` set (leads h a) - vis" "distinct (map (nid h) new)"
        by blast
      have sub: "nid h ` set new \<subseteq> reach_ids h to - vis" using n(3,4) down by (auto simp: reach_ids_def)
      have "card (nid h ` set new) = length new"
        using n(5) by (metis distinct_card length_map set_map)
      moreover have "vis' = vis \<union> nid h ` set new" using n(2,4) by blast
      then have "reach_ids h to - vis' = (reach_ids h to - vis) - nid h ` set new" by blast
      then have "card (reach_ids h to - vis') = card (reach_ids h to - vis) - card (nid h ` set new)"
        using sub by (simp add: card_Diff_subset)
      moreover have "card (nid h ` set new) \<le> card (reach_ids h to - vis)"
        using sub fin by (simp add: card_mono)
      ultimately have fuel: "card (reach_ids h to - vis') + length st' \<le> n"
        using Suc.prems(6) Cons n(1) by simp
      have st': "\<forall>b \<in> set st'. (edge h)\<^sup>*\<^sup>* to b \<and> nid h b \<in> vis'"
        using n(1,2,3) down Suc.prems(1) Cons by auto
      have vis'_sub: "vis' \<subseteq> reach_ids h to" using n(2) down Suc.prems(2) by (auto simp: reach_ids_def)
      have i': "i \<notin> vis'" using n(2) Suc.prems(3) False r by blast
      have cl: "nid h c \<in> vis'" if b: "nid h b \<in> vis'" "(edge h)\<^sup>*\<^sup>* to b" "b \<notin> set st'" "edge h b c" for b c
      proof (cases "b = a")
        case True
        with b(4) n(2) show ?thesis by (auto simp: edge_def)
      next
        case ba: False
        show ?thesis
        proof (cases "nid h b \<in> vis")
          case True
          with Suc.prems(4)[OF True b(2) _ b(4)] b(3) n(1,2) Cons ba show ?thesis by auto
        next
          case False
          with b(1) n(2,4) have "nid h b \<in> nid h ` set new" by blast
          then obtain d where d: "d \<in> set new" "nid h d = nid h b" by auto
          with n(3) down have "(edge h)\<^sup>*\<^sup>* to d" by blast
          with inj b(2) d(2) have "d = b" by (auto dest: inj_onD)
          with d(1) b(3) n(1) show ?thesis by simp
        qed
      qed
      have root': "nid h to \<in> vis'" using Suc.prems(5) n(2) by simp
      from Suc.IH[OF st' vis'_sub i' cl root' fuel] False sc Cons show ?thesis by simp
    qed
  qed
qed

lemma would_create_cycle_iff:
  assumes inj: "inj_on (nid h) {b. (edge h)\<^sup>*\<^sup>* to b}" and fin: "finite (reach_ids h to)"
    and fuel: "card (reach_ids h to) \<le> n"
  shows "would_create_cycle h n from to = Some (nid h from \<in> reach_ids h to)"
proof (cases "nid h from = nid h to")
  case True
  then show ?thesis by (auto simp: would_create_cycle_def reach_ids_def)
next
  case False
  have to: "nid h to \<in> reach_ids h to" by (auto simp: reach_ids_def)
  have "cycle_search h (nid h from) n {nid h to} [to] = Some (nid h from \<in> reach_ids h to)"
  proof (rule cycle_search_step[OF inj fin])
    show "\<forall>b \<in> set [to]. (edge h)\<^sup>*\<^sup>* to b \<and> nid h b \<in> {nid h to}" by simp
    show "{nid h to} \<subseteq> reach_ids h to" using to by simp
    show "nid h from \<notin> {nid h to}" using False by simp
    show "nid h c \<in> {nid h to}" if "nid h b \<in> {nid h to}" "(edge h)\<^sup>*\<^sup>* to b" "b \<notin> set [to]" for b c
      using that inj by (auto dest: inj_onD)
    show "card (reach_ids h to - {nid h to}) + length [to] \<le> n"
      using fuel to fin card_gt_0_iff[of "reach_ids h to"] by (auto simp: card_Diff_singleton)
  qed simp_all
  with False show ?thesis by (simp add: would_create_cycle_def)
qed

section \<open>Well-formed graphs\<close>

text \<open>
  Edges are stored twice: downstream in \<open>leads_to_nodes\<close> and upstream in the inputs. A heap is well
  formed when references stay in it, the downstream edges have no cycle, and every input is backed by a
  downstream edge, counted with multiplicity (a node may feed two inputs of another).
\<close>

definition inputs_of :: "heap \<Rightarrow> addr \<Rightarrow> addr list" where
  "inputs_of h a = (case h a of None \<Rightarrow> [] | Some nd \<Rightarrow> get_all_inputs nd)"

definition edges :: "heap \<Rightarrow> (addr \<times> addr) set" where
  "edges h = {(a, b). b \<in> set (leads h a)}"

definition wf_heap :: "heap \<Rightarrow> bool" where
  "wf_heap h \<longleftrightarrow>
     finite (dom h) \<and> (\<forall>a. set (leads h a) \<union> set (inputs_of h a) \<subseteq> dom h) \<and> acyclic (edges h)
     \<and> (\<forall>a b. count_list (inputs_of h b) a \<le> count_list (leads h a) b)"

definition wf_graph :: "flow_graph \<Rightarrow> bool" where
  "wf_graph g \<longleftrightarrow>
     graph_ok g \<and> wf_heap (node_heap g)
     \<and> (\<forall>a \<in> set (nodes g). set (leads (node_heap g) a) \<union> set (inputs_of (node_heap g) a) \<subseteq> set (nodes g))"

lemma same_topo_inputs: "same_topo h h' \<Longrightarrow> inputs_of h' = inputs_of h"
proof
  fix a assume st: "same_topo h h'"
  show "inputs_of h' a = inputs_of h a"
  proof (cases "h a")
    case None
    then have "h' a = None" using same_topo_None[OF st] by blast
    with None show ?thesis by (simp add: inputs_of_def)
  next
    case (Some nd)
    from same_topoE[OF st this] obtain nd' where "h' a = Some nd'" and "topo nd' = topo nd" .
    with Some topo_inputs[of nd' nd] show ?thesis by (simp add: inputs_of_def)
  qed
qed

lemma same_topo_nid: "same_topo h h' \<Longrightarrow> nid h' = nid h"
proof
  fix a assume st: "same_topo h h'"
  show "nid h' a = nid h a"
  proof (cases "h a")
    case None
    then have "h' a = None" using same_topo_None[OF st] by blast
    with None show ?thesis by (simp add: nid_def)
  next
    case (Some nd)
    from same_topoE[OF st this] obtain nd' where "h' a = Some nd'" and "topo nd' = topo nd" .
    with Some show ?thesis by (simp add: nid_def topo_def)
  qed
qed

lemma same_topo_dom: "same_topo h h' \<Longrightarrow> dom h' = dom h"
  by (auto simp: dom_def same_topo_None)

lemma wf_heap_topo: "same_topo h h' \<Longrightarrow> wf_heap h \<Longrightarrow> wf_heap h'"
  by (simp add: wf_heap_def edges_def same_topo_leads same_topo_inputs same_topo_dom)

lemma graph_ok_frame:
  "graph_ok g \<Longrightarrow> nid h = nid (node_heap g) \<Longrightarrow> dom h = dom (node_heap g) \<Longrightarrow> graph_ok (g\<lparr>node_heap := h\<rparr>)"
  by (auto simp: graph_ok_def)

lemma wf_heap_edge:
  assumes "wf_heap h" and "(a, b) \<in> edges h"
  shows "a \<in> dom h" and "b \<in> dom h"
proof -
  from assms(2) have "b \<in> set (leads h a)" by (simp add: edges_def)
  then show "a \<in> dom h" by (cases "h a") (auto simp: leads_def)
  from \<open>b \<in> set (leads h a)\<close> show "b \<in> dom h" using assms(1) unfolding wf_heap_def by blast
qed

lemma edge_edges: "edge h a b \<longleftrightarrow> (a, b) \<in> edges h"
  by (simp add: edge_def edges_def)

lemma edges_reach: "(edge h)\<^sup>*\<^sup>* a b \<longleftrightarrow> (a, b) \<in> (edges h)\<^sup>*"
proof -
  have "edge h = (\<lambda>a b. (a, b) \<in> edges h)" by (simp add: fun_eq_iff edge_edges)
  then show ?thesis by (simp add: rtranclp_rtrancl_eq)
qed

text \<open>The rank of a node is the number of its ancestors.\<close>

definition rank_of :: "heap \<Rightarrow> addr \<Rightarrow> nat" where
  "rank_of h a = card {b. (b, a) \<in> (edges h)\<^sup>+}"

lemma ancestors_in_dom: "wf_heap h \<Longrightarrow> {b. (b, a) \<in> (edges h)\<^sup>+} \<subseteq> dom h"
  by (auto elim: converse_tranclE dest: wf_heap_edge(1))

lemma rank_of_edge:
  assumes "wf_heap h" and "(a, b) \<in> edges h"
  shows "rank_of h a < rank_of h b"
  unfolding rank_of_def
proof (rule psubset_card_mono)
  show "finite {c. (c, b) \<in> (edges h)\<^sup>+}"
    using ancestors_in_dom[OF assms(1)] assms(1) by (auto simp: wf_heap_def intro: finite_subset)
  have "a \<notin> {c. (c, a) \<in> (edges h)\<^sup>+}" using assms(1) by (auto simp: wf_heap_def acyclic_def)
  then show "{c. (c, a) \<in> (edges h)\<^sup>+} \<subset> {c. (c, b) \<in> (edges h)\<^sup>+}"
    using assms(2) by (auto intro: trancl_into_trancl)
qed

lemma linked_edge:
  assumes "wf_heap h" and "a \<in> set (inputs_of h b)"
  shows "(a, b) \<in> edges h"
proof -
  have "0 < count_list (inputs_of h b) a" using assms(2) by (simp add: count_list_0_iff neq0_conv[symmetric])
  moreover have "count_list (inputs_of h b) a \<le> count_list (leads h a) b"
    using assms(1) by (simp add: wf_heap_def)
  ultimately have "count_list (leads h a) b \<noteq> 0" by linarith
  then show ?thesis by (simp add: edges_def count_list_0_iff)
qed

lemma wf_heap_ranked:
  assumes wf: "wf_heap h"
  shows "ranked h (rank_of h) (card (dom h))"
  unfolding ranked_def
proof (intro allI impI conjI ballI)
  fix a nd assume a: "h a = Some nd"
  show "rank_of h a \<le> card (dom h)"
    unfolding rank_of_def by (rule card_mono[OF _ ancestors_in_dom[OF wf]]) (use wf in \<open>simp add: wf_heap_def\<close>)
  fix b
  {
    assume "b \<in> set (leads_to_nodes nd)"
    with a have "(a, b) \<in> edges h" by (simp add: edges_def leads_def)
    then show "h b \<noteq> None" "rank_of h a < rank_of h b"
      using wf_heap_edge[OF wf] rank_of_edge[OF wf] by blast+
  next
    assume "b \<in> set (get_all_inputs nd)"
    with a have "(b, a) \<in> edges h" by (intro linked_edge[OF wf]) (simp add: inputs_of_def)
    then show "h b \<noteq> None" "rank_of h b < rank_of h a"
      using wf_heap_edge[OF wf] rank_of_edge[OF wf] by blast+
  }
qed

lemma wf_reset_enough:
  assumes "wf_heap h" and "set as \<subseteq> dom h" and "2 * card (dom h) + 2 \<le> n"
  shows "\<exists>h'. reset_all D n deep h as = Some h' \<and> same_topo h h'"
proof -
  have "\<exists>h'. reset_all D n deep h as = Some h'"
    by (rule reset_all_enough[OF wf_heap_ranked[OF assms(1)]]) (use assms(2,3) in auto)
  then show ?thesis using reset_all_topo by blast
qed

lemma wf_graph_topo:
  assumes "wf_graph g" and "same_topo (node_heap g) h"
  shows "wf_graph (g\<lparr>node_heap := h\<rparr>)"
proof -
  have "graph_ok (g\<lparr>node_heap := h\<rparr>)"
    using assms same_topo_nid[OF assms(2)] same_topo_dom[OF assms(2)] by (intro graph_ok_frame) (simp_all add: wf_graph_def)
  then show ?thesis
    using assms wf_heap_topo[OF assms(2)] same_topo_leads[OF assms(2)] same_topo_inputs[OF assms(2)]
    by (simp add: wf_graph_def nodes_def)
qed

lemma wf_graph_reach:
  assumes "wf_graph g" and "a \<in> set (nodes g)" and "(a, b) \<in> (edges (node_heap g))\<^sup>*"
  shows "b \<in> set (nodes g)"
  using assms(3,2,1) by (induction rule: rtrancl_induct) (auto simp: wf_graph_def edges_def)

lemma nodes_in_dom: "graph_ok g \<Longrightarrow> set (nodes g) \<subseteq> dom (node_heap g)"
  by (auto simp: graph_ok_def nodes_def dict_values_def)

lemma nid_inj: "graph_ok g \<Longrightarrow> inj_on (nid (node_heap g)) (set (nodes g))"
proof (rule inj_onI)
  fix a b assume ok: "graph_ok g" and ab: "a \<in> set (nodes g)" "b \<in> set (nodes g)"
    and eq: "nid (node_heap g) a = nid (node_heap g) b"
  have "get_node g (nid (node_heap g) a) = Some a" "get_node g (nid (node_heap g) a) = Some b"
    using get_node_iff[OF ok ab(1)] get_node_iff[OF ok ab(2)] eq by simp_all
  then show "a = b" by simp
qed

lemma wf_graph_cycle_check:
  assumes wf: "wf_graph g" and a: "a \<in> set (nodes g)" "b \<in> set (nodes g)" and n: "card (dom (node_heap g)) \<le> n"
  shows "would_create_cycle (node_heap g) n a b = Some ((b, a) \<in> (edges (node_heap g))\<^sup>*)"
proof -
  let ?h = "node_heap g"
  have gok: "graph_ok g" and fin: "finite (dom ?h)" using wf by (simp_all add: wf_graph_def wf_heap_def)
  have R: "{c. (edge ?h)\<^sup>*\<^sup>* b c} \<subseteq> set (nodes g)"
    using wf_graph_reach[OF wf a(2)] by (auto simp: edges_reach)
  have inj: "inj_on (nid ?h) {c. (edge ?h)\<^sup>*\<^sup>* b c}"
    using nid_inj[OF gok] R by (rule inj_on_subset)
  have Rd: "{c. (edge ?h)\<^sup>*\<^sup>* b c} \<subseteq> dom ?h" using R nodes_in_dom[OF gok] by blast
  then have finR: "finite {c. (edge ?h)\<^sup>*\<^sup>* b c}" using fin by (rule finite_subset)
  then have "card (reach_ids ?h b) \<le> card {c. (edge ?h)\<^sup>*\<^sup>* b c}"
    unfolding reach_ids_def by (rule card_image_le)
  also have "\<dots> \<le> card (dom ?h)" using Rd fin by (simp add: card_mono)
  finally have fuel: "card (reach_ids ?h b) \<le> n" using n by simp
  have "nid ?h a \<in> reach_ids ?h b \<longleftrightarrow> (edge ?h)\<^sup>*\<^sup>* b a"
    using nid_inj[OF gok] R a(1) unfolding reach_ids_def by (auto dest: inj_onD)
  with would_create_cycle_iff[OF inj _ fuel, of a] finR show ?thesis
    by (simp add: reach_ids_def edges_reach)
qed

text \<open>
  C39: The cycle check is sound and complete and always returns: connecting \<open>a\<close> to \<open>b\<close> is reported as a
  cycle exactly when \<open>a\<close> is reachable downstream of \<open>b\<close>, and no more nodes are taken from its stack than
  the graph has.
\<close>
theorem would_create_cycle_correct:
  assumes "wf_graph g" and "get_node g i = Some a" and "get_node g j = Some b" and "card (dom (node_heap g)) \<le> n"
  shows "would_create_cycle (node_heap g) n a b = Some ((b, a) \<in> (edges (node_heap g))\<^sup>*)"
proof -
  have "graph_ok g" using assms(1) by (simp add: wf_graph_def)
  with assms show ?thesis by (intro wf_graph_cycle_check) (auto simp: get_node_nodes)
qed

section \<open>Connections keep the graph well formed\<close>

lemma leads_upd: "leads (upd_node a f h) b
    = (if b = a then (case h a of None \<Rightarrow> [] | Some nd \<Rightarrow> leads_to_nodes (f nd)) else leads h b)"
  by (auto simp: leads_def upd_node_apply split: option.split)

lemma inputs_upd: "inputs_of (upd_node a f h) b
    = (if b = a then (case h a of None \<Rightarrow> [] | Some nd \<Rightarrow> get_all_inputs (f nd)) else inputs_of h b)"
  by (auto simp: inputs_of_def upd_node_apply split: option.split)

lemma nid_upd: "(\<And>nd. node_id (f nd) = node_id nd) \<Longrightarrow> nid (upd_node a f h) = nid h"
  by (auto simp: nid_def upd_node_apply fun_eq_iff split: option.split)

lemma dom_upd [simp]: "dom (upd_node a f h) = dom h"
  by (auto simp: upd_node_def split: if_splits)

lemma wf_heap_change:
  assumes wf: "wf_heap h" and dom: "dom h' = dom h"
    and leads: "\<And>x. set (leads h' x) \<subseteq> dom h" and inputs: "\<And>x. set (inputs_of h' x) \<subseteq> dom h"
    and ac: "acyclic (edges h')" and cnt: "\<And>a b. count_list (inputs_of h' b) a \<le> count_list (leads h' a) b"
  shows "wf_heap h'"
  using assms by (auto simp: wf_heap_def)

lemma insert_input_cases:
  obtains "insert_input x ty nd = nd\<lparr>main_inputs := Some [x]\<rparr>"
    | ms where "main_inputs nd = Some ms" "insert_input x ty nd = nd\<lparr>main_inputs := Some (ms @ [x])\<rparr>"
    | "insert_input x ty nd = nd\<lparr>right_input := Some x\<rparr>"
    | "insert_input x ty nd = nd\<lparr>left_input := Some x\<rparr>"
proof -
  consider "ty = ''main''" "main_inputs nd = None" | ms where "ty = ''main''" "main_inputs nd = Some ms"
    | "ty = ''right''" | "ty \<noteq> ''main''" "ty \<noteq> ''right''" by (cases "main_inputs nd") blast+
  then show ?thesis
  proof cases
    case 1
    then have "insert_input x ty nd = nd\<lparr>main_inputs := Some [x]\<rparr>" by (simp add: insert_input_def)
    then show ?thesis by (rule that(1))
  next
    case (2 ms)
    show ?thesis
    proof (cases "t_input (node_template nd) \<le> 2")
      case True
      with 2 have "insert_input x ty nd = nd\<lparr>main_inputs := Some [x]\<rparr>" by (simp add: insert_input_def)
      then show ?thesis by (rule that(1))
    next
      case False
      with 2 have "insert_input x ty nd = nd\<lparr>main_inputs := Some (ms @ [x])\<rparr>" by (simp add: insert_input_def)
      with 2(2) show ?thesis by (rule that(2))
    qed
  next
    case 3
    then have "insert_input x ty nd = nd\<lparr>right_input := Some x\<rparr>" by (simp add: insert_input_def)
    then show ?thesis by (rule that(3))
  next
    case 4
    then have "insert_input x ty nd = nd\<lparr>left_input := Some x\<rparr>" by (simp add: insert_input_def)
    then show ?thesis by (rule that(4))
  qed
qed

lemma insert_input_counts:
  "count_list (get_all_inputs (insert_input x ty nd)) a \<le> count_list (get_all_inputs nd) a + (if a = x then 1 else 0)"
proof (cases rule: insert_input_cases[of x ty nd])
  case 1
  show ?thesis unfolding 1 by (simp add: get_all_inputs_def)
next
  case (2 ms)
  show ?thesis unfolding 2(2) by (simp add: get_all_inputs_def 2(1))
next
  case 3
  show ?thesis unfolding 3 by (simp add: get_all_inputs_def)
next
  case 4
  show ?thesis unfolding 4 by (simp add: get_all_inputs_def)
qed

lemma insert_input_set: "set (get_all_inputs (insert_input x ty nd)) \<subseteq> insert x (set (get_all_inputs nd))"
proof
  fix a assume "a \<in> set (get_all_inputs (insert_input x ty nd))"
  then have "0 < count_list (get_all_inputs (insert_input x ty nd)) a"
    by (simp add: count_list_0_iff neq0_conv[symmetric])
  with insert_input_counts[of x ty nd a] have "a = x \<or> 0 < count_list (get_all_inputs nd) a"
    by (auto split: if_splits)
  then show "a \<in> insert x (set (get_all_inputs nd))"
    by (auto simp: count_list_0_iff neq0_conv[symmetric] simp del: neq0_conv)
qed

definition wired :: "addr \<Rightarrow> addr \<Rightarrow> string \<Rightarrow> int \<Rightarrow> string \<Rightarrow> heap \<Rightarrow> heap" where
  "wired self src ty i handle h =
     upd_node self (\<lambda>x. x\<lparr>input_output_handles := dict_set i handle (input_output_handles x)\<rparr>)
       (upd_node self (insert_input src ty) (upd_node src (\<lambda>x. x\<lparr>leads_to_nodes := leads_to_nodes x @ [self]\<rparr>) h))"

lemma insert_input_fields:
  "node_id (insert_input x ty nd) = node_id nd" "leads_to_nodes (insert_input x ty nd) = leads_to_nodes nd"
  by (simp_all add: insert_input_def split: option.split)

lemma wired_frame:
  "dom (wired self src ty i handle h) = dom h" "nid (wired self src ty i handle h) = nid h"
  by (simp_all add: wired_def nid_upd insert_input_fields)

lemma wired_leads:
  assumes "h src \<noteq> None"
  shows "leads (wired self src ty i handle h) x = leads h x @ (if x = src then [self] else [])"
  using assms by (auto simp: wired_def leads_def upd_node_apply insert_input_fields split: option.split)

lemma wired_inputs:
  assumes "h self = Some nd" and "self \<noteq> src"
  shows "inputs_of (wired self src ty i handle h) x
    = (if x = self then get_all_inputs (insert_input src ty nd) else inputs_of h x)"
  using assms by (auto simp: wired_def inputs_of_def upd_node_apply get_all_inputs_def split: option.split)

lemma wired_edges: "h src \<noteq> None \<Longrightarrow> edges (wired self src ty i handle h) = insert (src, self) (edges h)"
  by (auto simp: edges_def wired_leads split: if_splits)

lemma wf_wired:
  assumes wf: "wf_heap h" and a: "h self = Some nd" "h src \<noteq> None" and no: "(self, src) \<notin> (edges h)\<^sup>*"
  shows "wf_heap (wired self src ty i handle h)"
proof (rule wf_heap_change[OF wf])
  have ne: "self \<noteq> src" using no by blast
  note L = wired_leads[where h = h and src = src, OF a(2)] and I = wired_inputs[where h = h and self = self, OF a(1) ne]
  have h: "set (leads h x) \<subseteq> dom h" "set (inputs_of h x) \<subseteq> dom h" for x
    using wf by (auto simp: wf_heap_def)
  have nd: "get_all_inputs nd = inputs_of h self" using a(1) by (simp add: inputs_of_def)
  show "set (leads (wired self src ty i handle h) x) \<subseteq> dom h" for x
    unfolding L using h(1)[of x] a(1) by auto
  show "set (inputs_of (wired self src ty i handle h) x) \<subseteq> dom h" for x
    unfolding I using h(2)[of x] insert_input_set[of src ty nd] a(2) nd h(2)[of self] by auto
  show "acyclic (edges (wired self src ty i handle h))"
    unfolding wired_edges[where h = h and src = src, OF a(2)] using wf no by (simp add: wf_heap_def acyclic_insert)
  show "count_list (inputs_of (wired self src ty i handle h) b) c \<le> count_list (leads (wired self src ty i handle h) c) b"
    for b c
  proof -
    have old: "count_list (inputs_of h b) c \<le> count_list (leads h c) b" using wf by (simp add: wf_heap_def)
    show ?thesis
    proof (cases "b = self")
      case True
      have "count_list (inputs_of (wired self src ty i handle h) b) c \<le> count_list (inputs_of h b) c + (if c = src then 1 else 0)"
        unfolding I using insert_input_counts[of src ty nd c] True nd by simp
      with old True show ?thesis unfolding L by auto
    next
      case False
      with old show ?thesis unfolding L I by simp
    qed
  qed
qed (simp add: wired_frame)

lemma topo_set_depending: "same_topo h (upd_node self (set_depending i ty) h)"
  by (rule same_topo_upd) (simp_all add: set_depending_def topo_def split: option.split)

lemma add_node_connection_wired:
  assumes "h self = Some nd" and "h src = Some fnd" and "ty \<in> {''main'', ''right'', ''left''}"
  shows "add_node_connection D n self src ty handle h =
    (let h3 = wired self src ty (node_id fnd) handle h
     in if setting_input nd = None then Some (h3, Some AttributeError)
        else map_option (\<lambda>h4. (h4, None))
               (reset_all D n False (upd_node self (set_depending (node_id fnd) ty) h3) [self, src]))"
  using assms by (auto simp: add_node_connection_def wired_def Let_def split: option.split)

lemma wf_graph_wired:
  assumes wf: "wf_graph g" and ab: "src \<in> set (nodes g)" "self \<in> set (nodes g)"
    and no: "(self, src) \<notin> (edges (node_heap g))\<^sup>*"
  shows "wf_graph (g\<lparr>node_heap := wired self src ty i handle (node_heap g)\<rparr>)"
proof -
  let ?h = "node_heap g"
  have gok: "graph_ok g" using wf by (simp add: wf_graph_def)
  obtain nd where nd: "?h self = Some nd" and fr: "?h src \<noteq> None"
    using nodes_in_dom[OF gok] ab by blast
  have ne: "self \<noteq> src" using no by blast
  have "wf_heap (wired self src ty i handle ?h)"
    using wf by (intro wf_wired[OF _ nd fr no]) (simp add: wf_graph_def)
  moreover have "graph_ok (g\<lparr>node_heap := wired self src ty i handle ?h\<rparr>)"
    using gok by (intro graph_ok_frame) (simp_all add: wired_frame)
  moreover have "set (leads (wired self src ty i handle ?h) x) \<union> set (inputs_of (wired self src ty i handle ?h) x)
      \<subseteq> set (nodes g)" if "x \<in> set (nodes g)" for x
  proof -
    have "set (leads ?h x) \<union> set (inputs_of ?h x) \<subseteq> set (nodes g)"
      using wf that by (simp add: wf_graph_def)
    moreover have "get_all_inputs nd = inputs_of ?h self" using nd by (simp add: inputs_of_def)
    then have "set (get_all_inputs (insert_input src ty nd)) \<subseteq> insert src (set (inputs_of ?h self))"
      using insert_input_set[of src ty nd] by simp
    ultimately show ?thesis
      unfolding wired_leads[where h = ?h and src = src, OF fr] wired_inputs[where h = ?h and self = self, OF nd ne] using ab by auto
  qed
  ultimately show ?thesis by (simp add: wf_graph_def nodes_def)
qed

text \<open>
  What \<open>add_connection\<close> has to refuse, stated on the edges and not by the search that the code makes: an unknown
  node, a target that is a source, an edge that closes a cycle, and an unknown kind of input.
\<close>

definition connection_refusal :: "flow_graph \<Rightarrow> node_connection \<Rightarrow> py_error option" where
  "connection_refusal g c =
     (case (get_node g (nc_from c), get_node g (nc_to c)) of
        (Some a, Some b) \<Rightarrow>
          if (case node_heap g b of None \<Rightarrow> False | Some nd \<Rightarrow> node_is_source nd)
          then Some (HTTPException 422 ''target is a source'')
          else if (b, a) \<in> (edges (node_heap g))\<^sup>* then Some (HTTPException 422 ''would create a cycle'')
          else (case get_node_input_connection_type (nc_input_class c) of Inl e \<Rightarrow> Some e | Inr ty \<Rightarrow> None)
      | _ \<Rightarrow> Some (HTTPException 404 ''Node(s) not found''))"

definition connection_made :: "flow_graph \<Rightarrow> node_connection \<Rightarrow> flow_graph \<Rightarrow> py_error option \<Rightarrow> bool" where
  "connection_made g c g' e \<longleftrightarrow>
     (\<exists>a b nd. get_node g (nc_from c) = Some a \<and> get_node g (nc_to c) = Some b \<and> node_heap g b = Some nd
        \<and> g' = g\<lparr>node_heap := node_heap g'\<rparr> \<and> edges (node_heap g') = insert (a, b) (edges (node_heap g))
        \<and> e = (if setting_input nd = None then Some AttributeError else None))"

lemma accepted_connection:
  assumes wf: "wf_graph g" and n: "2 * card (dom (node_heap g)) + 2 \<le> n"
    and ab: "get_node g (nc_from c) = Some a" "get_node g (nc_to c) = Some b" and mem: "a \<in> set (nodes g)" "b \<in> set (nodes g)"
    and ok: "\<not> ((case node_heap g b of None \<Rightarrow> False | Some nd \<Rightarrow> node_is_source nd) \<or> (b, a) \<in> (edges (node_heap g))\<^sup>*)"
    and val: "validate_connection (node_heap g) n a b = Some None"
    and Inr: "get_node_input_connection_type (nc_input_class c) = Inr ty"
  shows "\<exists>g' e. add_connection D n c g = Some (g', e) \<and> wf_graph g' \<and> connection_made g c g' e"
proof -
  let ?h = "node_heap g"
  have gok: "graph_ok g" using wf by (simp add: wf_graph_def)
  have ty: "ty \<in> {''main'', ''right'', ''left''}"
    using Inr by (auto simp: get_node_input_connection_type_def split: if_splits)
  obtain nd fnd where nd: "?h b = Some nd" and fnd: "?h a = Some fnd"
    using mem nodes_in_dom[OF gok] by blast
  have made: "\<exists>g' e. add_connection D n c g = Some (g', e) \<and> wf_graph g' \<and> connection_made g c g' e"
    if "add_connection D n c g = Some (g\<lparr>node_heap := h\<rparr>, if setting_input nd = None then Some AttributeError else None)"
      "wf_graph (g\<lparr>node_heap := h\<rparr>)" "edges h = insert (a, b) (edges ?h)" for h
    using that nd ab unfolding connection_made_def by fastforce
  let ?w = "wired b a ty (node_id fnd) (nc_output_class c) ?h"
  have wfw: "wf_graph (g\<lparr>node_heap := ?w\<rparr>)" using wf_graph_wired[OF wf mem] ok by blast
  have ed: "edges ?w = insert (a, b) (edges ?h)" using fnd by (intro wired_edges) simp
  have add: "add_connection D n c g
      = map_option (\<lambda>(h, e). (g\<lparr>node_heap := h\<rparr>, e)) (add_node_connection D n b a ty (nc_output_class c) ?h)"
    using ab val Inr by (simp add: add_connection_def)
  show ?thesis
  proof (cases "setting_input nd = None")
    case True
    then have "add_connection D n c g = Some (g\<lparr>node_heap := ?w\<rparr>, Some AttributeError)"
      unfolding add add_node_connection_wired[OF nd fnd ty] by (simp add: Let_def)
    with wfw ed True show ?thesis by (intro made) simp_all
  next
    case False
    let ?d = "upd_node b (set_depending (node_id fnd) ty) ?w"
    have td: "same_topo ?w ?d" by (rule topo_set_depending)
    have wfd: "wf_graph (g\<lparr>node_heap := ?d\<rparr>)"
      using wf_graph_topo[OF wfw, of ?d] td by simp
    have "dom ?d = dom ?h" using same_topo_dom[OF td] by (simp add: wired_frame)
    then obtain h4 where h4: "reset_all D n False ?d [b, a] = Some h4" "same_topo ?d h4"
      using wf_reset_enough[of ?d "[b, a]" n D False] wfd n nd fnd by (auto simp: wf_graph_def)
    from False have "add_connection D n c g = Some (g\<lparr>node_heap := h4\<rparr>, None)"
      unfolding add add_node_connection_wired[OF nd fnd ty] by (simp add: Let_def h4(1))
    moreover have "wf_graph (g\<lparr>node_heap := h4\<rparr>)" using wf_graph_topo[OF wfd, of h4] h4(2) by simp
    moreover have "edges h4 = insert (a, b) (edges ?h)"
      using same_topo_leads[OF same_topo_trans[OF td h4(2)]] ed by (simp add: edges_def)
    ultimately show ?thesis using False by (intro made) simp_all
  qed
qed

text \<open>
  C2: \<open>add_connection\<close> always returns and keeps the graph well formed and free of cycles, whatever connection is
  requested. It refuses exactly what it has to (\<open>connection_refusal\<close>), with that error, and then leaves the graph as
  it was. Everything else is accepted: exactly the requested edge is added and nothing but the nodes changes, without an
  error unless the target has no settings, where an \<open>AttributeError\<close> comes after the edge was added. Fuel of twice
  the number of nodes plus two is enough for the resets it triggers.
\<close>
theorem add_connection_keeps_graph:
  assumes wf: "wf_graph g" and n: "2 * card (dom (node_heap g)) + 2 \<le> n"
  shows "\<exists>g' e. add_connection D n c g = Some (g', e) \<and> wf_graph g'
    \<and> (case connection_refusal g c of Some err \<Rightarrow> g' = g \<and> e = Some err | None \<Rightarrow> connection_made g c g' e)"
proof -
  let ?h = "node_heap g"
  have gok: "graph_ok g" using wf by (simp add: wf_graph_def)
  have triv: ?thesis if "add_connection D n c g = Some (g, Some err)" "connection_refusal g c = Some err" for err
    using that wf by simp
  show ?thesis
  proof (cases "get_node g (nc_from c) = None \<or> get_node g (nc_to c) = None")
    case True
    then show ?thesis
      by (intro triv[of "HTTPException 404 ''Node(s) not found''"])
        (auto simp: add_connection_def connection_refusal_def split: option.splits)
  next
    case False
    then obtain a b where ab: "get_node g (nc_from c) = Some a" "get_node g (nc_to c) = Some b" by auto
    then have mem: "a \<in> set (nodes g)" "b \<in> set (nodes g)" using get_node_nodes[OF gok] by blast+
    have fuel: "card (dom ?h) \<le> n" using n by simp
    note cyc = wf_graph_cycle_check[OF wf mem fuel]
    let ?source = "case ?h b of None \<Rightarrow> False | Some nd \<Rightarrow> node_is_source nd"
    show ?thesis
    proof (cases "?source \<or> (b, a) \<in> (edges ?h)\<^sup>*")
      case True
      let ?m = "if ?source then ''target is a source'' else ''would create a cycle''"
      have val: "validate_connection ?h n a b = Some (Some (if ?source then TargetIsSource else WouldCreateCycle))"
        using True cyc by (cases "?source") (simp_all add: validate_connection_def)
      show ?thesis
        by (intro triv[of "HTTPException 422 ?m"]; cases "?source")
          (use True ab val in \<open>simp_all add: add_connection_def connection_refusal_def\<close>)
    next
      case ok: False
      then have val: "validate_connection ?h n a b = Some None"
        by (simp add: validate_connection_def cyc)
      show ?thesis
      proof (cases "get_node_input_connection_type (nc_input_class c)")
        case (Inl e)
        with ab val ok show ?thesis
          by (intro triv[of e]) (simp_all add: add_connection_def connection_refusal_def)
      next
        case (Inr ty)
        have none: "connection_refusal g c = None" using ab ok Inr by (simp add: connection_refusal_def)
        from accepted_connection[OF wf n ab mem ok val Inr, of D] none show ?thesis by auto
      qed
    qed
  qed
qed

lemma count_pop_le: "count_list (pop_while_enumerating p xs) x \<le> count_list xs x"
proof (induction p xs rule: pop_while_enumerating.induct)
  case (2 p y ys)
  show ?case
  proof (cases "p y")
    case True
    with 2(1) show ?thesis by (cases ys) auto
  next
    case False
    with 2(2) show ?thesis by auto
  qed
qed simp

lemma count_pop_less:
  assumes "x \<in> set xs" and "\<And>y. y \<in> set xs \<Longrightarrow> p y = (y = x)"
  shows "count_list (pop_while_enumerating p xs) x < count_list xs x"
  using assms
proof (induction xs)
  case (Cons y ys)
  show ?case
  proof (cases "y = x")
    case True
    have py: "p y" using Cons.prems(2)[of y] True by simp
    show ?thesis
    proof (cases ys)
      case Nil
      with py True show ?thesis by simp
    next
      case (Cons z zs)
      with py True count_pop_le[of p zs x] show ?thesis by (auto split: if_splits)
    qed
  next
    case False
    with Cons.prems(2)[of y] have "\<not> p y" by simp
    with False Cons show ?thesis by simp
  qed
qed simp

lemma set_pop: "set (pop_while_enumerating p xs) \<subseteq> set xs"
  by (induction p xs rule: pop_while_enumerating.induct) (auto split: if_splits list.splits)

lemma count_remove_first:
  assumes "b \<in> set xs" and "\<And>y. y \<in> set xs \<Longrightarrow> p y = (y = b)"
  shows "count_list xs y = count_list (remove_first p xs) y + (if y = b then 1 else 0)"
  using assms by (induction xs) auto

lemma set_remove_first: "set (remove_first p xs) \<subseteq> set xs"
  by (induction xs) auto

text \<open>Removing one occurrence of the edge and at least one of the input keeps the heap well formed.\<close>

lemma wf_heap_unwired:
  assumes wf: "wf_heap h" and dom: "dom h' = dom h"
    and leads: "\<And>x y. count_list (leads h x) y \<le> count_list (leads h' x) y + (if x = a \<and> y = b then 1 else 0)"
    and sub: "\<And>x. set (leads h' x) \<subseteq> set (leads h x)" "\<And>x. set (inputs_of h' x) \<subseteq> set (inputs_of h x)"
    and inputs: "\<And>x y. count_list (inputs_of h' x) y \<le> count_list (inputs_of h x) y"
    and less: "count_list (inputs_of h' b) a < count_list (inputs_of h b) a"
  shows "wf_heap h'"
proof (rule wf_heap_change[OF wf dom])
  have h: "set (leads h x) \<subseteq> dom h" "set (inputs_of h x) \<subseteq> dom h" for x
    using wf by (auto simp: wf_heap_def)
  show "set (leads h' x) \<subseteq> dom h" "set (inputs_of h' x) \<subseteq> dom h" for x
    using sub[of x] h[of x] by blast+
  have "edges h' \<subseteq> edges h" using sub(1) by (auto simp: edges_def)
  then show "acyclic (edges h')" using wf by (auto simp: wf_heap_def intro: acyclic_subset)
  show "count_list (inputs_of h' y) x \<le> count_list (leads h' x) y" for x y
  proof -
    have "count_list (inputs_of h y) x \<le> count_list (leads h x) y" using wf by (simp add: wf_heap_def)
    with leads[of x y] inputs[of y x] less show ?thesis by (cases "x = a \<and> y = b") auto
  qed
qed

lemma inputs_fields:
  "get_all_inputs (nd\<lparr>main_inputs := m\<rparr>)
     = (case m of None \<Rightarrow> [] | Some xs \<Rightarrow> xs) @ (case left_input nd of None \<Rightarrow> [] | Some x \<Rightarrow> [x])
       @ (case right_input nd of None \<Rightarrow> [] | Some x \<Rightarrow> [x])"
  "get_all_inputs (nd\<lparr>right_input := r\<rparr>)
     = (case main_inputs nd of None \<Rightarrow> [] | Some xs \<Rightarrow> xs) @ (case left_input nd of None \<Rightarrow> [] | Some x \<Rightarrow> [x])
       @ (case r of None \<Rightarrow> [] | Some x \<Rightarrow> [x])"
  "get_all_inputs (nd\<lparr>input_output_handles := ho\<rparr>) = get_all_inputs nd"
  by (simp_all add: get_all_inputs_def)

text \<open>What \<open>delete_input_node\<close> does to a main or right input that is connected.\<close>

lemma delete_input_fields_drops:
  assumes valid: "validate_if_input_connection_exists h nd i ty = Inr True"
    and ty: "(cls, ty) \<in> {(''input-0'', ''main''), (''input-1'', ''right'')}"
    and ids: "\<And>x. x \<in> set (get_all_inputs nd) \<Longrightarrow> id_at h x = Some i \<longleftrightarrow> x = a"
    and same: "\<And>x. id_at h1 x = id_at h x"
  obtains nd1 where "delete_input_fields h1 i cls False nd = Inr (nd1, True)"
    and "node_id nd1 = node_id nd" and "leads_to_nodes nd1 = leads_to_nodes nd"
    and "\<And>x. count_list (get_all_inputs nd1) x \<le> count_list (get_all_inputs nd) x"
    and "count_list (get_all_inputs nd1) a < count_list (get_all_inputs nd) a"
    and "set (get_all_inputs nd1) \<subseteq> set (get_all_inputs nd)"
proof (cases "ty = ''main''")
  case True
  with ty have cls: "cls = ''input-0''" by auto
  from valid True obtain ms c where ms: "main_inputs nd = Some ms" "c \<in> set ms" "id_at h c = Some i"
    by (auto simp: validate_if_input_connection_exists_def split: if_splits option.splits)
  have sub: "set ms \<subseteq> set (get_all_inputs nd)" using ms by (simp add: get_all_inputs_def)
  let ?p = "\<lambda>x. id_at h1 x = Some i"
  have p: "?p y = (y = a)" if "y \<in> set ms" for y using ids[of y] that sub same by auto
  have a: "a \<in> set ms" using ms p same by auto
  let ?nd1 = "nd\<lparr>main_inputs := Some (pop_while_enumerating ?p ms)\<rparr>"
  show ?thesis
  proof (rule that)
    show "delete_input_fields h1 i cls False nd = Inr (?nd1, True)"
      using ms same by (auto simp: delete_input_fields_def cls)
    show "count_list (get_all_inputs ?nd1) x \<le> count_list (get_all_inputs nd) x" for x
      using count_pop_le[of ?p ms x] by (simp add: inputs_fields) (simp add: get_all_inputs_def ms)
    show "count_list (get_all_inputs ?nd1) a < count_list (get_all_inputs nd) a"
      using count_pop_less[OF a, of ?p] p by (simp add: inputs_fields) (simp add: get_all_inputs_def ms)
    show "set (get_all_inputs ?nd1) \<subseteq> set (get_all_inputs nd)"
      using set_pop[of ?p ms] by (simp add: inputs_fields) (auto simp: get_all_inputs_def ms)
  qed simp_all
next
  case False
  with ty have cls: "cls = ''input-1''" "ty = ''right''" by auto
  from valid cls obtain c where c: "right_input nd = Some c" "id_at h c = Some i"
    by (auto simp: validate_if_input_connection_exists_def split: option.splits)
  have ca: "c = a" using ids[of c] c by (simp add: get_all_inputs_def)
  let ?nd1 = "nd\<lparr>right_input := None\<rparr>"
  show ?thesis
  proof (rule that)
    show "delete_input_fields h1 i cls False nd = Inr (?nd1, True)"
      using c same by (simp add: delete_input_fields_def cls)
    show "count_list (get_all_inputs ?nd1) x \<le> count_list (get_all_inputs nd) x" for x
      by (simp add: inputs_fields) (simp add: get_all_inputs_def c)
    show "count_list (get_all_inputs ?nd1) a < count_list (get_all_inputs nd) a"
      by (simp add: inputs_fields) (simp add: get_all_inputs_def c ca)
    show "set (get_all_inputs ?nd1) \<subseteq> set (get_all_inputs nd)"
      by (simp add: inputs_fields) (auto simp: get_all_inputs_def)
  qed simp_all
qed

text \<open>
  Deleting a main or right connection keeps the graph well formed, for every request: it returns
  without an exception other than the 422 of a connection that does not exist, in which case the graph is
  unchanged, and otherwise one downstream edge and the input it backs are removed together.
\<close>
theorem delete_connection_keeps_graph:
  assumes wf: "wf_graph g" and n: "2 * card (dom (node_heap g)) + 2 \<le> n"
    and cls: "nc_input_class c = ''input-0'' \<or> nc_input_class c = ''input-1'' \<and>
      (\<forall>b nd. get_node g (nc_to c) = Some b \<longrightarrow> node_heap g b = Some nd \<longrightarrow> right_input nd \<noteq> None)"
  shows "\<exists>g' e. delete_connection D n c g = Some (g', e) \<and> wf_graph g'
    \<and> (if e = None then edges (node_heap g') \<subseteq> edges (node_heap g)
       else g' = g \<and> e = Some (HTTPException 422 ''Connection does not exist on the input node''))"
proof -
  let ?h = "node_heap g"
  let ?err = "Some (HTTPException 422 ''Connection does not exist on the input node'')"
  have gok: "graph_ok g" using wf by (simp add: wf_graph_def)
  have triv: ?thesis if "delete_connection D n c g = Some (g, ?err)"
    using that wf by simp
  show ?thesis
  proof (cases "get_node g (nc_from c) = None \<or> get_node g (nc_to c) = None")
    case True
    then have "delete_connection D n c g = Some (g, ?err)"
      by (auto simp: delete_connection_def split: option.splits)
    then show ?thesis by (rule triv)
  next
    case False
    then obtain a b where ab: "get_node g (nc_from c) = Some a" "get_node g (nc_to c) = Some b" by auto
    then have mem: "a \<in> set (nodes g)" "b \<in> set (nodes g)" using get_node_nodes[OF gok] by blast+
    obtain nd fnd where nd: "?h b = Some nd" and fnd: "?h a = Some fnd" using mem nodes_in_dom[OF gok] by blast
    have ia: "nid ?h a = nc_from c" and jb: "nid ?h b = nc_to c" using graph_okD(1)[OF gok] ab by blast+
    obtain ty where ty: "get_node_input_connection_type (nc_input_class c) = Inr ty"
      "(nc_input_class c, ty) \<in> {(''input-0'', ''main''), (''input-1'', ''right'')}"
      using cls by (auto simp: get_node_input_connection_type_def)
    have idat: "id_at ?h x = Some k \<longleftrightarrow> x \<in> dom ?h \<and> nid ?h x = k" for x k
      by (auto simp: id_at_def nid_def)
    let ?valid = "validate_if_input_connection_exists ?h nd (nid ?h a) ty"
    have noerr: "?valid \<noteq> Inl e" for e
      using cls ty nd ab(2) by (auto simp: validate_if_input_connection_exists_def split: option.splits)
    show ?thesis
    proof (cases "?valid = Inr True")
      case False
      with noerr have "?valid = Inr False" by (cases ?valid) auto
      with ab ty nd have "delete_connection D n c g = Some (g, ?err)" by (simp add: delete_connection_def)
      then show ?thesis by (rule triv)
    next
      case True
      have inp: "inputs_of ?h b = get_all_inputs nd" using nd by (simp add: inputs_of_def)
      have ids: "id_at ?h x = Some (nid ?h a) \<longleftrightarrow> x = a" if "x \<in> set (get_all_inputs nd)" for x
      proof -
        have "x \<in> set (nodes g)" using wf mem(2) that unfolding wf_graph_def inp[symmetric] by blast
        with inj_onD[OF nid_inj[OF gok]] mem nodes_in_dom[OF gok] show ?thesis unfolding idat by blast
      qed
      let ?q = "\<lambda>x. id_at ?h x = Some (nc_to c)"
      have q: "?q y = (y = b)" if "y \<in> set (leads ?h a)" for y
      proof -
        have "y \<in> set (nodes g)" using wf mem(1) that unfolding wf_graph_def by blast
        with inj_onD[OF nid_inj[OF gok]] mem nodes_in_dom[OF gok] show ?thesis unfolding idat jb[symmetric] by blast
      qed
      let ?h1 = "upd_node a (\<lambda>x. x\<lparr>leads_to_nodes := remove_first ?q (leads_to_nodes x)\<rparr>) ?h"
      have same: "id_at ?h1 x = id_at ?h x" for x by (simp add: id_at_def upd_node_apply option.map_comp o_def)
      obtain nd1 where nd1: "delete_input_fields ?h1 (nid ?h a) (nc_input_class c) False nd = Inr (nd1, True)"
        "node_id nd1 = node_id nd" "leads_to_nodes nd1 = leads_to_nodes nd"
        "\<And>x. count_list (get_all_inputs nd1) x \<le> count_list (get_all_inputs nd) x"
        "count_list (get_all_inputs nd1) a < count_list (get_all_inputs nd) a"
        "set (get_all_inputs nd1) \<subseteq> set (get_all_inputs nd)"
        using delete_input_fields_drops[OF True ty(2) ids same] by blast
      have "a \<in> set (inputs_of ?h b)"
      proof (rule ccontr)
        assume "a \<notin> set (inputs_of ?h b)"
        then have "count_list (get_all_inputs nd) a = 0" by (simp add: inp count_list_0_iff)
        with nd1(5) show False by simp
      qed
      then have e: "(a, b) \<in> edges ?h" using wf by (intro linked_edge) (simp_all add: wf_graph_def)
      then have bl: "b \<in> set (leads ?h a)" by (simp add: edges_def)
      have ne: "a \<noteq> b" using e wf by (auto simp: wf_graph_def wf_heap_def acyclic_def)
      have lead: "fst (delete_lead_to_node a (nc_to c) ?h) = ?h1"
      proof -
        have "\<exists>x \<in> set (leads_to_nodes fnd). ?q x" using q[OF bl] bl fnd by (auto simp: leads_def)
        with fnd show ?thesis by (simp add: delete_lead_to_node_def)
      qed
      let ?h2 = "?h1(b \<mapsto> nd1\<lparr>input_output_handles := dict_pop (nc_from c) (input_output_handles nd1)\<rparr>)"
      have h1b: "?h1 b = Some nd" using nd ne by (simp add: upd_node_apply)
      have L: "leads ?h2 x = (if x = a then remove_first ?q (leads ?h a) else leads ?h x)" for x
        using nd1(3) nd fnd ne by (auto simp: leads_def upd_node_apply)
      have I: "inputs_of ?h2 x = (if x = b then get_all_inputs nd1 else inputs_of ?h x)" for x
        using nd fnd ne by (auto simp: inputs_of_def upd_node_apply inputs_fields get_all_inputs_def split: option.split)
      have D: "dom ?h2 = dom ?h" using nd by auto
      have N: "nid ?h2 = nid ?h"
        using nd fnd nd1(2) by (auto simp: nid_def upd_node_apply fun_eq_iff split: option.split)
      have wf2: "wf_heap ?h2"
      proof (rule wf_heap_unwired[of ?h ?h2 a b])
        show "count_list (leads ?h x) y \<le> count_list (leads ?h2 x) y + (if x = a \<and> y = b then 1 else 0)" for x y
          unfolding L using count_remove_first[of b "leads ?h a" ?q y] bl q by auto
        show "set (leads ?h2 x) \<subseteq> set (leads ?h x)" for x
          unfolding L using set_remove_first[of ?q "leads ?h a"] by auto
        show "set (inputs_of ?h2 x) \<subseteq> set (inputs_of ?h x)" for x
          unfolding I using nd1(6) inp by auto
        show "count_list (inputs_of ?h2 x) y \<le> count_list (inputs_of ?h x) y" for x y
          unfolding I using nd1(4) inp by auto
        show "count_list (inputs_of ?h2 b) a < count_list (inputs_of ?h b) a"
          unfolding I using nd1(5) inp by auto
      qed (use wf D in \<open>simp_all add: wf_graph_def\<close>)
      have wg2: "wf_graph (g\<lparr>node_heap := ?h2\<rparr>)"
      proof -
        have "set (leads ?h2 x) \<union> set (inputs_of ?h2 x) \<subseteq> set (leads ?h x) \<union> set (inputs_of ?h x)" for x
          unfolding L I using set_remove_first[of ?q "leads ?h a"] nd1(6) inp by auto
        then have "set (leads ?h2 x) \<union> set (inputs_of ?h2 x) \<subseteq> set (nodes g)" if "x \<in> set (nodes g)" for x
          using wf that unfolding wf_graph_def by blast
        moreover have "graph_ok (g\<lparr>node_heap := ?h2\<rparr>)" using graph_ok_frame[OF gok N D] .
        ultimately show ?thesis using wf2 by (simp add: wf_graph_def nodes_def)
      qed
      obtain h3 where h3: "reset_all D n False ?h2 [b] = Some h3" "same_topo ?h2 h3"
        using wf_reset_enough[OF wf2, of "[b]" n D False] n nd unfolding D by auto
      have "delete_input_node D n b (nc_from c) (nc_input_class c) False ?h1 = Some (h3, Inr True)"
        using nd1(1) h1b h3(1) ia by (simp add: delete_input_node_def reset_def)
      with ab ty nd True have "delete_connection D n c g = Some (g\<lparr>node_heap := h3\<rparr>, None)"
        by (simp add: delete_connection_def Let_def lead)
      moreover have "wf_graph (g\<lparr>node_heap := h3\<rparr>)" using wf_graph_topo[OF wg2, of h3] h3(2) by simp
      moreover have "edges h3 \<subseteq> edges ?h"
        unfolding edges_def same_topo_leads[OF h3(2)] L using set_remove_first[of ?q "leads ?h a"]
        by (auto split: if_splits)
      ultimately show ?thesis by (intro exI[of _ "g\<lparr>node_heap := h3\<rparr>"] exI[of _ None]) simp
    qed
  qed
qed

section \<open>Concrete edits\<close>

definition join_template :: node_template where
  "join_template = \<lparr>t_name = ''Join'', t_input = 2, t_multi = False, t_can_be_start = False,
     t_node_group = ''combine'', t_laziness = ''lazy''\<rparr>"

text \<open>Two sources 1 and 2, a join 3 fed by both, and a third source 4.\<close>

definition join_node :: "addr list option \<Rightarrow> addr option \<Rightarrow> addr option \<Rightarrow> flow_node" where
  "join_node ms l r =
     (new_node 3 ''join'' ''flow'' join_template)\<lparr>main_inputs := ms, left_input := l, right_input := r,
        setting_input := Some (plain_setting 3)\<rparr>"

definition join_graph :: "flow_node \<Rightarrow> flow_graph" where
  "join_graph j = (empty_graph ''flow'')\<lparr>
     node_db := [(1, 1), (2, 2), (3, 3), (4, 4)], node_ids := [1, 2, 3, 4], flow_starts := [1, 2, 4],
     node_heap := map_of [(1, set_up_node 1 [] [3]), (2, set_up_node 2 [] [3]), (3, j), (4, set_up_node 4 [] [])]\<rparr>"

definition plain_join :: flow_graph where
  "plain_join = join_graph (join_node (Some [1]) None (Some 2))"

definition const_digest :: "pyval \<Rightarrow> string" where
  "const_digest v = ''digest''"

lemma dom_join_heap: "dom (node_heap (join_graph j)) = {1, 2, 3, 4}"
  by (auto simp: join_graph_def)

lemma dom_plain_join: "dom (node_heap plain_join) = {1, 2, 3, 4}"
  unfolding plain_join_def by (rule dom_join_heap)

lemma wf_graph_join: "wf_graph plain_join"
proof -
  have gok: "graph_ok plain_join"
    by (simp add: graph_ok_def plain_join_def join_graph_def empty_graph_def dict_ok_def nid_def set_up_node_def chain_node_def
        new_node_def join_node_def)
  have L: "leads (node_heap plain_join) a = (if a = 1 \<or> a = 2 then [3] else [])" for a
    by (simp add: leads_def plain_join_def join_graph_def set_up_node_def chain_node_def new_node_def join_node_def)
  have I: "inputs_of (node_heap plain_join) a = (if a = 3 then [1, 2] else [])" for a
    by (simp add: inputs_of_def get_all_inputs_def plain_join_def join_graph_def set_up_node_def chain_node_def new_node_def join_node_def)
  have E: "edges (node_heap plain_join) = {(1, 3), (2, 3)}" unfolding edges_def L by auto
  have ac: "acyclic (edges (node_heap plain_join))"
    by (rule acyclic_subset[of "measure id"]) (simp_all add: E wf_acyclic)
  have N: "nodes plain_join = [1, 2, 3, 4]" by (simp add: nodes_def plain_join_def join_graph_def dict_values_def)
  show ?thesis
    unfolding wf_graph_def wf_heap_def dom_plain_join using gok ac by (simp add: L I N) blast
qed

lemma would_create_cycle_correct_witness:
  "would_create_cycle (node_heap plain_join) 4 3 1 = Some True
   \<and> (1, 3) \<in> (edges (node_heap plain_join))\<^sup>*"
proof -
  have "would_create_cycle (node_heap plain_join) 4 3 1 = Some True" by code_simp
  moreover have "get_node plain_join 3 = Some 3" "get_node plain_join 1 = Some 1" by code_simp+
  ultimately show ?thesis
    using would_create_cycle_correct[OF wf_graph_join, of 3 3 1 1 4] by (simp add: dom_plain_join)
qed

lemma add_connection_keeps_graph_witness:
  "\<exists>g' e. add_connection const_digest 10 (create_from_simple_input 4 3 ''right'' ''output-0'') plain_join = Some (g', e)
     \<and> wf_graph g'"
  using add_connection_keeps_graph[OF wf_graph_join, of 10 const_digest] by (simp add: dom_plain_join) blast

lemma delete_connection_keeps_graph_witness:
  "\<exists>g' e. delete_connection const_digest 10 (create_from_simple_input 1 3 ''main'' ''output-0'') plain_join = Some (g', e)
     \<and> wf_graph g'"
  using delete_connection_keeps_graph[OF wf_graph_join, of 10 "create_from_simple_input 1 3 ''main'' ''output-0''" const_digest]
  by (simp add: dom_plain_join create_from_simple_input_def) blast

text \<open>
  Deleting a left connection does not delete it: the branch for the left input of
  \<open>delete_input_node\<close> compares the id of the \<open>right\<close> input, so the source forgets the edge, no exception is
  raised, and the node keeps the input.
\<close>
theorem left_connection_survives_deletion:
  "map_option (\<lambda>(g, e). (leads (node_heap g) 1, Option.bind (node_heap g 3) left_input, e))
     (delete_connection const_digest 10 (create_from_simple_input 1 3 ''left'' ''output-0'')
        (join_graph (join_node (Some []) (Some 1) (Some 2))))
   = Some ([], Some 1, None)"
  by code_simp

text \<open>
  Deleting a node cleans the main inputs of its successors only (the call passes \<open>complete=True\<close>, but
  the default connection type \<open>input-0\<close> selects the first branch): a join whose right side is deleted keeps
  the deleted node as its right input, and a join without main inputs raises a TypeError instead.
\<close>
theorem delete_node_leaves_right_input:
  "map_option (\<lambda>(g, e). (get_node g 2, Option.bind (node_heap g 3) right_input, e))
     (delete_node const_digest 10 2 plain_join) = Some (None, Some 2, None)
   \<and> map_option snd (delete_node const_digest 10 2 (join_graph (join_node None None (Some 2)))) = Some (Some TypeError)"
  by (intro conjI; code_simp)

text \<open>
  Connecting a new source to an occupied main input replaces the input but leaves the old source's
  downstream edge in place: the graph then reports a connection that no input backs, and the request to
  delete it is answered with 422.
\<close>
theorem replaced_input_leaves_edge:
  "map_option (\<lambda>(g, e). (leads (node_heap g) 1, inputs_of (node_heap g) 3, e,
       map_option snd (delete_connection const_digest 10 (create_from_simple_input 1 3 ''main'' ''output-0'') g)))
     (add_connection const_digest 10 (create_from_simple_input 4 3 ''main'' ''output-0'') plain_join)
   = Some ([3], [4, 2], None,
       Some (Some (HTTPException 422 ''Connection does not exist on the input node'')))"
  by code_simp

end
