(* ===== verification/Parameters.thy ===== *)
theory Parameters
  imports Prelude
begin

text \<open>
  Parameter references in node settings: \<open>flowfile/parameter_resolver.py\<close>.

  A settings object is a tree of values (\<^typ>\<open>pyval\<close>). \<open>apply_parameters_in_place\<close> mutates the tree and
  returns the list of restorations; a mutated place, which is a pair of an object and a field in the
  source, is a path from the root here. A settings tree holds no object twice, so a path identifies a
  place. The parameters are a dictionary from names to strings.
\<close>

section \<open>References in a text\<close>

definition ident_start :: "char \<Rightarrow> bool" where
  "ident_start c \<longleftrightarrow> c \<in> set ''abcdefghijklmnopqrstuvwxyzABCDEFGHIJKLMNOPQRSTUVWXYZ_''"

definition ident_char :: "char \<Rightarrow> bool" where
  "ident_char c \<longleftrightarrow> ident_start c \<or> c \<in> set ''0123456789''"

text \<open>\<open>_PARAM_PATTERN\<close> matched at the start of a text: the name and the text after the match.\<close>

definition match_ref :: "string \<Rightarrow> (string \<times> string) option" where
  "match_ref s =
     (case s of
        d # b # c # cs \<Rightarrow>
          (if d = CHR ''$'' \<and> b = CHR 0x7B \<and> ident_start c then
             (case dropWhile ident_char cs of
                e # rest \<Rightarrow> if e = CHR 0x7D then Some (c # takeWhile ident_char cs, rest) else None
              | [] \<Rightarrow> None)
           else None)
      | _ \<Rightarrow> None)"

lemma match_ref_shorter: "match_ref s = Some (n, rest) \<Longrightarrow> length rest < length s"
proof -
  assume "match_ref s = Some (n, rest)"
  then obtain d b c cs e where s: "s = d # b # c # cs" and "dropWhile ident_char cs = e # rest"
    by (auto simp: match_ref_def split: list.splits if_splits)
  then have "Suc (length rest) \<le> length cs" by (metis length_Cons length_dropWhile_le)
  with s show ?thesis by simp
qed

definition has_open :: "string \<Rightarrow> bool" where
  "has_open s \<longleftrightarrow> (\<exists>i < length s - 1. s ! i = CHR ''$'' \<and> s ! Suc i = CHR 0x7B)"

text \<open>The text of a matched reference, \<open>m.group(0)\<close>.\<close>

definition ref_text :: "string \<Rightarrow> string" where
  "ref_text n = ''$'' @ [CHR 0x7B] @ n @ [CHR 0x7D]"

definition value_of :: "(string, string) dict \<Rightarrow> string \<Rightarrow> string" where
  "value_of params n = (case dict_get params n of None \<Rightarrow> ref_text n | Some v \<Rightarrow> v)"

function sub_refs :: "(string, string) dict \<Rightarrow> string \<Rightarrow> string" where
  "sub_refs params [] = []"
| "sub_refs params (c # cs) =
     (case match_ref (c # cs) of
        Some (n, rest) \<Rightarrow> value_of params n @ sub_refs params rest
      | None \<Rightarrow> c # sub_refs params cs)"
  by pat_completeness auto
termination
  by (relation "measure (\<lambda>(params, s). length s)") (auto dest: match_ref_shorter)

function find_refs :: "string \<Rightarrow> string list" where
  "find_refs [] = []"
| "find_refs (c # cs) =
     (case match_ref (c # cs) of
        Some (n, rest) \<Rightarrow> n # find_refs rest
      | None \<Rightarrow> find_refs cs)"
  by pat_completeness auto
termination
  by (relation "measure length") (auto dest: match_ref_shorter)

definition resolve_parameters :: "string \<Rightarrow> (string, string) dict \<Rightarrow> string" where
  "resolve_parameters text params =
     (if params = [] \<or> \<not> has_open text then text else sub_refs params text)"

section \<open>Mutation in place\<close>

datatype step = Field string | Index nat

type_synonym path = "step list"
type_synonym restorations = "(path \<times> string) list"

definition resolve_leaf :: "(string, string) dict \<Rightarrow> path \<Rightarrow> string \<Rightarrow> string \<times> restorations" where
  "resolve_leaf params p s =
     (if has_open s then
        (let r = resolve_parameters s params in if r \<noteq> s then (r, [(p, s)]) else (s, []))
      else (s, []))"

text \<open>
  \<open>_apply_recursive\<close>, split by the kind of container. The fields of a model are searched for strings,
  models, dictionaries and lists; the items of such a list for models and strings; the entries of a
  dictionary for strings, models and dictionaries.
\<close>

fun apply_recursive :: "(string, string) dict \<Rightarrow> path \<Rightarrow> pyval \<Rightarrow> pyval \<times> restorations"
and apply_fields :: "(string, string) dict \<Rightarrow> path \<Rightarrow> (string \<times> pyval) list \<Rightarrow> (string \<times> pyval) list \<times> restorations"
and apply_items :: "(string, string) dict \<Rightarrow> path \<Rightarrow> nat \<Rightarrow> pyval list \<Rightarrow> pyval list \<times> restorations"
and apply_entries :: "(string, string) dict \<Rightarrow> path \<Rightarrow> (string \<times> pyval) list \<Rightarrow> (string \<times> pyval) list \<times> restorations"
where
  "apply_recursive params p (PModel fs) = (case apply_fields params p fs of (fs', rs) \<Rightarrow> (PModel fs', rs))"
| "apply_recursive params p (PDict kvs) = (case apply_entries params p kvs of (kvs', rs) \<Rightarrow> (PDict kvs', rs))"
| "apply_recursive params p v = (v, [])"
| "apply_fields params p [] = ([], [])"
| "apply_fields params p ((k, v) # fs) =
     (case (case v of
              PStr s \<Rightarrow> map_prod PStr id (resolve_leaf params (p @ [Field k]) s)
            | PList xs \<Rightarrow> map_prod PList id (apply_items params (p @ [Field k]) 0 xs)
            | _ \<Rightarrow> apply_recursive params (p @ [Field k]) v) of
        (v', rs) \<Rightarrow> (case apply_fields params p fs of (fs', rs') \<Rightarrow> ((k, v') # fs', rs @ rs')))"
| "apply_items params p i [] = ([], [])"
| "apply_items params p i (x # xs) =
     (case (case x of
              PModel _ \<Rightarrow> apply_recursive params (p @ [Index i]) x
            | PStr s \<Rightarrow> map_prod PStr id (resolve_leaf params (p @ [Index i]) s)
            | _ \<Rightarrow> (x, [])) of
        (x', rs) \<Rightarrow> (case apply_items params p (Suc i) xs of (xs', rs') \<Rightarrow> (x' # xs', rs @ rs')))"
| "apply_entries params p [] = ([], [])"
| "apply_entries params p ((k, v) # kvs) =
     (case (case v of
              PStr s \<Rightarrow> map_prod PStr id (resolve_leaf params (p @ [Field k]) s)
            | PModel _ \<Rightarrow> apply_recursive params (p @ [Field k]) v
            | PDict _ \<Rightarrow> apply_recursive params (p @ [Field k]) v
            | _ \<Rightarrow> (v, [])) of
        (v', rs) \<Rightarrow> (case apply_entries params p kvs of (kvs', rs') \<Rightarrow> ((k, v') # kvs', rs @ rs')))"

fun find_unresolved_in_model :: "pyval \<Rightarrow> string list" where
  "find_unresolved_in_model (PStr s) = find_refs s"
| "find_unresolved_in_model (PModel fs) = concat (map (\<lambda>(k, v). find_unresolved_in_model v) fs)"
| "find_unresolved_in_model (PDict kvs) = concat (map (\<lambda>(k, v). find_unresolved_in_model v) kvs)"
| "find_unresolved_in_model (PList xs) = concat (map find_unresolved_in_model xs)"
| "find_unresolved_in_model _ = []"

fun put_at :: "path \<Rightarrow> pyval \<Rightarrow> pyval \<Rightarrow> pyval" where
  "put_at [] new v = new"
| "put_at (Field k # p) new (PModel fs) = PModel (map (\<lambda>(k', v). (k', if k' = k then put_at p new v else v)) fs)"
| "put_at (Field k # p) new (PDict kvs) = PDict (map (\<lambda>(k', v). (k', if k' = k then put_at p new v else v)) kvs)"
| "put_at (Index i # p) new (PList xs) =
     PList (if i < length xs then xs[i := put_at p new (xs ! i)] else xs)"
| "put_at _ new v = v"

definition restore_parameters :: "restorations \<Rightarrow> pyval \<Rightarrow> pyval" where
  "restore_parameters rs v = fold (\<lambda>(p, s). put_at p (PStr s)) rs v"

datatype apply_error = UnresolvedReferences "string list"

text \<open>The settings object as it is after the call, and the restorations or the exception.\<close>

definition apply_parameters_in_place ::
  "pyval \<Rightarrow> (string, string) dict \<Rightarrow> pyval \<times> (apply_error + restorations)" where
  "apply_parameters_in_place v params =
     (if params = [] \<or> v = PNone then (v, Inr [])
      else case apply_recursive params [] v of
             (v', rs) \<Rightarrow>
               (let unresolved = find_unresolved_in_model v'
                in if unresolved \<noteq> [] then (restore_parameters rs v', Inl (UnresolvedReferences unresolved))
                   else (v', Inr rs)))"

section \<open>The legacy resolver\<close>

fun model_dump :: "pyval \<Rightarrow> pyval" where
  "model_dump (PModel fs) = PDict (map (\<lambda>(k, v). (k, model_dump v)) fs)"
| "model_dump (PDict kvs) = PDict (map (\<lambda>(k, v). (k, model_dump v)) kvs)"
| "model_dump (PList xs) = PList (map model_dump xs)"
| "model_dump v = v"

fun walk_and_resolve :: "(string, string) dict \<Rightarrow> pyval \<Rightarrow> pyval" where
  "walk_and_resolve params (PStr s) = PStr (resolve_parameters s params)"
| "walk_and_resolve params (PDict kvs) = PDict (map (\<lambda>(k, v). (k, walk_and_resolve params v)) kvs)"
| "walk_and_resolve params (PList xs) = PList (map (walk_and_resolve params) xs)"
| "walk_and_resolve params v = v"

fun find_unresolved :: "pyval \<Rightarrow> string list" where
  "find_unresolved (PStr s) = find_refs s"
| "find_unresolved (PDict kvs) = concat (map (\<lambda>(k, v). find_unresolved v) kvs)"
| "find_unresolved (PList xs) = concat (map find_unresolved xs)"
| "find_unresolved _ = []"

text \<open>\<open>model_validate\<close> of the settings class is the parameter \<open>validate\<close>.\<close>

definition resolve_node_settings ::
  "(pyval \<Rightarrow> pyval) \<Rightarrow> pyval \<Rightarrow> (string, string) dict \<Rightarrow> apply_error + pyval" where
  "resolve_node_settings validate v params =
     (if params = [] then Inr v
      else case v of
             PModel _ \<Rightarrow>
               (let resolved = walk_and_resolve params (model_dump v);
                    unresolved = find_unresolved resolved
                in if unresolved \<noteq> [] then Inl (UnresolvedReferences unresolved) else Inr (validate resolved))
           | _ \<Rightarrow> Inr v)"

section \<open>Restoring undoes the mutation\<close>

text \<open>Objects have distinct field names and dictionaries distinct keys.\<close>

fun wf_val :: "pyval \<Rightarrow> bool" where
  "wf_val (PModel fs) = (distinct (map fst fs) \<and> (\<forall>p \<in> set fs. wf_val (snd p)))"
| "wf_val (PDict kvs) = (distinct (map fst kvs) \<and> (\<forall>p \<in> set kvs. wf_val (snd p)))"
| "wf_val (PList xs) = (\<forall>x \<in> set xs. wf_val x)"
| "wf_val _ = True"

definition shift :: "path \<Rightarrow> restorations \<Rightarrow> restorations" where
  "shift q rs = map (\<lambda>(p, s). (q @ p, s)) rs"

lemma shift_simps [simp]:
  "shift q [] = []" "shift q ((p, s) # rs) = (q @ p, s) # shift q rs" "shift q (rs @ rs') = shift q rs @ shift q rs'"
  by (simp_all add: shift_def)

lemma resolve_leaf_shift: "resolve_leaf params (q @ p) s = map_prod id (shift q) (resolve_leaf params p s)"
  by (simp add: resolve_leaf_def Let_def)

lemma apply_shift:
  "apply_recursive params (q @ p) v = map_prod id (shift q) (apply_recursive params p v)"
  "apply_fields params (q @ p) fs = map_prod id (shift q) (apply_fields params p fs)"
  "apply_items params (q @ p) i xs = map_prod id (shift q) (apply_items params p i xs)"
  "apply_entries params (q @ p) fs = map_prod id (shift q) (apply_entries params p fs)"
  by (induction params p v and params p fs and params p i xs and params p fs
      rule: apply_recursive_apply_fields_apply_items_apply_entries.induct)
     (auto split: prod.splits pyval.splits simp: resolve_leaf_shift map_prod_def)

lemma restore_simps [simp]:
  "restore_parameters [] v = v"
  "restore_parameters ((p, s) # rs) v = restore_parameters rs (put_at p (PStr s) v)"
  "restore_parameters (rs @ rs') v = restore_parameters rs' (restore_parameters rs v)"
  by (simp_all add: restore_parameters_def)

definition at_key :: "string \<Rightarrow> (pyval \<Rightarrow> pyval) \<Rightarrow> (string \<times> pyval) list \<Rightarrow> (string \<times> pyval) list" where
  "at_key k f fs = map (\<lambda>(k', v). (k', if k' = k then f v else v)) fs"

lemma at_key_other: "k \<notin> fst ` set fs \<Longrightarrow> at_key k f fs = fs"
  by (induction fs) (auto simp: at_key_def)

lemma at_key_mid:
  "k \<notin> fst ` set pre \<Longrightarrow> k \<notin> fst ` set post \<Longrightarrow> at_key k f (pre @ (k, v) # post) = pre @ (k, f v) # post"
  using at_key_other[of k pre f] at_key_other[of k post f] by (simp add: at_key_def)

lemma at_key_id [simp]: "at_key k (restore_parameters []) fs = fs"
  by (induction fs) (auto simp: at_key_def)

lemma at_key_comp: "at_key k g (at_key k f fs) = at_key k (\<lambda>v. g (f v)) fs"
  by (induction fs) (auto simp: at_key_def)

lemma put_at_field:
  "put_at (Field k # p) new (PModel fs) = PModel (at_key k (put_at p new) fs)"
  "put_at (Field k # p) new (PDict fs) = PDict (at_key k (put_at p new) fs)"
  by (simp_all add: at_key_def)

lemma restore_field:
  assumes "\<And>k p new fs. put_at (Field k # p) new (C fs) = C (at_key k (put_at p new) fs)"
  shows "restore_parameters (shift [Field k] rs) (C fs) = C (at_key k (restore_parameters rs) fs)"
proof (induction rs arbitrary: fs)
  case (Cons a rs)
  obtain p s where a: "a = (p, s)" by (cases a)
  have "(\<lambda>v. restore_parameters rs (put_at p (PStr s) v)) = restore_parameters ((p, s) # rs)"
    by (simp add: fun_eq_iff)
  with Cons.IH show ?case
    by (simp add: a assms at_key_comp del: put_at.simps)
qed simp

lemma put_at_index: "put_at (Index (length pre) # p) new (PList (pre @ v # post)) = PList (pre @ put_at p new v # post)"
  by simp

lemma restore_index:
  "restore_parameters (shift [Index (length pre)] rs) (PList (pre @ v # post))
     = PList (pre @ restore_parameters rs v # post)"
  by (induction rs arbitrary: v) (auto simp: put_at_index simp del: put_at.simps)

lemma resolve_leaf_restore:
  "restore_parameters (snd (resolve_leaf params [] s)) (PStr (fst (resolve_leaf params [] s))) = PStr s"
  by (simp add: resolve_leaf_def Let_def)

text \<open>The result for one component, at the empty path.\<close>

definition apply_field :: "(string, string) dict \<Rightarrow> path \<Rightarrow> pyval \<Rightarrow> pyval \<times> restorations" where
  "apply_field params p v =
     (case v of
        PStr s \<Rightarrow> map_prod PStr id (resolve_leaf params p s)
      | PList xs \<Rightarrow> map_prod PList id (apply_items params p 0 xs)
      | _ \<Rightarrow> apply_recursive params p v)"

definition apply_item :: "(string, string) dict \<Rightarrow> path \<Rightarrow> pyval \<Rightarrow> pyval \<times> restorations" where
  "apply_item params p x =
     (case x of PModel _ \<Rightarrow> apply_recursive params p x | PStr s \<Rightarrow> map_prod PStr id (resolve_leaf params p s) | _ \<Rightarrow> (x, []))"

definition apply_entry :: "(string, string) dict \<Rightarrow> path \<Rightarrow> pyval \<Rightarrow> pyval \<times> restorations" where
  "apply_entry params p v =
     (case v of PStr s \<Rightarrow> map_prod PStr id (resolve_leaf params p s)
      | PModel _ \<Rightarrow> apply_recursive params p v | PDict _ \<Rightarrow> apply_recursive params p v | _ \<Rightarrow> (v, []))"

lemma component_shift:
  "apply_field params [st] v = map_prod id (shift [st]) (apply_field params [] v)"
  "apply_item params [st] v = map_prod id (shift [st]) (apply_item params [] v)"
  "apply_entry params [st] v = map_prod id (shift [st]) (apply_entry params [] v)"
  using apply_shift[of params "[st]" "[]"] resolve_leaf_shift[of params "[st]" "[]"]
  by (auto simp: apply_field_def apply_item_def apply_entry_def map_prod_def split: pyval.split prod.splits)

text \<open>Models and dictionaries are searched field by field, lists item by item.\<close>

fun collect :: "(pyval \<Rightarrow> pyval \<times> restorations) \<Rightarrow> (string \<times> pyval) list \<Rightarrow> (string \<times> pyval) list \<times> restorations" where
  "collect f [] = ([], [])"
| "collect f ((k, v) # fs) = ((k, fst (f v)) # fst (collect f fs), shift [Field k] (snd (f v)) @ snd (collect f fs))"

fun collect_items :: "(pyval \<Rightarrow> pyval \<times> restorations) \<Rightarrow> nat \<Rightarrow> pyval list \<Rightarrow> pyval list \<times> restorations" where
  "collect_items f i [] = ([], [])"
| "collect_items f i (x # xs) =
     (fst (f x) # fst (collect_items f (Suc i) xs), shift [Index i] (snd (f x)) @ snd (collect_items f (Suc i) xs))"

lemma apply_fields_collect: "apply_fields params [] fs = collect (apply_field params []) fs"
proof (induction fs)
  case (Cons a fs)
  obtain k v where a: "a = (k, v)" by (cases a)
  have "apply_fields params [] (a # fs) = (case apply_field params [Field k] v of
      (v', rs) \<Rightarrow> (case apply_fields params [] fs of (fs', rs') \<Rightarrow> ((k, v') # fs', rs @ rs')))"
    by (simp only: a apply_fields.simps append_Nil apply_field_def)
  then show ?case using Cons.IH unfolding component_shift(1)
    by (cases "apply_field params [] v") (simp add: a split: prod.split)
qed simp

lemma apply_entries_collect: "apply_entries params [] fs = collect (apply_entry params []) fs"
proof (induction fs)
  case (Cons a fs)
  obtain k v where a: "a = (k, v)" by (cases a)
  have "apply_entries params [] (a # fs) = (case apply_entry params [Field k] v of
      (v', rs) \<Rightarrow> (case apply_entries params [] fs of (fs', rs') \<Rightarrow> ((k, v') # fs', rs @ rs')))"
    by (simp only: a apply_entries.simps append_Nil apply_entry_def)
  then show ?case using Cons.IH unfolding component_shift(3)
    by (cases "apply_entry params [] v") (simp add: a split: prod.split)
qed simp

lemma apply_items_collect: "apply_items params [] i xs = collect_items (apply_item params []) i xs"
proof (induction xs arbitrary: i)
  case (Cons x xs)
  have "apply_items params [] i (x # xs) = (case apply_item params [Index i] x of
      (x', rs) \<Rightarrow> (case apply_items params [] (Suc i) xs of (xs', rs') \<Rightarrow> (x' # xs', rs @ rs')))"
    by (simp only: apply_items.simps append_Nil apply_item_def)
  then show ?case using Cons.IH unfolding component_shift(2)
    by (cases "apply_item params [] x") (simp split: prod.split)
qed simp

definition undone :: "pyval \<times> restorations \<Rightarrow> pyval \<Rightarrow> bool" where
  "undone r v \<longleftrightarrow> restore_parameters (snd r) (fst r) = v"

lemma collect_keys: "map fst (fst (collect f fs)) = map fst fs"
  by (induction f fs rule: collect.induct) simp_all

lemma collect_undone:
  assumes C: "\<And>k p new fs. put_at (Field k # p) new (C fs) = C (at_key k (put_at p new) fs)"
    and f: "\<And>k v. (k, v) \<in> set fs \<Longrightarrow> undone (f v) v" and d: "distinct (map fst (pre @ fs))"
  shows "restore_parameters (snd (collect f fs)) (C (pre @ fst (collect f fs))) = C (pre @ fs)"
  using f d
proof (induction fs arbitrary: pre)
  case (Cons a fs)
  obtain k v where a: "a = (k, v)" by (cases a)
  have "k \<notin> set (map fst (fst (collect f fs)))" unfolding collect_keys using Cons.prems(2) by (simp add: a)
  then have k: "k \<notin> fst ` set pre" "k \<notin> fst ` set (fst (collect f fs))"
    using Cons.prems(2) by (simp_all add: a)
  have "restore_parameters (snd (f v)) (fst (f v)) = v" using Cons.prems(1)[of k v] by (simp add: a undone_def)
  then have "restore_parameters (snd (collect f (a # fs))) (C (pre @ fst (collect f (a # fs))))
      = restore_parameters (snd (collect f fs)) (C ((pre @ [(k, v)]) @ fst (collect f fs)))"
    by (simp add: a restore_field[OF C] at_key_mid[OF k])
  also have "\<dots> = C ((pre @ [(k, v)]) @ fs)"
    by (rule Cons.IH) (use Cons.prems in \<open>auto simp: a\<close>)
  finally show ?case by (simp add: a)
qed simp

lemma collect_items_undone:
  assumes "\<And>x. x \<in> set xs \<Longrightarrow> undone (f x) x" and "length pre = i"
  shows "restore_parameters (snd (collect_items f i xs)) (PList (pre @ fst (collect_items f i xs))) = PList (pre @ xs)"
  using assms
proof (induction xs arbitrary: pre i)
  case (Cons x xs)
  have "restore_parameters (snd (f x)) (fst (f x)) = x" using Cons.prems(1)[of x] by (simp add: undone_def)
  then have "restore_parameters (snd (collect_items f i (x # xs))) (PList (pre @ fst (collect_items f i (x # xs))))
      = restore_parameters (snd (collect_items f (Suc i) xs)) (PList ((pre @ [x]) @ fst (collect_items f (Suc i) xs)))"
    by (simp add: Cons.prems(2)[symmetric] restore_index)
  also have "\<dots> = PList ((pre @ [x]) @ xs)"
    by (rule Cons.IH) (use Cons.prems in auto)
  finally show ?case by simp
qed simp

lemma leaf_undone: "undone (map_prod PStr id (resolve_leaf params [] s)) (PStr s)"
  by (simp add: undone_def resolve_leaf_restore)

lemma component_simps:
  "apply_field params [] (PList xs) = map_prod PList id (collect_items (apply_item params []) 0 xs)"
  "apply_field params [] (PDict kvs) = map_prod PDict id (collect (apply_entry params []) kvs)"
  "apply_field params [] (PModel fs) = map_prod PModel id (collect (apply_field params []) fs)"
  "apply_item params [] (PList xs) = (PList xs, [])"
  "apply_item params [] (PDict kvs) = (PDict kvs, [])"
  "apply_item params [] (PModel fs) = map_prod PModel id (collect (apply_field params []) fs)"
  "apply_entry params [] (PList xs) = (PList xs, [])"
  "apply_entry params [] (PDict kvs) = map_prod PDict id (collect (apply_entry params []) kvs)"
  "apply_entry params [] (PModel fs) = map_prod PModel id (collect (apply_field params []) fs)"
  "apply_recursive params [] (PDict kvs) = map_prod PDict id (collect (apply_entry params []) kvs)"
  "apply_recursive params [] (PModel fs) = map_prod PModel id (collect (apply_field params []) fs)"
  by (simp_all only: apply_items_collect[symmetric] apply_fields_collect[symmetric] apply_entries_collect[symmetric])
     (simp_all add: apply_field_def apply_item_def apply_entry_def map_prod_def split: prod.split)

lemma apply_undone: "wf_val v \<Longrightarrow> undone (apply_recursive params [] v) v \<and> undone (apply_field params [] v) v
   \<and> undone (apply_item params [] v) v \<and> undone (apply_entry params [] v) v"
proof (induction v)
  case (PList xs)
  then have "undone (apply_item params [] x) x" if "x \<in> set xs" for x using that by simp
  from collect_items_undone[OF this, of xs "[]" 0] show ?case
    by (simp add: undone_def component_simps)
next
  case (PDict kvs)
  then have "undone (apply_entry params [] v) v" if "(k, v) \<in> set kvs" for k v
    using that by (fastforce simp: snds.simps)
  then have "restore_parameters (snd (collect (apply_entry params []) kvs))
      (PDict ([] @ fst (collect (apply_entry params []) kvs))) = PDict ([] @ kvs)"
    by (intro collect_undone put_at_field) (use PDict.prems in auto)
  then show ?case by (simp add: undone_def component_simps del: apply_recursive.simps)
next
  case (PModel fs)
  then have "undone (apply_field params [] v) v" if "(k, v) \<in> set fs" for k v
    using that by (fastforce simp: snds.simps)
  then have "restore_parameters (snd (collect (apply_field params []) fs))
      (PModel ([] @ fst (collect (apply_field params []) fs))) = PModel ([] @ fs)"
    by (intro collect_undone put_at_field) (use PModel.prems in auto)
  then show ?case by (simp add: undone_def component_simps del: apply_recursive.simps)
qed (simp_all add: apply_field_def apply_item_def apply_entry_def leaf_undone, simp_all add: undone_def)

lemma apply_parameters_facts:
  assumes "wf_val v"
  shows "case apply_parameters_in_place v params of
     (v', Inr rs) \<Rightarrow> restore_parameters rs v' = v \<and> (params \<noteq> [] \<and> v \<noteq> PNone \<longrightarrow> find_unresolved_in_model v' = [])
   | (v', Inl _) \<Rightarrow> v' = v"
proof -
  have "undone (apply_recursive params [] v) v" using apply_undone[OF assms] by blast
  then show ?thesis
    by (cases "apply_recursive params [] v") (simp add: apply_parameters_in_place_def undone_def Let_def)
qed

text \<open>
  C37: Substituting parameters is undone exactly: after a successful call no reference is left in the
  settings and restoring brings back the settings as they were; a call that raises has already rolled
  everything back.
\<close>
theorem apply_parameters_undone:
  assumes "wf_val v"
  shows "case apply_parameters_in_place v params of
     (v', Inr rs) \<Rightarrow> restore_parameters rs v' = v \<and> (params \<noteq> [] \<and> v \<noteq> PNone \<longrightarrow> find_unresolved_in_model v' = [])
   | (v', Inl _) \<Rightarrow> v' = v"
  using assms by (rule apply_parameters_facts)

section \<open>What substitution means\<close>

text \<open>A text as a sequence of literal pieces, which hold no dollar sign, and references.\<close>

datatype piece = Lit string | Ref string

definition valid_name :: "string \<Rightarrow> bool" where
  "valid_name n \<longleftrightarrow> n \<noteq> [] \<and> ident_start (hd n) \<and> list_all ident_char n"

fun valid_piece :: "piece \<Rightarrow> bool" where
  "valid_piece (Lit s) = (CHR ''$'' \<notin> set s)"
| "valid_piece (Ref n) = valid_name n"

fun render :: "piece list \<Rightarrow> string" where
  "render [] = []"
| "render (Lit s # ps) = s @ render ps"
| "render (Ref n # ps) = ref_text n @ render ps"

fun render_with :: "(string, string) dict \<Rightarrow> piece list \<Rightarrow> string" where
  "render_with params [] = []"
| "render_with params (Lit s # ps) = s @ render_with params ps"
| "render_with params (Ref n # ps) = value_of params n @ render_with params ps"

fun refs_of :: "piece list \<Rightarrow> string list" where
  "refs_of [] = []"
| "refs_of (Lit s # ps) = refs_of ps"
| "refs_of (Ref n # ps) = n # refs_of ps"

lemma match_ref_literal: "c \<noteq> CHR ''$'' \<Longrightarrow> match_ref (c # cs) = None"
  by (auto simp: match_ref_def split: list.split)

lemma sub_refs_literal: "CHR ''$'' \<notin> set s \<Longrightarrow> sub_refs params (s @ t) = s @ sub_refs params t"
  by (induction s) (auto simp: match_ref_literal)

lemma find_refs_literal: "CHR ''$'' \<notin> set s \<Longrightarrow> find_refs (s @ t) = find_refs t"
  by (induction s) (auto simp: match_ref_literal)

lemma brace_not_ident: "\<not> ident_char (CHR 0x7D)"
  by code_simp

lemma match_ref_text:
  assumes "valid_name n"
  shows "match_ref (ref_text n @ t) = Some (n, t)"
proof -
  obtain c cs where n: "n = c # cs" "ident_start c" "list_all ident_char cs"
    using assms by (cases n) (auto simp: valid_name_def)
  then have cs: "\<And>x. x \<in> set cs \<Longrightarrow> ident_char x" by (simp add: list_all_iff)
  have "takeWhile ident_char (cs @ CHR 0x7D # t) = cs" "dropWhile ident_char (cs @ CHR 0x7D # t) = CHR 0x7D # t"
    using cs brace_not_ident by (simp_all add: takeWhile_append2 dropWhile_append2)
  with n show ?thesis by (simp add: match_ref_def ref_text_def)
qed

lemma ref_text_Cons: "\<exists>c cs. ref_text n @ t = c # cs"
  by (simp add: ref_text_def)

lemma sub_refs_ref: "valid_name n \<Longrightarrow> sub_refs params (ref_text n @ t) = value_of params n @ sub_refs params t"
  using match_ref_text[of n t] ref_text_Cons[of n t] by (metis (no_types, lifting) option.simps(5) prod.simps(2) sub_refs.simps(2))

lemma find_refs_ref: "valid_name n \<Longrightarrow> find_refs (ref_text n @ t) = n # find_refs t"
  using match_ref_text[of n t] ref_text_Cons[of n t] by (metis (no_types, lifting) option.simps(5) prod.simps(2) find_refs.simps(2))

lemma sub_refs_render: "\<forall>p \<in> set ps. valid_piece p \<Longrightarrow> sub_refs params (render ps) = render_with params ps"
  by (induction ps rule: render.induct) (simp_all add: sub_refs_literal sub_refs_ref)

lemma find_refs_render: "\<forall>p \<in> set ps. valid_piece p \<Longrightarrow> find_refs (render ps) = refs_of ps"
  by (induction ps rule: render.induct) (simp_all add: find_refs_literal find_refs_ref)

lemma match_ref_open: "match_ref s = Some r \<Longrightarrow> has_open s"
  unfolding match_ref_def has_open_def by (auto split: list.splits if_splits intro!: exI[of _ 0])

lemma has_open_Cons: "has_open cs \<Longrightarrow> has_open (c # cs)"
proof -
  assume "has_open cs"
  then obtain i where "i < length cs - 1" "cs ! i = CHR ''$''" "cs ! Suc i = CHR 0x7B" by (auto simp: has_open_def)
  then show ?thesis unfolding has_open_def by (intro exI[of _ "Suc i"]) auto
qed

lemma sub_refs_closed: "\<not> has_open s \<Longrightarrow> sub_refs params s = s"
  by (induction s) (auto dest: match_ref_open has_open_Cons split: option.split)

lemma value_of_Nil: "value_of [] n = ref_text n"
  by (simp add: value_of_def)

lemma render_with_Nil: "render_with [] ps = render ps"
  by (induction ps rule: render.induct) (simp_all add: value_of_Nil)

text \<open>
  Substitution does what its specification says: in a text made of literal pieces and references,
  every reference to a defined parameter becomes the parameter's value, every other reference and all
  literal text stay as they are, and the references found in the text are exactly its pieces.
\<close>
theorem resolve_parameters_spec:
  assumes "\<forall>p \<in> set ps. valid_piece p"
  shows "resolve_parameters (render ps) params = render_with params ps \<and> find_refs (render ps) = refs_of ps"
  using sub_refs_render[OF assms, of params] sub_refs_closed[of "render ps" params] find_refs_render[OF assms]
  by (auto simp: resolve_parameters_def render_with_Nil)

section \<open>Concrete settings\<close>

definition sample_params :: "(string, string) dict" where
  "sample_params = [(''dir'', ''/data''), (''year'', ''2024'')]"

definition sample_text :: "piece list" where
  "sample_text = [Ref ''dir'', Lit ''/sales_'', Ref ''year'', Lit ''.csv'']"

definition sample_settings :: pyval where
  "sample_settings = PModel [(''path'', PStr (render sample_text)), (''columns'', PList [PStr ''a'', PStr (ref_text ''year'')]),
     (''nested'', PModel [(''flag'', PBool True)])]"

lemma apply_parameters_undone_witness:
  "case apply_parameters_in_place sample_settings sample_params of
     (v', Inr rs) \<Rightarrow> restore_parameters rs v' = sample_settings \<and> length rs = 2 | (v', Inl _) \<Rightarrow> False"
proof -
  have wf: "wf_val sample_settings" by code_simp
  have "map_sum (\<lambda>_. ()) length (snd (apply_parameters_in_place sample_settings sample_params)) = Inr 2" by code_simp
  with apply_parameters_undone[OF wf, of sample_params] show ?thesis
    by (cases "snd (apply_parameters_in_place sample_settings sample_params)") (auto split: prod.splits)
qed

lemma resolve_parameters_spec_witness:
  "resolve_parameters (render sample_text) sample_params = ''/data/sales_2024.csv''"
proof -
  have valid: "\<forall>p \<in> set sample_text. valid_piece p" by code_simp
  have "render_with sample_params sample_text = ''/data/sales_2024.csv''" by code_simp
  with resolve_parameters_spec[OF valid, of sample_params] show ?thesis by simp
qed

text \<open>
  The search for references goes deeper than the substitution: a reference to a defined parameter
  inside a list of dictionaries is never substituted but always reported, so the settings are rejected
  as unresolved, while the legacy resolver accepts the same settings.
\<close>
theorem defined_reference_reported_unresolved:
  defines "v \<equiv> PModel [(''headers'', PList [PDict [(''value'', PStr (ref_text ''year''))]])]"
  shows "apply_parameters_in_place v sample_params = (v, Inl (UnresolvedReferences [''year'']))
    \<and> resolve_node_settings id v sample_params = Inr (PDict [(''headers'', PList [PDict [(''value'', PStr ''2024'')]])])"
  unfolding v_def by (intro conjI; code_simp)

end
