(* ===== verification/History.thy ===== *)
theory History
  imports Visual_Groups
begin

text \<open>
  Undo and redo: \<open>history_manager.py\<close>, \<open>schemas/history_schema.py\<close> and the wrapper
  \<open>_execute_with_history\<close> of \<open>flow_graph.py\<close>.

  A \<open>deque\<close> with a maximal length is a list whose head is the right end (the top of the stack); appending to
  a full one drops the element at the left end. Snapshots have a type parameter: an operation gets the
  functions \<open>get\<close> (\<open>get_flowfile_data().model_dump()\<close>; \<open>None\<close> when it raises) and \<open>restore\<close>
  (\<open>restore_from_snapshot\<close>: the state after it, and whether it returned normally). Compressing a pickled
  snapshot and decompressing it again gives an equal snapshot, so entries store the snapshot itself. The
  flag \<open>_is_restoring\<close> is true only inside \<open>undo\<close> and \<open>redo\<close>, where captures are refused.

  The locale \<open>snapshots\<close> states what the manager relies on of a snapshot source; it is interpreted on
  \<open>restore_groups\<close>, the part of \<open>restore_from_snapshot\<close> that rebuilds the visual groups.
\<close>

section \<open>Structural hash of a snapshot\<close>

definition py_get :: "string \<Rightarrow> pyval \<Rightarrow> pyval" where
  "py_get k v = (case v of PDict kvs \<Rightarrow> (case dict_get kvs k of None \<Rightarrow> PNone | Some x \<Rightarrow> x) | _ \<Rightarrow> PNone)"

fun truthy :: "pyval \<Rightarrow> bool" where
  "truthy PNone = False"
| "truthy (PBool b) = b"
| "truthy (PInt i) = (i \<noteq> 0)"
| "truthy (PStr s) = (s \<noteq> [])"
| "truthy (PList xs) = (xs \<noteq> [])"
| "truthy (PDict kvs) = (kvs \<noteq> [])"
| "truthy (PModel fs) = True"

definition or_empty :: "pyval \<Rightarrow> pyval" where
  "or_empty v = (if truthy v then v else PList [])"

definition id_key :: "pyval \<Rightarrow> int" where
  "id_key v = (case py_get ''id'' v of PInt i \<Rightarrow> i | _ \<Rightarrow> 0)"

definition list_items :: "pyval \<Rightarrow> pyval list" where
  "list_items v = (case v of PList xs \<Rightarrow> xs | _ \<Rightarrow> [])"

text \<open>\<open>S\<close> is \<open>str\<close> and \<open>H\<close> the built-in \<open>hash\<close>, on the values that reach them.\<close>

definition node_signature :: "(pyval \<Rightarrow> string) \<Rightarrow> (pyval \<Rightarrow> int) \<Rightarrow> pyval \<Rightarrow> pyval" where
  "node_signature S H n =
     PList [py_get ''id'' n, py_get ''type'' n, or_empty (py_get ''input_ids'' n), py_get ''left_input_id'' n,
       py_get ''right_input_id'' n, or_empty (py_get ''outputs'' n), py_get ''x_position'' n,
       py_get ''y_position'' n, py_get ''group_id'' n,
       (if truthy (py_get ''setting_input'' n) then PInt (H (PStr (S (py_get ''setting_input'' n)))) else PNone)]"

definition group_signature :: "pyval \<Rightarrow> pyval" where
  "group_signature g = PList (map (\<lambda>k. py_get k g)
     [''id'', ''name'', ''color'', ''x_position'', ''y_position'', ''width'', ''height'', ''collapsed'', ''parent_group_id''])"

definition settings_signature :: "(pyval \<Rightarrow> string) \<Rightarrow> (string \<times> string \<Rightarrow> int) \<Rightarrow> pyval \<Rightarrow> string" where
  "settings_signature S order v =
     (case v of
        PDict kvs \<Rightarrow> S (PList (map (\<lambda>(k, s). PList [PStr k, PStr s]) (sort_key order (map (\<lambda>(k, x). (k, S x)) kvs))))
      | _ \<Rightarrow> S v)"

definition compute_hash ::
  "(pyval \<Rightarrow> string) \<Rightarrow> (string \<times> string \<Rightarrow> int) \<Rightarrow> (pyval \<Rightarrow> int) \<Rightarrow> pyval \<Rightarrow> int" where
  "compute_hash S order H d =
     H (PList [py_get ''flowfile_id'' d,
          PStr (settings_signature S order (case py_get ''flowfile_settings'' d of PNone \<Rightarrow> PDict [] | v \<Rightarrow> v)),
          PList (map (node_signature S H) (sort_key id_key (list_items (py_get ''nodes'' d)))),
          PList (map group_signature (sort_key id_key (list_items (or_empty (py_get ''groups'' d)))))])"

section \<open>The manager\<close>

datatype history_action_type =
    ADD_NODE | DELETE_NODE | MOVE_NODE | MOVE_NODES | ADD_CONNECTION | DELETE_CONNECTION | UPDATE_SETTINGS
  | COPY_NODE | PASTE_NODES | APPLY_LAYOUT | CREATE_GROUP | UPDATE_GROUP | DELETE_GROUP
  | UPDATE_GROUP_MEMBERSHIP | BATCH

record history_config =
  hc_enabled :: bool
  hc_max_stack_size :: nat
  hc_use_compression :: bool
  hc_compression_level :: nat

definition history_config0 :: history_config where
  "history_config0 = \<lparr>hc_enabled = True, hc_max_stack_size = 50, hc_use_compression = True, hc_compression_level = 6\<rparr>"

record 'd history_entry =
  he_snapshot :: 'd
  he_hash :: int
  he_action :: history_action_type
  he_description :: string
  he_timestamp :: nat
  he_node :: "int option"

record 'd history_manager =
  hm_config :: history_config
  hm_undo :: "'d history_entry list"
  hm_redo :: "'d history_entry list"
  hm_restoring :: bool
  hm_last_hash :: "int option"
  hm_saved_hash :: "int option"
  hm_dirty :: bool

definition history0 :: "history_config \<Rightarrow> 'd history_manager" where
  "history0 c = \<lparr>hm_config = c, hm_undo = [], hm_redo = [], hm_restoring = False, hm_last_hash = None,
     hm_saved_hash = None, hm_dirty = False\<rparr>"

definition create_entry ::
  "('d \<Rightarrow> int) \<Rightarrow> nat \<Rightarrow> 'd \<Rightarrow> history_action_type \<Rightarrow> string \<Rightarrow> int option \<Rightarrow> 'd history_entry" where
  "create_entry hash t d act desc node =
     \<lparr>he_snapshot = d, he_hash = hash d, he_action = act, he_description = desc, he_timestamp = t, he_node = node\<rparr>"

definition push :: "nat \<Rightarrow> 'a \<Rightarrow> 'a list \<Rightarrow> 'a list" where
  "push m x xs = take m (x # xs)"

definition record_change :: "'d history_entry \<Rightarrow> 'd history_manager \<Rightarrow> 'd history_manager" where
  "record_change e m =
     m\<lparr>hm_undo := push (hc_max_stack_size (hm_config m)) e (hm_undo m), hm_dirty := True, hm_redo := []\<rparr>"

definition capture_snapshot ::
  "('s \<Rightarrow> 'd option) \<Rightarrow> ('d \<Rightarrow> int) \<Rightarrow> nat \<Rightarrow> history_action_type \<Rightarrow> string \<Rightarrow> int option
    \<Rightarrow> 's \<Rightarrow> 'd history_manager \<Rightarrow> 'd history_manager \<times> bool" where
  "capture_snapshot get hash t act desc node s m =
     (if \<not> hc_enabled (hm_config m) then (m, False)
      else if hm_restoring m then (m, False)
      else case get s of
             None \<Rightarrow> (m, False)
           | Some d \<Rightarrow>
               if hm_undo m \<noteq> [] \<and> he_hash (hd (hm_undo m)) = hash d then (m, False)
               else (record_change (create_entry hash t d act desc node) m, True))"

definition capture_if_changed ::
  "('s \<Rightarrow> 'd option) \<Rightarrow> ('d \<Rightarrow> int) \<Rightarrow> nat \<Rightarrow> 'd \<Rightarrow> history_action_type \<Rightarrow> string \<Rightarrow> int option
    \<Rightarrow> 's \<Rightarrow> 'd history_manager \<Rightarrow> 'd history_manager \<times> bool" where
  "capture_if_changed get hash t pre act desc node s m =
     (if \<not> hc_enabled (hm_config m) then (m, False)
      else if hm_restoring m then (m, False)
      else case get s of
             None \<Rightarrow> (m, False)
           | Some d \<Rightarrow>
               if hash pre = hash d then (m, False)
               else ((record_change (create_entry hash t pre act desc node) m)\<lparr>hm_last_hash := Some (hash d)\<rparr>, True))"

datatype undo_redo_result = Done string | Refused string

text \<open>
  The two directions share their body: pop an entry of one stack, push the present state on the other,
  restore. The entry is gone and the present state is pushed even when restoring raises.
\<close>

definition undo ::
  "('s \<Rightarrow> 'd option) \<Rightarrow> ('d \<Rightarrow> 's \<Rightarrow> 's \<times> bool) \<Rightarrow> ('d \<Rightarrow> int) \<Rightarrow> nat
    \<Rightarrow> 's \<Rightarrow> 'd history_manager \<Rightarrow> 's \<times> 'd history_manager \<times> undo_redo_result" where
  "undo get restore hash t s m =
     (case hm_undo m of
        [] \<Rightarrow> (s, m, Refused ''Nothing to undo'')
      | e # rest \<Rightarrow>
          (let m1 = m\<lparr>hm_undo := rest, hm_restoring := False\<rparr>
           in case get s of
                None \<Rightarrow> (s, m1, Refused ''Undo failed'')
              | Some d \<Rightarrow>
                  (let m2 = m1\<lparr>hm_redo := push (hc_max_stack_size (hm_config m))
                         (create_entry hash t d (he_action e) (he_description e) (he_node e)) (hm_redo m)\<rparr>
                   in case restore (he_snapshot e) s of
                        (s', False) \<Rightarrow> (s', m2, Refused ''Undo failed'')
                      | (s', True) \<Rightarrow> (s', m2\<lparr>hm_last_hash := Some (he_hash e)\<rparr>, Done (he_description e)))))"

definition redo ::
  "('s \<Rightarrow> 'd option) \<Rightarrow> ('d \<Rightarrow> 's \<Rightarrow> 's \<times> bool) \<Rightarrow> ('d \<Rightarrow> int) \<Rightarrow> nat
    \<Rightarrow> 's \<Rightarrow> 'd history_manager \<Rightarrow> 's \<times> 'd history_manager \<times> undo_redo_result" where
  "redo get restore hash t s m =
     (case hm_redo m of
        [] \<Rightarrow> (s, m, Refused ''Nothing to redo'')
      | e # rest \<Rightarrow>
          (let m1 = m\<lparr>hm_redo := rest, hm_restoring := False\<rparr>
           in case get s of
                None \<Rightarrow> (s, m1, Refused ''Redo failed'')
              | Some d \<Rightarrow>
                  (let m2 = m1\<lparr>hm_undo := push (hc_max_stack_size (hm_config m))
                         (create_entry hash t d (he_action e) (he_description e) (he_node e)) (hm_undo m)\<rparr>
                   in case restore (he_snapshot e) s of
                        (s', False) \<Rightarrow> (s', m2, Refused ''Redo failed'')
                      | (s', True) \<Rightarrow> (s', m2\<lparr>hm_last_hash := Some (he_hash e)\<rparr>, Done (he_description e)))))"

record history_state =
  can_undo :: bool
  can_redo :: bool
  undo_description :: "string option"
  redo_description :: "string option"
  undo_count :: nat
  redo_count :: nat

definition get_state :: "'d history_manager \<Rightarrow> history_state" where
  "get_state m =
     \<lparr>can_undo = hm_undo m \<noteq> [], can_redo = hm_redo m \<noteq> [],
      undo_description = (case hm_undo m of [] \<Rightarrow> None | e # _ \<Rightarrow> Some (he_description e)),
      redo_description = (case hm_redo m of [] \<Rightarrow> None | e # _ \<Rightarrow> Some (he_description e)),
      undo_count = length (hm_undo m), redo_count = length (hm_redo m)\<rparr>"

definition clear_history :: "'d history_manager \<Rightarrow> 'd history_manager" where
  "clear_history m = m\<lparr>hm_undo := [], hm_redo := [], hm_last_hash := None\<rparr>"

definition mark_saved :: "('s \<Rightarrow> 'd option) \<Rightarrow> ('d \<Rightarrow> int) \<Rightarrow> 's \<Rightarrow> 'd history_manager \<Rightarrow> 'd history_manager" where
  "mark_saved get hash s m =
     (case get s of None \<Rightarrow> m | Some d \<Rightarrow> m\<lparr>hm_saved_hash := Some (hash d), hm_dirty := False\<rparr>)"

definition has_unsaved_changes :: "('s \<Rightarrow> 'd option) \<Rightarrow> ('d \<Rightarrow> bool) \<Rightarrow> 's \<Rightarrow> 'd history_manager \<Rightarrow> bool" where
  "has_unsaved_changes get has_nodes s m =
     (if hm_saved_hash m \<noteq> None then hm_dirty m
      else case get s of None \<Rightarrow> True | Some d \<Rightarrow> has_nodes d)"

definition get_memory_usage :: "('d history_entry \<Rightarrow> nat) \<Rightarrow> 'd history_manager \<Rightarrow> nat \<times> nat \<times> nat \<times> nat \<times> nat" where
  "get_memory_usage size_of m =
     (let u = sum_list (map size_of (hm_undo m)); r = sum_list (map size_of (hm_redo m))
      in (length (hm_undo m), length (hm_redo m), u, r, u + r))"

text \<open>
  \<open>_execute_with_history\<close>: \<open>track\<close> is the flow's setting. When the first snapshot cannot be taken, the
  exception leaves the method before the operation runs.
\<close>

definition execute_with_history ::
  "('s \<Rightarrow> 'd option) \<Rightarrow> ('d \<Rightarrow> int) \<Rightarrow> nat \<Rightarrow> bool \<Rightarrow> ('s \<Rightarrow> 's) \<Rightarrow> history_action_type \<Rightarrow> string \<Rightarrow> int option
    \<Rightarrow> 's \<Rightarrow> 'd history_manager \<Rightarrow> 's \<times> 'd history_manager" where
  "execute_with_history get hash t track operation act desc node s m =
     (if \<not> track then (operation s, m)
      else case get s of
             None \<Rightarrow> (s, m)
           | Some pre \<Rightarrow>
               (let s' = operation s in (s', fst (capture_if_changed get hash t pre act desc node s' m))))"

section \<open>The abstract specification: a bounded timeline\<close>

text \<open>
  The specification of the manager is a timeline of snapshots with a past, a present and a future: doing
  moves the present into the past and forgets the future, undo and redo move along the line. The past
  holds at most \<open>m\<close> snapshots.
\<close>

datatype 'd timeline = Timeline (past: "'d list") (present: 'd) (future: "'d list")

definition spec_do :: "nat \<Rightarrow> 'd \<Rightarrow> 'd timeline \<Rightarrow> 'd timeline" where
  "spec_do m d w = Timeline (take m (present w # past w)) d []"

definition spec_undo :: "nat \<Rightarrow> 'd timeline \<Rightarrow> 'd timeline" where
  "spec_undo m w =
     (case past w of [] \<Rightarrow> w | p # ps \<Rightarrow> Timeline ps p (take m (present w # future w)))"

definition spec_redo :: "nat \<Rightarrow> 'd timeline \<Rightarrow> 'd timeline" where
  "spec_redo m w =
     (case future w of [] \<Rightarrow> w | f # fs \<Rightarrow> Timeline (take m (present w # past w)) f fs)"

definition timeline_of :: "('s \<Rightarrow> 'd option) \<Rightarrow> 's \<Rightarrow> 'd history_manager \<Rightarrow> 'd timeline option" where
  "timeline_of get s m =
     map_option (\<lambda>d. Timeline (map he_snapshot (hm_undo m)) d (map he_snapshot (hm_redo m))) (get s)"

lemma spec_undo_length: "length (past (spec_undo m w)) = length (past w) - 1"
  by (simp add: spec_undo_def split: list.split)

text \<open>Undoing within the past and the bound walks back along the timeline, and redoing returns.\<close>

lemma spec_undo_n:
  assumes "k \<le> length (past w)" and "length (past w) + length (future w) \<le> m"
  shows "((spec_undo m) ^^ k) w = Timeline (drop k (past w))
           (if k = 0 then present w else past w ! (k - 1))
           (if k = 0 then future w else rev (take (k - 1) (past w)) @ present w # future w)"
  using assms
proof (induction k)
  case 0
  then show ?case by (cases w) simp
next
  case (Suc k)
  then have drop: "drop k (past w) = past w ! k # drop (Suc k) (past w)"
    by (simp add: Cons_nth_drop_Suc)
  show ?case
  proof (cases k)
    case 0
    with Suc.prems show ?thesis by (cases w; cases "past w") (auto simp: spec_undo_def)
  next
    case (Suc j)
    have "take (Suc j) (past w) = take j (past w) @ [past w ! j]"
      using Suc.prems Suc by (simp add: take_Suc_conv_app_nth)
    with Suc.IH Suc.prems Suc drop show ?thesis by (simp add: spec_undo_def)
  qed
qed

section \<open>What the manager relies on, and the refinement\<close>

text \<open>
  A change that the structural hash cannot see is not recorded: the specification replaces the present
  then and keeps past and future.
\<close>

definition spec_change :: "('d \<Rightarrow> int) \<Rightarrow> nat \<Rightarrow> 'd \<Rightarrow> 'd timeline \<Rightarrow> 'd timeline" where
  "spec_change hash m d w =
     (if hash (present w) = hash d then Timeline (past w) d (future w) else spec_do m d w)"

definition tracking :: "'d history_manager \<Rightarrow> bool" where
  "tracking m \<longleftrightarrow> hc_enabled (hm_config m) \<and> \<not> hm_restoring m"

definition bounded :: "'d history_manager \<Rightarrow> bool" where
  "bounded m \<longleftrightarrow> length (hm_undo m) \<le> hc_max_stack_size (hm_config m)
     \<and> length (hm_redo m) \<le> hc_max_stack_size (hm_config m)"

lemma record_change_simps [simp]:
  "hm_config (record_change e m) = hm_config m" "hm_restoring (record_change e m) = hm_restoring m"
  "hm_undo (record_change e m) = take (hc_max_stack_size (hm_config m)) (e # hm_undo m)"
  "hm_redo (record_change e m) = []" "hm_saved_hash (record_change e m) = hm_saved_hash m"
  by (simp_all add: record_change_def push_def)

lemma create_entry_simps [simp]:
  "he_snapshot (create_entry hash t d act desc node) = d" "he_hash (create_entry hash t d act desc node) = hash d"
  "he_description (create_entry hash t d act desc node) = desc"
  by (simp_all add: create_entry_def)

locale snapshots =
  fixes get :: "'s \<Rightarrow> 'd option"
    and restore :: "'d \<Rightarrow> 's \<Rightarrow> 's \<times> bool"
    and ok :: "'s \<Rightarrow> bool"
  assumes get_ok: "ok s \<Longrightarrow> get s \<noteq> None"
    and restore_ok: "ok s0 \<Longrightarrow> get s0 = Some d \<Longrightarrow> ok s \<Longrightarrow>
        \<exists>s'. restore d s = (s', True) \<and> ok s' \<and> get s' = Some d"
begin

definition stored :: "'d \<Rightarrow> bool" where
  "stored d \<longleftrightarrow> (\<exists>s. ok s \<and> get s = Some d)"

definition manager_ok :: "'d history_manager \<Rightarrow> bool" where
  "manager_ok m \<longleftrightarrow> tracking m \<and> bounded m \<and> (\<forall>e \<in> set (hm_undo m) \<union> set (hm_redo m). stored (he_snapshot e))"

definition refines :: "'s \<Rightarrow> 'd history_manager \<Rightarrow> 'd timeline \<Rightarrow> bool" where
  "refines s m w \<longleftrightarrow> ok s \<and> manager_ok m \<and> timeline_of get s m = Some w"

lemma storedI: "ok s \<Longrightarrow> get s = Some d \<Longrightarrow> stored d"
  by (auto simp: stored_def)

lemma restore_stored: "stored d \<Longrightarrow> ok s \<Longrightarrow> \<exists>s'. restore d s = (s', True) \<and> ok s' \<and> get s' = Some d"
  using restore_ok by (auto simp: stored_def)

lemma undo_refines:
  assumes "refines s m w"
  shows "\<exists>s' m' r. undo get restore hash t s m = (s', m', r) \<and> hm_config m' = hm_config m
    \<and> refines s' m' (spec_undo (hc_max_stack_size (hm_config m)) w)"
proof -
  obtain d where d: "get s = Some d" using get_ok assms by (auto simp: refines_def)
  show ?thesis
  proof (cases "hm_undo m")
    case Nil
    with assms d show ?thesis by (auto simp: undo_def refines_def timeline_of_def spec_undo_def)
  next
    case (Cons e rest)
    with assms have "stored (he_snapshot e)" "ok s" by (simp_all add: refines_def manager_ok_def)
    from restore_stored[OF this] obtain s' where s': "restore (he_snapshot e) s = (s', True)" "ok s'"
      "get s' = Some (he_snapshot e)" by blast
    with Cons d assms storedI[of s d] show ?thesis
      by (auto simp: undo_def refines_def timeline_of_def spec_undo_def manager_ok_def tracking_def bounded_def
          push_def Let_def take_map[symmetric] dest!: in_set_takeD)
  qed
qed

lemma redo_refines:
  assumes "refines s m w"
  shows "\<exists>s' m' r. redo get restore hash t s m = (s', m', r) \<and> hm_config m' = hm_config m
    \<and> refines s' m' (spec_redo (hc_max_stack_size (hm_config m)) w)"
proof -
  obtain d where d: "get s = Some d" using get_ok assms by (auto simp: refines_def)
  show ?thesis
  proof (cases "hm_redo m")
    case Nil
    with assms d show ?thesis by (auto simp: redo_def refines_def timeline_of_def spec_redo_def)
  next
    case (Cons e rest)
    with assms have "stored (he_snapshot e)" "ok s" by (simp_all add: refines_def manager_ok_def)
    from restore_stored[OF this] obtain s' where s': "restore (he_snapshot e) s = (s', True)" "ok s'"
      "get s' = Some (he_snapshot e)" by blast
    with Cons d assms storedI[of s d] show ?thesis
      by (auto simp: redo_def refines_def timeline_of_def spec_redo_def manager_ok_def tracking_def bounded_def
          push_def Let_def take_map[symmetric] dest!: in_set_takeD)
  qed
qed

lemma change_refines:
  assumes "refines s m w" and "ok (operation s)" and "get (operation s) = Some d"
  shows "\<exists>m'. execute_with_history get hash t True operation act desc node s m = (operation s, m')
    \<and> hm_config m' = hm_config m
    \<and> refines (operation s) m' (spec_change hash (hc_max_stack_size (hm_config m)) d w)"
proof -
  obtain pre where pre: "get s = Some pre" using get_ok assms by (auto simp: refines_def)
  have st: "stored pre" using assms(1) pre by (intro storedI[of s]) (simp_all add: refines_def)
  show ?thesis
    using assms pre st
    by (auto simp: execute_with_history_def capture_if_changed_def refines_def timeline_of_def spec_change_def
        spec_do_def manager_ok_def tracking_def bounded_def Let_def take_map[symmetric] dest!: in_set_takeD)
qed

end

section \<open>The visual groups as a snapshot source\<close>

definition get_groups :: "flow_graph \<Rightarrow> group list option" where
  "get_groups g = Some (dict_values (groups g))"

definition put_groups :: "group list \<Rightarrow> flow_graph \<Rightarrow> flow_graph \<times> bool" where
  "put_groups grs g = (restore_groups grs g, True)"

definition sized :: "flow_graph \<Rightarrow> bool" where
  "sized g \<longleftrightarrow> keyed (groups g) \<and> (\<forall>gr \<in> set (dict_values (groups g)). 0 < g_width gr \<and> 0 < g_height gr)"

lemma restore_groups_id:
  assumes s: "sized g0"
  shows "groups (restore_groups (dict_values (groups g0)) g) = groups g0"
proof -
  let ?gs = "groups g0"
  from s have k: "keyed ?gs" by (simp add: sized_def)
  note gs = rebuilt_registry[OF k]
  have "fold (\<lambda>i g. case dict_get (groups g) i of None \<Rightarrow> g
                 | Some gr \<Rightarrow> if g_width gr \<le> 0 \<or> g_height gr \<le> 0 then recompute_group_bounds (Some i) g else g) is g1
      = g1" if "groups g1 = ?gs" for g1 "is"
  proof -
    have pos: "0 < g_width gr \<and> 0 < g_height gr" if "dict_get ?gs i = Some gr" for i gr
      using s that by (force simp: sized_def dict_values_def dest: map_of_SomeD)
    show ?thesis using that
    proof (induction "is")
      case (Cons i "is")
      have "(case dict_get (groups g1) i of None \<Rightarrow> g1
          | Some gr \<Rightarrow> if g_width gr \<le> 0 \<or> g_height gr \<le> 0 then recompute_group_bounds (Some i) g1 else g1) = g1"
        using Cons.prems pos[of i] by (cases "dict_get ?gs i") (auto simp: not_le)
      with Cons show ?case by simp
    qed simp
  qed
  from this[of "g\<lparr>groups := ?gs, group_id_seq := (if ?gs = [] then 0 else Max (set (dict_keys ?gs)))\<rparr>"]
  show ?thesis by (simp add: restore_groups_def gs Let_def)
qed

interpretation group_snapshots: snapshots get_groups put_groups sized
proof
  fix s0 s d assume s0: "sized s0" "get_groups s0 = Some d" "sized s"
  then have "groups (restore_groups d s) = groups s0" using restore_groups_id by (auto simp: get_groups_def)
  with s0 show "\<exists>s'. put_groups d s = (s', True) \<and> sized s' \<and> get_groups s' = Some d"
    by (auto simp: put_groups_def sized_def get_groups_def)
qed (simp add: get_groups_def)

section \<open>Undo and redo of the visual groups\<close>

definition valid_groups :: "group list \<Rightarrow> bool" where
  "valid_groups grs \<longleftrightarrow> distinct (map g_id grs) \<and> (\<forall>gr \<in> set grs. 0 < g_width gr \<and> 0 < g_height gr)"

definition history_ok :: "group list history_manager \<Rightarrow> bool" where
  "history_ok m \<longleftrightarrow> tracking m \<and> bounded m \<and> (\<forall>e \<in> set (hm_undo m) \<union> set (hm_redo m). valid_groups (he_snapshot e))"

lemma stored_valid: "group_snapshots.stored grs \<longleftrightarrow> valid_groups grs"
proof
  assume "group_snapshots.stored grs"
  then obtain g where g: "sized g" "grs = dict_values (groups g)"
    by (auto simp: group_snapshots.stored_def get_groups_def)
  have "map g_id grs = map fst (groups g)"
    using g by (auto simp: sized_def keyed_def dict_values_def dict_get_in_iff)
  with g show "valid_groups grs" by (simp add: valid_groups_def sized_def keyed_def dict_ok_def)
next
  assume v: "valid_groups grs"
  let ?gs = "map (\<lambda>gr. (g_id gr, gr)) grs"
  let ?g = "(empty_graph [])\<lparr>groups := ?gs\<rparr>"
  have k: "dict_ok ?gs" using v by (simp add: dict_ok_def valid_groups_def o_def)
  have "\<forall>i gr. dict_get ?gs i = Some gr \<longrightarrow> g_id gr = i"
    using map_of_SomeD[of ?gs] by fastforce
  with k have "keyed ?gs" unfolding keyed_def by (rule conjI)
  moreover have vals: "dict_values ?gs = grs" by (simp add: dict_values_def o_def)
  ultimately have "sized ?g" "get_groups ?g = Some grs"
    using v by (simp_all add: sized_def get_groups_def valid_groups_def)
  then show "group_snapshots.stored grs" by (auto simp: group_snapshots.stored_def)
qed

lemma refines_groups:
  "group_snapshots.refines g m w \<longleftrightarrow> sized g \<and> history_ok m \<and> timeline_of get_groups g m = Some w"
  by (simp add: group_snapshots.refines_def group_snapshots.manager_ok_def history_ok_def stored_valid)


definition do_changes :: "(group list \<Rightarrow> int) \<Rightarrow> (flow_graph \<Rightarrow> flow_graph) list
    \<Rightarrow> flow_graph \<times> group list history_manager \<Rightarrow> flow_graph \<times> group list history_manager" where
  "do_changes hash ops gm =
     fold (\<lambda>op (g, m). execute_with_history get_groups hash 0 True op BATCH ''edit'' None g m) ops gm"

definition undo_once :: "(group list \<Rightarrow> int) \<Rightarrow> flow_graph \<times> group list history_manager \<Rightarrow> flow_graph \<times> group list history_manager" where
  "undo_once hash gm = (case gm of (g, m) \<Rightarrow> (case undo get_groups put_groups hash 0 g m of (g', m', _) \<Rightarrow> (g', m')))"

text \<open>The graphs that a list of operations goes through, the last one first.\<close>

fun trail :: "(flow_graph \<Rightarrow> flow_graph) list \<Rightarrow> flow_graph \<Rightarrow> flow_graph list" where
  "trail [] g = [g]"
| "trail (op # ops) g = trail ops (op g) @ [g]"

definition group_trail :: "(flow_graph \<Rightarrow> flow_graph) list \<Rightarrow> flow_graph \<Rightarrow> group list list" where
  "group_trail ops g = map (\<lambda>g. dict_values (groups g)) (trail ops g)"

lemma trail_length: "length (trail ops g) = Suc (length ops)"
  by (induction ops arbitrary: g) simp_all

lemma trail_hd: "hd (trail ops g) = fold (\<lambda>op g. op g) ops g"
proof (induction ops arbitrary: g)
  case (Cons op ops)
  have "trail ops (op g) \<noteq> []" using trail_length[of ops "op g"] by auto
  with Cons show ?case by simp
qed simp

definition visible :: "(group list \<Rightarrow> int) \<Rightarrow> group list list \<Rightarrow> bool" where
  "visible hash ds \<longleftrightarrow> (\<forall>i. Suc i < length ds \<longrightarrow> hash (ds ! Suc i) \<noteq> hash (ds ! i))"

lemma do_changes_refines:
  assumes "group_snapshots.refines g m (Timeline ps (dict_values (groups g)) fs)"
    and "\<forall>x \<in> set (trail ops g). sized x" and "visible hash (group_trail ops g)"
    and "length ps + length ops \<le> hc_max_stack_size (hm_config m)"
  shows "case do_changes hash ops (g, m) of (g', m') \<Rightarrow> hm_config m' = hm_config m
    \<and> group_snapshots.refines g' m'
        (Timeline (tl (group_trail ops g) @ ps) (hd (group_trail ops g)) (if ops = [] then fs else []))"
  using assms
proof (induction ops arbitrary: g m ps fs)
  case Nil
  then show ?case by (simp add: do_changes_def group_trail_def)
next
  case (Cons op ops)
  let ?d = "dict_values (groups (op g))"
  have ne: "trail ops (op g) \<noteq> []" using trail_length[of ops "op g"] by auto
  have nth: "group_trail (op # ops) g = group_trail ops (op g) @ [dict_values (groups g)]"
    by (simp add: group_trail_def)
  have len: "length (group_trail ops (op g)) = Suc (length ops)" by (simp add: group_trail_def trail_length)
  have last: "group_trail ops (op g) ! length ops = ?d"
    by (cases ops) (simp_all add: group_trail_def nth_append trail_length)
  have sz: "sized (op g)"
  proof -
    have "op g \<in> set (trail ops (op g))" by (cases ops) simp_all
    with Cons.prems(2) show ?thesis by simp
  qed
  have h: "hash (dict_values (groups g)) \<noteq> hash ?d"
    using Cons.prems(3) last len unfolding visible_def nth
    by (auto simp: nth_append dest!: spec[of _ "length ops"])
  have vis: "visible hash (group_trail ops (op g))"
    unfolding visible_def
  proof (intro allI impI)
    fix i assume i: "Suc i < length (group_trail ops (op g))"
    then have "hash (group_trail (op # ops) g ! Suc i) \<noteq> hash (group_trail (op # ops) g ! i)"
      using Cons.prems(3) len unfolding visible_def nth by simp
    with i show "hash (group_trail ops (op g) ! Suc i) \<noteq> hash (group_trail ops (op g) ! i)"
      unfolding nth by (simp add: nth_append)
  qed
  from group_snapshots.change_refines[OF Cons.prems(1), of op ?d hash 0 BATCH "''edit''" None] sz
  obtain m1 where m1: "execute_with_history get_groups hash 0 True op BATCH ''edit'' None g m = (op g, m1)"
    "hm_config m1 = hm_config m"
    "group_snapshots.refines (op g) m1 (Timeline (dict_values (groups g) # ps) ?d [])"
    using h Cons.prems(4) by (auto simp: get_groups_def spec_change_def spec_do_def)
  have "case do_changes hash ops (op g, m1) of (g', m') \<Rightarrow> hm_config m' = hm_config m1
    \<and> group_snapshots.refines g' m'
        (Timeline (tl (group_trail ops (op g)) @ dict_values (groups g) # ps) (hd (group_trail ops (op g))) [])"
    using Cons.IH[OF m1(3) _ vis] Cons.prems(2,4) m1(2) by (auto split: if_splits)
  moreover have "group_trail ops (op g) \<noteq> []" using ne by (simp add: group_trail_def)
  ultimately show ?case using m1(1,2) by (simp add: do_changes_def nth)
qed

lemma undo_once_refines:
  assumes "group_snapshots.refines g m w"
  shows "case (undo_once hash ^^ k) (g, m) of (g', m') \<Rightarrow> hm_config m' = hm_config m
    \<and> group_snapshots.refines g' m' ((spec_undo (hc_max_stack_size (hm_config m)) ^^ k) w)"
proof (induction k)
  case (Suc k)
  obtain g1 m1 where k: "(undo_once hash ^^ k) (g, m) = (g1, m1)" by fastforce
  with Suc have "hm_config m1 = hm_config m"
    and r: "group_snapshots.refines g1 m1 ((spec_undo (hc_max_stack_size (hm_config m)) ^^ k) w)" by simp_all
  from group_snapshots.undo_refines[OF r, of hash 0] obtain g2 m2 x where
    u: "undo get_groups put_groups hash 0 g1 m1 = (g2, m2, x)" "hm_config m2 = hm_config m1"
    "group_snapshots.refines g2 m2 (spec_undo (hc_max_stack_size (hm_config m1))
       ((spec_undo (hc_max_stack_size (hm_config m)) ^^ k) w))" by blast
  have "(undo_once hash ^^ Suc k) (g, m) = (g2, m2)" using k u(1) by (simp add: undo_once_def)
  with u \<open>hm_config m1 = hm_config m\<close> show ?case by simp
qed (simp add: assms)

text \<open>
  Undo really goes back: after any number of tracked operations on the groups that fit into the
  stack and that the structural hash can tell apart, \<open>k\<close> undos restore exactly the groups as they were
  \<open>k\<close> operations earlier.
\<close>
theorem undo_walks_back:
  assumes "hc_enabled c" and "length ops \<le> hc_max_stack_size c" and "k \<le> length ops"
    and "\<forall>x \<in> set (trail ops g). sized x" and "visible hash (group_trail ops g)"
  shows "dict_values (groups (fst ((undo_once hash ^^ k) (do_changes hash ops (g, history0 c)))))
    = group_trail ops g ! k"
proof -
  have "sized g" using assms(4) by (cases ops) simp_all
  then have r0: "group_snapshots.refines g (history0 c) (Timeline [] (dict_values (groups g)) [])"
    using assms(1) by (simp add: refines_groups history_ok_def tracking_def bounded_def history0_def timeline_of_def get_groups_def)
  obtain g1 m1 where m1: "do_changes hash ops (g, history0 c) = (g1, m1)" by fastforce
  from do_changes_refines[OF r0 assms(4,5)] assms(2) m1
  have r1: "hm_config m1 = c" "group_snapshots.refines g1 m1 (Timeline (tl (group_trail ops g)) (hd (group_trail ops g)) [])"
    by (auto simp: history0_def split: if_splits)
  obtain g2 m2 where m2: "(undo_once hash ^^ k) (g1, m1) = (g2, m2)" by fastforce
  let ?w = "Timeline (tl (group_trail ops g)) (hd (group_trail ops g)) []"
  have len: "length (group_trail ops g) = Suc (length ops)" by (simp add: group_trail_def trail_length)
  from undo_once_refines[where hash = hash and k = k, OF r1(2)] m2 r1(1)
  have "timeline_of get_groups g2 m2 = Some ((spec_undo (hc_max_stack_size c) ^^ k) ?w)"
    by (simp add: refines_groups)
  then have "dict_values (groups g2) = present ((spec_undo (hc_max_stack_size c) ^^ k) ?w)"
    by (auto simp: timeline_of_def get_groups_def dest!: arg_cong[where f = present])
  also have "\<dots> = group_trail ops g ! k"
    using spec_undo_n[of k ?w "hc_max_stack_size c"] assms(2,3) len
    by (cases "group_trail ops g"; cases k) auto
  finally show ?thesis by (simp add: m1 m2)
qed

section \<open>Concrete histories\<close>

definition group_count :: "group list \<Rightarrow> int" where
  "group_count grs = int (length grs)"

definition edit_ops :: "(flow_graph \<Rightarrow> flow_graph) list" where
  "edit_ops = [\<lambda>g. snd (create_group ''inner'' [2] None None None [] g), \<lambda>g. snd (create_group ''outer'' [3] None None None [1] g)]"

lemma sized_edits: "\<forall>x \<in> set (trail edit_ops chain_graph). sized x"
proof -
  let ?g1 = "snd (create_group ''inner'' [2] None None None [] chain_graph)"
  let ?g2 = "snd (create_group ''outer'' [3] None None None [1] ?g1)"
  have "groups_ok ?g1" by (rule groups_ok_create[OF groups_ok_chain _ surjective_pairing]) simp
  then have k: "keyed (groups ?g1)" by (simp add: groups_ok_def)
  have "groups_ok ?g2" by (rule groups_ok_create[OF \<open>groups_ok ?g1\<close> _ surjective_pairing]) simp
  then have k2: "keyed (groups ?g2)" by (simp add: groups_ok_def)
  have k0: "keyed (groups chain_graph)" using groups_ok_chain by (simp add: groups_ok_def)
  have "\<forall>gr \<in> set (dict_values (groups chain_graph)). 0 < g_width gr \<and> 0 < g_height gr"
    "\<forall>gr \<in> set (dict_values (groups ?g1)). 0 < g_width gr \<and> 0 < g_height gr"
    "\<forall>gr \<in> set (dict_values (groups ?g2)). 0 < g_width gr \<and> 0 < g_height gr"
    by code_simp+
  with k0 k k2 show ?thesis by (simp add: edit_ops_def sized_def)
qed


lemma undo_walks_back_witness:
  "map g_name (dict_values (groups (fst ((undo_once group_count ^^ 1)
     (do_changes group_count edit_ops (chain_graph, history0 history_config0)))))) = [''inner'']"
proof -
  have vis: "visible group_count (group_trail edit_ops chain_graph)"
  proof -
    have "map group_count (group_trail edit_ops chain_graph) = [2, 1, 0]" by code_simp
    then have "length (group_trail edit_ops chain_graph) = 3"
      and "\<And>i. i < 3 \<Longrightarrow> group_count (group_trail edit_ops chain_graph ! i) = [2, 1, 0] ! i"
      by (auto simp: map_eq_Cons_conv nth_Cons' dest: map_eq_imp_length_eq)
    then show ?thesis by (auto simp: visible_def nth_Cons' less_Suc_eq numeral_3_eq_3)
  qed
  have "map g_name (group_trail edit_ops chain_graph ! 1) = [''inner'']" by code_simp
  moreover have "hc_enabled history_config0" "length edit_ops \<le> hc_max_stack_size history_config0" "1 \<le> length edit_ops"
    by code_simp+
  ultimately show ?thesis using undo_walks_back[OF _ _ _ sized_edits vis, of history_config0 1] by simp
qed

text \<open>
  Undo and redo do not touch the dirty flag. After a save, undoing a change leaves
  \<open>has_unsaved_changes\<close> at False although the flow is no longer the one that was saved.
\<close>
theorem undo_after_save_reports_clean:
  "let (g1, m1) = do_changes group_count edit_ops (chain_graph, history0 history_config0);
       (g2, m2) = undo_once group_count (g1, mark_saved get_groups group_count g1 m1)
   in get_groups g2 \<noteq> get_groups g1 \<and> \<not> has_unsaved_changes get_groups (\<lambda>_. True) g2 m2"
  by code_simp

end
