(* ===== verification/Node_Executor.thy ===== *)
theory Node_Executor
  imports Graph_Edit
begin

text \<open>
  Executing one node: \<open>flow_node/executor.py\<close> (\<open>NodeExecutor\<close>) and the execution methods of
  \<open>flow_node/flow_node.py\<close> it calls (\<open>get_resulting_data\<close>, \<open>_do_execute_*\<close>, \<open>execute_node\<close>).

  What lies outside is the record \<open>exec_env\<close>: the functions of the nodes, the schema of a data object,
  the worker process (reading a cached result, sampling, fetching), the node defaults and \<open>os.stat\<close>.
  A raised exception is its text. The worker's cache is the set of hashes it holds a result for; fetching
  a result stores it there under its hash. Locks, logging and the multi-output handles are not
  modelled.

  \<open>ee_fuel\<close> bounds the recursion of hashing, resetting and reading results; the second fuel of
  \<open>execute\<close> bounds the retries, which climb to the inputs. \<open>execute_node_returns\<close> shows how much is enough.
\<close>

datatype fetch_failure = WorkerKilled | Described string | Undescribed string

record exec_env =
  ee_digest :: "pyval \<Rightarrow> string"
  ee_fuel :: nat
  ee_fn :: "flow_node \<Rightarrow> obj option list \<Rightarrow> string + obj"
  ee_schema :: "obj \<Rightarrow> schema"
  ee_empty :: obj
  ee_cached :: "string \<Rightarrow> string + obj"
  ee_sampler :: "string \<Rightarrow> string option"
  ee_fetch :: "string \<Rightarrow> obj \<Rightarrow> fetch_failure + obj"
  ee_transform :: "string \<Rightarrow> string option"
  ee_stat :: stat_fun

record world =
  wd_heap :: heap
  wd_cache :: "string set"

datatype run_location = Local | Remote

section \<open>Updates of one node\<close>

definition upd_state :: "addr \<Rightarrow> (exec_state \<Rightarrow> exec_state) \<Rightarrow> heap \<Rightarrow> heap" where
  "upd_state a f = upd_node a (\<lambda>nd. nd\<lparr>execution_state := f (execution_state nd)\<rparr>)"

definition upd_results :: "addr \<Rightarrow> (node_results \<Rightarrow> node_results) \<Rightarrow> heap \<Rightarrow> heap" where
  "upd_results a f = upd_node a (\<lambda>nd. nd\<lparr>results := f (results nd)\<rparr>)"

definition upd_stats :: "addr \<Rightarrow> (step_stats \<Rightarrow> step_stats) \<Rightarrow> heap \<Rightarrow> heap" where
  "upd_stats a f = upd_node a (\<lambda>nd. nd\<lparr>node_stats := f (node_stats nd)\<rparr>)"

definition set_result_schema :: "addr \<Rightarrow> schema \<Rightarrow> heap \<Rightarrow> heap" where
  "set_result_schema a s = upd_node a (\<lambda>nd. nd\<lparr>node_result_schema := Some s\<rparr>)"

definition res_data :: "heap \<Rightarrow> addr \<Rightarrow> obj option" where
  "res_data h a = (case h a of None \<Rightarrow> None | Some nd \<Rightarrow> r_resulting_data (results nd))"

definition res_errors :: "heap \<Rightarrow> addr \<Rightarrow> string option" where
  "res_errors h a = (case h a of None \<Rightarrow> None | Some nd \<Rightarrow> r_errors (results nd))"

definition stats_canceled :: "heap \<Rightarrow> addr \<Rightarrow> bool" where
  "stats_canceled h a = (case h a of None \<Rightarrow> False | Some nd \<Rightarrow> stat_canceled (node_stats nd))"

definition clear_table_example :: "node_results \<Rightarrow> node_results" where
  "clear_table_example r = r\<lparr>r_example_data := None, r_example_data_generator := None, r_example_data_path := None\<rparr>"

section \<open>Results\<close>

definition fail_results :: "exec_env \<Rightarrow> addr \<Rightarrow> string \<Rightarrow> heap \<Rightarrow> heap" where
  "fail_results E a e h =
     upd_stats a (\<lambda>s. (set_stat_has_run False s)\<lparr>stat_completed := False\<rparr>)
       (upd_results a (\<lambda>r. r\<lparr>r_resulting_data := Some (ee_empty E), r_errors := Some e\<rparr>) h)"

definition store_result :: "exec_env \<Rightarrow> addr \<Rightarrow> obj \<Rightarrow> heap \<Rightarrow> heap" where
  "store_result E a x h =
     set_result_schema a (ee_schema E x) (upd_results a (\<lambda>r. r\<lparr>r_resulting_data := Some x\<rparr>) h)"

text \<open>\<open>get_resulting_data\<close> of the nodes of a list, in order; the first exception ends the list.\<close>

fun results_all :: "exec_env \<Rightarrow> nat \<Rightarrow> heap \<Rightarrow> addr list \<Rightarrow> (heap \<times> (string + obj option list)) option" where
  "results_all E n h [] = Some (h, Inr [])"
| "results_all E 0 h (a # as) = None"
| "results_all E (Suc n) h (a # as) =
     (let h0 = upd_node a set_is_setup h
      in case h0 a of
           None \<Rightarrow> None
         | Some nd \<Rightarrow>
             (case (if \<not> info_is_setup nd then Some (h0, Inr None)
                    else if r_resulting_data (results nd) \<noteq> None \<or> r_errors (results nd) \<noteq> None
                      then Some (h0, Inr (r_resulting_data (results nd)))
                    else if is_canceled (execution_state nd)
                      then Some (fail_results E a ''Node execution canceled'' h0, Inl ''Node execution canceled'')
                    else (case results_all E n h0 (get_all_inputs nd) of
                            None \<Rightarrow> None
                          | Some (h1, Inl e) \<Rightarrow> Some (fail_results E a e h1, Inl e)
                          | Some (h1, Inr xs) \<Rightarrow>
                              (case ee_fn E nd xs of
                                 Inl e \<Rightarrow> Some (fail_results E a e h1, Inl e)
                               | Inr x \<Rightarrow> Some (store_result E a x h1, Inr (Some x))))) of
                None \<Rightarrow> None
              | Some (h1, Inl e) \<Rightarrow> Some (h1, Inl e)
              | Some (h1, Inr r) \<Rightarrow>
                  (case results_all E (Suc n) h1 as of
                     None \<Rightarrow> None
                   | Some (h2, Inl e) \<Rightarrow> Some (h2, Inl e)
                   | Some (h2, Inr rs) \<Rightarrow> Some (h2, Inr (r # rs)))))"

definition get_resulting_data :: "exec_env \<Rightarrow> addr \<Rightarrow> heap \<Rightarrow> (heap \<times> (string + obj option)) option" where
  "get_resulting_data E a h = map_option (map_prod id (map_sum id hd)) (results_all E (ee_fuel E) h [a])"

section \<open>Execution methods of a node\<close>

text \<open>A step of the execution changes the world and returns or raises.\<close>

type_synonym outcome = "string option"

definition do_execute_full_local :: "exec_env \<Rightarrow> bool \<Rightarrow> addr \<Rightarrow> heap \<Rightarrow> (heap \<times> outcome) option" where
  "do_execute_full_local E perf a h =
     (case get_resulting_data E a (upd_results a clear_table_example h) of
        None \<Rightarrow> None
      | Some (h1, Inl e) \<Rightarrow> Some (h1, Some e)
      | Some (h1, Inr r) \<Rightarrow>
          if perf then Some (h1, None)
          else (let h2 = upd_results a (\<lambda>x. x\<lparr>r_example_data_generator := r\<rparr>) (upd_stats a (set_stat_has_run True) h1)
                in case res_data h2 a of
                     None \<Rightarrow> Some (h2, Some ''AttributeError'')
                   | Some x \<Rightarrow> Some (upd_stats a (\<lambda>s. s\<lparr>stat_completed := True\<rparr>) (set_result_schema a (ee_schema E x) h2), None)))"

definition fail_sampling :: "addr \<Rightarrow> string \<Rightarrow> heap \<Rightarrow> heap" where
  "fail_sampling a e h =
     upd_stats a (\<lambda>s. (set_stat_has_run False s)\<lparr>stat_completed := False\<rparr>) (upd_results a (\<lambda>r. r\<lparr>r_errors := Some e\<rparr>) h)"

definition store_example :: "string \<Rightarrow> node_results \<Rightarrow> node_results" where
  "store_example ref r = r\<lparr>r_example_data_path := Some ref, r_example_data_generator := r_resulting_data r\<rparr>"

definition do_execute_local_with_sampling :: "exec_env \<Rightarrow> bool \<Rightarrow> addr \<Rightarrow> heap \<Rightarrow> (heap \<times> outcome) option" where
  "do_execute_local_with_sampling E perf a h =
     (case get_resulting_data E a h of
        None \<Rightarrow> None
      | Some (h1, Inl e) \<Rightarrow> Some (fail_sampling a e h1, Some e)
      | Some (h1, Inr None) \<Rightarrow> Some (fail_sampling a ''AttributeError'' h1, Some ''AttributeError'')
      | Some (h1, Inr (Some x)) \<Rightarrow>
          if perf then Some (set_result_schema a (ee_schema E x) h1, None)
          else (case hash_all (ee_digest E) (ee_fuel E) h1 [a] of
                  None \<Rightarrow> None
                | Some (hs, h2) \<Rightarrow>
                    (case ee_sampler E (hd hs) of
                       Some e \<Rightarrow> Some (fail_sampling a e h2, Some e)
                     | None \<Rightarrow>
                         (let h3 = upd_results a (store_example (hd hs)) h2;
                              h4 = (if res_errors h3 a = None \<and> \<not> stats_canceled h3 a
                                    then upd_stats a (set_stat_has_run True) h3 else h3)
                          in Some (set_result_schema a (ee_schema E x) h4, None)))))"

definition lazy_frame_error :: string where
  "lazy_frame_error = ''Error with creating the lazy frame, most likely due to invalid graph''"

definition fetch_remote :: "exec_env \<Rightarrow> addr \<Rightarrow> obj \<Rightarrow> world \<Rightarrow> (world \<times> outcome) option" where
  "fetch_remote E a x w =
     (case hash_all (ee_digest E) (ee_fuel E) (wd_heap w) [a] of
        None \<Rightarrow> None
      | Some (hs, h) \<Rightarrow>
          (case ee_fetch E (hd hs) x of
             Inr lf \<Rightarrow>
               Some (\<lparr>wd_heap = upd_stats a (set_stat_has_run True)
                        (upd_results a (\<lambda>r. store_example (hd hs) (r\<lparr>r_resulting_data := Some lf\<rparr>)) h),
                      wd_cache = insert (hd hs) (wd_cache w)\<rparr>, None)
           | Inl WorkerKilled \<Rightarrow>
               Some (w\<lparr>wd_heap := upd_results a (\<lambda>r. r\<lparr>r_warnings := Some ''Error with external process''\<rparr>) h\<rparr>, None)
           | Inl (Described d) \<Rightarrow> Some (w\<lparr>wd_heap := upd_results a (\<lambda>r. r\<lparr>r_errors := Some d\<rparr>) h\<rparr>, Some d)
           | Inl (Undescribed e) \<Rightarrow> Some (w\<lparr>wd_heap := upd_results a (\<lambda>r. r\<lparr>r_errors := Some e\<rparr>) h\<rparr>, Some e)))"

definition compute_remote :: "exec_env \<Rightarrow> bool \<Rightarrow> addr \<Rightarrow> world \<Rightarrow> (world \<times> outcome) option" where
  "compute_remote E perf a w =
     (case wd_heap w a of
        None \<Rightarrow> None
      | Some nd \<Rightarrow>
          if node_type nd = ''output'' \<or> node_type nd = ''api_response'' then
            (case get_resulting_data E a (wd_heap w) of
               None \<Rightarrow> None
             | Some (h, Inl e) \<Rightarrow> Some (w\<lparr>wd_heap := h\<rparr>, Some e)
             | Some (h, Inr r) \<Rightarrow>
                 Some (w\<lparr>wd_heap := upd_stats a (set_stat_has_run True) (upd_results a (\<lambda>x. x\<lparr>r_resulting_data := r\<rparr>) h)\<rparr>, None))
          else
            (let failed = (\<lambda>h e. Some (w\<lparr>wd_heap := upd_results a (\<lambda>r. r\<lparr>r_errors := Some lazy_frame_error\<rparr>) h\<rparr>, Some e))
             in case get_resulting_data E a (wd_heap w) of
                  None \<Rightarrow> None
                | Some (h, Inl e) \<Rightarrow> failed h e
                | Some (h, Inr None) \<Rightarrow> failed h ''get_resulting_data returned None''
                | Some (h, Inr (Some x)) \<Rightarrow>
                    if perf then Some (w\<lparr>wd_heap := h\<rparr>, None) else fetch_remote E a x (w\<lparr>wd_heap := h\<rparr>)))"

definition do_execute_remote :: "exec_env \<Rightarrow> bool \<Rightarrow> addr \<Rightarrow> world \<Rightarrow> (world \<times> outcome) option" where
  "do_execute_remote E perf a w =
     (case wd_heap w a of
        None \<Rightarrow> None
      | Some nd \<Rightarrow>
          if \<not> cache_results nd then compute_remote E perf a w
          else (case hash_all (ee_digest E) (ee_fuel E) (wd_heap w) [a] of
                  None \<Rightarrow> None
                | Some (hs, h) \<Rightarrow>
                    (if hd hs \<in> wd_cache w then
                       (case ee_cached E (hd hs) of
                          Inr x \<Rightarrow> Some (w\<lparr>wd_heap := upd_results a (\<lambda>r. r\<lparr>r_resulting_data := Some x\<rparr>) h\<rparr>, None)
                        | Inl _ \<Rightarrow> compute_remote E perf a (w\<lparr>wd_heap := h\<rparr>))
                     else compute_remote E perf a (w\<lparr>wd_heap := h\<rparr>))))"

definition remove_cache :: "exec_env \<Rightarrow> addr \<Rightarrow> world \<Rightarrow> world option" where
  "remove_cache E a w =
     (case hash_all (ee_digest E) (ee_fuel E) (wd_heap w) [a] of
        None \<Rightarrow> None
      | Some (hs, h) \<Rightarrow> Some \<lparr>wd_heap = h, wd_cache = wd_cache w - {hd hs}\<rparr>)"

definition needs_run :: "exec_env \<Rightarrow> bool \<Rightarrow> run_location \<Rightarrow> addr \<Rightarrow> world \<Rightarrow> (world \<times> bool) option" where
  "needs_run E perf loc a w =
     (if loc = Local then Some (w, False)
      else case hash_all (ee_digest E) (ee_fuel E) (wd_heap w) [a] of
             None \<Rightarrow> None
           | Some (hs, h) \<Rightarrow>
               (case h a of
                  None \<Rightarrow> None
                | Some nd \<Rightarrow>
                    (let cached = hd hs \<in> wd_cache w
                     in Some (w\<lparr>wd_heap := h\<rparr>,
                          if \<not> stat_has_run (node_stats nd) then True
                          else if cache_results nd \<and> cached then False
                          else if cache_results nd \<and> \<not> cached then True
                          else if \<not> perf \<and> cached then False
                          else True))))"

section \<open>The executor\<close>

text \<open>The default state provider: the state lives on the node.\<close>

definition provider_get :: "addr \<Rightarrow> heap \<Rightarrow> exec_state" where
  "provider_get a h = (case h a of None \<Rightarrow> exec_state0 | Some nd \<Rightarrow> execution_state nd)"

definition provider_save :: "addr \<Rightarrow> exec_state \<Rightarrow> heap \<Rightarrow> heap" where
  "provider_save a st h = h"

definition determine_strategy :: "exec_env \<Rightarrow> run_location \<Rightarrow> flow_node \<Rightarrow> execution_strategy" where
  "determine_strategy E loc nd =
     (if loc = Local then FULL_LOCAL
      else if node_type nd \<in> {''spatial_read'', ''spatial_join'', ''buffer_geometry''} then FULL_LOCAL
      else if cache_results nd then REMOTE
      else if ee_transform E (node_type nd) = Some ''narrow'' then LOCAL_WITH_SAMPLING
      else REMOTE)"

definition get_source_path :: "node_setting option \<Rightarrow> string option" where
  "get_source_path so =
     (case so of
        None \<Rightarrow> None
      | Some s \<Rightarrow>
          (case dict_get (s_fields s) ''received_file'' of
             Some (PModel fs) \<Rightarrow>
               (case dict_get fs ''abs_file_path'' of
                  Some (PStr (c # cs)) \<Rightarrow> Some (c # cs)
                | _ \<Rightarrow> (case dict_get fs ''path'' of Some (PStr p) \<Rightarrow> Some p | _ \<Rightarrow> None))
           | _ \<Rightarrow> None))"

definition source_file_changed :: "exec_env \<Rightarrow> flow_node \<Rightarrow> bool" where
  "source_file_changed E nd =
     (if node_type nd \<noteq> ''read'' then False
      else case get_source_path (setting_input nd) of
             None \<Rightarrow> False
           | Some p \<Rightarrow>
               if p = [] then False
               else (case source_file_info (execution_state nd) of
                       None \<Rightarrow> False | Some f \<Rightarrow> has_changed (ee_stat E) f))"

definition run_it :: "execution_strategy \<Rightarrow> invalidation_reason \<Rightarrow> execution_decision" where
  "run_it st r = \<lparr>should_run = True, strategy = st, reason = Some r\<rparr>"

definition skip_it :: execution_decision where
  "skip_it = \<lparr>should_run = False, strategy = SKIP, reason = None\<rparr>"

definition decide_execution ::
  "exec_env \<Rightarrow> run_location \<Rightarrow> bool \<Rightarrow> bool \<Rightarrow> addr \<Rightarrow> world \<Rightarrow> (world \<times> execution_decision) option" where
  "decide_execution E loc perf force a w =
     (case wd_heap w a of
        None \<Rightarrow> None
      | Some nd \<Rightarrow>
          (let st = determine_strategy E loc nd
           in if t_node_group (node_template nd) = ''output'' then Some (w, run_it st OUTPUT_NODE)
              else if force then Some (w, run_it st FORCED_REFRESH)
              else if cache_results nd then
                (case hash_all (ee_digest E) (ee_fuel E) (wd_heap w) [a] of
                   None \<Rightarrow> None
                 | Some (hs, h) \<Rightarrow>
                     Some (w\<lparr>wd_heap := h\<rparr>, if hd hs \<in> wd_cache w then skip_it else run_it st CACHE_MISSING))
              else if perf then Some (w, run_it st PERFORMANCE_MODE)
              else if \<not> has_run_with_current_setup (execution_state nd) then Some (w, run_it st NEVER_RAN)
              else if source_file_changed E nd then Some (w, run_it st SOURCE_FILE_CHANGED)
              else Some (w, skip_it)))"

definition widen :: "exec_env \<Rightarrow> run_location \<Rightarrow> bool \<Rightarrow> flow_node \<Rightarrow> execution_decision \<Rightarrow> execution_decision" where
  "widen E loc optimize nd d =
     (if should_run d \<and> strategy d = LOCAL_WITH_SAMPLING \<and> ee_transform E (node_type nd) = Some ''wide''
         \<and> optimize \<and> loc \<noteq> Local
      then d\<lparr>strategy := REMOTE\<rparr> else d)"

definition do_full_local :: "exec_env \<Rightarrow> bool \<Rightarrow> addr \<Rightarrow> world \<Rightarrow> (world \<times> outcome) option" where
  "do_full_local E perf a w =
     (case do_execute_full_local E perf a (wd_heap w) of
        None \<Rightarrow> None
      | Some (h, Some e) \<Rightarrow> Some (w\<lparr>wd_heap := h\<rparr>, Some e)
      | Some (h, None) \<Rightarrow>
          if perf then Some (w\<lparr>wd_heap := h\<rparr>, None)
          else Some (w\<lparr>wd_heap := upd_state a (\<lambda>s. case res_data h a of None \<Rightarrow> mark_successful s
                       | Some x \<Rightarrow> (mark_successful s)\<lparr>st_result_schema := Some (ee_schema E x)\<rparr>) h\<rparr>, None))"

definition do_local_with_sampling :: "exec_env \<Rightarrow> bool \<Rightarrow> addr \<Rightarrow> world \<Rightarrow> (world \<times> outcome) option" where
  "do_local_with_sampling E perf a w =
     (case do_execute_local_with_sampling E perf a (wd_heap w) of
        None \<Rightarrow> None
      | Some (h, Some e) \<Rightarrow> Some (w\<lparr>wd_heap := h\<rparr>, Some e)
      | Some (h, None) \<Rightarrow>
          (let h1 = (case res_data h a of None \<Rightarrow> h
                     | Some x \<Rightarrow> upd_state a (\<lambda>s. s\<lparr>st_result_schema := Some (ee_schema E x)\<rparr>) h)
           in Some (w\<lparr>wd_heap := (if res_errors h a = None \<and> \<not> stats_canceled h a
                                  then upd_state a mark_successful h1 else h1)\<rparr>, None)))"

definition do_remote :: "exec_env \<Rightarrow> bool \<Rightarrow> addr \<Rightarrow> world \<Rightarrow> (world \<times> outcome) option" where
  "do_remote E perf a w =
     (case do_execute_remote E perf a w of
        None \<Rightarrow> None
      | Some (w1, Some e) \<Rightarrow> Some (w1, Some e)
      | Some (w1, None) \<Rightarrow>
          (case res_data (wd_heap w1) a of
             None \<Rightarrow> Some (w1, None)
           | Some x \<Rightarrow> Some (w1\<lparr>wd_heap := upd_state a (\<lambda>s. mark_successful (s\<lparr>st_result_schema := Some (ee_schema E x)\<rparr>))
                         (wd_heap w1)\<rparr>, None)))"

definition execute_with_strategy ::
  "exec_env \<Rightarrow> execution_strategy \<Rightarrow> bool \<Rightarrow> addr \<Rightarrow> world \<Rightarrow> (world \<times> outcome) option" where
  "execute_with_strategy E st perf a w =
     (case st of
        SKIP \<Rightarrow> Some (w, None)
      | FULL_LOCAL \<Rightarrow> do_full_local E perf a w
      | LOCAL_WITH_SAMPLING \<Rightarrow> do_local_with_sampling E perf a w
      | REMOTE \<Rightarrow> do_remote E perf a w)"

definition update_source_file_info :: "exec_env \<Rightarrow> addr \<Rightarrow> heap \<Rightarrow> heap" where
  "update_source_file_info E a h =
     (case h a of
        None \<Rightarrow> h
      | Some nd \<Rightarrow>
          if node_type nd \<noteq> ''read'' then h
          else (case get_source_path (setting_input nd) of
                  None \<Rightarrow> h
                | Some p \<Rightarrow> if p = [] then h
                            else upd_state a (\<lambda>s. s\<lparr>source_file_info := source_from_path (ee_stat E) p\<rparr>) h))"

definition prepare_for_execution :: "addr \<Rightarrow> heap \<Rightarrow> heap" where
  "prepare_for_execution a h =
     upd_results a (\<lambda>r. (clear_table_example r)\<lparr>r_errors := None, r_resulting_data := None, r_example_data := None\<rparr>)
       (upd_state a (\<lambda>s. (reset_results_only s)\<lparr>is_canceled := False\<rparr>) h)"

definition clear_cache :: "exec_env \<Rightarrow> addr \<Rightarrow> world \<Rightarrow> world option" where
  "clear_cache E a w =
     map_option (\<lambda>w1. w1\<lparr>wd_heap := upd_state a (\<lambda>s. s\<lparr>has_run_with_current_setup := False,
         has_completed_last_run := False\<rparr>) (wd_heap w1)\<rparr>) (remove_cache E a w)"

definition sync_state_to_legacy :: "addr \<Rightarrow> heap \<Rightarrow> heap" where
  "sync_state_to_legacy a h =
     (let st = provider_get a h
      in upd_stats a (\<lambda>s. s\<lparr>stat_has_run := has_run_with_current_setup st, stat_completed := has_completed_last_run st,
           stat_canceled := is_canceled st, stat_error := st_error st\<rparr>) h)"

definition prefix_of :: "string \<Rightarrow> string \<Rightarrow> bool" where
  "prefix_of p s \<longleftrightarrow> take (length p) s = p"

fun contains_text :: "string \<Rightarrow> string \<Rightarrow> bool" where
  "contains_text p [] = (p = [])"
| "contains_text p (c # cs) = (prefix_of p (c # cs) \<or> contains_text p cs)"

definition missing_file :: string where
  "missing_file = ''No such file or directory (os error''"

definition record_failure :: "addr \<Rightarrow> string \<Rightarrow> heap \<Rightarrow> heap" where
  "record_failure a e h =
     upd_results a (\<lambda>r. r\<lparr>r_errors := Some e\<rparr>) (sync_state_to_legacy a (upd_state a (mark_failed e) h))"

text \<open>
  \<open>execute\<close> for one node, and \<open>execute_node\<close> for the inputs of a node in turn with \<open>reset_cache\<close> and
  \<open>retry\<close> set. The last exception handler keeps exceptions from leaving \<open>execute\<close>.
\<close>

definition attempt ::
  "exec_env \<Rightarrow> run_location \<Rightarrow> bool \<Rightarrow> bool \<Rightarrow> bool \<Rightarrow> addr \<Rightarrow> world \<Rightarrow> (world \<times> (bool \<times> outcome)) option" where
  "attempt E loc reset_cache perf optimize a w =
     (case (if reset_cache then clear_cache E a w else Some w) of
        None \<Rightarrow> None
      | Some w1 \<Rightarrow>
          (case decide_execution E loc perf reset_cache a w1 of
             None \<Rightarrow> None
           | Some (w2, d) \<Rightarrow>
               (case wd_heap w2 a of
                  None \<Rightarrow> None
                | Some nd \<Rightarrow>
                    (let d' = widen E loc optimize nd d; perf' = (perf \<and> \<not> cache_results nd)
                     in if \<not> should_run d' then Some (w2, (False, None))
                        else (case reset (ee_digest E) (ee_fuel E) False a (prepare_for_execution a (wd_heap w2)) of
                                None \<Rightarrow> None
                              | Some h3 \<Rightarrow>
                                  (case execute_with_strategy E (strategy d') perf' a (w2\<lparr>wd_heap := h3\<rparr>) of
                                     None \<Rightarrow> None
                                   | Some (w4, None) \<Rightarrow>
                                       (let h5 = sync_state_to_legacy a (update_source_file_info E a (wd_heap w4))
                                        in Some (w4\<lparr>wd_heap := provider_save a (provider_get a h5) h5\<rparr>, (True, None)))
                                   | Some (w4, Some e) \<Rightarrow>
                                       if is_canceled (provider_get a (wd_heap w4))
                                       then Some (w4\<lparr>wd_heap := sync_state_to_legacy a (upd_state a reset_results_only (wd_heap w4))\<rparr>,
                                                  (True, None))
                                       else Some (w4\<lparr>wd_heap := record_failure a e (wd_heap w4)\<rparr>, (True, Some e))))))))"

fun execute ::
  "exec_env \<Rightarrow> run_location \<Rightarrow> nat \<Rightarrow> bool \<Rightarrow> bool \<Rightarrow> bool \<Rightarrow> bool \<Rightarrow> addr \<Rightarrow> world \<Rightarrow> world option"
and execute_inputs :: "exec_env \<Rightarrow> run_location \<Rightarrow> nat \<Rightarrow> bool \<Rightarrow> addr list \<Rightarrow> world \<Rightarrow> world option" where
  "execute E loc 0 reset_cache perf retry optimize a w = None"
| "execute E loc (Suc k) reset_cache perf retry optimize a w =
     (case attempt E loc reset_cache perf optimize a w of
        None \<Rightarrow> None
      | Some (w1, (_, None)) \<Rightarrow> Some w1
      | Some (w1, (_, Some e)) \<Rightarrow>
          if contains_text missing_file e \<and> retry then
            (case wd_heap w1 a of
               None \<Rightarrow> None
             | Some nd \<Rightarrow>
                 (let perf' = (perf \<and> \<not> cache_results nd)
                  in case execute_inputs E loc k perf' (get_all_inputs nd) w1 of
                       None \<Rightarrow> None
                     | Some w2 \<Rightarrow> execute E loc k False perf' False True a w2))
          else Some w1)"
| "execute_inputs E loc k perf [] w = Some w"
| "execute_inputs E loc 0 perf (b # bs) w = None"
| "execute_inputs E loc (Suc k) perf (b # bs) w =
     (let w0 = w\<lparr>wd_heap := upd_node b set_is_setup (wd_heap w)\<rparr>
      in case wd_heap w0 b of
           None \<Rightarrow> None
         | Some nd \<Rightarrow>
             (case (if info_is_setup nd then execute E loc k True perf True True b w0 else Some w0) of
                None \<Rightarrow> None
              | Some w1 \<Rightarrow> execute_inputs E loc (Suc k) perf bs w1))"

definition execute_node ::
  "exec_env \<Rightarrow> run_location \<Rightarrow> nat \<Rightarrow> bool \<Rightarrow> bool \<Rightarrow> bool \<Rightarrow> bool \<Rightarrow> addr \<Rightarrow> world \<Rightarrow> world option" where
  "execute_node E loc k reset_cache perf retry optimize a w =
     (let w0 = w\<lparr>wd_heap := upd_node a set_is_setup (wd_heap w)\<rparr>
      in case wd_heap w0 a of
           None \<Rightarrow> None
         | Some nd \<Rightarrow>
             if info_is_setup nd then execute E loc k reset_cache perf retry optimize a w0 else Some w0)"

definition cancel :: "addr \<Rightarrow> heap \<Rightarrow> heap" where
  "cancel a h = upd_state a (\<lambda>s. s\<lparr>is_canceled := True\<rparr>) (upd_stats a (\<lambda>s. s\<lparr>stat_canceled := True\<rparr>) h)"

section \<open>What executing leaves alone\<close>

text \<open>
  A projection \<open>g\<close> of a node is kept when every node of the heap has the same value of it before and
  after. Each step of the execution is a composition of updates of one node, so what the updates keep
  the step keeps.
\<close>

definition keeps :: "(flow_node \<Rightarrow> 'b) \<Rightarrow> heap \<Rightarrow> heap \<Rightarrow> bool" where
  "keeps g h h' \<longleftrightarrow> (\<forall>a. map_option g (h a) = map_option g (h' a))"

definition s_texts :: "node_setting \<Rightarrow> string \<times> (string, pyval) dict" where
  "s_texts s = (s_description s, s_fields s)"

lemma s_texts_is_setup [simp]: "s_texts (s_is_setup_update f s) = s_texts s"
  by (simp add: s_texts_def)

definition conf where
  "conf nd = (topo nd, cache_results nd, map_option s_texts (setting_input nd), stat_canceled (node_stats nd))"

definition quiet where
  "quiet nd = (conf nd, r_errors (results nd), execution_state nd, node_stats nd)"

lemma keeps_refl [simp]: "keeps g h h"
  by (simp add: keeps_def)

lemma keeps_trans: "keeps g h h1 \<Longrightarrow> keeps g h1 h2 \<Longrightarrow> keeps g h h2"
  by (simp add: keeps_def)

lemma keeps_upd: "keeps g h h1 \<Longrightarrow> (\<And>x. g (f x) = g x) \<Longrightarrow> keeps g h (upd_node a f h1)"
  by (simp add: keeps_def upd_node_apply option.map_comp o_def)

lemma keepsE:
  assumes "keeps g h h'" and "h a = Some nd"
  obtains nd' where "h' a = Some nd'" and "g nd' = g nd"
proof -
  from assms have "map_option g (h' a) = Some (g nd)"
    unfolding keeps_def by (metis option.simps(9))
  then show ?thesis using that by auto
qed

lemma keeps_comp: "keeps g h h' \<Longrightarrow> (\<And>x. f x = k (g x)) \<Longrightarrow> keeps f h h'"
proof -
  assume k: "keeps g h h'" and f: "\<And>x. f x = k (g x)"
  have "f = k \<circ> g" using f by auto
  then have "map_option f x = map_option k (map_option g x)" for x by (simp add: option.map_comp)
  with k show "keeps f h h'" by (simp add: keeps_def)
qed

lemma keeps_topo: "keeps conf h h' \<Longrightarrow> same_topo h h'"
  unfolding same_topo_def keeps_def[symmetric]
  by (erule keeps_comp[where k = fst]) (simp add: conf_def)

lemma keeps_quiet_conf: "keeps quiet h h' \<Longrightarrow> keeps conf h h'"
  by (erule keeps_comp[where k = fst]) (simp add: quiet_def)

lemma topo_upd [simp, frame_simps]:
  "topo (nd\<lparr>results := r\<rparr>) = topo nd" "topo (nd\<lparr>node_stats := s\<rparr>) = topo nd"
  "topo (nd\<lparr>execution_state := t\<rparr>) = topo nd" "topo (nd\<lparr>node_result_schema := sc\<rparr>) = topo nd"
  "topo (set_is_setup nd) = topo nd"
  by (simp_all add: topo_def set_is_setup_def)

lemma stat_canceled_set [simp]: "stat_canceled (set_stat_has_run b s) = stat_canceled s"
  by (simp add: set_stat_has_run_def)

lemma conf_upd [simp, frame_simps]:
  "conf (nd\<lparr>results := r\<rparr>) = conf nd" "conf (nd\<lparr>execution_state := t\<rparr>) = conf nd"
  "conf (nd\<lparr>node_result_schema := sc\<rparr>) = conf nd" "conf (node_hash_update f nd) = conf nd"
  by (simp_all add: conf_def)

lemma conf_set_is_setup [simp, frame_simps]: "conf (set_is_setup nd) = conf nd"
  by (simp add: conf_def topo_def set_is_setup_def option.map_comp o_def)

lemma conf_clear_node [simp, frame_simps]: "conf (clear_node nd) = conf nd"
  by (simp add: conf_def topo_def clear_node_def Let_def)

lemma conf_stats: "stat_canceled s = stat_canceled (node_stats nd) \<Longrightarrow> conf (nd\<lparr>node_stats := s\<rparr>) = conf nd"
  by (simp add: conf_def)

lemma quiet_upd [simp, frame_simps]:
  "quiet (nd\<lparr>node_result_schema := sc\<rparr>) = quiet nd" "quiet (node_hash_update f nd) = quiet nd"
  "quiet (set_is_setup nd) = quiet nd"
  by (simp_all add: quiet_def conf_def topo_def) (simp_all add: set_is_setup_def option.map_comp o_def)

lemma quiet_results: "r_errors r = r_errors (results nd) \<Longrightarrow> quiet (nd\<lparr>results := r\<rparr>) = quiet nd"
  by (simp add: quiet_def)

lemma keeps_upd_results: "keeps conf h h1 \<Longrightarrow> keeps conf h (upd_results a f h1)"
  unfolding upd_results_def by (erule keeps_upd) simp

lemma keeps_upd_state: "keeps conf h h1 \<Longrightarrow> keeps conf h (upd_state a f h1)"
  unfolding upd_state_def by (erule keeps_upd) simp

lemma keeps_upd_stats:
  "keeps conf h h1 \<Longrightarrow> (\<And>s. stat_canceled (f s) = stat_canceled s) \<Longrightarrow> keeps conf h (upd_stats a f h1)"
  unfolding upd_stats_def by (erule keeps_upd) (simp add: conf_stats)

lemma keeps_set_schema: "keeps conf h h1 \<Longrightarrow> keeps conf h (set_result_schema a s h1)"
  unfolding set_result_schema_def by (erule keeps_upd) simp

lemmas keeps_intros = keeps_refl keeps_upd_results keeps_upd_state keeps_upd_stats keeps_set_schema

lemma keeps_hash: "hash_all D n h as = Some (xs, h') \<Longrightarrow> keeps quiet h h'"
  by (erule hash_all_invariant[where P = "keeps quiet h"]) (auto simp: store_hash_def intro: keeps_upd)

lemma keeps_reset: "reset_all D n deep h as = Some h' \<Longrightarrow> keeps conf h h'"
  by (erule reset_all_invariant[where P = "keeps conf h"]) (auto simp: store_hash_def intro: keeps_upd)

section \<open>Reading results\<close>

definition read_node :: "exec_env \<Rightarrow> nat \<Rightarrow> heap \<Rightarrow> addr \<Rightarrow> flow_node \<Rightarrow> (heap \<times> (string + obj option)) option" where
  "read_node E n h0 a nd =
     (if \<not> info_is_setup nd then Some (h0, Inr None)
      else if r_resulting_data (results nd) \<noteq> None \<or> r_errors (results nd) \<noteq> None
        then Some (h0, Inr (r_resulting_data (results nd)))
      else if is_canceled (execution_state nd)
        then Some (fail_results E a ''Node execution canceled'' h0, Inl ''Node execution canceled'')
      else (case results_all E n h0 (get_all_inputs nd) of
              None \<Rightarrow> None
            | Some (h1, Inl e) \<Rightarrow> Some (fail_results E a e h1, Inl e)
            | Some (h1, Inr xs) \<Rightarrow>
                (case ee_fn E nd xs of
                   Inl e \<Rightarrow> Some (fail_results E a e h1, Inl e)
                 | Inr x \<Rightarrow> Some (store_result E a x h1, Inr (Some x)))))"

lemma results_all_Cons:
  "results_all E (Suc n) h (a # as) =
     (case upd_node a set_is_setup h a of
        None \<Rightarrow> None
      | Some nd \<Rightarrow>
          (case read_node E n (upd_node a set_is_setup h) a nd of
             None \<Rightarrow> None
           | Some (h1, Inl e) \<Rightarrow> Some (h1, Inl e)
           | Some (h1, Inr r) \<Rightarrow>
               (case results_all E (Suc n) h1 as of
                  None \<Rightarrow> None
                | Some (h2, Inl e) \<Rightarrow> Some (h2, Inl e)
                | Some (h2, Inr rs) \<Rightarrow> Some (h2, Inr (r # rs)))))"
  unfolding results_all.simps(3) Let_def read_node_def ..

text \<open>
  The invariant rule of reading: setting up, storing results and, on failure only, recording the
  failure.
\<close>

lemma results_all_invariant:
  assumes "results_all E n h as = Some (h', r)" and "P h"
    and su: "\<And>a h. P h \<Longrightarrow> P (upd_node a set_is_setup h)"
    and store: "\<And>a x h. P h \<Longrightarrow> P (store_result E a x h)"
    and fail: "\<And>a e h. isl r \<Longrightarrow> P h \<Longrightarrow> P (fail_results E a e h)"
  shows "P h'"
  using assms(1,2) fail
proof (induction n arbitrary: h as h' r)
  case 0
  then show ?case by (cases as) auto
next
  case (Suc n)
  from Suc.prems show ?case
  proof (induction as arbitrary: h r)
    case Nil
    then show ?case by simp
  next
    case (Cons a as)
    let ?h0 = "upd_node a set_is_setup h"
    have P0: "P ?h0" by (rule su) (rule Cons.prems)
    from Cons.prems(1) obtain nd h1 q where nd: "?h0 a = Some nd"
      and q: "read_node E n ?h0 a nd = Some (h1, q)"
      unfolding results_all_Cons by (auto split: option.splits)
    have sub: "isl q \<Longrightarrow> isl r"
      using Cons.prems(1) nd q unfolding results_all_Cons by (auto split: sum.splits)
    have P1: "P h1"
    proof (cases "results_all E n ?h0 (get_all_inputs nd)")
      case None
      with q P0 Cons.prems(3) sub show ?thesis
        unfolding read_node_def by (auto split: if_splits)
    next
      case (Some hx)
      then obtain hi ri where hi: "results_all E n ?h0 (get_all_inputs nd) = Some (hi, ri)"
        by (cases hx) auto
      show ?thesis
      proof (cases "h1 = ?h0")
        case True
        with P0 show ?thesis by simp
      next
        case False
        have "isl ri \<Longrightarrow> isl q"
          using q hi False P0 unfolding read_node_def by (cases ri) (auto split: if_splits)
        with sub have "P hi" using Suc.IH[OF hi P0] Cons.prems(3) by blast
        with q hi P0 sub Cons.prems(3) store show ?thesis
          unfolding read_node_def by (auto split: if_splits sum.splits)
      qed
    qed
    show ?case
    proof (cases q)
      case (Inl e)
      with Cons.prems(1) nd q have "h' = h1" unfolding results_all_Cons by simp
      with P1 show ?thesis by simp
    next
      case (Inr x)
      with Cons.prems(1) nd q obtain rr where "results_all E (Suc n) h1 as = Some (h', rr)" "isl rr \<Longrightarrow> isl r"
        unfolding results_all_Cons by (auto split: option.splits sum.splits)
      with Cons.IH[OF this(1) P1] Cons.prems(3) show ?thesis by blast
    qed
  qed
qed

lemma keeps_conf_fail: "keeps conf h h1 \<Longrightarrow> keeps conf h (fail_results E a e h1)"
  unfolding fail_results_def by (intro keeps_intros) simp_all

lemma keeps_conf_store: "keeps conf h h1 \<Longrightarrow> keeps conf h (store_result E a x h1)"
  unfolding store_result_def by (intro keeps_intros)

lemma keeps_quiet_store: "keeps quiet h h1 \<Longrightarrow> keeps quiet h (store_result E a x h1)"
  unfolding store_result_def set_result_schema_def upd_results_def
  by (intro keeps_upd) (simp_all add: quiet_results)

lemma keeps_results: "results_all E n h as = Some (h', r) \<Longrightarrow> keeps conf h h'"
  by (erule results_all_invariant[where P = "keeps conf h"])
     (auto intro: keeps_upd keeps_conf_store keeps_conf_fail)

lemma keeps_results_ok: "results_all E n h as = Some (h', Inr xs) \<Longrightarrow> keeps quiet h h'"
  by (erule results_all_invariant[where P = "keeps quiet h"]) (auto intro: keeps_upd keeps_quiet_store)

lemma keeps_get: "get_resulting_data E a h = Some (h', r) \<Longrightarrow> keeps conf h h'"
  by (auto simp: get_resulting_data_def intro: keeps_results)

lemma map_sum_Inr: "map_sum f g s = Inr x \<longleftrightarrow> (\<exists>y. s = Inr y \<and> x = g y)"
  by (cases s) auto

lemma get_ok_results:
  assumes "get_resulting_data E a h = Some (h', Inr x)"
  obtains xs where "results_all E (ee_fuel E) h [a] = Some (h', Inr xs)" and "x = hd xs"
  using assms by (auto simp: get_resulting_data_def map_sum_Inr)

lemma keeps_get_ok: "get_resulting_data E a h = Some (h', Inr x) \<Longrightarrow> keeps quiet h h'"
  by (erule get_ok_results) (rule keeps_results_ok)

lemma store_result_apply:
  "store_result E a x h b =
     (if b = a then map_option (\<lambda>nd. nd\<lparr>results := (results nd)\<lparr>r_resulting_data := Some x\<rparr>,
        node_result_schema := Some (ee_schema E x)\<rparr>) (h a) else h b)"
  by (simp add: store_result_def set_result_schema_def upd_results_def upd_node_apply option.map_comp o_def)

lemma read_node_data:
  assumes "read_node E n h a nd = Some (h', Inr (Some x))" and "h a = Some nd"
  shows "res_data h' a = Some x"
proof (cases "info_is_setup nd \<and> r_resulting_data (results nd) = None \<and> r_errors (results nd) = None")
  case False
  with assms show ?thesis unfolding read_node_def res_data_def by (auto split: if_splits option.splits prod.splits sum.splits)
next
  case True
  with assms obtain h1 xs where i: "results_all E n h (get_all_inputs nd) = Some (h1, Inr xs)"
    and h': "h' = store_result E a x h1"
    unfolding read_node_def by (auto split: if_splits option.splits prod.splits sum.splits)
  from keepsE[OF keeps_results[OF i] assms(2)] obtain nd1 where "h1 a = Some nd1" .
  with h' show ?thesis by (simp add: res_data_def store_result_apply)
qed

lemma get_data:
  assumes "get_resulting_data E a h = Some (h', Inr (Some x))"
  shows "res_data h' a = Some x"
proof -
  from assms obtain xs where r: "results_all E (ee_fuel E) h [a] = Some (h', Inr xs)" and x: "Some x = hd xs"
    by (rule get_ok_results)
  from r obtain n where n: "ee_fuel E = Suc n" by (cases "ee_fuel E") auto
  from r x obtain nd where "upd_node a set_is_setup h a = Some nd"
    and "read_node E n (upd_node a set_is_setup h) a nd = Some (h', Inr (Some x))"
    unfolding n results_all_Cons by (auto split: option.splits sum.splits)
  from read_node_data[OF this(2,1)] show ?thesis .
qed

lemma upd_results_apply:
  "upd_results a f h b = (if b = a then map_option (\<lambda>nd. nd\<lparr>results := f (results nd)\<rparr>) (h a) else h b)"
  by (simp add: upd_results_def upd_node_apply)

lemma upd_stats_apply:
  "upd_stats a f h b = (if b = a then map_option (\<lambda>nd. nd\<lparr>node_stats := f (node_stats nd)\<rparr>) (h a) else h b)"
  by (simp add: upd_stats_def upd_node_apply)

lemma upd_state_apply:
  "upd_state a f h b = (if b = a then map_option (\<lambda>nd. nd\<lparr>execution_state := f (execution_state nd)\<rparr>) (h a) else h b)"
  by (simp add: upd_state_def upd_node_apply)

lemma set_result_schema_apply:
  "set_result_schema a s h b = (if b = a then map_option (\<lambda>nd. nd\<lparr>node_result_schema := Some s\<rparr>) (h a) else h b)"
  by (simp add: set_result_schema_def upd_node_apply)

lemmas upd_apply = upd_results_apply upd_stats_apply upd_state_apply set_result_schema_apply

section \<open>The steps of an execution keep the configuration and the state\<close>

definition still where
  "still nd = (conf nd, execution_state nd)"

lemma keeps_still_conf: "keeps still h h' \<Longrightarrow> keeps conf h h'"
  by (erule keeps_comp[where k = fst]) (simp add: still_def)

lemma keeps_quiet_still: "keeps quiet h h' \<Longrightarrow> keeps still h h'"
  by (erule keeps_comp[where k = "\<lambda>q. (fst q, fst (snd (snd q)))"]) (simp add: still_def quiet_def)

lemma still_results: "keeps still h h1 \<Longrightarrow> keeps still h (upd_results a f h1)"
  unfolding upd_results_def by (erule keeps_upd) (simp add: still_def)

lemma still_stats:
  "keeps still h h1 \<Longrightarrow> (\<And>s. stat_canceled (f s) = stat_canceled s) \<Longrightarrow> keeps still h (upd_stats a f h1)"
  unfolding upd_stats_def by (erule keeps_upd) (simp add: still_def conf_stats)

lemma still_schema: "keeps still h h1 \<Longrightarrow> keeps still h (set_result_schema a s h1)"
  unfolding set_result_schema_def by (erule keeps_upd) (simp add: still_def)

lemma still_set_up: "keeps still h h1 \<Longrightarrow> keeps still h (upd_node a set_is_setup h1)"
  by (erule keeps_upd) (simp add: still_def, simp add: set_is_setup_def)

lemmas still_intros = keeps_refl still_results still_stats still_schema

lemma still_hash: "hash_all D n h as = Some (xs, h') \<Longrightarrow> keeps still h h'"
  by (rule keeps_quiet_still) (rule keeps_hash)

lemma still_results_all: "results_all E n h as = Some (h', r) \<Longrightarrow> keeps still h h'"
  by (erule results_all_invariant[where P = "keeps still h"])
     (auto intro!: still_intros still_set_up simp: store_result_def fail_results_def)

lemma still_get: "get_resulting_data E a h = Some (h', r) \<Longrightarrow> keeps still h h'"
  by (auto simp: get_resulting_data_def intro: still_results_all)

lemma still_full_local:
  assumes "do_execute_full_local E p a h = Some (h', r)"
  shows "keeps still h h'"
proof -
  have *: "keeps still h (upd_results a clear_table_example h)" by (intro still_intros)
  from assms obtain h1 q where g: "get_resulting_data E a (upd_results a clear_table_example h) = Some (h1, q)"
    by (auto simp: do_execute_full_local_def split: option.splits)
  from keeps_trans[OF * still_get[OF g]] have "keeps still h h1" .
  with assms g show ?thesis
    by (auto simp: do_execute_full_local_def Let_def split: option.splits sum.splits if_splits intro!: still_intros)
qed

lemma still_local_with_sampling:
  assumes "do_execute_local_with_sampling E p a h = Some (h', r)"
  shows "keeps still h h'"
proof -
  from assms obtain h1 q where g: "get_resulting_data E a h = Some (h1, q)"
    by (auto simp: do_execute_local_with_sampling_def split: option.splits)
  note k = still_get[OF g]
  with assms g keeps_trans[OF k still_hash] show ?thesis
    by (auto simp: do_execute_local_with_sampling_def fail_sampling_def Let_def
          split: option.splits sum.splits if_splits intro!: still_intros)
qed

lemma still_fetch:
  assumes "fetch_remote E a x w = Some (w', r)"
  shows "keeps still (wd_heap w) (wd_heap w')"
  using assms still_hash
  by (fastforce simp: fetch_remote_def split: option.splits sum.splits fetch_failure.splits intro!: still_intros)

lemma still_compute:
  assumes "compute_remote E p a w = Some (w', r)"
  shows "keeps still (wd_heap w) (wd_heap w')"
proof -
  from assms obtain h1 q where g: "get_resulting_data E a (wd_heap w) = Some (h1, q)"
    by (auto simp: compute_remote_def Let_def split: option.splits if_splits)
  note k = still_get[OF g]
  from assms g k show ?thesis
    by (auto simp: compute_remote_def Let_def split: option.splits sum.splits if_splits
          intro!: still_intros dest!: still_fetch intro: keeps_trans)
qed

lemma still_execute_remote:
  assumes "do_execute_remote E p a w = Some (w', r)"
  shows "keeps still (wd_heap w) (wd_heap w')"
proof (cases "hash_all (ee_digest E) (ee_fuel E) (wd_heap w) [a]")
  case None
  with assms still_compute show ?thesis
    by (auto simp: do_execute_remote_def split: option.splits if_splits)
next
  case (Some y)
  then obtain hs h where y: "hash_all (ee_digest E) (ee_fuel E) (wd_heap w) [a] = Some (hs, h)" by (cases y) auto
  note k = still_hash[OF y]
  have "compute_remote E p a (w\<lparr>wd_heap := h\<rparr>) = Some (w', r) \<Longrightarrow> keeps still (wd_heap w) (wd_heap w')"
    using keeps_trans[OF k] still_compute by fastforce
  with assms y k still_compute show ?thesis
    by (auto simp: do_execute_remote_def split: option.splits if_splits sum.splits intro!: still_intros)
qed

section \<open>A successful execution marks the node\<close>

definition marked :: "addr \<Rightarrow> world \<Rightarrow> bool" where
  "marked a w \<longleftrightarrow> (let st = provider_get a (wd_heap w) in
     has_run_with_current_setup st \<and> has_completed_last_run st \<and> st_error st = None)"

lemma marked_upd:
  assumes "wd_heap w a \<noteq> None" and "\<And>s. has_run_with_current_setup (f s) \<and> has_completed_last_run (f s) \<and> st_error (f s) = None"
  shows "marked a (w'\<lparr>wd_heap := upd_state a f (wd_heap w)\<rparr>)"
  using assms by (auto simp: marked_def Let_def provider_get_def upd_state_apply)

lemma still_present: "keeps still h h' \<Longrightarrow> h a \<noteq> None \<Longrightarrow> h' a \<noteq> None"
  by (auto elim: keepsE)

lemma do_full_local_marks:
  assumes "do_full_local E False a w = Some (w', None)" and "wd_heap w a \<noteq> None"
  shows "marked a w'"
proof -
  from assms(1) obtain h where h: "do_execute_full_local E False a (wd_heap w) = Some (h, None)"
    and w': "w' = w\<lparr>wd_heap := upd_state a (\<lambda>s. case res_data h a of None \<Rightarrow> mark_successful s
        | Some x \<Rightarrow> (mark_successful s)\<lparr>st_result_schema := Some (ee_schema E x)\<rparr>) h\<rparr>"
    by (auto simp: do_full_local_def split: option.splits)
  from still_present[OF still_full_local[OF h] assms(2)] have "h a \<noteq> None" .
  then show ?thesis
    unfolding w' by (auto simp: marked_def Let_def provider_get_def upd_state_apply mark_successful_def split: option.splits)
qed

lemma sampling_ok:
  assumes "do_execute_local_with_sampling E False a h = Some (h', None)"
  obtains h1 x hs h2 where "get_resulting_data E a h = Some (h1, Inr (Some x))"
    and "hash_all (ee_digest E) (ee_fuel E) h1 [a] = Some (hs, h2)"
    and "keeps still h2 h'" and "res_errors h' a = res_errors h2 a"
proof -
  from assms obtain h1 x hs h2 where g: "get_resulting_data E a h = Some (h1, Inr (Some x))"
    and hs: "hash_all (ee_digest E) (ee_fuel E) h1 [a] = Some (hs, h2)"
    and h': "h' = (let h3 = upd_results a (store_example (hd hs)) h2;
                       h4 = (if res_errors h3 a = None \<and> \<not> stats_canceled h3 a
                             then upd_stats a (set_stat_has_run True) h3 else h3)
                   in set_result_schema a (ee_schema E x) h4)"
    by (auto simp: do_execute_local_with_sampling_def Let_def split: option.splits sum.splits)
  have "keeps still h2 h'"
    unfolding h' Let_def by (auto intro!: still_intros)
  moreover have "res_errors h' a = res_errors h2 a"
    unfolding h' Let_def res_errors_def
    by (auto simp: upd_apply store_example_def option.map_comp o_def split: option.splits)
  ultimately show ?thesis using g hs by (rule that[rotated 2])
qed

lemma res_errors_quiet: "keeps quiet h h' \<Longrightarrow> res_errors h' a = res_errors h a"
  by (drule keeps_comp[where f = "\<lambda>nd. r_errors (results nd)" and k = "\<lambda>q. fst (snd q)"])
     (auto simp: quiet_def res_errors_def keeps_def split: option.splits dest!: spec[of _ a])

lemma stats_canceled_conf: "keeps conf h h' \<Longrightarrow> stats_canceled h' a = stats_canceled h a"
  by (drule keeps_comp[where f = "\<lambda>nd. stat_canceled (node_stats nd)" and k = "\<lambda>q. snd (snd (snd q))"])
     (auto simp: conf_def stats_canceled_def keeps_def split: option.splits dest!: spec[of _ a])

lemma do_local_with_sampling_marks:
  assumes ok: "do_local_with_sampling E False a w = Some (w', None)" and a: "wd_heap w a \<noteq> None"
    and e: "res_errors (wd_heap w) a = None" and c: "\<not> stats_canceled (wd_heap w) a"
  shows "marked a w'"
proof -
  from ok obtain h where h: "do_execute_local_with_sampling E False a (wd_heap w) = Some (h, None)"
    by (auto simp: do_local_with_sampling_def split: option.splits)
  note k = still_local_with_sampling[OF h]
  from h obtain h1 x hs h2 where g: "get_resulting_data E a (wd_heap w) = Some (h1, Inr (Some x))"
    and hs: "hash_all (ee_digest E) (ee_fuel E) h1 [a] = Some (hs, h2)"
    and e2: "res_errors h a = res_errors h2 a"
    by (rule sampling_ok)
  have "res_errors h a = None"
    using e e2 res_errors_quiet[OF keeps_get_ok[OF g]] res_errors_quiet[OF keeps_hash[OF hs]] by simp
  moreover have "\<not> stats_canceled h a"
    using stats_canceled_conf[OF keeps_still_conf[OF k]] c by simp
  moreover have "h a \<noteq> None" using still_present[OF k a] .
  ultimately show ?thesis
    using ok h unfolding do_local_with_sampling_def Let_def
    by (auto simp: marked_def Let_def provider_get_def upd_state_apply mark_successful_def split: option.splits)
qed

lemma fetch_data:
  assumes "fetch_remote E a x w = Some (w', None)" and "res_data (wd_heap w) a \<noteq> None"
  shows "res_data (wd_heap w') a \<noteq> None"
proof -
  from assms(1) obtain hs h where hs: "hash_all (ee_digest E) (ee_fuel E) (wd_heap w) [a] = Some (hs, h)"
    by (auto simp: fetch_remote_def split: option.splits)
  have "keeps results (wd_heap w) h"
    using hs by (rule hash_all_invariant[where P = "keeps results (wd_heap w)"]) (auto simp: store_hash_def intro: keeps_upd)
  with assms(2) have "res_data h a \<noteq> None"
    by (cases "h a") (auto simp: res_data_def keeps_def split: option.splits dest!: spec[of _ a])
  with assms(1) hs show ?thesis
    by (auto simp: fetch_remote_def res_data_def upd_apply store_example_def option.map_comp o_def
          split: option.splits sum.splits fetch_failure.splits)
qed

lemma do_remote_marks:
  assumes ok: "do_remote E False a w = Some (w', None)" and a: "wd_heap w a = Some nd"
    and "\<not> cache_results nd" and "node_type nd \<noteq> ''output''" and "node_type nd \<noteq> ''api_response''"
  shows "marked a w'"
proof -
  from ok obtain w1 where w1: "do_execute_remote E False a w = Some (w1, None)"
    by (auto simp: do_remote_def split: option.splits)
  have "wd_heap w1 a \<noteq> None" using still_present[OF still_execute_remote[OF w1]] a by simp
  from w1 a assms(3-5) have "compute_remote E False a w = Some (w1, None)"
    by (simp add: do_execute_remote_def)
  with a assms(3-5) obtain h x where "get_resulting_data E a (wd_heap w) = Some (h, Inr (Some x))"
    and f: "fetch_remote E a x (w\<lparr>wd_heap := h\<rparr>) = Some (w1, None)"
    by (auto simp: compute_remote_def Let_def split: option.splits sum.splits)
  from get_data[OF this(1)] fetch_data[OF f] obtain y where y: "res_data (wd_heap w1) a = Some y" by auto
  with ok w1 have w': "w' = w1\<lparr>wd_heap := upd_state a (\<lambda>s. mark_successful (s\<lparr>st_result_schema := Some (ee_schema E y)\<rparr>)) (wd_heap w1)\<rparr>"
    by (simp add: do_remote_def)
  show ?thesis
    unfolding w' by (rule marked_upd) (use \<open>wd_heap w1 a \<noteq> None\<close> in \<open>simp_all add: mark_successful_def\<close>)
qed

lemma execute_keeps_still:
  assumes "execute_with_strategy E st p a w = Some (w', Some e)"
  shows "keeps still (wd_heap w) (wd_heap w')"
proof (cases st)
  case FULL_LOCAL
  with assms show ?thesis
    by (auto simp: execute_with_strategy_def do_full_local_def split: option.splits if_splits dest!: still_full_local)
next
  case LOCAL_WITH_SAMPLING
  with assms show ?thesis
    by (auto simp: execute_with_strategy_def do_local_with_sampling_def Let_def
          split: option.splits if_splits dest!: still_local_with_sampling)
next
  case REMOTE
  with assms show ?thesis
    by (auto simp: execute_with_strategy_def do_remote_def split: option.splits dest!: still_execute_remote)
qed (use assms in \<open>simp add: execute_with_strategy_def\<close>)

lemma execute_keeps_conf:
  assumes "execute_with_strategy E st p a w = Some (w', r)"
  shows "keeps conf (wd_heap w) (wd_heap w')"
proof (cases st)
  case FULL_LOCAL
  with assms show ?thesis
    by (auto simp: execute_with_strategy_def do_full_local_def split: option.splits if_splits
          dest!: still_full_local keeps_still_conf intro!: keeps_upd_state)
next
  case LOCAL_WITH_SAMPLING
  with assms show ?thesis
    by (auto simp: execute_with_strategy_def do_local_with_sampling_def Let_def
          split: option.splits if_splits dest!: still_local_with_sampling keeps_still_conf intro!: keeps_upd_state)
next
  case REMOTE
  with assms show ?thesis
    by (auto simp: execute_with_strategy_def do_remote_def split: option.splits
          dest!: still_execute_remote keeps_still_conf intro!: keeps_upd_state)
qed (use assms in \<open>simp add: execute_with_strategy_def\<close>)

lemma decide_keeps:
  assumes "decide_execution E loc p f a w = Some (w', d)"
  shows "keeps still (wd_heap w) (wd_heap w')" and "wd_cache w' = wd_cache w"
proof -
  show "keeps still (wd_heap w) (wd_heap w')"
    using assms by (auto simp: decide_execution_def Let_def split: option.splits if_splits dest!: still_hash)
  show "wd_cache w' = wd_cache w"
    using assms by (auto simp: decide_execution_def Let_def split: option.splits if_splits)
qed

lemma clear_keeps:
  assumes "clear_cache E a w = Some w'"
  shows "keeps conf (wd_heap w) (wd_heap w')"
  using assms
  by (auto simp: clear_cache_def remove_cache_def split: option.splits
        dest!: still_hash keeps_still_conf intro!: keeps_upd_state)

lemma prepare_keeps: "keeps conf h (prepare_for_execution a h)"
  unfolding prepare_for_execution_def by (intro keeps_intros)

text \<open>What an attempt that runs goes through.\<close>

lemma attempt_cases:
  assumes "attempt E loc rc p opt a w = Some (w', (True, r))"
  obtains w1 w2 d nd h3 w4 o4 where
    "(if rc then clear_cache E a w else Some w) = Some w1"
    and "decide_execution E loc p rc a w1 = Some (w2, d)" and "wd_heap w2 a = Some nd"
    and "should_run (widen E loc opt nd d)"
    and "reset (ee_digest E) (ee_fuel E) False a (prepare_for_execution a (wd_heap w2)) = Some h3"
    and "execute_with_strategy E (strategy (widen E loc opt nd d)) (p \<and> \<not> cache_results nd) a (w2\<lparr>wd_heap := h3\<rparr>) = Some (w4, o4)"
    and "case o4 of
           None \<Rightarrow> r = None \<and> w' = w4\<lparr>wd_heap := sync_state_to_legacy a (update_source_file_info E a (wd_heap w4))\<rparr>
         | Some e \<Rightarrow> if is_canceled (provider_get a (wd_heap w4))
             then r = None \<and> w' = w4\<lparr>wd_heap := sync_state_to_legacy a (upd_state a reset_results_only (wd_heap w4))\<rparr>
             else r = Some e \<and> w' = w4\<lparr>wd_heap := record_failure a e (wd_heap w4)\<rparr>"
proof -
  from assms obtain w1 where w1: "(if rc then clear_cache E a w else Some w) = Some w1"
    by (auto simp: attempt_def split: option.splits)
  with assms obtain w2 d where d: "decide_execution E loc p rc a w1 = Some (w2, d)"
    by (auto simp: attempt_def split: option.splits)
  with assms w1 obtain nd where nd: "wd_heap w2 a = Some nd"
    by (auto simp: attempt_def split: option.splits)
  with assms w1 d have run: "should_run (widen E loc opt nd d)"
    by (auto simp: attempt_def Let_def split: if_splits)
  with assms w1 d nd obtain h3 where
    h3: "reset (ee_digest E) (ee_fuel E) False a (prepare_for_execution a (wd_heap w2)) = Some h3"
    by (auto simp: attempt_def Let_def split: option.splits)
  with assms w1 d nd run obtain w4 o4 where
    w4: "execute_with_strategy E (strategy (widen E loc opt nd d)) (p \<and> \<not> cache_results nd) a (w2\<lparr>wd_heap := h3\<rparr>) = Some (w4, o4)"
    by (auto simp: attempt_def Let_def split: option.splits)
  show ?thesis
  proof (rule that[OF w1 d nd run h3 w4])
    show "case o4 of
           None \<Rightarrow> r = None \<and> w' = w4\<lparr>wd_heap := sync_state_to_legacy a (update_source_file_info E a (wd_heap w4))\<rparr>
         | Some e \<Rightarrow> if is_canceled (provider_get a (wd_heap w4))
             then r = None \<and> w' = w4\<lparr>wd_heap := sync_state_to_legacy a (upd_state a reset_results_only (wd_heap w4))\<rparr>
             else r = Some e \<and> w' = w4\<lparr>wd_heap := record_failure a e (wd_heap w4)\<rparr>"
      using assms w1 d nd run h3 w4
      by (auto simp: attempt_def Let_def provider_save_def split: option.splits if_splits)
  qed
qed

lemma clear_node_clean [simp]:
  "r_errors (results (clear_node nd)) = None" "\<not> is_canceled (execution_state (clear_node nd))"
  by (simp_all add: clear_node_def Let_def)

lemma reset_keeps_clean:
  assumes "reset D n deep a h = Some h'" and "r_errors (results nd) = None" and "\<not> is_canceled (execution_state nd)"
    and "h a = Some nd"
  obtains nd' where "h' a = Some nd'" and "r_errors (results nd') = None" and "\<not> is_canceled (execution_state nd')"
proof -
  let ?P = "\<lambda>h. \<exists>nd. h a = Some nd \<and> r_errors (results nd) = None \<and> \<not> is_canceled (execution_state nd)"
  have "?P h'"
    using assms(1) unfolding reset_def
    by (rule reset_all_invariant[where P = ?P])
       (use assms(2-) in \<open>auto simp: store_hash_apply upd_node_apply\<close>)
  then show ?thesis using that by auto
qed

lemma decide_widen:
  assumes "decide_execution E loc p f a w = Some (w', d)"
  shows "widen E loc opt nd' d = d \<or> strategy d = LOCAL_WITH_SAMPLING"
  by (auto simp: widen_def)

lemma widen_strategy:
  assumes "decide_execution E loc p f a w = Some (w', d)" and "wd_heap w a = Some nd"
    and "node_type nd' = node_type nd"
  shows "widen E loc opt nd' d = d"
  using assms
  by (auto simp: decide_execution_def Let_def widen_def run_it_def skip_it_def determine_strategy_def
        split: option.splits if_splits)

lemma decide_strategy:
  assumes "decide_execution E loc p f a w = Some (w', d)" and "wd_heap w a = Some nd" and "should_run d"
  shows "strategy d = determine_strategy E loc nd"
  using assms by (auto simp: decide_execution_def Let_def run_it_def skip_it_def split: option.splits if_splits)

lemma source_path_fields:
  assumes "map_option s_texts so = map_option s_texts so'"
  shows "get_source_path so = get_source_path so'"
proof (cases so)
  case None
  with assms have "so' = None" by simp
  with None show ?thesis by simp
next
  case (Some s)
  with assms obtain s' where s': "so' = Some s'" "s_fields s' = s_fields s"
    by (cases so') (auto simp: s_texts_def)
  show ?thesis unfolding get_source_path_def Some s'(1) option.case s'(2) ..
qed

lemma conf_facts:
  assumes "conf nd' = conf nd"
  shows "node_template nd' = node_template nd" and "node_type nd' = node_type nd"
    and "cache_results nd' = cache_results nd" and "stat_canceled (node_stats nd') = stat_canceled (node_stats nd)"
    and "determine_strategy E loc nd' = determine_strategy E loc nd"
    and "get_all_inputs nd' = get_all_inputs nd"
    and "get_source_path (setting_input nd') = get_source_path (setting_input nd)"
proof -
  show t: "node_template nd' = node_template nd" "node_type nd' = node_type nd"
    "cache_results nd' = cache_results nd" "stat_canceled (node_stats nd') = stat_canceled (node_stats nd)"
    using assms by (simp_all add: conf_def topo_def)
  from t show "determine_strategy E loc nd' = determine_strategy E loc nd" by (simp add: determine_strategy_def)
  show "get_all_inputs nd' = get_all_inputs nd" using assms topo_inputs[of nd' nd] by (simp add: conf_def)
  have "map_option s_texts (setting_input nd') = map_option s_texts (setting_input nd)"
    using assms by (simp add: conf_def)
  then show "get_source_path (setting_input nd') = get_source_path (setting_input nd)"
    by (rule source_path_fields)
qed

lemma prepared_clean:
  assumes "h a = Some nd"
  obtains nd' where "prepare_for_execution a h a = Some nd'" and "r_errors (results nd') = None"
    and "\<not> is_canceled (execution_state nd')" and "conf nd' = conf nd"
  using assms
  by (auto simp: prepare_for_execution_def upd_apply clear_table_example_def reset_results_only_def option.map_comp o_def)

lemma strategy_marks:
  assumes "execute_with_strategy E (determine_strategy E loc nd) False a w = Some (w', None)"
    and "wd_heap w a = Some nd'" and "conf nd' = conf nd" and "r_errors (results nd') = None"
    and "\<not> cache_results nd" and "node_type nd \<noteq> ''output''" and "node_type nd \<noteq> ''api_response''"
    and "determine_strategy E loc nd = LOCAL_WITH_SAMPLING \<longrightarrow> \<not> stat_canceled (node_stats nd)"
  shows "marked a w'"
proof (cases "determine_strategy E loc nd")
  case SKIP
  then have False by (auto simp: determine_strategy_def split: if_splits)
  then show ?thesis ..
next
  case FULL_LOCAL
  with assms do_full_local_marks show ?thesis by (simp add: execute_with_strategy_def)
next
  case LOCAL_WITH_SAMPLING
  with assms conf_facts[OF assms(3)] have "res_errors (wd_heap w) a = None" "\<not> stats_canceled (wd_heap w) a"
    by (simp_all add: res_errors_def stats_canceled_def)
  with LOCAL_WITH_SAMPLING assms do_local_with_sampling_marks show ?thesis by (simp add: execute_with_strategy_def)
next
  case REMOTE
  with assms conf_facts[OF assms(3)] do_remote_marks[of E a w w' nd'] show ?thesis
    by (simp add: execute_with_strategy_def)
qed

lemma source_file_changed_stats [simp]: "source_file_changed E (nd\<lparr>node_stats := s\<rparr>) = source_file_changed E nd"
proof -
  have *: "execution_state (nd\<lparr>node_stats := s\<rparr>) = execution_state nd" by simp
  have "node_type (nd\<lparr>node_stats := s\<rparr>) = node_type nd" "setting_input (nd\<lparr>node_stats := s\<rparr>) = setting_input nd" by simp_all
  then show ?thesis unfolding source_file_changed_def * by (simp only:)
qed

text \<open>The result of the final steps of a successful attempt.\<close>

lemma finish_marked:
  assumes m: "marked a w" and nd: "wd_heap w a = Some nd"
  obtains nd' where "sync_state_to_legacy a (update_source_file_info E a (wd_heap w)) a = Some nd'"
    and "node_template nd' = node_template nd" and "cache_results nd' = cache_results nd"
    and "has_run_with_current_setup (execution_state nd')" and "\<not> source_file_changed E nd'"
    and "stat_has_run (node_stats nd')" and "stat_completed (node_stats nd')" and "stat_error (node_stats nd') = None"
proof -
  let ?h = "update_source_file_info E a (wd_heap w)"
  from m nd have run: "has_run_with_current_setup (execution_state nd)"
    "has_completed_last_run (execution_state nd)" "st_error (execution_state nd) = None"
    by (simp_all add: marked_def Let_def provider_get_def)
  obtain sf where u: "?h a = Some (nd\<lparr>execution_state := (execution_state nd)\<lparr>source_file_info := sf\<rparr>\<rparr>)"
    and sf: "\<not> source_file_changed E (nd\<lparr>execution_state := (execution_state nd)\<lparr>source_file_info := sf\<rparr>\<rparr>)"
  proof (cases "node_type nd = ''read'' \<and> (\<exists>p. get_source_path (setting_input nd) = Some p \<and> p \<noteq> [])")
    case True
    then obtain p where "node_type nd = ''read''" "get_source_path (setting_input nd) = Some p" "p \<noteq> []" by auto
    with nd show ?thesis
      by (intro that[of "source_from_path (ee_stat E) p"])
         (auto simp: update_source_file_info_def upd_state_apply source_file_changed_def split: option.splits
               dest: has_changed_fresh)
  next
    case False
    with nd show ?thesis
      by (intro that[of "source_file_info (execution_state nd)"])
         (auto simp: update_source_file_info_def source_file_changed_def split: option.splits)
  qed
  let ?n = "nd\<lparr>execution_state := (execution_state nd)\<lparr>source_file_info := sf\<rparr>\<rparr>"
  let ?s = "(node_stats nd)\<lparr>stat_has_run := True, stat_completed := True,
    stat_canceled := is_canceled (execution_state nd), stat_error := None\<rparr>"
  have s: "sync_state_to_legacy a ?h a = Some (?n\<lparr>node_stats := ?s\<rparr>)"
    using u run by (simp add: sync_state_to_legacy_def Let_def upd_stats_apply provider_get_def)
  have "\<not> source_file_changed E (?n\<lparr>node_stats := ?s\<rparr>)"
    using sf by (simp only: source_file_changed_stats not_False_eq_True)
  with s run show ?thesis by (intro that[OF s]) simp_all
qed

lemma reset_topo_conf:
  assumes "reset D n deep a h = Some h'"
  shows "keeps conf h h'"
  using assms unfolding reset_def by (rule keeps_reset)

lemma attempt_marks:
  assumes a: "attempt E loc rc False opt a w = Some (w', (True, None))" and nd: "wd_heap w a = Some nd"
    and plain: "\<not> cache_results nd" "node_type nd \<noteq> ''output''" "node_type nd \<noteq> ''api_response''"
    and c: "determine_strategy E loc nd = LOCAL_WITH_SAMPLING \<longrightarrow> \<not> stat_canceled (node_stats nd)"
  obtains nd' w4 where "conf nd' = conf nd" and "wd_heap w4 a = Some nd'" and "marked a w4"
    and "wd_heap w' = sync_state_to_legacy a (update_source_file_info E a (wd_heap w4))"
proof -
  from a obtain w1 w2 d nd2 h3 w4 o4 where w1: "(if rc then clear_cache E a w else Some w) = Some w1"
    and d: "decide_execution E loc False rc a w1 = Some (w2, d)" and nd2: "wd_heap w2 a = Some nd2"
    and run: "should_run (widen E loc opt nd2 d)"
    and h3: "reset (ee_digest E) (ee_fuel E) False a (prepare_for_execution a (wd_heap w2)) = Some h3"
    and x: "execute_with_strategy E (strategy (widen E loc opt nd2 d)) (False \<and> \<not> cache_results nd2) a (w2\<lparr>wd_heap := h3\<rparr>) = Some (w4, o4)"
    and o4: "case o4 of
           None \<Rightarrow> (None :: outcome) = None \<and> w' = w4\<lparr>wd_heap := sync_state_to_legacy a (update_source_file_info E a (wd_heap w4))\<rparr>
         | Some e \<Rightarrow> if is_canceled (provider_get a (wd_heap w4))
             then (None :: outcome) = None \<and> w' = w4\<lparr>wd_heap := sync_state_to_legacy a (upd_state a reset_results_only (wd_heap w4))\<rparr>
             else (None :: outcome) = Some e \<and> w' = w4\<lparr>wd_heap := record_failure a e (wd_heap w4)\<rparr>"
    by (rule attempt_cases)
  have k1: "keeps conf (wd_heap w) (wd_heap w1)" using w1 clear_keeps by (auto split: if_splits)
  from keepsE[OF k1 nd] obtain nd1 where nd1: "wd_heap w1 a = Some nd1" and c1: "conf nd1 = conf nd" .
  from keepsE[OF keeps_still_conf[OF decide_keeps(1)[OF d]] nd1] nd2 have c2: "conf nd2 = conf nd"
    using c1 by auto
  from widen_strategy[OF d nd1, of nd2 opt] conf_facts(2)[OF c1] conf_facts(2)[OF c2]
  have w: "widen E loc opt nd2 d = d" by simp
  have s: "strategy d = determine_strategy E loc nd"
    using decide_strategy[OF d nd1] run conf_facts(5)[OF c1] unfolding w by simp
  obtain ndp where p: "prepare_for_execution a (wd_heap w2) a = Some ndp" "r_errors (results ndp) = None"
    "\<not> is_canceled (execution_state ndp)" "conf ndp = conf nd2" using nd2 by (rule prepared_clean)
  from reset_keeps_clean[OF h3 p(2,3,1)] obtain nd3 where nd3: "h3 a = Some nd3"
    "r_errors (results nd3) = None" "\<not> is_canceled (execution_state nd3)" .
  from keepsE[OF reset_topo_conf[OF h3] p(1)] nd3(1) p(4) c2 have c3: "conf nd3 = conf nd" by auto
  note x' = x[unfolded w s, simplified]
  have None: "o4 = None"
  proof (rule ccontr)
    assume "o4 \<noteq> None"
    then obtain e where e: "o4 = Some e" by auto
    with x' have "keeps still h3 (wd_heap w4)" using execute_keeps_still by fastforce
    from keepsE[OF this nd3(1)] obtain nd4 where "wd_heap w4 a = Some nd4" "still nd4 = still nd3" .
    with nd3(3) have "\<not> is_canceled (provider_get a (wd_heap w4))"
      by (simp add: still_def provider_get_def)
    with o4 e show False by simp
  qed
  have "wd_heap (w2\<lparr>wd_heap := h3\<rparr>) a = Some nd3" using nd3(1) by simp
  from keepsE[OF execute_keeps_conf[OF x'] this] obtain nd4 where
    nd4: "wd_heap w4 a = Some nd4" "conf nd4 = conf nd3" .
  have "marked a w4"
    by (rule strategy_marks[OF x'[unfolded None], of nd3]) (use nd3 c3 plain c in simp_all)
  with nd4 o4 None c3 show ?thesis by (intro that[of nd4 w4]) simp_all
qed

lemma settled_skips:
  assumes "wd_heap w a = Some nd" and "t_node_group (node_template nd) \<noteq> ''output''" and "\<not> cache_results nd"
    and "has_run_with_current_setup (execution_state nd)" and "\<not> source_file_changed E nd"
  shows "attempt E loc False False opt a w = Some (w, (False, None))"
proof -
  have "decide_execution E loc False False a w = Some (w, skip_it)"
    using assms by (simp add: decide_execution_def Let_def)
  moreover have "widen E loc opt nd skip_it = skip_it" "\<not> should_run skip_it"
    by (simp_all add: widen_def skip_it_def)
  ultimately show ?thesis using assms(1) by (simp add: attempt_def Let_def)
qed

text \<open>
  C32: Running a node is idempotent. In development mode, after an attempt that ran a node without an
  exception (a node that is neither an output nor cached), the execution state and the legacy
  statistics both say so, and asking to run the node again does nothing at all: no second computation,
  and not one change in the graph or the cache. For a node sampled by the worker this needs that the
  legacy flag of an earlier cancellation is not set.
\<close>
theorem executed_node_is_settled:
  assumes "wd_heap w a = Some nd" and "t_node_group (node_template nd) \<noteq> ''output''"
    and "\<not> cache_results nd" and "node_type nd \<noteq> ''output''" and "node_type nd \<noteq> ''api_response''"
    and "determine_strategy E loc nd = LOCAL_WITH_SAMPLING \<longrightarrow> \<not> stat_canceled (node_stats nd)"
    and "attempt E loc reset_cache False optimize a w = Some (w', (True, None))"
  shows "attempt E loc False False optimize' a w' = Some (w', (False, None))
    \<and> (\<exists>nd'. wd_heap w' a = Some nd' \<and> has_run_with_current_setup (execution_state nd')
           \<and> stat_has_run (node_stats nd') \<and> stat_completed (node_stats nd') \<and> stat_error (node_stats nd') = None)"
proof -
  from assms(7,1,3-6) obtain nd4 w4 where c: "conf nd4 = conf nd" and nd4: "wd_heap w4 a = Some nd4"
    and m: "marked a w4" and w': "wd_heap w' = sync_state_to_legacy a (update_source_file_info E a (wd_heap w4))"
    by (rule attempt_marks)
  from m nd4 obtain nd' where nd': "wd_heap w' a = Some nd'" "node_template nd' = node_template nd4"
    "cache_results nd' = cache_results nd4" "has_run_with_current_setup (execution_state nd')"
    "\<not> source_file_changed E nd'" "stat_has_run (node_stats nd')" "stat_completed (node_stats nd')"
    "stat_error (node_stats nd') = None"
    unfolding w' by (rule finish_marked)
  have "attempt E loc False False optimize' a w' = Some (w', (False, None))"
    using settled_skips[OF nd'(1) _ _ nd'(4,5)] nd'(2,3) conf_facts(1,3)[OF c] assms(2,3) by simp
  with nd' show ?thesis by blast
qed

section \<open>A concrete environment\<close>

definition sample_env :: "string \<Rightarrow> exec_env" where
  "sample_env transform = \<lparr>ee_digest = (\<lambda>v. ''digest''), ee_fuel = 8, ee_fn = (\<lambda>nd xs. Inr (nat (node_id nd))),
     ee_schema = (\<lambda>x. [(''a'', ''Int64'')]), ee_empty = 0, ee_cached = (\<lambda>x. Inl ''no cache''), ee_sampler = (\<lambda>x. None),
     ee_fetch = (\<lambda>x y. Inr (y + 10)), ee_transform = (\<lambda>ty. Some transform), ee_stat = (\<lambda>p. None)\<rparr>"

definition sample_world :: world where
  "sample_world = \<lparr>wd_heap = node_heap chain_graph, wd_cache = {}\<rparr>"

definition lone_world :: world where
  "lone_world = \<lparr>wd_heap = (\<lambda>a. if a = 1 then Some (set_up_node 1 [] []) else None), wd_cache = {}\<rparr>"

definition runs :: "(world \<times> (bool \<times> outcome)) option \<Rightarrow> bool" where
  "runs r = (case r of Some (_, True, None) \<Rightarrow> True | _ \<Rightarrow> False)"

definition recorded :: "addr \<Rightarrow> (world \<times> (bool \<times> outcome)) option \<Rightarrow> bool" where
  "recorded a r = (case r of None \<Rightarrow> False | Some (w, _) \<Rightarrow> has_run_with_current_setup (provider_get a (wd_heap w)))"

definition next_reason :: "exec_env \<Rightarrow> addr \<Rightarrow> (world \<times> (bool \<times> outcome)) option \<Rightarrow> invalidation_reason option" where
  "next_reason E a r = (case r of None \<Rightarrow> None
     | Some (w, _) \<Rightarrow> (case decide_execution E Remote False False a w of None \<Rightarrow> None | Some (_, d) \<Rightarrow> reason d))"

lemma runs_Some: "runs r \<Longrightarrow> \<exists>w. r = Some (w, (True, None))"
  by (auto simp: runs_def split: option.splits prod.splits bool.splits)

lemma executed_node_is_settled_witness:
  "\<exists>w'. attempt (sample_env ''narrow'') Remote False False True 2 sample_world = Some (w', (True, None))
      \<and> attempt (sample_env ''narrow'') Remote False False True 2 w' = Some (w', (False, None))"
proof -
  have "runs (attempt (sample_env ''narrow'') Remote False False True 2 sample_world)" by code_simp
  then obtain w' where w': "attempt (sample_env ''narrow'') Remote False False True 2 sample_world = Some (w', (True, None))"
    using runs_Some by blast
  define nd where "nd = set_up_node 2 [1] [3]"
  have nd: "wd_heap sample_world 2 = Some nd" by (simp add: sample_world_def chain_graph_def nd_def)
  have f: "node_type nd = ''filter''" "\<not> cache_results nd" "t_node_group (node_template nd) \<noteq> ''output''"
    "\<not> stat_canceled (node_stats nd)"
    unfolding nd_def by code_simp+
  from executed_node_is_settled[OF nd f(3,2) _ _ _ w', of True] f(1,4) w'
  show ?thesis by auto
qed

text \<open>
  The flag of an earlier cancellation outlives it. \<open>cancel\<close> marks the state and the legacy statistics;
  preparing the next run clears the state only, and the sampling strategy asks the statistics. So the
  first run after a cancellation computes the node without an exception but is not recorded as a run,
  and the next run decides to compute the node again, because it \<open>NEVER_RAN\<close>. Without the cancellation
  the run is recorded.
\<close>
theorem first_run_after_cancel_not_recorded:
  defines "E \<equiv> sample_env ''narrow''" and "w \<equiv> lone_world\<lparr>wd_heap := cancel 1 (wd_heap lone_world)\<rparr>"
  defines "first \<equiv> attempt E Remote False False True 1 w"
  shows "runs first \<and> \<not> recorded 1 first \<and> next_reason E 1 first = Some NEVER_RAN
    \<and> recorded 1 (attempt E Remote False False True 1 lone_world)"
  unfolding first_def E_def w_def by (intro conjI; code_simp)

text \<open>
  The override for wide transforms is dead code: \<open>_determine_strategy\<close> proposes local execution with
  sampling for narrow transforms only, so the test for a wide one after it never succeeds, whatever the
  node, the location and the reason to run.
\<close>
theorem wide_override_never_applies:
  "widen E loc optimize nd (run_it (determine_strategy E loc nd) r) = run_it (determine_strategy E loc nd) r"
  by (simp add: widen_def run_it_def determine_strategy_def)

section \<open>Enough fuel\<close>

lemma keeps_ranked: "keeps conf h h' \<Longrightarrow> ranked h r N \<Longrightarrow> ranked h' r N"
  by (blast intro: same_topo_ranked keeps_topo)

lemma keeps_present: "keeps conf h h' \<Longrightarrow> h' a = None \<longleftrightarrow> h a = None"
  by (blast dest: keeps_topo same_topo_None)

lemma keeps_still_trans: "keeps conf h h1 \<Longrightarrow> keeps still h1 h2 \<Longrightarrow> keeps conf h h2"
  by (blast intro: keeps_trans keeps_still_conf)

lemma keeps_set_up: "keeps conf h (upd_node a set_is_setup h)"
  by (rule keeps_upd) simp_all

lemma results_all_enough:
  assumes "ranked h r N" and "\<forall>a \<in> set as. h a \<noteq> None \<and> r a < n"
  shows "\<exists>h' q. results_all E n h as = Some (h', q)"
  using assms
proof (induction n arbitrary: h as)
  case 0
  then show ?case by (cases as) auto
next
  case (Suc n)
  from Suc.prems show ?case
  proof (induction as arbitrary: h)
    case (Cons a as)
    let ?h0 = "upd_node a set_is_setup h"
    from Cons.prems(2) keeps_present[OF keeps_set_up, of a h a] obtain nd where nd: "?h0 a = Some nd" by auto
    note rk = keeps_ranked[OF keeps_set_up Cons.prems(1)]
    have "\<forall>b \<in> set (get_all_inputs nd). ?h0 b \<noteq> None \<and> r b < n"
      using ranked_inputs[OF rk nd] Cons.prems(2) by fastforce
    from Suc.IH[OF rk this] obtain hi qi where i: "results_all E n ?h0 (get_all_inputs nd) = Some (hi, qi)" by blast
    have k: "keeps conf ?h0 hi" using i by (rule keeps_results)
    have "\<exists>h1 q. read_node E n ?h0 a nd = Some (h1, q) \<and> keeps conf ?h0 h1"
      using i k by (auto simp: read_node_def intro: keeps_conf_fail keeps_conf_store split: sum.splits)
    then obtain h1 q where q: "read_node E n ?h0 a nd = Some (h1, q)" and k1: "keeps conf ?h0 h1" by blast
    have kh: "keeps conf h h1" by (rule keeps_trans[OF keeps_set_up k1])
    from Cons.IH[OF keeps_ranked[OF kh Cons.prems(1)]] keeps_present[OF kh] Cons.prems(2)
    obtain h2 q2 where "results_all E (Suc n) h1 as = Some (h2, q2)" by auto
    with nd q show ?case unfolding results_all_Cons by (auto split: sum.splits)
  qed simp
qed

lemma get_enough:
  assumes "ranked h r N" and "h a \<noteq> None" and "N < ee_fuel E"
  obtains h' q where "get_resulting_data E a h = Some (h', q)"
proof -
  from assms(1,2) have "r a \<le> N" using ranked_bound by blast
  with assms results_all_enough[of h r N "[a]" "ee_fuel E" E] show ?thesis
    by (auto simp: get_resulting_data_def intro: that)
qed

lemma hash_enough:
  assumes "ranked h r N" and "h a \<noteq> None" and "N < ee_fuel E"
  obtains hs h' where "hash_all (ee_digest E) (ee_fuel E) h [a] = Some (hs, h')"
proof -
  from assms(1,2) have "r a \<le> N" using ranked_bound by blast
  with assms hash_all_enough[of h r N "[a]" "ee_fuel E" "ee_digest E"] show ?thesis by (auto intro: that)
qed

lemma full_local_enough:
  assumes rk: "ranked h r N" and a: "h a \<noteq> None" and n: "N < ee_fuel E"
  shows "do_execute_full_local E p a h \<noteq> None"
proof -
  have k: "keeps conf h (upd_results a clear_table_example h)" by (intro keeps_intros)
  have a': "upd_results a clear_table_example h a \<noteq> None" using a by (simp add: upd_results_apply)
  from get_enough[OF keeps_ranked[OF k rk] a' n] obtain h' q where
    "get_resulting_data E a (upd_results a clear_table_example h) = Some (h', q)" .
  then show ?thesis
    by (auto simp: do_execute_full_local_def Let_def split: sum.splits option.splits)
qed

lemma sampling_enough:
  assumes rk: "ranked h r N" and a: "h a \<noteq> None" and n: "N < ee_fuel E"
  shows "do_execute_local_with_sampling E p a h \<noteq> None"
proof -
  from get_enough[OF rk a n] obtain h1 q where g: "get_resulting_data E a h = Some (h1, q)" .
  note k = keeps_get[OF g]
  from a keeps_present[OF k] have a1: "h1 a \<noteq> None" by simp
  from hash_enough[OF keeps_ranked[OF k rk] a1 n] obtain hs h2 where
    "hash_all (ee_digest E) (ee_fuel E) h1 [a] = Some (hs, h2)" .
  with g show ?thesis
    by (auto simp: do_execute_local_with_sampling_def Let_def split: sum.splits option.splits)
qed

lemma compute_enough:
  assumes rk: "ranked (wd_heap w) r N" and a: "wd_heap w a \<noteq> None" and n: "N < ee_fuel E"
  shows "compute_remote E p a w \<noteq> None"
proof -
  from get_enough[OF rk a n] obtain h1 q where g: "get_resulting_data E a (wd_heap w) = Some (h1, q)" .
  note k = keeps_get[OF g]
  from a keeps_present[OF k] have a1: "h1 a \<noteq> None" by simp
  from hash_enough[OF keeps_ranked[OF k rk] a1 n] obtain hs h2 where
    hs: "hash_all (ee_digest E) (ee_fuel E) h1 [a] = Some (hs, h2)" .
  have "fetch_remote E a x (w\<lparr>wd_heap := h1\<rparr>) \<noteq> None" for x
    using hs by (auto simp: fetch_remote_def split: sum.splits fetch_failure.splits)
  with a g show ?thesis
    by (auto simp: compute_remote_def Let_def split: sum.splits option.splits)
qed

lemma remote_enough:
  assumes rk: "ranked (wd_heap w) r N" and a: "wd_heap w a \<noteq> None" and n: "N < ee_fuel E"
  shows "do_execute_remote E p a w \<noteq> None"
proof -
  from hash_enough[OF rk a n] obtain hs h where hs: "hash_all (ee_digest E) (ee_fuel E) (wd_heap w) [a] = Some (hs, h)" .
  have k: "keeps conf (wd_heap w) h" by (rule keeps_quiet_conf) (rule keeps_hash[OF hs])
  have "compute_remote E p a (w\<lparr>wd_heap := h\<rparr>) \<noteq> None"
    by (rule compute_enough[where r = r and N = N]) (use keeps_ranked[OF k rk] keeps_present[OF k] a n in auto)
  with hs a compute_enough[OF rk a n, of p] show ?thesis
    by (auto simp: do_execute_remote_def split: sum.splits option.splits)
qed

lemma strategy_enough:
  assumes rk: "ranked (wd_heap w) r N" and a: "wd_heap w a \<noteq> None" and n: "N < ee_fuel E"
  obtains w' q where "execute_with_strategy E st p a w = Some (w', q)"
proof -
  have "execute_with_strategy E st p a w \<noteq> None"
    using full_local_enough[OF rk a n, of p] sampling_enough[OF rk a n, of p] remote_enough[OF rk a n, of p]
    by (cases st) (auto simp: execute_with_strategy_def do_full_local_def do_local_with_sampling_def do_remote_def Let_def
        split: option.splits)
  then show ?thesis using that by auto
qed

lemma sync_keeps: "same_topo h h1 \<Longrightarrow> same_topo h (sync_state_to_legacy a h1)"
  unfolding sync_state_to_legacy_def Let_def upd_stats_def by (erule same_topo_upd) simp

lemma source_info_keeps: "same_topo h h1 \<Longrightarrow> same_topo h (update_source_file_info E a h1)"
  unfolding update_source_file_info_def upd_state_def
  by (auto split: option.splits intro: same_topo_upd)

lemma reset_results_keeps: "same_topo h h1 \<Longrightarrow> same_topo h (upd_state a f h1)"
  unfolding upd_state_def by (erule same_topo_upd) simp

lemma failed_keeps: "same_topo h h1 \<Longrightarrow> same_topo h (record_failure a e h1)"
  unfolding record_failure_def upd_results_def by (intro same_topo_upd sync_keeps reset_results_keeps) simp_all

lemma attempt_enough:
  assumes rk: "ranked (wd_heap w) r N" and a: "wd_heap w a \<noteq> None" and n: "2 * N + 2 \<le> ee_fuel E"
  obtains w' ran q where "attempt E loc rc p opt a w = Some (w', (ran, q))" and "same_topo (wd_heap w) (wd_heap w')"
proof -
  from n have n': "N < ee_fuel E" by simp
  obtain w1 where w1: "(if rc then clear_cache E a w else Some w) = Some w1" and k1: "keeps conf (wd_heap w) (wd_heap w1)"
  proof (cases rc)
    case True
    from hash_enough[OF rk a n'] obtain hs h where "hash_all (ee_digest E) (ee_fuel E) (wd_heap w) [a] = Some (hs, h)" .
    then obtain w1 where "clear_cache E a w = Some w1" by (auto simp: clear_cache_def remove_cache_def)
    with True show ?thesis by (intro that[of w1]) (auto intro: clear_keeps)
  next
    case False
    then show ?thesis by (intro that[of w]) simp_all
  qed
  note rk1 = keeps_ranked[OF k1 rk]
  from a keeps_present[OF k1] have a1: "wd_heap w1 a \<noteq> None" by simp
  then obtain nd1 where nd1: "wd_heap w1 a = Some nd1" by blast
  from hash_enough[OF rk1 a1 n'] obtain hs1 h1 where "hash_all (ee_digest E) (ee_fuel E) (wd_heap w1) [a] = Some (hs1, h1)" .
  with nd1 have "decide_execution E loc p rc a w1 \<noteq> None"
    by (auto simp: decide_execution_def Let_def)
  then obtain w2 d where d: "decide_execution E loc p rc a w1 = Some (w2, d)" by auto
  have k2: "keeps conf (wd_heap w) (wd_heap w2)" using keeps_still_trans[OF k1 decide_keeps(1)[OF d]] .
  from a keeps_present[OF k2] obtain nd2 where nd2: "wd_heap w2 a = Some nd2" by (cases "wd_heap w2 a") auto
  show ?thesis
  proof (cases "should_run (widen E loc opt nd2 d)")
    case False
    with w1 d nd2 have "attempt E loc rc p opt a w = Some (w2, (False, None))"
      by (simp add: attempt_def Let_def)
    then show ?thesis using keeps_topo[OF k2] by (rule that)
  next
    case True
    let ?h = "prepare_for_execution a (wd_heap w2)"
    have kp: "keeps conf (wd_heap w) ?h" by (rule keeps_trans[OF k2 prepare_keeps])
    have "\<forall>b \<in> set [a]. ?h b \<noteq> None \<and> 2 * N + 2 \<le> ee_fuel E + r b"
      using a keeps_present[OF kp] n by auto
    from reset_all_enough[OF keeps_ranked[OF kp rk] this, of "ee_digest E" False] obtain h3 where
      h3: "reset (ee_digest E) (ee_fuel E) False a ?h = Some h3" unfolding reset_def by blast
    have k3: "keeps conf (wd_heap w) h3" by (rule keeps_trans[OF kp reset_topo_conf[OF h3]])
    have "ranked (wd_heap (w2\<lparr>wd_heap := h3\<rparr>)) r N" "wd_heap (w2\<lparr>wd_heap := h3\<rparr>) a \<noteq> None"
      using keeps_ranked[OF k3 rk] keeps_present[OF k3] a by auto
    from strategy_enough[OF this n'] obtain w4 q where
      x: "execute_with_strategy E (strategy (widen E loc opt nd2 d)) (p \<and> \<not> cache_results nd2) a (w2\<lparr>wd_heap := h3\<rparr>) = Some (w4, q)" .
    have st: "same_topo (wd_heap w) (wd_heap w4)"
      using keeps_topo[OF keeps_trans[OF k3]] execute_keeps_conf[OF x] by simp
    have att: "attempt E loc rc p opt a w = (case q of
         None \<Rightarrow> Some (w4\<lparr>wd_heap := sync_state_to_legacy a (update_source_file_info E a (wd_heap w4))\<rparr>, (True, None))
       | Some e \<Rightarrow> if is_canceled (provider_get a (wd_heap w4))
           then Some (w4\<lparr>wd_heap := sync_state_to_legacy a (upd_state a reset_results_only (wd_heap w4))\<rparr>, (True, None))
           else Some (w4\<lparr>wd_heap := record_failure a e (wd_heap w4)\<rparr>, (True, Some e)))"
      using w1 d nd2 True h3 x by (simp add: attempt_def Let_def provider_save_def)
    show ?thesis
    proof (cases q)
      case None
      show ?thesis by (rule that[OF att[unfolded None option.case]]) (simp add: st sync_keeps source_info_keeps)
    next
      case (Some e)
      show ?thesis
      proof (cases "is_canceled (provider_get a (wd_heap w4))")
        case True
        with att Some show ?thesis
          by (intro that[of "w4\<lparr>wd_heap := sync_state_to_legacy a (upd_state a reset_results_only (wd_heap w4))\<rparr>" True None])
             (simp_all add: st sync_keeps reset_results_keeps)
      next
        case False
        with att Some show ?thesis
          by (intro that[of "w4\<lparr>wd_heap := record_failure a e (wd_heap w4)\<rparr>" True "Some e"]) (simp_all add: st failed_keeps)
      qed
    qed
  qed
qed

definition execute_ok :: "exec_env \<Rightarrow> run_location \<Rightarrow> (addr \<Rightarrow> nat) \<Rightarrow> nat \<Rightarrow> nat \<Rightarrow> bool" where
  "execute_ok E loc r N k \<longleftrightarrow>
     (\<forall>w a rc p retry opt. ranked (wd_heap w) r N \<longrightarrow> wd_heap w a \<noteq> None \<longrightarrow> 2 * r a + 2 \<le> k \<longrightarrow>
        (\<exists>w'. execute E loc k rc p retry opt a w = Some w' \<and> same_topo (wd_heap w) (wd_heap w')))"

definition inputs_ok :: "exec_env \<Rightarrow> run_location \<Rightarrow> (addr \<Rightarrow> nat) \<Rightarrow> nat \<Rightarrow> nat \<Rightarrow> bool" where
  "inputs_ok E loc r N k \<longleftrightarrow>
     (\<forall>w bs p. ranked (wd_heap w) r N \<longrightarrow> (\<forall>b \<in> set bs. wd_heap w b \<noteq> None \<and> 2 * r b + 3 \<le> k) \<longrightarrow>
        (\<exists>w'. execute_inputs E loc k p bs w = Some w' \<and> same_topo (wd_heap w) (wd_heap w')))"

lemma execute_without_retry:
  assumes n: "2 * N + 2 \<le> ee_fuel E" and "ranked (wd_heap w) r N" and "wd_heap w a \<noteq> None" and "0 < k"
  shows "\<exists>w'. execute E loc k rc p False opt a w = Some w' \<and> same_topo (wd_heap w) (wd_heap w')"
proof -
  from assms obtain j where k: "k = Suc j" by (cases k) auto
  from attempt_enough[OF assms(2,3) n] obtain w1 ran q where
    "attempt E loc rc p opt a w = Some (w1, (ran, q))" and "same_topo (wd_heap w) (wd_heap w1)" .
  then show ?thesis by (auto simp: k split: option.splits)
qed

lemma execute_step:
  assumes n: "2 * N + 2 \<le> ee_fuel E" and i: "inputs_ok E loc r N k"
  shows "execute_ok E loc r N (Suc k)"
  unfolding execute_ok_def
proof (intro allI impI)
  fix w :: world and a rc p retry opt
  assume rk: "ranked (wd_heap w) r N" and a: "wd_heap w a \<noteq> None" and k: "2 * r a + 2 \<le> Suc k"
  from attempt_enough[OF rk a n] obtain w1 ran q where
    att: "attempt E loc rc p opt a w = Some (w1, (ran, q))" and st: "same_topo (wd_heap w) (wd_heap w1)" .
  show "\<exists>w'. execute E loc (Suc k) rc p retry opt a w = Some w' \<and> same_topo (wd_heap w) (wd_heap w')"
  proof (cases "\<exists>e. q = Some e \<and> contains_text missing_file e \<and> retry")
    case False
    with att st show ?thesis by (cases q) auto
  next
    case True
    then obtain e where e: "q = Some e" "contains_text missing_file e" retry by blast
    note rk1 = same_topo_ranked[OF st rk]
    from same_topo_None[OF st] a obtain nd where nd: "wd_heap w1 a = Some nd" by (cases "wd_heap w1 a") auto
    let ?p = "p \<and> \<not> cache_results nd"
    have "\<forall>b \<in> set (get_all_inputs nd). wd_heap w1 b \<noteq> None \<and> 2 * r b + 3 \<le> k"
    proof
      fix b assume "b \<in> set (get_all_inputs nd)"
      from ranked_inputs[OF rk1 nd this] k show "wd_heap w1 b \<noteq> None \<and> 2 * r b + 3 \<le> k" by auto
    qed
    with i rk1 obtain w2 where w2: "execute_inputs E loc k ?p (get_all_inputs nd) w1 = Some w2"
      and st2: "same_topo (wd_heap w1) (wd_heap w2)"
      unfolding inputs_ok_def by blast
    have "wd_heap w2 a \<noteq> None" using same_topo_None[OF st2] nd by simp
    from k have "0 < k" by simp
    from execute_without_retry[OF n same_topo_ranked[OF st2 rk1] \<open>wd_heap w2 a \<noteq> None\<close> this] obtain w3 where
      w3: "execute E loc k False ?p False True a w2 = Some w3" and st3: "same_topo (wd_heap w2) (wd_heap w3)" by blast
    from att e nd w2 w3 have "execute E loc (Suc k) rc p retry opt a w = Some w3" by simp
    with same_topo_trans[OF st same_topo_trans[OF st2 st3]] show ?thesis by blast
  qed
qed

lemma inputs_step:
  assumes x: "execute_ok E loc r N k"
  shows "inputs_ok E loc r N (Suc k)"
  unfolding inputs_ok_def
proof (intro allI impI)
  fix w :: world and bs p
  assume "ranked (wd_heap w) r N" and "\<forall>b \<in> set bs. wd_heap w b \<noteq> None \<and> 2 * r b + 3 \<le> Suc k"
  then show "\<exists>w'. execute_inputs E loc (Suc k) p bs w = Some w' \<and> same_topo (wd_heap w) (wd_heap w')"
  proof (induction bs arbitrary: w)
    case (Cons b bs)
    let ?w = "w\<lparr>wd_heap := upd_node b set_is_setup (wd_heap w)\<rparr>"
    have st: "same_topo (wd_heap w) (wd_heap ?w)" using keeps_topo[OF keeps_set_up] by simp
    note rk = same_topo_ranked[OF st Cons.prems(1)]
    from same_topo_None[OF st] Cons.prems(2) obtain nd where nd: "wd_heap ?w b = Some nd"
      by (cases "wd_heap ?w b") auto
    have "\<exists>w1. (if info_is_setup nd then execute E loc k True p True True b ?w else Some ?w) = Some w1
        \<and> same_topo (wd_heap ?w) (wd_heap w1)"
    proof (cases "info_is_setup nd")
      case True
      from nd have p: "wd_heap ?w b \<noteq> None" by simp
      have "2 * r b + 2 \<le> k" using Cons.prems(2) by simp
      from x[unfolded execute_ok_def, rule_format, OF rk p this] True show ?thesis by simp
    qed simp
    then obtain w1 where w1: "(if info_is_setup nd then execute E loc k True p True True b ?w else Some ?w) = Some w1"
      and st1: "same_topo (wd_heap ?w) (wd_heap w1)" by blast
    note st' = same_topo_trans[OF st st1]
    have "\<forall>c \<in> set bs. wd_heap w1 c \<noteq> None \<and> 2 * r c + 3 \<le> Suc k"
      using Cons.prems(2) same_topo_None[OF st'] by auto
    from Cons.IH[OF same_topo_ranked[OF st' Cons.prems(1)] this] obtain w2 where
      "execute_inputs E loc (Suc k) p bs w1 = Some w2" and "same_topo (wd_heap w1) (wd_heap w2)" by blast
    with nd w1 same_topo_trans[OF st'] show ?case by (auto simp: Let_def)
  qed simp
qed

lemma execute_enough:
  assumes "2 * N + 2 \<le> ee_fuel E"
  shows "execute_ok E loc r N k \<and> inputs_ok E loc r N k"
proof (induction k)
  case 0
  show ?case by (auto simp: execute_ok_def inputs_ok_def)
next
  case (Suc k)
  then show ?case using execute_step[OF assms] inputs_step by blast
qed

section \<open>Executing keeps the edges\<close>

definition base where
  "base nd = (topo nd, cache_results nd, map_option s_texts (setting_input nd))"

lemma keeps_base: "keeps conf h h' \<Longrightarrow> keeps base h h'"
  by (erule keeps_comp[where k = "\<lambda>c. (fst c, fst (snd c), fst (snd (snd c)))"]) (simp add: base_def conf_def)

lemma base_topo: "keeps base h h' \<Longrightarrow> same_topo h h'"
  unfolding same_topo_def keeps_def[symmetric]
  by (erule keeps_comp[where k = fst]) (simp add: base_def)

lemma base_set_up: "keeps base h (upd_node a set_is_setup h)"
  by (rule keeps_base) (rule keeps_set_up)

lemma base_upd_state: "keeps base h h1 \<Longrightarrow> keeps base h (upd_state a f h1)"
  unfolding upd_state_def by (erule keeps_upd) (simp add: base_def)

lemma base_sync: "keeps base h h1 \<Longrightarrow> keeps base h (sync_state_to_legacy a h1)"
  unfolding sync_state_to_legacy_def Let_def upd_stats_def by (erule keeps_upd) (simp add: base_def)

lemma base_source_info: "keeps base h h1 \<Longrightarrow> keeps base h (update_source_file_info E a h1)"
  unfolding update_source_file_info_def by (auto split: option.splits intro: base_upd_state)

lemma base_failed: "keeps base h h1 \<Longrightarrow> keeps base h (record_failure a e h1)"
  unfolding record_failure_def upd_results_def by (intro keeps_upd base_sync base_upd_state) (simp_all add: base_def)

lemma attempt_base:
  assumes "attempt E loc rc p opt a w = Some (w', (did, q))"
  shows "keeps base (wd_heap w) (wd_heap w')"
proof (cases did)
  case False
  from assms obtain w1 where w1: "(if rc then clear_cache E a w else Some w) = Some w1"
    by (auto simp: attempt_def split: option.splits)
  with assms obtain w2 d where d: "decide_execution E loc p rc a w1 = Some (w2, d)"
    by (auto simp: attempt_def split: option.splits)
  from w1 clear_keeps have "keeps conf (wd_heap w) (wd_heap w1)" by (auto split: if_splits)
  from keeps_base[OF keeps_still_trans[OF this decide_keeps(1)[OF d]]] have "keeps base (wd_heap w) (wd_heap w2)" .
  moreover from assms w1 d False have "w' = w2"
    by (auto simp: attempt_def Let_def split: option.splits if_splits)
  ultimately show ?thesis by simp
next
  case True
  have a: "attempt E loc rc p opt a w = Some (w', (True, q))" using assms True by simp
  from a obtain w1 w2 d nd h3 w4 o4 where
    w1: "(if rc then clear_cache E a w else Some w) = Some w1"
    and d: "decide_execution E loc p rc a w1 = Some (w2, d)"
    and "wd_heap w2 a = Some nd" and "should_run (widen E loc opt nd d)"
    and h3: "reset (ee_digest E) (ee_fuel E) False a (prepare_for_execution a (wd_heap w2)) = Some h3"
    and x: "execute_with_strategy E (strategy (widen E loc opt nd d)) (p \<and> \<not> cache_results nd) a (w2\<lparr>wd_heap := h3\<rparr>) = Some (w4, o4)"
    and o4: "case o4 of
           None \<Rightarrow> q = None \<and> w' = w4\<lparr>wd_heap := sync_state_to_legacy a (update_source_file_info E a (wd_heap w4))\<rparr>
         | Some e \<Rightarrow> if is_canceled (provider_get a (wd_heap w4))
             then q = None \<and> w' = w4\<lparr>wd_heap := sync_state_to_legacy a (upd_state a reset_results_only (wd_heap w4))\<rparr>
             else q = Some e \<and> w' = w4\<lparr>wd_heap := record_failure a e (wd_heap w4)\<rparr>"
    by (rule attempt_cases)
  from w1 clear_keeps have "keeps conf (wd_heap w) (wd_heap w1)" by (auto split: if_splits)
  note k2 = keeps_still_trans[OF this decide_keeps(1)[OF d]]
  note k3 = keeps_trans[OF keeps_trans[OF k2 prepare_keeps] reset_topo_conf[OF h3]]
  have "keeps base (wd_heap w) (wd_heap w4)"
    using keeps_base[OF keeps_trans[OF k3]] execute_keeps_conf[OF x] by simp
  with o4 show ?thesis
    by (auto simp: base_sync base_source_info base_upd_state base_failed split: option.splits if_splits)
qed

lemma execute_base:
  shows "execute E loc k rc p retry opt a w = Some w' \<Longrightarrow> keeps base (wd_heap w) (wd_heap w')"
    and "execute_inputs E loc k p bs w = Some w' \<Longrightarrow> keeps base (wd_heap w) (wd_heap w')"
proof (induction E loc k rc p retry opt a w and E loc k p bs w arbitrary: w' and w' rule: execute_execute_inputs.induct)
  case (2 E loc k rc p retry opt a w)
  then obtain w1 ran q where att: "attempt E loc rc p opt a w = Some (w1, (ran, q))" by (auto split: option.splits)
  note st = attempt_base[OF att]
  show ?case
  proof (cases "\<exists>e. q = Some e \<and> contains_text missing_file e \<and> retry")
    case False
    with "2.prems" att st show ?thesis by (cases q) auto
  next
    case True
    then obtain e where e: "q = Some e" "contains_text missing_file e" retry by blast
    with "2.prems" att obtain nd w2 where nd: "wd_heap w1 a = Some nd"
      and w2: "execute_inputs E loc k (p \<and> \<not> cache_results nd) (get_all_inputs nd) w1 = Some w2"
      and w': "execute E loc k False (p \<and> \<not> cache_results nd) False True a w2 = Some w'"
      by (auto simp: Let_def split: option.splits)
    have c: "contains_text missing_file e \<and> retry" using e by simp
    from "2.IH"(1)[OF att refl refl e(1) c nd refl w2] "2.IH"(2)[OF att refl refl e(1) c nd refl w2 w'] st
    show ?thesis by (blast intro: keeps_trans)
  qed
next
  case (5 E loc k p b bs w)
  let ?w = "w\<lparr>wd_heap := upd_node b set_is_setup (wd_heap w)\<rparr>"
  have st: "keeps base (wd_heap w) (wd_heap ?w)" by (simp add: base_set_up)
  from "5.prems" obtain nd w1 where nd: "wd_heap ?w b = Some nd"
    and w1: "(if info_is_setup nd then execute E loc k True p True True b ?w else Some ?w) = Some w1"
    and w': "execute_inputs E loc (Suc k) p bs w1 = Some w'"
    by (auto simp: Let_def split: option.splits)
  have "keeps base (wd_heap ?w) (wd_heap w1)"
    using w1 "5.IH"(1)[OF refl nd] by (cases "info_is_setup nd") auto
  with "5.IH"(2)[OF refl nd w1 w'] st show ?case by (blast intro: keeps_trans)
qed auto

lemma execute_node_base:
  assumes "execute_node E loc k rc p retry opt a w = Some w'"
  shows "keeps base (wd_heap w) (wd_heap w')"
proof -
  let ?w = "w\<lparr>wd_heap := upd_node a set_is_setup (wd_heap w)\<rparr>"
  have st: "keeps base (wd_heap w) (wd_heap ?w)" by (simp add: base_set_up)
  from assms have "w' = ?w \<or> execute E loc k rc p retry opt a ?w = Some w'"
    by (auto simp: execute_node_def Let_def split: option.splits if_splits)
  with st execute_base(1) show ?thesis by (blast intro: keeps_trans)
qed

lemma execute_node_enough:
  assumes "ranked (wd_heap w) r N" and "wd_heap w a \<noteq> None" and "2 * N + 2 \<le> ee_fuel E" and "2 * r a + 2 \<le> k"
  shows "\<exists>w'. execute_node E loc k reset_cache perf retry optimize a w = Some w' \<and> same_topo (wd_heap w) (wd_heap w')"
proof -
  let ?w = "w\<lparr>wd_heap := upd_node a set_is_setup (wd_heap w)\<rparr>"
  have st: "same_topo (wd_heap w) (wd_heap ?w)" using keeps_topo[OF keeps_set_up] by simp
  from same_topo_None[OF st] assms(2) obtain nd where nd: "wd_heap ?w a = Some nd" by (cases "wd_heap ?w a") auto
  show ?thesis
  proof (cases "info_is_setup nd")
    case True
    have "wd_heap ?w a \<noteq> None" using nd by simp
    from execute_enough[OF assms(3), of loc r k, THEN conjunct1, unfolded execute_ok_def, rule_format,
        OF same_topo_ranked[OF st assms(1)] this assms(4)]
    obtain w' where "execute E loc k reset_cache perf retry optimize a ?w = Some w'"
      and "same_topo (wd_heap ?w) (wd_heap w')" by blast
    with nd True same_topo_trans[OF st] show ?thesis by (auto simp: execute_node_def Let_def)
  next
    case False
    with nd st show ?thesis by (auto simp: execute_node_def Let_def)
  qed
qed

lemma execute_node_topo: "execute_node E loc k rc p retry opt a w = Some w' \<Longrightarrow> same_topo (wd_heap w) (wd_heap w')"
  by (rule base_topo) (rule execute_node_base)

text \<open>
  C35: Executing a node always comes back. On a graph without cycles (a rank that grows along every edge, at
  most \<open>N\<close>), \<open>execute_node\<close> returns for every strategy, mode, cache content and failure of the functions
  of the nodes, of the worker and of the file system: the retry on a missing file climbs to the inputs
  at most once per level, no exception leaves, and no edge of the graph changes. The recursion depth
  is at most twice the rank of the node.
\<close>
theorem execute_node_returns:
  assumes "ranked (wd_heap w) r N" and "wd_heap w a \<noteq> None" and "2 * N + 2 \<le> ee_fuel E" and "2 * r a + 2 \<le> k"
  shows "\<exists>w'. execute_node E loc k reset_cache perf retry optimize a w = Some w' \<and> same_topo (wd_heap w) (wd_heap w')"
  using assms by (rule execute_node_enough)

lemma execute_node_returns_witness:
  "\<exists>w'. execute_node (sample_env ''narrow'') Remote 8 True False True True 3 sample_world = Some w'
    \<and> same_topo (wd_heap sample_world) (wd_heap w')"
proof (rule execute_node_returns[where r = "\<lambda>a. a" and N = 3])
  show "ranked (wd_heap sample_world) (\<lambda>a. a) 3"
    by (auto simp: ranked_def sample_world_def chain_graph_def set_up_node_def chain_node_def new_node_def
        get_all_inputs_def split: if_splits)
  show "wd_heap sample_world 3 \<noteq> None" by (simp add: sample_world_def chain_graph_def)
  show "2 * 3 + 2 \<le> ee_fuel (sample_env ''narrow'')" by (simp add: sample_env_def)
  show "2 * (3 :: addr) + 2 \<le> 8" by simp
qed

end
