(* ===== verification/Artifacts.thy ===== *)
theory Artifacts
  imports Node_State
begin

text \<open>
  The artifact context of a flow: \<open>flowfile/artifacts.py\<close>. It tracks which node published which
  Python object on which kernel, in three indices that must agree: the states of the nodes, the
  current artifacts of each kernel, and the publishers of each (kernel, name).

  A Python set of node ids is a list without duplicates in insertion order: nothing the code returns
  depends on its iteration order except the order of the entries of \<open>_deletion_origins\<close>, which is
  only read as a set. Time stamps are the argument \<open>now\<close>. A state object that a snapshot shares with
  the context is a value here. \<open>index_ok\<close> is the agreement of the indices, \<open>artifact_step\<close> the
  operations as steps.
\<close>

section \<open>State\<close>

record artifact_ref =
  ar_name :: string
  ar_source :: int
  ar_kernel :: string
  ar_type :: string
  ar_module :: string
  ar_size :: int
  ar_created :: int

record artifact_state =
  as_published :: "artifact_ref list"
  as_available :: "(string, artifact_ref) dict"
  as_consumed :: "string list"
  as_deleted :: "string list"

definition artifact_state0 :: artifact_state where
  "artifact_state0 = \<lparr>as_published = [], as_available = [], as_consumed = [], as_deleted = []\<rparr>"

record artifact_context =
  ac_states :: "(int, artifact_state) dict"
  ac_kernels :: "(string, (string, artifact_ref) dict) dict"
  ac_publishers :: "(string \<times> string, int list) dict"
  ac_origins :: "(int, (string \<times> string \<times> int) list) dict"

definition artifact_context0 :: artifact_context where
  "artifact_context0 = \<lparr>ac_states = [], ac_kernels = [], ac_publishers = [], ac_origins = []\<rparr>"

definition ref_to_dict :: "(int \<Rightarrow> string) \<Rightarrow> artifact_ref \<Rightarrow> (string, pyval) dict" where
  "ref_to_dict isof r =
     [(''name'', PStr (ar_name r)), (''source_node_id'', PInt (ar_source r)), (''kernel_id'', PStr (ar_kernel r)),
      (''type_name'', PStr (ar_type r)), (''module'', PStr (ar_module r)), (''size_bytes'', PInt (ar_size r)),
      (''created_at'', PStr (isof (ar_created r)))]"

definition artifact_state_to_dict :: "(int \<Rightarrow> string) \<Rightarrow> artifact_state \<Rightarrow> (string, pyval) dict" where
  "artifact_state_to_dict isof s =
     [(''published'', PList (map (PDict \<circ> ref_to_dict isof) (as_published s))),
      (''available'', PDict (map (\<lambda>(k, r). (k, PDict (ref_to_dict isof r))) (as_available s))),
      (''consumed'', PList (map PStr (as_consumed s))), (''deleted'', PList (map PStr (as_deleted s)))]"

definition get_or_default :: "'v \<Rightarrow> ('k, 'v) dict \<Rightarrow> 'k \<Rightarrow> 'v" where
  "get_or_default v d k = (case dict_get d k of None \<Rightarrow> v | Some x \<Rightarrow> x)"

definition node_art :: "artifact_context \<Rightarrow> int \<Rightarrow> artifact_state" where
  "node_art c n = get_or_default artifact_state0 (ac_states c) n"

definition get_or_create_state :: "int \<Rightarrow> artifact_context \<Rightarrow> artifact_context" where
  "get_or_create_state n c =
     (if dict_get (ac_states c) n = None then c\<lparr>ac_states := dict_set n artifact_state0 (ac_states c)\<rparr> else c)"

definition upd_art :: "int \<Rightarrow> (artifact_state \<Rightarrow> artifact_state) \<Rightarrow> artifact_context \<Rightarrow> artifact_context" where
  "upd_art n f c = c\<lparr>ac_states := dict_set n (f (node_art c n)) (ac_states c)\<rparr>"

section \<open>Recording\<close>

definition add_once :: "'a \<Rightarrow> 'a list \<Rightarrow> 'a list" where
  "add_once x xs = (if x \<in> set xs then xs else xs @ [x])"

definition index_ref :: "int \<Rightarrow> artifact_ref \<Rightarrow> artifact_context \<Rightarrow> artifact_context" where
  "index_ref n r c =
     c\<lparr>ac_kernels := dict_set (ar_kernel r) (dict_set (ar_name r) r (get_or_default [] (ac_kernels c) (ar_kernel r))) (ac_kernels c),
       ac_publishers := dict_set (ar_kernel r, ar_name r)
         (add_once n (get_or_default [] (ac_publishers c) (ar_kernel r, ar_name r))) (ac_publishers c)\<rparr>"

definition item_ref :: "int \<Rightarrow> int \<Rightarrow> string \<Rightarrow> pyval \<Rightarrow> load_error + artifact_ref" where
  "item_ref now n k item =
     (let d = (case item of PStr s \<Rightarrow> [(''name'', PStr s)] | PDict d \<Rightarrow> d | _ \<Rightarrow> []) in
      bindE (field as_str d ''name'') (\<lambda>name.
      bindE (field_or [] as_str d ''type_name'') (\<lambda>ty.
      bindE (field_or [] as_str d ''module'') (\<lambda>md.
      bindE (field_or 0 as_int d ''size_bytes'') (\<lambda>sz.
        Inr \<lparr>ar_name = name, ar_source = n, ar_kernel = k, ar_type = ty, ar_module = md, ar_size = sz, ar_created = now\<rparr>)))))"

text \<open>An item without a name raises \<open>KeyError\<close>; the items before it stay recorded.\<close>

fun publish_items :: "int \<Rightarrow> int \<Rightarrow> string \<Rightarrow> pyval list \<Rightarrow> artifact_context \<Rightarrow> artifact_context \<times> (load_error + artifact_ref list)" where
  "publish_items now n k [] c = (c, Inr [])"
| "publish_items now n k (item # items) c =
     (case item_ref now n k item of
        Inl e \<Rightarrow> (c, Inl e)
      | Inr r \<Rightarrow>
          (case publish_items now n k items
                  (index_ref n r (upd_art n (\<lambda>s. s\<lparr>as_published := as_published s @ [r]\<rparr>) c)) of
             (c', Inl e) \<Rightarrow> (c', Inl e)
           | (c', Inr rs) \<Rightarrow> (c', Inr (r # rs))))"

definition record_published :: "int \<Rightarrow> int \<Rightarrow> string \<Rightarrow> pyval list \<Rightarrow> artifact_context \<Rightarrow> artifact_context \<times> (load_error + artifact_ref list)" where
  "record_published now n k items c = publish_items now n k items (get_or_create_state n c)"

definition record_consumed :: "int \<Rightarrow> string list \<Rightarrow> artifact_context \<Rightarrow> artifact_context" where
  "record_consumed n names c = upd_art n (\<lambda>s. s\<lparr>as_consumed := as_consumed s @ names\<rparr>) (get_or_create_state n c)"

definition delete_name :: "int \<Rightarrow> string \<Rightarrow> string \<Rightarrow> artifact_context \<Rightarrow> artifact_context" where
  "delete_name n k name c =
     (let pubs = get_or_default [] (ac_publishers c) (k, name)
      in c\<lparr>ac_kernels := (case dict_get (ac_kernels c) k of None \<Rightarrow> ac_kernels c
             | Some km \<Rightarrow> dict_set k (dict_pop name km) (ac_kernels c)),
           ac_publishers := dict_pop (k, name) (ac_publishers c),
           ac_origins := (if pubs = [] then ac_origins c
             else dict_set n (get_or_default [] (ac_origins c) n @ map (\<lambda>p. (k, name, p)) pubs) (ac_origins c))\<rparr>)"

definition record_deleted :: "int \<Rightarrow> string \<Rightarrow> string list \<Rightarrow> artifact_context \<Rightarrow> artifact_context" where
  "record_deleted n k names c =
     fold (delete_name n k) names
       (upd_art n (\<lambda>s. s\<lparr>as_deleted := as_deleted s @ names\<rparr>) (get_or_create_state n c))"

section \<open>Availability and queries\<close>

definition apply_node :: "string \<Rightarrow> artifact_state \<Rightarrow> (string, artifact_ref) dict \<Rightarrow> (string, artifact_ref) dict" where
  "apply_node k s av =
     fold (\<lambda>r av. if ar_kernel r = k then dict_set (ar_name r) r av else av) (as_published s)
       (fold dict_pop (as_deleted s) av)"

definition available_from :: "artifact_context \<Rightarrow> string \<Rightarrow> int list \<Rightarrow> (string, artifact_ref) dict" where
  "available_from c k ids =
     fold (\<lambda>u av. case dict_get (ac_states c) u of None \<Rightarrow> av | Some s \<Rightarrow> apply_node k s av) (sort ids) []"

definition compute_available :: "int \<Rightarrow> string \<Rightarrow> int list \<Rightarrow> artifact_context \<Rightarrow> artifact_context \<times> (string, artifact_ref) dict" where
  "compute_available n k ids c =
     (let av = available_from c k ids
      in (upd_art n (\<lambda>s. s\<lparr>as_available := av\<rparr>) (get_or_create_state n c), av))"

definition get_published_by_node :: "artifact_context \<Rightarrow> int \<Rightarrow> artifact_ref list" where
  "get_published_by_node c n = as_published (node_art c n)"

definition get_available_for_node :: "artifact_context \<Rightarrow> int \<Rightarrow> (string, artifact_ref) dict" where
  "get_available_for_node c n = as_available (node_art c n)"

definition get_kernel_artifacts :: "artifact_context \<Rightarrow> string \<Rightarrow> (string, artifact_ref) dict" where
  "get_kernel_artifacts c k = get_or_default [] (ac_kernels c) k"

definition dict_update :: "('k, 'v) dict \<Rightarrow> ('k, 'v) dict \<Rightarrow> ('k, 'v) dict" where
  "dict_update d e = fold (\<lambda>(k, v). dict_set k v) e d"

definition get_all_artifacts :: "artifact_context \<Rightarrow> (string, artifact_ref) dict" where
  "get_all_artifacts c = fold (\<lambda>km d. dict_update d km) (dict_values (ac_kernels c)) []"

definition get_producer_nodes_for_deletions :: "artifact_context \<Rightarrow> int list \<Rightarrow> int list" where
  "get_producer_nodes_for_deletions c ids =
     fold (\<lambda>n ps. fold (\<lambda>(_, _, p). add_once p) (get_or_default [] (ac_origins c) n) ps) ids []"

section \<open>Clearing\<close>

definition clear_kernel :: "string \<Rightarrow> artifact_context \<Rightarrow> artifact_context" where
  "clear_kernel k c =
     c\<lparr>ac_publishers := [p \<leftarrow> ac_publishers c. fst (fst p) \<noteq> k],
       ac_origins := [p \<leftarrow> map (\<lambda>(n, es). (n, [e \<leftarrow> es. fst e \<noteq> k])) (ac_origins c). snd p \<noteq> []],
       ac_kernels := dict_pop k (ac_kernels c),
       ac_states := map (\<lambda>(n, s). (n, s\<lparr>as_available := [p \<leftarrow> as_available s. ar_kernel (snd p) \<noteq> k]\<rparr>)) (ac_states c)\<rparr>"

definition clear_all :: "artifact_context \<Rightarrow> artifact_context" where
  "clear_all c = artifact_context0"

definition unindex_ref :: "int \<Rightarrow> artifact_ref \<Rightarrow> artifact_context \<Rightarrow> artifact_context" where
  "unindex_ref n r c =
     c\<lparr>ac_kernels := (case dict_get (ac_kernels c) (ar_kernel r) of None \<Rightarrow> ac_kernels c
        | Some km \<Rightarrow> (case dict_get km (ar_name r) of None \<Rightarrow> ac_kernels c
            | Some ex \<Rightarrow> if ar_source ex = n then dict_set (ar_kernel r) (dict_pop (ar_name r) km) (ac_kernels c) else ac_kernels c)),
       ac_publishers := (case dict_get (ac_publishers c) (ar_kernel r, ar_name r) of None \<Rightarrow> ac_publishers c
        | Some ps \<Rightarrow> let ps' = [p \<leftarrow> ps. p \<noteq> n]
            in if ps' = [] then dict_pop (ar_kernel r, ar_name r) (ac_publishers c)
               else dict_set (ar_kernel r, ar_name r) ps' (ac_publishers c))\<rparr>"

definition clear_node_art :: "int \<Rightarrow> artifact_context \<Rightarrow> artifact_context" where
  "clear_node_art n c =
     (let c1 = c\<lparr>ac_origins := dict_pop n (ac_origins c), ac_states := dict_pop n (ac_states c)\<rparr>
      in case dict_get (ac_states c) n of
           None \<Rightarrow> c1
         | Some s \<Rightarrow> fold (unindex_ref n) (as_published s) c1)"

definition clear_nodes :: "int list \<Rightarrow> artifact_context \<Rightarrow> artifact_context" where
  "clear_nodes ids c = fold clear_node_art ids c"

definition snapshot_node_states :: "artifact_context \<Rightarrow> (int, artifact_state) dict" where
  "snapshot_node_states c = ac_states c"

definition restore_node_state :: "int \<Rightarrow> artifact_state \<Rightarrow> artifact_context \<Rightarrow> artifact_context" where
  "restore_node_state n s c =
     fold (index_ref n) (as_published s) (c\<lparr>ac_states := dict_set n s (ac_states c)\<rparr>)"

section \<open>Views\<close>

record artifact_edge =
  ae_source :: int
  ae_target :: int
  ae_name :: string
  ae_type :: string
  ae_kernel :: string

definition find_artifact :: "artifact_context \<Rightarrow> artifact_state \<Rightarrow> string \<Rightarrow> artifact_ref option" where
  "find_artifact c s name =
     (case dict_get (as_available s) name of
        Some r \<Rightarrow> Some r
      | None \<Rightarrow> (case [km \<leftarrow> dict_values (ac_kernels c). dict_get km name \<noteq> None] of
                   [] \<Rightarrow> None | km # _ \<Rightarrow> dict_get km name))"

definition add_edge :: "artifact_context \<Rightarrow> int \<Rightarrow> artifact_state \<Rightarrow> string \<Rightarrow> artifact_edge list \<Rightarrow> artifact_edge list" where
  "add_edge c n s name es =
     (case find_artifact c s name of
        None \<Rightarrow> es
      | Some r \<Rightarrow>
          if \<exists>e \<in> set es. ae_source e = ar_source r \<and> ae_target e = n \<and> ae_name e = name then es
          else es @ [\<lparr>ae_source = ar_source r, ae_target = n, ae_name = name, ae_type = ar_type r, ae_kernel = ar_kernel r\<rparr>])"

definition get_artifact_edges :: "artifact_context \<Rightarrow> artifact_edge list" where
  "get_artifact_edges c = fold (\<lambda>(n, s). fold (add_edge c n s) (as_consumed s)) (ac_states c) []"

record consumed_summary =
  cs_name :: string
  cs_source :: "int option"
  cs_type :: string

record node_summary =
  ns_published_count :: nat
  ns_consumed_count :: nat
  ns_deleted_count :: nat
  ns_published :: "(string \<times> string \<times> string) list"
  ns_consumed :: "consumed_summary list"
  ns_deleted :: "string list"
  ns_kernel :: string

definition summarise :: "artifact_state \<Rightarrow> node_summary" where
  "summarise s =
     \<lparr>ns_published_count = length (as_published s), ns_consumed_count = length (as_consumed s),
      ns_deleted_count = length (as_deleted s),
      ns_published = map (\<lambda>r. (ar_name r, ar_type r, ar_module r)) (as_published s),
      ns_consumed = map (\<lambda>name. (case dict_get (as_available s) name of
          None \<Rightarrow> \<lparr>cs_name = name, cs_source = None, cs_type = []\<rparr>
        | Some r \<Rightarrow> \<lparr>cs_name = name, cs_source = Some (ar_source r), cs_type = ar_type r\<rparr>)) (as_consumed s),
      ns_deleted = as_deleted s,
      ns_kernel = (case as_published s of [] \<Rightarrow> [] | r # _ \<Rightarrow> ar_kernel r)\<rparr>"

definition get_node_summaries :: "artifact_context \<Rightarrow> (int, node_summary) dict" where
  "get_node_summaries c =
     [(n, summarise s). (n, s) \<leftarrow> ac_states c, as_published s \<noteq> [] \<or> as_consumed s \<noteq> [] \<or> as_deleted s \<noteq> []]"

definition context_to_dict :: "(int \<Rightarrow> string) \<Rightarrow> (int \<Rightarrow> string) \<Rightarrow> artifact_context \<Rightarrow> (string, pyval) dict" where
  "context_to_dict show_int isof c =
     [(''nodes'', PDict (map (\<lambda>(n, s). (show_int n, PDict (artifact_state_to_dict isof s))) (ac_states c))),
      (''kernels'', PDict (map (\<lambda>(k, refs). (k, PDict (map (\<lambda>(name, r). (name, PDict (ref_to_dict isof r))) refs))) (ac_kernels c)))]"

section \<open>The indices agree\<close>

definition kernel_ref :: "artifact_context \<Rightarrow> string \<Rightarrow> string \<Rightarrow> artifact_ref option" where
  "kernel_ref c k name = dict_get (get_or_default [] (ac_kernels c) k) name"

definition publishers :: "artifact_context \<Rightarrow> string \<Rightarrow> string \<Rightarrow> int list" where
  "publishers c k name = get_or_default [] (ac_publishers c) (k, name)"

definition published :: "artifact_context \<Rightarrow> int \<Rightarrow> artifact_ref set" where
  "published c n = set (as_published (node_art c n))"

text \<open>
  Every published reference names its own node as source. The current artifact of a kernel is filed
  under its name and kernel, was published by its source, and its source is a registered publisher of
  it. A registered publisher has published an artifact of this name on this kernel.
\<close>

definition index_ok :: "artifact_context \<Rightarrow> bool" where
  "index_ok c \<longleftrightarrow>
     (\<forall>n. \<forall>r \<in> published c n. ar_source r = n)
     \<and> (\<forall>k name r. kernel_ref c k name = Some r \<longrightarrow>
          ar_kernel r = k \<and> ar_name r = name \<and> r \<in> published c (ar_source r) \<and> ar_source r \<in> set (publishers c k name))
     \<and> (\<forall>k name n. n \<in> set (publishers c k name) \<longrightarrow> (\<exists>r \<in> published c n. ar_kernel r = k \<and> ar_name r = name))"

lemma get_or_default_set [simp]: "get_or_default v (dict_set k x d) k' = (if k' = k then x else get_or_default v d k')"
  by (simp add: get_or_default_def)

lemma get_or_default_pop [simp]: "get_or_default v (dict_pop k d) k' = (if k' = k then v else get_or_default v d k')"
  by (simp add: get_or_default_def)

lemma node_art_create [simp]: "node_art (get_or_create_state n c) = node_art c"
  by (rule ext) (simp add: node_art_def get_or_create_state_def get_or_default_def)

lemma index_create [simp]:
  "kernel_ref (get_or_create_state n c) = kernel_ref c" "publishers (get_or_create_state n c) = publishers c"
  "published (get_or_create_state n c) = published c"
proof -
  show "kernel_ref (get_or_create_state n c) = kernel_ref c" "publishers (get_or_create_state n c) = publishers c"
    by (intro ext; simp add: kernel_ref_def publishers_def get_or_create_state_def)+
  show "published (get_or_create_state n c) = published c"
    by (rule ext) (simp add: published_def)
qed

lemma index_upd_art [simp]:
  "kernel_ref (upd_art n f c) = kernel_ref c" "publishers (upd_art n f c) = publishers c"
  "node_art (upd_art n f c) n' = (if n' = n then f (node_art c n) else node_art c n')"
proof -
  show "kernel_ref (upd_art n f c) = kernel_ref c" "publishers (upd_art n f c) = publishers c"
    by (intro ext; simp add: kernel_ref_def publishers_def upd_art_def)+
  show "node_art (upd_art n f c) n' = (if n' = n then f (node_art c n) else node_art c n')"
    by (simp add: node_art_def upd_art_def)
qed

lemma index_ref_facts [simp]:
  "published (index_ref n r c) = published c"
  "kernel_ref (index_ref n r c) k name = (if k = ar_kernel r \<and> name = ar_name r then Some r else kernel_ref c k name)"
  "set (publishers (index_ref n r c) k name) =
     (if k = ar_kernel r \<and> name = ar_name r then insert n (set (publishers c k name)) else set (publishers c k name))"
proof -
  show "published (index_ref n r c) = published c"
    by (rule ext) (simp add: published_def node_art_def index_ref_def)
qed (auto simp: kernel_ref_def publishers_def index_ref_def add_once_def)

lemma index_ok_published:
  assumes "index_ok c" and "ar_source r = n"
  shows "index_ok (index_ref n r (upd_art n (\<lambda>s. s\<lparr>as_published := as_published s @ [r]\<rparr>) c))"
proof -
  let ?c = "upd_art n (\<lambda>s. s\<lparr>as_published := as_published s @ [r]\<rparr>) c"
  have p: "published ?c m = (if m = n then insert r (published c n) else published c m)" for m
    by (simp add: published_def)
  show ?thesis
    using assms unfolding index_ok_def by (auto simp: p split: if_splits; metis)
qed

lemma publish_items_index:
  "publish_items now n k items c = (c', r) \<Longrightarrow> index_ok c \<Longrightarrow> index_ok c'"
proof (induction items arbitrary: c c' r)
  case (Cons item items)
  show ?case
  proof (cases "item_ref now n k item")
    case (Inl e)
    with Cons.prems show ?thesis by simp
  next
    case (Inr ref)
    then have "ar_source ref = n" by (auto simp: item_ref_def Let_def bindE_Inr_iff)
    from index_ok_published[OF Cons.prems(2) this] Cons.IH Cons.prems(1) Inr show ?thesis
      by (auto split: prod.splits sum.splits)
  qed
qed simp

lemma index_cong:
  assumes "kernel_ref c' = kernel_ref c" and "publishers c' = publishers c" and "published c' = published c"
  shows "index_ok c' = index_ok c"
  unfolding index_ok_def assms ..

lemma published_upd_art:
  "(\<And>s. as_published (f s) = as_published s) \<Longrightarrow> published (upd_art n f c) = published c"
  by (rule ext) (simp add: published_def)

lemma delete_name_facts [simp]:
  "published (delete_name n k name c) = published c"
  "kernel_ref (delete_name n k name c) k' name' = (if k' = k \<and> name' = name then None else kernel_ref c k' name')"
  "publishers (delete_name n k name c) k' name' = (if k' = k \<and> name' = name then [] else publishers c k' name')"
proof -
  show "published (delete_name n k name c) = published c"
    by (rule ext) (simp add: published_def node_art_def delete_name_def Let_def)
qed (auto simp: kernel_ref_def publishers_def delete_name_def Let_def get_or_default_def split: option.splits)

lemma index_ok_delete_name: "index_ok c \<Longrightarrow> index_ok (delete_name n k name c)"
  unfolding index_ok_def by (auto split: if_splits)

lemma index_ok_deleted: "index_ok c \<Longrightarrow> index_ok (record_deleted n k names c)"
proof -
  assume "index_ok c"
  moreover have "index_ok (upd_art n (\<lambda>s. s\<lparr>as_deleted := as_deleted s @ names\<rparr>) (get_or_create_state n c)) = index_ok c"
    by (rule index_cong) (simp_all add: published_upd_art)
  ultimately have "index_ok (upd_art n (\<lambda>s. s\<lparr>as_deleted := as_deleted s @ names\<rparr>) (get_or_create_state n c))" by simp
  then show "index_ok (record_deleted n k names c)"
    unfolding record_deleted_def by (rule fold_invariant[where P = index_ok]) (simp_all add: index_ok_delete_name)
qed

lemma unindex_facts:
  "published (unindex_ref n r c) = published c"
  "kernel_ref (unindex_ref n r c) k name =
     (case kernel_ref c k name of None \<Rightarrow> None
      | Some ex \<Rightarrow> if k = ar_kernel r \<and> name = ar_name r \<and> ar_source ex = n then None else Some ex)"
  "set (publishers (unindex_ref n r c) k name) =
     (if k = ar_kernel r \<and> name = ar_name r then set (publishers c k name) - {n} else set (publishers c k name))"
proof -
  show "published (unindex_ref n r c) = published c"
    by (rule ext) (simp add: published_def node_art_def unindex_ref_def)
  show "kernel_ref (unindex_ref n r c) k name =
     (case kernel_ref c k name of None \<Rightarrow> None
      | Some ex \<Rightarrow> if k = ar_kernel r \<and> name = ar_name r \<and> ar_source ex = n then None else Some ex)"
    by (auto simp: kernel_ref_def unindex_ref_def get_or_default_def split: option.splits)
  show "set (publishers (unindex_ref n r c) k name) =
     (if k = ar_kernel r \<and> name = ar_name r then set (publishers c k name) - {n} else set (publishers c k name))"
    by (auto simp: publishers_def unindex_ref_def Let_def get_or_default_def filter_empty_conv split: option.splits if_splits)
qed

lemma unindex_fold:
  "published (fold (unindex_ref n) rs c) = published c"
  "kernel_ref (fold (unindex_ref n) rs c) k name =
     (case kernel_ref c k name of None \<Rightarrow> None
      | Some ex \<Rightarrow> if (\<exists>r \<in> set rs. k = ar_kernel r \<and> name = ar_name r) \<and> ar_source ex = n then None else Some ex)"
  "set (publishers (fold (unindex_ref n) rs c) k name) =
     (if \<exists>r \<in> set rs. k = ar_kernel r \<and> name = ar_name r then set (publishers c k name) - {n} else set (publishers c k name))"
  by (induction rs arbitrary: c) (auto simp: unindex_facts split: option.splits if_splits)

lemma published_forget:
  "published (c\<lparr>ac_origins := os, ac_states := dict_pop n (ac_states c)\<rparr>) m = (if m = n then {} else published c m)"
  by (simp add: published_def node_art_def artifact_state0_def)

lemma index_ok_clear_node:
  assumes "index_ok c"
  shows "index_ok (clear_node_art n c)"
proof -
  let ?c1 = "c\<lparr>ac_origins := dict_pop n (ac_origins c), ac_states := dict_pop n (ac_states c)\<rparr>"
  let ?rs = "as_published (node_art c n)"
  have eq: "clear_node_art n c = fold (unindex_ref n) ?rs ?c1"
    by (simp add: clear_node_art_def node_art_def get_or_default_def artifact_state0_def split: option.splits)
  have k: "kernel_ref ?c1 = kernel_ref c" and p: "publishers ?c1 = publishers c"
    by (intro ext; simp add: kernel_ref_def publishers_def)+
  have rs: "published c n = set ?rs" by (simp add: published_def)
  show ?thesis
    using assms unfolding index_ok_def eq unindex_fold published_forget k p rs[symmetric]
    by (auto split: option.splits if_splits; metis)
qed

lemma index_ok_clear_nodes: "index_ok c \<Longrightarrow> index_ok (clear_nodes ns c)"
  unfolding clear_nodes_def by (rule fold_invariant) (auto intro: index_ok_clear_node)

lemma map_of_filter_fst: "map_of [p \<leftarrow> d. Q (fst p)] x = (if Q x then map_of d x else None)"
  by (induction d) auto

lemma map_of_map_snd: "map_of (map (\<lambda>(n, s). (n, f s)) d) x = map_option f (map_of d x)"
  by (induction d) auto

lemma clear_kernel_facts:
  "published (clear_kernel k c) = published c"
  "kernel_ref (clear_kernel k c) k' name = (if k' = k then None else kernel_ref c k' name)"
  "publishers (clear_kernel k c) k' name = (if k' = k then [] else publishers c k' name)"
proof -
  show "published (clear_kernel k c) = published c"
    by (rule ext) (auto simp: published_def node_art_def clear_kernel_def get_or_default_def map_of_map_snd artifact_state0_def
        split: option.splits)
  show "kernel_ref (clear_kernel k c) k' name = (if k' = k then None else kernel_ref c k' name)"
    by (simp add: kernel_ref_def clear_kernel_def)
  show "publishers (clear_kernel k c) k' name = (if k' = k then [] else publishers c k' name)"
    using map_of_filter_fst[of "\<lambda>x. fst x \<noteq> k" "ac_publishers c" "(k', name)"]
    by (simp add: publishers_def clear_kernel_def get_or_default_def)
qed

lemma index_ok_clear_kernel: "index_ok c \<Longrightarrow> index_ok (clear_kernel k c)"
  unfolding index_ok_def clear_kernel_facts by (auto split: if_splits)

lemma index_fold:
  assumes "\<forall>r \<in> set rs. ar_source r = n \<and> r \<in> published c n" and "index_ok c"
  shows "index_ok (fold (index_ref n) rs c)"
  using assms
proof (induction rs arbitrary: c)
  case (Cons r rs)
  have "index_ok (index_ref n r c)"
    using Cons.prems unfolding index_ok_def by (auto split: if_splits; metis)
  with Cons.IH[of "index_ref n r c"] Cons.prems show ?case by simp
qed simp

lemma index_ok_restore:
  assumes "index_ok c" and "published c n = {}" and "\<forall>r \<in> set (as_published s). ar_source r = n"
  shows "index_ok (restore_node_state n s c)"
proof -
  let ?c = "c\<lparr>ac_states := dict_set n s (ac_states c)\<rparr>"
  have p: "published ?c m = (if m = n then set (as_published s) else published c m)" for m
    by (simp add: published_def node_art_def)
  have k: "kernel_ref ?c = kernel_ref c" and q: "publishers ?c = publishers c"
    by (intro ext; simp add: kernel_ref_def publishers_def)+
  have a: "ar_source r \<noteq> n" if "kernel_ref c k name = Some r" for k name r
    using that assms(1,2) unfolding index_ok_def by (metis empty_iff)
  have b: "n \<notin> set (publishers c k name)" for k name
    using assms(1,2) unfolding index_ok_def by (metis empty_iff)
  have "index_ok ?c"
    using assms(1,3) a b unfolding index_ok_def p k q by (auto split: if_splits)
  with index_fold[of "as_published s" n ?c] assms(3) show ?thesis
    by (auto simp: restore_node_state_def p)
qed

text \<open>
  The operations as steps. Restoring is what its documentation allows: a snapshot of the node's own
  state, put back after the node's state was cleared.
\<close>

inductive artifact_step :: "artifact_context \<Rightarrow> artifact_context \<Rightarrow> bool" where
  art_publish: "artifact_step c (fst (record_published now n k items c))"
| art_consume: "artifact_step c (record_consumed n names c)"
| art_delete: "artifact_step c (record_deleted n k names c)"
| art_available: "artifact_step c (fst (compute_available n k ids c))"
| art_clear_kernel: "artifact_step c (clear_kernel k c)"
| art_clear_all: "artifact_step c (clear_all c)"
| art_clear_nodes: "artifact_step c (clear_nodes ns c)"
| art_restore: "published c n = {} \<Longrightarrow> \<forall>r \<in> set (as_published s). ar_source r = n \<Longrightarrow>
    artifact_step c (restore_node_state n s c)"

inductive_cases artifact_stepE: "artifact_step c c'"

lemma index_ok0: "index_ok artifact_context0"
  by (simp add: index_ok_def artifact_context0_def kernel_ref_def publishers_def published_def node_art_def
      get_or_default_def artifact_state0_def)

lemma index_ok_step:
  assumes "artifact_step c c'" and "index_ok c"
  shows "index_ok c'"
  using assms(1)
proof cases
  case (art_publish now n k items)
  then show ?thesis
    using publish_items_index[OF surjective_pairing, where now = now and n = n and k = k and items = items
          and c = "get_or_create_state n c"] assms(2)
      index_cong[of "get_or_create_state n c" c] by (simp add: record_published_def)
next
  case (art_consume n names)
  have "index_ok c' = index_ok c"
    unfolding art_consume record_consumed_def by (rule index_cong) (simp_all add: published_upd_art)
  with assms(2) show ?thesis by simp
next
  case (art_available n k ids)
  have "index_ok c' = index_ok c"
    unfolding art_available compute_available_def Let_def fst_conv by (rule index_cong) (simp_all add: published_upd_art)
  with assms(2) show ?thesis by simp
next
  case art_clear_all
  then show ?thesis by (simp add: clear_all_def index_ok0)
qed (use assms(2) index_ok_deleted index_ok_clear_kernel index_ok_clear_nodes index_ok_restore in auto)

text \<open>
  C34: The three indices of the artifact context agree in every state the operations can reach, also when
  several nodes publish the same name, a node deletes what others published, nodes are cleared in any
  order, or a kernel restarts: what a kernel lists as its current artifact was published by its source
  under this name on this kernel, the source is a registered publisher of it, and every registered
  publisher has published such an artifact.
\<close>
theorem artifact_indices_agree:
  assumes "artifact_step\<^sup>*\<^sup>* artifact_context0 c"
  shows "index_ok c"
  using assms by (induction rule: rtranclp_induct) (auto intro: index_ok0 index_ok_step)

definition sample_artifacts :: artifact_context where
  "sample_artifacts = record_deleted 3 ''k1'' [''model'']
     (fst (record_published 7 5 ''k1'' [PStr ''model'', PDict [(''name'', PStr ''scaler''), (''size_bytes'', PInt 8)]] artifact_context0))"

lemma artifact_indices_agree_witness:
  "index_ok sample_artifacts \<and> map ar_name (as_published (node_art sample_artifacts 5)) = [''model'', ''scaler'']"
proof
  have "artifact_step\<^sup>*\<^sup>* artifact_context0
      (fst (record_published 7 5 ''k1'' [PStr ''model'', PDict [(''name'', PStr ''scaler''), (''size_bytes'', PInt 8)]] artifact_context0))"
    by (rule r_into_rtranclp) (rule art_publish)
  then have "artifact_step\<^sup>*\<^sup>* artifact_context0 sample_artifacts"
    unfolding sample_artifacts_def by (rule rtranclp.rtrancl_into_rtrancl) (rule art_delete)
  then show "index_ok sample_artifacts" by (rule artifact_indices_agree)
  show "map ar_name (as_published (node_art sample_artifacts 5)) = [''model'', ''scaler'']" by code_simp
qed

text \<open>
  The availability of artifacts follows the node ids, not the flow. Node 5 publishes a model and the
  node 3 after it deletes it; a node behind both still sees the model as available, because the ids
  are sorted and node 3 is replayed first. With the ids the other way round the model is gone. The
  deletion is also replayed without asking for the kernel, so a deletion on the kernel \<open>k2\<close> hides the
  artifact of the same name on \<open>k1\<close>.
\<close>
theorem available_follows_ids:
  defines "pub \<equiv> \<lambda>n. fst (record_published 0 n ''k1'' [PStr ''model''] artifact_context0)"
  shows "dict_keys (snd (compute_available 9 ''k1'' [3, 5] (record_deleted 3 ''k1'' [''model''] (pub 5)))) = [''model'']
    \<and> dict_keys (snd (compute_available 9 ''k1'' [3, 5] (record_deleted 5 ''k1'' [''model''] (pub 3)))) = []
    \<and> dict_keys (snd (compute_available 9 ''k1'' [3, 5] (record_deleted 5 ''k2'' [''model''] (pub 3)))) = []
    \<and> dict_keys (get_kernel_artifacts (record_deleted 5 ''k2'' [''model''] (pub 3)) ''k1'') = [''model'']"
  unfolding pub_def by code_simp

end
