(* ===== verification/Run_Graph.thy ===== *)
theory Run_Graph
  imports Node_Executor Parameters Artifacts
begin

text \<open>
  Running a flow: \<open>run_graph\<close>, \<open>trigger_fetch_node\<close>, the stages, the callbacks of the sources and the
  artifacts of the kernels (\<open>flow_graph.py\<close>).

  The nodes of a stage run in threads. Here they run one after the other in the order \<open>rv_order\<close>, which
  is any order; two nodes of one stage do not depend on each other (\<open>execution_order_valid\<close>).
  A cancellation comes from outside: \<open>rv_cancel k\<close> says that it has arrived by the time \<open>k\<close> nodes have
  been started, and it is looked at where the code looks at the flag. Time stamps, log lines and the
  kernel manager (of whose calls the arguments are recorded) are not modelled. A node function that
  registers a completion callback is a node of \<open>rv_registers\<close>.

  The result \<open>None\<close> is exhausted fuel; \<open>run_graph_returns\<close> gives the fuel that is enough.
\<close>

section \<open>State\<close>

record node_result =
  nr_id :: int
  nr_success :: "bool option"
  nr_error :: "string option"
  nr_running :: bool

record run_information =
  ri_started :: bool
  ri_ended :: bool
  ri_success :: "bool option"
  ri_running :: bool
  ri_performance :: bool
  ri_completed :: nat
  ri_number :: nat
  ri_results :: "node_result list"
  ri_type :: string

record run_settings =
  rs_location :: run_location
  rs_performance :: bool
  rs_workers :: nat
  rs_params :: "(string, string) dict"

record run_env =
  rv_exec :: exec_env
  rv_retries :: nat
  rv_order :: "addr list \<Rightarrow> addr list"
  rv_cancel :: "nat \<Rightarrow> bool"
  rv_registers :: "addr \<Rightarrow> bool"

record run_state =
  rn_graph :: flow_graph
  rn_cache :: "string set"
  rn_artifacts :: artifact_context
  rn_settings :: run_settings
  rn_running :: bool
  rn_canceled :: bool
  rn_info :: "run_information option"
  rn_callbacks :: "addr list"
  rn_called :: "(addr \<times> bool) list"
  rn_cleared :: "(string \<times> int list) list"

definition rheap :: "run_state \<Rightarrow> heap" where
  "rheap st = node_heap (rn_graph st)"

definition put_world :: "world \<Rightarrow> run_state \<Rightarrow> run_state" where
  "put_world w st = st\<lparr>rn_graph := (rn_graph st)\<lparr>node_heap := wd_heap w\<rparr>, rn_cache := wd_cache w\<rparr>"

definition world_of :: "run_state \<Rightarrow> world" where
  "world_of st = \<lparr>wd_heap = rheap st, wd_cache = rn_cache st\<rparr>"

definition upd_heap :: "(heap \<Rightarrow> heap) \<Rightarrow> run_state \<Rightarrow> run_state" where
  "upd_heap f st = st\<lparr>rn_graph := (rn_graph st)\<lparr>node_heap := f (rheap st)\<rparr>\<rparr>"

definition upd_info :: "(run_information \<Rightarrow> run_information) \<Rightarrow> run_state \<Rightarrow> run_state" where
  "upd_info f st = st\<lparr>rn_info := map_option f (rn_info st)\<rparr>"

definition initial_run_information :: "run_settings \<Rightarrow> nat \<Rightarrow> string \<Rightarrow> run_information" where
  "initial_run_information s n ty =
     \<lparr>ri_started = True, ri_ended = False, ri_success = None, ri_running = True, ri_performance = rs_performance s,
      ri_completed = 0, ri_number = n, ri_results = [], ri_type = ty\<rparr>"

definition create_empty_run_information :: "run_settings \<Rightarrow> run_information" where
  "create_empty_run_information s =
     \<lparr>ri_started = False, ri_ended = False, ri_success = None, ri_running = False, ri_performance = rs_performance s,
      ri_completed = 0, ri_number = 0, ri_results = [], ri_type = ''init''\<rparr>"

definition get_run_info :: "run_state \<Rightarrow> run_state \<times> run_information" where
  "get_run_info st =
     (case rn_info st of
        None \<Rightarrow> (st, create_empty_run_information (rn_settings st))
      | Some i \<Rightarrow>
          (let i1 = i\<lparr>ri_running := rn_running st, ri_performance := rs_performance (rn_settings st)\<rparr>;
               i2 = (if \<not> rn_running st \<and> ri_success i1 = None
                     then i1\<lparr>ri_success := Some (\<forall>r \<in> set (ri_results i1). nr_success r = Some True)\<rparr> else i1)
           in (st\<lparr>rn_info := Some i2\<rparr>, i2)))"

section \<open>Cancellation\<close>

definition cancel_flow :: "run_state \<Rightarrow> run_state" where
  "cancel_flow st =
     (if \<not> rn_running st then st
      else upd_heap (fold Node_Executor.cancel (nodes (rn_graph st))) (st\<lparr>rn_canceled := True\<rparr>))"

definition started :: "run_state \<Rightarrow> nat" where
  "started st = (case rn_info st of None \<Rightarrow> 0 | Some i \<Rightarrow> length (ri_results i))"

definition interrupt :: "run_env \<Rightarrow> run_state \<Rightarrow> run_state" where
  "interrupt R st = (if rv_cancel R (started st) \<and> \<not> rn_canceled st then cancel_flow st else st)"

section \<open>One node\<close>

text \<open>
  The settings object as the parameter substitution sees it: its texts are the description and the
  fields of the concrete class, the other fields hold no text.
\<close>

definition to_model :: "node_setting \<Rightarrow> pyval" where
  "to_model s = PModel ((''description'', PStr (s_description s)) # s_fields s)"

definition of_model :: "pyval \<Rightarrow> node_setting \<Rightarrow> node_setting" where
  "of_model m s =
     (case m of PModel ((_, PStr d) # fs) \<Rightarrow> s\<lparr>s_description := d, s_fields := fs\<rparr> | _ \<Rightarrow> s)"

definition set_setting :: "pyval \<Rightarrow> flow_node \<Rightarrow> flow_node" where
  "set_setting m nd = nd\<lparr>setting_input := map_option (of_model m) (setting_input nd)\<rparr>"

definition substitute :: "(string, string) dict \<Rightarrow> addr \<Rightarrow> heap \<Rightarrow> heap \<times> (apply_error + restorations)" where
  "substitute params a h =
     (case h a of
        None \<Rightarrow> (h, Inr [])
      | Some nd \<Rightarrow>
          (case setting_input nd of
             None \<Rightarrow> (h, Inr [])
           | Some s \<Rightarrow> (case apply_parameters_in_place (to_model s) params of
                          (m, r) \<Rightarrow> (upd_node a (set_setting m) h, r))))"

definition undo_substitution :: "restorations \<Rightarrow> addr \<Rightarrow> heap \<Rightarrow> heap" where
  "undo_substitution rs a h =
     upd_node a (\<lambda>nd. nd\<lparr>setting_input := map_option (\<lambda>s. of_model (restore_parameters rs (to_model s)) s) (setting_input nd)\<rparr>) h"

definition upd_last :: "('a \<Rightarrow> 'a) \<Rightarrow> 'a list \<Rightarrow> 'a list" where
  "upd_last f xs = (if xs = [] then [] else butlast xs @ [f (last xs)])"

definition upd_result :: "(node_result \<Rightarrow> node_result) \<Rightarrow> run_state \<Rightarrow> run_state" where
  "upd_result f = upd_info (\<lambda>i. i\<lparr>ri_results := upd_last f (ri_results i)\<rparr>)"

definition unresolved_text :: "string list \<Rightarrow> string" where
  "unresolved_text ns = ''Unresolved parameter references in node settings: '' @ concat (map (\<lambda>n. n @ '' '') ns)"

definition error_text :: "string option \<Rightarrow> string" where
  "error_text e = (case e of None \<Rightarrow> ''None'' | Some s \<Rightarrow> s)"

definition begin_node :: "addr \<Rightarrow> run_state \<Rightarrow> run_state" where
  "begin_node a st =
     upd_info (\<lambda>i. i\<lparr>ri_results := ri_results i @
        [\<lparr>nr_id = nid (rheap st) a, nr_success = None, nr_error = None, nr_running = True\<rparr>]\<rparr>) st"

definition finish_node :: "addr \<Rightarrow> run_state \<Rightarrow> run_state \<times> bool option" where
  "finish_node a st =
     (let e = res_errors (rheap st) a;
          st1 = upd_result (\<lambda>r. r\<lparr>nr_error := Some (error_text e), nr_running := False\<rparr>) st
      in if rn_canceled st1 then (upd_result (\<lambda>r. r\<lparr>nr_success := None\<rparr>) st1, None)
         else (upd_info (\<lambda>i. i\<lparr>ri_completed := ri_completed i + 1\<rparr>)
                 (upd_result (\<lambda>r. r\<lparr>nr_success := Some (e = None)\<rparr>) st1), Some (e = None)))"

text \<open>The result is the success that the node's record holds.\<close>

definition execute_single_node :: "run_env \<Rightarrow> addr \<Rightarrow> run_state \<Rightarrow> (run_state \<times> bool option) option" where
  "execute_single_node R a st =
     (let st1 = begin_node a st; s = rn_settings st
      in case rheap st1 a of
           None \<Rightarrow> None
         | Some nd \<Rightarrow>
             (case (if rs_params s = [] then (rheap st1, Inr []) else substitute (rs_params s) a (rheap st1)) of
                (h, Inl (UnresolvedReferences ns)) \<Rightarrow>
                  Some (upd_result (\<lambda>r. r\<lparr>nr_error := Some (unresolved_text ns), nr_success := Some False, nr_running := False\<rparr>)
                          (upd_heap (\<lambda>_. h) st1), Some False)
              | (h, Inr rs) \<Rightarrow>
                  (case execute_node (rv_exec R) (rs_location s) (rv_retries R) False (rs_performance s) True True a
                          (world_of (upd_heap (\<lambda>_. h) st1)) of
                     None \<Rightarrow> None
                   | Some w \<Rightarrow>
                       (let h1 = (if rs = [] then wd_heap w else undo_substitution rs a (wd_heap w));
                            st2 = put_world (w\<lparr>wd_heap := upd_node a (\<lambda>x. x\<lparr>node_hash := node_hash nd\<rparr>) h1\<rparr>) st1;
                            st3 = (if rv_registers R a \<and> a \<notin> set (rn_callbacks st2) then st2\<lparr>rn_callbacks := rn_callbacks st2 @ [a]\<rparr> else st2)
                        in Some (finish_node a (interrupt R st3))))))"

section \<open>Stages\<close>

fun execute_list :: "run_env \<Rightarrow> addr list \<Rightarrow> run_state \<Rightarrow> (run_state \<times> (addr \<times> bool option) list) option" where
  "execute_list R [] st = Some (st, [])"
| "execute_list R (a # as) st =
     (case execute_single_node R a st of
        None \<Rightarrow> None
      | Some (st1, r) \<Rightarrow>
          (case execute_list R as st1 of
             None \<Rightarrow> None
           | Some (st2, rs) \<Rightarrow> Some (st2, (a, r) # rs)))"

definition stage_order :: "run_env \<Rightarrow> run_settings \<Rightarrow> addr list \<Rightarrow> addr list" where
  "stage_order R s xs =
     (if length xs = 1 \<or> rs_location s = Local \<or> rs_workers s = 1 then xs else rv_order R xs)"

definition dependent_ids :: "run_env \<Rightarrow> heap \<Rightarrow> addr \<Rightarrow> int set option" where
  "dependent_ids R h a =
     (case h a of
        None \<Rightarrow> Some {}
      | Some nd \<Rightarrow> map_option (\<lambda>ds. nid h ` set ds) (get_all_dependent_nodes h (ee_fuel (rv_exec R)) nd))"

fun propagate :: "run_env \<Rightarrow> heap \<Rightarrow> (addr \<times> bool option) list \<Rightarrow> int set \<times> int set \<Rightarrow> (int set \<times> int set) option" where
  "propagate R h [] fs = Some fs"
| "propagate R h ((a, r) # rs) (failed, skip) =
     (if r = Some True then propagate R h rs (failed, skip)
      else case dependent_ids R h a of
             None \<Rightarrow> None
           | Some ds \<Rightarrow> propagate R h rs (insert (nid h a) failed, insert (nid h a) skip \<union> ds))"

text \<open>The state, the results of each stage, the failed ids and the ids to skip.\<close>

type_synonym stage_log = "(addr \<times> bool option) list list"

fun execute_stages :: "run_env \<Rightarrow> addr list list \<Rightarrow> int set \<Rightarrow> int set \<Rightarrow> run_state \<Rightarrow>
    (run_state \<times> stage_log \<times> int set \<times> int set) option" where
  "execute_stages R [] failed skip st = Some (st, [], failed, skip)"
| "execute_stages R (s # ss) failed skip st0 =
     (let st = interrupt R st0 in
      if rn_canceled st then Some (st, [], failed, skip)
      else (let todo = [a \<leftarrow> s. nid (rheap st) a \<notin> skip] in
            if todo = [] then
              map_option (\<lambda>(st', log, fs). (st', [] # log, fs)) (execute_stages R ss failed skip st)
            else (case execute_list R (stage_order R (rn_settings st) todo) st of
                    None \<Rightarrow> None
                  | Some (st1, rs) \<Rightarrow>
                      (case propagate R (rheap st1) rs (failed, skip) of
                         None \<Rightarrow> None
                       | Some (failed1, skip1) \<Rightarrow>
                           map_option (\<lambda>(st', log, fs). (st', rs # log, fs)) (execute_stages R ss failed1 skip1 st1)))))"

section \<open>Completion callbacks\<close>

definition callback_success :: "run_env \<Rightarrow> heap \<Rightarrow> int set \<Rightarrow> addr \<Rightarrow> bool option" where
  "callback_success R h incomplete a =
     (if nid h a \<in> incomplete then Some False
      else map_option (\<lambda>ds. ds \<inter> incomplete = {}) (dependent_ids R h a))"

fun run_callbacks :: "run_env \<Rightarrow> int set \<Rightarrow> addr list \<Rightarrow> run_state \<Rightarrow> run_state option" where
  "run_callbacks R incomplete [] st = Some st"
| "run_callbacks R incomplete (a # as) st =
     (if a \<notin> set (rn_callbacks st) then run_callbacks R incomplete as st
      else case callback_success R (rheap st) incomplete a of
             None \<Rightarrow> None
           | Some b \<Rightarrow> run_callbacks R incomplete as
               (st\<lparr>rn_called := rn_called st @ [(a, b)], rn_callbacks := removeAll a (rn_callbacks st)\<rparr>))"

definition run_post_execution_callbacks :: "run_env \<Rightarrow> int set \<Rightarrow> int set \<Rightarrow> run_state \<Rightarrow> run_state option" where
  "run_post_execution_callbacks R failed skip st = run_callbacks R (failed \<union> skip) (nodes (rn_graph st)) st"

section \<open>Artifacts before a run\<close>

definition kernel_id_of :: "flow_node \<Rightarrow> string option" where
  "kernel_id_of nd =
     (case setting_input nd of
        None \<Rightarrow> None
      | Some s \<Rightarrow>
          (case dict_get (s_fields s) ''python_script_input'' of
             Some (PModel fs) \<Rightarrow> (case dict_get fs ''kernel_id'' of Some (PStr (c # cs)) \<Rightarrow> Some (c # cs) | _ \<Rightarrow> None)
           | _ \<Rightarrow> None))"

definition script_kernel :: "heap \<Rightarrow> addr \<Rightarrow> string option" where
  "script_kernel h a =
     (case h a of None \<Rightarrow> None | Some nd \<Rightarrow> if node_type nd = ''python_script'' then kernel_id_of nd else None)"

definition get_required_kernel_ids :: "flow_graph \<Rightarrow> string set" where
  "get_required_kernel_ids g = {k. \<exists>a \<in> set (nodes g). script_kernel (node_heap g) a = Some k}"

definition compute_rerun_python_script_node_ids :: "flow_graph \<Rightarrow> int set \<Rightarrow> int list" where
  "compute_rerun_python_script_node_ids g plan_skip =
     [node_id nd. a \<leftarrow> nodes g, nd \<leftarrow> (case node_heap g a of None \<Rightarrow> [] | Some nd \<Rightarrow> [nd]),
        node_type nd = ''python_script'' \<and> node_id nd \<notin> plan_skip \<and> \<not> has_run_with_current_setup (execution_state nd)]"

definition all_producers :: "artifact_context \<Rightarrow> int set" where
  "all_producers c = (\<Union>es \<in> set (dict_values (ac_origins c)). (\<lambda>e. snd (snd e)) ` set es)"

definition producers_of :: "artifact_context \<Rightarrow> int \<Rightarrow> int set" where
  "producers_of c n = (\<lambda>e. snd (snd e)) ` set (get_or_default [] (ac_origins c) n)"

lemma add_once_set [simp]: "set (add_once x xs) = insert x (set xs)"
  by (auto simp: add_once_def)

lemma fold_add_once: "set (fold (\<lambda>(_, _, p). add_once p) es ps) = set ps \<union> (\<lambda>e. snd (snd e)) ` set es"
  by (induction es arbitrary: ps) auto

lemma get_producers_set: "set (get_producer_nodes_for_deletions c ns) = (\<Union>n \<in> set ns. producers_of c n)"
proof -
  have "set (fold (\<lambda>n ps. fold (\<lambda>(_, _, p). add_once p) (get_or_default [] (ac_origins c) n) ps) ns ps)
      = set ps \<union> (\<Union>n \<in> set ns. producers_of c n)" for ps
    by (induction ns arbitrary: ps) (auto simp: fold_add_once producers_of_def)
  then show ?thesis by (simp add: get_producer_nodes_for_deletions_def)
qed

lemma producers_of_all: "producers_of c n \<subseteq> all_producers c"
proof (cases "dict_get (ac_origins c) n")
  case (Some es)
  then have "es \<in> set (dict_values (ac_origins c))" by (force simp: dict_values_def dest: map_of_SomeD)
  then show ?thesis using Some by (auto simp: producers_of_def all_producers_def get_or_default_def)
qed (simp add: producers_of_def get_or_default_def)

function rerun_closure :: "artifact_context \<Rightarrow> int list \<Rightarrow> int list" where
  "rerun_closure c ns =
     (let new = [p \<leftarrow> get_producer_nodes_for_deletions c ns. p \<notin> set ns]
      in if new = [] then ns else rerun_closure c (ns @ new))"
  by pat_completeness auto
termination
proof (relation "measure (\<lambda>(c, ns). card (all_producers c - set ns))")
  fix c :: artifact_context and ns new
  assume new: "new = [p \<leftarrow> get_producer_nodes_for_deletions c ns. p \<notin> set ns]" and "new \<noteq> []"
  then obtain p where p: "p \<in> set new" by (meson last_in_set)
  with new have "p \<in> (\<Union>n \<in> set ns. producers_of c n)" "p \<notin> set ns" using get_producers_set[of c ns] by auto
  with producers_of_all have "p \<in> all_producers c - set ns" by blast
  moreover have "finite (all_producers c)" by (auto simp: all_producers_def)
  ultimately have "card (all_producers c - set (ns @ new)) < card (all_producers c - set ns)"
    using p by (intro psubset_card_mono) auto
  then show "((c, ns @ new), c, ns) \<in> measure (\<lambda>(c, ns). card (all_producers c - set ns))" by simp
qed simp

declare rerun_closure.simps [simp del]

definition mark_stale :: "int list \<Rightarrow> flow_graph \<Rightarrow> flow_graph" where
  "mark_stale ns g =
     g\<lparr>node_heap := fold (\<lambda>n h. case get_node g n of None \<Rightarrow> h
        | Some a \<Rightarrow> upd_state a (\<lambda>s. s\<lparr>has_run_with_current_setup := False\<rparr>) h) ns (node_heap g)\<rparr>"

definition group_rerun_nodes_by_kernel :: "flow_graph \<Rightarrow> int list \<Rightarrow> (string, int list) dict" where
  "group_rerun_nodes_by_kernel g ns =
     fold (\<lambda>a d. case script_kernel (node_heap g) a of
            None \<Rightarrow> d
          | Some k \<Rightarrow> if nid (node_heap g) a \<in> set ns
              then dict_set k (add_once (nid (node_heap g) a) (get_or_default [] d k)) d else d)
       (nodes g) []"

definition prepare_rerun_artifacts :: "int set \<Rightarrow> run_state \<Rightarrow> run_state" where
  "prepare_rerun_artifacts plan_skip st =
     (let g = rn_graph st;
          ns = rerun_closure (rn_artifacts st) (compute_rerun_python_script_node_ids g plan_skip);
          g1 = mark_stale ns g;
          stale = [n \<leftarrow> dict_keys (ac_states (rn_artifacts st)). n \<notin> set (dict_keys (node_db g))]
      in st\<lparr>rn_graph := g1, rn_artifacts := clear_nodes (ns @ stale) (rn_artifacts st),
            rn_cleared := rn_cleared st @ group_rerun_nodes_by_kernel g1 ns\<rparr>)"

section \<open>The run\<close>

definition finish_run :: "run_state \<Rightarrow> run_state" where
  "finish_run st = upd_info (\<lambda>i. i\<lparr>ri_ended := True\<rparr>) st\<lparr>rn_running := False\<rparr>"

definition run_graph :: "run_env \<Rightarrow> run_state \<Rightarrow> (run_state \<times> (py_error + run_information \<times> stage_log)) option" where
  "run_graph R st =
     (if rn_running st then Some (st, Inl (PyException ''Flow is already running''))
      else let st1 = st\<lparr>rn_running := True, rn_canceled := False\<rparr> in
           case plan_of (rn_graph st1) of
             Inl e \<Rightarrow> Some (st1\<lparr>rn_running := False\<rparr>, Inl e)
           | Inr plan \<Rightarrow>
               (let skip = nid (rheap st1) ` set (skip_nodes plan);
                    st2 = (prepare_rerun_artifacts skip st1)\<lparr>rn_info := Some (initial_run_information (rn_settings st1)
                             (plan_node_count plan) ''full_run'')\<rparr>
                in case execute_stages R (stages plan) {} skip st2 of
                     None \<Rightarrow> None
                   | Some (st3, log, failed, skip') \<Rightarrow>
                       (case (if rn_canceled st3 then Some st3 else run_post_execution_callbacks R failed skip' st3) of
                          None \<Rightarrow> None
                        | Some st4 \<Rightarrow>
                            (case get_run_info (finish_run st4) of
                               (st5, i) \<Rightarrow> Some (st5, Inr (i, log))))))"

definition trigger_fetch_node :: "run_env \<Rightarrow> int \<Rightarrow> run_state \<Rightarrow> (run_state \<times> (py_error + run_information option)) option" where
  "trigger_fetch_node R i st =
     (if rn_running st then Some (st, Inl (PyException ''Flow is already running''))
      else case get_node (rn_graph st) i of
             None \<Rightarrow> Some (st\<lparr>rn_running := True, rn_canceled := False,
                 rn_info := Some (initial_run_information (rn_settings st) 1 ''fetch_one'')\<rparr>, Inl AttributeError)
           | Some a \<Rightarrow>
               (let s = rn_settings st;
                    st1 = begin_node a (st\<lparr>rn_running := True, rn_canceled := False,
                             rn_info := Some (initial_run_information s 1 ''fetch_one'')\<rparr>)
                in case execute_node (rv_exec R) (rs_location s) (rv_retries R) True False True False a (world_of st1) of
                     None \<Rightarrow> None
                   | Some w \<Rightarrow>
                       (let st2 = interrupt R (put_world w st1); e = res_errors (rheap st2) a;
                            st3 = upd_result (\<lambda>r. r\<lparr>nr_error := Some (error_text e), nr_success := Some (e = None), nr_running := False\<rparr>) st2;
                            st4 = finish_run (upd_info (\<lambda>i. i\<lparr>ri_completed := ri_completed i + 1\<rparr>) st3)
                        in case get_run_info st4 of (st5, info) \<Rightarrow> Some (st5, Inr (Some info)))))"

section \<open>Upstream nodes\<close>

text \<open>Breadth first over \<open>all_inputs\<close>; the fuel bounds the length of the queue over time.\<close>

fun upstream_loop :: "heap \<Rightarrow> nat \<Rightarrow> addr list \<Rightarrow> int list \<Rightarrow> int list option" where
  "upstream_loop h n [] result = Some result"
| "upstream_loop h 0 (a # queue) result = None"
| "upstream_loop h (Suc n) (a # queue) result =
     (case h a of
        None \<Rightarrow> None
      | Some nd \<Rightarrow>
          if node_id nd \<in> set result then upstream_loop h n queue result
          else upstream_loop h n (queue @ get_all_inputs nd) (result @ [node_id nd]))"

definition get_upstream_node_ids :: "nat \<Rightarrow> flow_graph \<Rightarrow> int \<Rightarrow> int list option" where
  "get_upstream_node_ids n g i =
     (case get_node g i of
        None \<Rightarrow> Some []
      | Some a \<Rightarrow> (case node_heap g a of None \<Rightarrow> Some [] | Some nd \<Rightarrow> upstream_loop (node_heap g) n (get_all_inputs nd) []))"

definition source_name :: "(int \<Rightarrow> string) \<Rightarrow> flow_node \<Rightarrow> string" where
  "source_name show_int nd =
     (case setting_input nd of
        Some s \<Rightarrow> (case dict_get (s_fields s) ''node_reference'' of Some (PStr (c # cs)) \<Rightarrow> c # cs | _ \<Rightarrow> ''df_'' @ show_int (node_id nd))
      | None \<Rightarrow> ''df_'' @ show_int (node_id nd))"

definition resolve_input_names :: "(int \<Rightarrow> string) \<Rightarrow> heap \<Rightarrow> flow_node option \<Rightarrow> nat \<Rightarrow> string list option" where
  "resolve_input_names show_int h no table_count =
     (case no of
        None \<Rightarrow> None
      | Some nd \<Rightarrow>
          if table_count = 0 then None
          else (let names = [source_name show_int s. a \<leftarrow> get_all_inputs nd, s \<leftarrow> (case h a of None \<Rightarrow> [] | Some s \<Rightarrow> [s])]
                in if length names \<noteq> table_count then None else Some names))"

section \<open>Frame of a run\<close>

lemma rheap_simps [simp]:
  "rheap (upd_info f st) = rheap st" "rheap (upd_heap k st) = k (rheap st)" "rheap (put_world w st) = wd_heap w"
  "rheap (st\<lparr>rn_info := i\<rparr>) = rheap st" "rheap (st\<lparr>rn_canceled := b\<rparr>) = rheap st"
  "rheap (st\<lparr>rn_callbacks := cs\<rparr>) = rheap st" "rheap (st\<lparr>rn_called := cl\<rparr>) = rheap st"
  "rheap (st\<lparr>rn_running := b\<rparr>) = rheap st" "rheap (upd_result g st) = rheap st" "rheap (begin_node a st) = rheap st"
  by (simp_all add: rheap_def upd_info_def upd_heap_def put_world_def upd_result_def begin_node_def)

text \<open>What no step of a run changes: the registry, the settings, the artifacts, the calls of callbacks.\<close>

definition run_frame where
  "run_frame st = (node_db (rn_graph st), flow_starts (rn_graph st), rn_settings st, rn_running st, rn_called st)"

lemma frame_simps [simp]:
  "run_frame (upd_info f st) = run_frame st" "run_frame (upd_heap k st) = run_frame st"
  "run_frame (put_world w st) = run_frame st" "run_frame (st\<lparr>rn_callbacks := cs\<rparr>) = run_frame st"
  "run_frame (st\<lparr>rn_canceled := b\<rparr>) = run_frame st" "run_frame (upd_result g st) = run_frame st"
  "run_frame (begin_node a st) = run_frame st" "run_frame (st\<lparr>rn_info := i\<rparr>) = run_frame st"
  by (simp_all add: run_frame_def upd_info_def upd_heap_def put_world_def upd_result_def begin_node_def)

lemma canceled_simps [simp]:
  "rn_canceled (upd_info f st) = rn_canceled st" "rn_canceled (upd_heap k st) = rn_canceled st"
  "rn_canceled (put_world w st) = rn_canceled st" "rn_canceled (upd_result g st) = rn_canceled st"
  "rn_canceled (begin_node a st) = rn_canceled st"
  by (simp_all add: upd_info_def upd_heap_def put_world_def upd_result_def begin_node_def)

lemma cancel_node_topo: "same_topo h h1 \<Longrightarrow> same_topo h (Node_Executor.cancel a h1)"
  unfolding Node_Executor.cancel_def upd_state_def upd_stats_def by (intro same_topo_upd) simp_all

lemma cancel_flow_topo: "same_topo (rheap st) (rheap (cancel_flow st))"
proof -
  have "same_topo h (fold Node_Executor.cancel as h)" for as h
    by (rule fold_invariant[where P = "same_topo h"]) (simp_all add: cancel_node_topo)
  then show ?thesis by (simp add: cancel_flow_def)
qed

lemma interrupt_facts:
  "same_topo (rheap st) (rheap (interrupt R st))" "run_frame (interrupt R st) = run_frame st"
  "rn_canceled st \<Longrightarrow> rn_canceled (interrupt R st)"
  by (simp_all add: interrupt_def cancel_flow_topo) (simp add: cancel_flow_def)

lemma finish_facts:
  "finish_node a st = (st', r) \<Longrightarrow> rheap st' = rheap st \<and> run_frame st' = run_frame st \<and> rn_canceled st' = rn_canceled st"
  by (auto simp: finish_node_def Let_def split: if_splits)

lemma set_setting_topo: "same_topo h h1 \<Longrightarrow> same_topo h (upd_node a (set_setting m) h1)"
  by (erule same_topo_upd) (simp add: set_setting_def topo_def)

lemma substitute_topo: "substitute params a h = (h', r) \<Longrightarrow> same_topo h h'"
  by (auto simp: substitute_def intro: set_setting_topo split: option.splits prod.splits)

lemma undo_topo: "same_topo h h1 \<Longrightarrow> same_topo h (undo_substitution rs a h1)"
  unfolding undo_substitution_def by (erule same_topo_upd) (simp add: topo_def)

lemma hash_topo: "same_topo h h1 \<Longrightarrow> same_topo h (upd_node a (\<lambda>x. x\<lparr>node_hash := v\<rparr>) h1)"
  by (erule same_topo_upd) (simp add: topo_def)

definition run_step :: "run_state \<Rightarrow> run_state \<Rightarrow> bool" where
  "run_step st st' \<longleftrightarrow> same_topo (rheap st) (rheap st') \<and> run_frame st' = run_frame st
     \<and> (rn_canceled st \<longrightarrow> rn_canceled st')"

lemma run_step_refl [simp]: "run_step st st"
  by (simp add: run_step_def)

lemma run_step_trans: "run_step st st1 \<Longrightarrow> run_step st1 st2 \<Longrightarrow> run_step st st2"
  by (auto simp: run_step_def intro: same_topo_trans)

lemma single_node_cases:
  assumes "execute_single_node R a st = Some (st', r)"
  obtains h ns where "substitute (rs_params (rn_settings st)) a (rheap st) = (h, Inl (UnresolvedReferences ns))"
      and "r = Some False"
      and "st' = upd_result (\<lambda>r. r\<lparr>nr_error := Some (unresolved_text ns), nr_success := Some False, nr_running := False\<rparr>)
             (upd_heap (\<lambda>_. h) (begin_node a st))"
  | h rs w nd st3 where
      "(if rs_params (rn_settings st) = [] then (rheap st, Inr []) else substitute (rs_params (rn_settings st)) a (rheap st)) = (h, Inr rs)"
      and "execute_node (rv_exec R) (rs_location (rn_settings st)) (rv_retries R) False (rs_performance (rn_settings st)) True True a
             (world_of (upd_heap (\<lambda>_. h) (begin_node a st))) = Some w"
      and "rheap st a = Some nd"
      and "rheap st3 = upd_node a (\<lambda>x. x\<lparr>node_hash := node_hash nd\<rparr>)
             (if rs = [] then wd_heap w else undo_substitution rs a (wd_heap w))"
      and "run_frame st3 = run_frame st" and "rn_canceled st3 = rn_canceled st"
      and "finish_node a (interrupt R st3) = (st', r)"
proof -
  let ?s = "rn_settings st"
  let ?st1 = "begin_node a st"
  from assms obtain nd where nd: "rheap st a = Some nd" by (auto simp: execute_single_node_def Let_def split: option.splits)
  obtain h q where hq: "(if rs_params ?s = [] then (rheap st, Inr []) else substitute (rs_params ?s) a (rheap st)) = (h, q)"
    by fastforce
  show ?thesis
  proof (cases q)
    case (Inl e)
    then obtain ns where ns: "q = Inl (UnresolvedReferences ns)" by (cases e) auto
    with hq have "substitute (rs_params ?s) a (rheap st) = (h, Inl (UnresolvedReferences ns))" by (auto split: if_splits)
    moreover have "execute_single_node R a st =
        Some (upd_result (\<lambda>r. r\<lparr>nr_error := Some (unresolved_text ns), nr_success := Some False, nr_running := False\<rparr>)
             (upd_heap (\<lambda>_. h) ?st1), Some False)"
      unfolding execute_single_node_def Let_def rheap_simps hq using nd ns by simp
    ultimately show ?thesis using assms by (intro that(1)) simp_all
  next
    case (Inr rs)
    obtain w where w: "execute_node (rv_exec R) (rs_location ?s) (rv_retries R) False (rs_performance ?s) True True a
        (world_of (upd_heap (\<lambda>_. h) ?st1)) = Some w"
      using assms nd Inr unfolding execute_single_node_def Let_def rheap_simps hq by (auto split: option.splits)
    let ?h1 = "if rs = [] then wd_heap w else undo_substitution rs a (wd_heap w)"
    let ?st2 = "put_world (w\<lparr>wd_heap := upd_node a (\<lambda>x. x\<lparr>node_hash := node_hash nd\<rparr>) ?h1\<rparr>) ?st1"
    let ?st3 = "if rv_registers R a \<and> a \<notin> set (rn_callbacks ?st2) then ?st2\<lparr>rn_callbacks := rn_callbacks ?st2 @ [a]\<rparr> else ?st2"
    have r: "execute_single_node R a st = Some (finish_node a (interrupt R ?st3))"
      unfolding execute_single_node_def Let_def rheap_simps hq using nd Inr w by simp
    have "rheap ?st3 = upd_node a (\<lambda>x. x\<lparr>node_hash := node_hash nd\<rparr>) ?h1" "run_frame ?st3 = run_frame st"
      "rn_canceled ?st3 = rn_canceled st"
      by simp_all
    with r assms hq Inr w nd show ?thesis by (intro that(2)) auto
  qed
qed

lemma single_node_step: "execute_single_node R a st = Some (st', r) \<Longrightarrow> run_step st st'"
proof (erule single_node_cases)
  fix h ns
  assume "substitute (rs_params (rn_settings st)) a (rheap st) = (h, Inl (UnresolvedReferences ns))"
    and "st' = upd_result (\<lambda>r. r\<lparr>nr_error := Some (unresolved_text ns), nr_success := Some False, nr_running := False\<rparr>)
             (upd_heap (\<lambda>_. h) (begin_node a st))"
  then show "run_step st st'" by (simp add: run_step_def substitute_topo)
next
  fix h rs w nd st3
  assume h: "(if rs_params (rn_settings st) = [] then (rheap st, Inr []) else substitute (rs_params (rn_settings st)) a (rheap st)) = (h, Inr rs)"
    and w: "execute_node (rv_exec R) (rs_location (rn_settings st)) (rv_retries R) False (rs_performance (rn_settings st)) True True a
             (world_of (upd_heap (\<lambda>_. h) (begin_node a st))) = Some w"
    and h3: "rheap st3 = upd_node a (\<lambda>x. x\<lparr>node_hash := node_hash nd\<rparr>)
             (if rs = [] then wd_heap w else undo_substitution rs a (wd_heap w))"
    and st3: "run_frame st3 = run_frame st" "rn_canceled st3 = rn_canceled st"
    and f: "finish_node a (interrupt R st3) = (st', r)"
  have "same_topo (rheap st) h" using h substitute_topo by (auto split: if_splits)
  from same_topo_trans[OF this] execute_node_topo[OF w] have "same_topo (rheap st) (wd_heap w)"
    by (simp add: world_of_def)
  then have "same_topo (rheap st) (rheap st3)" unfolding h3 by (auto intro: hash_topo undo_topo)
  with finish_facts[OF f] interrupt_facts[where st = st3 and R = R] st3 show "run_step st st'"
    by (auto simp: run_step_def intro: same_topo_trans)
qed

section \<open>Failures stop what depends on them\<close>

lemma execute_list_facts:
  assumes "execute_list R as st = Some (st', rs)"
  shows "map fst rs = as" and "run_step st st'"
  using assms
proof (induction as arbitrary: st rs)
  case (Cons a as)
  { case 1
    with Cons.IH(1) show ?case by (auto split: option.splits)
  next
    case 2
    then obtain st1 r rs1 where a: "execute_single_node R a st = Some (st1, r)"
      and "execute_list R as st1 = Some (st', rs1)" by (auto split: option.splits)
    from run_step_trans[OF single_node_step[OF a] Cons.IH(2)[OF this(2)]] show ?case . }
qed simp_all

lemma get_dependents_set:
  assumes "h a = Some nd" and "get_all_dependent_nodes h n nd = Some ds"
  shows "insert a (set ds) = {b. (edge h)\<^sup>*\<^sup>* a b}"
proof -
  have e: "edge h a c \<longleftrightarrow> c \<in> set (leads_to_nodes nd)" for c using assms(1) by (simp add: edge_def leads_def)
  have "set ds = {b. \<exists>c \<in> set (leads_to_nodes nd). (edge h)\<^sup>*\<^sup>* c b}"
    using assms(2) unfolding get_all_dependent_nodes_def by (rule dependents_of_set)
  moreover have "(edge h)\<^sup>*\<^sup>* a b \<longleftrightarrow> b = a \<or> (\<exists>c \<in> set (leads_to_nodes nd). (edge h)\<^sup>*\<^sup>* c b)" for b
    using e by (metis converse_rtranclpE converse_rtranclp_into_rtranclp rtranclp.rtrancl_refl)
  ultimately show ?thesis by auto
qed

lemma edge_None: "h a = None \<Longrightarrow> (edge h)\<^sup>*\<^sup>* a b \<longleftrightarrow> b = a"
proof -
  assume "h a = None"
  then have "\<not> edge h a c" for c by (simp add: edge_def leads_def)
  then show ?thesis by (metis converse_rtranclpE rtranclp.rtrancl_refl)
qed

lemma dependent_ids_set:
  assumes "dependent_ids R h a = Some ds"
  shows "insert (nid h a) ds = nid h ` {b. (edge h)\<^sup>*\<^sup>* a b}"
proof (cases "h a")
  case None
  with assms show ?thesis by (simp add: dependent_ids_def edge_None)
next
  case (Some nd)
  with assms obtain xs where xs: "get_all_dependent_nodes h (ee_fuel (rv_exec R)) nd = Some xs" "ds = nid h ` set xs"
    by (auto simp: dependent_ids_def)
  have "insert (nid h a) ds = nid h ` insert a (set xs)" using xs(2) by simp
  then show ?thesis using get_dependents_set[OF Some xs(1)] by simp
qed

definition below_failures :: "heap \<Rightarrow> (addr \<times> bool option) list \<Rightarrow> int set" where
  "below_failures h rs = nid h ` {b. \<exists>a r. (a, r) \<in> set rs \<and> r \<noteq> Some True \<and> (edge h)\<^sup>*\<^sup>* a b}"

definition failed_of :: "heap \<Rightarrow> (addr \<times> bool option) list \<Rightarrow> int set" where
  "failed_of h rs = nid h ` {a. \<exists>r. (a, r) \<in> set rs \<and> r \<noteq> Some True}"

lemma failed_Cons:
  "failed_of h ((a, r) # rs) = (if r = Some True then {} else {nid h a}) \<union> failed_of h rs"
  "below_failures h ((a, r) # rs) = (if r = Some True then {} else nid h ` {b. (edge h)\<^sup>*\<^sup>* a b}) \<union> below_failures h rs"
proof -
  have "{c. \<exists>q. (c, q) \<in> set ((a, r) # rs) \<and> q \<noteq> Some True}
      = (if r = Some True then {} else {a}) \<union> {c. \<exists>q. (c, q) \<in> set rs \<and> q \<noteq> Some True}" by auto
  then show "failed_of h ((a, r) # rs) = (if r = Some True then {} else {nid h a}) \<union> failed_of h rs"
    unfolding failed_of_def by simp
  have "{b. \<exists>c q. (c, q) \<in> set ((a, r) # rs) \<and> q \<noteq> Some True \<and> (edge h)\<^sup>*\<^sup>* c b}
      = (if r = Some True then {} else {b. (edge h)\<^sup>*\<^sup>* a b})
        \<union> {b. \<exists>c q. (c, q) \<in> set rs \<and> q \<noteq> Some True \<and> (edge h)\<^sup>*\<^sup>* c b}" by auto
  then show "below_failures h ((a, r) # rs) = (if r = Some True then {} else nid h ` {b. (edge h)\<^sup>*\<^sup>* a b}) \<union> below_failures h rs"
    unfolding below_failures_def by (simp add: image_Un)
qed

lemma propagate_sets:
  "propagate R h rs (failed, skip) = Some (failed', skip') \<Longrightarrow>
     failed' = failed \<union> failed_of h rs \<and> skip' = skip \<union> below_failures h rs"
proof (induction rs arbitrary: failed skip)
  case (Cons x rs)
  obtain a r where x: "x = (a, r)" by (cases x)
  show ?case
  proof (cases "r = Some True")
    case True
    with Cons x show ?thesis by (simp add: failed_Cons)
  next
    case False
    with Cons.prems x obtain ds where ds: "dependent_ids R h a = Some ds"
      and p: "propagate R h rs (insert (nid h a) failed, insert (nid h a) skip \<union> ds) = Some (failed', skip')"
      by (auto split: option.splits)
    have "insert (nid h a) skip \<union> ds = skip \<union> nid h ` {b. (edge h)\<^sup>*\<^sup>* a b}"
      using dependent_ids_set[OF ds] by auto
    from Cons.IH[OF p, unfolded this] False x show ?thesis by (simp add: failed_Cons Un_assoc)
  qed
qed (simp add: failed_of_def below_failures_def)

definition any_order :: "run_env \<Rightarrow> bool" where
  "any_order R \<longleftrightarrow> (\<forall>xs. set (rv_order R xs) = set xs \<and> length (rv_order R xs) = length xs)"

lemma stage_order_set: "any_order R \<Longrightarrow> set (stage_order R s xs) = set xs"
  by (simp add: any_order_def stage_order_def)

text \<open>One round of the loop over the stages.\<close>

lemma execute_stages_Cons:
  assumes "execute_stages R (s # ss) failed skip st0 = Some (st', log, failed', skip')" and "any_order R"
  obtains "rn_canceled st'" and "log = []" and "skip' = skip" and "failed' = failed" and "run_step st0 st'"
  | st1 rs log' where "run_step st0 st1" and "log = rs # log'"
    and "fst ` set rs = {a \<in> set s. nid (rheap st0) a \<notin> skip}"
    and "execute_stages R ss (failed \<union> failed_of (rheap st0) rs) (skip \<union> below_failures (rheap st0) rs) st1
           = Some (st', log', failed', skip')"
proof -
  let ?st = "interrupt R st0"
  have step: "run_step st0 ?st" using interrupt_facts by (auto simp: run_step_def)
  then have st: "same_topo (rheap st0) (rheap ?st)" by (simp add: run_step_def)
  show ?thesis
  proof (cases "rn_canceled ?st")
    case True
    with assms(1) step show ?thesis by (intro that(1)) (auto simp: Let_def)
  next
    case no: False
    let ?todo = "[a \<leftarrow> s. nid (rheap ?st) a \<notin> skip]"
    have todo: "set ?todo = {a \<in> set s. nid (rheap st0) a \<notin> skip}" using same_topo_nid[OF st] by auto
    show ?thesis
    proof (cases "?todo = []")
      case True
      with no assms(1) obtain log' where "log = [] # log'"
        and "execute_stages R ss failed skip ?st = Some (st', log', failed', skip')"
        by (auto simp: Let_def)
      moreover have "{a \<in> set s. nid (rheap st0) a \<notin> skip} = {}" using todo True by (metis list.set(1))
      ultimately show ?thesis using step
        by (intro that(2)[of ?st "[]" log']) (simp_all add: failed_of_def below_failures_def)
    next
      case False
      with no assms(1) obtain st1 rs failed1 skip1 log' where
        l: "execute_list R (stage_order R (rn_settings ?st) ?todo) ?st = Some (st1, rs)"
        and p: "propagate R (rheap st1) rs (failed, skip) = Some (failed1, skip1)"
        and log: "log = rs # log'" and r: "execute_stages R ss failed1 skip1 st1 = Some (st', log', failed', skip')"
        by (auto simp: Let_def split: option.splits)
      have s1: "run_step st0 st1" using run_step_trans[OF step execute_list_facts(2)[OF l]] .
      then have t1: "same_topo (rheap st0) (rheap st1)" by (simp add: run_step_def)
      have e: "edge (rheap st1) = edge (rheap st0)"
        using same_topo_leads[OF t1] by (intro ext) (simp add: edge_def)
      have "fst ` set rs = set (stage_order R (rn_settings ?st) ?todo)"
        using execute_list_facts(1)[OF l] by (metis list.set_map)
      with stage_order_set[OF assms(2)] todo have fs: "fst ` set rs = {a \<in> set s. nid (rheap st0) a \<notin> skip}" by simp
      from propagate_sets[OF p] have "failed1 = failed \<union> failed_of (rheap st0) rs" "skip1 = skip \<union> below_failures (rheap st0) rs"
        using e same_topo_nid[OF t1] by (simp_all add: failed_of_def below_failures_def)
      with r show ?thesis by (intro that(2)[OF s1 log fs]) simp
    qed
  qed
qed

lemma execute_stages_step:
  "execute_stages R ss failed skip st = Some (st', log, failed', skip') \<Longrightarrow> any_order R \<Longrightarrow> run_step st st'"
proof (induction ss arbitrary: failed skip st log)
  case (Cons s ss)
  from Cons.prems show ?case
    by (rule execute_stages_Cons) (use Cons.IH Cons.prems(2) in \<open>auto intro: run_step_trans\<close>)
qed simp

lemma step_same:
  assumes "run_step st st1"
  shows "nid (rheap st1) = nid (rheap st)" and "edge (rheap st1) = edge (rheap st)"
    and "below_failures (rheap st1) = below_failures (rheap st)"
proof -
  have t: "same_topo (rheap st) (rheap st1)" using assms by (simp add: run_step_def)
  show n: "nid (rheap st1) = nid (rheap st)" by (rule same_topo_nid[OF t])
  show e: "edge (rheap st1) = edge (rheap st)"
    using same_topo_leads[OF t] by (intro ext) (simp add: edge_def)
  show "below_failures (rheap st1) = below_failures (rheap st)"
    by (rule ext) (simp add: below_failures_def n e)
qed

lemma never_skipped:
  "execute_stages R ss failed skip st = Some (st', log, failed', skip') \<Longrightarrow> any_order R \<Longrightarrow>
     (b, q) \<in> set (concat log) \<Longrightarrow> nid (rheap st) b \<notin> skip"
proof (induction ss arbitrary: failed skip st log)
  case (Cons s ss)
  from Cons.prems(1,2) show ?case
  proof (rule execute_stages_Cons)
    fix st1 rs log'
    assume st1: "run_step st st1" and log: "log = rs # log'"
      and rs: "fst ` set rs = {a \<in> set s. nid (rheap st) a \<notin> skip}"
      and r: "execute_stages R ss (failed \<union> failed_of (rheap st) rs) (skip \<union> below_failures (rheap st) rs) st1
           = Some (st', log', failed', skip')"
    from Cons.prems(3) log have "(b, q) \<in> set rs \<or> (b, q) \<in> set (concat log')" by auto
    then show ?thesis
    proof
      assume "(b, q) \<in> set rs"
      then have "b \<in> fst ` set rs" by force
      with rs show ?thesis by simp
    next
      assume "(b, q) \<in> set (concat log')"
      from Cons.IH[OF r Cons.prems(2) this] step_same(1)[OF st1] show ?thesis by simp
    qed
  qed (use Cons.prems(3) in simp)
qed simp

lemma failures_respected:
  "execute_stages R ss failed skip st = Some (st', log, failed', skip') \<Longrightarrow> any_order R \<Longrightarrow> i < j \<Longrightarrow> j < length log \<Longrightarrow>
     (a, r) \<in> set (log ! i) \<Longrightarrow> r \<noteq> Some True \<Longrightarrow> (b, q) \<in> set (log ! j) \<Longrightarrow> \<not> (edge (rheap st))\<^sup>*\<^sup>* a b"
proof (induction ss arbitrary: failed skip st log i j)
  case (Cons s ss)
  from Cons.prems(1,2) show ?case
  proof (rule execute_stages_Cons)
    fix st1 rs log'
    assume st1: "run_step st st1" and log: "log = rs # log'"
      and rs: "fst ` set rs = {a \<in> set s. nid (rheap st) a \<notin> skip}"
      and x: "execute_stages R ss (failed \<union> failed_of (rheap st) rs) (skip \<union> below_failures (rheap st) rs) st1
           = Some (st', log', failed', skip')"
    obtain j' where j: "j = Suc j'" using Cons.prems(3) by (cases j) auto
    show ?thesis
    proof (cases i)
      case 0
      have "(b, q) \<in> set (concat log')"
        using Cons.prems(4,7) log j by (auto intro!: bexI[of _ "log' ! j'"])
      from never_skipped[OF x Cons.prems(2) this] step_same(1)[OF st1] have n: "nid (rheap st) b \<notin> below_failures (rheap st) rs"
        by simp
      have "(a, r) \<in> set rs" using Cons.prems(5) log 0 by simp
      with n Cons.prems(6) show ?thesis unfolding below_failures_def by blast
    next
      case (Suc i')
      have "i' < j'" "j' < length log'" "(a, r) \<in> set (log' ! i')" "(b, q) \<in> set (log' ! j')"
        using Cons.prems(3,4,5,7) log j Suc by simp_all
      from Cons.IH[OF x Cons.prems(2) this(1-3) Cons.prems(6) this(4)] step_same(2)[OF st1] show ?thesis by simp
    qed
  qed (use Cons.prems(4) in simp)
qed simp

section \<open>The run information is the log\<close>

definition view :: "run_state \<Rightarrow> (int \<times> bool option) list option" where
  "view st = (case rn_info st of None \<Rightarrow> None | Some i \<Rightarrow>
     if ri_success i = None then Some (map (\<lambda>r. (nr_id r, nr_success r)) (ri_results i)) else None)"

lemma view_simps [simp]:
  "view (upd_heap k st) = view st" "view (put_world w st) = view st" "view (st\<lparr>rn_callbacks := cs\<rparr>) = view st"
  "view (upd_info (\<lambda>i. i\<lparr>ri_completed := g i\<rparr>) st) = view st" "view (st\<lparr>rn_canceled := b\<rparr>) = view st"
  by (simp_all add: view_def upd_heap_def put_world_def upd_info_def split: option.splits)

lemma view_interrupt [simp]: "view (interrupt R st) = view st"
  by (simp add: interrupt_def cancel_flow_def)

lemma upd_last_snoc [simp]: "upd_last f (xs @ [x]) = xs @ [f x]"
  by (simp add: upd_last_def)

lemma view_begin: "view st = Some v \<Longrightarrow> view (begin_node a st) = Some (v @ [(nid (rheap st) a, None)])"
  by (auto simp: view_def begin_node_def upd_info_def split: option.splits if_splits)

lemma view_upd_result:
  assumes "view st = Some (v @ [(i, s)])" and "\<And>r. nr_id (f r) = nr_id r"
    and "\<And>r. nr_success (f r) = (if c then t else nr_success r)"
  shows "view (upd_result f st) = Some (v @ [(i, if c then t else s)])"
proof -
  from assms(1) obtain inf where inf: "rn_info st = Some inf"
    and v: "map (\<lambda>r. (nr_id r, nr_success r)) (ri_results inf) = v @ [(i, s)]"
    and none: "ri_success inf = None"
    by (auto simp: view_def split: option.splits if_splits)
  from v obtain rs r where rs: "ri_results inf = rs @ [r]" by (cases "ri_results inf" rule: rev_cases) auto
  with v have "map (\<lambda>r. (nr_id r, nr_success r)) rs = v" "nr_id r = i" "nr_success r = s" by auto
  with inf none rs assms(2,3) show ?thesis by (simp add: view_def upd_result_def upd_info_def)
qed

lemma view_finish:
  assumes "view st = Some (v @ [(i, s)])" and "finish_node a st = (st', r)"
  shows "view st' = Some (v @ [(i, r)])"
proof -
  let ?e = "res_errors (rheap st) a"
  let ?st1 = "upd_result (\<lambda>r. r\<lparr>nr_error := Some (error_text ?e), nr_running := False\<rparr>) st"
  have 1: "view ?st1 = Some (v @ [(i, s)])"
    using view_upd_result[OF assms(1), where c = False and t = None
        and f = "\<lambda>r. r\<lparr>nr_error := Some (error_text ?e), nr_running := False\<rparr>"] by simp
  show ?thesis
  proof (cases "rn_canceled st")
    case True
    with assms(2) have "st' = upd_result (\<lambda>r. r\<lparr>nr_success := None\<rparr>) ?st1" "r = None"
      by (auto simp: finish_node_def Let_def)
    with view_upd_result[OF 1, where c = True and t = None and f = "\<lambda>r. r\<lparr>nr_success := None\<rparr>"] show ?thesis by simp
  next
    case False
    with assms(2) have "view st' = view (upd_result (\<lambda>r. r\<lparr>nr_success := Some (?e = None)\<rparr>) ?st1)" "r = Some (?e = None)"
      by (auto simp: finish_node_def Let_def)
    with view_upd_result[OF 1, where c = True and t = "Some (?e = None)" and f = "\<lambda>r. r\<lparr>nr_success := Some (?e = None)\<rparr>"]
    show ?thesis by simp
  qed
qed

lemma single_node_view:
  assumes x: "execute_single_node R a st = Some (st', r)" and v: "view st = Some v"
  shows "view st' = Some (v @ [(nid (rheap st) a, r)])"
proof -
  let ?s = "rn_settings st" and ?st1 = "begin_node a st"
  note b = view_begin[OF v, of a]
  obtain h q where hq: "(if rs_params ?s = [] then (rheap st, Inr []) else substitute (rs_params ?s) a (rheap st)) = (h, q)"
    by fastforce
  from x obtain nd where nd: "rheap st a = Some nd" by (auto simp: execute_single_node_def Let_def split: option.splits)
  show ?thesis
  proof (cases q)
    case (Inl e)
    then obtain ns where ns: "q = Inl (UnresolvedReferences ns)" by (cases e) auto
    let ?f = "\<lambda>r. r\<lparr>nr_error := Some (unresolved_text ns), nr_success := Some False, nr_running := False\<rparr>"
    have "st' = upd_result ?f (upd_heap (\<lambda>_. h) ?st1)" "r = Some False"
      using x nd ns unfolding execute_single_node_def Let_def rheap_simps hq by auto
    with view_upd_result[where st = "upd_heap (\<lambda>_. h) ?st1" and f = ?f and c = True and t = "Some False"] b
    show ?thesis by simp
  next
    case (Inr rs)
    then obtain w st3 where st3: "finish_node a (interrupt R st3) = (st', r)" and "view st3 = view ?st1"
      using x nd unfolding execute_single_node_def Let_def rheap_simps hq by (auto split: option.splits if_splits)
    with b have "view (interrupt R st3) = Some (v @ [(nid (rheap st) a, None)])" by simp
    from view_finish[OF this st3] show ?thesis .
  qed
qed

lemma execute_list_view:
  "execute_list R as st = Some (st', rs) \<Longrightarrow> view st = Some v \<Longrightarrow>
     view st' = Some (v @ map (map_prod (nid (rheap st)) id) rs)"
proof (induction as arbitrary: st v rs)
  case (Cons a as)
  from Cons.prems(1) obtain st1 r rs1 where a: "execute_single_node R a st = Some (st1, r)"
    and l: "execute_list R as st1 = Some (st', rs1)" and rs: "rs = (a, r) # rs1" by (auto split: option.splits)
  from Cons.IH[OF l single_node_view[OF a Cons.prems(2)]] step_same(1)[OF single_node_step[OF a]] rs
  show ?case by simp
qed simp

lemma execute_stages_view:
  "execute_stages R ss failed skip st = Some (st', log, failed', skip') \<Longrightarrow> view st = Some v \<Longrightarrow>
     view st' = Some (v @ map (map_prod (nid (rheap st)) id) (concat log))"
proof (induction ss arbitrary: failed skip st v log)
  case (Cons s ss)
  let ?st = "interrupt R st"
  have i: "run_step st ?st" using interrupt_facts by (auto simp: run_step_def)
  note n = step_same(1)[OF i]
  let ?todo = "[a \<leftarrow> s. nid (rheap ?st) a \<notin> skip]"
  show ?case
  proof (cases "rn_canceled ?st")
    case True
    with Cons.prems show ?thesis by (auto simp: Let_def)
  next
    case no: False
    show ?thesis
    proof (cases "?todo = []")
      case True
      with no Cons.prems(1) obtain log' where "log = [] # log'"
        and "execute_stages R ss failed skip ?st = Some (st', log', failed', skip')"
        by (auto simp: Let_def)
      with Cons.IH[OF this(2), of v] Cons.prems(2) n show ?thesis by simp
    next
      case False
      with no Cons.prems(1) obtain st1 rs failed1 skip1 log' where
        l: "execute_list R (stage_order R (rn_settings ?st) ?todo) ?st = Some (st1, rs)"
        and log: "log = rs # log'" and r: "execute_stages R ss failed1 skip1 st1 = Some (st', log', failed', skip')"
        by (auto simp: Let_def split: option.splits)
      have "view ?st = Some v" using Cons.prems(2) by simp
      from Cons.IH[OF r execute_list_view[OF l this]] step_same(1)[OF execute_list_facts(2)[OF l]] n log
      show ?thesis by (simp add: id_def)
    qed
  qed
qed simp

section \<open>The whole run\<close>

lemma mark_stale_topo: "same_topo (node_heap g) (node_heap (mark_stale ns g))"
proof -
  have "same_topo (node_heap g) (fold (\<lambda>n h. case get_node g n of None \<Rightarrow> h
      | Some a \<Rightarrow> upd_state a (\<lambda>s. s\<lparr>has_run_with_current_setup := False\<rparr>) h) ns (node_heap g))"
    by (rule fold_invariant[where P = "same_topo (node_heap g)"]) (auto split: option.splits intro: reset_results_keeps)
  then show ?thesis by (simp add: mark_stale_def)
qed

lemma prepare_rerun_step:
  "same_topo (rheap st) (rheap (prepare_rerun_artifacts skip st))"
  "run_frame (prepare_rerun_artifacts skip st) = run_frame st"
  "rn_canceled (prepare_rerun_artifacts skip st) = rn_canceled st"
  using mark_stale_topo
  by (auto simp: prepare_rerun_artifacts_def Let_def rheap_def run_frame_def mark_stale_def)

lemma run_graph_cases:
  assumes "run_graph R st = Some (st', Inr (info, log))"
  obtains plan st2 st3 st4 failed skip' where "\<not> rn_running st" and "plan_of (rn_graph st) = Inr plan"
    and "run_frame st2 = run_frame (st\<lparr>rn_running := True\<rparr>)" and "same_topo (rheap st) (rheap st2)" and "view st2 = Some []"
    and "\<not> rn_canceled st2"
    and "execute_stages R (stages plan) {} (nid (rheap st) ` set (skip_nodes plan)) st2 = Some (st3, log, failed, skip')"
    and "(if rn_canceled st3 then Some st3 else run_post_execution_callbacks R failed skip' st3) = Some st4"
    and "get_run_info (finish_run st4) = (st', info)"
proof -
  let ?st1 = "st\<lparr>rn_running := True, rn_canceled := False\<rparr>"
  from assms have no: "\<not> rn_running st" by (auto simp: run_graph_def)
  from assms no obtain plan where plan: "plan_of (rn_graph st) = Inr plan"
    by (auto simp: run_graph_def Let_def split: sum.splits)
  let ?skip = "nid (rheap st) ` set (skip_nodes plan)"
  let ?st2 = "(prepare_rerun_artifacts ?skip ?st1)\<lparr>rn_info := Some (initial_run_information (rn_settings ?st1)
      (plan_node_count plan) ''full_run'')\<rparr>"
  from assms no plan obtain st3 failed skip' where x: "execute_stages R (stages plan) {} ?skip ?st2 = Some (st3, log, failed, skip')"
    by (auto simp: run_graph_def Let_def split: option.splits prod.splits)
  with assms no plan obtain st4 where
    st4: "(if rn_canceled st3 then Some st3 else run_post_execution_callbacks R failed skip' st3) = Some st4"
    and info: "get_run_info (finish_run st4) = (st', info)"
    by (auto simp: run_graph_def Let_def split: option.splits prod.splits)
  have "run_frame ?st2 = run_frame (st\<lparr>rn_running := True\<rparr>)"
    using prepare_rerun_step(2)[of ?skip ?st1] by (simp add: run_frame_def)
  moreover have "same_topo (rheap st) (rheap ?st2)"
    using prepare_rerun_step(1)[of ?st1 ?skip] by simp
  moreover have "view ?st2 = Some []" by (simp add: view_def initial_run_information_def)
  moreover have "\<not> rn_canceled ?st2" using prepare_rerun_step(3)[of ?skip ?st1] by simp
  ultimately show ?thesis using no plan x st4 info by (intro that)
qed

lemma callbacks_facts:
  "run_callbacks R inc as st = Some st' \<Longrightarrow>
     rheap st' = rheap st \<and> view st' = view st \<and> rn_settings st' = rn_settings st \<and>
     (\<exists>cs. rn_called st' = rn_called st @ cs \<and>
        (\<forall>(a, b) \<in> set cs. a \<in> set as \<and> a \<in> set (rn_callbacks st) \<and> callback_success R (rheap st) inc a = Some b))"
proof (induction as arbitrary: st)
  case (Cons a as)
  show ?case
  proof (cases "a \<in> set (rn_callbacks st)")
    case False
    with Cons.prems have "run_callbacks R inc as st = Some st'" by simp
    from Cons.IH[OF this] show ?thesis by fastforce
  next
    case True
    with Cons.prems obtain b where b: "callback_success R (rheap st) inc a = Some b"
      and r: "run_callbacks R inc as (st\<lparr>rn_called := rn_called st @ [(a, b)], rn_callbacks := removeAll a (rn_callbacks st)\<rparr>) = Some st'"
      by (auto split: option.splits)
    let ?st = "st\<lparr>rn_called := rn_called st @ [(a, b)], rn_callbacks := removeAll a (rn_callbacks st)\<rparr>"
    have s: "rheap ?st = rheap st" "view ?st = view st" by (simp_all add: view_def)
    from Cons.IH[OF r] s obtain cs where "rn_called st' = (rn_called st @ [(a, b)]) @ cs"
      and "\<forall>(c, d) \<in> set cs. c \<in> set as \<and> c \<in> set (rn_callbacks ?st) \<and> callback_success R (rheap st) inc c = Some d"
      and "rheap st' = rheap st" "view st' = view st" "rn_settings st' = rn_settings st" by auto
    with b True show ?thesis by (intro conjI exI[of _ "(a, b) # cs"]) auto
  qed
qed simp

text \<open>A node that is neither executed with success nor in the end skipped does not exist, unless the run is canceled.\<close>

lemma stages_complete:
  "execute_stages R ss failed skip st = Some (st', log, failed', skip') \<Longrightarrow> any_order R \<Longrightarrow> \<not> rn_canceled st' \<Longrightarrow>
     skip \<subseteq> skip' \<and> (\<forall>a \<in> set (concat ss). nid (rheap st) a \<in> skip' \<or> (a, Some True) \<in> set (concat log))"
proof (induction ss arbitrary: failed skip st log)
  case (Cons s ss)
  from Cons.prems(1,2) show ?case
  proof (rule execute_stages_Cons)
    fix st1 rs log'
    assume st1: "run_step st st1" and log: "log = rs # log'"
      and rs: "fst ` set rs = {a \<in> set s. nid (rheap st) a \<notin> skip}"
      and x: "execute_stages R ss (failed \<union> failed_of (rheap st) rs) (skip \<union> below_failures (rheap st) rs) st1
           = Some (st', log', failed', skip')"
    note n = step_same(1)[OF st1]
    from Cons.IH[OF x Cons.prems(2,3)] n have sub: "skip \<union> below_failures (rheap st) rs \<subseteq> skip'"
      and rest: "\<forall>a \<in> set (concat ss). nid (rheap st) a \<in> skip' \<or> (a, Some True) \<in> set (concat log')" by simp_all
    have "nid (rheap st) a \<in> skip' \<or> (a, Some True) \<in> set rs" if a: "a \<in> set s" for a
    proof (cases "nid (rheap st) a \<in> skip")
      case True
      with sub show ?thesis by auto
    next
      case False
      with a rs obtain r where r: "(a, r) \<in> set rs" by (force simp: set_eq_iff)
      show ?thesis
      proof (cases "r = Some True")
        case True
        with r show ?thesis by simp
      next
        case False
        with r have "nid (rheap st) a \<in> below_failures (rheap st) rs" unfolding below_failures_def by blast
        with sub show ?thesis by auto
      qed
    qed
    with rest sub log show ?thesis by auto
  qed (use Cons.prems(3) in simp)
qed simp

lemma run_result:
  assumes "view st = Some v" and "get_run_info (finish_run st) = (st', info)"
  shows "map (\<lambda>r. (nr_id r, nr_success r)) (ri_results info) = v" and "ri_success info = Some (\<forall>x \<in> set v. snd x = Some True)"
    and "\<not> rn_running st'" and "\<not> ri_running info" and "rn_called st' = rn_called st"
proof -
  from assms(1) obtain i where i: "rn_info st = Some i" "ri_success i = None"
    "map (\<lambda>r. (nr_id r, nr_success r)) (ri_results i) = v"
    by (auto simp: view_def split: option.splits if_splits)
  show "map (\<lambda>r. (nr_id r, nr_success r)) (ri_results info) = v" "\<not> rn_running st'" "\<not> ri_running info"
    "rn_called st' = rn_called st"
    using assms(2) i by (auto simp: get_run_info_def finish_run_def upd_info_def Let_def)
  show "ri_success info = Some (\<forall>x \<in> set v. snd x = Some True)"
    using assms(2) i by (auto simp: get_run_info_def finish_run_def upd_info_def Let_def)
qed

text \<open>
  C5: A failure stops everything that depends on it, and the run information tells the truth. In a run that
  completes, after a stage in which a node failed (or was canceled), no node that can be reached from it
  is ever started in a later stage, in whatever order the nodes of a stage complete. The run
  information lists exactly the nodes that were started, in order, with their outcome, the run counts
  as successful exactly when all of them succeeded, and the flow is no longer marked as running.
\<close>
theorem failures_stop_dependents:
  assumes "run_graph R st = Some (st', Inr (info, log))" and "any_order R"
  shows "(\<forall>i j a r b q. i < j \<and> j < length log \<and> (a, r) \<in> set (log ! i) \<and> r \<noteq> Some True \<and> (b, q) \<in> set (log ! j)
            \<longrightarrow> \<not> (edge (rheap st))\<^sup>*\<^sup>* a b)
    \<and> map (\<lambda>r. (nr_id r, nr_success r)) (ri_results info) = map (map_prod (nid (rheap st)) id) (concat log)
    \<and> ri_success info = Some (\<forall>x \<in> set (concat log). snd x = Some True)
    \<and> \<not> rn_running st' \<and> \<not> ri_running info"
proof -
  from assms(1) obtain plan st2 st3 st4 failed skip' where "\<not> rn_running st" and "plan_of (rn_graph st) = Inr plan"
    and "run_frame st2 = run_frame (st\<lparr>rn_running := True\<rparr>)" and t: "same_topo (rheap st) (rheap st2)"
    and v: "view st2 = Some []" and "\<not> rn_canceled st2"
    and x: "execute_stages R (stages plan) {} (nid (rheap st) ` set (skip_nodes plan)) st2 = Some (st3, log, failed, skip')"
    and c: "(if rn_canceled st3 then Some st3 else run_post_execution_callbacks R failed skip' st3) = Some st4"
    and i: "get_run_info (finish_run st4) = (st', info)"
    by (rule run_graph_cases)
  have n: "nid (rheap st2) = nid (rheap st)" by (rule same_topo_nid[OF t])
  have e: "edge (rheap st2) = edge (rheap st)"
    using same_topo_leads[OF t] by (intro ext) (simp add: edge_def)
  have "view st4 = view st3"
    using c callbacks_facts by (fastforce simp: run_post_execution_callbacks_def split: if_splits)
  with execute_stages_view[OF x v] n have v4: "view st4 = Some (map (map_prod (nid (rheap st)) id) (concat log))" by simp
  have s: "(\<forall>x \<in> set (map (map_prod (nid (rheap st)) id) (concat log)). snd x = Some True)
      \<longleftrightarrow> (\<forall>x \<in> set (concat log). snd x = Some True)" by auto
  show ?thesis
    using failures_respected[OF x assms(2)] run_result[OF v4 i] unfolding e s by blast
qed

definition reached_callbacks :: "run_state \<Rightarrow> run_state \<Rightarrow> (addr \<times> bool) list" where
  "reached_callbacks st st' = drop (length (rn_called st)) (rn_called st')"

lemma starts_distinct:
  assumes "graph_ok g" and "distinct (map (nid (node_heap g)) (flow_starts g))"
  shows "distinct (map (nid (node_heap g)) (flow_starts g @ get_implicit_starter_nodes g))"
proof -
  have d: "distinct (map (nid (node_heap g)) (nodes g))"
    using assms(1) by (simp add: nodes_ids_distinct[OF assms(1)] dict_keys_def) (simp add: graph_ok_def dict_ok_def)
  then have "distinct (map (nid (node_heap g)) (get_implicit_starter_nodes g))"
    unfolding get_implicit_starter_nodes_def by (rule distinct_map_filter)
  moreover have "nid (node_heap g) a \<notin> nid (node_heap g) ` set (flow_starts g)" if "a \<in> set (get_implicit_starter_nodes g)" for a
    using that by (auto simp: get_implicit_starter_nodes_def nid_def split: option.splits)
  ultimately show ?thesis using assms(2) by (simp add: disjoint_iff) blast
qed

lemma plan_covers:
  assumes "plan_of g = Inr plan" and g: "graph_ok g" and "distinct (map (nid (node_heap g)) (flow_starts g))" and b: "b \<in> set (nodes g)"
  shows "nid (node_heap g) b \<in> nid (node_heap g) ` set (skip_nodes plan)
    \<or> (\<exists>c \<in> set (concat (stages plan)). nid (node_heap g) c = nid (node_heap g) b)"
proof -
  let ?h = "node_heap g" and ?skip = "determine_nodes_to_skip (node_heap g) (nodes g)"
  let ?ns = "[a \<leftarrow> nodes g. a \<notin> set ?skip]" and ?fs = "flow_starts g @ get_implicit_starter_nodes g"
  from assms(1) obtain ss where ss: "determine_execution_order ?h ?ns ?fs = Inr ss"
    and plan: "plan = \<lparr>skip_nodes = ?skip, stages = ss\<rparr>"
    by (auto simp: plan_of_def compute_execution_plan_def Let_def split: sum.splits)
  have "distinct (map (nid ?h) ?ns)"
    using nodes_ids_distinct[OF g] g by (intro distinct_map_filter) (simp add: graph_ok_def dict_ok_def dict_keys_def)
  with starts_distinct[OF g assms(3)] have "distinct (map (nid ?h) (if ?fs \<noteq> [] then ?fs else ?ns))" by simp
  from execution_order_facts[OF this ss] have cov: "nid ?h ` set (concat ss) = nid ?h ` (set ?ns \<union> (\<Union>a \<in> set ?ns. set (leads ?h a)))"
    by blast
  show ?thesis
  proof (cases "b \<in> set ?skip")
    case True
    then show ?thesis by (simp add: plan)
  next
    case False
    with b have "nid ?h b \<in> nid ?h ` set (concat ss)" unfolding cov by auto
    then have "\<exists>c \<in> set (concat ss). nid ?h c = nid ?h b" by (metis imageE)
    then show ?thesis by (simp only: plan execution_plan.simps simp_thms)
  qed
qed

text \<open>
  C33: A completion callback that reports success is right. When a run calls the callback of a source with
  \<open>True\<close>, every registered node that can be reached from the source (itself included) was executed in
  this run and succeeded: none of them failed, was skipped, or was left out of the plan. A canceled run
  calls no callback. Kafka offsets are committed on this.
\<close>
theorem callback_success_means_all_ran:
  assumes "run_graph R st = Some (st', Inr (info, log))" and "any_order R"
    and "graph_ok (rn_graph st)" and "distinct (map (nid (rheap st)) (flow_starts (rn_graph st)))"
    and "(a, True) \<in> set (reached_callbacks st st')"
    and "b \<in> set (nodes (rn_graph st))" and "(edge (rheap st))\<^sup>*\<^sup>* a b"
  shows "\<exists>c. nid (rheap st) c = nid (rheap st) b \<and> (c, Some True) \<in> set (concat log)"
proof -
  from assms(1) obtain plan st2 st3 st4 failed skip' where "\<not> rn_running st" and plan: "plan_of (rn_graph st) = Inr plan"
    and f2: "run_frame st2 = run_frame (st\<lparr>rn_running := True\<rparr>)" and t: "same_topo (rheap st) (rheap st2)"
    and v: "view st2 = Some []" and "\<not> rn_canceled st2"
    and x: "execute_stages R (stages plan) {} (nid (rheap st) ` set (skip_nodes plan)) st2 = Some (st3, log, failed, skip')"
    and c: "(if rn_canceled st3 then Some st3 else run_post_execution_callbacks R failed skip' st3) = Some st4"
    and i: "get_run_info (finish_run st4) = (st', info)"
    by (rule run_graph_cases)
  note s3 = execute_stages_step[OF x assms(2)]
  have called3: "rn_called st3 = rn_called st" using s3 f2 by (simp add: run_step_def run_frame_def)
  have t3: "same_topo (rheap st) (rheap st3)" using same_topo_trans[OF t] s3 by (simp add: run_step_def)
  have n: "nid (rheap st3) = nid (rheap st)" "nid (rheap st2) = nid (rheap st)" by (rule same_topo_nid[OF t3], rule same_topo_nid[OF t])
  have e: "edge (rheap st3) = edge (rheap st)"
    using same_topo_leads[OF t3] by (intro ext) (simp add: edge_def)
  have "view st3 = Some (map (map_prod (nid (rheap st2)) id) (concat log))" using execute_stages_view[OF x v] by simp
  moreover have "view st4 = view st3"
    using c callbacks_facts by (fastforce simp: run_post_execution_callbacks_def split: if_splits)
  ultimately have "rn_called st' = rn_called st4" using run_result(5)[OF _ i] by simp
  with assms(5) called3 have call: "(a, True) \<in> set (drop (length (rn_called st3)) (rn_called st4))"
    by (simp add: reached_callbacks_def)
  then have nc: "\<not> rn_canceled st3" using c by (auto split: if_splits)
  with c have "run_callbacks R (failed \<union> skip') (nodes (rn_graph st3)) st3 = Some st4"
    by (simp add: run_post_execution_callbacks_def)
  from callbacks_facts[OF this] call have "callback_success R (rheap st3) (failed \<union> skip') a = Some True" by auto
  then obtain ds where a: "nid (rheap st3) a \<notin> failed \<union> skip'" and ds: "dependent_ids R (rheap st3) a = Some ds"
    and dsi: "ds \<inter> (failed \<union> skip') = {}"
    by (auto simp: callback_success_def split: if_splits)
  have "nid (rheap st) b \<in> nid (rheap st) ` {b. (edge (rheap st))\<^sup>*\<^sup>* a b}" using assms(7) by blast
  then have "nid (rheap st) b \<in> insert (nid (rheap st3) a) ds"
    using dependent_ids_set[OF ds] unfolding n e by simp
  with a dsi have b: "nid (rheap st) b \<notin> skip'" by auto
  from stages_complete[OF x assms(2) nc] n have sub: "nid (rheap st) ` set (skip_nodes plan) \<subseteq> skip'"
    and all: "\<forall>a \<in> set (concat (stages plan)). nid (rheap st) a \<in> skip' \<or> (a, Some True) \<in> set (concat log)" by auto
  from plan_covers[OF plan assms(3) _ assms(6)] assms(4) b sub obtain d where
    "d \<in> set (concat (stages plan))" "nid (rheap st) d = nid (rheap st) b"
    by (auto simp: rheap_def)
  with all b show ?thesis by metis
qed

section \<open>Parameters\<close>

definition texts_at where
  "texts_at h b = map_option (\<lambda>nd. map_option s_texts (setting_input nd)) (h b)"

lemma keeps_texts: "keeps base h h' \<Longrightarrow> texts_at h' = texts_at h"
  by (rule ext, drule keeps_comp[where f = "\<lambda>nd. map_option s_texts (setting_input nd)" and k = "\<lambda>c. snd (snd c)"])
     (simp_all add: base_def keeps_def texts_at_def)

lemma texts_upd:
  "texts_at (upd_node a f h) b = (if b = a then map_option (\<lambda>nd. map_option s_texts (setting_input (f nd))) (h a) else texts_at h b)"
  by (simp add: texts_at_def upd_node_apply option.map_comp o_def)

lemma of_to_model [simp]: "of_model (to_model s) s = s"
  by (simp add: of_model_def to_model_def)

lemma to_model_cong: "s_texts s = s_texts s' \<Longrightarrow> to_model s = to_model s'"
  by (simp add: to_model_def s_texts_def)

lemma of_model_texts:
  assumes "to_model s = to_model s'"
  shows "s_texts s = s_texts s'"
  using assms by (simp add: to_model_def s_texts_def)

lemma apply_shape:
  assumes "apply_parameters_in_place (to_model s) params = (m, Inr rs)"
  shows "to_model (of_model m s) = m"
proof -
  obtain d r1 where l: "resolve_leaf params [Field ''description''] (s_description s) = (d, r1)"
    by (metis surj_pair)
  obtain fs' r2 where f: "apply_fields params [] (s_fields s) = (fs', r2)" by (metis surj_pair)
  have "apply_recursive params [] (to_model s) = (PModel ((''description'', PStr d) # fs'), r1 @ r2)"
    using l f by (simp add: to_model_def)
  with assms have "m = to_model s \<or> m = PModel ((''description'', PStr d) # fs')"
    by (auto simp: apply_parameters_in_place_def Let_def split: if_splits)
  then show ?thesis by (auto simp: of_model_def to_model_def)
qed

lemma undo_texts:
  assumes "map_option s_texts so' = Some (s_texts (of_model m s))" and "to_model (of_model m s) = m"
    and "restore_parameters rs m = to_model s"
  shows "map_option s_texts (map_option (\<lambda>s. of_model (restore_parameters rs (to_model s)) s) so') = Some (s_texts s)"
proof -
  from assms(1) obtain s' where s': "so' = Some s'" "s_texts s' = s_texts (of_model m s)" by (cases so') auto
  have "to_model s' = m" using to_model_cong[OF s'(2)] assms(2) by simp
  then have "of_model (restore_parameters rs (to_model s')) s' = of_model (to_model s) s'" using assms(3) by simp
  moreover have "s_texts (of_model (to_model s) s') = s_texts s" by (simp add: of_model_def to_model_def s_texts_def)
  ultimately show ?thesis using s'(1) by simp
qed

lemma interrupt_texts: "texts_at (rheap (interrupt R st)) = texts_at (rheap st)"
proof -
  have "keeps base h (fold Node_Executor.cancel as h)" for as h
  proof (rule fold_invariant[where P = "keeps base h"])
    fix a h1 assume "keeps base h h1"
    then show "keeps base h (Node_Executor.cancel a h1)"
      unfolding Node_Executor.cancel_def upd_state_def upd_stats_def by (intro keeps_upd) (simp_all add: base_def)
  qed simp
  then show ?thesis by (auto simp: interrupt_def cancel_flow_def dest!: keeps_texts)
qed

lemma hash_texts [simp]: "texts_at (upd_node a (\<lambda>x. x\<lparr>node_hash := v\<rparr>) h) = texts_at h"
  by (rule ext) (simp add: texts_at_def upd_node_apply option.map_comp o_def)

definition wf_settings :: "heap \<Rightarrow> addr \<Rightarrow> bool" where
  "wf_settings h a \<longleftrightarrow>
     (case h a of None \<Rightarrow> True | Some nd \<Rightarrow> (case setting_input nd of None \<Rightarrow> True | Some s \<Rightarrow> wf_val (to_model s)))"

lemma substitute_texts_failed:
  assumes "substitute params a h = (h', Inl e)" and "wf_settings h a"
  shows "texts_at h' = texts_at h"
proof -
  from assms(1) obtain nd s m where nd: "h a = Some nd" "setting_input nd = Some s"
    and m: "apply_parameters_in_place (to_model s) params = (m, Inl e)" and h': "h' = upd_node a (set_setting m) h"
    by (auto simp: substitute_def split: option.splits prod.splits)
  have "m = to_model s" using apply_parameters_facts[of "to_model s" params] m nd assms(2) by (simp add: wf_settings_def)
  with nd h' show ?thesis by (intro ext) (simp add: set_setting_def texts_at_def upd_node_apply)
qed

lemma substitute_texts_undone:
  assumes "substitute params a h = (h', Inr rs)" and "wf_settings h a" and k: "texts_at w = texts_at h'"
  shows "texts_at (undo_substitution rs a w) = texts_at h"
proof (cases "\<exists>nd s. h a = Some nd \<and> setting_input nd = Some s")
  case False
  with assms(1) have h': "h' = h" by (auto simp: substitute_def split: option.splits)
  have "texts_at (undo_substitution rs a w) b = texts_at w b" for b
  proof (cases "b = a")
    case True
    have "texts_at w a = texts_at h a" using k h' by simp
    with False have "\<forall>nd. w a = Some nd \<longrightarrow> setting_input nd = None"
      by (cases "h a"; cases "w a") (auto simp: texts_at_def)
    with True show ?thesis by (cases "w a") (simp_all add: undo_substitution_def texts_at_def upd_node_apply)
  qed (simp add: undo_substitution_def texts_upd)
  with k h' show ?thesis by (intro ext) simp
next
  case True
  then obtain nd s where nd: "h a = Some nd" "setting_input nd = Some s" by blast
  with assms(1) obtain m where m: "apply_parameters_in_place (to_model s) params = (m, Inr rs)"
    and h': "h' = upd_node a (set_setting m) h"
    by (auto simp: substitute_def split: prod.splits)
  have r: "restore_parameters rs m = to_model s"
    using apply_parameters_facts[of "to_model s" params] m nd assms(2) by (simp add: wf_settings_def)
  have wa: "texts_at w a = Some (Some (s_texts (of_model m s)))"
    unfolding k h' using nd by (simp add: texts_upd set_setting_def)
  then obtain x where x: "w a = Some x" "map_option s_texts (setting_input x) = Some (s_texts (of_model m s))"
    by (auto simp: texts_at_def)
  show ?thesis
  proof
    fix b
    show "texts_at (undo_substitution rs a w) b = texts_at h b"
    proof (cases "b = a")
      case True
      have "texts_at (undo_substitution rs a w) a = Some (Some (s_texts s))"
        using x undo_texts[OF x(2) apply_shape[OF m] r] by (simp add: undo_substitution_def texts_upd)
      with True nd show ?thesis by (simp add: texts_at_def)
    next
      case False
      then show ?thesis using k by (simp add: undo_substitution_def texts_upd h')
    qed
  qed
qed

text \<open>
  Running a node with parameters leaves the saved flow as it was: after the run the settings of every
  node hold the texts they held before it, with the parameter references in place, whether the
  substitution failed, the node failed, retried its inputs, was canceled or succeeded.
\<close>
theorem parameters_restored:
  assumes "execute_single_node R a st = Some (st', r)" and "wf_settings (rheap st) a"
  shows "texts_at (rheap st') = texts_at (rheap st)"
  using assms(1)
proof (rule single_node_cases)
  fix h ns
  assume "substitute (rs_params (rn_settings st)) a (rheap st) = (h, Inl (UnresolvedReferences ns))"
    and "st' = upd_result (\<lambda>r. r\<lparr>nr_error := Some (unresolved_text ns), nr_success := Some False, nr_running := False\<rparr>)
             (upd_heap (\<lambda>_. h) (begin_node a st))"
  with substitute_texts_failed assms(2) show ?thesis by simp
next
  fix h rs w nd st3
  assume h: "(if rs_params (rn_settings st) = [] then (rheap st, Inr []) else substitute (rs_params (rn_settings st)) a (rheap st)) = (h, Inr rs)"
    and w: "execute_node (rv_exec R) (rs_location (rn_settings st)) (rv_retries R) False (rs_performance (rn_settings st)) True True a
             (world_of (upd_heap (\<lambda>_. h) (begin_node a st))) = Some w"
    and h3: "rheap st3 = upd_node a (\<lambda>x. x\<lparr>node_hash := node_hash nd\<rparr>)
             (if rs = [] then wd_heap w else undo_substitution rs a (wd_heap w))"
    and f: "finish_node a (interrupt R st3) = (st', r)"
  have k: "texts_at (wd_heap w) = texts_at h" using keeps_texts[OF execute_node_base[OF w]] by (simp add: world_of_def)
  have "texts_at (if rs = [] then wd_heap w else undo_substitution rs a (wd_heap w)) = texts_at (rheap st)"
  proof (cases "rs_params (rn_settings st) = []")
    case True
    with h k show ?thesis by auto
  next
    case False
    with h have s: "substitute (rs_params (rn_settings st)) a (rheap st) = (h, Inr rs)" by simp
    note u = substitute_texts_undone[OF s assms(2) k]
    show ?thesis
    proof (cases "rs = []")
      case True
      have "texts_at (undo_substitution [] a (wd_heap w)) = texts_at (wd_heap w)"
        by (rule ext) (simp add: undo_substitution_def texts_at_def upd_node_apply restore_parameters_def option.map_comp o_def)
      with u True show ?thesis by simp
    qed (use u in simp)
  qed
  with h3 finish_facts[OF f] show ?thesis by (simp add: interrupt_texts)
qed

section \<open>The run returns\<close>

lemma visit_ids_nodes:
  "fold (visit_id nm adj) ids (core, st) = (core', st') \<Longrightarrow> set st' \<subseteq> set st \<union> ran (map_of nm)"
proof (induction ids arbitrary: core st)
  case (Cons u ids)
  show ?case
  proof (cases "dict_get nm u")
    case None
    with Cons show ?thesis by (simp add: visit_id_eq)
  next
    case (Some a)
    with Cons.prems have "fold (visit_id nm adj) ids (fold visit_next (adj u) core, st @ [a]) = (core', st')"
      by (simp add: visit_id_eq)
    from Cons.IH[OF this] Some show ?thesis by (auto intro: ranI)
  qed
qed simp

lemma sort_nodes: "set (concat (perform_topological_sort nm adj q deg vis)) \<subseteq> ran (map_of nm)"
proof (induction nm adj q deg vis rule: perform_topological_sort.induct)
  case (1 nm adj q deg vis)
  show ?case
  proof (cases "q = []")
    case True
    then show ?thesis by (simp add: perform_topological_sort.simps)
  next
    case False
    obtain deg' vis' q' st where v: "visit_stage nm adj q deg vis = ((deg', vis', q'), st)"
      by (metis surj_pair)
    then have "set st \<subseteq> ran (map_of nm)" unfolding visit_stage_def using visit_ids_nodes by fastforce
    moreover have "set (concat (perform_topological_sort nm adj q' deg' vis')) \<subseteq> ran (map_of nm)"
      using "1.IH"[OF False v[symmetric] refl refl] by simp
    ultimately show ?thesis using False v by (subst perform_topological_sort.simps) auto
  qed
qed

lemma dict_set_ran: "ran (map_of (dict_set k v d)) \<subseteq> insert v (ran (map_of d))"
  by (auto simp: ran_def split: if_splits)

lemma fold_ran:
  assumes "\<And>x nm. x \<in> set xs \<Longrightarrow> ran (map_of nm) \<subseteq> S \<Longrightarrow> ran (map_of (f x nm)) \<subseteq> S" and "ran (map_of nm) \<subseteq> S"
  shows "ran (map_of (fold f xs nm)) \<subseteq> S"
  by (rule fold_invariant[where P = "\<lambda>nm. ran (map_of nm) \<subseteq> S"]) (use assms in auto)

lemma tab_map_nodes: "ran (map_of (tab_map h as)) \<subseteq> set as \<union> (\<Union>a \<in> set as. set (leads h a))" (is "_ \<subseteq> ?S")
proof -
  have b: "ran (map_of (build_node_map h as)) \<subseteq> ?S"
    unfolding build_node_map_def
    by (rule fold_invariant[where P = "\<lambda>nm. ran (map_of nm) \<subseteq> ?S"]) (use dict_set_ran in fastforce)+
  have e: "ran (map_of (snd (snd (Exec_Order.add_edge h u x st)))) \<subseteq> ?S"
    if "x \<in> ?S" "ran (map_of (snd (snd st))) \<subseteq> ?S" for u x st
  proof (cases st)
    case (fields deg adj nm)
    with that dict_set_ran[of "nid h x" x nm] show ?thesis by (auto simp: Exec_Order.add_edge_def simp del: map_of_dict_set)
  qed
  have i: "ran (map_of (snd (snd (fold (Exec_Order.add_edge h u) xs st)))) \<subseteq> ?S"
    if xs: "set xs \<subseteq> ?S" and st: "ran (map_of (snd (snd st))) \<subseteq> ?S" for u xs st
  proof (rule fold_invariant[where P = "\<lambda>st. ran (map_of (snd (snd st))) \<subseteq> ?S", OF st])
    fix x and st1 :: "degrees \<times> adjacency \<times> node_map" assume "x \<in> set xs" and st1: "ran (map_of (snd (snd st1))) \<subseteq> ?S"
    then have "x \<in> ?S" using xs by blast
    then show "ran (map_of (snd (snd (Exec_Order.add_edge h u x st1)))) \<subseteq> ?S" using st1 by (rule e)
  qed
  have "ran (map_of (snd (snd (fold (\<lambda>a. fold (Exec_Order.add_edge h (nid h a)) (leads h a)) as
      (\<lambda>_. 0 :: int, \<lambda>_. [], build_node_map h as))))) \<subseteq> ?S"
  proof (rule fold_invariant[where P = "\<lambda>st. ran (map_of (snd (snd st))) \<subseteq> ?S"])
    show "ran (map_of (snd (snd (\<lambda>_. 0 :: int, \<lambda>_. [], build_node_map h as)))) \<subseteq> ?S" using b by simp
    fix a and st1 :: "degrees \<times> adjacency \<times> node_map" assume "a \<in> set as" and st1: "ran (map_of (snd (snd st1))) \<subseteq> ?S"
    then have "set (leads h a) \<subseteq> ?S" by blast
    then show "ran (map_of (snd (snd (fold (Exec_Order.add_edge h (nid h a)) (leads h a) st1)))) \<subseteq> ?S" using st1 by (rule i)
  qed
  then show ?thesis by (simp add: tables_def compute_in_degrees_and_adjacency_list_def)
qed

lemma plan_stage_nodes:
  assumes "plan_of g = Inr plan"
  shows "set (concat (stages plan)) \<subseteq> set (nodes g) \<union> (\<Union>a \<in> set (nodes g). set (leads (node_heap g) a))"
proof -
  let ?ns = "[a \<leftarrow> nodes g. a \<notin> set (determine_nodes_to_skip (node_heap g) (nodes g))]"
  from assms obtain ss where ss: "determine_execution_order (node_heap g) ?ns (flow_starts g @ get_implicit_starter_nodes g) = Inr ss"
    and plan: "stages plan = ss"
    by (auto simp: plan_of_def compute_execution_plan_def Let_def split: sum.splits)
  then have "ss = sort_result (node_heap g) ?ns (flow_starts g @ get_implicit_starter_nodes g)"
    by (auto simp: determine_execution_order_eq split: if_splits)
  then have "set (concat ss) \<subseteq> ran (map_of (tab_map (node_heap g) ?ns))"
    unfolding sort_result_def by (simp only: sort_nodes)
  with tab_map_nodes[of "node_heap g" ?ns] plan show ?thesis by fastforce
qed

definition fuel_ok :: "run_env \<Rightarrow> nat \<Rightarrow> bool" where
  "fuel_ok R N \<longleftrightarrow> 2 * N + 2 \<le> ee_fuel (rv_exec R) \<and> 2 * N + 2 \<le> rv_retries R"

lemma single_node_enough:
  assumes rk: "ranked (rheap st) r N" and a: "rheap st a \<noteq> None" and n: "fuel_ok R N"
  obtains st' q where "execute_single_node R a st = Some (st', q)"
proof -
  let ?s = "rn_settings st" and ?st1 = "begin_node a st"
  from a obtain nd where nd: "rheap st a = Some nd" by blast
  obtain h q where hq: "(if rs_params ?s = [] then (rheap st, Inr []) else substitute (rs_params ?s) a (rheap st)) = (h, q)"
    by fastforce
  then have st: "same_topo (rheap st) h" using substitute_topo by (auto split: if_splits)
  have "2 * r a + 2 \<le> rv_retries R" using ranked_bound[OF rk nd] n by (simp add: fuel_ok_def)
  moreover have "h a \<noteq> None" using same_topo_None[OF st] a by simp
  ultimately obtain w where "execute_node (rv_exec R) (rs_location ?s) (rv_retries R) False (rs_performance ?s) True True a
      (world_of (upd_heap (\<lambda>_. h) ?st1)) = Some w"
    using execute_node_enough[of "world_of (upd_heap (\<lambda>_. h) ?st1)" r N a "rv_exec R"] same_topo_ranked[OF st rk] n
    by (force simp: world_of_def fuel_ok_def)
  then have "execute_single_node R a st \<noteq> None"
    unfolding execute_single_node_def Let_def rheap_simps hq using nd
    by (cases q) (auto split: apply_error.splits)
  then show ?thesis using that by auto
qed

lemma execute_list_enough:
  "ranked (rheap st) r N \<Longrightarrow> fuel_ok R N \<Longrightarrow> \<forall>a \<in> set as. rheap st a \<noteq> None \<Longrightarrow> execute_list R as st \<noteq> None"
proof (induction as arbitrary: st)
  case (Cons a as)
  from Cons.prems(3) have "rheap st a \<noteq> None" by simp
  from single_node_enough[OF Cons.prems(1) this Cons.prems(2)] obtain st1 q where a: "execute_single_node R a st = Some (st1, q)" .
  have t: "same_topo (rheap st) (rheap st1)" using single_node_step[OF a] by (simp add: run_step_def)
  have "\<forall>a \<in> set as. rheap st1 a \<noteq> None" using Cons.prems(3) same_topo_None[OF t] by simp
  from Cons.IH[OF same_topo_ranked[OF t Cons.prems(1)] Cons.prems(2) this] a show ?case by auto
qed simp

lemma dependent_ids_enough:
  assumes "ranked h r N" and "fuel_ok R N"
  shows "dependent_ids R h a \<noteq> None"
proof (cases "h a")
  case (Some nd)
  have "h b \<noteq> None \<and> N < ee_fuel (rv_exec R) + r b" if "b \<in> set (leads_to_nodes nd)" for b
    using ranked_leads[OF assms(1) Some that] assms(2) by (simp add: fuel_ok_def)
  with dependents_of_enough[OF assms(1), of "leads_to_nodes nd" "ee_fuel (rv_exec R)"] Some show ?thesis
    by (auto simp: dependent_ids_def get_all_dependent_nodes_def)
qed (simp add: dependent_ids_def)

lemma propagate_enough: "ranked h r N \<Longrightarrow> fuel_ok R N \<Longrightarrow> propagate R h rs fs \<noteq> None"
proof (induction rs arbitrary: fs)
  case (Cons x rs)
  obtain a q where "x = (a, q)" by (cases x)
  with Cons dependent_ids_enough[OF Cons.prems, of a] show ?case by (cases fs) auto
qed simp

lemma execute_stages_enough:
  "ranked (rheap st) r N \<Longrightarrow> fuel_ok R N \<Longrightarrow> any_order R \<Longrightarrow> \<forall>a \<in> set (concat ss). rheap st a \<noteq> None \<Longrightarrow>
     execute_stages R ss failed skip st \<noteq> None"
proof (induction ss arbitrary: failed skip st)
  case (Cons s ss)
  let ?st = "interrupt R st"
  have i: "same_topo (rheap st) (rheap ?st)" by (rule interrupt_facts)
  note rk = same_topo_ranked[OF i Cons.prems(1)]
  have e: "\<forall>a \<in> set s \<union> set (concat ss). rheap ?st a \<noteq> None" using Cons.prems(4) same_topo_None[OF i] by auto
  let ?todo = "[a \<leftarrow> s. nid (rheap ?st) a \<notin> skip]"
  show ?case
  proof (cases "rn_canceled ?st")
    case True
    then show ?thesis by (simp add: Let_def)
  next
    case no: False
    show ?thesis
    proof (cases "?todo = []")
      case True
      with no Cons.IH[OF rk Cons.prems(2,3)] e show ?thesis by (simp add: Let_def)
    next
      case False
      have "\<forall>a \<in> set (stage_order R (rn_settings ?st) ?todo). rheap ?st a \<noteq> None"
        unfolding stage_order_set[OF Cons.prems(3)] using e by auto
      from execute_list_enough[OF rk Cons.prems(2) this] obtain st1 rs where
        l: "execute_list R (stage_order R (rn_settings ?st) ?todo) ?st = Some (st1, rs)" by auto
      have t: "same_topo (rheap ?st) (rheap st1)" using execute_list_facts(2)[OF l] by (simp add: run_step_def)
      note rk1 = same_topo_ranked[OF t rk]
      from propagate_enough[OF rk1 Cons.prems(2)] obtain f1 s1 where
        p: "propagate R (rheap st1) rs (failed, skip) = Some (f1, s1)" by fastforce
      have "\<forall>a \<in> set (concat ss). rheap st1 a \<noteq> None" using e same_topo_None[OF t] by simp
      from Cons.IH[OF rk1 Cons.prems(2,3) this, of f1 s1] no False l p show ?thesis by (simp add: Let_def)
    qed
  qed
qed simp

lemma run_callbacks_enough:
  "ranked (rheap st) r N \<Longrightarrow> fuel_ok R N \<Longrightarrow> run_callbacks R inc as st \<noteq> None"
proof (induction as arbitrary: st)
  case (Cons a as)
  have "callback_success R (rheap st) inc a \<noteq> None"
    using dependent_ids_enough[OF Cons.prems, of a] by (auto simp: callback_success_def)
  then obtain b where "callback_success R (rheap st) inc a = Some b" by auto
  with Cons.IH Cons.prems show ?case by simp
qed simp

text \<open>
  C6: A run always comes to an end, and a flow is never left marked as running. On a graph without cycles
  (a rank of at most \<open>N\<close>) \<open>run_graph\<close> returns or raises, for every failure of the nodes, every order in
  which the threads of a stage complete and every cancellation; recursion as deep as \<open>2 N + 2\<close> is enough.
  Afterwards the flow is no longer marked as running, unless it was before, in which case the request is
  refused and changes nothing.
\<close>
theorem run_graph_returns:
  assumes "ranked (rheap st) r N" and "graph_ok (rn_graph st)" and "fuel_ok R N" and "any_order R"
  shows "\<exists>st' res. run_graph R st = Some (st', res)
    \<and> (if rn_running st then st' = st \<and> res = Inl (PyException ''Flow is already running'') else \<not> rn_running st')"
proof (cases "rn_running st")
  case True
  then show ?thesis by (simp add: run_graph_def)
next
  case no: False
  let ?st1 = "st\<lparr>rn_running := True, rn_canceled := False\<rparr>"
  show ?thesis
  proof (cases "plan_of (rn_graph st)")
    case (Inl e)
    with no show ?thesis by (simp add: run_graph_def)
  next
    case (Inr plan)
    let ?skip = "nid (rheap st) ` set (skip_nodes plan)"
    let ?st2 = "(prepare_rerun_artifacts ?skip ?st1)\<lparr>rn_info := Some (initial_run_information (rn_settings ?st1)
        (plan_node_count plan) ''full_run'')\<rparr>"
    have t: "same_topo (rheap st) (rheap ?st2)" using prepare_rerun_step(1)[of ?st1 ?skip] by simp
    have nodes: "rheap st a \<noteq> None" if "a \<in> set (nodes (rn_graph st))" for a
      using that assms(2) get_node_nodes[OF assms(2)] graph_okD(2)[OF assms(2)] by (auto simp: rheap_def)
    have "rheap st b \<noteq> None" if "b \<in> set (leads (rheap st) a)" for a b
      using that ranked_leads(1)[OF assms(1)] by (cases "rheap st a") (auto simp: leads_def)
    then have "\<forall>a \<in> set (nodes (rn_graph st)) \<union> (\<Union>a \<in> set (nodes (rn_graph st)). set (leads (rheap st) a)). rheap st a \<noteq> None"
      using nodes by blast
    with plan_stage_nodes[OF Inr, folded rheap_def] have "\<forall>a \<in> set (concat (stages plan)). rheap st a \<noteq> None" by blast
    then have "\<forall>a \<in> set (concat (stages plan)). rheap ?st2 a \<noteq> None" unfolding same_topo_None[OF t] .
    from execute_stages_enough[OF same_topo_ranked[OF t assms(1)] assms(3,4) this] obtain st3 log failed skip' where
      x: "execute_stages R (stages plan) {} ?skip ?st2 = Some (st3, log, failed, skip')"
      by (metis not_None_eq surj_pair)
    have t3: "same_topo (rheap ?st2) (rheap st3)" using execute_stages_step[OF x assms(4)] by (simp add: run_step_def)
    note rk3 = same_topo_ranked[OF t3 same_topo_ranked[OF t assms(1)]]
    have "(if rn_canceled st3 then Some st3 else run_post_execution_callbacks R failed skip' st3) \<noteq> None"
      using run_callbacks_enough[OF rk3 assms(3)] by (simp add: run_post_execution_callbacks_def)
    then obtain st4 where st4: "(if rn_canceled st3 then Some st3 else run_post_execution_callbacks R failed skip' st3) = Some st4"
      by blast
    obtain st5 i where i: "get_run_info (finish_run st4) = (st5, i)" by (cases "get_run_info (finish_run st4)")
    have "run_graph R st = Some (st5, Inr (i, log))"
      using no Inr x st4 i by (simp add: run_graph_def)
    moreover have "\<not> rn_running st5"
      using i by (auto simp: get_run_info_def finish_run_def upd_info_def Let_def split: option.splits)
    ultimately show ?thesis using no by simp
  qed
qed

text \<open>
  Fetching a node that does not exist blocks the flow. \<open>trigger_fetch_node\<close> marks the flow as running
  before it reads the id of the node it looked up, outside of the \<open>try\<close> whose \<open>finally\<close> takes the mark
  back; for an unknown id the \<open>AttributeError\<close> leaves the flow marked, and every later run or fetch is
  refused as "Flow is already running".
\<close>
theorem fetch_unknown_node_blocks_flow:
  assumes "get_node (rn_graph st) i = None" and "\<not> rn_running st"
  shows "\<exists>st'. trigger_fetch_node R i st = Some (st', Inl AttributeError)
    \<and> run_graph R st' = Some (st', Inl (PyException ''Flow is already running''))
    \<and> trigger_fetch_node R j st' = Some (st', Inl (PyException ''Flow is already running''))"
  using assms by (simp add: trigger_fetch_node_def run_graph_def)

section \<open>The closure of the artifacts\<close>

definition deleted_from :: "artifact_context \<Rightarrow> int \<Rightarrow> int \<Rightarrow> bool" where
  "deleted_from c n p \<longleftrightarrow> p \<in> producers_of c n"

text \<open>
  C36: The scripts that run again are exactly those that have to. The loop that adds the producers of
  deleted artifacts ends, and its result is the least set that contains the scripts to rerun and, with
  every node, the producers of the artifacts it deleted; the order of the additions does not matter.
\<close>
theorem rerun_closure_spec:
  "set (rerun_closure c ns) = {p. \<exists>n \<in> set ns. (deleted_from c)\<^sup>*\<^sup>* n p}"
proof (induction c ns rule: rerun_closure.induct)
  case (1 c ns)
  let ?new = "[p \<leftarrow> get_producer_nodes_for_deletions c ns. p \<notin> set ns]"
  have new: "set ?new = {p. \<exists>n \<in> set ns. deleted_from c n p} - set ns"
    using get_producers_set[of c ns] by (auto simp: deleted_from_def)
  show ?case
  proof (cases "?new = []")
    case True
    then have closed: "p \<in> set ns" if "n \<in> set ns" "deleted_from c n p" for n p
      using new that by (auto simp: filter_empty_conv)
    have "p \<in> set ns" if "(deleted_from c)\<^sup>*\<^sup>* n p" "n \<in> set ns" for n p
      using that by (induction rule: rtranclp_induct) (auto intro: closed)
    then show ?thesis using True by (subst rerun_closure.simps) (auto simp: Let_def)
  next
    case False
    have "set (rerun_closure c ns) = {p. \<exists>n \<in> set (ns @ ?new). (deleted_from c)\<^sup>*\<^sup>* n p}"
      using "1.IH"[OF refl False] False by (subst rerun_closure.simps) (simp add: Let_def)
    also have "\<dots> = {p. \<exists>n \<in> set ns. (deleted_from c)\<^sup>*\<^sup>* n p}"
      using new by (auto intro: converse_rtranclp_into_rtranclp)
    finally show ?thesis .
  qed
qed

section \<open>Concrete runs\<close>

definition pair_graph :: flow_graph where
  "pair_graph = (empty_graph ''flow'')\<lparr>
     node_db := [(1, 1), (2, 2)], node_ids := [1, 2], flow_starts := [1],
     node_heap := (\<lambda>a. if a = 1 then Some (set_up_node 1 [] [2]) else if a = 2 then Some (set_up_node 2 [1] []) else None)\<rparr>"

definition sample_run_env :: "(int \<Rightarrow> string option) \<Rightarrow> run_env" where
  "sample_run_env bad =
     \<lparr>rv_exec = (sample_env ''narrow'')\<lparr>ee_fn := (\<lambda>nd xs. case bad (node_id nd) of None \<Rightarrow> Inr 7 | Some e \<Rightarrow> Inl e)\<rparr>,
      rv_retries = 8, rv_order = rev, rv_cancel = (\<lambda>k. False), rv_registers = (\<lambda>a. a = 1)\<rparr>"

definition pair_state :: run_state where
  "pair_state = \<lparr>rn_graph = pair_graph, rn_cache = {}, rn_artifacts = artifact_context0,
     rn_settings = \<lparr>rs_location = Local, rs_performance = False, rs_workers = 4, rs_params = []\<rparr>,
     rn_running = False, rn_canceled = False, rn_info = None, rn_callbacks = [], rn_called = [], rn_cleared = []\<rparr>"

definition outcome_of :: "(run_state \<times> (py_error + run_information \<times> stage_log)) option \<Rightarrow> (stage_log \<times> (addr \<times> bool) list) option" where
  "outcome_of r = (case r of Some (st, Inr (i, log)) \<Rightarrow> Some (log, rn_called st) | _ \<Rightarrow> None)"

lemma outcome_Some:
  assumes "outcome_of r = Some (log, called)"
  obtains st i where "r = Some (st, Inr (i, log))" and "rn_called st = called"
  using assms by (auto simp: outcome_of_def split: option.splits sum.splits)

lemma run_fails: "outcome_of (run_graph (sample_run_env (\<lambda>i. if i = 1 then Some ''x'' else None)) pair_state)
    = Some ([[(1, Some False)], []], [(1, False)])"
  by code_simp

lemma run_succeeds: "outcome_of (run_graph (sample_run_env (\<lambda>i. None)) pair_state)
    = Some ([[(1, Some True)], [(2, Some True)]], [(1, True)])"
  by code_simp

lemma any_order_sample [simp]: "any_order (sample_run_env bad)"
  by (simp add: any_order_def sample_run_env_def)

lemma failures_stop_dependents_witness:
  "\<exists>st' info. run_graph (sample_run_env (\<lambda>i. if i = 1 then Some ''x'' else None)) pair_state
      = Some (st', Inr (info, [[(1, Some False)], []])) \<and> ri_success info = Some False \<and> length (ri_results info) = 1"
proof -
  from outcome_Some[OF run_fails] obtain st' info where
    r: "run_graph (sample_run_env (\<lambda>i. if i = 1 then Some ''x'' else None)) pair_state = Some (st', Inr (info, [[(1, Some False)], []]))" .
  from failures_stop_dependents[OF r] have "ri_success info = Some False"
    and "map (\<lambda>r. (nr_id r, nr_success r)) (ri_results info) = map (map_prod (nid (rheap pair_state)) id) (concat [[(1, Some False)], []])"
    by simp_all
  with r show ?thesis by (metis (no_types, lifting) append_Nil2 concat.simps length_map list.size(3,4) One_nat_def add_0)
qed

lemma pair_ok: "graph_ok pair_graph" "ranked (node_heap pair_graph) (\<lambda>a. a) 2"
  by (simp add: graph_ok_def pair_graph_def empty_graph_def dict_ok_def nid_def set_up_node_def chain_node_def new_node_def)
     (auto simp: ranked_def pair_graph_def empty_graph_def set_up_node_def chain_node_def new_node_def get_all_inputs_def split: if_splits)

lemma callback_success_means_all_ran_witness:
  "\<exists>st' info log. run_graph (sample_run_env (\<lambda>i. None)) pair_state = Some (st', Inr (info, log))
     \<and> (1, True) \<in> set (reached_callbacks pair_state st') \<and> (\<exists>c. nid (rheap pair_state) c = 2 \<and> (c, Some True) \<in> set (concat log))"
proof -
  from outcome_Some[OF run_succeeds] obtain st' info where
    r: "run_graph (sample_run_env (\<lambda>i. None)) pair_state = Some (st', Inr (info, [[(1, Some True)], [(2, Some True)]]))"
    and c: "rn_called st' = [(1, True)]" .
  have called: "(1, True) \<in> set (reached_callbacks pair_state st')"
    using c by (simp add: reached_callbacks_def pair_state_def)
  have e: "(edge (rheap pair_state))\<^sup>*\<^sup>* 1 2"
    by (rule r_into_rtranclp)
       (simp add: edge_def leads_def rheap_def pair_state_def pair_graph_def empty_graph_def set_up_node_def chain_node_def)
  have g: "graph_ok (rn_graph pair_state)" using pair_ok(1) by (simp add: pair_state_def)
  have d: "distinct (map (nid (rheap pair_state)) (flow_starts (rn_graph pair_state)))"
    by (simp add: pair_state_def pair_graph_def)
  have b: "2 \<in> set (nodes (rn_graph pair_state))" by (simp add: pair_state_def pair_graph_def nodes_def dict_values_def)
  have n: "nid (rheap pair_state) 2 = 2"
    by (simp add: nid_def rheap_def pair_state_def pair_graph_def empty_graph_def set_up_node_def chain_node_def new_node_def)
  from callback_success_means_all_ran[OF r any_order_sample g d called b e] r called n show ?thesis by auto
qed

lemma run_graph_returns_witness:
  "\<exists>st' res. run_graph (sample_run_env (\<lambda>i. Some ''x'')) pair_state = Some (st', res) \<and> \<not> rn_running st'"
proof -
  have "ranked (rheap pair_state) (\<lambda>a. a) 2" "graph_ok (rn_graph pair_state)" "fuel_ok (sample_run_env (\<lambda>i. Some ''x'')) 2"
    using pair_ok by (simp_all add: rheap_def pair_state_def fuel_ok_def sample_run_env_def sample_env_def)
  from run_graph_returns[OF this any_order_sample] show ?thesis by (auto simp: pair_state_def)
qed

lemma fetch_unknown_node_blocks_flow_witness:
  "\<exists>st'. trigger_fetch_node (sample_run_env (\<lambda>i. None)) 9 pair_state = Some (st', Inl AttributeError)
    \<and> run_graph (sample_run_env (\<lambda>i. None)) st' = Some (st', Inl (PyException ''Flow is already running''))"
proof -
  have "get_node (rn_graph pair_state) 9 = None" "\<not> rn_running pair_state"
    by (simp_all add: pair_state_def pair_graph_def get_node_def)
  from fetch_unknown_node_blocks_flow[OF this, of "sample_run_env (\<lambda>i. None)" 1] show ?thesis by blast
qed

definition param_state :: run_state where
  "param_state = pair_state\<lparr>
     rn_settings := \<lparr>rs_location = Local, rs_performance = False, rs_workers = 4, rs_params = [(''who'', ''world'')]\<rparr>,
     rn_graph := pair_graph\<lparr>node_heap := (node_heap pair_graph)(1 := Some ((set_up_node 1 [] [2])\<lparr>setting_input :=
        Some ((plain_setting 1)\<lparr>s_description := ''hello '' @ ref_text ''who''\<rparr>)\<rparr>))\<rparr>\<rparr>"

lemma parameters_restored_witness:
  "\<exists>st' r. execute_single_node (sample_run_env (\<lambda>i. None)) 1 param_state = Some (st', r)
     \<and> texts_at (rheap st') 1 = Some (Some (''hello '' @ ref_text ''who'', []))"
proof -
  have h: "rheap param_state 1 = Some ((set_up_node 1 [] [2])\<lparr>setting_input :=
        Some ((plain_setting 1)\<lparr>s_description := ''hello '' @ ref_text ''who''\<rparr>)\<rparr>)"
    by (simp add: rheap_def param_state_def)
  have "ranked (rheap param_state) (\<lambda>a. a) 2"
    by (auto simp: rheap_def param_state_def ranked_def pair_graph_def empty_graph_def set_up_node_def chain_node_def new_node_def
        get_all_inputs_def split: if_splits)
  moreover have "fuel_ok (sample_run_env (\<lambda>i. None)) 2"
    by (simp add: fuel_ok_def sample_run_env_def sample_env_def)
  ultimately obtain st' r where x: "execute_single_node (sample_run_env (\<lambda>i. None)) 1 param_state = Some (st', r)"
    using single_node_enough[of param_state "\<lambda>a. a" 2 1] h by auto
  have "wf_settings (rheap param_state) 1" unfolding wf_settings_def h by (simp add: to_model_def plain_setting_def)
  from parameters_restored[OF x this] have "texts_at (rheap st') 1 = texts_at (rheap param_state) 1" by simp
  also have "\<dots> = Some (Some (''hello '' @ ref_text ''who'', []))"
    unfolding texts_at_def h by (simp add: s_texts_def plain_setting_def)
  finally show ?thesis using x by blast
qed

end
