(* ===== verification/Scheduler.thy ===== *)
theory Scheduler
  imports Prelude
begin

text \<open>
  The scheduler process: \<open>flowfile_scheduler/engine.py\<close> and \<open>shared/run_completion.py\<close>, over the tables of
  \<open>shared/models.py\<close> and \<open>database/models.py\<close>.

  A table is a dictionary from row ids to rows; runs are kept in the order of their creation. A session
  has its own view of the tables: writes change the view, \<open>commit\<close> makes them permanent, and closing the
  session drops what was not committed. A tick runs on one session, between the operations of other
  processes. Time stamps are microseconds (UTC); a local time is the naive wall clock of a time zone.

  Outside of the program are the clock (the k-th reading of it), the start of a subprocess (a process
  id, or \<open>None\<close> when it fails), the time zone database and \<open>croniter\<close>, in the record \<open>sched_env\<close>.
  \<open>OverflowError\<close> of a time zone conversion is not modelled.
\<close>

section \<open>Tables\<close>

record flow_schedule =
  sc_registration :: int
  sc_owner :: int
  sc_enabled :: bool
  sc_name :: "string option"
  sc_description :: "string option"
  sc_type :: string
  sc_interval :: "int option"
  sc_cron :: "string option"
  sc_zone :: "string option"
  sc_table :: "int option"
  sc_last :: "int option"
  sc_slot :: "int option"
  sc_seen :: "int option"
  sc_created :: "int option"

record flow_registration =
  fl_uuid :: string
  fl_name :: string
  fl_path :: string
  fl_owner :: int

record flow_run =
  fr_id :: int
  fr_registration :: "int option"
  fr_uuid :: "string option"
  fr_name :: string
  fr_path :: "string option"
  fr_user :: int
  fr_started :: int
  fr_ended :: "int option"
  fr_success :: "bool option"
  fr_completed :: int
  fr_nodes :: int
  fr_duration :: "int option"
  fr_type :: string
  fr_pid :: "int option"
  fr_schedule :: "int option"

record catalog_table =
  ct_name :: string
  ct_updated :: "int option"

record scheduler_lock =
  lk_holder :: string
  lk_started :: int
  lk_heartbeat :: "int option"

record database =
  db_schedules :: "(int, flow_schedule) dict"
  db_flows :: "(int, flow_registration) dict"
  db_runs :: "flow_run list"
  db_tables :: "(int, catalog_table) dict"
  db_links :: "(int \<times> int) list"
  db_lock :: "scheduler_lock option"

record sched_env =
  en_holder :: string
  en_clock :: "nat \<Rightarrow> int"
  en_spawn :: "string \<Rightarrow> int \<Rightarrow> int option"
  en_zone :: "string \<Rightarrow> (int \<Rightarrow> int) option"
  en_cron_next :: "string \<Rightarrow> int \<Rightarrow> int option"

record session =
  ss_db :: database
  ss_view :: database
  ss_reads :: nat

definition open_session :: "database \<Rightarrow> session" where
  "open_session d = \<lparr>ss_db = d, ss_view = d, ss_reads = 0\<rparr>"

definition commit :: "session \<Rightarrow> session" where
  "commit s = s\<lparr>ss_db := ss_view s\<rparr>"

definition upd_view :: "(database \<Rightarrow> database) \<Rightarrow> session \<Rightarrow> session" where
  "upd_view f s = s\<lparr>ss_view := f (ss_view s)\<rparr>"

definition utcnow :: "sched_env \<Rightarrow> session \<Rightarrow> int \<times> session" where
  "utcnow E s = (en_clock E (ss_reads s), s\<lparr>ss_reads := Suc (ss_reads s)\<rparr>)"

definition upd_schedule :: "int \<Rightarrow> (flow_schedule \<Rightarrow> flow_schedule) \<Rightarrow> database \<Rightarrow> database" where
  "upd_schedule i f d = d\<lparr>db_schedules := map (\<lambda>(k, sc). (k, if k = i then f sc else sc)) (db_schedules d)\<rparr>"

definition upd_run :: "int \<Rightarrow> (flow_run \<Rightarrow> flow_run) \<Rightarrow> database \<Rightarrow> database" where
  "upd_run i f d = d\<lparr>db_runs := map (\<lambda>r. if fr_id r = i then f r else r) (db_runs d)\<rparr>"

definition get_run :: "database \<Rightarrow> int \<Rightarrow> flow_run option" where
  "get_run d i = find (\<lambda>r. fr_id r = i) (db_runs d)"

definition fresh_run_id :: "database \<Rightarrow> int" where
  "fresh_run_id d = next_row_id (map fr_id (db_runs d))"

section \<open>Launching\<close>

definition second :: int where
  "second = 1000000"

definition has_active_run :: "database \<Rightarrow> int \<Rightarrow> bool" where
  "has_active_run d i \<longleftrightarrow> (\<exists>r \<in> set (db_runs d). fr_registration r = Some i \<and> fr_ended r = None)"

definition scheduled_run :: "database \<Rightarrow> int \<Rightarrow> flow_schedule \<Rightarrow> flow_registration \<Rightarrow> int \<Rightarrow> flow_run" where
  "scheduled_run d i sc fl now =
     \<lparr>fr_id = fresh_run_id d, fr_registration = Some (sc_registration sc), fr_uuid = None, fr_name = fl_name fl,
      fr_path = Some (fl_path fl), fr_user = sc_owner sc, fr_started = now, fr_ended = None, fr_success = None,
      fr_completed = 0, fr_nodes = 0, fr_duration = None, fr_type = ''scheduled'', fr_pid = None,
      fr_schedule = Some i\<rparr>"

definition maybe_launch :: "sched_env \<Rightarrow> int \<Rightarrow> int \<Rightarrow> flow_schedule \<Rightarrow> session \<Rightarrow> bool \<times> session" where
  "maybe_launch E now i sc s =
     (case dict_get (db_flows (ss_view s)) (sc_registration sc) of
        None \<Rightarrow> (False, s)
      | Some fl \<Rightarrow>
          if has_active_run (ss_view s) (sc_registration sc) then (False, s)
          else
            (let run = scheduled_run (ss_view s) i sc fl now;
                 s1 = commit (upd_view (\<lambda>d. upd_schedule i (\<lambda>x. x\<lparr>sc_last := Some now\<rparr>)
                        (d\<lparr>db_runs := db_runs d @ [run]\<rparr>)) s)
             in case en_spawn E (fl_path fl) (fr_id run) of
                  Some pid \<Rightarrow> (True, commit (upd_view (upd_run (fr_id run) (\<lambda>r. r\<lparr>fr_pid := Some pid\<rparr>)) s1))
                | None \<Rightarrow>
                    (case utcnow E s1 of
                       (t, s2) \<Rightarrow> (False, commit (upd_view (upd_run (fr_id run)
                                    (\<lambda>r. r\<lparr>fr_ended := Some t, fr_success := Some False\<rparr>)) s2)))))"

section \<open>One tick\<close>

definition enabled_of :: "string \<Rightarrow> database \<Rightarrow> int list" where
  "enabled_of ty d = [k. (k, sc) \<leftarrow> db_schedules d, sc_enabled sc \<and> sc_type sc = ty]"

text \<open>The loop over the schedules of a kind; each is looked up when its turn comes.\<close>

fun for_schedules ::
  "(int \<Rightarrow> flow_schedule \<Rightarrow> session \<Rightarrow> bool \<times> session) \<Rightarrow> int list \<Rightarrow> session \<Rightarrow> nat \<times> session" where
  "for_schedules f [] s = (0, s)"
| "for_schedules f (i # is) s =
     (case dict_get (db_schedules (ss_view s)) i of
        None \<Rightarrow> for_schedules f is s
      | Some sc \<Rightarrow>
          (case f i sc s of
             (b, s1) \<Rightarrow> (case for_schedules f is s1 of (n, s2) \<Rightarrow> ((if b then Suc n else n), s2))))"

definition interval_due :: "int \<Rightarrow> flow_schedule \<Rightarrow> bool" where
  "interval_due now sc =
     (case sc_interval sc of
        None \<Rightarrow> False
      | Some secs \<Rightarrow> (case sc_last sc of None \<Rightarrow> True | Some l \<Rightarrow> \<not> secs * second - (now - l) > 0))"

definition check_interval :: "sched_env \<Rightarrow> int \<Rightarrow> int \<Rightarrow> flow_schedule \<Rightarrow> session \<Rightarrow> bool \<times> session" where
  "check_interval E now i sc s = (if interval_due now sc then maybe_launch E now i sc s else (False, s))"

definition process_interval :: "sched_env \<Rightarrow> session \<Rightarrow> nat \<times> session" where
  "process_interval E s =
     (case utcnow E s of
        (now, s1) \<Rightarrow> for_schedules (check_interval E now)
                      (enabled_of ''interval'' (ss_view s)) s1)"

text \<open>A string attribute that is missing or empty counts as false.\<close>

definition nonempty :: "string option \<Rightarrow> string option" where
  "nonempty x = (case x of None \<Rightarrow> None | Some s \<Rightarrow> if s = [] then None else Some s)"

definition cron_base :: "(int \<Rightarrow> int) \<Rightarrow> flow_schedule \<Rightarrow> int option" where
  "cron_base zone sc =
     (case sc_slot sc of
        Some b \<Rightarrow> Some b
      | None \<Rightarrow> map_option zone (case sc_last sc of Some l \<Rightarrow> Some l | None \<Rightarrow> sc_created sc))"

text \<open>The next fire time after the cursor and the conversion to local time, if the schedule can be evaluated.\<close>

definition cron_plan :: "sched_env \<Rightarrow> flow_schedule \<Rightarrow> (int \<times> (int \<Rightarrow> int)) option" where
  "cron_plan E sc =
     (case nonempty (sc_cron sc) of
        None \<Rightarrow> None
      | Some expr \<Rightarrow>
          (case en_zone E (case nonempty (sc_zone sc) of None \<Rightarrow> ''UTC'' | Some z \<Rightarrow> z) of
             None \<Rightarrow> None
           | Some zone \<Rightarrow>
               (case cron_base zone sc of
                  None \<Rightarrow> None
                | Some base \<Rightarrow> map_option (\<lambda>t. (t, zone)) (en_cron_next E expr base))))"

definition check_cron :: "sched_env \<Rightarrow> int \<Rightarrow> int \<Rightarrow> flow_schedule \<Rightarrow> session \<Rightarrow> bool \<times> session" where
  "check_cron E now i sc s =
     (case cron_plan E sc of
        None \<Rightarrow> (False, s)
      | Some (next_run, zone) \<Rightarrow>
          if next_run \<le> zone now then
            (case maybe_launch E now i sc s of
               (b, s1) \<Rightarrow> if b then (True, commit (upd_view (upd_schedule i (\<lambda>x. x\<lparr>sc_slot := Some (zone now)\<rparr>)) s1))
                         else (False, s1))
          else (False, s))"

definition process_cron :: "sched_env \<Rightarrow> session \<Rightarrow> nat \<times> session" where
  "process_cron E s =
     (case utcnow E s of (now, s1) \<Rightarrow> for_schedules (check_cron E now) (enabled_of ''cron'' (ss_view s)) s1)"

definition newer :: "int \<Rightarrow> int option \<Rightarrow> bool" where
  "newer t seen = (case seen of None \<Rightarrow> True | Some l \<Rightarrow> t > l)"

definition check_table :: "sched_env \<Rightarrow> int \<Rightarrow> flow_schedule \<Rightarrow> session \<Rightarrow> bool \<times> session" where
  "check_table E i sc s =
     (case Option.bind (sc_table sc) (dict_get (db_tables (ss_view s))) of
        None \<Rightarrow> (False, s)
      | Some tb \<Rightarrow>
          (case ct_updated tb of
             None \<Rightarrow> (False, s)
           | Some t \<Rightarrow>
               if newer t (sc_seen sc) then
                 (case utcnow E s of
                    (now, s1) \<Rightarrow> maybe_launch E now i sc (upd_view (upd_schedule i (\<lambda>x. x\<lparr>sc_seen := Some t\<rparr>)) s1))
               else (False, s)))"

definition process_table_triggers :: "sched_env \<Rightarrow> session \<Rightarrow> nat \<times> session" where
  "process_table_triggers E s = for_schedules (check_table E) (enabled_of ''table_trigger'' (ss_view s)) s"

definition trigger_tables :: "database \<Rightarrow> int \<Rightarrow> int list" where
  "trigger_tables d i = [t. (k, t) \<leftarrow> db_links d, k = i]"

definition all_updated :: "database \<Rightarrow> int \<Rightarrow> flow_schedule \<Rightarrow> bool" where
  "all_updated d i sc =
     (\<forall>t \<in> set (trigger_tables d i).
        case Option.bind (dict_get (db_tables d) t) ct_updated of None \<Rightarrow> False | Some t \<Rightarrow> newer t (sc_last sc))"

definition check_table_set :: "sched_env \<Rightarrow> int \<Rightarrow> flow_schedule \<Rightarrow> session \<Rightarrow> bool \<times> session" where
  "check_table_set E i sc s =
     (if length (trigger_tables (ss_view s) i) < 2 then (False, s)
      else if all_updated (ss_view s) i sc then (case utcnow E s of (now, s1) \<Rightarrow> maybe_launch E now i sc s1)
      else (False, s))"

definition process_table_sets :: "sched_env \<Rightarrow> session \<Rightarrow> nat \<times> session" where
  "process_table_sets E s = for_schedules (check_table_set E) (enabled_of ''table_set_trigger'' (ss_view s)) s"

definition set_lock :: "scheduler_lock option \<Rightarrow> session \<Rightarrow> session" where
  "set_lock l s = commit (upd_view (\<lambda>d. d\<lparr>db_lock := l\<rparr>) s)"

definition stale_threshold :: int where
  "stale_threshold = 90"

definition acquire_lock :: "sched_env \<Rightarrow> session \<Rightarrow> bool \<times> session" where
  "acquire_lock E s0 =
     (case utcnow E s0 of
        (now, s) \<Rightarrow>
          (case db_lock (ss_view s) of
             None \<Rightarrow> (True, set_lock (Some \<lparr>lk_holder = en_holder E, lk_started = now, lk_heartbeat = Some now\<rparr>) s)
           | Some lk \<Rightarrow>
               if lk_holder lk = en_holder E then (True, set_lock (Some (lk\<lparr>lk_heartbeat := Some now\<rparr>)) s)
               else (case lk_heartbeat lk of
                       None \<Rightarrow> (False, s)
                     | Some t \<Rightarrow>
                         if now - t > stale_threshold * second
                         then (True, set_lock (Some \<lparr>lk_holder = en_holder E, lk_started = now, lk_heartbeat = Some now\<rparr>) s)
                         else (False, s))))"

definition tick :: "sched_env \<Rightarrow> session \<Rightarrow> nat \<times> session" where
  "tick E s =
     (case acquire_lock E s of
        (False, s1) \<Rightarrow> (0, s1)
      | (True, s1) \<Rightarrow>
          (case process_interval E s1 of
             (n1, s2) \<Rightarrow> (case process_cron E s2 of
               (n2, s3) \<Rightarrow> (case process_table_triggers E s3 of
                 (n3, s4) \<Rightarrow> (case process_table_sets E s4 of
                   (n4, s5) \<Rightarrow> (n1 + n2 + n3 + n4, s5))))))"

text \<open>What a tick leaves in the database, and how many flows it launched.\<close>

definition run_tick :: "sched_env \<Rightarrow> database \<Rightarrow> nat \<times> database" where
  "run_tick E d = (case tick E (open_session d) of (n, s) \<Rightarrow> (n, ss_db s))"

definition release_lock :: "sched_env \<Rightarrow> database \<Rightarrow> database" where
  "release_lock E d =
     (case db_lock d of None \<Rightarrow> d | Some lk \<Rightarrow> if lk_holder lk = en_holder E then d\<lparr>db_lock := None\<rparr> else d)"

definition run_once :: "sched_env \<Rightarrow> database \<Rightarrow> database" where
  "run_once E d = release_lock E (snd (run_tick E d))"

section \<open>Completion of a run\<close>

definition get_run_user_id :: "database \<Rightarrow> int \<Rightarrow> int option" where
  "get_run_user_id d i = map_option fr_user (get_run d i)"

definition complete_run :: "int \<Rightarrow> int \<Rightarrow> bool \<Rightarrow> int \<Rightarrow> int \<Rightarrow> database \<Rightarrow> database" where
  "complete_run now i success completed nodes =
     upd_run i (\<lambda>r. r\<lparr>fr_ended := Some now, fr_success := Some success, fr_completed := completed,
                      fr_nodes := (if nodes > 0 then nodes else fr_nodes r), fr_duration := Some (now - fr_started r)\<rparr>)"


section \<open>Atomic changes\<close>

text \<open>
  Whatever a tick does is a sequence of three kinds of changes: of the lock, of the marker of a table
  trigger, and of a launch, which adds a run for a schedule that is due when its flow has no active run.
\<close>

definition due :: "sched_env \<Rightarrow> int \<Rightarrow> flow_schedule \<Rightarrow> bool" where
  "due E now sc \<longleftrightarrow>
     sc_enabled sc \<and>
     (sc_type sc = ''interval'' \<and> interval_due now sc
      \<or> sc_type sc = ''cron'' \<and> (\<exists>t zone. cron_plan E sc = Some (t, zone) \<and> t \<le> zone now)
      \<or> sc_type sc = ''table_trigger'' \<or> sc_type sc = ''table_set_trigger'')"

definition slot_after :: "sched_env \<Rightarrow> int \<Rightarrow> flow_schedule \<Rightarrow> flow_run \<Rightarrow> int option" where
  "slot_after E now sc r =
     (case cron_plan E sc of
        Some (t, zone) \<Rightarrow> if sc_type sc = ''cron'' \<and> fr_pid r \<noteq> None then Some (zone now) else sc_slot sc
      | None \<Rightarrow> sc_slot sc)"

text \<open>The row of a launch: running with a process id, or ended without success.\<close>

definition launched :: "database \<Rightarrow> int \<Rightarrow> flow_schedule \<Rightarrow> flow_registration \<Rightarrow> int \<Rightarrow> flow_run \<Rightarrow> bool" where
  "launched d i sc fl now r \<longleftrightarrow>
     (\<exists>pid. r = (scheduled_run d i sc fl now)\<lparr>fr_pid := Some pid\<rparr>)
     \<or> (\<exists>t. r = (scheduled_run d i sc fl now)\<lparr>fr_ended := Some t, fr_success := Some False\<rparr>)"

inductive db_step :: "sched_env \<Rightarrow> database \<Rightarrow> database \<Rightarrow> bool" for E where
  Lock: "db_step E d (d\<lparr>db_lock := l\<rparr>)"
| Seen: "dict_get (db_schedules d) i = Some sc \<Longrightarrow> sc_type sc = ''table_trigger''
    \<Longrightarrow> db_step E d (upd_schedule i (\<lambda>x. x\<lparr>sc_seen := Some t\<rparr>) d)"
| Launch: "dict_get (db_schedules d) i = Some sc \<Longrightarrow> due E now sc \<Longrightarrow> dict_get (db_flows d) (sc_registration sc) = Some fl
    \<Longrightarrow> \<not> has_active_run d (sc_registration sc) \<Longrightarrow> launched d i sc fl now r
    \<Longrightarrow> db_step E d (upd_schedule i (\<lambda>x. x\<lparr>sc_last := Some now, sc_slot := slot_after E now sc r\<rparr>)
          (d\<lparr>db_runs := db_runs d @ [r]\<rparr>))"

inductive_cases db_stepE: "db_step E d d'"

lemma schedule_of_map [simp]:
  "map_of (map (\<lambda>(k, sc). (k, if k = i then f sc else sc)) xs) j
     = (if j = i then map_option f (map_of xs j) else map_of xs j)"
  by (induction xs) auto

lemma upd_schedule_simps [simp]:
  "db_flows (upd_schedule i f d) = db_flows d" "db_runs (upd_schedule i f d) = db_runs d"
  "db_tables (upd_schedule i f d) = db_tables d" "db_links (upd_schedule i f d) = db_links d"
  "db_lock (upd_schedule i f d) = db_lock d"
  "dict_get (db_schedules (upd_schedule i f d)) j =
     (if j = i then map_option f (dict_get (db_schedules d) j) else dict_get (db_schedules d) j)"
  by (simp_all add: upd_schedule_def)

lemma upd_schedule_twice:
  "upd_schedule i f (upd_schedule i g d) = upd_schedule i (f \<circ> g) d"
  by (simp add: upd_schedule_def comp_def case_prod_beta)

lemma upd_schedule_cong:
  assumes "\<And>sc. (i, sc) \<in> set (db_schedules d) \<Longrightarrow> f sc = g sc"
  shows "upd_schedule i f d = upd_schedule i g d"
proof -
  have "map (\<lambda>(k, sc). (k, if k = i then f sc else sc)) (db_schedules d)
      = map (\<lambda>(k, sc). (k, if k = i then g sc else sc)) (db_schedules d)"
    using assms by (intro map_cong[OF refl]) auto
  then show ?thesis by (simp add: upd_schedule_def)
qed

lemma upd_schedule_runs:
  "(upd_schedule i f d)\<lparr>db_runs := rs\<rparr> = upd_schedule i f (d\<lparr>db_runs := rs\<rparr>)"
  by (simp add: upd_schedule_def)

lemma upd_run_simps [simp]:
  "db_flows (upd_run i f d) = db_flows d" "db_schedules (upd_run i f d) = db_schedules d"
  "db_tables (upd_run i f d) = db_tables d" "db_links (upd_run i f d) = db_links d"
  "db_lock (upd_run i f d) = db_lock d"
  by (simp_all add: upd_run_def)

lemma fresh_run_id_new: "r \<in> set (db_runs d) \<Longrightarrow> fr_id r \<noteq> fresh_run_id d"
  using next_row_id_fresh[of "fr_id r" "map fr_id (db_runs d)"] by (auto simp: fresh_run_id_def)

lemma upd_fresh_run:
  assumes "fr_id r = fresh_run_id d"
  shows "upd_run (fr_id r) f (d\<lparr>db_runs := db_runs d @ [r]\<rparr>) = d\<lparr>db_runs := db_runs d @ [f r]\<rparr>"
proof -
  have "map (\<lambda>q. if fr_id q = fr_id r then f q else q) (db_runs d) = db_runs d"
    using assms fresh_run_id_new[of _ d] by (intro map_idI) auto
  then show ?thesis by (simp add: upd_run_def)
qed

lemma upd_run_schedule: "upd_run j f (upd_schedule i g d) = upd_schedule i g (upd_run j f d)"
  by (simp add: upd_run_def upd_schedule_def)


section \<open>A tick is a sequence of atomic changes\<close>

definition kinds :: "database \<Rightarrow> (int \<times> string \<times> bool) list" where
  "kinds d = map (\<lambda>(k, sc). (k, sc_type sc, sc_enabled sc)) (db_schedules d)"

text \<open>The view is reached from the database, and the database from where the tick began.\<close>

definition on_track :: "sched_env \<Rightarrow> database \<Rightarrow> session \<Rightarrow> bool" where
  "on_track E d s \<longleftrightarrow>
     (db_step E)\<^sup>*\<^sup>* d (ss_db s) \<and> (db_step E)\<^sup>*\<^sup>* (ss_db s) (ss_view s) \<and> kinds (ss_view s) = kinds d"

lemma kinds_upd [simp]:
  assumes "\<And>x. sc_type (f x) = sc_type x" "\<And>x. sc_enabled (f x) = sc_enabled x"
  shows "kinds (upd_schedule i f d) = kinds d"
  using assms by (simp add: kinds_def upd_schedule_def case_prod_beta)

lemma kinds_other [simp]: "kinds (d\<lparr>db_runs := rs\<rparr>) = kinds d" "kinds (d\<lparr>db_lock := l\<rparr>) = kinds d"
  by (simp_all add: kinds_def)

lemma kinds_keys: "kinds d = kinds d' \<Longrightarrow> map fst (db_schedules d) = map fst (db_schedules d')"
proof -
  assume "kinds d = kinds d'"
  then have "map fst (kinds d) = map fst (kinds d')" by simp
  then show ?thesis by (simp add: kinds_def comp_def case_prod_beta)
qed

lemma enabled_of_kinds: "enabled_of ty d = [k. (k, t, e) \<leftarrow> kinds d, e \<and> t = ty]"
  by (auto simp: enabled_of_def kinds_def comp_def case_prod_beta intro!: arg_cong[where f = concat] map_cong)

lemma enabled_of_get:
  assumes "i \<in> set (enabled_of ty d)" and "kinds d' = kinds d" and "dict_ok (db_schedules d')"
    and "dict_get (db_schedules d') i = Some sc"
  shows "sc_type sc = ty \<and> sc_enabled sc"
proof -
  from assms(1,2) have "i \<in> set (enabled_of ty d')" by (simp add: enabled_of_kinds)
  then obtain x where "(i, x) \<in> set (db_schedules d')" and x: "sc_enabled x" "sc_type x = ty"
    by (auto simp: enabled_of_def)
  with assms(3,4) have "x = sc" by (simp add: dict_get_in_iff)
  with x show ?thesis by simp
qed

lemma dict_ok_kinds: "kinds d' = kinds d \<Longrightarrow> dict_ok (db_schedules d) \<Longrightarrow> dict_ok (db_schedules d')"
  using kinds_keys[of d' d] by (simp add: dict_ok_def)

lemma on_track_reads [simp]: "on_track E d (s\<lparr>ss_reads := n\<rparr>) = on_track E d s"
  by (simp add: on_track_def)

lemma utcnow_simps [simp]: "ss_view (snd (utcnow E s)) = ss_view s" "ss_db (snd (utcnow E s)) = ss_db s"
  "on_track E d (snd (utcnow E s)) = on_track E d s"
  by (simp_all add: utcnow_def)

lemma on_track_step:
  assumes "on_track E d s" and "db_step E (ss_view s) (ss_view s')" and "kinds (ss_view s') = kinds (ss_view s)"
    and "ss_db s' = ss_db s \<or> ss_db s' = ss_view s'"
  shows "on_track E d s'"
  using assms by (auto simp: on_track_def intro: rtranclp.rtrancl_into_rtrancl rtranclp_trans)

lemma upd_schedule_at:
  assumes "dict_ok (db_schedules d)" and "dict_get (db_schedules d) i = Some sc" and "f sc = g sc"
  shows "upd_schedule i f d = upd_schedule i g d"
  using assms by (intro upd_schedule_cong) (auto simp: dict_get_in_iff)

text \<open>A launch attempt changes nothing, or commits a new run.\<close>

lemma maybe_launch_cases:
  assumes "maybe_launch E now i sc s = (b, s')"
  obtains "s' = s" and "\<not> b"
  | fl r where "dict_get (db_flows (ss_view s)) (sc_registration sc) = Some fl"
      and "\<not> has_active_run (ss_view s) (sc_registration sc)"
      and "launched (ss_view s) i sc fl now r" and "b \<longleftrightarrow> fr_pid r \<noteq> None"
      and "ss_view s' = upd_schedule i (\<lambda>x. x\<lparr>sc_last := Some now\<rparr>) ((ss_view s)\<lparr>db_runs := db_runs (ss_view s) @ [r]\<rparr>)"
      and "ss_db s' = ss_view s'"
proof -
  let ?run = "\<lambda>fl. scheduled_run (ss_view s) i sc fl now"
  have id: "fr_id (?run fl) = fresh_run_id (ss_view s)" for fl by (simp add: scheduled_run_def)
  show ?thesis
  proof (cases "dict_get (db_flows (ss_view s)) (sc_registration sc)")
    case None
    with assms that(1) show ?thesis by (simp add: maybe_launch_def)
  next
    case (Some fl)
    show ?thesis
    proof (cases "has_active_run (ss_view s) (sc_registration sc)")
      case True
      with Some assms that(1) show ?thesis by (simp add: maybe_launch_def)
    next
      case False
      show ?thesis
      proof (cases "en_spawn E (fl_path fl) (fr_id (?run fl))")
        case None
        with Some False assms have "\<not> b" and s': "ss_view s' = upd_schedule i (\<lambda>x. x\<lparr>sc_last := Some now\<rparr>)
            ((ss_view s)\<lparr>db_runs := db_runs (ss_view s) @ [(?run fl)\<lparr>fr_ended := Some (en_clock E (ss_reads s)),
                 fr_success := Some False\<rparr>]\<rparr>)" "ss_db s' = ss_view s'"
          using upd_fresh_run[OF id] by (auto simp: maybe_launch_def Let_def utcnow_def commit_def upd_view_def upd_run_schedule)
        moreover have "launched (ss_view s) i sc fl now ((?run fl)\<lparr>fr_ended := Some (en_clock E (ss_reads s)), fr_success := Some False\<rparr>)"
          by (auto simp: launched_def)
        ultimately show ?thesis using that(2)[OF Some False] by (simp add: scheduled_run_def)
      next
        case (Some pid)
        with \<open>dict_get _ _ = Some fl\<close> False assms have b and s': "ss_view s' = upd_schedule i (\<lambda>x. x\<lparr>sc_last := Some now\<rparr>)
            ((ss_view s)\<lparr>db_runs := db_runs (ss_view s) @ [(?run fl)\<lparr>fr_pid := Some pid\<rparr>]\<rparr>)" "ss_db s' = ss_view s'"
          using upd_fresh_run[OF id] by (auto simp: maybe_launch_def Let_def commit_def upd_view_def upd_run_schedule)
        moreover have "launched (ss_view s) i sc fl now ((?run fl)\<lparr>fr_pid := Some pid\<rparr>)"
          by (auto simp: launched_def)
        ultimately show ?thesis using that(2)[OF \<open>dict_get _ _ = Some fl\<close> False] by (simp add: scheduled_run_def)
      qed
    qed
  qed
qed


lemma maybe_launch_track:
  assumes "maybe_launch E now i sc s = (b, s')" and "on_track E d s"
    and "dict_ok (db_schedules (ss_view s))"
    and "dict_get (db_schedules (ss_view s)) i = Some sc" and "due E now sc" and "sc_type sc \<noteq> ''cron''"
  shows "on_track E d s'"
  using assms(1)
proof (cases rule: maybe_launch_cases)
  case 1
  with assms(2) show ?thesis by simp
next
  case (2 fl r)
  let ?d = "(ss_view s)\<lparr>db_runs := db_runs (ss_view s) @ [r]\<rparr>"
  have slot: "slot_after E now sc r = sc_slot sc" using assms(6) by (simp add: slot_after_def split: option.split)
  have "upd_schedule i (\<lambda>x. x\<lparr>sc_last := Some now\<rparr>) ?d
      = upd_schedule i (\<lambda>x. x\<lparr>sc_last := Some now, sc_slot := slot_after E now sc r\<rparr>) ?d"
    using assms(3,4) slot by (intro upd_schedule_at[where sc = sc]) simp_all
  with db_step.Launch[OF assms(4,5) 2(1,2,3)] 2(5) have "db_step E (ss_view s) (ss_view s')" by simp
  moreover have "kinds (ss_view s') = kinds (ss_view s)" using 2(5) by simp
  ultimately show ?thesis using on_track_step[OF assms(2)] 2(6) by blast
qed

lemma check_cron_track:
  assumes "on_track E d s" and "dict_ok (db_schedules (ss_view s))"
    and sc: "dict_get (db_schedules (ss_view s)) i = Some sc" and "sc_type sc = ''cron''" and "sc_enabled sc"
  shows "on_track E d (snd (check_cron E now i sc s))"
proof (cases "cron_plan E sc")
  case None
  with assms(1) show ?thesis by (simp add: check_cron_def)
next
  case (Some p)
  obtain t zone where p: "p = (t, zone)" by (cases p)
  show ?thesis
  proof (cases "t \<le> zone now")
    case False
    with Some p assms(1) show ?thesis by (simp add: check_cron_def)
  next
    case True
    with Some p assms(4,5) have due: "due E now sc" by (auto simp: due_def)
    obtain b s1 where m: "maybe_launch E now i sc s = (b, s1)" by (cases "maybe_launch E now i sc s")
    let ?s' = "if b then commit (upd_view (upd_schedule i (\<lambda>x. x\<lparr>sc_slot := Some (zone now)\<rparr>)) s1) else s1"
    have s': "snd (check_cron E now i sc s) = ?s'" using Some p True m by (simp add: check_cron_def)
    from m show ?thesis
    proof (cases rule: maybe_launch_cases)
      case 1
      with assms(1) s' show ?thesis by simp
    next
      case (2 fl r)
      let ?d = "(ss_view s)\<lparr>db_runs := db_runs (ss_view s) @ [r]\<rparr>"
      have slot: "slot_after E now sc r = (if b then Some (zone now) else sc_slot sc)"
        using Some p assms(4) 2(4) by (simp add: slot_after_def)
      have "ss_view ?s' = upd_schedule i (\<lambda>x. x\<lparr>sc_last := Some now, sc_slot := slot_after E now sc r\<rparr>) ?d"
      proof (cases b)
        case True
        then show ?thesis using 2(5) slot by (simp add: commit_def upd_view_def upd_schedule_twice comp_def)
      next
        case False
        with 2(5) have v: "ss_view ?s' = upd_schedule i (\<lambda>x. x\<lparr>sc_last := Some now\<rparr>) ?d" by simp
        show ?thesis unfolding v using False slot assms(2) sc by (intro upd_schedule_at[where sc = sc]) simp_all
      qed
      with db_step.Launch[OF sc due 2(1,2,3)] have "db_step E (ss_view s) (ss_view ?s')" by simp
      moreover have "kinds (ss_view ?s') = kinds (ss_view s)" using 2(5) by (simp add: commit_def upd_view_def)
      moreover have "ss_db ?s' = ss_view ?s'" using 2(6) by (simp add: commit_def upd_view_def)
      ultimately show ?thesis unfolding s' using on_track_step[OF assms(1)] by blast
    qed
  qed
qed

lemma for_schedules_track:
  assumes "on_track E d s" and "dict_ok (db_schedules d)" and "set is \<subseteq> set (enabled_of ty d)"
    and step: "\<And>i sc s. on_track E d s \<Longrightarrow> dict_ok (db_schedules (ss_view s)) \<Longrightarrow> dict_get (db_schedules (ss_view s)) i = Some sc
        \<Longrightarrow> sc_type sc = ty \<Longrightarrow> sc_enabled sc \<Longrightarrow> on_track E d (snd (f i sc s))"
  shows "on_track E d (snd (for_schedules f is s))"
  using assms(1,3)
proof (induction "is" arbitrary: s)
  case (Cons i "is")
  from Cons.prems(1) have k: "kinds (ss_view s) = kinds d" by (simp add: on_track_def)
  show ?case
  proof (cases "dict_get (db_schedules (ss_view s)) i")
    case None
    with Cons show ?thesis by simp
  next
    case (Some sc)
    from k assms(2) have ok: "dict_ok (db_schedules (ss_view s))" by (rule dict_ok_kinds)
    from Cons.prems(2) enabled_of_get[OF _ k ok Some] have "sc_type sc = ty" "sc_enabled sc" by auto
    with step[OF Cons.prems(1) ok Some] have "on_track E d (snd (f i sc s))" by simp
    with Cons.IH Cons.prems(2) have "on_track E d (snd (for_schedules f is (snd (f i sc s))))" by simp
    with Some show ?thesis by (simp add: case_prod_beta)
  qed
qed simp


lemma check_table_track:
  assumes "on_track E d s" and "dict_ok (db_schedules (ss_view s))"
    and sc: "dict_get (db_schedules (ss_view s)) i = Some sc" and "sc_type sc = ''table_trigger''" and "sc_enabled sc"
  shows "on_track E d (snd (check_table E i sc s))"
proof (cases "Option.bind (sc_table sc) (dict_get (db_tables (ss_view s)))")
  case None
  with assms(1) show ?thesis by (simp add: check_table_def)
next
  case (Some tb)
  show ?thesis
  proof (cases "ct_updated tb")
    case None
    with Some assms(1) show ?thesis by (simp add: check_table_def)
  next
    case (Some t)
    note tb = \<open>Option.bind _ _ = Some tb\<close> Some
    show ?thesis
    proof (cases "newer t (sc_seen sc)")
      case False
      with tb assms(1) show ?thesis by (simp add: check_table_def)
    next
      case True
      let ?mark = "upd_schedule i (\<lambda>x. x\<lparr>sc_seen := Some t\<rparr>)"
      let ?s1 = "upd_view ?mark (snd (utcnow E s))" and ?now = "fst (utcnow E s)"
      let ?sc = "sc\<lparr>sc_seen := Some t\<rparr>"
      have v: "ss_view ?s1 = ?mark (ss_view s)" by (simp add: upd_view_def)
      have tr: "on_track E d ?s1"
        using db_step.Seen[OF sc assms(4)] assms(1)
        by (intro on_track_step[OF assms(1)]) (simp_all add: upd_view_def)
      have same: "scheduled_run d i ?sc fl n = scheduled_run d i sc fl n" "sc_registration ?sc = sc_registration sc" for d fl n
        by (simp_all add: scheduled_run_def)
      have eq: "maybe_launch E ?now i sc = maybe_launch E ?now i ?sc"
        by (rule ext) (unfold maybe_launch_def same, rule refl)
      obtain b s' where m: "maybe_launch E ?now i ?sc ?s1 = (b, s')" by (cases "maybe_launch E ?now i ?sc ?s1")
      have "on_track E d s'"
      proof (rule maybe_launch_track[OF m tr])
        show "dict_ok (db_schedules (ss_view ?s1))" unfolding v using assms(2) by (rule dict_ok_kinds[rotated]) simp
        show "dict_get (db_schedules (ss_view ?s1)) i = Some ?sc" unfolding v using sc by simp
        show "due E ?now ?sc" using assms(4,5) by (simp add: due_def)
        show "sc_type ?sc \<noteq> ''cron''" using assms(4) by simp
      qed
      moreover have "snd (check_table E i sc s) = s'"
        using tb True m unfolding eq[symmetric] by (simp add: check_table_def case_prod_beta)
      ultimately show ?thesis by simp
    qed
  qed
qed

lemma plain_check_track:
  assumes "on_track E d s" and "dict_ok (db_schedules (ss_view s))"
    and sc: "dict_get (db_schedules (ss_view s)) i = Some sc" and "sc_enabled sc"
  shows "sc_type sc = ''interval'' \<Longrightarrow> on_track E d (snd (check_interval E now i sc s))"
    and "sc_type sc = ''table_set_trigger'' \<Longrightarrow> on_track E d (snd (check_table_set E i sc s))"
proof -
  have launch: "on_track E d (snd (maybe_launch E now i sc s'))"
    if "due E now sc" "sc_type sc \<noteq> ''cron''" "ss_view s' = ss_view s" "on_track E d s'" for s' now
    using maybe_launch_track[OF _ that(4), of now i sc "fst (maybe_launch E now i sc s')" "snd (maybe_launch E now i sc s')"]
      that assms by simp
  show "on_track E d (snd (check_interval E now i sc s))" if "sc_type sc = ''interval''"
    using that assms(1,4) launch[of now s] by (auto simp: check_interval_def due_def)
  show "on_track E d (snd (check_table_set E i sc s))" if "sc_type sc = ''table_set_trigger''"
    using that assms(1,4) launch[of "fst (utcnow E s)" "snd (utcnow E s)"]
    by (simp add: check_table_set_def due_def case_prod_beta)
qed

lemma process_track:
  assumes "on_track E d s" and "dict_ok (db_schedules d)"
  shows "on_track E d (snd (process_interval E s))" and "on_track E d (snd (process_cron E s))"
    and "on_track E d (snd (process_table_triggers E s))" and "on_track E d (snd (process_table_sets E s))"
proof -
  have en: "enabled_of ty (ss_view s) = enabled_of ty d" for ty
    using assms(1) by (simp add: on_track_def enabled_of_kinds)
  have all: "on_track E d (snd (for_schedules f (enabled_of ty (ss_view s)) s'))"
    if "on_track E d s'" and "\<And>i sc s. on_track E d s \<Longrightarrow> dict_ok (db_schedules (ss_view s))
        \<Longrightarrow> dict_get (db_schedules (ss_view s)) i = Some sc \<Longrightarrow> sc_type sc = ty \<Longrightarrow> sc_enabled sc \<Longrightarrow> on_track E d (snd (f i sc s))"
    for f ty s'
    by (rule for_schedules_track[OF that(1) assms(2), of _ ty]) (use that(2) in \<open>auto simp: en\<close>)
  show "on_track E d (snd (process_interval E s))"
    using all[of "snd (utcnow E s)"] assms(1) plain_check_track(1) by (simp add: process_interval_def case_prod_beta)
  show "on_track E d (snd (process_cron E s))"
    using all[of "snd (utcnow E s)"] assms(1) check_cron_track by (simp add: process_cron_def case_prod_beta)
  show "on_track E d (snd (process_table_triggers E s))"
    using all[of s] assms(1) check_table_track by (simp add: process_table_triggers_def)
  show "on_track E d (snd (process_table_sets E s))"
    using all[of s] assms(1) plain_check_track(2) by (simp add: process_table_sets_def)
qed

lemma acquire_lock_track: "on_track E d s \<Longrightarrow> on_track E d (snd (acquire_lock E s))"
proof -
  assume tr: "on_track E d s"
  have set: "on_track E d (set_lock l s')" if "on_track E d s'" for l s'
    using that db_step.Lock[of E "ss_view s'" l] by (intro on_track_step[OF that]) (simp_all add: set_lock_def commit_def upd_view_def)
  show ?thesis using tr set[of "snd (utcnow E s)"]
    by (auto simp: acquire_lock_def case_prod_beta split: option.split)
qed

lemma tick_track:
  assumes "on_track E d s" and "dict_ok (db_schedules d)"
  shows "on_track E d (snd (tick E s))"
proof -
  let ?s1 = "snd (acquire_lock E s)"
  let ?s2 = "snd (process_interval E ?s1)"
  let ?s3 = "snd (process_cron E ?s2)"
  let ?s4 = "snd (process_table_triggers E ?s3)"
  have 1: "on_track E d ?s1" using assms(1) by (rule acquire_lock_track)
  have "on_track E d ?s2" using process_track(1)[OF 1 assms(2)] .
  from process_track(2)[OF this assms(2)] have "on_track E d ?s3" .
  from process_track(3)[OF this assms(2)] have "on_track E d ?s4" .
  from process_track(4)[OF this assms(2)] have "on_track E d (snd (process_table_sets E ?s4))" .
  with 1 show ?thesis by (simp add: tick_def case_prod_beta split: bool.split)
qed

text \<open>What a tick leaves in the database is reached by atomic changes.\<close>

lemma run_tick_steps:
  assumes "dict_ok (db_schedules d)"
  shows "(db_step E)\<^sup>*\<^sup>* d (snd (run_tick E d))"
proof -
  have "on_track E d (open_session d)" by (simp add: on_track_def open_session_def)
  from tick_track[OF this assms] show ?thesis by (simp add: run_tick_def case_prod_beta on_track_def)
qed


section \<open>The guard of a launch\<close>

text \<open>
  The scheduler and the catalog both look for an active run before they start one, but not under the same
  key. \<open>launch_guard\<close> is what such a guard promises: an operation adds at most one run, and an active one
  only when no active run has its key; no run becomes active again or takes another key.
\<close>

definition one_active :: "(flow_run \<Rightarrow> 'k option) \<Rightarrow> database \<Rightarrow> bool" where
  "one_active key d \<longleftrightarrow> (\<forall>k. length [r \<leftarrow> db_runs d. key r = Some k \<and> fr_ended r = None] \<le> 1)"

definition guarded :: "(flow_run \<Rightarrow> 'k option) \<Rightarrow> database \<Rightarrow> database \<Rightarrow> bool" where
  "guarded key d d' \<longleftrightarrow>
     (\<exists>f new. db_runs d' = map f (db_runs d) @ new \<and> length new \<le> 1
        \<and> (\<forall>r k. key (f r) = Some k \<longrightarrow> fr_ended (f r) = None \<longrightarrow> key r = Some k \<and> fr_ended r = None)
        \<and> (\<forall>n \<in> set new. \<forall>k. key n = Some k \<longrightarrow> fr_ended n = None
              \<longrightarrow> (\<forall>r \<in> set (db_runs d). key r = Some k \<longrightarrow> fr_ended r \<noteq> None)))"

lemma guarded_same: "db_runs d' = db_runs d \<Longrightarrow> guarded key d d'"
  unfolding guarded_def by (rule exI[of _ id], rule exI[of _ "[]"]) simp

lemma guarded_map:
  assumes "db_runs d' = map f (db_runs d)"
    and "\<And>r k. key (f r) = Some k \<Longrightarrow> fr_ended (f r) = None \<Longrightarrow> key r = Some k \<and> fr_ended r = None"
  shows "guarded key d d'"
  unfolding guarded_def
proof (intro exI[of _ f] exI[of _ "[]"] conjI)
  show "\<forall>r k. key (f r) = Some k \<longrightarrow> fr_ended (f r) = None \<longrightarrow> key r = Some k \<and> fr_ended r = None"
    using assms(2) by blast
qed (simp_all add: assms(1))

lemma guarded_new:
  assumes "db_runs d' = db_runs d @ [n]"
    and "\<And>k r. key n = Some k \<Longrightarrow> fr_ended n = None \<Longrightarrow> r \<in> set (db_runs d) \<Longrightarrow> key r = Some k \<Longrightarrow> fr_ended r \<noteq> None"
  shows "guarded key d d'"
  unfolding guarded_def
proof (intro exI[of _ id] exI[of _ "[n]"] conjI)
  show "\<forall>m \<in> set [n]. \<forall>k. key m = Some k \<longrightarrow> fr_ended m = None
      \<longrightarrow> (\<forall>r \<in> set (db_runs d). key r = Some k \<longrightarrow> fr_ended r \<noteq> None)"
    using assms(2) by auto
qed (simp_all add: assms(1))

locale launch_guard =
  fixes key :: "flow_run \<Rightarrow> 'k option"
    and starts :: "database \<Rightarrow> database \<Rightarrow> bool"
  assumes guard: "starts d d' \<Longrightarrow> guarded key d d'"
begin

lemma keeps_one: "one_active key d \<Longrightarrow> starts d d' \<Longrightarrow> one_active key d'"
proof (unfold one_active_def, rule allI)
  fix k
  assume one: "\<forall>k. length [r \<leftarrow> db_runs d. key r = Some k \<and> fr_ended r = None] \<le> 1" and "starts d d'"
  from guard[OF this(2)] obtain f new where d': "db_runs d' = map f (db_runs d) @ new" and new: "length new \<le> 1"
    and f: "\<And>r k. key (f r) = Some k \<Longrightarrow> fr_ended (f r) = None \<Longrightarrow> key r = Some k \<and> fr_ended r = None"
    and n: "\<And>n k r. n \<in> set new \<Longrightarrow> key n = Some k \<Longrightarrow> fr_ended n = None \<Longrightarrow> r \<in> set (db_runs d)
              \<Longrightarrow> key r = Some k \<Longrightarrow> fr_ended r \<noteq> None"
    unfolding guarded_def by blast
  let ?P = "\<lambda>r. key r = Some k \<and> fr_ended r = None"
  have "filter ?P (map f rs) = map f (filter (\<lambda>r. ?P (f r)) rs)" for rs by (simp add: filter_map comp_def)
  moreover have "length (filter (\<lambda>r. ?P (f r)) rs) \<le> length (filter ?P rs)" for rs
  proof (induction rs)
    case (Cons r rs)
    with f[of r k] show ?case by (cases "?P (f r)") simp_all
  qed simp
  ultimately have old: "length (filter ?P (map f (db_runs d))) \<le> length (filter ?P (db_runs d))" by simp
  show "length (filter ?P (db_runs d')) \<le> 1"
  proof (cases "\<exists>n \<in> set new. ?P n")
    case True
    with n have "filter ?P (db_runs d) = []" unfolding filter_empty_conv by blast
    moreover from new length_filter_le[of ?P new] have "length (filter ?P new) \<le> 1" by (rule order_trans[rotated])
    ultimately show ?thesis using old by (simp add: d')
  next
    case False
    then have "filter ?P new = []" by (auto simp: filter_empty_conv)
    moreover from one have "length (filter ?P (db_runs d)) \<le> 1" by blast
    ultimately show ?thesis using old by (simp add: d')
  qed
qed

lemma keeps_one_all: "starts\<^sup>*\<^sup>* d d' \<Longrightarrow> one_active key d \<Longrightarrow> one_active key d'"
  by (induction rule: rtranclp_induct) (auto intro: keeps_one)

end

lemma launched_fields:
  assumes "launched d i sc fl now r"
  shows "fr_registration r = Some (sc_registration sc)" "fr_uuid r = None" "fr_started r = now" "fr_schedule r = Some i"
    "fr_id r = fresh_run_id d" "fr_type r = ''scheduled''" "fr_ended r = None \<longleftrightarrow> fr_pid r \<noteq> None"
  using assms by (auto simp: launched_def scheduled_run_def)

interpretation engine: launch_guard fr_registration "db_step E" for E
proof
  fix d d'
  assume "db_step E d d'"
  then show "guarded fr_registration d d'"
  proof cases
    case (Launch i sc now fl r)
    then show ?thesis
      by (intro guarded_new[of _ _ r]) (auto simp: launched_fields[OF Launch(6)] has_active_run_def)
  qed (simp_all add: guarded_same)
qed


section \<open>The lock\<close>

text \<open>Another scheduler holds the lock, and its heartbeat is not older than the threshold.\<close>

definition blocked :: "sched_env \<Rightarrow> database \<Rightarrow> bool" where
  "blocked E d \<longleftrightarrow>
     (case db_lock d of
        None \<Rightarrow> False
      | Some lk \<Rightarrow> lk_holder lk \<noteq> en_holder E
          \<and> (case lk_heartbeat lk of None \<Rightarrow> True | Some t \<Rightarrow> en_clock E 0 - t \<le> stale_threshold * second))"

definition holds_lock :: "sched_env \<Rightarrow> session \<Rightarrow> bool" where
  "holds_lock E s \<longleftrightarrow>
     (\<exists>lk. db_lock (ss_view s) = Some lk \<and> db_lock (ss_db s) = Some lk \<and> lk_holder lk = en_holder E
        \<and> lk_heartbeat lk = Some (en_clock E 0))"

lemma acquire_lock_cases:
  "if blocked E d then acquire_lock E (open_session d) = (False, (open_session d)\<lparr>ss_reads := 1\<rparr>)
   else fst (acquire_lock E (open_session d)) \<and> holds_lock E (snd (acquire_lock E (open_session d)))"
  by (auto simp: blocked_def acquire_lock_def holds_lock_def utcnow_def open_session_def set_lock_def commit_def upd_view_def
      split: option.splits)

lemma for_schedules_keeps:
  assumes "I s" and "\<And>i sc s. I s \<Longrightarrow> I (snd (f i sc s))"
  shows "I (snd (for_schedules f is s))"
  using assms(1)
proof (induction "is" arbitrary: s)
  case (Cons i "is")
  then show ?case using assms(2) by (simp add: case_prod_beta split: option.split)
qed simp

lemma holds_lock_utcnow [simp]: "holds_lock E (snd (utcnow E s)) = holds_lock E s"
  by (simp add: holds_lock_def)

lemma holds_lock_launch: "holds_lock E s \<Longrightarrow> holds_lock E (snd (maybe_launch E now i sc s))"
proof -
  assume h: "holds_lock E s"
  obtain b s' where m: "maybe_launch E now i sc s = (b, s')" by (cases "maybe_launch E now i sc s")
  then have "holds_lock E s'" by (cases rule: maybe_launch_cases) (use h in \<open>auto simp: holds_lock_def\<close>)
  with m show ?thesis by simp
qed

lemma holds_lock_checks:
  assumes "holds_lock E s"
  shows "holds_lock E (snd (check_interval E now i sc s))" "holds_lock E (snd (check_cron E now i sc s))"
    "holds_lock E (snd (check_table E i sc s))" "holds_lock E (snd (check_table_set E i sc s))"
proof -
  have upd: "holds_lock E (upd_view (upd_schedule i f) s) = holds_lock E s"
    "holds_lock E s \<Longrightarrow> holds_lock E (commit s)" for f s
    by (auto simp: holds_lock_def upd_view_def commit_def)
  note launch = holds_lock_launch[OF assms]
  show "holds_lock E (snd (check_interval E now i sc s))" using assms launch by (simp add: check_interval_def)
  show "holds_lock E (snd (check_cron E now i sc s))"
    using assms launch[of now i sc] by (auto simp: check_cron_def case_prod_beta upd intro!: upd split: option.split)
  show "holds_lock E (snd (check_table E i sc s))"
    using assms by (auto simp: check_table_def case_prod_beta upd intro!: holds_lock_launch split: option.split)
  show "holds_lock E (snd (check_table_set E i sc s))"
    using assms by (auto simp: check_table_set_def case_prod_beta intro!: holds_lock_launch)
qed

lemma holds_lock_process:
  assumes "holds_lock E s"
  shows "holds_lock E (snd (process_interval E s))" "holds_lock E (snd (process_cron E s))"
    "holds_lock E (snd (process_table_triggers E s))" "holds_lock E (snd (process_table_sets E s))"
  using assms holds_lock_checks
  by (auto simp: process_interval_def process_cron_def process_table_triggers_def process_table_sets_def case_prod_beta
      intro!: for_schedules_keeps[where I = "holds_lock E"])

lemma tick_lock:
  "if blocked E d then run_tick E d = (0, d)
   else \<exists>lk. db_lock (snd (run_tick E d)) = Some lk \<and> lk_holder lk = en_holder E \<and> lk_heartbeat lk = Some (en_clock E 0)"
proof (cases "blocked E d")
  case True
  with acquire_lock_cases[of E d] show ?thesis by (simp add: run_tick_def tick_def open_session_def)
next
  case False
  with acquire_lock_cases[of E d] obtain s1 where a: "acquire_lock E (open_session d) = (True, s1)" and h: "holds_lock E s1"
    by (cases "acquire_lock E (open_session d)") auto
  have "holds_lock E (snd (tick E (open_session d)))"
    unfolding tick_def a using h by (simp add: case_prod_beta holds_lock_process)
  with False show ?thesis by (auto simp: run_tick_def case_prod_beta holds_lock_def)
qed

text \<open>
  C15: Only one scheduler works at a time. After a tick of one scheduler, a tick of any other within 90
  seconds of its heartbeat launches nothing and changes nothing in the database, not even the lock. (The
  first tick was not blocked itself.)
\<close>
theorem one_scheduler_at_a_time:
  assumes "\<not> blocked A d" and "en_holder B \<noteq> en_holder A" and "en_clock B 0 - en_clock A 0 \<le> stale_threshold * second"
  shows "run_tick B (snd (run_tick A d)) = (0, snd (run_tick A d))"
proof -
  from assms(1) tick_lock[of A d] obtain lk where "db_lock (snd (run_tick A d)) = Some lk"
    "lk_holder lk = en_holder A" "lk_heartbeat lk = Some (en_clock A 0)" by auto
  with assms(2,3) have "blocked B (snd (run_tick A d))" by (simp add: blocked_def)
  with tick_lock[of B "snd (run_tick A d)"] show ?thesis by simp
qed


section \<open>What is due gets a run\<close>

text \<open>What happens to the schedules \<open>I\<close> in a session leaves the others, the flows and the active runs alone.\<close>

definition progress :: "int set \<Rightarrow> session \<Rightarrow> session \<Rightarrow> bool" where
  "progress I s s' \<longleftrightarrow>
     db_flows (ss_view s') = db_flows (ss_view s) \<and> db_tables (ss_view s') = db_tables (ss_view s)
     \<and> db_links (ss_view s') = db_links (ss_view s) \<and> kinds (ss_view s') = kinds (ss_view s)
     \<and> (\<forall>j. j \<notin> I \<longrightarrow> dict_get (db_schedules (ss_view s')) j = dict_get (db_schedules (ss_view s)) j)
     \<and> (\<forall>r. has_active_run (ss_view s) r \<longrightarrow> has_active_run (ss_view s') r)
     \<and> (db_runs (ss_db s) = db_runs (ss_view s) \<longrightarrow> db_runs (ss_db s') = db_runs (ss_view s'))"

lemma progress_refl [simp]: "progress I s s"
  by (simp add: progress_def)

lemma progress_trans: "progress I s s' \<Longrightarrow> progress J s' s'' \<Longrightarrow> progress (I \<union> J) s s''"
  by (simp add: progress_def)

lemma progress_mono: "progress I s s' \<Longrightarrow> I \<subseteq> J \<Longrightarrow> progress J s s'"
  by (auto simp: progress_def)

lemma progress_utcnow [simp]: "progress I (snd (utcnow E s)) s' = progress I s s'" "progress I s (snd (utcnow E s)) "
  by (simp_all add: progress_def)

lemma progress_upd: "(\<And>x. sc_type (f x) = sc_type x) \<Longrightarrow> (\<And>x. sc_enabled (f x) = sc_enabled x)
    \<Longrightarrow> progress {i} s (upd_view (upd_schedule i f) s)"
  by (simp add: progress_def upd_view_def has_active_run_def)

lemma progress_commit: "progress I s (commit s)"
  by (simp add: progress_def commit_def)

lemma has_active_run_append: "has_active_run (d\<lparr>db_runs := rs @ [n]\<rparr>) r
    \<longleftrightarrow> has_active_run (d\<lparr>db_runs := rs\<rparr>) r \<or> fr_registration n = Some r \<and> fr_ended n = None"
  by (auto simp: has_active_run_def)

lemma has_active_run_upd [simp]: "has_active_run (upd_schedule i f d) = has_active_run d"
  by (rule ext) (simp add: has_active_run_def)

lemma maybe_launch_progress: "progress {i} s (snd (maybe_launch E now i sc s))"
proof -
  obtain b s' where m: "maybe_launch E now i sc s = (b, s')" by (cases "maybe_launch E now i sc s")
  then have "progress {i} s s'"
    by (cases rule: maybe_launch_cases) (auto simp: progress_def has_active_run_append)
  with m show ?thesis by simp
qed

text \<open>With a spawn that works, an attempt leaves the flow with an active run.\<close>

lemma maybe_launch_active:
  assumes "\<And>p r. en_spawn E p r \<noteq> None" and "dict_get (db_flows (ss_view s)) (sc_registration sc) \<noteq> None"
  shows "has_active_run (ss_view (snd (maybe_launch E now i sc s))) (sc_registration sc)"
proof -
  obtain fl where fl: "dict_get (db_flows (ss_view s)) (sc_registration sc) = Some fl" using assms(2) by auto
  have id: "fr_id (scheduled_run (ss_view s) i sc fl now) = fresh_run_id (ss_view s)" by (simp add: scheduled_run_def)
  obtain pid where pid: "en_spawn E (fl_path fl) (fr_id (scheduled_run (ss_view s) i sc fl now)) = Some pid"
    using assms(1) by (meson not_Some_eq)
  show "has_active_run (ss_view (snd (maybe_launch E now i sc s))) (sc_registration sc)"
    using fl pid upd_fresh_run[OF id]
    by (simp add: maybe_launch_def Let_def commit_def upd_view_def upd_run_schedule has_active_run_append)
       (simp add: scheduled_run_def)
qed

lemma maybe_launch_reads:
  assumes "\<And>p r. en_spawn E p r \<noteq> None"
  shows "ss_reads (snd (maybe_launch E now i sc s)) = ss_reads s"
proof -
  have "\<exists>g. \<forall>p r. en_spawn E p r = Some (g p r)"
    using assms by (intro exI[of _ "\<lambda>p r. the (en_spawn E p r)"]) simp
  then obtain g where "\<And>p r. en_spawn E p r = Some (g p r)" by blast
  then show ?thesis by (simp add: maybe_launch_def Let_def commit_def upd_view_def split: option.split)
qed

lemma check_progress:
  "progress {i} s (snd (check_interval E now i sc s))" "progress {i} s (snd (check_cron E now i sc s))"
  "progress {i} s (snd (check_table E i sc s))" "progress {i} s (snd (check_table_set E i sc s))"
proof -
  have trans: "progress {i} s s' \<Longrightarrow> progress {i} s' s'' \<Longrightarrow> progress {i} s s''" for s s' s''
    using progress_trans[of "{i}" s s' "{i}"] by simp
  show "progress {i} s (snd (check_interval E now i sc s))" by (simp add: check_interval_def maybe_launch_progress)
  show "progress {i} s (snd (check_cron E now i sc s))"
    by (auto simp: check_cron_def case_prod_beta maybe_launch_progress split: option.split
        intro: trans[OF maybe_launch_progress trans[OF progress_upd progress_commit]])
  have "progress {i} s (snd (maybe_launch E now i sc (upd_view (upd_schedule i (\<lambda>x. x\<lparr>sc_seen := Some t\<rparr>)) (snd (utcnow E s)))))"
    for now t
    by (rule trans[OF _ maybe_launch_progress]) (rule trans[OF progress_utcnow(2) progress_upd], simp_all)
  then show "progress {i} s (snd (check_table E i sc s))"
    by (auto simp: check_table_def case_prod_beta split: option.split)
  show "progress {i} s (snd (check_table_set E i sc s))"
    by (auto simp: check_table_set_def case_prod_beta intro: trans[OF progress_utcnow(2) maybe_launch_progress])
qed

lemma for_schedules_progress:
  assumes "\<And>i sc s. progress {i} s (snd (f i sc s))"
  shows "progress (set is) s (snd (for_schedules f is s))"
proof (induction "is" arbitrary: s)
  case (Cons i "is")
  show ?case
  proof (cases "dict_get (db_schedules (ss_view s)) i")
    case None
    then show ?thesis using progress_mono[OF Cons.IH[of s]] by simp (metis subset_insertI)
  next
    case (Some sc)
    have "progress ({i} \<union> set is) s (snd (for_schedules f is (snd (f i sc s))))"
      by (rule progress_trans[OF assms Cons.IH])
    with Some show ?thesis by (simp add: case_prod_beta)
  qed
qed simp

lemma for_schedules_hits:
  assumes "\<And>i sc s. progress {i} s (snd (f i sc s))"
    and "i \<in> set is" and "dict_get (db_schedules (ss_view s)) i = Some sc"
    and hit: "\<And>s'. progress (- {i}) s s' \<Longrightarrow> has_active_run (ss_view (snd (f i sc s'))) r"
  shows "has_active_run (ss_view (snd (for_schedules f is s))) r"
  using assms(2-4)
proof (induction "is" arbitrary: s)
  case (Cons j "is")
  show ?case
  proof (cases "j = i")
    case True
    from Cons.prems(3)[of s] have "has_active_run (ss_view (snd (f i sc s))) r" by simp
    moreover have "progress (set is) (snd (f i sc s)) (snd (for_schedules f is (snd (f i sc s))))"
      by (rule for_schedules_progress[OF assms(1)])
    ultimately have "has_active_run (ss_view (snd (for_schedules f is (snd (f i sc s))))) r"
      by (simp add: progress_def)
    with True Cons.prems(2) show ?thesis by (simp add: case_prod_beta)
  next
    case False
    let ?s1 = "case dict_get (db_schedules (ss_view s)) j of None \<Rightarrow> s | Some x \<Rightarrow> snd (f j x s)"
    have p: "progress {j} s ?s1" using assms(1) by (simp split: option.split)
    have "has_active_run (ss_view (snd (for_schedules f is ?s1))) r"
    proof (rule Cons.IH)
      show "i \<in> set is" using False Cons.prems(1) by auto
      show "dict_get (db_schedules (ss_view ?s1)) i = Some sc" using p False Cons.prems(2) by (simp add: progress_def)
      fix s'
      assume "progress (- {i}) ?s1 s'"
      from progress_trans[OF p this] False have "progress (- {i}) s s'" by (simp add: insert_absorb)
      then show "has_active_run (ss_view (snd (f i sc s'))) r" by (rule Cons.prems(3))
    qed
    then show ?thesis by (cases "dict_get (db_schedules (ss_view s)) j") (simp_all add: case_prod_beta)
  qed
qed simp


definition due_now :: "sched_env \<Rightarrow> database \<Rightarrow> int \<Rightarrow> flow_schedule \<Rightarrow> bool" where
  "due_now E d i sc \<longleftrightarrow>
     sc_enabled sc \<and>
     (sc_type sc = ''interval'' \<and> interval_due (en_clock E 1) sc
      \<or> sc_type sc = ''cron'' \<and> (\<exists>t zone. cron_plan E sc = Some (t, zone) \<and> t \<le> zone (en_clock E 2))
      \<or> sc_type sc = ''table_trigger''
          \<and> (\<exists>tb t. Option.bind (sc_table sc) (dict_get (db_tables d)) = Some tb \<and> ct_updated tb = Some t \<and> newer t (sc_seen sc))
      \<or> sc_type sc = ''table_set_trigger'' \<and> 2 \<le> length (trigger_tables d i) \<and> all_updated d i sc)"

lemma process_progress:
  "progress (set (enabled_of ''interval'' (ss_view s))) s (snd (process_interval E s))"
  "progress (set (enabled_of ''cron'' (ss_view s))) s (snd (process_cron E s))"
  "progress (set (enabled_of ''table_trigger'' (ss_view s))) s (snd (process_table_triggers E s))"
  "progress (set (enabled_of ''table_set_trigger'' (ss_view s))) s (snd (process_table_sets E s))"
proof -
  have "progress (set is) (snd (utcnow E s)) (snd (for_schedules f is (snd (utcnow E s))))"
    if "\<And>i sc s. progress {i} s (snd (f i sc s))" for f "is" using that by (rule for_schedules_progress)
  then have "progress (set is) s (snd (for_schedules f is (snd (utcnow E s))))"
    if "\<And>i sc s. progress {i} s (snd (f i sc s))" for f "is" using that by simp
  then show "progress (set (enabled_of ''interval'' (ss_view s))) s (snd (process_interval E s))"
    "progress (set (enabled_of ''cron'' (ss_view s))) s (snd (process_cron E s))"
    "progress (set (enabled_of ''table_trigger'' (ss_view s))) s (snd (process_table_triggers E s))"
    "progress (set (enabled_of ''table_set_trigger'' (ss_view s))) s (snd (process_table_sets E s))"
    by (simp_all add: process_interval_def process_cron_def process_table_triggers_def process_table_sets_def
        case_prod_beta check_progress for_schedules_progress)
qed

lemma process_interval_reads:
  assumes "\<And>p r. en_spawn E p r \<noteq> None"
  shows "ss_reads (snd (process_interval E s)) = Suc (ss_reads s)"
proof -
  have "ss_reads (snd (for_schedules (check_interval E now) is s')) = n" if "ss_reads s' = n" for now "is" s' n
    by (rule for_schedules_keeps[where I = "\<lambda>s. ss_reads s = n"])
       (use that maybe_launch_reads[OF assms] in \<open>auto simp: check_interval_def\<close>)
  from this[of "snd (utcnow E s)"] show ?thesis by (simp add: process_interval_def utcnow_def)
qed

text \<open>Each loop gets to the schedules of its kind that are due.\<close>

lemma process_hits:
  assumes "\<And>p r. en_spawn E p r \<noteq> None" and "dict_get (db_schedules (ss_view s)) i = Some sc" and "sc_enabled sc"
    and "dict_get (db_flows (ss_view s)) (sc_registration sc) \<noteq> None"
  shows "sc_type sc = ''interval'' \<Longrightarrow> interval_due (en_clock E (ss_reads s)) sc
      \<Longrightarrow> has_active_run (ss_view (snd (process_interval E s))) (sc_registration sc)"
    and "sc_type sc = ''cron'' \<Longrightarrow> cron_plan E sc = Some (t, zone) \<Longrightarrow> t \<le> zone (en_clock E (ss_reads s))
      \<Longrightarrow> has_active_run (ss_view (snd (process_cron E s))) (sc_registration sc)"
    and "sc_type sc = ''table_trigger'' \<Longrightarrow> Option.bind (sc_table sc) (dict_get (db_tables (ss_view s))) = Some tb
      \<Longrightarrow> ct_updated tb = Some t \<Longrightarrow> newer t (sc_seen sc)
      \<Longrightarrow> has_active_run (ss_view (snd (process_table_triggers E s))) (sc_registration sc)"
    and "sc_type sc = ''table_set_trigger'' \<Longrightarrow> 2 \<le> length (trigger_tables (ss_view s) i) \<Longrightarrow> all_updated (ss_view s) i sc
      \<Longrightarrow> has_active_run (ss_view (snd (process_table_sets E s))) (sc_registration sc)"
proof -
  have mem: "i \<in> set (enabled_of (sc_type sc) (ss_view s))"
    using assms(2,3) by (force simp: enabled_of_def dest: map_of_SomeD)
  have active: "has_active_run (ss_view (snd (maybe_launch E now i sc s'))) (sc_registration sc)"
    if "db_flows (ss_view s') = db_flows (ss_view s)" for now s'
    by (rule maybe_launch_active[OF assms(1)]) (use that assms(4) in simp)
  have loop: "has_active_run (ss_view (snd (for_schedules f (enabled_of (sc_type sc) (ss_view s)) s0))) (sc_registration sc)"
    if "\<And>i sc s. progress {i} s (snd (f i sc s))" and "ss_view s0 = ss_view s" and
      "\<And>s'. progress (- {i}) s0 s' \<Longrightarrow> has_active_run (ss_view (snd (f i sc s'))) (sc_registration sc)" for f s0
  proof (rule for_schedules_hits[where i = i and sc = sc])
    show "dict_get (db_schedules (ss_view s0)) i = Some sc" using that(2) assms(2) by simp
  qed (use that mem in simp_all)
  show "has_active_run (ss_view (snd (process_interval E s))) (sc_registration sc)"
    if "sc_type sc = ''interval''" "interval_due (en_clock E (ss_reads s)) sc"
  proof -
    have "has_active_run (ss_view (snd (check_interval E (en_clock E (ss_reads s)) i sc s'))) (sc_registration sc)"
      if "progress (- {i}) (snd (utcnow E s)) s'" for s'
      using active[of s'] that \<open>interval_due _ sc\<close> by (simp add: check_interval_def progress_def)
    with loop[of "check_interval E (en_clock E (ss_reads s))" "snd (utcnow E s)"] that(1)
    show ?thesis by (simp add: process_interval_def utcnow_def check_progress)
  qed
  show "has_active_run (ss_view (snd (process_cron E s))) (sc_registration sc)"
    if "sc_type sc = ''cron''" "cron_plan E sc = Some (t, zone)" "t \<le> zone (en_clock E (ss_reads s))"
  proof -
    have "has_active_run (ss_view (snd (check_cron E (en_clock E (ss_reads s)) i sc s'))) (sc_registration sc)"
      if "progress (- {i}) (snd (utcnow E s)) s'" for s'
      using active[of s'] that \<open>cron_plan E sc = _\<close> \<open>t \<le> _\<close>
      by (auto simp: check_cron_def case_prod_beta commit_def upd_view_def progress_def)
    with loop[of "check_cron E (en_clock E (ss_reads s))" "snd (utcnow E s)"] that(1)
    show ?thesis by (simp add: process_cron_def utcnow_def check_progress)
  qed
  show "has_active_run (ss_view (snd (process_table_triggers E s))) (sc_registration sc)"
    if "sc_type sc = ''table_trigger''" "Option.bind (sc_table sc) (dict_get (db_tables (ss_view s))) = Some tb"
      "ct_updated tb = Some t" "newer t (sc_seen sc)"
  proof -
    have "has_active_run (ss_view (snd (check_table E i sc s'))) (sc_registration sc)" if "progress (- {i}) s s'" for s'
      using active that \<open>Option.bind _ _ = _\<close> \<open>ct_updated tb = _\<close> \<open>newer t _\<close>
      by (auto simp: check_table_def case_prod_beta upd_view_def progress_def)
    with loop[of "check_table E" s] that(1) show ?thesis by (simp add: process_table_triggers_def check_progress)
  qed
  show "has_active_run (ss_view (snd (process_table_sets E s))) (sc_registration sc)"
    if "sc_type sc = ''table_set_trigger''" "2 \<le> length (trigger_tables (ss_view s) i)" "all_updated (ss_view s) i sc"
  proof -
    have "has_active_run (ss_view (snd (check_table_set E i sc s'))) (sc_registration sc)" if "progress (- {i}) s s'" for s'
      using active that \<open>2 \<le> _\<close> \<open>all_updated _ _ _\<close>
      by (auto simp: check_table_set_def case_prod_beta progress_def trigger_tables_def all_updated_def)
    with loop[of "check_table_set E" s] that(1) show ?thesis by (simp add: process_table_sets_def check_progress)
  qed
qed


lemma acquire_lock_frame:
  "progress {} s (snd (acquire_lock E s))" "ss_reads (snd (acquire_lock E s)) = Suc (ss_reads s)"
  by (auto simp: acquire_lock_def utcnow_def set_lock_def commit_def upd_view_def progress_def has_active_run_def kinds_def
      split: option.split)

lemma progress_other_kind:
  assumes "progress (set (enabled_of ty (ss_view s))) s s'" and "dict_ok (db_schedules (ss_view s))"
    and "dict_get (db_schedules (ss_view s)) i = Some sc" and "sc_type sc \<noteq> ty"
  shows "dict_get (db_schedules (ss_view s')) i = Some sc"
proof -
  have "i \<notin> set (enabled_of ty (ss_view s))" using enabled_of_get[OF _ refl assms(2,3)] assms(4) by blast
  with assms(1,3) show ?thesis by (simp add: progress_def)
qed

text \<open>
  C13: Whatever is due gets a run. After a tick that is not blocked and in which no subprocess fails to start,
  every registered flow with an enabled schedule that is due (an interval that has passed, a cron time
  that has passed since the cursor, an updated table, or a set of tables that have all been updated) has
  an active run. The clock readings are those of the tick: the first for the lock, the second for the
  intervals, the third for cron.
\<close>
theorem due_flows_run:
  assumes "\<not> blocked E d" and "\<And>p r. en_spawn E p r \<noteq> None" and "dict_ok (db_schedules d)"
    and "dict_get (db_schedules d) i = Some sc" and "due_now E d i sc"
    and "dict_get (db_flows d) (sc_registration sc) \<noteq> None"
  shows "has_active_run (snd (run_tick E d)) (sc_registration sc)"
proof -
  let ?r = "sc_registration sc" and ?s0 = "open_session d"
  define s1 where "s1 = snd (acquire_lock E ?s0)"
  define s2 where "s2 = snd (process_interval E s1)"
  define s3 where "s3 = snd (process_cron E s2)"
  define s4 where "s4 = snd (process_table_triggers E s3)"
  define s5 where "s5 = snd (process_table_sets E s4)"
  note s_defs = s1_def s2_def s3_def s4_def s5_def
  have "fst (acquire_lock E ?s0)" using acquire_lock_cases[of E d] assms(1) by simp
  then have tick: "snd (run_tick E d) = ss_db s5"
    by (simp add: run_tick_def tick_def case_prod_beta s_defs split: bool.split)
  have p1: "progress {} ?s0 s1" and reads1: "ss_reads s1 = 1"
    unfolding s1_def by (simp_all add: acquire_lock_frame open_session_def)
  have p: "progress (set (enabled_of ''interval'' (ss_view s1))) s1 s2" "progress (set (enabled_of ''cron'' (ss_view s2))) s2 s3"
    "progress (set (enabled_of ''table_trigger'' (ss_view s3))) s3 s4" "progress (set (enabled_of ''table_set_trigger'' (ss_view s4))) s4 s5"
    by (simp_all add: s_defs process_progress)
  have reads2: "ss_reads s2 = 2" using process_interval_reads[of E s1, OF assms(2)] reads1 by (simp add: s2_def)
  have same: "db_flows (ss_view s) = db_flows d \<and> db_tables (ss_view s) = db_tables d \<and> db_links (ss_view s) = db_links d
      \<and> dict_ok (db_schedules (ss_view s))" if "s \<in> {s1, s2, s3, s4}" for s
    using that p1 p assms(3) dict_ok_kinds[of "ss_view s" d] by (auto simp: progress_def open_session_def)
  have later: "has_active_run (ss_view s5) ?r" if "\<exists>s \<in> {s2, s3, s4, s5}. has_active_run (ss_view s) ?r"
    using that p by (auto simp: progress_def)
  have sc1: "dict_get (db_schedules (ss_view s1)) i = Some sc" using p1 assms(4) by (simp add: progress_def open_session_def)
  have sc2: "dict_get (db_schedules (ss_view s2)) i = Some sc" if "sc_type sc \<noteq> ''interval''"
    using progress_other_kind[OF p(1) _ sc1 that] same[of s1] by simp
  have sc3: "dict_get (db_schedules (ss_view s3)) i = Some sc" if "sc_type sc \<noteq> ''interval''" "sc_type sc \<noteq> ''cron''"
    using progress_other_kind[OF p(2) _ sc2 that(2)] that(1) same[of s2] by simp
  have sc4: "dict_get (db_schedules (ss_view s4)) i = Some sc"
    if "sc_type sc \<noteq> ''interval''" "sc_type sc \<noteq> ''cron''" "sc_type sc \<noteq> ''table_trigger''"
    using progress_other_kind[OF p(3) _ sc3 that(3)] that(1,2) same[of s3] by simp
  note hits = process_hits[OF assms(2), where i = i and sc = sc]
  from assms(5) have en: "sc_enabled sc" by (simp add: due_now_def)
  from assms(5) consider "sc_type sc = ''interval''" "interval_due (en_clock E 1) sc"
    | t zone where "sc_type sc = ''cron''" "cron_plan E sc = Some (t, zone)" "t \<le> zone (en_clock E 2)"
    | tb t where "sc_type sc = ''table_trigger''" "Option.bind (sc_table sc) (dict_get (db_tables d)) = Some tb"
        "ct_updated tb = Some t" "newer t (sc_seen sc)"
    | "sc_type sc = ''table_set_trigger''" "2 \<le> length (trigger_tables d i)" "all_updated d i sc"
    by (auto simp: due_now_def)
  then have "has_active_run (ss_view s5) ?r"
  proof cases
    case 1
    then show ?thesis using later hits(1)[of s1] sc1 en same[of s1] assms(6) reads1 by (simp add: s2_def)
  next
    case 2
    then show ?thesis using later hits(2)[of s2] sc2 en same[of s2] assms(6) reads2 by (simp add: s3_def)
  next
    case 3
    then show ?thesis using later hits(3)[of s3] sc3 en same[of s3] assms(6) by (simp add: s4_def)
  next
    case 4
    moreover have "trigger_tables (ss_view s4) i = trigger_tables d i" "all_updated (ss_view s4) i sc = all_updated d i sc"
      using same[of s4] by (simp_all add: trigger_tables_def all_updated_def)
    ultimately show ?thesis using later hits(4)[of s4] sc4 en same[of s4] assms(6) by (simp add: s5_def)
  qed
  moreover have "db_runs (ss_db s5) = db_runs (ss_view s5)" using p1 p by (simp add: progress_def open_session_def)
  ultimately show ?thesis unfolding tick has_active_run_def by simp
qed


section \<open>Examples\<close>

text \<open>Flows 1 and 2, a table updated at second 100, and schedules that watch it; a clock that starts at \<open>t\<close>.\<close>

definition watch :: "int \<Rightarrow> flow_schedule" where
  "watch reg = \<lparr>sc_registration = reg, sc_owner = 1, sc_enabled = True, sc_name = None, sc_description = None,
     sc_type = ''table_trigger'', sc_interval = None, sc_cron = None, sc_zone = None, sc_table = Some 1,
     sc_last = None, sc_slot = None, sc_seen = Some 0, sc_created = Some 0\<rparr>"

definition busy_run :: flow_run where
  "busy_run = \<lparr>fr_id = 1, fr_registration = Some 1, fr_uuid = Some ''u1'', fr_name = ''f1'', fr_path = Some ''p1'', fr_user = 1,
     fr_started = 0, fr_ended = None, fr_success = None, fr_completed = 0, fr_nodes = 0, fr_duration = None,
     fr_type = ''manual'', fr_pid = Some 7, fr_schedule = None\<rparr>"

definition watched :: "(int \<times> flow_schedule) list \<Rightarrow> flow_run list \<Rightarrow> database" where
  "watched scs rs =
     \<lparr>db_schedules = scs,
      db_flows = [(1, \<lparr>fl_uuid = ''u1'', fl_name = ''f1'', fl_path = ''p1'', fl_owner = 1\<rparr>),
                  (2, \<lparr>fl_uuid = ''u2'', fl_name = ''f2'', fl_path = ''p2'', fl_owner = 1\<rparr>)],
      db_runs = rs, db_tables = [(1, \<lparr>ct_name = ''t'', ct_updated = Some (100 * second)\<rparr>)], db_links = [], db_lock = None\<rparr>"

definition demo_env :: "int \<Rightarrow> (int \<Rightarrow> int option) \<Rightarrow> sched_env" where
  "demo_env t spawn = \<lparr>en_holder = ''s'', en_clock = (\<lambda>n. t * second), en_spawn = (\<lambda>p r. spawn r),
     en_zone = (\<lambda>z. Some (\<lambda>u. u)), en_cron_next = (\<lambda>e b. Some (b + 3600 * second))\<rparr>"

definition runs_of :: "int \<Rightarrow> database \<Rightarrow> flow_run list" where
  "runs_of i d = [r \<leftarrow> db_runs d. fr_schedule r = Some i]"

definition tick_at :: "int \<Rightarrow> database \<Rightarrow> database" where
  "tick_at t d = snd (run_tick (demo_env t (\<lambda>r. Some 8)) d)"

lemma one_scheduler_at_a_time_witness:
  "run_tick ((demo_env 230 (\<lambda>r. Some 8))\<lparr>en_holder := ''other''\<rparr>) (tick_at 200 (watched [(1, watch 1)] []))
     = (0, tick_at 200 (watched [(1, watch 1)] []))"
  unfolding tick_at_def
  by (rule one_scheduler_at_a_time) (simp_all add: blocked_def watched_def demo_env_def stale_threshold_def second_def)

lemma due_flows_run_witness: "has_active_run (tick_at 200 (watched [(1, watch 1), (2, watch 2)] [])) 2"
proof -
  have "has_active_run (tick_at 200 (watched [(1, watch 1), (2, watch 2)] [])) (sc_registration (watch 2))"
    unfolding tick_at_def
  proof (rule due_flows_run[where i = 2])
    show "due_now (demo_env 200 (\<lambda>r. Some 8)) (watched [(1, watch 1), (2, watch 2)] []) 2 (watch 2)"
      by (simp add: due_now_def watch_def watched_def newer_def second_def)
  qed (simp_all add: blocked_def watched_def demo_env_def dict_ok_def watch_def)
  then show ?thesis by (simp add: watch_def)
qed

text \<open>
  An update of a table can be lost. The poll marks an update as seen before it tries to launch, and a
  flow that is busy is not launched; the mark is dropped with the session, and the update is picked up
  when the flow is free again. But when any later schedule of the same tick launches, its commit makes
  the mark permanent, and the busy flow never runs for this update.
\<close>
theorem busy_trigger_loses_update:
  defines "alone \<equiv> tick_at 200 (watched [(1, watch 1)] [busy_run])"
    and "together \<equiv> tick_at 200 (watched [(1, watch 1), (2, watch 2)] [busy_run])"
  shows "length (runs_of 1 (tick_at 300 (complete_run (250 * second) 1 True 1 1 alone))) = 1
    \<and> runs_of 1 (tick_at 300 (complete_run (250 * second) 1 True 1 1 together)) = []
    \<and> length (runs_of 2 together) = 1"
  unfolding alone_def together_def by (intro conjI; code_simp)

text \<open>
  A table trigger is not retried when the subprocess cannot be started. The mark is committed with
  the run record before the start is tried, so the next tick takes the update as handled, although the
  only run for it ended without success; a cron schedule in the same situation is tried again.
\<close>
theorem failed_spawn_loses_update:
  defines "failed \<equiv> snd (run_tick (demo_env 200 (\<lambda>r. None)) (watched [(1, watch 1)] []))"
    and "cron \<equiv> snd (run_tick (demo_env 9000 (\<lambda>r. None))
           (watched [(1, (watch 1)\<lparr>sc_type := ''cron'', sc_cron := Some ''0 * * * *'', sc_slot := Some 0\<rparr>)] []))"
  shows "map fr_success (runs_of 1 (tick_at 300 failed)) = [Some False]
    \<and> map fr_success (runs_of 1 (tick_at 9030 cron)) = [Some False, None]"
  unfolding failed_def cron_def by (intro conjI; code_simp)

end
