(* ===== verification/Schedules.thy ===== *)
theory Schedules
  imports Scheduler
begin

text \<open>
  The schedules and runs of the catalog: \<open>catalog/services/schedules.py\<close>, the runs of
  \<open>catalog/services/runs.py\<close>, the rules of \<open>catalog/validators.py\<close> and the queries of
  \<open>catalog/repository.py\<close> they use. They work on the tables of \<open>Scheduler\<close>, and every write is committed
  at once. The argument \<open>now\<close> is the time of the call.

  \<open>croniter.is_valid\<close> and the time zone database are arguments. White space is that of ASCII. The
  mirror of a schedule in a project folder and the favourites of a flow are not modelled.
\<close>

datatype catalog_error =
    FlowNotFound int
  | ScheduleNotFound int
  | TableNotFound int
  | RunNotFound int
  | FlowAlreadyRunning int
  | InvalidSchedule string
  | IntegrityError

section \<open>Validation\<close>

definition min_interval :: int where
  "min_interval = 60"

definition is_space :: "char \<Rightarrow> bool" where
  "is_space c \<longleftrightarrow> c \<in> set [CHR '' '', CHR 0x09, CHR 0x0A, CHR 0x0B, CHR 0x0C, CHR 0x0D, CHR 0x1C, CHR 0x1D, CHR 0x1E, CHR 0x1F]"

definition strip :: "string \<Rightarrow> string" where
  "strip s = rev (dropWhile is_space (rev (dropWhile is_space s)))"

text \<open>\<open>str.split()\<close>: the maximal pieces without white space.\<close>

function words_of :: "string \<Rightarrow> string list" where
  "words_of s =
     (case dropWhile is_space s of
        [] \<Rightarrow> []
      | c # cs \<Rightarrow> (c # takeWhile (\<lambda>x. \<not> is_space x) cs) # words_of (dropWhile (\<lambda>x. \<not> is_space x) cs))"
  by pat_completeness auto
termination
proof (relation "measure length", simp)
  fix s c cs
  assume "dropWhile is_space s = c # cs"
  then have "length cs < length s"
    by (metis Suc_le_eq length_Cons length_dropWhile_le)
  with length_dropWhile_le[of "\<lambda>x. \<not> is_space x" cs]
  show "(dropWhile (\<lambda>x. \<not> is_space x) cs, s) \<in> measure length" by simp
qed

declare words_of.simps [simp del]

definition validate_cron_expression :: "(string \<Rightarrow> bool) \<Rightarrow> string option \<Rightarrow> catalog_error option" where
  "validate_cron_expression valid expr =
     (case expr of
        None \<Rightarrow> Some (InvalidSchedule ''cron_expression is required for cron schedules'')
      | Some s \<Rightarrow>
          if strip s = [] then Some (InvalidSchedule ''cron_expression is required for cron schedules'')
          else if hd (strip s) = CHR ''@'' \<or> length (words_of (strip s)) \<noteq> 5 \<or> \<not> valid (strip s)
          then Some (InvalidSchedule ''Invalid cron expression'')
          else None)"

definition validate_cron_timezone :: "(string \<Rightarrow> bool) \<Rightarrow> string option \<Rightarrow> catalog_error option" where
  "validate_cron_timezone zones z =
     (case nonempty z of None \<Rightarrow> None | Some n \<Rightarrow> if zones n then None else Some (InvalidSchedule ''Invalid timezone''))"

text \<open>The first check that fails decides.\<close>

definition or_else :: "catalog_error option \<Rightarrow> catalog_error option \<Rightarrow> catalog_error option" where
  "or_else e f = (case e of None \<Rightarrow> f | Some x \<Rightarrow> Some x)"

fun check_tables :: "(int \<Rightarrow> bool) \<Rightarrow> int list \<Rightarrow> catalog_error option" where
  "check_tables ex [] = None"
| "check_tables ex (t # ts) = (if ex t then check_tables ex ts else Some (TableNotFound t))"

definition validate_schedule_create ::
  "(string \<Rightarrow> bool) \<Rightarrow> (string \<Rightarrow> bool) \<Rightarrow> (int \<Rightarrow> bool) \<Rightarrow> string \<Rightarrow> int option \<Rightarrow> int option \<Rightarrow> int list
    \<Rightarrow> string option \<Rightarrow> string option \<Rightarrow> catalog_error option" where
  "validate_schedule_create valid zones ex ty secs table tables cron zone =
     (if ty = ''interval'' then
        (if (case secs of None \<Rightarrow> True | Some n \<Rightarrow> n < min_interval)
         then Some (InvalidSchedule ''interval_seconds must be >= 60'') else None)
      else if ty = ''cron'' then or_else (validate_cron_expression valid cron) (validate_cron_timezone zones zone)
      else if ty = ''table_trigger'' then
        (case table of
           None \<Rightarrow> Some (InvalidSchedule ''trigger_table_id is required for table_trigger schedules'')
         | Some t \<Rightarrow> if ex t then None else Some (TableNotFound t))
      else if ty = ''table_set_trigger'' then
        (if length tables < 2 then Some (InvalidSchedule ''table_set_trigger requires at least 2 trigger_table_ids'')
         else check_tables ex tables)
      else Some (InvalidSchedule ''Invalid schedule_type''))"

definition validate_schedule_update ::
  "(string \<Rightarrow> bool) \<Rightarrow> (string \<Rightarrow> bool) \<Rightarrow> int option \<Rightarrow> string option \<Rightarrow> string option \<Rightarrow> catalog_error option" where
  "validate_schedule_update valid zones secs cron zone =
     or_else (if (case secs of None \<Rightarrow> False | Some n \<Rightarrow> n < min_interval)
              then Some (InvalidSchedule ''interval_seconds must be >= 60'') else None)
       (or_else (if cron = None then None else validate_cron_expression valid cron)
          (validate_cron_timezone zones zone))"

section \<open>Runs\<close>

text \<open>A run belongs to a registration through the stable identity, which survives the registration.\<close>

definition repo_has_active_run :: "database \<Rightarrow> int \<Rightarrow> bool" where
  "repo_has_active_run d i =
     (case dict_get (db_flows d) i of
        None \<Rightarrow> False
      | Some fl \<Rightarrow> \<exists>r \<in> set (db_runs d). fr_uuid r = Some (fl_uuid fl) \<and> fr_ended r = None)"

definition spawn_flow_run ::
  "(string \<Rightarrow> int \<Rightarrow> int option) \<Rightarrow> int \<Rightarrow> int \<Rightarrow> flow_registration \<Rightarrow> int \<Rightarrow> string \<Rightarrow> int option
    \<Rightarrow> database \<Rightarrow> database \<times> flow_run" where
  "spawn_flow_run spawn now reg fl user ty sched d =
     (let run = \<lparr>fr_id = fresh_run_id d, fr_registration = Some reg, fr_uuid = Some (fl_uuid fl),
                 fr_name = fl_name fl, fr_path = Some (fl_path fl), fr_user = user, fr_started = now, fr_ended = None,
                 fr_success = None, fr_completed = 0, fr_nodes = 0, fr_duration = None, fr_type = ty, fr_pid = None,
                 fr_schedule = sched\<rparr>;
          run' = (case spawn (fl_path fl) (fr_id run) of
                    Some pid \<Rightarrow> run\<lparr>fr_pid := Some pid\<rparr>
                  | None \<Rightarrow> run\<lparr>fr_ended := Some now, fr_success := Some False\<rparr>)
      in (d\<lparr>db_runs := db_runs d @ [run']\<rparr>, run'))"

definition run_flow_now ::
  "(string \<Rightarrow> int \<Rightarrow> int option) \<Rightarrow> int \<Rightarrow> int \<Rightarrow> int \<Rightarrow> database \<Rightarrow> database \<times> (catalog_error + flow_run)" where
  "run_flow_now spawn now reg user d =
     (case dict_get (db_flows d) reg of
        None \<Rightarrow> (d, Inl (FlowNotFound reg))
      | Some fl \<Rightarrow>
          if repo_has_active_run d reg then (d, Inl (FlowAlreadyRunning reg))
          else map_prod id Inr (spawn_flow_run spawn now reg fl user ''manual'' None d))"

text \<open>The signal to the process may fail in any way; the record is written in any case.\<close>

definition cancel_run :: "int \<Rightarrow> int \<Rightarrow> database \<Rightarrow> database \<times> (catalog_error + unit)" where
  "cancel_run now i d =
     (case get_run d i of
        None \<Rightarrow> (d, Inl (RunNotFound i))
      | Some _ \<Rightarrow> (upd_run i (\<lambda>r. r\<lparr>fr_ended := Some now, fr_success := Some False,
                                  fr_duration := Some (now - fr_started r)\<rparr>) d, Inr ()))"

definition service_complete_run ::
  "int \<Rightarrow> int \<Rightarrow> bool \<Rightarrow> int \<Rightarrow> int option \<Rightarrow> database \<Rightarrow> database \<times> (catalog_error + unit)" where
  "service_complete_run now i success completed nodes d =
     (case get_run d i of
        None \<Rightarrow> (d, Inl (RunNotFound i))
      | Some _ \<Rightarrow> (complete_run now i success completed (case nodes of None \<Rightarrow> 0 | Some n \<Rightarrow> n) d, Inr ()))"

definition start_run ::
  "int \<Rightarrow> int option \<Rightarrow> string \<Rightarrow> string option \<Rightarrow> int \<Rightarrow> int \<Rightarrow> string \<Rightarrow> string option \<Rightarrow> database \<Rightarrow> database \<times> flow_run" where
  "start_run now reg name path user nodes ty uuid d =
     (let uuid' = (if uuid = None then map_option fl_uuid (Option.bind reg (dict_get (db_flows d))) else uuid);
          run = \<lparr>fr_id = fresh_run_id d, fr_registration = reg, fr_uuid = uuid', fr_name = name, fr_path = path,
                 fr_user = user, fr_started = now, fr_ended = None, fr_success = None, fr_completed = 0,
                 fr_nodes = nodes, fr_duration = None, fr_type = ty, fr_pid = None, fr_schedule = None\<rparr>
      in (d\<lparr>db_runs := db_runs d @ [run]\<rparr>, run))"

section \<open>Schedules\<close>

definition table_exists :: "database \<Rightarrow> int \<Rightarrow> bool" where
  "table_exists d t \<longleftrightarrow> dict_get (db_tables d) t \<noteq> None"

text \<open>A pair of a schedule and a table is unique; a violation rolls the whole replacement back.\<close>

definition set_trigger_table_ids :: "int \<Rightarrow> int list \<Rightarrow> database \<Rightarrow> database \<times> catalog_error option" where
  "set_trigger_table_ids i ts d =
     (if distinct ts
      then (d\<lparr>db_links := [p \<leftarrow> db_links d. fst p \<noteq> i] @ map (\<lambda>t. (i, t)) ts\<rparr>, None)
      else (d, Some IntegrityError))"

definition create_schedule ::
  "(string \<Rightarrow> bool) \<Rightarrow> (string \<Rightarrow> bool) \<Rightarrow> int \<Rightarrow> int \<Rightarrow> int \<Rightarrow> string \<Rightarrow> int option \<Rightarrow> string option \<Rightarrow> string option
    \<Rightarrow> int option \<Rightarrow> int list \<Rightarrow> bool \<Rightarrow> string option \<Rightarrow> string option \<Rightarrow> database \<Rightarrow> database \<times> (catalog_error + int)" where
  "create_schedule valid zones now reg owner ty secs cron zone table tables enabled name descr d =
     (case dict_get (db_flows d) reg of
        None \<Rightarrow> (d, Inl (FlowNotFound reg))
      | Some _ \<Rightarrow>
          (case validate_schedule_create valid zones (table_exists d) ty secs table tables cron zone of
             Some e \<Rightarrow> (d, Inl e)
           | None \<Rightarrow>
               (let i = next_row_id (dict_keys (db_schedules d));
                    sc = \<lparr>sc_registration = reg, sc_owner = owner, sc_enabled = enabled, sc_name = name,
                          sc_description = descr, sc_type = ty, sc_interval = secs, sc_cron = cron, sc_zone = zone,
                          sc_table = table, sc_last = None, sc_slot = None, sc_seen = None, sc_created = Some now\<rparr>;
                    d1 = d\<lparr>db_schedules := dict_set i sc (db_schedules d)\<rparr>
                in if ty = ''table_set_trigger'' \<and> tables \<noteq> [] then
                     (case set_trigger_table_ids i tables d1 of
                        (d2, None) \<Rightarrow> (d2, Inr i)
                      | (d2, Some e) \<Rightarrow> (d2, Inl e))
                   else (d1, Inr i))))"

definition set_if :: "'a option \<Rightarrow> ('a \<Rightarrow> 'b \<Rightarrow> 'b) \<Rightarrow> 'b \<Rightarrow> 'b" where
  "set_if x f y = (case x of None \<Rightarrow> y | Some v \<Rightarrow> f v y)"

definition update_schedule ::
  "(string \<Rightarrow> bool) \<Rightarrow> (string \<Rightarrow> bool) \<Rightarrow> int \<Rightarrow> bool option \<Rightarrow> int option \<Rightarrow> string option \<Rightarrow> string option
    \<Rightarrow> string option \<Rightarrow> string option \<Rightarrow> database \<Rightarrow> database \<times> (catalog_error + unit)" where
  "update_schedule valid zones i enabled secs cron zone name descr d =
     (case dict_get (db_schedules d) i of
        None \<Rightarrow> (d, Inl (ScheduleNotFound i))
      | Some sc \<Rightarrow>
          if (cron \<noteq> None \<or> zone \<noteq> None) \<and> sc_type sc \<noteq> ''cron''
          then (d, Inl (InvalidSchedule ''cron_expression/cron_timezone can only be set on cron schedules''))
          else
            (case validate_schedule_update valid zones secs cron zone of
               Some e \<Rightarrow> (d, Inl e)
             | None \<Rightarrow>
                 (upd_schedule i (\<lambda>sc.
                    set_if descr (\<lambda>v x. x\<lparr>sc_description := Some v\<rparr>)
                    (set_if name (\<lambda>v x. x\<lparr>sc_name := Some v\<rparr>)
                    (set_if zone (\<lambda>v x. x\<lparr>sc_zone := Some v\<rparr>)
                    (set_if cron (\<lambda>v x. x\<lparr>sc_cron := Some v\<rparr>)
                    (set_if secs (\<lambda>v x. x\<lparr>sc_interval := Some v\<rparr>)
                    (set_if enabled (\<lambda>v x. x\<lparr>sc_enabled := v\<rparr>) sc)))))) d, Inr ())))"

definition delete_schedule :: "int \<Rightarrow> database \<Rightarrow> database \<times> (catalog_error + unit)" where
  "delete_schedule i d =
     (case dict_get (db_schedules d) i of
        None \<Rightarrow> (d, Inl (ScheduleNotFound i))
      | Some _ \<Rightarrow> (d\<lparr>db_links := [p \<leftarrow> db_links d. fst p \<noteq> i], db_schedules := dict_pop i (db_schedules d)\<rparr>, Inr ()))"

definition trigger_schedule_now ::
  "(string \<Rightarrow> int \<Rightarrow> int option) \<Rightarrow> int \<Rightarrow> int \<Rightarrow> int \<Rightarrow> database \<Rightarrow> database \<times> (catalog_error + flow_run)" where
  "trigger_schedule_now spawn now i user d =
     (case dict_get (db_schedules d) i of
        None \<Rightarrow> (d, Inl (ScheduleNotFound i))
      | Some sc \<Rightarrow>
          (case dict_get (db_flows d) (sc_registration sc) of
             None \<Rightarrow> (d, Inl (FlowNotFound (sc_registration sc)))
           | Some fl \<Rightarrow>
               if repo_has_active_run d (sc_registration sc) then (d, Inl (FlowAlreadyRunning (sc_registration sc)))
               else map_prod id Inr (spawn_flow_run spawn now (sc_registration sc) fl user ''on_demand'' (Some i) d)))"

definition schedules_for_table :: "int \<Rightarrow> database \<Rightarrow> int list" where
  "schedules_for_table t d =
     [k. (k, sc) \<leftarrow> db_schedules d, sc_enabled sc \<and> sc_type sc = ''table_trigger'' \<and> sc_table sc = Some t]"

definition fire_schedule ::
  "(string \<Rightarrow> int \<Rightarrow> int option) \<Rightarrow> int \<Rightarrow> int \<Rightarrow> int \<Rightarrow> database \<times> nat \<Rightarrow> database \<times> nat" where
  "fire_schedule spawn now updated i dn =
     (case dn of (d, n) \<Rightarrow>
        (case dict_get (db_schedules d) i of
           None \<Rightarrow> (d, n)
         | Some sc \<Rightarrow>
             (case dict_get (db_flows d) (sc_registration sc) of
                None \<Rightarrow> (d, n)
              | Some fl \<Rightarrow>
                  if repo_has_active_run d (sc_registration sc) then (d, n)
                  else
                    (case spawn_flow_run spawn now (sc_registration sc) fl (sc_owner sc) ''scheduled'' (Some i)
                            (upd_schedule i (\<lambda>x. x\<lparr>sc_last := Some now, sc_seen := Some updated\<rparr>) d) of
                       (d', r) \<Rightarrow> (d', if fr_pid r \<noteq> None then Suc n else n)))))"

definition fire_table_trigger_schedules ::
  "(string \<Rightarrow> int \<Rightarrow> int option) \<Rightarrow> int \<Rightarrow> int \<Rightarrow> int \<Rightarrow> database \<Rightarrow> database \<times> nat" where
  "fire_table_trigger_schedules spawn now t updated d =
     fold (fire_schedule spawn now updated) (schedules_for_table t d) (d, 0)"

text \<open>Of deleting a flow, the rows of the tables above: its schedules with their links, and the runs lose the id.\<close>

definition delete_flow :: "int \<Rightarrow> database \<Rightarrow> database" where
  "delete_flow reg d =
     (let is = [k. (k, sc) \<leftarrow> db_schedules d, sc_registration sc = reg]
      in d\<lparr>db_links := [p \<leftarrow> db_links d. fst p \<notin> set is],
           db_schedules := [p \<leftarrow> db_schedules d. sc_registration (snd p) \<noteq> reg],
           db_runs := map (\<lambda>r. if fr_registration r = Some reg then r\<lparr>fr_registration := None\<rparr> else r) (db_runs d),
           db_flows := dict_pop reg (db_flows d)\<rparr>)"


section \<open>The system as steps\<close>

text \<open>
  Ticks of any scheduler, the completion and the cancellation of runs, new data in the tables and new
  schedules; \<open>V\<close> is \<open>croniter.is_valid\<close>, \<open>Z\<close> the time zone database and \<open>N\<close> the next fire time.
\<close>

inductive poll_step :: "(string \<Rightarrow> bool) \<Rightarrow> (string \<Rightarrow> (int \<Rightarrow> int) option) \<Rightarrow> (string \<Rightarrow> int \<Rightarrow> int option)
    \<Rightarrow> database \<Rightarrow> database \<Rightarrow> bool" for V Z N where
  Tick: "en_zone E = Z \<Longrightarrow> en_cron_next E = N \<Longrightarrow> poll_step V Z N d (snd (run_tick E d))"
| Release: "poll_step V Z N d (release_lock E d)"
| Complete: "poll_step V Z N d (complete_run now i success completed nodes d)"
| Cancel: "poll_step V Z N d (fst (cancel_run now i d))"
| Tables: "poll_step V Z N d (d\<lparr>db_tables := ts\<rparr>)"
| Create: "poll_step V Z N d (fst (create_schedule V (\<lambda>z. Z z \<noteq> None) now reg owner ty secs cron zone table tables
      enabled name descr d))"

text \<open>The operations of the catalog that start a run.\<close>

inductive service_step :: "database \<Rightarrow> database \<Rightarrow> bool" where
  RunNow: "service_step d (fst (run_flow_now spawn now reg user d))"
| TriggerNow: "service_step d (fst (trigger_schedule_now spawn now i user d))"
| Fire: "(\<And>sc. dict_get (db_schedules d) i = Some sc \<Longrightarrow> sc_type sc = ''table_trigger'')
    \<Longrightarrow> service_step d (fst (fire_schedule spawn now t i (d, n)))"

text \<open>The operations that change or remove schedules.\<close>

inductive edit_step :: "(string \<Rightarrow> bool) \<Rightarrow> (string \<Rightarrow> (int \<Rightarrow> int) option) \<Rightarrow> database \<Rightarrow> database \<Rightarrow> bool" for V Z where
  Update: "edit_step V Z d (fst (update_schedule V (\<lambda>z. Z z \<noteq> None) i enabled secs cron zone name descr d))"
| Delete: "edit_step V Z d (fst (delete_schedule i d))"
| DeleteFlow: "edit_step V Z d (delete_flow reg d)"

inductive_cases poll_stepE: "poll_step V Z N d d'"
inductive_cases service_stepE: "service_step d d'"
inductive_cases edit_stepE: "edit_step V Z d d'"

definition any_step :: "(string \<Rightarrow> bool) \<Rightarrow> (string \<Rightarrow> (int \<Rightarrow> int) option) \<Rightarrow> (string \<Rightarrow> int \<Rightarrow> int option)
    \<Rightarrow> database \<Rightarrow> database \<Rightarrow> bool" where
  "any_step V Z N d d' \<longleftrightarrow> poll_step V Z N d d' \<or> service_step d d' \<or> edit_step V Z d d'"

section \<open>Schedules of the steps\<close>

lemma complete_run_simps [simp]:
  "db_schedules (complete_run now i ok c n d) = db_schedules d" "db_flows (complete_run now i ok c n d) = db_flows d"
  by (simp_all add: complete_run_def)

lemma cancel_run_simps [simp]: "db_schedules (fst (cancel_run now i d)) = db_schedules d"
  by (simp add: cancel_run_def split: option.split)

lemma release_lock_simps [simp]:
  "db_schedules (release_lock E d) = db_schedules d" "db_runs (release_lock E d) = db_runs d"
  by (simp_all add: release_lock_def split: option.split)

lemma spawn_flow_run_simps [simp]: "db_schedules (fst (spawn_flow_run spawn now reg fl user ty s d)) = db_schedules d"
  by (simp add: spawn_flow_run_def Let_def)

lemma service_schedules [simp]:
  "db_schedules (fst (run_flow_now spawn now reg user d)) = db_schedules d"
  "db_schedules (fst (trigger_schedule_now spawn now i user d)) = db_schedules d"
  by (simp_all add: run_flow_now_def trigger_schedule_now_def map_prod_def case_prod_beta split: option.split)

lemma dict_ok_upd_schedule [simp]: "dict_ok (db_schedules (upd_schedule i f d)) = dict_ok (db_schedules d)"
  by (simp add: dict_ok_def upd_schedule_def comp_def case_prod_beta)

lemma db_step_ok: "db_step E d d' \<Longrightarrow> dict_ok (db_schedules d) \<Longrightarrow> dict_ok (db_schedules d')"
  by (erule db_stepE) simp_all

lemma db_steps_ok: "(db_step E)\<^sup>*\<^sup>* d d' \<Longrightarrow> dict_ok (db_schedules d) \<Longrightarrow> dict_ok (db_schedules d')"
  by (induction rule: rtranclp_induct) (auto intro: db_step_ok)

text \<open>A schedule that is created has a new id and passed the validation.\<close>

lemma create_schedule_cases:
  assumes "create_schedule V W now reg owner ty secs cron zone table tables enabled name descr d = (d', r)"
  obtains "d' = d"
  | sc where "validate_schedule_create V W (table_exists d) ty secs table tables cron zone = None"
      and "sc_type sc = ty" "sc_interval sc = secs" "sc_cron sc = cron" "sc_zone sc = zone" "sc_table sc = table"
      and "sc_last sc = None" "sc_slot sc = None" "sc_registration sc = reg"
      and "db_schedules d' = dict_set (next_row_id (dict_keys (db_schedules d))) sc (db_schedules d)"
      and "db_runs d' = db_runs d" "db_flows d' = db_flows d"
proof (cases "dict_get (db_flows d) reg")
  case None
  with assms that(1) show ?thesis by (simp add: create_schedule_def)
next
  case (Some fl)
  show ?thesis
  proof (cases "validate_schedule_create V W (table_exists d) ty secs table tables cron zone")
    case None
    let ?sc = "\<lparr>sc_registration = reg, sc_owner = owner, sc_enabled = enabled, sc_name = name, sc_description = descr,
      sc_type = ty, sc_interval = secs, sc_cron = cron, sc_zone = zone, sc_table = table, sc_last = None, sc_slot = None,
      sc_seen = None, sc_created = Some now\<rparr>"
    have "db_schedules d' = dict_set (next_row_id (dict_keys (db_schedules d))) ?sc (db_schedules d)"
      "db_runs d' = db_runs d" "db_flows d' = db_flows d"
      using assms Some None
      by (auto simp: create_schedule_def set_trigger_table_ids_def Let_def split: if_splits)
    then show ?thesis using that(2)[OF None, of ?sc] by simp
  next
    case (Some e)
    with \<open>dict_get _ _ = Some fl\<close> assms that(1) show ?thesis by (simp add: create_schedule_def)
  qed
qed

lemma next_schedule_id: "dict_get (db_schedules d) (next_row_id (dict_keys (db_schedules d))) = None"
proof (rule ccontr)
  assume "dict_get (db_schedules d) (next_row_id (dict_keys (db_schedules d))) \<noteq> None"
  then have "next_row_id (dict_keys (db_schedules d)) \<in> set (dict_keys (db_schedules d))" by auto
  from next_row_id_fresh[OF this] show False by simp
qed

text \<open>The push path changes the marks of a schedule and starts a run through the guard.\<close>

lemma fire_schedule_cases:
  assumes "fire_schedule spawn now t i (d, n) = (d', m)"
  obtains "d' = d"
  | sc fl where "dict_get (db_schedules d) i = Some sc" and "dict_get (db_flows d) (sc_registration sc) = Some fl"
      and "\<not> repo_has_active_run d (sc_registration sc)"
      and "d' = fst (spawn_flow_run spawn now (sc_registration sc) fl (sc_owner sc) ''scheduled'' (Some i)
                 (upd_schedule i (\<lambda>x. x\<lparr>sc_last := Some now, sc_seen := Some t\<rparr>) d))"
proof (cases "dict_get (db_schedules d) i")
  case None
  with assms that(1) show ?thesis by (simp add: fire_schedule_def)
next
  case (Some sc)
  note sc = Some
  show ?thesis
  proof (cases "dict_get (db_flows d) (sc_registration sc)")
    case None
    with sc assms that(1) show ?thesis by (simp add: fire_schedule_def)
  next
    case (Some fl)
    show ?thesis
    proof (cases "repo_has_active_run d (sc_registration sc)")
      case True
      with sc Some assms that(1) show ?thesis by (simp add: fire_schedule_def)
    next
      case False
      with sc Some assms that(2) show ?thesis by (simp add: fire_schedule_def case_prod_beta)
    qed
  qed
qed

lemma any_step_ok:
  assumes "any_step V Z N d d'" and "dict_ok (db_schedules d)"
  shows "dict_ok (db_schedules d')"
  using assms(1) unfolding any_step_def
proof (elim disjE)
  assume "poll_step V Z N d d'"
  then show ?thesis
  proof cases
    case (Tick E)
    then show ?thesis using db_steps_ok[OF run_tick_steps] assms(2) by blast
  next
    case (Create now reg owner ty secs cron zone table tables enabled name descr)
    obtain r where "create_schedule V (\<lambda>z. Z z \<noteq> None) now reg owner ty secs cron zone table tables enabled name descr d = (d', r)"
      using Create by (cases "create_schedule V (\<lambda>z. Z z \<noteq> None) now reg owner ty secs cron zone table tables enabled name descr d") simp
    then show ?thesis by (cases rule: create_schedule_cases) (use assms(2) in simp_all)
  qed (use assms(2) in simp_all)
next
  assume "service_step d d'"
  then show ?thesis
  proof cases
    case (Fire i spawn now t n)
    then obtain m where "fire_schedule spawn now t i (d, n) = (d', m)" by (cases "fire_schedule spawn now t i (d, n)") simp
    then show ?thesis by (cases rule: fire_schedule_cases) (use assms(2) in simp_all)
  qed (use assms(2) in simp_all)
next
  assume "edit_step V Z d d'"
  then show ?thesis
  proof cases
    case Update
    with assms(2) show ?thesis by (auto simp: update_schedule_def split: option.split)
  next
    case Delete
    with assms(2) show ?thesis by (auto simp: delete_schedule_def split: option.split)
  next
    case DeleteFlow
    with assms(2) show ?thesis by (simp add: delete_flow_def Let_def dict_ok_def distinct_map inj_on_def) 
  qed
qed


section \<open>Runs of a flow never overlap, under one guard\<close>

lemma spawn_flow_run_runs:
  obtains r where "db_runs (fst (spawn_flow_run spawn now reg fl user ty s d)) = db_runs d @ [r]"
    and "fr_uuid r = Some (fl_uuid fl)" and "fr_registration r = Some reg" and "fr_type r = ty" and "fr_schedule r = s"
    and "fr_started r = now" and "fr_ended r = None \<longleftrightarrow> fr_pid r \<noteq> None"
  by (rule that[of "snd (spawn_flow_run spawn now reg fl user ty s d)"])
     (simp_all add: spawn_flow_run_def Let_def split: option.split)

lemma guarded_spawn:
  assumes "\<not> repo_has_active_run d reg" and "dict_get (db_flows d) reg = Some fl"
  shows "guarded fr_uuid d (fst (spawn_flow_run spawn now reg fl user ty s d))"
proof -
  obtain r where r: "db_runs (fst (spawn_flow_run spawn now reg fl user ty s d)) = db_runs d @ [r]"
      "fr_uuid r = Some (fl_uuid fl)"
    by (rule spawn_flow_run_runs)
  show ?thesis by (rule guarded_new[OF r(1)]) (use r(2) assms in \<open>auto simp: repo_has_active_run_def\<close>)
qed

lemma guarded_upd_schedule: "guarded key (upd_schedule i f d) d' = guarded key d d'"
  by (simp add: guarded_def)

interpretation service: launch_guard fr_uuid service_step
proof
  fix d d'
  assume "service_step d d'"
  then show "guarded fr_uuid d d'"
  proof cases
    case (RunNow spawn now reg user)
    then show ?thesis by (auto simp: run_flow_now_def guarded_same guarded_spawn split: option.split)
  next
    case (TriggerNow spawn now i user)
    then show ?thesis by (auto simp: trigger_schedule_now_def guarded_same guarded_spawn split: option.split)
  next
    case (Fire i spawn now t n)
    then obtain m where "fire_schedule spawn now t i (d, n) = (d', m)" by (cases "fire_schedule spawn now t i (d, n)") simp
    then show ?thesis
    proof (cases rule: fire_schedule_cases)
      case (2 sc fl)
      have "guarded fr_uuid (upd_schedule i (\<lambda>x. x\<lparr>sc_last := Some now, sc_seen := Some t\<rparr>) d) d'"
        unfolding 2(4) by (rule guarded_spawn) (use 2(2,3) in \<open>simp_all add: repo_has_active_run_def\<close>)
      then show ?thesis by (simp add: guarded_upd_schedule)
    qed (simp add: guarded_same)
  qed
qed

interpretation engine_uuid: launch_guard fr_uuid "db_step E" for E
proof
  fix d d'
  assume "db_step E d d'"
  then show "guarded fr_uuid d d'"
  proof cases
    case (Launch i sc now fl r)
    then show ?thesis by (intro guarded_new[of _ _ r]) (simp_all add: launched_fields[OF Launch(6)])
  qed (simp_all add: guarded_same)
qed

text \<open>Steps that start no run keep either guard.\<close>

lemma guarded_upd_run:
  assumes "\<And>r. fr_ended (f r) \<noteq> None"
  shows "guarded key d (upd_run i f d)"
proof (rule guarded_map[where f = "\<lambda>r. if fr_id r = i then f r else r"])
  fix r k
  assume "key (if fr_id r = i then f r else r) = Some k" "fr_ended (if fr_id r = i then f r else r) = None"
  then show "key r = Some k \<and> fr_ended r = None" using assms[of r] by (cases "fr_id r = i") simp_all
qed (simp add: upd_run_def)

lemma quiet_guarded: "guarded key d (complete_run now i ok c n d)" "guarded key d (fst (cancel_run now i d))"
  by (simp_all add: complete_run_def cancel_run_def guarded_upd_run guarded_same split: option.split)

lemma delete_flow_guarded:
  assumes "\<And>r k. key (r\<lparr>fr_registration := None\<rparr>) = Some k \<Longrightarrow> key r = Some k"
  shows "guarded key d (delete_flow reg d)"
proof (rule guarded_map[where f = "\<lambda>r. if fr_registration r = Some reg then r\<lparr>fr_registration := None\<rparr> else r"])
  fix r k
  assume "key (if fr_registration r = Some reg then r\<lparr>fr_registration := None\<rparr> else r) = Some k"
    "fr_ended (if fr_registration r = Some reg then r\<lparr>fr_registration := None\<rparr> else r) = None"
  then show "key r = Some k \<and> fr_ended r = None" using assms[of r k] by (cases "fr_registration r = Some reg") simp_all
qed (simp add: delete_flow_def Let_def)

lemma create_schedule_runs [simp]:
  "db_runs (fst (create_schedule V W now reg owner ty secs cron zone table tables enabled name descr d)) = db_runs d"
proof -
  obtain d' r where c: "create_schedule V W now reg owner ty secs cron zone table tables enabled name descr d = (d', r)"
    by (cases "create_schedule V W now reg owner ty secs cron zone table tables enabled name descr d")
  then have "db_runs d' = db_runs d" by (cases rule: create_schedule_cases) simp_all
  with c show ?thesis by simp
qed

lemma update_schedule_runs [simp]: "db_runs (fst (update_schedule V W i en secs cron zone name descr d)) = db_runs d"
  by (simp add: update_schedule_def split: option.split)

lemma delete_schedule_runs [simp]: "db_runs (fst (delete_schedule i d)) = db_runs d"
  by (simp add: delete_schedule_def split: option.split)

lemma one_active_guarded: "guarded key d d' \<Longrightarrow> one_active key d \<Longrightarrow> one_active key d'"
  by (rule launch_guard.keeps_one[where starts = "guarded key"]) (unfold_locales, assumption)

lemma poll_step_one:
  assumes "poll_step V Z N d d'" and "dict_ok (db_schedules d)" and "one_active key d"
    and "\<And>E d d'. (db_step E)\<^sup>*\<^sup>* d d' \<Longrightarrow> one_active key d \<Longrightarrow> one_active key d'"
  shows "one_active key d'"
  using assms(1)
proof cases
  case (Tick E)
  then show ?thesis using assms(4)[OF run_tick_steps[OF assms(2)]] assms(3) by simp
next
  case (Complete now i ok c n)
  then show ?thesis using one_active_guarded[OF quiet_guarded(1) assms(3)] by simp
next
  case (Cancel now i)
  then show ?thesis using one_active_guarded[OF quiet_guarded(2) assms(3)] by simp
qed (use one_active_guarded[OF guarded_same assms(3)] in simp_all)

lemma edit_step_one:
  assumes "edit_step V Z d d'" and "one_active key d"
    and "\<And>r k. key (r\<lparr>fr_registration := None\<rparr>) = Some k \<Longrightarrow> key r = Some k"
  shows "one_active key d'"
  using assms(1)
proof cases
  case (DeleteFlow reg)
  then show ?thesis using one_active_guarded[OF delete_flow_guarded[OF assms(3)] assms(2)] by simp
qed (use one_active_guarded[OF guarded_same assms(2)] in simp_all)

text \<open>
  C11: The scheduler never starts a flow that is still running: as long as only schedulers start runs
  (any number of them, at any times, with subprocesses that end, fail to start or are canceled, while
  schedules are created, changed and deleted), no registered flow ever has two active runs.
\<close>
theorem scheduler_runs_never_overlap:
  assumes "(\<lambda>d d'. poll_step V Z N d d' \<or> edit_step V Z d d')\<^sup>*\<^sup>* d d'"
    and "dict_ok (db_schedules d)" and "one_active fr_registration d"
  shows "one_active fr_registration d'"
proof -
  from assms have "dict_ok (db_schedules d') \<and> one_active fr_registration d'"
  proof (induction rule: rtranclp_induct)
    case (step d1 d2)
    then have ih: "dict_ok (db_schedules d1)" "one_active fr_registration d1" by auto
    from step(2) have "any_step V Z N d1 d2" by (auto simp: any_step_def)
    with ih(1) have "dict_ok (db_schedules d2)" by (rule any_step_ok[rotated])
    moreover from step(2) have "one_active fr_registration d2"
    proof
      assume "poll_step V Z N d1 d2"
      then show ?thesis using ih by (rule poll_step_one) (rule engine.keeps_one_all)
    next
      assume "edit_step V Z d1 d2"
      then show ?thesis using ih(2) by (rule edit_step_one) simp
    qed
    ultimately show ?case ..
  qed simp
  then show ?thesis ..
qed

text \<open>
  C16: The runs that schedulers and catalog start never overlap: whatever the schedulers do, in whatever order flows are
  run now, triggered and pushed, runs end and schedules are changed and deleted, no flow has two active runs that carry
  its identity. A run that the editor records of its own canvas (\<open>start_run\<close>) asks for no other run and is no step here.
\<close>
theorem service_runs_never_overlap:
  assumes "(any_step V Z N)\<^sup>*\<^sup>* d d'" and "dict_ok (db_schedules d)" and "one_active fr_uuid d"
  shows "one_active fr_uuid d'"
proof -
  from assms have "dict_ok (db_schedules d') \<and> one_active fr_uuid d'"
  proof (induction rule: rtranclp_induct)
    case (step d1 d2)
    then have ih: "dict_ok (db_schedules d1)" "one_active fr_uuid d1" by auto
    from ih(1) step(2) have "dict_ok (db_schedules d2)" by (rule any_step_ok[rotated])
    moreover from step(2) have "one_active fr_uuid d2" unfolding any_step_def
    proof (elim disjE)
      assume "poll_step V Z N d1 d2"
      then show ?thesis using ih by (rule poll_step_one) (rule engine_uuid.keeps_one_all)
    next
      assume "service_step d1 d2"
      with ih(2) show ?thesis by (rule service.keeps_one)
    next
      assume "edit_step V Z d1 d2"
      then show ?thesis using ih(2) by (rule edit_step_one) simp
    qed
    ultimately show ?case ..
  qed simp
  then show ?thesis ..
qed


section \<open>The pace of a schedule\<close>

text \<open>When the scheduled runs of a schedule were started, and whether a subprocess was started for them.\<close>

definition launches :: "int \<Rightarrow> database \<Rightarrow> (int \<times> bool) list" where
  "launches i d = map (\<lambda>r. (fr_started r, fr_pid r \<noteq> None)) [r \<leftarrow> db_runs d. fr_schedule r = Some i \<and> fr_type r = ''scheduled'']"

definition zone_name :: "flow_schedule \<Rightarrow> string" where
  "zone_name sc = (case nonempty (sc_zone sc) of None \<Rightarrow> ''UTC'' | Some z \<Rightarrow> z)"

definition spaced :: "flow_schedule \<Rightarrow> (int \<times> bool) list \<Rightarrow> bool" where
  "spaced sc ls \<longleftrightarrow>
     (sc_type sc = ''interval'' \<longrightarrow> (\<forall>secs. sc_interval sc = Some secs \<longrightarrow>
        min_interval \<le> secs \<and> sorted_wrt (\<lambda>a b. fst a + secs * second \<le> fst b) ls
        \<and> (\<forall>a \<in> set ls. \<exists>l. sc_last sc = Some l \<and> fst a \<le> l)))"

definition started :: "(int \<times> bool) list \<Rightarrow> int list" where
  "started ls = map fst (filter snd ls)"

definition follows_slots ::
  "(string \<Rightarrow> (int \<Rightarrow> int) option) \<Rightarrow> (string \<Rightarrow> int \<Rightarrow> int option) \<Rightarrow> flow_schedule \<Rightarrow> (int \<times> bool) list \<Rightarrow> bool" where
  "follows_slots Z N sc ls \<longleftrightarrow>
     (sc_type sc = ''cron'' \<longrightarrow> (\<forall>e z. nonempty (sc_cron sc) = Some e \<longrightarrow> Z (zone_name sc) = Some z \<longrightarrow>
        (started ls \<noteq> [] \<longrightarrow> sc_slot sc = Some (z (last (started ls))))
        \<and> sorted_wrt (\<lambda>a b. \<exists>t. N e (z a) = Some t \<and> t \<le> z b) (started ls)))"

definition paced :: "(string \<Rightarrow> (int \<Rightarrow> int) option) \<Rightarrow> (string \<Rightarrow> int \<Rightarrow> int option) \<Rightarrow> int \<Rightarrow> database \<Rightarrow> bool" where
  "paced Z N k d \<longleftrightarrow>
     dict_ok (db_schedules d)
     \<and> (dict_get (db_schedules d) k = None \<longrightarrow> Some k \<notin> fr_schedule ` set (db_runs d))
     \<and> (\<forall>sc. dict_get (db_schedules d) k = Some sc \<longrightarrow> spaced sc (launches k d) \<and> follows_slots Z N sc (launches k d))"

lemma launches_append:
  "db_runs d' = db_runs d @ [r] \<Longrightarrow> launches i d'
     = launches i d @ (if fr_schedule r = Some i \<and> fr_type r = ''scheduled'' then [(fr_started r, fr_pid r \<noteq> None)] else [])"
  by (simp add: launches_def)

lemma launches_same: "db_runs d' = db_runs d \<Longrightarrow> launches i d' = launches i d"
  by (simp add: launches_def)

lemma started_append: "started (ls @ [(a, b)]) = started ls @ (if b then [a] else [])"
  by (simp add: started_def)

lemma spaced_launch:
  assumes "spaced sc ls" and "sc_type sc = ''interval'' \<Longrightarrow> interval_due now sc"
  shows "spaced (sc\<lparr>sc_last := Some now, sc_slot := sl\<rparr>) (ls @ [(now, b)])"
  unfolding spaced_def
proof (intro impI allI)
  fix secs
  assume "sc_type (sc\<lparr>sc_last := Some now, sc_slot := sl\<rparr>) = ''interval''" "sc_interval (sc\<lparr>sc_last := Some now, sc_slot := sl\<rparr>) = Some secs"
  then have ty: "sc_type sc = ''interval''" and secs: "sc_interval sc = Some secs" by simp_all
  from assms(1) ty secs have min: "min_interval \<le> secs"
    and sorted: "sorted_wrt (\<lambda>a b. fst a + secs * second \<le> fst b) ls"
    and last: "\<And>a. a \<in> set ls \<Longrightarrow> \<exists>l. sc_last sc = Some l \<and> fst a \<le> l" by (auto simp: spaced_def)
  have due: "fst a + secs * second \<le> now" if "a \<in> set ls" for a
    using last[OF that] assms(2)[OF ty] secs by (auto simp: interval_due_def)
  moreover have "fst a \<le> now" if "a \<in> set ls" for a
    using due[OF that] min by (simp add: min_interval_def second_def)
  ultimately show "min_interval \<le> secs \<and> sorted_wrt (\<lambda>a b. fst a + secs * second \<le> fst b) (ls @ [(now, b)])
      \<and> (\<forall>a \<in> set (ls @ [(now, b)]). \<exists>l. sc_last (sc\<lparr>sc_last := Some now, sc_slot := sl\<rparr>) = Some l \<and> fst a \<le> l)"
    using min sorted by (auto simp: sorted_wrt_append)
qed

lemma follows_launch:
  assumes "follows_slots Z N sc ls" and "en_zone E = Z" and "en_cron_next E = N"
    and law: "\<And>e b t. N e b = Some t \<Longrightarrow> b < t"
    and due: "sc_type sc = ''cron'' \<Longrightarrow> \<exists>t zone. cron_plan E sc = Some (t, zone) \<and> t \<le> zone now"
    and "b \<longleftrightarrow> fr_pid r \<noteq> None"
  shows "follows_slots Z N (sc\<lparr>sc_last := Some now, sc_slot := slot_after E now sc r\<rparr>) (ls @ [(now, b)])"
  unfolding follows_slots_def
proof (intro impI allI)
  fix e z
  let ?sc = "sc\<lparr>sc_last := Some now, sc_slot := slot_after E now sc r\<rparr>"
  assume "sc_type ?sc = ''cron''" "nonempty (sc_cron ?sc) = Some e" "Z (zone_name ?sc) = Some z"
  then have ty: "sc_type sc = ''cron''" and e: "nonempty (sc_cron sc) = Some e" and z: "Z (zone_name sc) = Some z"
    by (simp_all add: zone_name_def)
  from due[OF ty] obtain t zone where plan: "cron_plan E sc = Some (t, zone)" and t: "t \<le> zone now" by blast
  with e z assms(2,3) obtain base where base: "cron_base z sc = Some base" and next_run: "N e base = Some t" and zone: "zone = z"
    by (auto simp: cron_plan_def zone_name_def split: option.splits)
  have slot: "sc_slot ?sc = (if b then Some (z now) else sc_slot sc)"
    using plan ty zone assms(6) by (simp add: slot_after_def)
  from assms(1) ty e z have old: "started ls \<noteq> [] \<Longrightarrow> sc_slot sc = Some (z (last (started ls)))"
    and sorted: "sorted_wrt (\<lambda>a b. \<exists>t. N e (z a) = Some t \<and> t \<le> z b) (started ls)" by (auto simp: follows_slots_def)
  have "\<exists>t. N e (z a) = Some t \<and> t \<le> z now" if a: "a \<in> set (started ls)" for a
  proof -
    from a have ne: "started ls \<noteq> []" by auto
    with old base have b: "base = z (last (started ls))" by (simp add: cron_base_def)
    show ?thesis
    proof (cases "a = last (started ls)")
      case True
      with b next_run t zone show ?thesis by auto
    next
      case False
      with a ne have "a \<in> set (butlast (started ls))"
        by (metis append_butlast_last_id in_set_conv_decomp rotate1.simps(2) set_ConsD set_rotate1)
      moreover from sorted ne have "sorted_wrt (\<lambda>a b. \<exists>t. N e (z a) = Some t \<and> t \<le> z b) (butlast (started ls) @ [last (started ls)])"
        by simp
      ultimately obtain t' where "N e (z a) = Some t'" "t' \<le> base" using b by (auto simp: sorted_wrt_append)
      moreover from law[OF next_run] have "base < t" .
      ultimately show ?thesis using t zone by auto
    qed
  qed
  with sorted old slot show "(started (ls @ [(now, b)]) \<noteq> [] \<longrightarrow> sc_slot ?sc = Some (z (last (started (ls @ [(now, b)])))))
      \<and> sorted_wrt (\<lambda>a b. \<exists>t. N e (z a) = Some t \<and> t \<le> z b) (started (ls @ [(now, b)]))"
    by (auto simp: started_append sorted_wrt_append)
qed


lemma paced_marks [simp]:
  "spaced (sc\<lparr>sc_seen := x\<rparr>) ls = spaced sc ls" "follows_slots Z N (sc\<lparr>sc_seen := x\<rparr>) ls = follows_slots Z N sc ls"
  by (simp_all add: spaced_def follows_slots_def zone_name_def)

lemma paced_other_types:
  "sc_type sc = ''table_trigger'' \<Longrightarrow> spaced sc ls \<and> follows_slots Z N sc ls"
  by (simp add: spaced_def follows_slots_def)

text \<open>How a step may change the runs and the schedule \<open>i\<close>, if it touches one.\<close>

lemma pacedI_append:
  assumes "paced Z N k d" and "db_runs d' = db_runs d @ [r]" and "fr_schedule r = Some i" and "fr_type r = ''scheduled''"
    and "dict_get (db_schedules d) i = Some sc" and "db_schedules d' = db_schedules (upd_schedule i f d)"
    and "i = k \<Longrightarrow> spaced (f sc) (launches k d @ [(fr_started r, fr_pid r \<noteq> None)])"
    and "i = k \<Longrightarrow> follows_slots Z N (f sc) (launches k d @ [(fr_started r, fr_pid r \<noteq> None)])"
  shows "paced Z N k d'"
proof -
  have "dict_get (db_schedules d') k = (if k = i then Some (f sc) else dict_get (db_schedules d) k)"
    unfolding assms(6) using assms(5) by simp
  moreover have "launches k d' = (if k = i then launches k d @ [(fr_started r, fr_pid r \<noteq> None)] else launches k d)"
    using launches_append[OF assms(2), of k] assms(3,4) by simp
  moreover have "dict_ok (db_schedules d')" unfolding assms(6) using assms(1) by (simp add: paced_def)
  ultimately show ?thesis using assms(1-3,7,8) by (auto simp: paced_def)
qed

lemma pacedI_same:
  assumes "paced Z N k d" and "db_schedules d' = db_schedules d" and "launches k d' = launches k d"
    and "fr_schedule ` set (db_runs d') \<subseteq> fr_schedule ` set (db_runs d) \<union> {None} \<union> Some ` dom (dict_get (db_schedules d))"
  shows "paced Z N k d'"
  using assms by (auto simp: paced_def)

lemma launches_upd_run:
  assumes "\<And>r. fr_started (f r) = fr_started r \<and> fr_pid (f r) = fr_pid r \<and> fr_schedule (f r) = fr_schedule r \<and> fr_type (f r) = fr_type r"
  shows "launches i (upd_run j f d) = launches i d"
    and "fr_schedule ` set (db_runs (upd_run j f d)) = fr_schedule ` set (db_runs d)"
proof -
  let ?g = "\<lambda>r. if fr_id r = j then f r else r"
  have g: "fr_started (?g r) = fr_started r" "fr_pid (?g r) = fr_pid r" "fr_schedule (?g r) = fr_schedule r" "fr_type (?g r) = fr_type r" for r
    using assms[of r] by simp_all
  have "map (\<lambda>r. (fr_started r, fr_pid r \<noteq> None)) (filter (\<lambda>r. fr_schedule r = Some i \<and> fr_type r = ''scheduled'') (map ?g rs))
      = map (\<lambda>r. (fr_started r, fr_pid r \<noteq> None)) (filter (\<lambda>r. fr_schedule r = Some i \<and> fr_type r = ''scheduled'') rs)" for rs
    by (simp add: filter_map comp_def g)
  then show "launches i (upd_run j f d) = launches i d" by (simp add: launches_def upd_run_def)
  show "fr_schedule ` set (db_runs (upd_run j f d)) = fr_schedule ` set (db_runs d)"
  proof -
    have "db_runs (upd_run j f d) = map ?g (db_runs d)" by (simp add: upd_run_def)
    then show ?thesis by (simp only: list.set_map image_image g(3))
  qed
qed

lemma paced_db_step:
  assumes "db_step E d d'" and "en_zone E = Z" and "en_cron_next E = N" and law: "\<And>e b t. N e b = Some t \<Longrightarrow> b < t"
    and "paced Z N k d"
  shows "paced Z N k d'"
  using assms(1)
proof cases
  case (Lock l)
  then show ?thesis using assms(5) by (intro pacedI_same[OF assms(5)]) (auto simp: launches_def)
next
  case (Seen i sc t)
  have "launches k d' = launches k d" using Seen by (simp add: launches_def)
  moreover have "dict_get (db_schedules d') j = (if j = i then Some (sc\<lparr>sc_seen := Some t\<rparr>) else dict_get (db_schedules d) j)" for j
    using Seen by simp
  ultimately show ?thesis using assms(5) Seen by (auto simp: paced_def)
next
  case (Launch i sc now fl r)
  note f = launched_fields[OF Launch(6)]
  have old: "spaced sc (launches k d)" "follows_slots Z N sc (launches k d)" if "i = k"
    using assms(5) Launch(2) that by (auto simp: paced_def)
  show ?thesis
  proof (rule pacedI_append[OF assms(5) _ f(4) f(6) Launch(2)])
    show "db_runs d' = db_runs d @ [r]" using Launch(1) by simp
    show "db_schedules d' = db_schedules (upd_schedule i (\<lambda>x. x\<lparr>sc_last := Some now, sc_slot := slot_after E now sc r\<rparr>) d)"
      using Launch(1) by (simp add: upd_schedule_def)
    show "spaced (sc\<lparr>sc_last := Some now, sc_slot := slot_after E now sc r\<rparr>) (launches k d @ [(fr_started r, fr_pid r \<noteq> None)])" if k: "i = k"
      unfolding f(3) by (rule spaced_launch[OF old(1)[OF k]]) (use Launch(3) in \<open>auto simp: due_def\<close>)
    show "follows_slots Z N (sc\<lparr>sc_last := Some now, sc_slot := slot_after E now sc r\<rparr>)
        (launches k d @ [(fr_started r, fr_pid r \<noteq> None)])" if k: "i = k"
      unfolding f(3) by (rule follows_launch[OF old(2)[OF k] assms(2,3) law]) (use Launch(3) in \<open>auto simp: due_def\<close>)
  qed
qed

lemma validated_interval:
  "validate_schedule_create V W ex ''interval'' (Some n) table tables cron zone = None \<Longrightarrow> min_interval \<le> n"
  by (auto simp: validate_schedule_create_def split: option.splits if_splits)

lemma paced_create:
  assumes "create_schedule V W now reg owner ty secs cron zone table tables enabled name descr d = (d', r)" and "paced Z N k d"
  shows "paced Z N k d'"
  using assms(1)
proof (cases rule: create_schedule_cases)
  case 1
  with assms(2) show ?thesis by simp
next
  case (2 sc)
  let ?i = "next_row_id (dict_keys (db_schedules d))"
  have "fr_schedule r \<noteq> Some k" if "k = ?i" "r \<in> set (db_runs d)" for r
    using assms(2) that next_schedule_id[of d] by (force simp: paced_def)
  then have "launches k d = []" if "k = ?i" using that by (auto simp: launches_def filter_empty_conv)
  moreover have "launches k d' = launches k d" using 2(11) by (rule launches_same)
  moreover have "spaced sc []" using validated_interval 2(1-3) by (force simp: spaced_def)
  moreover have "follows_slots Z N sc []" by (simp add: follows_slots_def started_def)
  ultimately show ?thesis using assms(2) 2(10,11) by (auto simp: paced_def)
qed

lemma paced_spawn:
  assumes "paced Z N k d" and "ty \<noteq> ''scheduled''" and "case s of None \<Rightarrow> True | Some i \<Rightarrow> dict_get (db_schedules d) i \<noteq> None"
  shows "paced Z N k (fst (spawn_flow_run spawn now reg fl user ty s d))"
proof -
  obtain r where r: "db_runs (fst (spawn_flow_run spawn now reg fl user ty s d)) = db_runs d @ [r]" "fr_type r = ty" "fr_schedule r = s"
    by (rule spawn_flow_run_runs)
  show ?thesis
    by (rule pacedI_same[OF assms(1)]) (use r assms(2,3) in \<open>auto simp: launches_append[OF r(1)] split: option.splits\<close>)
qed


lemma paced_step:
  assumes "poll_step V Z N d d' \<or> service_step d d'" and law: "\<And>e b t. N e b = Some t \<Longrightarrow> b < t" and "paced Z N k d"
  shows "paced Z N k d'"
  using assms(1)
proof
  assume "poll_step V Z N d d'"
  then show ?thesis
  proof cases
    case (Tick E)
    from assms(3) have "dict_ok (db_schedules d)" by (simp add: paced_def)
    then have "(db_step E)\<^sup>*\<^sup>* d d'" unfolding Tick(1) by (rule run_tick_steps)
    then show ?thesis
    proof (induction rule: rtranclp_induct)
      case (step d1 d2)
      from step(2) Tick(2,3) law step(3) show ?case by (rule paced_db_step)
    qed (rule assms(3))
  next
    case Release
    then show ?thesis by (intro pacedI_same[OF assms(3)]) (auto simp: launches_def)
  next
    case (Complete now i ok c n)
    then show ?thesis
      by (intro pacedI_same[OF assms(3)]) (auto simp: complete_run_def launches_upd_run)
  next
    case (Cancel now i)
    then show ?thesis
      by (intro pacedI_same[OF assms(3)]) (auto simp: cancel_run_def launches_upd_run split: option.split)
  next
    case Tables
    then show ?thesis by (intro pacedI_same[OF assms(3)]) (auto simp: launches_def)
  next
    case (Create now reg owner ty secs cron zone table tables enabled name descr)
    obtain r where "create_schedule V (\<lambda>z. Z z \<noteq> None) now reg owner ty secs cron zone table tables enabled name descr d = (d', r)"
      using Create by (cases "create_schedule V (\<lambda>z. Z z \<noteq> None) now reg owner ty secs cron zone table tables enabled name descr d") simp
    from paced_create[OF this assms(3)] show ?thesis .
  qed
next
  assume "service_step d d'"
  then show ?thesis
  proof cases
    case (RunNow spawn now reg user)
    with assms(3) show ?thesis by (auto simp: run_flow_now_def paced_spawn split: option.split)
  next
    case (TriggerNow spawn now i user)
    with assms(3) show ?thesis by (auto simp: trigger_schedule_now_def paced_spawn split: option.split)
  next
    case (Fire i spawn now t n)
    then obtain m where "fire_schedule spawn now t i (d, n) = (d', m)" by (cases "fire_schedule spawn now t i (d, n)") simp
    then show ?thesis
    proof (cases rule: fire_schedule_cases)
      case 1
      with assms(3) show ?thesis by simp
    next
      case (2 sc fl)
      let ?f = "\<lambda>x. x\<lparr>sc_last := Some now, sc_seen := Some t\<rparr>"
      obtain r where r: "db_runs d' = db_runs (upd_schedule i ?f d) @ [r]" "fr_type r = ''scheduled''" "fr_schedule r = Some i"
        unfolding 2(4) by (rule spawn_flow_run_runs)
      have ty: "sc_type (?f sc) = ''table_trigger''" using Fire(2)[OF 2(1)] by simp
      have runs: "db_runs d' = db_runs d @ [r]" using r(1) by simp
      have schedules: "db_schedules d' = db_schedules (upd_schedule i ?f d)" using 2(4) by simp
      show ?thesis
        by (rule pacedI_append[OF assms(3) runs r(3,2) 2(1) schedules]) (use paced_other_types[OF ty] in blast)+
    qed
  qed
qed


lemma paced_start:
  assumes "db_runs d = []" and "dict_ok (db_schedules d)"
    and "\<And>i sc secs. dict_get (db_schedules d) i = Some sc \<Longrightarrow> sc_interval sc = Some secs \<Longrightarrow> min_interval \<le> secs"
  shows "paced Z N k d"
  using assms by (auto simp: paced_def spaced_def follows_slots_def launches_def started_def)

text \<open>
  Steps that keep the timing of the schedule \<open>k\<close>: everything that runs, and every change or removal but one that gives
  \<open>k\<close> another interval, expression or time zone, or removes it. Other schedules may be changed and removed, and \<open>k\<close>
  may be renamed, disabled and enabled again.
\<close>

definition timing :: "int \<Rightarrow> database \<Rightarrow> (string \<times> int option \<times> string option \<times> string option) option" where
  "timing k d = map_option (\<lambda>sc. (sc_type sc, sc_interval sc, sc_cron sc, sc_zone sc)) (dict_get (db_schedules d) k)"

definition timed_step :: "(string \<Rightarrow> bool) \<Rightarrow> (string \<Rightarrow> (int \<Rightarrow> int) option) \<Rightarrow> (string \<Rightarrow> int \<Rightarrow> int option)
    \<Rightarrow> int \<Rightarrow> database \<Rightarrow> database \<Rightarrow> bool" where
  "timed_step V Z N k d d' \<longleftrightarrow> poll_step V Z N d d' \<or> service_step d d' \<or> (edit_step V Z d d' \<and> timing k d' = timing k d)"

lemma pacedI_timing:
  assumes "paced Z N k d" and "dict_ok (db_schedules d')" and "timing k d' = timing k d" and "launches k d' = launches k d"
    and "fr_schedule ` set (db_runs d') = fr_schedule ` set (db_runs d)"
    and cursor: "\<And>sc sc'. dict_get (db_schedules d) k = Some sc \<Longrightarrow> dict_get (db_schedules d') k = Some sc'
      \<Longrightarrow> sc_last sc' = sc_last sc \<and> sc_slot sc' = sc_slot sc"
  shows "paced Z N k d'"
proof (cases "dict_get (db_schedules d) k")
  case None
  with assms show ?thesis by (simp add: paced_def timing_def)
next
  case (Some sc)
  with assms(3) obtain sc' where sc': "dict_get (db_schedules d') k = Some sc'" by (auto simp: timing_def)
  with Some assms(3) cursor[OF Some sc'] have "sc_type sc' = sc_type sc" "sc_interval sc' = sc_interval sc" "sc_cron sc' = sc_cron sc"
    "zone_name sc' = zone_name sc" "sc_last sc' = sc_last sc" "sc_slot sc' = sc_slot sc" by (auto simp: timing_def zone_name_def)
  then have "spaced sc' ls = spaced sc ls" "follows_slots Z N sc' ls = follows_slots Z N sc ls" for ls
    by (simp_all add: spaced_def follows_slots_def)
  with Some sc' assms show ?thesis by (simp add: paced_def)
qed

lemma set_if_cursor [simp]:
  "sc_last (set_if v f sc) = (case v of None \<Rightarrow> sc_last sc | Some x \<Rightarrow> sc_last (f x sc))"
  "sc_slot (set_if v f sc) = (case v of None \<Rightarrow> sc_slot sc | Some x \<Rightarrow> sc_slot (f x sc))"
  by (simp_all add: set_if_def split: option.split)

lemma paced_edit:
  assumes "edit_step V Z d d'" and "timing k d' = timing k d" and "paced Z N k d"
  shows "paced Z N k d'"
proof -
  have ok: "dict_ok (db_schedules d')" using any_step_ok[of V Z undefined d d'] assms by (simp add: any_step_def paced_def)
  from assms(1) show ?thesis
  proof cases
    case (Update i enabled secs cron zone name descr)
    let ?W = "\<lambda>z. Z z \<noteq> None"
    show ?thesis
    proof (rule pacedI_timing[OF assms(3) _ assms(2)])
      show "dict_ok (db_schedules d')" by (rule ok)
      show "launches k d' = launches k d" unfolding Update by (simp add: launches_def)
      show "sc_last sc' = sc_last sc \<and> sc_slot sc' = sc_slot sc"
        if "dict_get (db_schedules d) k = Some sc" "dict_get (db_schedules d') k = Some sc'" for sc sc'
        using that unfolding Update by (auto simp: update_schedule_def split: option.splits if_splits)
    qed (simp add: Update)
  next
    case (Delete i)
    show ?thesis
    proof (rule pacedI_timing[OF assms(3) _ assms(2)])
      show "dict_ok (db_schedules d')" by (rule ok)
    qed (auto simp: Delete delete_schedule_def launches_def split: option.splits if_splits)
  next
    case (DeleteFlow reg)
    let ?f = "\<lambda>r. if fr_registration r = Some reg then r\<lparr>fr_registration := None\<rparr> else r"
    have f: "fr_started (?f r) = fr_started r" "fr_pid (?f r) = fr_pid r" "fr_schedule (?f r) = fr_schedule r" "fr_type (?f r) = fr_type r" for r
      by simp_all
    have runs: "db_runs d' = map ?f (db_runs d)" by (simp add: DeleteFlow delete_flow_def Let_def)
    show ?thesis
    proof (rule pacedI_timing[OF assms(3) _ assms(2)])
      show "dict_ok (db_schedules d')" by (rule ok)
      show "launches k d' = launches k d" unfolding launches_def runs by (simp add: filter_map comp_def f del: if_split_asm)
      show "fr_schedule ` set (db_runs d') = fr_schedule ` set (db_runs d)" unfolding runs list.set_map image_image f ..
      have old: "dict_ok (db_schedules d)" using assms(3) by (simp add: paced_def)
      have "set (db_schedules d') \<subseteq> set (db_schedules d)" by (auto simp: DeleteFlow delete_flow_def Let_def)
      then have "sc' = sc" if "dict_get (db_schedules d) k = Some sc" "dict_get (db_schedules d') k = Some sc'" for sc sc'
        using that dict_get_in_iff[OF ok, of k sc'] dict_get_in_iff[OF old, of k sc'] by auto
      then show "sc_last sc' = sc_last sc \<and> sc_slot sc' = sc_slot sc"
        if "dict_get (db_schedules d) k = Some sc" "dict_get (db_schedules d') k = Some sc'" for sc sc'
        using that by blast
    qed
  qed
qed

lemma paced_timed:
  assumes "(timed_step V Z N k)\<^sup>*\<^sup>* d d'" and "\<And>e b t. N e b = Some t \<Longrightarrow> b < t" and "paced Z N k d"
  shows "paced Z N k d'"
  using assms(1)
proof (induction rule: rtranclp_induct)
  case (step d1 d2)
  from step(2) consider "poll_step V Z N d1 d2 \<or> service_step d1 d2" | "edit_step V Z d1 d2" "timing k d2 = timing k d1"
    unfolding timed_step_def by blast
  then show ?case
  proof cases
    case 1
    then show ?thesis using assms(2) step(3) by (rule paced_step)
  next
    case 2
    then show ?thesis using step(3) by (rule paced_edit)
  qed
qed (rule assms(3))

text \<open>
  C10: Runs of an interval schedule keep their distance. Starting without runs, whatever is run, started by hand,
  triggered, pushed, created, changed and deleted, as long as this schedule itself keeps its timing (it is not deleted
  and its interval is not changed), any two scheduled runs of it are at least its interval apart,
  also when several schedulers take over from each other, when runs fail to start and when the clocks
  of the machines disagree. Schedules that are there at the beginning have an interval of at least the minimum, as
  created ones do, and \<open>croniter\<close> answers a time after the one it is asked about.
\<close>
theorem interval_runs_are_spaced:
  assumes "(timed_step V Z N i)\<^sup>*\<^sup>* d0 d"
    and "\<And>e b t. N e b = Some t \<Longrightarrow> b < t" and "db_runs d0 = []" and "dict_ok (db_schedules d0)"
    and "\<And>i sc secs. dict_get (db_schedules d0) i = Some sc \<Longrightarrow> sc_interval sc = Some secs \<Longrightarrow> min_interval \<le> secs"
    and "dict_get (db_schedules d) i = Some sc" and "sc_type sc = ''interval''" and "sc_interval sc = Some secs"
    and "a < b" and "b < length (launches i d)"
  shows "fst (launches i d ! a) + secs * second \<le> fst (launches i d ! b)"
proof -
  from paced_timed[OF assms(1,2) paced_start[OF assms(3-5)]] assms(6) have "spaced sc (launches i d)" by (auto simp: paced_def)
  with assms(7,8) have "sorted_wrt (\<lambda>a b. fst a + secs * second \<le> fst b) (launches i d)" by (simp add: spaced_def)
  with assms(9,10) show ?thesis by (simp add: sorted_wrt_iff_nth_less)
qed



section \<open>Schedules stay valid\<close>

definition valid_schedule :: "(string \<Rightarrow> bool) \<Rightarrow> (string \<Rightarrow> bool) \<Rightarrow> flow_schedule \<Rightarrow> bool" where
  "valid_schedule V W sc \<longleftrightarrow>
     sc_type sc = ''interval'' \<and> (case sc_interval sc of None \<Rightarrow> False | Some n \<Rightarrow> min_interval \<le> n)
     \<or> sc_type sc = ''cron'' \<and> validate_cron_expression V (sc_cron sc) = None \<and> validate_cron_timezone W (sc_zone sc) = None
     \<or> sc_type sc = ''table_trigger'' \<and> sc_table sc \<noteq> None
     \<or> sc_type sc = ''table_set_trigger''"

lemma valid_schedule_iff:
  "valid_schedule V W sc \<longleftrightarrow>
     sc_type sc = ''interval'' \<and> (\<exists>n. sc_interval sc = Some n \<and> min_interval \<le> n)
     \<or> sc_type sc = ''cron'' \<and> validate_cron_expression V (sc_cron sc) = None \<and> validate_cron_timezone W (sc_zone sc) = None
     \<or> sc_type sc = ''table_trigger'' \<and> sc_table sc \<noteq> None
     \<or> sc_type sc = ''table_set_trigger''"
  by (cases "sc_interval sc") (simp_all add: valid_schedule_def)

definition all_valid :: "(string \<Rightarrow> bool) \<Rightarrow> (string \<Rightarrow> bool) \<Rightarrow> database \<Rightarrow> bool" where
  "all_valid V W d \<longleftrightarrow> (\<forall>i sc. dict_get (db_schedules d) i = Some sc \<longrightarrow> valid_schedule V W sc)"

lemma all_valid_same: "db_schedules d' = db_schedules d \<Longrightarrow> all_valid V W d \<Longrightarrow> all_valid V W d'"
  by (simp add: all_valid_def)

lemma all_valid_upd:
  assumes "all_valid V W d" and "\<And>sc. dict_get (db_schedules d) i = Some sc \<Longrightarrow> valid_schedule V W sc \<Longrightarrow> valid_schedule V W (f sc)"
  shows "all_valid V W (upd_schedule i f d)"
  using assms by (auto simp: all_valid_def)

lemma valid_marks [simp]:
  "valid_schedule V W (sc\<lparr>sc_last := l\<rparr>) = valid_schedule V W sc" "valid_schedule V W (sc\<lparr>sc_slot := s\<rparr>) = valid_schedule V W sc"
  "valid_schedule V W (sc\<lparr>sc_seen := t\<rparr>) = valid_schedule V W sc"
  "valid_schedule V W (sc\<lparr>sc_enabled := e\<rparr>) = valid_schedule V W sc" "valid_schedule V W (sc\<lparr>sc_name := n\<rparr>) = valid_schedule V W sc"
  "valid_schedule V W (sc\<lparr>sc_description := x\<rparr>) = valid_schedule V W sc"
  by (simp_all add: valid_schedule_iff)

lemma db_step_valid: "db_step E d d' \<Longrightarrow> all_valid V W d \<Longrightarrow> all_valid V W d'"
proof (erule db_stepE)
  fix i sc now fl r
  assume "all_valid V W d" and d': "d' = upd_schedule i (\<lambda>x. x\<lparr>sc_last := Some now, sc_slot := slot_after E now sc r\<rparr>) (d\<lparr>db_runs := db_runs d @ [r]\<rparr>)"
  then have "all_valid V W (d\<lparr>db_runs := db_runs d @ [r]\<rparr>)" by (simp add: all_valid_def)
  then show "all_valid V W d'" unfolding d' by (rule all_valid_upd) simp
next
  fix i sc t
  assume "all_valid V W d" and d': "d' = upd_schedule i (\<lambda>x. x\<lparr>sc_seen := Some t\<rparr>) d"
  then show "all_valid V W d'" unfolding d' by (intro all_valid_upd) simp_all
qed (simp add: all_valid_def)

lemma validated_valid:
  assumes "validate_schedule_create V W ex ty secs table tables cron zone = None" and "sc_type sc = ty" "sc_interval sc = secs"
    "sc_cron sc = cron" "sc_zone sc = zone" "sc_table sc = table"
  shows "valid_schedule V W sc"
  using assms(1) unfolding validate_schedule_create_def valid_schedule_iff assms(2-)
  by (auto simp: or_else_def not_less split: option.splits if_splits)

lemma update_schedule_valid:
  assumes "all_valid V W d"
  shows "all_valid V W (fst (update_schedule V W i enabled secs cron zone name descr d))"
proof (cases "dict_get (db_schedules d) i")
  case None
  with assms show ?thesis by (simp add: update_schedule_def)
next
  case (Some sc)
  show ?thesis
  proof (cases "(cron \<noteq> None \<or> zone \<noteq> None) \<and> sc_type sc \<noteq> ''cron''
      \<or> validate_schedule_update V W secs cron zone \<noteq> None")
    case True
    with Some assms show ?thesis by (auto simp: update_schedule_def split: option.split)
  next
    case False
    then have v: "validate_schedule_update V W secs cron zone = None"
      and c: "cron = None \<and> zone = None \<or> sc_type sc = ''cron''" by auto
    have secs: "min_interval \<le> n" if "secs = Some n" for n
      using v that by (auto simp: validate_schedule_update_def or_else_def split: option.splits if_splits)
    have cron: "validate_cron_expression V cron = None" if "cron \<noteq> None"
      using v that by (auto simp: validate_schedule_update_def or_else_def split: option.splits if_splits)
    have zone: "validate_cron_timezone W zone = None"
      using v by (auto simp: validate_schedule_update_def or_else_def split: option.splits if_splits)
    let ?f = "\<lambda>sc. set_if descr (\<lambda>v x. x\<lparr>sc_description := Some v\<rparr>) (set_if name (\<lambda>v x. x\<lparr>sc_name := Some v\<rparr>)
      (set_if zone (\<lambda>v x. x\<lparr>sc_zone := Some v\<rparr>) (set_if cron (\<lambda>v x. x\<lparr>sc_cron := Some v\<rparr>)
      (set_if secs (\<lambda>v x. x\<lparr>sc_interval := Some v\<rparr>) (set_if enabled (\<lambda>v x. x\<lparr>sc_enabled := v\<rparr>) sc)))))"
    have f: "sc_type (?f x) = sc_type x" "sc_table (?f x) = sc_table x"
      "sc_interval (?f x) = (if secs = None then sc_interval x else secs)"
      "sc_cron (?f x) = (if cron = None then sc_cron x else cron)" "sc_zone (?f x) = (if zone = None then sc_zone x else zone)" for x
      by (simp_all add: set_if_def split: option.split)
    have "all_valid V W (upd_schedule i ?f d)"
    proof (rule all_valid_upd[OF assms])
      fix x
      assume "valid_schedule V W x" and "dict_get (db_schedules d) i = Some x"
      moreover from this Some c have "cron = None \<and> zone = None \<or> sc_type x = ''cron''" by simp
      ultimately show "valid_schedule V W (?f x)"
        unfolding valid_schedule_iff f using secs cron zone by (auto split: if_splits)
    qed
    with Some c v show ?thesis by (auto simp: update_schedule_def)
  qed
qed

lemma any_step_valid:
  assumes "any_step V Z N d d'" and "dict_ok (db_schedules d)" and "all_valid V (\<lambda>z. Z z \<noteq> None) d"
  shows "all_valid V (\<lambda>z. Z z \<noteq> None) d'"
  using assms(1) unfolding any_step_def
proof (elim disjE)
  assume "poll_step V Z N d d'"
  then show ?thesis
  proof cases
    case (Tick E)
    have "(db_step E)\<^sup>*\<^sup>* d d'" unfolding Tick(1) using assms(2) by (rule run_tick_steps)
    then show ?thesis using assms(3) by (induction rule: rtranclp_induct) (auto intro: db_step_valid)
  next
    case (Create now reg owner ty secs cron zone table tables enabled name descr)
    obtain r where "create_schedule V (\<lambda>z. Z z \<noteq> None) now reg owner ty secs cron zone table tables enabled name descr d = (d', r)"
      using Create by (cases "create_schedule V (\<lambda>z. Z z \<noteq> None) now reg owner ty secs cron zone table tables enabled name descr d") simp
    then show ?thesis
    proof (cases rule: create_schedule_cases)
      case (2 sc)
      from validated_valid[OF 2(1-6)] assms(3) 2(10) show ?thesis by (auto simp: all_valid_def)
    qed (use assms(3) in simp)
  qed (use assms(3) in \<open>auto intro: all_valid_same\<close>)
next
  assume "service_step d d'"
  then show ?thesis
  proof cases
    case (Fire i spawn now t n)
    then obtain m where "fire_schedule spawn now t i (d, n) = (d', m)" by (cases "fire_schedule spawn now t i (d, n)") simp
    then show ?thesis
    proof (cases rule: fire_schedule_cases)
      case (2 sc fl)
      have "all_valid V (\<lambda>z. Z z \<noteq> None) (upd_schedule i (\<lambda>x. x\<lparr>sc_last := Some now, sc_seen := Some t\<rparr>) d)"
        using assms(3) by (rule all_valid_upd) simp
      then show ?thesis unfolding 2(4) by (rule all_valid_same[rotated]) simp
    qed (use assms(3) in simp)
  qed (use assms(3) in \<open>auto intro: all_valid_same\<close>)
next
  assume "edit_step V Z d d'"
  then show ?thesis
  proof cases
    case Update
    with assms(3) update_schedule_valid show ?thesis by simp
  next
    case Delete
    with assms(3) show ?thesis by (auto simp: delete_schedule_def all_valid_def split: option.split if_splits)
  next
    case (DeleteFlow reg)
    have "dict_get (db_schedules d) i = Some sc" if "dict_get (db_schedules d') i = Some sc" for i sc
    proof -
      from map_of_SomeD[OF that] have "(i, sc) \<in> set (db_schedules d)" using DeleteFlow by (simp add: delete_flow_def Let_def)
      with assms(2) show ?thesis by (simp add: dict_get_in_iff)
    qed
    with assms(3) show ?thesis by (auto simp: all_valid_def)
  qed
qed

lemma valid_cron_ready:
  assumes "valid_schedule V (\<lambda>z. Z z \<noteq> None) sc" and "sc_type sc = ''cron''" and "Z ''UTC'' \<noteq> None"
  shows "\<exists>e z. nonempty (sc_cron sc) = Some e \<and> Z (zone_name sc) = Some z"
proof -
  from assms(1,2) have c: "validate_cron_expression V (sc_cron sc) = None"
    and z: "validate_cron_timezone (\<lambda>z. Z z \<noteq> None) (sc_zone sc) = None" by (auto simp: valid_schedule_iff)
  from c obtain s where s: "sc_cron sc = Some s" and "strip s \<noteq> []"
    by (auto simp: validate_cron_expression_def split: option.splits if_splits)
  then have "s \<noteq> []" by (auto simp: strip_def)
  with s have "nonempty (sc_cron sc) = Some s" by (simp add: nonempty_def)
  moreover have "Z (zone_name sc) \<noteq> None"
    using z assms(3) by (auto simp: zone_name_def validate_cron_timezone_def split: option.splits if_splits)
  ultimately show ?thesis by auto
qed

text \<open>
  C14: The rules for schedules are a type invariant. Whatever operations run, every stored schedule is of
  one of the four kinds; an interval schedule has an interval of at least a minute, a cron schedule has an expression
  of five fields and a known time zone, so that the scheduler never skips it for want of either, and a table trigger
  has a table. Nothing is claimed of the tables of a set trigger, which the code stores after the schedule
  (\<open>duplicate_tables_leave_schedule\<close>).
\<close>
theorem schedules_stay_valid:
  assumes "(any_step V Z N)\<^sup>*\<^sup>* d0 d" and "dict_ok (db_schedules d0)" and "all_valid V (\<lambda>z. Z z \<noteq> None) d0"
    and "Z ''UTC'' \<noteq> None" and "dict_get (db_schedules d) i = Some sc"
  shows "valid_schedule V (\<lambda>z. Z z \<noteq> None) sc
    \<and> (sc_type sc = ''cron'' \<longrightarrow> (\<exists>e z. nonempty (sc_cron sc) = Some e \<and> Z (zone_name sc) = Some z))"
proof -
  from assms(1-3) have "dict_ok (db_schedules d) \<and> all_valid V (\<lambda>z. Z z \<noteq> None) d"
  proof (induction rule: rtranclp_induct)
    case (step d1 d2)
    with any_step_ok[OF step(2)] any_step_valid[OF step(2)] show ?case by blast
  qed simp
  with assms(4,5) valid_cron_ready[of V Z sc] show ?thesis by (auto simp: all_valid_def)
qed


section \<open>Examples\<close>

abbreviation "demo_zone \<equiv> (\<lambda>z :: string. Some (\<lambda>u :: int. u))"
abbreviation "demo_next \<equiv> (\<lambda>(e :: string) (b :: int). Some (b + 3600 * second))"
abbreviation "demo_spawn \<equiv> (\<lambda>(p :: string) (r :: int). Some (8 :: int))"

text \<open>Two ticks with the end of the first run between them.\<close>

definition two_runs :: "flow_schedule \<Rightarrow> int \<Rightarrow> int \<Rightarrow> database" where
  "two_runs sc t1 t2 = tick_at t2 (complete_run (t1 * second) 1 True 1 1 (tick_at t1 (watched [(1, sc)] [])))"

lemma three_steps: "R a b \<Longrightarrow> R b c \<Longrightarrow> R c d \<Longrightarrow> R\<^sup>*\<^sup>* a d"
  by (meson r_into_rtranclp rtranclp.rtrancl_into_rtrancl)

lemma two_runs_steps:
  "(\<lambda>d d'. poll_step V demo_zone demo_next d d' \<or> service_step d d')\<^sup>*\<^sup>* (watched [(1, sc)] []) (two_runs sc t1 t2)"
proof -
  have tick: "poll_step V demo_zone demo_next d (tick_at t d)" for t d
    unfolding tick_at_def by (rule poll_step.Tick) (simp_all add: demo_env_def)
  show ?thesis unfolding two_runs_def
    by (rule three_steps) (rule disjI1, rule tick poll_step.Complete)+
qed

definition every_minute :: flow_schedule where
  "every_minute = (watch 1)\<lparr>sc_type := ''interval'', sc_interval := Some 60\<rparr>"

definition hourly :: flow_schedule where
  "hourly = (watch 1)\<lparr>sc_type := ''cron'', sc_cron := Some ''0 * * * *''\<rparr>"

lemma interval_runs_are_spaced_witness:
  "fst (launches 1 (two_runs every_minute 100 170) ! 0) + 60 * second \<le> fst (launches 1 (two_runs every_minute 100 170) ! 1)"
proof (rule interval_runs_are_spaced[where V = "\<lambda>_. True" and Z = demo_zone and N = demo_next and secs = 60
      and sc = "every_minute\<lparr>sc_last := Some (170 * second)\<rparr>"])
  show "dict_get (db_schedules (two_runs every_minute 100 170)) 1 = Some (every_minute\<lparr>sc_last := Some (170 * second)\<rparr>)"
    by code_simp
  show "1 < length (launches 1 (two_runs every_minute 100 170))" by code_simp
  show "(timed_step (\<lambda>_. True) demo_zone demo_next 1)\<^sup>*\<^sup>* (watched [(1, every_minute)] []) (two_runs every_minute 100 170)"
    by (rule rtranclp_mono[THEN predicate2D, OF _ two_runs_steps]) (auto simp: timed_step_def)
qed (auto simp: second_def watched_def dict_ok_def every_minute_def watch_def min_interval_def split: if_splits)


lemma scheduler_runs_never_overlap_witness: "one_active fr_registration (two_runs every_minute 100 170)"
proof (rule scheduler_runs_never_overlap[where d = "watched [(1, every_minute)] []"])
  have tick: "poll_step (\<lambda>_. True) demo_zone demo_next d (tick_at t d)" for t d
    unfolding tick_at_def by (rule poll_step.Tick) (simp_all add: demo_env_def)
  show "(\<lambda>d d'. poll_step (\<lambda>_. True) demo_zone demo_next d d' \<or> edit_step (\<lambda>_. True) demo_zone d d')\<^sup>*\<^sup>*
      (watched [(1, every_minute)] []) (two_runs every_minute 100 170)"
    unfolding two_runs_def by (rule three_steps) (rule disjI1, rule tick poll_step.Complete)+
qed (simp_all add: watched_def dict_ok_def one_active_def)

definition pushed :: database where
  "pushed = fst (fire_schedule demo_spawn (200 * second) (100 * second) 1 (tick_at 50 (watched [(1, watch 1)] []), 0))"

lemma service_runs_never_overlap_witness: "one_active fr_uuid pushed"
proof (rule service_runs_never_overlap[where d = "watched [(1, watch 1)] []" and V = "\<lambda>_. True"])
  have "any_step (\<lambda>_. True) demo_zone demo_next d (tick_at t d)" for t d
    unfolding any_step_def tick_at_def by (rule disjI1, rule poll_step.Tick) (simp_all add: demo_env_def)
  moreover have "any_step (\<lambda>_. True) demo_zone demo_next (tick_at 50 (watched [(1, watch 1)] [])) pushed"
    unfolding any_step_def pushed_def
  proof (rule disjI2, rule disjI1, rule service_step.Fire)
    fix sc
    assume "dict_get (db_schedules (tick_at 50 (watched [(1, watch 1)] []))) 1 = Some sc"
    moreover have "dict_get (db_schedules (tick_at 50 (watched [(1, watch 1)] []))) 1
        = Some ((watch 1)\<lparr>sc_last := Some (50 * second), sc_seen := Some (100 * second)\<rparr>)" by code_simp
    ultimately show "sc_type sc = ''table_trigger''" by (auto simp: watch_def)
  qed
  ultimately show "(any_step (\<lambda>_. True) demo_zone demo_next)\<^sup>*\<^sup>* (watched [(1, watch 1)] []) pushed"
    by (meson r_into_rtranclp rtranclp.rtrancl_into_rtrancl)
qed (simp_all add: watched_def dict_ok_def one_active_def)

lemma schedules_stay_valid_witness:
  "valid_schedule (\<lambda>_. True) (\<lambda>z. demo_zone z \<noteq> None) (hourly\<lparr>sc_last := Some (4000 * second), sc_slot := Some (4000 * second)\<rparr>)"
proof -
  let ?sc = "hourly\<lparr>sc_last := Some (4000 * second), sc_slot := Some (4000 * second)\<rparr>"
  have "valid_schedule (\<lambda>_. True) (\<lambda>z. demo_zone z \<noteq> None) ?sc
    \<and> (sc_type ?sc = ''cron'' \<longrightarrow> (\<exists>e z. nonempty (sc_cron ?sc) = Some e \<and> demo_zone (zone_name ?sc) = Some z))"
  proof (rule schedules_stay_valid[where V = "\<lambda>_. True" and N = demo_next and i = 1])
    have "any_step (\<lambda>_. True) demo_zone demo_next (watched [(1, hourly)] []) (tick_at 4000 (watched [(1, hourly)] []))"
      unfolding any_step_def tick_at_def by (rule disjI1, rule poll_step.Tick) (simp_all add: demo_env_def)
    then show "(any_step (\<lambda>_. True) demo_zone demo_next)\<^sup>*\<^sup>* (watched [(1, hourly)] []) (tick_at 4000 (watched [(1, hourly)] []))"
      by (rule r_into_rtranclp)
    have "valid_schedule (\<lambda>_. True) (\<lambda>z. demo_zone z \<noteq> None) hourly" by code_simp
    then show "all_valid (\<lambda>_. True) (\<lambda>z. demo_zone z \<noteq> None) (watched [(1, hourly)] [])"
      by (simp add: all_valid_def watched_def)
    show "dict_get (db_schedules (tick_at 4000 (watched [(1, hourly)] []))) 1 = Some ?sc" by code_simp
  qed (simp_all add: watched_def dict_ok_def)
  then show ?thesis ..
qed

text \<open>
  The two guards do not see each other. The scheduler writes its run without the identity of the flow
  by which the catalog looks for active runs, so a flow that the scheduler is running can be triggered
  by hand: the request is accepted and the flow runs twice. The other way round the scheduler sees the
  run of the catalog and waits.
\<close>
theorem scheduled_run_is_invisible:
  defines "d \<equiv> tick_at 200 (watched [(1, watch 1)] [])"
    and "d' \<equiv> fst (trigger_schedule_now demo_spawn (201 * second) 1 1 (watched [(1, watch 1)] []))"
  shows "has_active_run d 1 \<and> \<not> repo_has_active_run d 1
    \<and> map fr_ended (db_runs (fst (trigger_schedule_now demo_spawn (201 * second) 1 1 d))) = [None, None]
    \<and> repo_has_active_run d' 1 \<and> map fr_ended (db_runs (tick_at 210 d')) = [None]"
  unfolding d_def d'_def by (intro conjI; code_simp)

text \<open>
  Deleting a schedule leaves its id on its runs, and the database hands the largest id out again:
  a new schedule, here of another flow, starts with the history of the deleted one.
\<close>
theorem deleted_schedule_leaves_runs:
  defines "d \<equiv> fst (delete_schedule 1 (tick_at 200 (watched [(1, watch 1)] [])))"
  defines "new \<equiv> create_schedule (\<lambda>_. True) (\<lambda>_. True) 300 2 1 ''table_trigger'' None None None (Some 1) [] True None None d"
  shows "snd new = Inr 1 \<and> map fr_registration (runs_of 1 (fst new)) = [Some 1]
    \<and> map_option sc_registration (dict_get (db_schedules (fst new)) 1) = Some 2"
  unfolding new_def d_def by (intro conjI; code_simp)

text \<open>
  A schedule over a set of tables that names a table twice passes the validation, and the schedule is
  committed before its links are refused: the request fails, but the schedule stays behind without
  tables, and the scheduler skips it for ever.
\<close>
theorem duplicate_tables_leave_schedule:
  defines "new \<equiv> create_schedule (\<lambda>_. True) (\<lambda>_. True) 300 1 1 ''table_set_trigger'' None None None None [1, 1] True None None
      (watched [] [])"
  shows "snd new = Inl IntegrityError \<and> enabled_of ''table_set_trigger'' (fst new) = [1]
    \<and> trigger_tables (fst new) 1 = [] \<and> db_runs (tick_at 200 (fst new)) = []"
  unfolding new_def by (intro conjI; code_simp)

end
