(* ===== verification/Sharing.thy ===== *)
theory Sharing
  imports Prelude
begin

text \<open>
  Users, groups and grants: \<open>flowfile_core/auth/sharing.py\<close> over the tables of \<open>database/models.py\<close>, and
  the resolver \<open>catalog/access.py\<close>.

  A table is a dictionary from row ids to rows, or the list of its rows in the order of their ids. The
  resources are the namespaces and the items of the other types of the registry. An item carries what
  the rules look at: its owner, its namespace, its name and one text (the ciphertext of a secret). A set
  of ids is a set. \<open>FLOWFILE_MODE\<close> is the argument \<open>m\<close>, which is \<open>None\<close> when the variable is not set.
\<close>

section \<open>Tables\<close>

record user_row =
  us_name :: string
  us_email :: string
  us_full :: "string option"
  us_hash :: string
  us_disabled :: bool
  us_admin :: bool
  us_must_change :: bool

record user_group =
  gp_name :: string
  gp_description :: "string option"
  gp_creator :: int

record membership =
  mb_group :: int
  mb_user :: int
  mb_role :: string

record resource_grant =
  gr_id :: int
  gr_type :: string
  gr_resource :: int
  gr_group :: int
  gr_perm :: string
  gr_by :: int

record namespace =
  ns_name :: string
  ns_parent :: "int option"
  ns_level :: int
  ns_description :: "string option"
  ns_owner :: int
  ns_public :: bool
  ns_uri :: "string option"
  ns_conn :: "string option"

record item =
  it_owner :: "int option"
  it_space :: "int option"
  it_name :: string
  it_text :: string

record share_db =
  sd_users :: "(int, user_row) dict"
  sd_groups :: "(int, user_group) dict"
  sd_members :: "membership list"
  sd_grants :: "resource_grant list"
  sd_spaces :: "(int, namespace) dict"
  sd_items :: "(string \<times> int, item) dict"

text \<open>The user of a request.\<close>

record principal =
  pr_id :: int
  pr_name :: string
  pr_admin :: bool

section \<open>The registry\<close>

definition resource_registry :: "(string \<times> string) list" where
  "resource_registry =
     [(''secret'', ''user_id''), (''database_connection'', ''user_id''), (''cloud_connection'', ''user_id''),
      (''ga_connection'', ''user_id''), (''kafka_connection'', ''user_id''), (''catalog_namespace'', ''owner_id''),
      (''catalog_table'', ''owner_id''), (''flow'', ''owner_id''), (''visualization'', ''created_by''),
      (''dashboard'', ''created_by''), (''catalog_notebook'', ''owner_id''), (''global_artifact'', ''owner_id'')]"

definition manage_disallowed_types :: "string list" where
  "manage_disallowed_types = [''secret'']"

definition namespace_scoped_types :: "string list" where
  "namespace_scoped_types =
     [''catalog_table'', ''flow'', ''visualization'', ''dashboard'', ''catalog_notebook'', ''global_artifact'']"

definition internal_service_username :: string where
  "internal_service_username = ''_internal_service''"

text \<open>The rows of the table of a type: id, owner and namespace.\<close>

definition rows_of :: "share_db \<Rightarrow> string \<Rightarrow> (int \<times> int option \<times> int option) list" where
  "rows_of d t =
     (if t = ''catalog_namespace'' then map (\<lambda>(i, n). (i, Some (ns_owner n), ns_parent n)) (sd_spaces d)
      else map (\<lambda>((t', i), x). (i, it_owner x, it_space x)) (filter (\<lambda>((t', i), x). t' = t) (sd_items d)))"

section \<open>Groups and grants of a user\<close>

definition sharing_enabled :: "string option \<Rightarrow> bool" where
  "sharing_enabled m \<longleftrightarrow> (case m of None \<Rightarrow> ''electron'' | Some x \<Rightarrow> x) \<noteq> ''electron''"

definition is_synthetic_principal :: "principal \<Rightarrow> bool" where
  "is_synthetic_principal p \<longleftrightarrow> pr_name p = internal_service_username"

definition user_group_ids :: "string option \<Rightarrow> share_db \<Rightarrow> int \<Rightarrow> int list" where
  "user_group_ids m d u =
     (if \<not> sharing_enabled m then [] else map mb_group (filter (\<lambda>b. mb_user b = u) (sd_members d)))"

definition manageable_group_ids :: "string option \<Rightarrow> share_db \<Rightarrow> int \<Rightarrow> int list" where
  "manageable_group_ids m d u =
     (if \<not> sharing_enabled m then []
      else map mb_group (filter (\<lambda>b. mb_user b = u \<and> mb_role b \<in> {''owner'', ''manager''}) (sd_members d)))"

definition group_role :: "share_db \<Rightarrow> int \<Rightarrow> int \<Rightarrow> string option" where
  "group_role d g u = map_option mb_role (find (\<lambda>b. mb_group b = g \<and> mb_user b = u) (sd_members d))"

definition or_groups :: "string option \<Rightarrow> share_db \<Rightarrow> int \<Rightarrow> int list option \<Rightarrow> int list" where
  "or_groups m d u gs = (case gs of None \<Rightarrow> user_group_ids m d u | Some g \<Rightarrow> g)"

definition grants_of :: "share_db \<Rightarrow> string \<Rightarrow> int list \<Rightarrow> resource_grant list" where
  "grants_of d t gids = filter (\<lambda>g. gr_type g = t \<and> gr_group g \<in> set gids) (sd_grants d)"

definition add_space_grant :: "resource_grant \<Rightarrow> (int, string) dict \<Rightarrow> (int, string) dict" where
  "add_space_grant g p =
     (if gr_perm g = ''manage'' \<or> dict_get p (gr_resource g) = None then dict_set (gr_resource g) (gr_perm g) p else p)"

definition inherit_space_grant :: "int \<times> int \<Rightarrow> (int, string) dict \<Rightarrow> (int, string) dict" where
  "inherit_space_grant cp p =
     (case dict_get p (snd cp) of
        None \<Rightarrow> p
      | Some q \<Rightarrow> if dict_get p (fst cp) = None \<or> q = ''manage'' then dict_set (fst cp) q p else p)"

definition children_of :: "share_db \<Rightarrow> int list \<Rightarrow> (int \<times> int) list" where
  "children_of d ps =
     concat (map (\<lambda>(i, n). case ns_parent n of Some k \<Rightarrow> (if k \<in> set ps then [(i, k)] else []) | None \<Rightarrow> []) (sd_spaces d))"

definition granted_namespace_permissions ::
  "string option \<Rightarrow> share_db \<Rightarrow> int \<Rightarrow> int list option \<Rightarrow> (int, string) dict" where
  "granted_namespace_permissions m d u gs =
     (let gids = or_groups m d u gs in
      if gids = [] then []
      else
        (let perms = fold add_space_grant (grants_of d ''catalog_namespace'' gids) [] in
         if perms = [] then [] else fold inherit_space_grant (children_of d (dict_keys perms)) perms))"

definition or_perms ::
  "string option \<Rightarrow> share_db \<Rightarrow> int \<Rightarrow> int list option \<Rightarrow> (int, string) dict option \<Rightarrow> (int, string) dict" where
  "or_perms m d u gs np = (case np of None \<Rightarrow> granted_namespace_permissions m d u gs | Some p \<Rightarrow> p)"

definition expand_namespace_grants ::
  "string option \<Rightarrow> share_db \<Rightarrow> int \<Rightarrow> string \<Rightarrow> int list option \<Rightarrow> (int, string) dict option \<Rightarrow> int set" where
  "expand_namespace_grants m d u perm gs np =
     (if \<not> sharing_enabled m then {}
      else
        (let perms = or_perms m d u gs np in
         if perm = ''manage'' then set (map fst (filter (\<lambda>(i, p). p = ''manage'') perms)) else set (dict_keys perms)))"

definition direct_granted_ids ::
  "string option \<Rightarrow> share_db \<Rightarrow> int \<Rightarrow> string \<Rightarrow> string \<Rightarrow> int list option \<Rightarrow> int set" where
  "direct_granted_ids m d u t perm gs =
     (let gids = or_groups m d u gs in
      if gids = [] then {}
      else set (map gr_resource (filter (\<lambda>g. perm = ''manage'' \<longrightarrow> gr_perm g = ''manage'') (grants_of d t gids))))"

definition rows_in :: "share_db \<Rightarrow> string \<Rightarrow> int set \<Rightarrow> (int \<times> int) list" where
  "rows_in d t ns =
     concat (map (\<lambda>(i, ow, sp). case sp of Some k \<Rightarrow> (if k \<in> ns then [(i, k)] else []) | None \<Rightarrow> []) (rows_of d t))"

definition granted_resource_ids ::
  "string option \<Rightarrow> share_db \<Rightarrow> int \<Rightarrow> string \<Rightarrow> string \<Rightarrow> int list option \<Rightarrow> (int, string) dict option \<Rightarrow> int set" where
  "granted_resource_ids m d u t perm gs np =
     (if \<not> sharing_enabled m then {}
      else
        (let ids = direct_granted_ids m d u t perm gs in
         if t \<in> set namespace_scoped_types
         then (let ns = expand_namespace_grants m d u perm gs np in
               if ns = {} then ids else ids \<union> set (map fst (rows_in d t ns)))
         else ids))"

text \<open>The dictionary of \<open>granted_access_details\<close>: permission and granting user.\<close>

definition add_detail ::
  "int \<times> string \<times> int option \<Rightarrow> (int, string \<times> int option) dict \<Rightarrow> (int, string \<times> int option) dict" where
  "add_detail r p =
     (case r of (i, q, by) \<Rightarrow>
        (case dict_get p i of
           None \<Rightarrow> dict_set i (q, by) p
         | Some old \<Rightarrow> if q = ''manage'' \<and> fst old \<noteq> ''manage'' then dict_set i (q, by) p else p))"

definition granted_access_details ::
  "string option \<Rightarrow> share_db \<Rightarrow> int \<Rightarrow> string \<Rightarrow> int list option \<Rightarrow> (int, string) dict option
     \<Rightarrow> (int, string \<times> int option) dict" where
  "granted_access_details m d u t gs np =
     (if \<not> sharing_enabled m then []
      else
        (let gids = or_groups m d u gs;
             details = (if gids = [] then []
                        else fold add_detail (map (\<lambda>g. (gr_resource g, gr_perm g, Some (gr_by g))) (grants_of d t gids)) []) in
         if t \<in> set namespace_scoped_types
         then (let perms = or_perms m d u (Some gids) np in
               if perms = [] then details
               else fold add_detail
                      (concat (map (\<lambda>(i, k). case dict_get perms k of Some q \<Rightarrow> [(i, q, None)] | None \<Rightarrow> [])
                         (rows_in d t (set (dict_keys perms))))) details)
         else details))"

section \<open>Who may use what\<close>

definition resolve_owner_id :: "share_db \<Rightarrow> string \<Rightarrow> int \<Rightarrow> int option option" where
  "resolve_owner_id d t r = map_option (\<lambda>(i, ow, sp). ow) (find (\<lambda>(i, ow, sp). i = r) (rows_of d t))"

definition has_access ::
  "string option \<Rightarrow> share_db \<Rightarrow> principal \<Rightarrow> string \<Rightarrow> int \<Rightarrow> int option \<Rightarrow> string \<Rightarrow> bool" where
  "has_access m d p t r ow perm =
     (case (case ow of Some v \<Rightarrow> Some (Some v) | None \<Rightarrow> resolve_owner_id d t r) of
        None \<Rightarrow> False
      | Some owner \<Rightarrow>
          if owner = Some (pr_id p) \<and> \<not> is_synthetic_principal p then True
          else if pr_admin p then True
          else if \<not> sharing_enabled m \<or> is_synthetic_principal p then False
          else r \<in> granted_resource_ids m d (pr_id p) t perm None None)"

definition can_use :: "string option \<Rightarrow> share_db \<Rightarrow> principal \<Rightarrow> string \<Rightarrow> int \<Rightarrow> int option \<Rightarrow> bool" where
  "can_use m d p t r ow = has_access m d p t r ow ''use''"

definition can_manage :: "string option \<Rightarrow> share_db \<Rightarrow> principal \<Rightarrow> string \<Rightarrow> int \<Rightarrow> int option \<Rightarrow> bool" where
  "can_manage m d p t r ow = has_access m d p t r ow ''manage''"

definition principal_of :: "int \<Rightarrow> user_row \<Rightarrow> principal" where
  "principal_of i us = \<lparr>pr_id = i, pr_name = us_name us, pr_admin = us_admin us\<rparr>"

definition user_id_can_use :: "string option \<Rightarrow> share_db \<Rightarrow> int option \<Rightarrow> string \<Rightarrow> int \<Rightarrow> bool" where
  "user_id_can_use m d u t r =
     (case u of
        None \<Rightarrow> True
      | Some i \<Rightarrow>
          if \<not> sharing_enabled m then True
          else (case dict_get (sd_users d) i of None \<Rightarrow> False | Some us \<Rightarrow> can_use m d (principal_of i us) t r None))"

text \<open>
  \<open>shared_resource_rows\<close> in the order of the ids, each with the permission and the name of the granting
  user. A comparison with a missing owner is not true in SQL.
\<close>

definition shared_resource_rows ::
  "string option \<Rightarrow> share_db \<Rightarrow> int \<Rightarrow> string \<Rightarrow> (int \<times> string \<times> string option) list" where
  "shared_resource_rows m d u t =
     (let details = granted_access_details m d u t None None in
      if details = [] then []
      else concat (map (\<lambda>(i, ow, sp).
             case dict_get details i of
               Some (q, by) \<Rightarrow>
                 (if ow \<noteq> None \<and> ow \<noteq> Some u
                  then [(i, q, case by of None \<Rightarrow> None
                               | Some g \<Rightarrow> map_option us_name (dict_get (sd_users d) g))]
                  else [])
             | None \<Rightarrow> []) (sort_key fst (rows_of d t))))"

text \<open>\<open>accessible_filter\<close>: the ids of the rows that the criterion matches.\<close>

definition accessible_filter :: "string option \<Rightarrow> share_db \<Rightarrow> int \<Rightarrow> string \<Rightarrow> string \<Rightarrow> int set" where
  "accessible_filter m d u t perm =
     (let granted = granted_resource_ids m d u t perm None None in
      set (map fst (filter (\<lambda>(i, ow, sp). ow = Some u \<or> granted \<noteq> {} \<and> i \<in> granted) (rows_of d t))))"

section \<open>Removing grants and memberships\<close>

definition delete_grants_for_resource :: "string \<Rightarrow> int \<Rightarrow> share_db \<Rightarrow> share_db" where
  "delete_grants_for_resource t r d =
     d\<lparr>sd_grants := filter (\<lambda>g. \<not> (gr_type g = t \<and> gr_resource g = r)) (sd_grants d)\<rparr>"

definition delete_grants_for_group :: "int \<Rightarrow> share_db \<Rightarrow> share_db" where
  "delete_grants_for_group i d = d\<lparr>sd_grants := filter (\<lambda>g. gr_group g \<noteq> i) (sd_grants d)\<rparr>"

definition delete_memberships_for_group :: "int \<Rightarrow> share_db \<Rightarrow> share_db" where
  "delete_memberships_for_group i d = d\<lparr>sd_members := filter (\<lambda>b. mb_group b \<noteq> i) (sd_members d)\<rparr>"

definition delete_memberships_for_user :: "int \<Rightarrow> share_db \<Rightarrow> share_db" where
  "delete_memberships_for_user u d = d\<lparr>sd_members := filter (\<lambda>b. mb_user b \<noteq> u) (sd_members d)\<rparr>"

text \<open>Deleting a row through the session also deletes its grants (\<open>_on_delete\<close>).\<close>

definition drop_item :: "string \<Rightarrow> int \<Rightarrow> share_db \<Rightarrow> share_db" where
  "drop_item t i d = delete_grants_for_resource t i (d\<lparr>sd_items := dict_pop (t, i) (sd_items d)\<rparr>)"

definition drop_space :: "int \<Rightarrow> share_db \<Rightarrow> share_db" where
  "drop_space i d = delete_grants_for_resource ''catalog_namespace'' i (d\<lparr>sd_spaces := dict_pop i (sd_spaces d)\<rparr>)"

section \<open>The resolver of a request\<close>

text \<open>
  \<open>AccessResolver\<close> keeps the group ids, the namespace permissions and the accessible ids of a request once
  they are computed. Nothing is written during a request, so the resolver is a function of the tables;
  what it shares between its queries is handed to them, as the code does.
\<close>

record resolver =
  ar_user :: principal
  ar_restricted :: bool
  ar_groups :: "int list"
  ar_perms :: "(int, string) dict"

definition access_resolver :: "string option \<Rightarrow> share_db \<Rightarrow> principal \<Rightarrow> resolver" where
  "access_resolver m d p =
     (let gids = user_group_ids m d (pr_id p) in
      \<lparr>ar_user = p,
       ar_restricted = (sharing_enabled m \<and> \<not> pr_admin p \<and> \<not> is_synthetic_principal p),
       ar_groups = gids,
       ar_perms = granted_namespace_permissions m d (pr_id p) (Some gids)\<rparr>)"

definition ns_perms_for :: "resolver \<Rightarrow> string \<Rightarrow> (int, string) dict option" where
  "ns_perms_for R t = (if t \<in> set namespace_scoped_types then Some (ar_perms R) else None)"

definition resolver_can_use :: "string option \<Rightarrow> share_db \<Rightarrow> resolver \<Rightarrow> string \<Rightarrow> int \<Rightarrow> int option \<Rightarrow> bool" where
  "resolver_can_use m d R t r ow \<longleftrightarrow> (if \<not> ar_restricted R then True else can_use m d (ar_user R) t r ow)"

definition resolver_can_manage :: "string option \<Rightarrow> share_db \<Rightarrow> resolver \<Rightarrow> string \<Rightarrow> int \<Rightarrow> int option \<Rightarrow> bool" where
  "resolver_can_manage m d R t r ow \<longleftrightarrow> (if \<not> ar_restricted R then True else can_manage m d (ar_user R) t r ow)"

definition own_ids :: "share_db \<Rightarrow> int \<Rightarrow> string \<Rightarrow> int set" where
  "own_ids d u t = set (map fst (filter (\<lambda>(i, ow, sp). ow = Some u) (rows_of d t)))"

definition accessible_ids :: "string option \<Rightarrow> share_db \<Rightarrow> resolver \<Rightarrow> string \<Rightarrow> int set" where
  "accessible_ids m d R t =
     own_ids d (pr_id (ar_user R)) t
     \<union> granted_resource_ids m d (pr_id (ar_user R)) t ''use'' (Some (ar_groups R)) (ns_perms_for R t)"

definition public_namespace_ids :: "share_db \<Rightarrow> int set" where
  "public_namespace_ids d = set (map fst (filter (\<lambda>(i, n). ns_public n) (sd_spaces d)))"

definition visible_namespace_ids :: "string option \<Rightarrow> share_db \<Rightarrow> resolver \<Rightarrow> int set" where
  "visible_namespace_ids m d R = accessible_ids m d R ''catalog_namespace'' \<union> public_namespace_ids d"

definition writable_namespace_ids :: "string option \<Rightarrow> share_db \<Rightarrow> resolver \<Rightarrow> int set" where
  "writable_namespace_ids m d R =
     own_ids d (pr_id (ar_user R)) ''catalog_namespace''
     \<union> expand_namespace_grants m d (pr_id (ar_user R)) ''manage'' (Some (ar_groups R)) (Some (ar_perms R))
     \<union> public_namespace_ids d"

section \<open>What the rules say\<close>

text \<open>
  The rules in one place: a grant reaches a user through a group, a grant on a namespace reaches the
  namespace and its children, and a scoped item is reached through its namespace.
\<close>

definition granted :: "share_db \<Rightarrow> int \<Rightarrow> string \<Rightarrow> string \<Rightarrow> int \<Rightarrow> bool" where
  "granted d u perm t r \<longleftrightarrow>
     (\<exists>g \<in> set (sd_grants d). gr_type g = t \<and> gr_resource g = r \<and> (perm = ''manage'' \<longrightarrow> gr_perm g = ''manage'')
        \<and> (\<exists>b \<in> set (sd_members d). mb_user b = u \<and> mb_group b = gr_group g))"

definition space_granted :: "share_db \<Rightarrow> int \<Rightarrow> string \<Rightarrow> int \<Rightarrow> bool" where
  "space_granted d u perm i \<longleftrightarrow>
     granted d u perm ''catalog_namespace'' i
     \<or> (case dict_get (sd_spaces d) i of
          None \<Rightarrow> False
        | Some n \<Rightarrow> (case ns_parent n of None \<Rightarrow> False | Some k \<Rightarrow> granted d u perm ''catalog_namespace'' k))"

definition reaches :: "share_db \<Rightarrow> int \<Rightarrow> string \<Rightarrow> string \<Rightarrow> int \<Rightarrow> bool" where
  "reaches d u perm t r \<longleftrightarrow>
     granted d u perm t r
     \<or> t \<in> set namespace_scoped_types
       \<and> (case dict_get (sd_items d) (t, r) of
            None \<Rightarrow> False
          | Some x \<Rightarrow> (case it_space x of None \<Rightarrow> False | Some k \<Rightarrow> space_granted d u perm k))"

definition owner_of :: "share_db \<Rightarrow> string \<Rightarrow> int \<Rightarrow> int option option" where
  "owner_of d t r =
     (if t = ''catalog_namespace'' then map_option (\<lambda>n. Some (ns_owner n)) (dict_get (sd_spaces d) r)
      else map_option it_owner (dict_get (sd_items d) (t, r)))"

definition two_levels :: "share_db \<Rightarrow> bool" where
  "two_levels d \<longleftrightarrow>
     dict_ok (sd_spaces d)
     \<and> (\<forall>(i, n) \<in> set (sd_spaces d). case ns_parent n of
          None \<Rightarrow> True
        | Some k \<Rightarrow> (case dict_get (sd_spaces d) k of None \<Rightarrow> True | Some n' \<Rightarrow> ns_parent n' = None))"

section \<open>The best permission\<close>

text \<open>
  Three loops collect permissions in a dictionary, and each keeps the best one it sees for a key. The
  locale states this of one iteration; what the loops compute follows.
\<close>

locale best_permission =
  fixes add :: "'e \<Rightarrow> (int, 'v) dict \<Rightarrow> (int, 'v) dict"
    and key :: "'e \<Rightarrow> int" and top :: "'e \<Rightarrow> bool" and is_top :: "'v \<Rightarrow> bool"
  assumes dom_add: "dom (map_of (add e p)) = insert (key e) (dom (map_of p))"
    and top_add: "(\<exists>v. map_of (add e p) k = Some v \<and> is_top v)
      \<longleftrightarrow> (\<exists>v. map_of p k = Some v \<and> is_top v) \<or> key e = k \<and> top e"
    and ok_add: "dict_ok p \<Longrightarrow> dict_ok (add e p)"
begin

lemma fold_ok: "dict_ok p \<Longrightarrow> dict_ok (fold add es p)"
  by (rule fold_invariant) (auto intro: ok_add)

lemma fold_dom: "dom (map_of (fold add es p)) = key ` set es \<union> dom (map_of p)"
  by (induction es arbitrary: p) (auto simp: dom_add)

lemma fold_top:
  "(\<exists>v. map_of (fold add es p) k = Some v \<and> is_top v)
   \<longleftrightarrow> (\<exists>v. map_of p k = Some v \<and> is_top v) \<or> (\<exists>e \<in> set es. key e = k \<and> top e)"
  by (induction es arbitrary: p) (auto simp: top_add)

end

abbreviation manages :: "string \<Rightarrow> bool" where
  "manages q \<equiv> q = ''manage''"

definition put_permission :: "int \<times> string \<Rightarrow> (int, string) dict \<Rightarrow> (int, string) dict" where
  "put_permission e p = (if dict_get p (fst e) = None \<or> snd e = ''manage'' then dict_set (fst e) (snd e) p else p)"

interpretation space_grants: best_permission add_space_grant gr_resource "\<lambda>g. manages (gr_perm g)" manages
  by unfold_locales (auto simp: add_space_grant_def)

interpretation permissions: best_permission put_permission fst "\<lambda>e. manages (snd e)" manages
  by unfold_locales (auto simp: put_permission_def)

interpretation details: best_permission add_detail fst "\<lambda>r. manages (fst (snd r))" "\<lambda>v. manages (fst v)"
  by unfold_locales (auto simp: add_detail_def split: option.splits prod.splits if_splits)

lemma in_user_group_ids:
  "sharing_enabled m \<Longrightarrow> g \<in> set (user_group_ids m d u) \<longleftrightarrow> (\<exists>b \<in> set (sd_members d). mb_user b = u \<and> mb_group b = g)"
  by (auto simp: user_group_ids_def)

lemma granted_iff:
  "sharing_enabled m \<Longrightarrow>
   granted d u perm t r \<longleftrightarrow>
     (\<exists>g \<in> set (grants_of d t (user_group_ids m d u)). gr_resource g = r \<and> (perm = ''manage'' \<longrightarrow> gr_perm g = ''manage''))"
  by (auto simp: granted_def grants_of_def in_user_group_ids)

lemma direct_granted_ids_iff:
  "sharing_enabled m \<Longrightarrow> r \<in> direct_granted_ids m d u t perm None \<longleftrightarrow> granted d u perm t r"
  by (auto simp: direct_granted_ids_def or_groups_def granted_iff Let_def grants_of_def)

subsection \<open>Namespaces\<close>

definition base_permissions :: "string option \<Rightarrow> share_db \<Rightarrow> int \<Rightarrow> (int, string) dict" where
  "base_permissions m d u = fold add_space_grant (grants_of d ''catalog_namespace'' (user_group_ids m d u)) []"

lemma base_permissions_ok [simp]: "dict_ok (base_permissions m d u)"
  by (simp add: base_permissions_def space_grants.fold_ok)

lemma base_permissions_use:
  assumes on: "sharing_enabled m"
  shows "dict_get (base_permissions m d u) k \<noteq> None \<longleftrightarrow> granted d u ''use'' ''catalog_namespace'' k"
proof -
  let ?gs = "grants_of d ''catalog_namespace'' (user_group_ids m d u)"
  have "dict_get (base_permissions m d u) k \<noteq> None \<longleftrightarrow> k \<in> dom (map_of (fold add_space_grant ?gs []))"
    by (simp only: base_permissions_def domIff)
  also have "\<dots> \<longleftrightarrow> k \<in> gr_resource ` set ?gs" by (simp only: space_grants.fold_dom) simp
  finally show ?thesis by (auto simp: granted_iff[OF on])
qed

lemma base_permissions_manage:
  "sharing_enabled m \<Longrightarrow>
   dict_get (base_permissions m d u) k = Some ''manage'' \<longleftrightarrow> granted d u ''manage'' ''catalog_namespace'' k"
  using space_grants.fold_top[of "grants_of d ''catalog_namespace'' (user_group_ids m d u)" "[]" k]
  by (auto simp: base_permissions_def granted_iff)

lemma in_children_of:
  "dict_ok (sd_spaces d) \<Longrightarrow>
   (i, k) \<in> set (children_of d ps) \<longleftrightarrow> (\<exists>n. dict_get (sd_spaces d) i = Some n \<and> ns_parent n = Some k \<and> k \<in> set ps)"
  by (auto simp: children_of_def dict_get_in_iff[symmetric] split: option.splits) force+

text \<open>On two levels a parent is not a child, so the loop reads the permissions it started with.\<close>

lemma inherit_is_put:
  assumes "\<forall>(c, k) \<in> set cs. k \<notin> fst ` set cs \<and> dict_get p k = Some (f k)"
  shows "fold inherit_space_grant cs p = fold put_permission (map (\<lambda>(c, k). (c, f k)) cs) p"
  using assms
proof (induction cs arbitrary: p)
  case Nil
  show ?case by simp
next
  case (Cons ck cs)
  obtain c k where ck: "ck = (c, k)" by (cases ck)
  from Cons.prems ck have k: "dict_get p k = Some (f k)" and c: "\<forall>(c', k') \<in> set cs. k' \<noteq> c" by auto
  then have one: "inherit_space_grant ck p = put_permission (c, f k) p"
    by (simp add: ck inherit_space_grant_def put_permission_def)
  have "\<forall>(c', k') \<in> set cs. k' \<notin> fst ` set cs \<and> dict_get (put_permission (c, f k) p) k' = Some (f k')"
    using Cons.prems c by (auto simp: ck put_permission_def)
  from Cons.IH[OF this] one show ?case by (simp add: ck)
qed

lemma two_levels_parent:
  assumes "two_levels d" and "dict_get (sd_spaces d) i = Some n" and "ns_parent n = Some k"
    and "dict_get (sd_spaces d) k = Some n'"
  shows "ns_parent n' = None"
proof -
  from assms(1,2) have "(i, n) \<in> set (sd_spaces d)" by (simp add: two_levels_def dict_get_in_iff)
  with assms show ?thesis by (fastforce simp: two_levels_def)
qed

lemma granted_namespace_permissions_eq:
  assumes on: "sharing_enabled m" and two: "two_levels d"
  shows "granted_namespace_permissions m d u None =
    fold put_permission
      (map (\<lambda>(c, k). (c, the (dict_get (base_permissions m d u) k))) (children_of d (dict_keys (base_permissions m d u))))
      (base_permissions m d u)"
proof -
  let ?b = "base_permissions m d u"
  let ?cs = "children_of d (dict_keys ?b)"
  from two have ok: "dict_ok (sd_spaces d)" by (simp add: two_levels_def)
  have parent: "k \<notin> fst ` set ?cs \<and> dict_get ?b k = Some (the (dict_get ?b k))" if ck: "(c, k) \<in> set ?cs" for c k
  proof -
    from ck ok obtain n where n: "dict_get (sd_spaces d) c = Some n" "ns_parent n = Some k" "k \<in> set (dict_keys ?b)"
      by (auto simp: in_children_of)
    have "k \<notin> fst ` set ?cs"
    proof
      assume "k \<in> fst ` set ?cs"
      then obtain k' where "(k, k') \<in> set ?cs" by force
      with ok obtain n' where "dict_get (sd_spaces d) k = Some n'" "ns_parent n' = Some k'" by (auto simp: in_children_of)
      with two_levels_parent[OF two n(1,2)] show False by simp
    qed
    with n(3) show ?thesis by auto
  qed
  have inh: "fold inherit_space_grant ?cs ?b = fold put_permission (map (\<lambda>(c, k). (c, the (dict_get ?b k))) ?cs) ?b"
    by (rule inherit_is_put) (use parent in blast)
  have empty: "children_of d [] = []"
    by (simp add: children_of_def split: option.splits) (auto split: option.splits)
  have none: "?b = []" if "user_group_ids m d u = []" using that by (simp add: base_permissions_def grants_of_def)
  show ?thesis
    by (cases "?b = []")
      (auto simp: granted_namespace_permissions_def or_groups_def Let_def base_permissions_def[symmetric] inh empty none
        simp: dict_keys_def[of "[]"])
qed

lemma namespace_permissions:
  assumes on: "sharing_enabled m" and two: "two_levels d"
  shows "dict_get (granted_namespace_permissions m d u None) i \<noteq> None \<longleftrightarrow> space_granted d u ''use'' i" (is ?use)
    and "dict_get (granted_namespace_permissions m d u None) i = Some ''manage'' \<longleftrightarrow> space_granted d u ''manage'' i" (is ?manage)
    and "dict_ok (granted_namespace_permissions m d u None)"
proof -
  let ?b = "base_permissions m d u"
  let ?es = "map (\<lambda>(c, k). (c, the (dict_get ?b k))) (children_of d (dict_keys ?b))"
  note eq = granted_namespace_permissions_eq[OF on two, of u]
  from two have ok: "dict_ok (sd_spaces d)" by (simp add: two_levels_def)
  have es: "(c, q) \<in> set ?es \<longleftrightarrow>
      (\<exists>n k. dict_get (sd_spaces d) c = Some n \<and> ns_parent n = Some k \<and> dict_get ?b k = Some q)" for c q
  proof -
    have keys: "k \<in> set (dict_keys ?b) \<and> q = the (dict_get ?b k) \<longleftrightarrow> dict_get ?b k = Some q" for k by (auto simp: domIff)
    have "(c, q) \<in> set ?es \<longleftrightarrow> (\<exists>k. (c, k) \<in> set (children_of d (dict_keys ?b)) \<and> q = the (dict_get ?b k))"
      by (simp add: image_iff Bex_def split_paired_Ex eq_commute)
    also have "\<dots> \<longleftrightarrow> (\<exists>n k. dict_get (sd_spaces d) c = Some n \<and> ns_parent n = Some k
        \<and> (k \<in> set (dict_keys ?b) \<and> q = the (dict_get ?b k)))"
      unfolding in_children_of[OF ok] by blast
    finally show ?thesis unfolding keys .
  qed
  have "i \<in> dom (map_of (fold put_permission ?es ?b)) \<longleftrightarrow> i \<in> fst ` set ?es \<or> dict_get ?b i \<noteq> None"
    by (subst permissions.fold_dom) auto
  also have "i \<in> fst ` set ?es \<longleftrightarrow> (\<exists>n k. dict_get (sd_spaces d) i = Some n \<and> ns_parent n = Some k \<and> dict_get ?b k \<noteq> None)"
    using es by (auto simp: image_iff Bex_def)
  finally show ?use
    by (auto simp: eq space_granted_def base_permissions_use[OF on, symmetric] domIff split: option.splits)
  have "(\<exists>v. map_of (fold put_permission ?es ?b) i = Some v \<and> v = ''manage'')
      \<longleftrightarrow> (\<exists>v. dict_get ?b i = Some v \<and> v = ''manage'') \<or> (\<exists>e \<in> set ?es. fst e = i \<and> snd e = ''manage'')"
    by (rule permissions.fold_top)
  also have "(\<exists>e \<in> set ?es. fst e = i \<and> snd e = ''manage'') \<longleftrightarrow>
      (\<exists>n k. dict_get (sd_spaces d) i = Some n \<and> ns_parent n = Some k \<and> dict_get ?b k = Some ''manage'')"
  proof -
    have "(\<exists>e \<in> set ?es. fst e = i \<and> snd e = ''manage'') \<longleftrightarrow> (i, ''manage'') \<in> set ?es" by (metis prod.collapse fst_conv snd_conv)
    then show ?thesis by (simp only: es)
  qed
  finally show ?manage
    by (auto simp: eq space_granted_def base_permissions_manage[OF on, symmetric] split: option.splits)
  show "dict_ok (granted_namespace_permissions m d u None)"
    unfolding eq by (rule permissions.fold_ok) simp
qed

subsection \<open>Items\<close>

lemma items_rows:
  assumes "dict_ok (sd_items d)" and "t \<noteq> ''catalog_namespace''"
  shows "(i, ow, sp) \<in> set (rows_of d t) \<longleftrightarrow> (\<exists>x. dict_get (sd_items d) (t, i) = Some x \<and> it_owner x = ow \<and> it_space x = sp)"
  using assms(2) by (force simp: rows_of_def dict_get_in_iff[OF assms(1), symmetric] image_iff)

lemma spaces_rows:
  assumes "dict_ok (sd_spaces d)"
  shows "(i, ow, sp) \<in> set (rows_of d ''catalog_namespace'')
    \<longleftrightarrow> (\<exists>n. dict_get (sd_spaces d) i = Some n \<and> Some (ns_owner n) = ow \<and> ns_parent n = sp)"
  by (force simp: rows_of_def dict_get_in_iff[OF assms, symmetric] image_iff)

lemma scoped_not_namespace: "t \<in> set namespace_scoped_types \<Longrightarrow> t \<noteq> ''catalog_namespace''"
  by (auto simp: namespace_scoped_types_def)

lemma rows_in_iff:
  assumes "dict_ok (sd_items d)" and "t \<in> set namespace_scoped_types"
  shows "(i, k) \<in> set (rows_in d t ns) \<longleftrightarrow> (\<exists>x. dict_get (sd_items d) (t, i) = Some x \<and> it_space x = Some k) \<and> k \<in> ns"
proof -
  have "(i, k) \<in> set (rows_in d t ns) \<longleftrightarrow> (\<exists>ow. (i, ow, Some k) \<in> set (rows_of d t)) \<and> k \<in> ns"
    by (force simp: rows_in_def split: option.splits)
  then show ?thesis by (simp add: items_rows[OF assms(1) scoped_not_namespace[OF assms(2)]])
qed

lemma expand_namespace_grants_iff:
  assumes on: "sharing_enabled m" and two: "two_levels d" and perm: "perm = ''use'' \<or> perm = ''manage''"
  shows "k \<in> expand_namespace_grants m d u perm None None \<longleftrightarrow> space_granted d u perm k"
proof -
  let ?p = "granted_namespace_permissions m d u None"
  note ns = namespace_permissions(1,2)[OF on two, of u k] namespace_permissions(3)[OF on two, of u]
  have "k \<in> set (map fst (filter (\<lambda>(i, p). p = ''manage'') ?p)) \<longleftrightarrow> (k, ''manage'') \<in> set ?p" by force
  then have m: "k \<in> set (map fst (filter (\<lambda>(i, p). p = ''manage'') ?p)) \<longleftrightarrow> dict_get ?p k = Some ''manage''"
    by (simp only: dict_get_in_iff[OF ns(3)])
  have u: "k \<in> set (dict_keys ?p) \<longleftrightarrow> dict_get ?p k \<noteq> None" by auto
  from perm show ?thesis
  proof
    assume "perm = ''use''"
    with on u ns(1) show ?thesis by (simp add: expand_namespace_grants_def or_perms_def Let_def)
  next
    assume "perm = ''manage''"
    with on m ns(2) show ?thesis by (simp only: expand_namespace_grants_def or_perms_def Let_def option.case if_True not_True_eq_False if_False simp_thms)
  qed
qed

lemma granted_resource_ids_iff:
  assumes on: "sharing_enabled m" and two: "two_levels d" and items: "dict_ok (sd_items d)"
    and perm: "perm = ''use'' \<or> perm = ''manage''"
  shows "r \<in> granted_resource_ids m d u t perm None None \<longleftrightarrow> reaches d u perm t r"
proof (cases "t \<in> set namespace_scoped_types")
  case False
  with on show ?thesis by (simp add: granted_resource_ids_def reaches_def direct_granted_ids_iff Let_def)
next
  case True
  let ?ns = "expand_namespace_grants m d u perm None None"
  have "r \<in> set (map fst (rows_in d t ?ns)) \<longleftrightarrow> (\<exists>k. (r, k) \<in> set (rows_in d t ?ns))" by force
  also have "\<dots> \<longleftrightarrow> (\<exists>k x. dict_get (sd_items d) (t, r) = Some x \<and> it_space x = Some k \<and> space_granted d u perm k)"
    by (auto simp: rows_in_iff[OF items True] expand_namespace_grants_iff[OF on two perm])
  finally have rows: "r \<in> set (map fst (rows_in d t ?ns))
      \<longleftrightarrow> (\<exists>k x. dict_get (sd_items d) (t, r) = Some x \<and> it_space x = Some k \<and> space_granted d u perm k)" .
  have "rows_in d t {} = []" by (auto simp: rows_in_def split: option.splits)
  with rows on True show ?thesis
    by (cases "?ns = {}") (auto simp: granted_resource_ids_def reaches_def direct_granted_ids_iff Let_def split: option.splits)
qed

lemma resolve_owner:
  assumes "dict_ok (sd_spaces d)" and "dict_ok (sd_items d)"
  shows "resolve_owner_id d t r = owner_of d t r"
proof (cases "find (\<lambda>(i, ow, sp). i = r) (rows_of d t)")
  case None
  then have no: "\<not> (\<exists>ow sp. (r, ow, sp) \<in> set (rows_of d t))" by (auto simp: find_None_iff)
  have "owner_of d t r = None"
  proof (cases "t = ''catalog_namespace''")
    case True
    with no spaces_rows[OF assms(1), of r] show ?thesis by (auto simp: owner_of_def)
  next
    case False
    with no items_rows[OF assms(2) False, of r] show ?thesis by (auto simp: owner_of_def)
  qed
  with None show ?thesis by (simp add: resolve_owner_id_def)
next
  case (Some z)
  from find_SomeD[OF this] have "z \<in> set (rows_of d t)" and "case z of (i, ow, sp) \<Rightarrow> i = r" by blast+
  then obtain ow sp where z: "z = (r, ow, sp)" and "(r, ow, sp) \<in> set (rows_of d t)" by (cases z) auto
  then have "owner_of d t r = Some ow"
    using spaces_rows[OF assms(1), of r ow sp] items_rows[OF assms(2), of t r ow sp]
    by (cases "t = ''catalog_namespace''") (auto simp: owner_of_def)
  with Some z show ?thesis by (simp add: resolve_owner_id_def)
qed

definition may :: "string option \<Rightarrow> share_db \<Rightarrow> principal \<Rightarrow> string \<Rightarrow> string \<Rightarrow> int \<Rightarrow> int option \<Rightarrow> bool" where
  "may m d p perm t r ow \<longleftrightarrow>
     ow = Some (pr_id p) \<and> \<not> is_synthetic_principal p
     \<or> pr_admin p
     \<or> sharing_enabled m \<and> \<not> is_synthetic_principal p \<and> reaches d (pr_id p) perm t r"

lemma has_access_may:
  assumes two: "two_levels d" and items: "dict_ok (sd_items d)" and perm: "perm = ''use'' \<or> perm = ''manage''"
  shows "has_access m d p t r None perm \<longleftrightarrow> (case owner_of d t r of None \<Rightarrow> False | Some ow \<Rightarrow> may m d p perm t r ow)"
proof -
  from two have sp: "dict_ok (sd_spaces d)" by (simp add: two_levels_def)
  show ?thesis
    using granted_resource_ids_iff[OF _ two items perm]
    by (auto simp: has_access_def resolve_owner[OF sp items] may_def split: option.splits)
qed

lemma has_access_owner:
  assumes "dict_ok (sd_spaces d)" and "dict_ok (sd_items d)" and "owner_of d t r = Some (Some v)"
  shows "has_access m d p t r (Some v) perm = has_access m d p t r None perm"
  using assms by (simp add: has_access_def resolve_owner)

text \<open>
  C8: can_use and can_manage decide exactly the stated rules.\<close>

theorem access_is_as_stated:
  assumes "two_levels d" and "dict_ok (sd_items d)"
  shows "(can_use m d p t r None \<longleftrightarrow> (case owner_of d t r of None \<Rightarrow> False | Some ow \<Rightarrow> may m d p ''use'' t r ow))
    \<and> (can_manage m d p t r None \<longleftrightarrow> (case owner_of d t r of None \<Rightarrow> False | Some ow \<Rightarrow> may m d p ''manage'' t r ow))"
  by (simp_all add: can_use_def can_manage_def has_access_may[OF assms])

section \<open>Lists and single checks agree\<close>

lemma inherit_ok: "dict_ok p \<Longrightarrow> dict_ok (inherit_space_grant e p)"
  by (simp add: inherit_space_grant_def split: option.splits)

lemma permissions_ok [simp]: "dict_ok (granted_namespace_permissions m d u gs)"
proof -
  have "dict_ok (fold inherit_space_grant cs p)" if "dict_ok p" for cs p
    by (rule fold_invariant) (auto intro: that inherit_ok)
  then show ?thesis by (simp add: granted_namespace_permissions_def Let_def space_grants.fold_ok)
qed

lemma memo_groups: "or_groups m d u (Some (user_group_ids m d u)) = or_groups m d u None"
  by (simp add: or_groups_def)

lemma memo_perms:
  "granted_namespace_permissions m d u (Some (user_group_ids m d u)) = granted_namespace_permissions m d u None"
  by (simp add: granted_namespace_permissions_def memo_groups)

text \<open>The shared values of a request change no answer.\<close>

lemma resolver_memo:
  "granted_resource_ids m d (pr_id p) t perm (Some (ar_groups (access_resolver m d p))) (ns_perms_for (access_resolver m d p) t)
   = granted_resource_ids m d (pr_id p) t perm None None"
  by (simp add: granted_resource_ids_def direct_granted_ids_def expand_namespace_grants_def or_perms_def memo_groups
      ns_perms_for_def access_resolver_def Let_def memo_perms)

definition detail_entries :: "string option \<Rightarrow> share_db \<Rightarrow> int \<Rightarrow> string \<Rightarrow> (int \<times> string \<times> int option) list" where
  "detail_entries m d u t =
     map (\<lambda>g. (gr_resource g, gr_perm g, Some (gr_by g))) (grants_of d t (user_group_ids m d u))
     @ (if t \<in> set namespace_scoped_types
        then concat (map (\<lambda>(i, k). case dict_get (granted_namespace_permissions m d u None) k of Some q \<Rightarrow> [(i, q, None)] | None \<Rightarrow> [])
               (rows_in d t (set (dict_keys (granted_namespace_permissions m d u None)))))
        else [])"

lemma access_details_eq:
  assumes "sharing_enabled m"
  shows "granted_access_details m d u t None None = fold add_detail (detail_entries m d u t) []"
proof -
  have "rows_in d t {} = []" by (auto simp: rows_in_def split: option.splits)
  then have e: "granted_namespace_permissions m d u None = [] \<Longrightarrow>
      rows_in d t (set (dict_keys (granted_namespace_permissions m d u None))) = []"
    by (simp add: dict_keys_def)
  show ?thesis
    using assms e
    by (auto simp: granted_access_details_def detail_entries_def or_perms_def Let_def or_groups_def memo_perms grants_of_def)
qed

lemma mapped_entry:
  "(\<exists>q b. (r, q, b) \<in> set (map (\<lambda>g. (f g, p g, h g)) gs) \<and> P q) \<longleftrightarrow> (\<exists>g \<in> set gs. f g = r \<and> P (p g))"
  by (induction gs) auto

lemma detail_entries_iff:
  assumes on: "sharing_enabled m" and items: "dict_ok (sd_items d)"
  shows "(\<exists>q by. (r, q, by) \<in> set (detail_entries m d u t) \<and> (perm = ''manage'' \<longrightarrow> q = ''manage''))
    \<longleftrightarrow> granted d u perm t r
      \<or> t \<in> set namespace_scoped_types
        \<and> (\<exists>x k q. dict_get (sd_items d) (t, r) = Some x \<and> it_space x = Some k
             \<and> dict_get (granted_namespace_permissions m d u None) k = Some q \<and> (perm = ''manage'' \<longrightarrow> q = ''manage''))"
    (is "?entry \<longleftrightarrow> _ \<or> _ \<and> ?space")
proof -
  let ?p = "granted_namespace_permissions m d u None"
  let ?es = "concat (map (\<lambda>(i, k). case dict_get ?p k of Some q \<Rightarrow> [(i, q, None :: int option)] | None \<Rightarrow> [])
    (rows_in d t (set (dict_keys ?p))))"
  have "(r, q, gb) \<in> set ?es \<longleftrightarrow> gb = None \<and> (\<exists>k. (r, k) \<in> set (rows_in d t (set (dict_keys ?p))) \<and> dict_get ?p k = Some q)"
    for q gb by (force split: option.splits)
  then have es: "(r, q, gb) \<in> set ?es \<longleftrightarrow> gb = None
      \<and> (\<exists>k x. dict_get (sd_items d) (t, r) = Some x \<and> it_space x = Some k \<and> dict_get ?p k = Some q)"
    if "t \<in> set namespace_scoped_types" for q gb
    using that by (auto simp: rows_in_iff[OF items that])
  have d: "(\<exists>q by. (r, q, by) \<in> set (map (\<lambda>g. (gr_resource g, gr_perm g, Some (gr_by g))) (grants_of d t (user_group_ids m d u)))
      \<and> (perm = ''manage'' \<longrightarrow> q = ''manage'')) \<longleftrightarrow> granted d u perm t r"
    unfolding granted_iff[OF on] using mapped_entry[of r gr_resource gr_perm "\<lambda>g. Some (gr_by g)"] by simp
  show ?thesis
  proof (cases "t \<in> set namespace_scoped_types")
    case False
    with d show ?thesis by (simp add: detail_entries_def)
  next
    case True
    have "?entry \<longleftrightarrow> granted d u perm t r \<or> (\<exists>q by. (r, q, by) \<in> set ?es \<and> (perm = ''manage'' \<longrightarrow> q = ''manage''))"
      unfolding d[symmetric] detail_entries_def using True by (simp only: if_True set_append Un_iff) blast
    also have "(\<exists>q by. (r, q, by) \<in> set ?es \<and> (perm = ''manage'' \<longrightarrow> q = ''manage'')) \<longleftrightarrow> ?space"
      unfolding es[OF True] by blast
    finally show ?thesis using True by simp
  qed
qed

lemma access_details_iff:
  assumes on: "sharing_enabled m" and items: "dict_ok (sd_items d)"
  shows "dict_get (granted_access_details m d u t None None) r \<noteq> None \<longleftrightarrow> r \<in> granted_resource_ids m d u t ''use'' None None"
    and "(\<exists>v. dict_get (granted_access_details m d u t None None) r = Some v \<and> fst v = ''manage'')
      \<longleftrightarrow> r \<in> granted_resource_ids m d u t ''manage'' None None"
proof -
  let ?es = "detail_entries m d u t" and ?p = "granted_namespace_permissions m d u None"
  let ?space = "\<lambda>P. t \<in> set namespace_scoped_types
    \<and> (\<exists>x k q. dict_get (sd_items d) (t, r) = Some x \<and> it_space x = Some k \<and> dict_get ?p k = Some q \<and> P q)"
  have ids: "r \<in> granted_resource_ids m d u t perm None None \<longleftrightarrow>
      granted d u perm t r \<or> ?space (\<lambda>q. perm = ''manage'' \<longrightarrow> q = ''manage'')" for perm
  proof (cases "t \<in> set namespace_scoped_types")
    case False
    with on show ?thesis by (simp add: granted_resource_ids_def direct_granted_ids_iff Let_def)
  next
    case True
    let ?ns = "expand_namespace_grants m d u perm None None"
    have ns: "k \<in> ?ns \<longleftrightarrow> (\<exists>q. dict_get ?p k = Some q \<and> (perm = ''manage'' \<longrightarrow> q = ''manage''))" for k
      using on by (force simp: expand_namespace_grants_def or_perms_def Let_def dict_get_in_iff[OF permissions_ok, symmetric]
          dict_keys_def)
    have "r \<in> set (map fst (rows_in d t ?ns)) \<longleftrightarrow> (\<exists>k. (r, k) \<in> set (rows_in d t ?ns))" by force
    also have "\<dots> \<longleftrightarrow> ?space (\<lambda>q. perm = ''manage'' \<longrightarrow> q = ''manage'')"
      unfolding rows_in_iff[OF items True] ns using True by blast
    finally have rows: "r \<in> set (map fst (rows_in d t ?ns)) \<longleftrightarrow> ?space (\<lambda>q. perm = ''manage'' \<longrightarrow> q = ''manage'')" .
    have "rows_in d t {} = []" by (auto simp: rows_in_def split: option.splits)
    with rows have empty: "?ns = {} \<Longrightarrow> \<not> ?space (\<lambda>q. perm = ''manage'' \<longrightarrow> q = ''manage'')" by simp
    have "r \<in> granted_resource_ids m d u t perm None None \<longleftrightarrow>
        granted d u perm t r \<or> ?ns \<noteq> {} \<and> r \<in> set (map fst (rows_in d t ?ns))"
      using on True by (simp add: granted_resource_ids_def direct_granted_ids_iff Let_def)
    with empty rows show ?thesis by blast
  qed
  have "dict_get (granted_access_details m d u t None None) r \<noteq> None \<longleftrightarrow> r \<in> fst ` set ?es"
    unfolding access_details_eq[OF on] domIff[symmetric] details.fold_dom by simp
  also have "\<dots> \<longleftrightarrow> (\<exists>q by. (r, q, by) \<in> set ?es)" by force
  finally show "dict_get (granted_access_details m d u t None None) r \<noteq> None \<longleftrightarrow> r \<in> granted_resource_ids m d u t ''use'' None None"
    using detail_entries_iff[OF on items, of r u t "''use''"] ids[of "''use''"] by simp
  have "(\<exists>v. dict_get (granted_access_details m d u t None None) r = Some v \<and> fst v = ''manage'')
      \<longleftrightarrow> (\<exists>e \<in> set ?es. fst e = r \<and> fst (snd e) = ''manage'')"
    unfolding access_details_eq[OF on] details.fold_top by simp
  also have "\<dots> \<longleftrightarrow> (\<exists>q by. (r, q, by) \<in> set ?es \<and> q = ''manage'')" by force
  finally show "(\<exists>v. dict_get (granted_access_details m d u t None None) r = Some v \<and> fst v = ''manage'')
      \<longleftrightarrow> r \<in> granted_resource_ids m d u t ''manage'' None None"
    using detail_entries_iff[OF on items, of r u t "''manage''"] ids[of "''manage''"] by simp
qed

lemma accessible_ids_eq:
  "accessible_ids m d (access_resolver m d p) t
   = own_ids d (pr_id p) t \<union> granted_resource_ids m d (pr_id p) t ''use'' None None"
  unfolding accessible_ids_def resolver_memo[of m d p t, symmetric] by (simp add: access_resolver_def Let_def)

lemma own_ids_iff:
  assumes "dict_ok (sd_spaces d)" and "dict_ok (sd_items d)"
  shows "r \<in> own_ids d u t \<longleftrightarrow> owner_of d t r = Some (Some u)"
proof -
  have "r \<in> own_ids d u t \<longleftrightarrow> (\<exists>sp. (r, Some u, sp) \<in> set (rows_of d t))" by (force simp: own_ids_def)
  then show ?thesis
    using items_rows[OF assms(2), of t r "Some u"] spaces_rows[OF assms(1), of r "Some u"]
    by (cases "t = ''catalog_namespace''") (auto simp: owner_of_def)
qed

text \<open>
  C19: For a user to whom sharing applies (not an administrator, not the internal service, and with sharing enabled), the
  ids of the list endpoints, the filter of the queries, the access marks and the single checks agree on every resource
  that exists. For the others the checks say yes to everything, and the lists are not claimed to agree.
\<close>

theorem access_views_agree:
  assumes "two_levels d" and items: "dict_ok (sd_items d)" and ow: "owner_of d t r = Some ow"
    and restricted: "ar_restricted (access_resolver m d p)"
  shows "(r \<in> accessible_ids m d (access_resolver m d p) t \<longleftrightarrow> resolver_can_use m d (access_resolver m d p) t r None)
    \<and> (r \<in> accessible_filter m d (pr_id p) t perm \<longleftrightarrow> has_access m d p t r None perm)
    \<and> (dict_get (granted_access_details m d (pr_id p) t None None) r \<noteq> None \<or> ow = Some (pr_id p)
      \<longleftrightarrow> can_use m d p t r None)
    \<and> ((\<exists>v. dict_get (granted_access_details m d (pr_id p) t None None) r = Some v \<and> fst v = ''manage'') \<or> ow = Some (pr_id p)
      \<longleftrightarrow> can_manage m d p t r None)"
proof (intro conjI)
  from restricted have p: "sharing_enabled m" "\<not> pr_admin p" "\<not> is_synthetic_principal p"
    by (simp_all add: access_resolver_def Let_def)
  from assms(1) have sp: "dict_ok (sd_spaces d)" by (simp add: two_levels_def)
  have access: "has_access m d p t r None q \<longleftrightarrow> ow = Some (pr_id p) \<or> r \<in> granted_resource_ids m d (pr_id p) t q None None" for q
    using p ow by (simp add: has_access_def resolve_owner[OF sp items])
  show "r \<in> accessible_ids m d (access_resolver m d p) t \<longleftrightarrow> resolver_can_use m d (access_resolver m d p) t r None"
    using restricted ow access[of "''use''"]
    by (simp add: accessible_ids_eq own_ids_iff[OF sp items] resolver_can_use_def can_use_def) (simp add: access_resolver_def Let_def)
  have row: "(\<exists>sp. (r, ow', sp) \<in> set (rows_of d t)) \<longleftrightarrow> ow' = ow" for ow'
    using ow items_rows[OF items, of t r ow'] spaces_rows[OF sp, of r ow']
    by (cases "t = ''catalog_namespace''") (auto simp: owner_of_def)
  have rows: "(\<exists>ow' sp. (r, ow', sp) \<in> set (rows_of d t) \<and> P ow') \<longleftrightarrow> P ow" for P
  proof -
    have "(\<exists>ow' sp. (r, ow', sp) \<in> set (rows_of d t) \<and> P ow') \<longleftrightarrow> (\<exists>ow'. (\<exists>sp. (r, ow', sp) \<in> set (rows_of d t)) \<and> P ow')"
      by blast
    then show ?thesis unfolding row by simp
  qed
  have "r \<in> accessible_filter m d (pr_id p) t perm \<longleftrightarrow>
      (\<exists>ow' sp. (r, ow', sp) \<in> set (rows_of d t) \<and> (ow' = Some (pr_id p) \<or> r \<in> granted_resource_ids m d (pr_id p) t perm None None))"
    by (force simp: accessible_filter_def Let_def)
  then show "r \<in> accessible_filter m d (pr_id p) t perm \<longleftrightarrow> has_access m d p t r None perm"
    using rows[of "\<lambda>ow'. ow' = Some (pr_id p) \<or> r \<in> granted_resource_ids m d (pr_id p) t perm None None"] access by simp
  show "dict_get (granted_access_details m d (pr_id p) t None None) r \<noteq> None \<or> ow = Some (pr_id p) \<longleftrightarrow> can_use m d p t r None"
    unfolding access_details_iff(1)[OF p(1) items] can_use_def access by blast
  show "(\<exists>v. dict_get (granted_access_details m d (pr_id p) t None None) r = Some v \<and> fst v = ''manage'') \<or> ow = Some (pr_id p)
      \<longleftrightarrow> can_manage m d p t r None"
    unfolding access_details_iff(2)[OF p(1) items] can_manage_def access by blast
qed

section \<open>A sample\<close>

text \<open>An administrator, three users, a group of two of them, and a namespace that is shared with the group.\<close>

definition sample_user :: "string \<Rightarrow> bool \<Rightarrow> user_row" where
  "sample_user n admin =
     \<lparr>us_name = n, us_email = n @ ''@flowfile.app'', us_full = None, us_hash = ''#'', us_disabled = False, us_admin = admin,
      us_must_change = False\<rparr>"

definition sample_share :: share_db where
  "sample_share =
     \<lparr>sd_users = [(1, sample_user ''root'' True), (2, sample_user ''alice'' False), (3, sample_user ''bob'' False),
                  (4, sample_user ''carol'' False)],
      sd_groups = [(1, \<lparr>gp_name = ''team'', gp_description = None, gp_creator = 1\<rparr>)],
      sd_members = [\<lparr>mb_group = 1, mb_user = 2, mb_role = ''owner''\<rparr>, \<lparr>mb_group = 1, mb_user = 3, mb_role = ''member''\<rparr>],
      sd_grants = [\<lparr>gr_id = 1, gr_type = ''catalog_namespace'', gr_resource = 1, gr_group = 1, gr_perm = ''use'', gr_by = 4\<rparr>],
      sd_spaces = [(1, \<lparr>ns_name = ''Sales'', ns_parent = None, ns_level = 0, ns_description = None, ns_owner = 4,
                        ns_public = False, ns_uri = None, ns_conn = None\<rparr>),
                   (2, \<lparr>ns_name = ''raw'', ns_parent = Some 1, ns_level = 1, ns_description = None, ns_owner = 4,
                        ns_public = False, ns_uri = None, ns_conn = None\<rparr>)],
      sd_items = [((''catalog_table'', 1), \<lparr>it_owner = Some 4, it_space = Some 2, it_name = ''t'', it_text = ''physical''\<rparr>),
                  ((''secret'', 1), \<lparr>it_owner = Some 2, it_space = None, it_name = ''key'', it_text = ''x''\<rparr>)]\<rparr>"

theorem access_is_as_stated_witness:
  "can_use (Some ''docker'') sample_share \<lparr>pr_id = 3, pr_name = ''bob'', pr_admin = False\<rparr> ''catalog_table'' 1 None
   \<and> \<not> can_manage (Some ''docker'') sample_share \<lparr>pr_id = 3, pr_name = ''bob'', pr_admin = False\<rparr> ''catalog_table'' 1 None"
proof -
  have ok: "two_levels sample_share" "dict_ok (sd_items sample_share)" by code_simp+
  have "may (Some ''docker'') sample_share \<lparr>pr_id = 3, pr_name = ''bob'', pr_admin = False\<rparr> ''use'' ''catalog_table'' 1 (Some 4)"
    "\<not> may (Some ''docker'') sample_share \<lparr>pr_id = 3, pr_name = ''bob'', pr_admin = False\<rparr> ''manage'' ''catalog_table'' 1 (Some 4)"
    "owner_of sample_share ''catalog_table'' 1 = Some (Some 4)"
    by code_simp+
  then show ?thesis
    using access_is_as_stated[OF ok, of "Some ''docker''" "\<lparr>pr_id = 3, pr_name = ''bob'', pr_admin = False\<rparr>" "''catalog_table''" 1]
    by simp
qed

theorem access_views_agree_witness:
  "1 \<in> accessible_ids (Some ''docker'') sample_share
     (access_resolver (Some ''docker'') sample_share \<lparr>pr_id = 3, pr_name = ''bob'', pr_admin = False\<rparr>) ''catalog_table''"
proof -
  let ?p = "\<lparr>pr_id = 3, pr_name = ''bob'', pr_admin = False\<rparr> :: principal"
  have ok: "two_levels sample_share" "dict_ok (sd_items sample_share)" "owner_of sample_share ''catalog_table'' 1 = Some (Some 4)"
    "ar_restricted (access_resolver (Some ''docker'') sample_share ?p)" by code_simp+
  have "resolver_can_use (Some ''docker'') sample_share (access_resolver (Some ''docker'') sample_share ?p) ''catalog_table'' 1 None"
    by code_simp
  with access_views_agree[OF ok] show ?thesis by blast
qed

end
