(* ===== verification/Namespaces.thy ===== *)
theory Namespaces
  imports Sharing
begin

text \<open>
  The namespaces of the catalog: \<open>catalog/services/namespaces.py\<close>, the queries of \<open>catalog/repository.py\<close> it
  uses, and the checks that \<open>catalog/service.py\<close> puts before it. A catalog has level 0 and may name an object
  storage; a schema has level 1, belongs to a catalog and inherits its storage.

  The cloud connections of a user are the argument \<open>cloud\<close>: the provider of the connection with a name, or
  \<open>None\<close>. The text of a table row is its type. The mirror of a namespace in a project is not modelled.
\<close>

datatype space_error =
    NamespaceNotFound int
  | NamespaceExists string "int option"
  | NestingLimit int int
  | NamespaceNotEmpty int nat nat nat nat
  | InvalidStorage string
  | StorageLocked int nat
  | NotAuthorized int string
  | BadName string
  | IntegrityError

definition need :: "bool \<Rightarrow> space_error \<Rightarrow> space_error + 'a \<Rightarrow> space_error + 'a" where
  "need b e k = (if b then k else Inl e)"

lemma need_Inr [simp]: "need b e k = Inr x \<longleftrightarrow> b \<and> k = Inr x"
  by (simp add: need_def)

section \<open>Storage\<close>

definition cloud_uri_schemes :: "string list" where
  "cloud_uri_schemes =
     [''s3://'', ''s3a://'', ''az://'', ''abfs://'', ''abfss://'', ''adl://'', ''gs://'', ''gcs://'']"

definition is_cloud_uri :: "string \<Rightarrow> bool" where
  "is_cloud_uri s \<longleftrightarrow> list_ex (startswith s) cloud_uri_schemes"

definition storage_scheme_provider :: "(string \<times> string) list" where
  "storage_scheme_provider =
     [(''s3'', ''s3''), (''s3a'', ''s3''), (''gs'', ''gcs''), (''gcs'', ''gcs''), (''az'', ''adls''), (''abfs'', ''adls''),
      (''abfss'', ''adls''), (''adl'', ''adls'')]"

text \<open>\<open>uri.split("://", 1)[0]\<close>; a URI that passed the check before is lower case up to here.\<close>

fun uri_scheme :: "string \<Rightarrow> string" where
  "uri_scheme [] = []"
| "uri_scheme (c # cs) = (if startswith (c # cs) ''://'' then [] else c # uri_scheme cs)"

definition lower :: "string \<Rightarrow> string" where
  "lower s = map (\<lambda>c. if c \<in> set ''ABCDEFGHIJKLMNOPQRSTUVWXYZ'' then char_of (of_char c + (32 :: nat)) else c) s"

abbreviation filled :: "string option \<Rightarrow> bool" where
  "filled s \<equiv> s \<noteq> None \<and> s \<noteq> Some []"

text \<open>\<open>None\<close> when the storage is valid.\<close>

definition validate_namespace_storage ::
  "(string \<Rightarrow> int \<Rightarrow> string option) \<Rightarrow> int \<Rightarrow> string option \<Rightarrow> string option \<Rightarrow> space_error option" where
  "validate_namespace_storage cloud owner uri conn =
     (if \<not> filled uri
      then (if filled conn then Some (InvalidStorage ''storage_connection_name requires storage_uri to be set.'') else None)
      else if \<not> is_cloud_uri (the uri) then Some (InvalidStorage ''storage_uri must be an object-storage URI'')
      else if \<not> filled conn then Some (InvalidStorage ''storage_uri requires a storage_connection_name.'')
      else (case cloud (the conn) owner of
              None \<Rightarrow> Some (InvalidStorage ''Cloud connection was not found or is not accessible for the catalog owner.'')
            | Some provider \<Rightarrow>
                (case map_of storage_scheme_provider (lower (uri_scheme (the uri))) of
                   Some p \<Rightarrow> if provider \<noteq> p then Some (InvalidStorage ''storage_uri does not match connection'') else None
                 | None \<Rightarrow> None)))"

definition env_default_storage ::
  "(string \<Rightarrow> int \<Rightarrow> string option) \<Rightarrow> string option \<times> string option \<Rightarrow> int \<Rightarrow> string option \<times> string option" where
  "env_default_storage cloud env owner =
     (if \<not> filled (fst env) then (None, None)
      else case validate_namespace_storage cloud owner (fst env) (snd env) of Some e \<Rightarrow> (None, None) | None \<Rightarrow> env)"

section \<open>Queries\<close>

definition namespace_named :: "share_db \<Rightarrow> string \<Rightarrow> int option \<Rightarrow> (int \<times> namespace) option" where
  "namespace_named d name parent = find (\<lambda>(i, n). ns_name n = name \<and> ns_parent n = parent) (sd_spaces d)"

definition count_children :: "share_db \<Rightarrow> int \<Rightarrow> nat" where
  "count_children d i = length (filter (\<lambda>(j, n). ns_parent n = Some i) (sd_spaces d))"

definition count_in_namespace :: "share_db \<Rightarrow> string \<Rightarrow> int \<Rightarrow> nat" where
  "count_in_namespace d t i = length (filter (\<lambda>(j, ow, sp). sp = Some i) (rows_of d t))"

definition count_physical_tables_under_namespace :: "share_db \<Rightarrow> int \<Rightarrow> nat" where
  "count_physical_tables_under_namespace d i =
     (let ids = i # map fst (filter (\<lambda>(j, n). ns_parent n = Some i) (sd_spaces d)) in
      length (filter (\<lambda>((t, j), x). t = ''catalog_table'' \<and> (case it_space x of Some k \<Rightarrow> k \<in> set ids | None \<Rightarrow> False)
                \<and> it_text x = ''physical'') (sd_items d)))"

text \<open>Walking to the root: every id is followed once.\<close>

function root_from :: "(int, namespace) dict \<Rightarrow> int list \<Rightarrow> int \<Rightarrow> (int \<times> namespace) option" where
  "root_from ns seen i =
     (case dict_get ns i of
        None \<Rightarrow> None
      | Some n \<Rightarrow>
          (case ns_parent n of
             None \<Rightarrow> Some (i, n)
           | Some k \<Rightarrow> if i \<in> set seen then Some (i, n) else root_from ns (i # seen) k))"
  by pat_completeness auto

termination
proof (relation "measure (\<lambda>(ns, seen, i). card (dom (map_of ns) - set seen))", goal_cases)
  case 1
  show ?case by simp
next
  case (2 ns seen i n k)
  then have "dom (map_of ns) - set (i # seen) \<subset> dom (map_of ns) - set seen" by auto
  then have "card (dom (map_of ns) - set (i # seen)) < card (dom (map_of ns) - set seen)"
    by (intro psubset_card_mono) (simp_all add: finite_dom_map_of)
  then show ?case by simp
qed

declare root_from.simps [simp del]

definition get_root_namespace :: "share_db \<Rightarrow> int \<Rightarrow> (int \<times> namespace) option" where
  "get_root_namespace d i = root_from (sd_spaces d) [] i"

definition get_effective_storage :: "share_db \<Rightarrow> int option \<Rightarrow> (string \<times> string option \<times> int) option" where
  "get_effective_storage d i =
     (case i of
        None \<Rightarrow> None
      | Some j \<Rightarrow>
          (case get_root_namespace d j of
             None \<Rightarrow> None
           | Some (r, n) \<Rightarrow> if filled (ns_uri n) then Some (the (ns_uri n), ns_conn n, ns_owner n) else None))"

definition resolve_namespace_id_by_path :: "share_db \<Rightarrow> string option \<Rightarrow> string option \<Rightarrow> int option" where
  "resolve_namespace_id_by_path d cat schema =
     (if \<not> filled cat then None
      else case namespace_named d (the cat) None of
             None \<Rightarrow> None
           | Some (i, n) \<Rightarrow>
               if \<not> filled schema then Some i else map_option fst (namespace_named d (the schema) (Some i)))"

section \<open>Operations\<close>

definition create_namespace ::
  "(string \<Rightarrow> int \<Rightarrow> string option) \<Rightarrow> string option \<times> string option \<Rightarrow> string \<Rightarrow> int \<Rightarrow> int option \<Rightarrow> string option
     \<Rightarrow> string option \<Rightarrow> string option \<Rightarrow> share_db \<Rightarrow> space_error + share_db" where
  "create_namespace cloud env name owner parent desc uri conn d =
     need (CHR ''.'' \<notin> set name) (BadName name)
       (let insert_row = (\<lambda>level.
              need (namespace_named d name parent = None) (NamespaceExists name parent)
                (let explicit = (uri \<noteq> None \<or> conn \<noteq> None);
                     row = (\<lambda>st. Inr (d\<lparr>sd_spaces := dict_set (next_row_id (dict_keys (sd_spaces d)))
                              \<lparr>ns_name = name, ns_parent = parent, ns_level = level, ns_description = desc,
                               ns_owner = owner, ns_public = False, ns_uri = fst st, ns_conn = snd st\<rparr> (sd_spaces d)\<rparr>)) in
                 if explicit
                 then need (level = 0) (InvalidStorage ''Per-catalog storage can only be set on a catalog (level-0 namespace).'')
                        (case validate_namespace_storage cloud owner uri conn of Some e \<Rightarrow> Inl e | None \<Rightarrow> row (uri, conn))
                 else if level = 0 then row (env_default_storage cloud env owner)
                 else row (uri, conn))) in
        case parent of
          None \<Rightarrow> insert_row 0
        | Some k \<Rightarrow>
            (case dict_get (sd_spaces d) k of
               None \<Rightarrow> Inl (NamespaceNotFound k)
             | Some pn \<Rightarrow> need (ns_level pn < 1) (NestingLimit k (ns_level pn)) (insert_row (ns_level pn + 1))))"

text \<open>
  An update; the storage arguments are \<open>None\<close> when they are omitted. The commit raises an
  \<open>IntegrityError\<close> when another schema of the catalog has the name; SQL does not compare missing parents.
\<close>

definition update_namespace ::
  "(string \<Rightarrow> int \<Rightarrow> string option) \<Rightarrow> int \<Rightarrow> string option \<Rightarrow> string option \<Rightarrow> string option option
     \<Rightarrow> string option option \<Rightarrow> share_db \<Rightarrow> space_error + share_db" where
  "update_namespace cloud i name desc uri conn d =
     (case dict_get (sd_spaces d) i of
        None \<Rightarrow> Inl (NamespaceNotFound i)
      | Some n \<Rightarrow>
          (let n1 = (case name of Some x \<Rightarrow> n\<lparr>ns_name := x\<rparr> | None \<Rightarrow> n);
               n2 = (case desc of Some x \<Rightarrow> n1\<lparr>ns_description := Some x\<rparr> | None \<Rightarrow> n1);
               save = (\<lambda>n'. need (\<not> (ns_parent n' \<noteq> None \<and> (\<exists>(j, o') \<in> set (sd_spaces d).
                                 j \<noteq> i \<and> ns_name o' = ns_name n' \<and> ns_parent o' = ns_parent n'))) IntegrityError
                         (Inr (d\<lparr>sd_spaces := dict_set i n' (sd_spaces d)\<rparr>))) in
           if uri = None \<and> conn = None then save n2
           else need (ns_level n = 0) (InvalidStorage ''Per-catalog storage can only be set on a catalog (level-0 namespace).'')
             (let new_uri = (case uri of None \<Rightarrow> ns_uri n | Some u \<Rightarrow> u);
                  new_conn = (if \<not> filled new_uri then None else (case conn of None \<Rightarrow> ns_conn n | Some c \<Rightarrow> c)) in
              if (new_uri, new_conn) = (ns_uri n, ns_conn n) then save n2
              else (let tables = count_physical_tables_under_namespace d i in
                    need (tables = 0) (StorageLocked i tables)
                      (case validate_namespace_storage cloud (ns_owner n) new_uri new_conn of
                         Some e \<Rightarrow> Inl e
                       | None \<Rightarrow> save (n2\<lparr>ns_uri := new_uri, ns_conn := new_conn\<rparr>))))))"

definition delete_namespace :: "int \<Rightarrow> share_db \<Rightarrow> space_error + share_db" where
  "delete_namespace i d =
     (case dict_get (sd_spaces d) i of
        None \<Rightarrow> Inl (NamespaceNotFound i)
      | Some n \<Rightarrow>
          (let c = count_children d i; f = count_in_namespace d ''flow'' i;
               t = count_in_namespace d ''catalog_table'' i; b = count_in_namespace d ''catalog_notebook'' i in
           need (c = 0 \<and> f = 0 \<and> t = 0 \<and> b = 0) (NamespaceNotEmpty i c f t b) (Inr (drop_space i d))))"

section \<open>The checks of the catalog service\<close>

text \<open>The resolver is \<open>None\<close> for internal callers.\<close>

definition restricted :: "resolver option \<Rightarrow> bool" where
  "restricted A \<longleftrightarrow> (case A of None \<Rightarrow> False | Some R \<Rightarrow> ar_restricted R)"

definition caller :: "resolver option \<Rightarrow> int" where
  "caller A = (case A of None \<Rightarrow> -1 | Some R \<Rightarrow> (if pr_id (ar_user R) = 0 then -1 else pr_id (ar_user R)))"

definition require_namespace_writable ::
  "string option \<Rightarrow> share_db \<Rightarrow> resolver option \<Rightarrow> int option \<Rightarrow> space_error + 'a \<Rightarrow> space_error + 'a" where
  "require_namespace_writable m d A i k =
     need (\<not> (restricted A \<and> (case i of None \<Rightarrow> False | Some j \<Rightarrow> j \<notin> writable_namespace_ids m d (the A))))
       (NotAuthorized (caller A) ''create items in this namespace'') k"

definition require_manage ::
  "string option \<Rightarrow> share_db \<Rightarrow> resolver option \<Rightarrow> string \<Rightarrow> int \<Rightarrow> space_error + 'a \<Rightarrow> space_error + 'a" where
  "require_manage m d A t r k =
     need (\<not> restricted A \<or> resolver_can_manage m d (the A) t r None) (NotAuthorized (caller A) (''modify this '' @ t)) k"

definition require_namespace_owner ::
  "share_db \<Rightarrow> resolver option \<Rightarrow> int \<Rightarrow> string \<Rightarrow> space_error + 'a \<Rightarrow> space_error + 'a" where
  "require_namespace_owner d A i what k =
     need (\<not> restricted A \<or> (case dict_get (sd_spaces d) i of None \<Rightarrow> False | Some n \<Rightarrow> ns_owner n = pr_id (ar_user (the A))))
       (NotAuthorized (caller A) (what @ '' this catalog'')) k"

definition service_create_namespace where
  "service_create_namespace m A cloud env name owner parent desc uri conn d =
     require_namespace_writable m d A parent (create_namespace cloud env name owner parent desc uri conn d)"

definition service_update_namespace where
  "service_update_namespace m A cloud i name desc uri conn d =
     require_manage m d A ''catalog_namespace'' i
       (let go = update_namespace cloud i name desc uri conn d in
        if uri \<noteq> None \<or> conn \<noteq> None then require_namespace_owner d A i ''change storage for'' go else go)"

definition service_delete_namespace where
  "service_delete_namespace m A i d = require_manage m d A ''catalog_namespace'' i (delete_namespace i d)"

section \<open>Two levels\<close>

text \<open>
  The invariant of the hierarchy: a catalog has level 0, a schema has level 1, an existing catalog as its
  parent and no storage of its own, and no two schemas of a catalog have the same name.
\<close>

definition space_ok :: "share_db \<Rightarrow> namespace \<Rightarrow> bool" where
  "space_ok d n \<longleftrightarrow>
     (case ns_parent n of
        None \<Rightarrow> ns_level n = 0
      | Some k \<Rightarrow> ns_level n = 1 \<and> ns_uri n = None \<and> ns_conn n = None
                   \<and> (case dict_get (sd_spaces d) k of None \<Rightarrow> False | Some n' \<Rightarrow> ns_parent n' = None))"

definition spaces_ok :: "share_db \<Rightarrow> bool" where
  "spaces_ok d \<longleftrightarrow>
     dict_ok (sd_spaces d) \<and> (\<forall>(i, n) \<in> set (sd_spaces d). space_ok d n)
     \<and> (\<forall>(i, n) \<in> set (sd_spaces d). \<forall>(j, n') \<in> set (sd_spaces d).
          ns_name n = ns_name n' \<and> ns_parent n = ns_parent n' \<and> ns_parent n \<noteq> None \<longrightarrow> i = j)"

lemma spaces_ok_iff:
  "spaces_ok d \<longleftrightarrow>
     dict_ok (sd_spaces d) \<and> (\<forall>i n. dict_get (sd_spaces d) i = Some n \<longrightarrow> space_ok d n)
     \<and> (\<forall>i n. dict_get (sd_spaces d) i = Some n \<longrightarrow> (\<forall>j n'. dict_get (sd_spaces d) j = Some n' \<longrightarrow>
          ns_name n = ns_name n' \<and> ns_parent n = ns_parent n' \<and> ns_parent n \<noteq> None \<longrightarrow> i = j))"
  by (cases "dict_ok (sd_spaces d)") (simp_all only: spaces_ok_def forall_dict simp_thms)

lemma spaces_ok_two_levels:
  assumes "spaces_ok d"
  shows "two_levels d"
proof -
  from assms have ok: "dict_ok (sd_spaces d)" and s: "\<And>i n. dict_get (sd_spaces d) i = Some n \<Longrightarrow> space_ok d n"
    by (simp_all add: spaces_ok_iff)
  have "case ns_parent n of None \<Rightarrow> True
      | Some k \<Rightarrow> (case dict_get (sd_spaces d) k of None \<Rightarrow> True | Some n' \<Rightarrow> ns_parent n' = None)"
    if "dict_get (sd_spaces d) i = Some n" for i n
    using s[OF that] by (auto simp: space_ok_def split: option.splits)
  with ok show ?thesis unfolding two_levels_def forall_dict[OF ok] by blast
qed

lemma spaces_ok_cong: "sd_spaces d' = sd_spaces d \<Longrightarrow> spaces_ok d' = spaces_ok d"
  by (simp add: spaces_ok_def space_ok_def cong: option.case_cong)

lemma find_NoneD: "find P xs = None \<Longrightarrow> x \<in> set xs \<Longrightarrow> \<not> P x"
  by (auto simp: find_None_iff)

lemma namespace_named_None:
  assumes "namespace_named d name parent = None" and "dict_get (sd_spaces d) i = Some n"
  shows "\<not> (ns_name n = name \<and> ns_parent n = parent)"
  using find_NoneD[OF assms(1)[unfolded namespace_named_def] map_of_SomeD[OF assms(2)]] by simp

text \<open>Writing one row keeps the invariant when the row is all right and nothing hangs below a new schema.\<close>

lemma spaces_ok_set:
  assumes ok: "spaces_ok d" and d': "d' = d\<lparr>sd_spaces := dict_set i n (sd_spaces d)\<rparr>"
    and old: "\<And>o'. dict_get (sd_spaces d) i = Some o' \<Longrightarrow> ns_parent o' = ns_parent n"
    and new: "dict_get (sd_spaces d) i = None \<Longrightarrow> ns_parent n \<noteq> Some i"
    and row: "space_ok d n"
    and name: "\<And>j o'. dict_get (sd_spaces d) j = Some o' \<Longrightarrow> j \<noteq> i \<Longrightarrow> ns_parent n \<noteq> None \<Longrightarrow>
      \<not> (ns_name o' = ns_name n \<and> ns_parent o' = ns_parent n)"
  shows "spaces_ok d'"
proof -
  have up: "space_ok d' x" if x: "space_ok d x" for x
  proof (cases "ns_parent x")
    case None
    with x show ?thesis by (simp add: space_ok_def)
  next
    case (Some k)
    with x obtain nk where "dict_get (sd_spaces d) k = Some nk" "ns_parent nk = None"
      by (auto simp: space_ok_def split: option.splits)
    with x Some old[of nk] show ?thesis by (auto simp: space_ok_def d')
  qed
  from ok have d: "dict_ok (sd_spaces d)" "\<And>j o'. dict_get (sd_spaces d) j = Some o' \<Longrightarrow> space_ok d o'"
    "\<And>j o' k p'. dict_get (sd_spaces d) j = Some o' \<Longrightarrow> dict_get (sd_spaces d) k = Some p' \<Longrightarrow>
       ns_name o' = ns_name p' \<and> ns_parent o' = ns_parent p' \<and> ns_parent o' \<noteq> None \<Longrightarrow> j = k"
    unfolding spaces_ok_iff by blast+
  have get: "dict_get (sd_spaces d') j = (if j = i then Some n else dict_get (sd_spaces d) j)" for j
    by (simp add: d')
  show ?thesis unfolding spaces_ok_iff
  proof (intro conjI allI impI)
    show "dict_ok (sd_spaces d')" using d(1) by (simp add: d')
    show "space_ok d' x" if "dict_get (sd_spaces d') j = Some x" for j x
      using that row d(2) by (auto simp: get split: if_splits intro: up)
    show "j = k" if "dict_get (sd_spaces d') j = Some x" "dict_get (sd_spaces d') k = Some y"
      and *: "ns_name x = ns_name y \<and> ns_parent x = ns_parent y \<and> ns_parent x \<noteq> None" for j x k y
    proof (cases "j = i \<or> k = i")
      case True
      from * have "ns_parent x \<noteq> None" by blast
      then obtain p where p: "ns_parent x = Some p" by blast
      from * p have "ns_parent y = Some p" by simp
      with True that name[of j x] name[of k y] show ?thesis by (auto simp: get split: if_splits)
    next
      case False
      with that have "dict_get (sd_spaces d) j = Some x" "dict_get (sd_spaces d) k = Some y" by (simp_all add: get)
      from d(3)[OF this *] show ?thesis .
    qed
  qed
qed

lemma spaces_ok_row: "spaces_ok d \<Longrightarrow> dict_get (sd_spaces d) i = Some n \<Longrightarrow> space_ok d n"
  unfolding spaces_ok_iff by blast

lemma spaces_ok_parent:
  assumes "spaces_ok d" and "dict_get (sd_spaces d) i = Some n" and "ns_parent n = Some k"
  obtains np where "dict_get (sd_spaces d) k = Some np" and "ns_parent np = None" and "ns_level np = 0"
    and "ns_level n = 1" and "ns_uri n = None" and "ns_conn n = None"
proof -
  from spaces_ok_row[OF assms(1,2)] assms(3) obtain np where np: "dict_get (sd_spaces d) k = Some np" "ns_parent np = None"
    "ns_level n = 1" "ns_uri n = None" "ns_conn n = None"
    by (cases "dict_get (sd_spaces d) k") (simp_all add: space_ok_def)
  moreover have "ns_level np = 0" using spaces_ok_row[OF assms(1) np(1)] np(2) by (simp add: space_ok_def)
  ultimately show ?thesis by (intro that)
qed

lemma spaces_ok_low:
  assumes "spaces_ok d" and "dict_get (sd_spaces d) i = Some n" and "ns_level n < 1"
  shows "ns_parent n = None" and "ns_level n = 0"
proof -
  show *: "ns_parent n = None"
    using spaces_ok_row[OF assms(1,2)] assms(3) by (cases "ns_parent n") (simp_all add: space_ok_def)
  show "ns_level n = 0" using spaces_ok_row[OF assms(1,2)] * by (simp add: space_ok_def)
qed

lemma root_two_levels:
  assumes ok: "spaces_ok d" and n: "dict_get (sd_spaces d) k = Some n"
  shows "get_root_namespace d k =
    (case ns_parent n of None \<Rightarrow> Some (k, n) | Some p \<Rightarrow> Some (p, the (dict_get (sd_spaces d) p)))"
proof (cases "ns_parent n")
  case None
  with n show ?thesis by (simp add: get_root_namespace_def root_from.simps[of _ _ k])
next
  case (Some p)
  from spaces_ok_parent[OF ok n this] obtain np where "dict_get (sd_spaces d) p = Some np" "ns_parent np = None" .
  with n Some show ?thesis by (simp add: get_root_namespace_def root_from.simps[of _ _ k] root_from.simps[of _ _ p])
qed

lemma create_namespace_cases:
  assumes "create_namespace cloud env name owner parent desc uri conn d = Inr d'" and ok: "spaces_ok d"
  obtains n where "d' = d\<lparr>sd_spaces := dict_set (next_row_id (dict_keys (sd_spaces d))) n (sd_spaces d)\<rparr>"
    and "ns_parent n = parent" and "ns_name n = name" and "ns_owner n = owner" and "\<not> ns_public n"
    and "namespace_named d name parent = None"
    and "parent = None \<longrightarrow> ns_level n = 0"
    and "\<forall>k. parent = Some k \<longrightarrow> ns_uri n = None \<and> ns_conn n = None \<and>
      (\<exists>np. dict_get (sd_spaces d) k = Some np \<and> ns_parent np = None \<and> ns_level n = 1)"
proof (cases parent)
  case None
  with assms show ?thesis
    by (auto simp: create_namespace_def Let_def split: if_splits option.splits prod.splits intro!: that)
next
  case (Some k)
  from Some assms(1) obtain np where np: "dict_get (sd_spaces d) k = Some np" "ns_level np < 1"
    by (auto simp: create_namespace_def split: option.splits)
  have 0: "ns_parent np = None" "ns_level np = 0" using spaces_ok_low[OF ok np] by simp_all
  from Some assms(1) np(1) 0(2) have "namespace_named d name (Some k) = None"
    and d': "d' = d\<lparr>sd_spaces := dict_set (next_row_id (dict_keys (sd_spaces d)))
          \<lparr>ns_name = name, ns_parent = Some k, ns_level = 1, ns_description = desc, ns_owner = owner,
           ns_public = False, ns_uri = None, ns_conn = None\<rparr> (sd_spaces d)\<rparr>"
    by (simp_all add: create_namespace_def Let_def split: if_splits)
  with Some np(1) 0(1) show ?thesis by (intro that[OF d']) simp_all
qed

definition saved_row :: "share_db \<Rightarrow> int \<Rightarrow> namespace \<Rightarrow> share_db \<Rightarrow> bool" where
  "saved_row d i n' d' \<longleftrightarrow>
     d' = d\<lparr>sd_spaces := dict_set i n' (sd_spaces d)\<rparr>
     \<and> \<not> (ns_parent n' \<noteq> None \<and> (\<exists>(j, o') \<in> set (sd_spaces d).
            j \<noteq> i \<and> ns_name o' = ns_name n' \<and> ns_parent o' = ns_parent n'))"

lemma update_namespace_saved:
  assumes "update_namespace cloud i name desc uri conn d = Inr d'"
  obtains n n' where "dict_get (sd_spaces d) i = Some n" and "saved_row d i n' d'"
    and "ns_parent n' = ns_parent n" and "ns_level n' = ns_level n" and "ns_owner n' = ns_owner n"
    and "ns_public n' = ns_public n"
    and "ns_uri n' = ns_uri n \<and> ns_conn n' = ns_conn n
      \<or> ns_level n = 0 \<and> count_physical_tables_under_namespace d i = 0"
proof -
  from assms obtain n where n: "dict_get (sd_spaces d) i = Some n" by (auto simp: update_namespace_def split: option.splits)
  define n2 where "n2 = (let n1 = (case name of Some x \<Rightarrow> n\<lparr>ns_name := x\<rparr> | None \<Rightarrow> n) in
    case desc of Some x \<Rightarrow> n1\<lparr>ns_description := Some x\<rparr> | None \<Rightarrow> n1)"
  have f: "ns_parent n2 = ns_parent n" "ns_level n2 = ns_level n" "ns_owner n2 = ns_owner n" "ns_public n2 = ns_public n"
    "ns_uri n2 = ns_uri n" "ns_conn n2 = ns_conn n"
    by (simp_all add: n2_def Let_def split: option.splits)
  show thesis
  proof (cases "saved_row d i n2 d'")
    case True
    from that[OF n this] f show ?thesis by simp
  next
    case False
    with assms n obtain u c where row: "saved_row d i (n2\<lparr>ns_uri := u, ns_conn := c\<rparr>) d'" and low: "ns_level n = 0"
      and "count_physical_tables_under_namespace d i = 0"
      by (auto simp: update_namespace_def Let_def n2_def[unfolded Let_def, symmetric] saved_row_def
          split: if_splits option.splits)
    with that[OF n row] f show ?thesis by simp
  qed
qed

lemma delete_namespace_cases:
  assumes "delete_namespace i d = Inr d'"
  obtains n where "dict_get (sd_spaces d) i = Some n" and "d' = drop_space i d" and "count_children d i = 0"
    and "count_in_namespace d ''flow'' i = 0" and "count_in_namespace d ''catalog_table'' i = 0"
    and "count_in_namespace d ''catalog_notebook'' i = 0"
  using assms by (auto simp: delete_namespace_def Let_def split: option.splits)

inductive namespace_step ::
  "(string \<Rightarrow> int \<Rightarrow> string option) \<Rightarrow> string option \<times> string option \<Rightarrow> share_db \<Rightarrow> share_db \<Rightarrow> bool"
  for cloud env where
  create: "create_namespace cloud env name owner parent desc uri conn d = Inr d' \<Longrightarrow> namespace_step cloud env d d'"
| update: "update_namespace cloud i name desc uri conn d = Inr d' \<Longrightarrow> namespace_step cloud env d d'"
| delete: "delete_namespace i d = Inr d' \<Longrightarrow> namespace_step cloud env d d'"

lemma create_keeps_spaces:
  assumes "create_namespace cloud env name owner parent desc uri conn d = Inr d'" and ok: "spaces_ok d"
  shows "spaces_ok d'"
proof -
  let ?i = "next_row_id (dict_keys (sd_spaces d))"
  from assms obtain n where d': "d' = d\<lparr>sd_spaces := dict_set ?i n (sd_spaces d)\<rparr>"
    and n: "ns_parent n = parent" "ns_name n = name" and "ns_owner n = owner" and "\<not> ns_public n"
    and named: "namespace_named d name parent = None"
    and root: "parent = None \<longrightarrow> ns_level n = 0"
    and schema: "\<forall>k. parent = Some k \<longrightarrow> ns_uri n = None \<and> ns_conn n = None \<and>
      (\<exists>np. dict_get (sd_spaces d) k = Some np \<and> ns_parent np = None \<and> ns_level n = 1)"
    by (rule create_namespace_cases)
  have new: "dict_get (sd_spaces d) ?i = None" by (rule next_row_id_new)
  show ?thesis
  proof (rule spaces_ok_set[OF ok d'])
    show "ns_parent o' = ns_parent n" if "dict_get (sd_spaces d) ?i = Some o'" for o' using that new by simp
    show "ns_parent n \<noteq> Some ?i" using schema n(1) new by auto
    show "space_ok d n" using root schema n(1) by (cases parent) (fastforce simp: space_ok_def)+
    show "\<not> (ns_name o' = ns_name n \<and> ns_parent o' = ns_parent n)" if "dict_get (sd_spaces d) j = Some o'" for j o'
      using namespace_named_None[OF named that] n by simp
  qed
qed

lemma update_keeps_spaces:
  assumes "update_namespace cloud i name desc uri conn d = Inr d'" and ok: "spaces_ok d"
  shows "spaces_ok d'"
proof -
  from assms(1) obtain n n' where n: "dict_get (sd_spaces d) i = Some n" and s: "saved_row d i n' d'"
    and f: "ns_parent n' = ns_parent n" "ns_level n' = ns_level n"
    and st: "ns_uri n' = ns_uri n \<and> ns_conn n' = ns_conn n \<or> ns_level n = 0 \<and> count_physical_tables_under_namespace d i = 0"
    by (rule update_namespace_saved)
  from s have d': "d' = d\<lparr>sd_spaces := dict_set i n' (sd_spaces d)\<rparr>" by (simp add: saved_row_def)
  show ?thesis
  proof (rule spaces_ok_set[OF ok d'])
    show "ns_parent o' = ns_parent n'" if "dict_get (sd_spaces d) i = Some o'" for o' using that n f by simp
    show "ns_parent n' \<noteq> Some i" if "dict_get (sd_spaces d) i = None" using that n by simp
    show "space_ok d n'"
      using spaces_ok_row[OF ok n] f st by (cases "ns_parent n") (auto simp: space_ok_def)
    show "\<not> (ns_name o' = ns_name n' \<and> ns_parent o' = ns_parent n')"
      if "dict_get (sd_spaces d) j = Some o'" "j \<noteq> i" "ns_parent n' \<noteq> None" for j o'
      using s that map_of_SomeD[OF that(1)] by (force simp: saved_row_def)
  qed
qed

lemma count_children_0:
  assumes "count_children d i = 0" and "dict_get (sd_spaces d) j = Some n"
  shows "ns_parent n \<noteq> Some i"
  using assms(1) map_of_SomeD[OF assms(2)] by (force simp: count_children_def filter_empty_conv)

lemma drop_space_fields [simp]:
  "sd_spaces (drop_space i d) = dict_pop i (sd_spaces d)" "sd_items (drop_space i d) = sd_items d"
  "sd_users (drop_space i d) = sd_users d" "sd_groups (drop_space i d) = sd_groups d"
  "sd_members (drop_space i d) = sd_members d"
  "sd_grants (drop_space i d) = filter (\<lambda>g. \<not> (gr_type g = ''catalog_namespace'' \<and> gr_resource g = i)) (sd_grants d)"
  by (simp_all add: drop_space_def delete_grants_for_resource_def)

lemma delete_keeps_spaces:
  assumes "delete_namespace i d = Inr d'" and ok: "spaces_ok d"
  shows "spaces_ok d'"
proof -
  from assms(1) have d': "d' = drop_space i d" and c: "count_children d i = 0" by (auto elim: delete_namespace_cases)
  have get: "dict_get (sd_spaces d') j = (if j = i then None else dict_get (sd_spaces d) j)" for j by (simp add: d')
  have "space_ok d' n" if "dict_get (sd_spaces d') j = Some n" for j n
  proof -
    from that have n: "dict_get (sd_spaces d) j = Some n" by (simp add: get split: if_splits)
    from spaces_ok_row[OF ok n] count_children_0[OF c n] show ?thesis
      by (cases "ns_parent n") (auto simp: space_ok_def d')
  qed
  moreover have "dict_ok (sd_spaces d')" using ok by (simp add: d' spaces_ok_iff)
  ultimately show ?thesis
    using ok unfolding spaces_ok_iff get by (metis option.distinct(1))
qed

lemma step_keeps_spaces: "namespace_step cloud env d d' \<Longrightarrow> spaces_ok d \<Longrightarrow> spaces_ok d'"
  by (induction rule: namespace_step.induct) (auto intro: create_keeps_spaces update_keeps_spaces delete_keeps_spaces)

section \<open>The storage of a table does not move\<close>

text \<open>Every table lives in a namespace that exists.\<close>

definition tables_housed :: "share_db \<Rightarrow> bool" where
  "tables_housed d \<longleftrightarrow>
     (\<forall>((t, j), x) \<in> set (sd_items d). t = ''catalog_table'' \<longrightarrow>
        (case it_space x of None \<Rightarrow> True | Some k \<Rightarrow> dict_get (sd_spaces d) k \<noteq> None))"

definition physical_table :: "share_db \<Rightarrow> int \<Rightarrow> item \<Rightarrow> bool" where
  "physical_table d j x \<longleftrightarrow> ((''catalog_table'', j), x) \<in> set (sd_items d) \<and> it_text x = ''physical''"

lemma namespace_step_items:
  "namespace_step cloud env d d' \<Longrightarrow> sd_items d' = sd_items d"
proof (induction rule: namespace_step.induct)
  case (create name owner parent desc uri conn d d')
  then show ?case by (auto simp: create_namespace_def Let_def split: option.splits if_splits)
next
  case (update i name desc uri conn d d')
  then show ?case by (rule update_namespace_saved) (simp add: saved_row_def)
next
  case (delete i d d')
  then show ?case by (auto elim!: delete_namespace_cases)
qed

lemma counted_table:
  assumes "physical_table d j x" and "it_space x = Some k"
    and "k = i \<or> (\<exists>n. dict_get (sd_spaces d) k = Some n \<and> ns_parent n = Some i)"
  shows "count_physical_tables_under_namespace d i \<noteq> 0"
proof -
  have "k = i \<or> (k \<in> fst ` set (filter (\<lambda>(j, n). ns_parent n = Some i) (sd_spaces d)))"
    using assms(3) by (force dest: map_of_SomeD)
  with assms(1,2) show ?thesis
    by (force simp: count_physical_tables_under_namespace_def Let_def physical_table_def filter_empty_conv)
qed

lemma uncounted_namespace:
  assumes "count_in_namespace d ''catalog_table'' i = 0" and "((''catalog_table'', j), x) \<in> set (sd_items d)"
  shows "it_space x \<noteq> Some i"
  using assms by (force simp: count_in_namespace_def rows_of_def filter_empty_conv)

lemma effective_storage_row:
  assumes "spaces_ok d" and "dict_get (sd_spaces d) k = Some n"
    and root: "rt = (case ns_parent n of None \<Rightarrow> n | Some p \<Rightarrow> the (dict_get (sd_spaces d) p))"
  shows "get_effective_storage d (Some k) = (if filled (ns_uri rt) then Some (the (ns_uri rt), ns_conn rt, ns_owner rt) else None)"
  using root_two_levels[OF assms(1,2)] root by (cases "ns_parent n") (simp_all add: get_effective_storage_def)

lemma same_storage:
  assumes "spaces_ok d" and "spaces_ok d'" and k: "dict_get (sd_spaces d) k = Some n" "dict_get (sd_spaces d') k = Some n"
    and "\<And>p. ns_parent n = Some p \<Longrightarrow> dict_get (sd_spaces d') p = dict_get (sd_spaces d) p"
  shows "get_effective_storage d' (Some k) = get_effective_storage d (Some k)"
  unfolding effective_storage_row[OF assms(1) k(1) refl] effective_storage_row[OF assms(2) k(2) refl]
  using assms(5) by (cases "ns_parent n") simp_all

text \<open>A row that is written back with the same storage, or whose catalog holds no physical table.\<close>

lemma set_keeps_storage:
  assumes ok: "spaces_ok d" "spaces_ok d'" and d': "d' = d\<lparr>sd_spaces := dict_set i n' (sd_spaces d)\<rparr>"
    and n: "dict_get (sd_spaces d) i = Some n" and f: "ns_parent n' = ns_parent n" "ns_owner n' = ns_owner n"
    and st: "ns_uri n' = ns_uri n \<and> ns_conn n' = ns_conn n \<or> count_physical_tables_under_namespace d i = 0"
    and x: "physical_table d j x" "it_space x = Some k" and k: "dict_get (sd_spaces d) k = Some nk"
  shows "get_effective_storage d' (Some k) = get_effective_storage d (Some k)"
proof -
  let ?root = "\<lambda>e m. case ns_parent m of None \<Rightarrow> m | Some p \<Rightarrow> the (dict_get (sd_spaces e) p)"
  let ?nk = "if k = i then n' else nk"
  have k': "dict_get (sd_spaces d') k = Some ?nk" using k by (simp add: d')
  have same: "ns_uri (?root d' ?nk) = ns_uri (?root d nk) \<and> ns_conn (?root d' ?nk) = ns_conn (?root d nk)
      \<and> ns_owner (?root d' ?nk) = ns_owner (?root d nk)"
  proof (cases "k = i \<or> ns_parent nk = Some i")
    case True
    then have "count_physical_tables_under_namespace d i \<noteq> 0" using k by (intro counted_table[OF x]) auto
    with st have "ns_uri n' = ns_uri n \<and> ns_conn n' = ns_conn n" by simp
    with True k n f show ?thesis by (auto simp: d' split: option.splits)
  next
    case False
    then show ?thesis by (auto simp: d' split: option.splits)
  qed
  show ?thesis
    unfolding effective_storage_row[OF ok(1) k refl] effective_storage_row[OF ok(2) k' refl] using same by simp
qed

lemma step_keeps_storage:
  assumes "namespace_step cloud env d d'" and ok: "spaces_ok d" and housed: "tables_housed d"
    and x: "physical_table d j x"
  shows "get_effective_storage d' (it_space x) = get_effective_storage d (it_space x)" and "tables_housed d'"
proof -
  have ok': "spaces_ok d'" using step_keeps_spaces[OF assms(1) ok] .
  have row: "dict_get (sd_spaces d) k \<noteq> None" if "((''catalog_table'', i), y) \<in> set (sd_items d)" "it_space y = Some k" for i y k
    using housed that by (fastforce simp: tables_housed_def)
  have housed': "tables_housed d'"
    if "\<And>i y k. ((''catalog_table'', i), y) \<in> set (sd_items d) \<Longrightarrow> it_space y = Some k \<Longrightarrow> dict_get (sd_spaces d') k \<noteq> None"
    using that unfolding tables_housed_def namespace_step_items[OF assms(1)] by (auto split: option.splits)
  have "get_effective_storage d' (it_space x) = get_effective_storage d (it_space x) \<and> tables_housed d'"
    using assms(1)
  proof (cases rule: namespace_step.cases)
    case (create name owner parent desc uri conn)
    let ?i = "next_row_id (dict_keys (sd_spaces d))"
    from create ok obtain n where d': "d' = d\<lparr>sd_spaces := dict_set ?i n (sd_spaces d)\<rparr>"
      by (rule create_namespace_cases)
    have new: "dict_get (sd_spaces d) ?i = None" by (rule next_row_id_new)
    have "get_effective_storage d' (Some k) = get_effective_storage d (Some k)" if k: "it_space x = Some k" for k
    proof -
      from row[of j x k] x k obtain nk where nk: "dict_get (sd_spaces d) k = Some nk" by (auto simp: physical_table_def)
      with new have "k \<noteq> ?i" by auto
      with nk have nk': "dict_get (sd_spaces d') k = Some nk" by (simp add: d')
      have "dict_get (sd_spaces d') p = dict_get (sd_spaces d) p" if "ns_parent nk = Some p" for p
      proof -
        from spaces_ok_parent[OF ok nk that] obtain np where "dict_get (sd_spaces d) p = Some np" .
        with new have "p \<noteq> ?i" by auto
        then show ?thesis by (simp add: d')
      qed
      then show ?thesis by (rule same_storage[OF ok ok' nk nk'])
    qed
    moreover have "tables_housed d'" by (rule housed') (use row in \<open>simp add: d'\<close>)
    ultimately show ?thesis by (cases "it_space x") (simp_all add: get_effective_storage_def)
  next
    case (update i name desc uri conn)
    from update obtain n n' where n: "dict_get (sd_spaces d) i = Some n" and s: "saved_row d i n' d'"
      and f: "ns_parent n' = ns_parent n" "ns_level n' = ns_level n" "ns_owner n' = ns_owner n" "ns_public n' = ns_public n"
      and st: "ns_uri n' = ns_uri n \<and> ns_conn n' = ns_conn n \<or> ns_level n = 0 \<and> count_physical_tables_under_namespace d i = 0"
      by (rule update_namespace_saved)
    from s have d': "d' = d\<lparr>sd_spaces := dict_set i n' (sd_spaces d)\<rparr>" by (simp add: saved_row_def)
    have "get_effective_storage d' (Some k) = get_effective_storage d (Some k)" if k: "it_space x = Some k" for k
    proof -
      from row[of j x k] x k obtain nk where nk: "dict_get (sd_spaces d) k = Some nk" by (auto simp: physical_table_def)
      show ?thesis using st by (intro set_keeps_storage[OF ok ok' d' n f(1,3) _ x k nk]) auto
    qed
    moreover have "tables_housed d'" by (rule housed') (use row in \<open>simp add: d'\<close>)
    ultimately show ?thesis by (cases "it_space x") (simp_all add: get_effective_storage_def)
  next
    case (delete i)
    then have d': "d' = drop_space i d" and c: "count_children d i = 0" "count_in_namespace d ''catalog_table'' i = 0"
      by (auto elim!: delete_namespace_cases)
    have "get_effective_storage d' (Some k) = get_effective_storage d (Some k)" if k: "it_space x = Some k" for k
    proof -
      from row[of j x k] x k obtain nk where nk: "dict_get (sd_spaces d) k = Some nk" by (auto simp: physical_table_def)
      have "k \<noteq> i" using uncounted_namespace[OF c(2), of j x] x k by (auto simp: physical_table_def)
      with nk have nk': "dict_get (sd_spaces d') k = Some nk" by (simp add: d')
      have "dict_get (sd_spaces d') p = dict_get (sd_spaces d) p" if "ns_parent nk = Some p" for p
        using count_children_0[OF c(1) nk] that by (auto simp: d')
      then show ?thesis by (rule same_storage[OF ok ok' nk nk'])
    qed
    moreover have "tables_housed d'"
    proof (rule housed')
      show "dict_get (sd_spaces d') k \<noteq> None" if "((''catalog_table'', i'), y) \<in> set (sd_items d)" "it_space y = Some k" for i' y k
        using row[OF that] uncounted_namespace[OF c(2) that(1)] that(2) by (simp add: d')
    qed
    ultimately show ?thesis by (cases "it_space x") (simp_all add: get_effective_storage_def)
  qed
  then show "get_effective_storage d' (it_space x) = get_effective_storage d (it_space x)" and "tables_housed d'" by simp_all
qed

text \<open>
  C18: Whatever happens to namespaces, the storage that a physical table is read from stays the same.\<close>

theorem storage_is_stable:
  assumes "(namespace_step cloud env)\<^sup>*\<^sup>* d d'" and "spaces_ok d" and "tables_housed d" and "physical_table d j x"
  shows "get_effective_storage d' (it_space x) = get_effective_storage d (it_space x) \<and> spaces_ok d'"
proof -
  have "get_effective_storage d' (it_space x) = get_effective_storage d (it_space x) \<and> spaces_ok d'
      \<and> tables_housed d' \<and> physical_table d' j x"
    using assms(1)
  proof (induction rule: rtranclp_induct)
    case base
    with assms show ?case by simp
  next
    case (step e f)
    then have e: "spaces_ok e" "tables_housed e" "physical_table e j x" by simp_all
    from step_keeps_storage[OF step.hyps(2) e] step_keeps_spaces[OF step.hyps(2) e(1)] step.IH
      namespace_step_items[OF step.hyps(2)]
    show ?case by (simp add: physical_table_def)
  qed
  then show ?thesis by simp
qed

definition root_space :: "string \<Rightarrow> int \<Rightarrow> namespace" where
  "root_space name owner =
     \<lparr>ns_name = name, ns_parent = None, ns_level = 0, ns_description = None, ns_owner = owner, ns_public = False,
      ns_uri = None, ns_conn = None\<rparr>"

definition schema_space :: "string \<Rightarrow> int \<Rightarrow> int \<Rightarrow> namespace" where
  "schema_space name parent owner = (root_space name owner)\<lparr>ns_parent := Some parent, ns_level := 1\<rparr>"

definition sample_spaces :: share_db where
  "sample_spaces =
     \<lparr>sd_users = [], sd_groups = [], sd_members = [], sd_grants = [],
      sd_spaces = [(1, (root_space ''Sales'' 5)\<lparr>ns_uri := Some ''s3://lake'', ns_conn := Some ''c''\<rparr>), (2, schema_space ''raw'' 1 5),
                   (3, root_space ''Tmp'' 5)],
      sd_items = [((''catalog_table'', 1), \<lparr>it_owner = Some 5, it_space = Some 2, it_name = ''t'', it_text = ''physical''\<rparr>),
                  ((''visualization'', 1), \<lparr>it_owner = Some 6, it_space = Some 3, it_name = ''v'', it_text = []\<rparr>)]\<rparr>"

lemmas sample_spaces_defs = sample_spaces_def root_space_def schema_space_def

theorem storage_is_stable_witness:
  "\<exists>d'. (namespace_step (\<lambda>c o'. Some ''gcs'') (None, None))\<^sup>*\<^sup>* sample_spaces d' \<and> d' \<noteq> sample_spaces
     \<and> get_effective_storage d' (Some 2) = Some (''s3://lake'', Some ''c'', 5)"
proof -
  let ?t = "\<lparr>it_owner = Some 5, it_space = Some (2 :: int), it_name = ''t'', it_text = ''physical''\<rparr>"
  let ?d' = "sample_spaces\<lparr>sd_spaces := dict_set 1 (root_space ''Renamed'' 5\<lparr>ns_uri := Some ''s3://lake'', ns_conn := Some ''c''\<rparr>)
    (sd_spaces sample_spaces)\<rparr>"
  have "update_namespace (\<lambda>c o'. Some ''gcs'') 1 (Some ''Renamed'') None None None sample_spaces = Inr ?d'"
    by code_simp
  then have steps: "(namespace_step (\<lambda>c o'. Some ''gcs'') (None, None))\<^sup>*\<^sup>* sample_spaces ?d'"
    by (intro r_into_rtranclp namespace_step.update)
  have "spaces_ok sample_spaces" by code_simp
  moreover have "tables_housed sample_spaces" by code_simp
  moreover have "physical_table sample_spaces 1 ?t" by code_simp
  ultimately have "get_effective_storage ?d' (it_space ?t) = get_effective_storage sample_spaces (it_space ?t)"
    using storage_is_stable[OF steps] by blast
  moreover have "get_effective_storage sample_spaces (Some 2) = Some (''s3://lake'', Some ''c'', 5)"
    by (simp add: get_effective_storage_def get_root_namespace_def root_from.simps sample_spaces_defs)
  moreover have "?d' \<noteq> sample_spaces" by (simp add: sample_spaces_defs dict_set_def)
  ultimately show ?thesis using steps by (intro exI[of _ ?d']) simp
qed

text \<open>The storage of a catalog that holds a physical table cannot be changed.\<close>

lemma storage_locked:
  "update_namespace cloud 1 None None (Some (Some ''gs://x'')) None sample_spaces = Inl (StorageLocked 1 1)"
  by (simp add: update_namespace_def count_physical_tables_under_namespace_def sample_spaces_defs need_def Let_def)

text \<open>
  An update checks neither rule that creating a namespace checks: a name may get a dot, and two catalogs
  may get the same name.
\<close>

lemma renamed_without_check:
  "\<exists>d'. update_namespace cloud 3 (Some ''Sales'') None None None sample_spaces = Inr d'
     \<and> create_namespace cloud env ''Sales'' 5 None None None None sample_spaces = Inl (NamespaceExists ''Sales'' None)
     \<and> length (filter (\<lambda>(i, n). ns_name n = ''Sales'' \<and> ns_parent n = None) (sd_spaces d')) = 2"
  "\<exists>d'. update_namespace cloud 3 (Some ''a.b'') None None None sample_spaces = Inr d'
     \<and> create_namespace cloud env ''a.b'' 5 None None None None sample_spaces = Inl (BadName ''a.b'')"
  by (simp_all add: update_namespace_def create_namespace_def namespace_named_def sample_spaces_defs need_def Let_def dict_set_def)

text \<open>
  Deleting a namespace does not look for visualizations, dashboards and artifacts. They keep the id of the
  namespace, the next namespace gets that id, and a grant on it reaches them.
\<close>

definition after_reuse :: share_db where
  "after_reuse =
     (case delete_namespace 3 sample_spaces of
        Inl e \<Rightarrow> sample_spaces
      | Inr d \<Rightarrow>
          (case create_namespace (\<lambda>c o'. None) (None, None) ''Mine'' 7 None None None None d of
             Inl e \<Rightarrow> sample_spaces
           | Inr d' \<Rightarrow> d'\<lparr>sd_members := [\<lparr>mb_group = 1, mb_user = 7, mb_role = ''member''\<rparr>],
                          sd_grants := [\<lparr>gr_id = 1, gr_type = ''catalog_namespace'', gr_resource = 3, gr_group = 1,
                                         gr_perm = ''manage'', gr_by = 7\<rparr>]\<rparr>))"

lemma reused_namespace_adopts_items:
  "map_option ns_name (dict_get (sd_spaces after_reuse) 3) = Some ''Mine''"
  "owner_of after_reuse ''visualization'' 1 = Some (Some 6)"
  "can_manage (Some ''docker'') after_reuse \<lparr>pr_id = 7, pr_name = ''eve'', pr_admin = False\<rparr> ''visualization'' 1 None"
  by code_simp+

end
