(* ===== verification/Share_Routes.thy ===== *)
theory Share_Routes
  imports Sharing
begin

text \<open>
  The endpoints that change who may do what: \<open>routes/user_groups.py\<close>, \<open>routes/shares.py\<close>, the administration
  of users in \<open>routes/auth.py\<close>, and the resolution of the user of a request in \<open>auth/jwt.py\<close>.

  An endpoint takes the subject of the access token (\<open>None\<close> when the token is missing, invalid or a
  refresh token) and the tables, and returns the \<open>HTTPException\<close> or the committed tables. The response bodies of the
  changing endpoints are not modelled. Password hashing is the argument \<open>hash\<close>. A character is a byte.
\<close>

datatype http_error = HTTP nat string

definition guard :: "bool \<Rightarrow> nat \<Rightarrow> string \<Rightarrow> http_error + 'a \<Rightarrow> http_error + 'a" where
  "guard b code msg k = (if b then k else Inl (HTTP code msg))"

lemma guard_Inr [simp]: "guard b code msg k = Inr x \<longleftrightarrow> b \<and> k = Inr x"
  by (simp add: guard_def)

definition with_user :: "http_error + principal \<Rightarrow> (principal \<Rightarrow> http_error + 'a) \<Rightarrow> http_error + 'a" where
  "with_user u k = (case u of Inl e \<Rightarrow> Inl e | Inr p \<Rightarrow> k p)"

lemma with_user_Inr [simp]: "with_user u k = Inr x \<longleftrightarrow> (\<exists>p. u = Inr p \<and> k p = Inr x)"
  by (simp add: with_user_def split: sum.splits)

section \<open>The user of a request\<close>

definition user_named :: "share_db \<Rightarrow> string \<Rightarrow> (int \<times> user_row) option" where
  "user_named d n = find (\<lambda>(i, us). us_name us = n) (sd_users d)"

definition get_current_user :: "string option \<Rightarrow> share_db \<Rightarrow> string option \<Rightarrow> http_error + principal" where
  "get_current_user m d sub =
     (case sub of
        None \<Rightarrow> Inl (HTTP 401 ''Could not validate credentials'')
      | Some n \<Rightarrow>
          if m = Some ''electron''
          then (if n = ''local_user'' then Inr \<lparr>pr_id = 1, pr_name = ''local_user'', pr_admin = True\<rparr>
                else Inl (HTTP 401 ''Could not validate credentials''))
          else (case user_named d n of
                  None \<Rightarrow> Inl (HTTP 401 ''Could not validate credentials'')
                | Some (i, us) \<Rightarrow>
                    if us_disabled us then Inl (HTTP 400 ''Inactive user'') else Inr (principal_of i us)))"

definition get_current_admin_user :: "string option \<Rightarrow> share_db \<Rightarrow> string option \<Rightarrow> http_error + principal" where
  "get_current_admin_user m d sub =
     with_user (get_current_user m d sub) (\<lambda>p. guard (pr_admin p) 403 ''Admin privileges required'' (Inr p))"

text \<open>
  A request of an internal service: \<open>ok\<close> is \<open>verify_internal_token\<close>, \<open>owner\<close> the user of the kernel that the
  header names, if there is one, and \<open>sid\<close> the configured id of the service.
\<close>

definition get_user_or_internal_service ::
  "string option \<Rightarrow> share_db \<Rightarrow> string option \<Rightarrow> bool option \<Rightarrow> int option \<Rightarrow> int option \<Rightarrow> http_error + principal" where
  "get_user_or_internal_service m d sub ok owner sid =
     (if ok = Some True
      then (case Option.bind owner (\<lambda>i. Option.bind (dict_get (sd_users d) i) (\<lambda>us. if us_disabled us then None else Some (i, us))) of
              Some (i, us) \<Rightarrow> Inr (principal_of i us)
            | None \<Rightarrow> (case sid of
                         Some i \<Rightarrow> Inr \<lparr>pr_id = i, pr_name = internal_service_username, pr_admin = False\<rparr>
                       | None \<Rightarrow> get_current_user m d sub))
      else get_current_user m d sub)"

text \<open>The dependencies of the two routers: an active user, and sharing switched on.\<close>

definition sharing_user :: "string option \<Rightarrow> share_db \<Rightarrow> string option \<Rightarrow> http_error + principal" where
  "sharing_user m d sub =
     with_user (get_current_user m d sub) (\<lambda>p. guard (sharing_enabled m) 404 ''Not found'' (Inr p))"

section \<open>User groups\<close>

definition group_roles :: "string list" where
  "group_roles = [''owner'', ''manager'', ''member'']"

definition with_group :: "share_db \<Rightarrow> int \<Rightarrow> (user_group \<Rightarrow> http_error + 'a) \<Rightarrow> http_error + 'a" where
  "with_group d g k = (case dict_get (sd_groups d) g of None \<Rightarrow> Inl (HTTP 404 ''Group not found'') | Some gp \<Rightarrow> k gp)"

lemma with_group_Inr [simp]:
  "with_group d g k = Inr x \<longleftrightarrow> (\<exists>gp. dict_get (sd_groups d) g = Some gp \<and> k gp = Inr x)"
  by (simp add: with_group_def split: option.splits)

definition group_admin :: "share_db \<Rightarrow> int \<Rightarrow> principal \<Rightarrow> bool \<Rightarrow> bool" where
  "group_admin d g p owner_only \<longleftrightarrow>
     pr_admin p
     \<or> (case group_role d g (pr_id p) of
          None \<Rightarrow> False
        | Some r \<Rightarrow> r = ''owner'' \<or> \<not> owner_only \<and> r = ''manager'')"

definition require_group_admin :: "share_db \<Rightarrow> int \<Rightarrow> principal \<Rightarrow> bool \<Rightarrow> http_error + 'a \<Rightarrow> http_error + 'a" where
  "require_group_admin d g p owner_only k = guard (group_admin d g p owner_only) 403 ''Not allowed to manage this group'' k"

definition owner_count :: "share_db \<Rightarrow> int \<Rightarrow> nat" where
  "owner_count d g = length (filter (\<lambda>b. mb_group b = g \<and> mb_role b = ''owner'') (sd_members d))"

definition group_name_taken :: "share_db \<Rightarrow> string \<Rightarrow> bool" where
  "group_name_taken d n \<longleftrightarrow> (\<exists>gp \<in> set (dict_values (sd_groups d)). gp_name gp = n)"

definition valid_group_name :: "string \<Rightarrow> bool" where
  "valid_group_name n \<longleftrightarrow> 1 \<le> length n \<and> length n \<le> 100"

definition create_user_group ::
  "string option \<Rightarrow> string option \<Rightarrow> string \<Rightarrow> string option \<Rightarrow> share_db \<Rightarrow> http_error + share_db" where
  "create_user_group m sub name desc d =
     with_user (sharing_user m d sub) (\<lambda>p.
       guard (pr_admin p) 403 ''Admin privileges required''
      (guard (valid_group_name name) 422 ''Invalid name''
      (guard (\<not> group_name_taken d name) 400 ''Group name already exists''
         (let i = next_row_id (dict_keys (sd_groups d)) in
          Inr (d\<lparr>sd_groups := dict_set i \<lparr>gp_name = name, gp_description = desc, gp_creator = pr_id p\<rparr> (sd_groups d),
                 sd_members := sd_members d @ [\<lparr>mb_group = i, mb_user = pr_id p, mb_role = ''owner''\<rparr>]\<rparr>)))))"

text \<open>Reading a group: the answer to a user who is not in it is the answer for a group that does not exist.\<close>

definition get_group ::
  "string option \<Rightarrow> string option \<Rightarrow> int \<Rightarrow> share_db \<Rightarrow> http_error + user_group \<times> (int \<times> string) list" where
  "get_group m sub g d =
     with_user (sharing_user m d sub) (\<lambda>p.
       with_group d g (\<lambda>gp.
         guard (group_role d g (pr_id p) \<noteq> None \<or> pr_admin p) 404 ''Group not found''
           (Inr (gp, map (\<lambda>b. (mb_user b, mb_role b))
              (filter (\<lambda>b. mb_group b = g \<and> dict_get (sd_users d) (mb_user b) \<noteq> None) (sd_members d))))))"

definition update_user_group ::
  "string option \<Rightarrow> string option \<Rightarrow> int \<Rightarrow> string option \<Rightarrow> string option \<Rightarrow> share_db \<Rightarrow> http_error + share_db" where
  "update_user_group m sub g name desc d =
     with_user (sharing_user m d sub) (\<lambda>p.
       guard (case name of None \<Rightarrow> True | Some n \<Rightarrow> valid_group_name n) 422 ''Invalid name''
      (with_group d g (\<lambda>gp.
         require_group_admin d g p True
        (let change = (case name of Some n \<Rightarrow> n \<noteq> gp_name gp | None \<Rightarrow> False);
             gp1 = (if change then gp\<lparr>gp_name := the name\<rparr> else gp);
             gp2 = (case desc of None \<Rightarrow> gp1 | Some _ \<Rightarrow> gp1\<lparr>gp_description := desc\<rparr>) in
         guard (\<not> change \<or> \<not> group_name_taken d (the name)) 400 ''Group name already exists''
           (Inr (d\<lparr>sd_groups := dict_set g gp2 (sd_groups d)\<rparr>))))))"

definition delete_user_group :: "string option \<Rightarrow> string option \<Rightarrow> int \<Rightarrow> share_db \<Rightarrow> http_error + share_db" where
  "delete_user_group m sub g d =
     with_user (sharing_user m d sub) (\<lambda>p.
       with_group d g (\<lambda>gp.
         require_group_admin d g p True
           (let d1 = delete_memberships_for_group g (delete_grants_for_group g d) in
            Inr (d1\<lparr>sd_groups := dict_pop g (sd_groups d1)\<rparr>))))"

definition add_member ::
  "string option \<Rightarrow> string option \<Rightarrow> int \<Rightarrow> int \<Rightarrow> string \<Rightarrow> share_db \<Rightarrow> http_error + share_db" where
  "add_member m sub g u role d =
     with_user (sharing_user m d sub) (\<lambda>p.
       guard (role \<in> set group_roles) 422 ''Invalid role''
      (with_group d g (\<lambda>gp.
         require_group_admin d g p (role = ''owner'')
        (guard (dict_get (sd_users d) u \<noteq> None) 404 ''User not found''
        (guard (group_role d g u = None) 400 ''User is already a member''
           (Inr (d\<lparr>sd_members := sd_members d @ [\<lparr>mb_group = g, mb_user = u, mb_role = role\<rparr>]\<rparr>)))))))"

definition set_role :: "int \<Rightarrow> int \<Rightarrow> string \<Rightarrow> membership list \<Rightarrow> membership list" where
  "set_role g u role bs = map (\<lambda>b. if mb_group b = g \<and> mb_user b = u then b\<lparr>mb_role := role\<rparr> else b) bs"

definition update_member ::
  "string option \<Rightarrow> string option \<Rightarrow> int \<Rightarrow> int \<Rightarrow> string \<Rightarrow> share_db \<Rightarrow> http_error + share_db" where
  "update_member m sub g u role d =
     with_user (sharing_user m d sub) (\<lambda>p.
       guard (role \<in> set group_roles) 422 ''Invalid role''
      (with_group d g (\<lambda>gp.
         case group_role d g u of
           None \<Rightarrow> Inl (HTTP 404 ''Member not found'')
         | Some old \<Rightarrow>
             require_group_admin d g p (old = ''owner'' \<or> role = ''owner'')
            (guard (\<not> (old = ''owner'' \<and> role \<noteq> ''owner'' \<and> owner_count d g \<le> 1)) 400 ''Cannot demote the last group owner''
               (Inr (d\<lparr>sd_members := set_role g u role (sd_members d)\<rparr>))))))"

definition remove_member ::
  "string option \<Rightarrow> string option \<Rightarrow> int \<Rightarrow> int \<Rightarrow> share_db \<Rightarrow> http_error + share_db" where
  "remove_member m sub g u d =
     with_user (sharing_user m d sub) (\<lambda>p.
       with_group d g (\<lambda>gp.
         case group_role d g u of
           None \<Rightarrow> Inl (HTTP 404 ''Member not found'')
         | Some old \<Rightarrow>
             guard (u = pr_id p \<or> group_admin d g p (old = ''owner'')) 403 ''Not allowed to manage this group''
            (guard (\<not> (old = ''owner'' \<and> owner_count d g \<le> 1)) 400 ''Cannot remove the last group owner''
               (Inr (d\<lparr>sd_members := filter (\<lambda>b. \<not> (mb_group b = g \<and> mb_user b = u)) (sd_members d)\<rparr>)))))"

section \<open>Shares\<close>

text \<open>\<open>ResourceType\<close> of \<open>schemas/sharing_schema.py\<close>, which lacks one type of the registry.\<close>

definition share_types :: "string list" where
  "share_types =
     [''secret'', ''database_connection'', ''cloud_connection'', ''ga_connection'', ''kafka_connection'',
      ''catalog_namespace'', ''catalog_table'', ''flow'', ''visualization'', ''dashboard'', ''global_artifact'']"

definition is_resource_owner :: "share_db \<Rightarrow> principal \<Rightarrow> string \<Rightarrow> int \<Rightarrow> bool" where
  "is_resource_owner d p t r \<longleftrightarrow> resolve_owner_id d t r = Some (Some (pr_id p))"

definition require_manageable ::
  "string option \<Rightarrow> share_db \<Rightarrow> principal \<Rightarrow> string \<Rightarrow> int \<Rightarrow> http_error + 'a \<Rightarrow> http_error + 'a" where
  "require_manageable m d p t r k = guard (can_manage m d p t r None) 404 ''Resource not found'' k"

definition list_shares ::
  "string option \<Rightarrow> string option \<Rightarrow> string \<Rightarrow> int \<Rightarrow> share_db \<Rightarrow> http_error + resource_grant list" where
  "list_shares m sub t r d =
     with_user (sharing_user m d sub) (\<lambda>p.
       guard (t \<in> set share_types) 422 ''Invalid resource type''
      (require_manageable m d p t r
        (Inr (sort_key gr_id (filter (\<lambda>g. gr_type g = t \<and> gr_resource g = r) (sd_grants d))))))"

definition create_share ::
  "string option \<Rightarrow> string option \<Rightarrow> string \<Rightarrow> int \<Rightarrow> int \<Rightarrow> string \<Rightarrow> share_db \<Rightarrow> http_error + share_db" where
  "create_share m sub t r g perm d =
     with_user (sharing_user m d sub) (\<lambda>p.
       guard (t \<in> set share_types \<and> perm \<in> {''use'', ''manage''}) 422 ''Invalid share''
      (guard (\<not> (perm = ''manage'' \<and> t \<in> set manage_disallowed_types)) 422 ''Secrets can only be shared at 'use' level''
      (require_manageable m d p t r
      (let free = (is_resource_owner d p t r \<or> pr_admin p) in
       guard (free \<or> perm \<noteq> ''manage'') 403 ''Only the resource owner or an admin can grant manage access''
      (guard (free \<or> g \<in> set (user_group_ids m d (pr_id p))) 403 ''You can only share to groups you are a member of''
      (guard (dict_get (sd_groups d) g \<noteq> None) 404 ''Group not found''
      (guard (\<not> (\<exists>x \<in> set (sd_grants d). gr_type x = t \<and> gr_resource x = r \<and> gr_group x = g)) 409
         ''Resource is already shared with this group''
        (Inr (d\<lparr>sd_grants := sd_grants d @
            [\<lparr>gr_id = next_row_id (map gr_id (sd_grants d)), gr_type = t, gr_resource = r, gr_group = g,
              gr_perm = perm, gr_by = pr_id p\<rparr>]\<rparr>)))))))))"

definition get_grant :: "share_db \<Rightarrow> int \<Rightarrow> resource_grant option" where
  "get_grant d i = find (\<lambda>x. gr_id x = i) (sd_grants d)"

definition update_share ::
  "string option \<Rightarrow> string option \<Rightarrow> int \<Rightarrow> string \<Rightarrow> share_db \<Rightarrow> http_error + share_db" where
  "update_share m sub i perm d =
     with_user (sharing_user m d sub) (\<lambda>p.
       guard (perm \<in> {''use'', ''manage''}) 422 ''Invalid share''
      (case get_grant d i of
         None \<Rightarrow> Inl (HTTP 404 ''Resource not found'')
       | Some x \<Rightarrow>
           require_manageable m d p (gr_type x) (gr_resource x)
          (guard (\<not> (perm = ''manage'' \<and> gr_type x \<in> set manage_disallowed_types)) 422 ''Secrets can only be shared at 'use' level''
          (guard (perm \<noteq> ''manage'' \<or> is_resource_owner d p (gr_type x) (gr_resource x) \<or> pr_admin p) 403
             ''Only the resource owner or an admin can grant manage access''
            (Inr (d\<lparr>sd_grants := map (\<lambda>y. if gr_id y = i then y\<lparr>gr_perm := perm\<rparr> else y) (sd_grants d)\<rparr>))))))"

definition delete_share :: "string option \<Rightarrow> string option \<Rightarrow> int \<Rightarrow> share_db \<Rightarrow> http_error + share_db" where
  "delete_share m sub i d =
     with_user (sharing_user m d sub) (\<lambda>p.
       case get_grant d i of
         None \<Rightarrow> Inl (HTTP 404 ''Resource not found'')
       | Some x \<Rightarrow>
           require_manageable m d p (gr_type x) (gr_resource x)
             (Inr (d\<lparr>sd_grants := filter (\<lambda>y. gr_id y \<noteq> i) (sd_grants d)\<rparr>)))"

section \<open>Users\<close>

definition validate_password :: "string \<Rightarrow> bool \<times> string" where
  "validate_password pw =
     (if length pw < 8 then (False, ''Password must be at least 8 characters long'')
      else if \<not> list_ex (\<lambda>c. c \<in> set ''0123456789'') pw then (False, ''Password must contain at least one number'')
      else if \<not> list_ex (\<lambda>c. c \<in> set ''!@#$%^&*()_+-=[]{}|;:,.<>?'') pw
      then (False, ''Password must contain at least one special character (!@#$%^&*()_+-=[]{}|;:,.<>?)'')
      else (True, []))"

definition email_taken :: "share_db \<Rightarrow> string \<Rightarrow> int option \<Rightarrow> bool" where
  "email_taken d e but \<longleftrightarrow> (\<exists>(i, us) \<in> set (sd_users d). us_email us = e \<and> but \<noteq> Some i)"

definition create_user ::
  "(string \<Rightarrow> string) \<Rightarrow> string option \<Rightarrow> string option \<Rightarrow> string \<Rightarrow> string \<Rightarrow> string option \<Rightarrow> string option
     \<Rightarrow> bool \<Rightarrow> share_db \<Rightarrow> http_error + share_db" where
  "create_user hash m sub name pw email full admin d =
     with_user (get_current_admin_user m d sub) (\<lambda>p.
       guard (name \<noteq> internal_service_username) 400 ''Username is reserved''
      (guard (user_named d name = None) 400 ''Username already exists''
      (let given = (case email of Some (c # cs) \<Rightarrow> Some (c # cs) | _ \<Rightarrow> None);
           addr = (case given of Some e \<Rightarrow> e | None \<Rightarrow> name @ ''@flowfile.app'') in
       guard (case given of Some e \<Rightarrow> \<not> email_taken d e None | None \<Rightarrow> True) 400 ''Email already exists''
      (guard (fst (validate_password pw)) 400 (snd (validate_password pw))
      (guard (\<not> email_taken d addr None) 500 ''Internal Server Error''
        (Inr (d\<lparr>sd_users := dict_set (next_row_id (dict_keys (sd_users d)))
            \<lparr>us_name = name, us_email = addr, us_full = full, us_hash = hash pw, us_disabled = False,
             us_admin = admin, us_must_change = True\<rparr> (sd_users d)\<rparr>)))))))"

text \<open>The fields of \<open>UserUpdate\<close>.\<close>

record user_update =
  uu_email :: "string option"
  uu_full :: "string option"
  uu_disabled :: "bool option"
  uu_admin :: "bool option"
  uu_password :: "string option"
  uu_must_change :: "bool option"

definition apply_user_update :: "(string \<Rightarrow> string) \<Rightarrow> user_update \<Rightarrow> user_row \<Rightarrow> user_row" where
  "apply_user_update hash c us =
     (let u1 = (case uu_email c of Some e \<Rightarrow> us\<lparr>us_email := e\<rparr> | None \<Rightarrow> us);
          u2 = (case uu_full c of Some f \<Rightarrow> u1\<lparr>us_full := Some f\<rparr> | None \<Rightarrow> u1);
          u3 = (case uu_disabled c of Some b \<Rightarrow> u2\<lparr>us_disabled := b\<rparr> | None \<Rightarrow> u2);
          u4 = (case uu_admin c of Some b \<Rightarrow> u3\<lparr>us_admin := b\<rparr> | None \<Rightarrow> u3);
          u5 = (case uu_password c of Some pw \<Rightarrow> u4\<lparr>us_hash := hash pw, us_must_change := True\<rparr> | None \<Rightarrow> u4) in
      (case uu_must_change c of Some b \<Rightarrow> u5\<lparr>us_must_change := b\<rparr> | None \<Rightarrow> u5))"

definition update_user ::
  "(string \<Rightarrow> string) \<Rightarrow> string option \<Rightarrow> string option \<Rightarrow> int \<Rightarrow> user_update \<Rightarrow> share_db \<Rightarrow> http_error + share_db" where
  "update_user hash m sub i c d =
     with_user (get_current_admin_user m d sub) (\<lambda>p.
       case dict_get (sd_users d) i of
         None \<Rightarrow> Inl (HTTP 404 ''User not found'')
       | Some us \<Rightarrow>
           guard (\<not> (i = pr_id p \<and> uu_disabled c = Some True)) 400 ''Cannot disable your own account''
          (guard (\<not> (i = pr_id p \<and> uu_admin c = Some False)) 400 ''Cannot remove your own admin privileges''
          (guard (case uu_email c of Some e \<Rightarrow> \<not> email_taken d e (Some i) | None \<Rightarrow> True) 400 ''Email already exists''
          (guard (case uu_password c of Some pw \<Rightarrow> fst (validate_password pw) | None \<Rightarrow> True) 400
             (case uu_password c of Some pw \<Rightarrow> snd (validate_password pw) | None \<Rightarrow> [])
            (Inr (d\<lparr>sd_users := dict_set i (apply_user_update hash c us) (sd_users d)\<rparr>))))))"

text \<open>The types whose rows die with their user, and the removal of the rows of one type.\<close>

definition personal_types :: "string list" where
  "personal_types = map fst (filter (\<lambda>(t, a). a = ''user_id'') resource_registry)"

definition personal_ids :: "share_db \<Rightarrow> string \<Rightarrow> int \<Rightarrow> int list" where
  "personal_ids d t u = map fst (filter (\<lambda>(i, ow, sp). ow = Some u) (rows_of d t))"

definition remove_personal :: "int \<Rightarrow> string \<Rightarrow> share_db \<Rightarrow> share_db" where
  "remove_personal u t d =
     (let ids = personal_ids d t u in
      if ids = [] then d
      else d\<lparr>sd_grants := filter (\<lambda>g. \<not> (gr_type g = t \<and> gr_resource g \<in> set ids)) (sd_grants d),
             sd_items := filter (\<lambda>((t', i), x). \<not> (t' = t \<and> i \<in> set ids)) (sd_items d)\<rparr>)"

definition delete_user ::
  "string option \<Rightarrow> string option \<Rightarrow> int \<Rightarrow> share_db \<Rightarrow> http_error + share_db" where
  "delete_user m sub i d =
     with_user (get_current_admin_user m d sub) (\<lambda>p.
       guard (dict_get (sd_users d) i \<noteq> None) 404 ''User not found''
      (guard (i \<noteq> pr_id p) 400 ''Cannot delete your own account''
        (let d1 = delete_memberships_for_user i (fold (remove_personal i) personal_types d) in
         Inr (d1\<lparr>sd_users := dict_pop i (sd_users d1)\<rparr>))))"

definition change_own_password ::
  "(string \<Rightarrow> string) \<Rightarrow> (string \<Rightarrow> string \<Rightarrow> bool) \<Rightarrow> string option \<Rightarrow> string option \<Rightarrow> string \<Rightarrow> string \<Rightarrow> share_db
     \<Rightarrow> http_error + share_db" where
  "change_own_password hash verify m sub cur pw d =
     with_user (get_current_user m d sub) (\<lambda>p.
       case dict_get (sd_users d) (pr_id p) of
         None \<Rightarrow> Inl (HTTP 404 ''User not found'')
       | Some us \<Rightarrow>
           guard (verify cur (us_hash us)) 400 ''Current password is incorrect''
          (guard (fst (validate_password pw)) 400 (snd (validate_password pw))
            (Inr (d\<lparr>sd_users := dict_set (pr_id p) (us\<lparr>us_hash := hash pw, us_must_change := False\<rparr>) (sd_users d)\<rparr>))))"

end
