(* ===== verification/Decimals.thy ===== *)
theory Decimals
  imports Prelude
begin

text \<open>
  \<open>str\<close> and \<open>int\<close> on integers, in decimal. White space and underscores, which \<open>int\<close> also accepts, do not
  occur in what \<open>str\<close> prints.
\<close>

definition digit :: "nat \<Rightarrow> char" where
  "digit n = char_of (48 + n)"

definition digit_value :: "char \<Rightarrow> nat option" where
  "digit_value c = (let k = of_char c :: nat in if 48 \<le> k \<and> k \<le> 57 then Some (k - 48) else None)"

fun nat_str :: "nat \<Rightarrow> string" where
  "nat_str n = (if n < 10 then [digit n] else nat_str (n div 10) @ [digit (n mod 10)])"

declare nat_str.simps [simp del]

definition int_str :: "int \<Rightarrow> string" where
  "int_str i = (if i < 0 then CHR ''-'' # nat_str (nat (- i)) else nat_str (nat i))"

fun digits_value :: "nat \<Rightarrow> string \<Rightarrow> nat option" where
  "digits_value acc [] = Some acc"
| "digits_value acc (c # cs) = (case digit_value c of None \<Rightarrow> None | Some v \<Rightarrow> digits_value (10 * acc + v) cs)"

definition parse_int :: "string \<Rightarrow> int option" where
  "parse_int s =
     (case s of
        [] \<Rightarrow> None
      | c # cs \<Rightarrow>
          if c = CHR ''-'' then (if cs = [] then None else map_option (\<lambda>n. - int n) (digits_value 0 cs))
          else if c = CHR ''+'' then (if cs = [] then None else map_option int (digits_value 0 cs))
          else map_option int (digits_value 0 s))"

lemma of_char_digit: "n < 10 \<Longrightarrow> (of_char (digit n) :: nat) = 48 + n"
  by (simp add: digit_def)

lemma digit_value_digit: "n < 10 \<Longrightarrow> digit_value (digit n) = Some n"
  by (simp add: digit_value_def of_char_digit Let_def)

lemma digits_value_append:
  "digits_value acc (xs @ ys) = (case digits_value acc xs of None \<Rightarrow> None | Some a \<Rightarrow> digits_value a ys)"
  by (induction acc xs rule: digits_value.induct) (auto split: option.splits)

lemma digits_value_nat_str: "\<exists>k. \<forall>acc. digits_value acc (nat_str n) = Some (acc * 10 ^ k + n)"
proof (induction n rule: nat_str.induct)
  case (1 n)
  show ?case
  proof (cases "n < 10")
    case True
    then have "\<forall>acc. digits_value acc (nat_str n) = Some (acc * 10 ^ 1 + n)"
      by (simp add: nat_str.simps[of n] digit_value_digit)
    then show ?thesis by blast
  next
    case False
    with 1 obtain k where "\<forall>acc. digits_value acc (nat_str (n div 10)) = Some (acc * 10 ^ k + n div 10)" by blast
    then have "\<forall>acc. digits_value acc (nat_str n) = Some (acc * 10 ^ Suc k + n)"
      using False by (simp add: nat_str.simps[of n] digits_value_append digit_value_digit algebra_simps)
    then show ?thesis by blast
  qed
qed

lemma digits_value_0: "digits_value 0 (nat_str n) = Some n"
  using digits_value_nat_str[of n] by auto

lemma digit_char: "c \<in> set (nat_str n) \<Longrightarrow> \<exists>k < 10. c = digit k"
proof (induction n rule: nat_str.induct)
  case (1 n)
  then show ?case by (cases "n < 10") (auto simp: nat_str.simps[of n] intro: exI[of _ "n mod 10"])
qed

lemma nat_str_nonempty [simp]: "nat_str n \<noteq> []"
  by (simp add: nat_str.simps[of n])

text \<open>A character below the digits does not occur in a number.\<close>

lemma nat_str_plain:
  assumes "(of_char c :: nat) < 48"
  shows "c \<notin> set (nat_str n)"
proof
  assume "c \<in> set (nat_str n)"
  from digit_char[OF this] obtain k where "k < 10" "c = digit k" by blast
  with assms show False by (simp add: of_char_digit)
qed

lemma int_str_plain:
  assumes "(of_char c :: nat) < 48" and "c \<noteq> CHR ''-''"
  shows "c \<notin> set (int_str i)"
  using nat_str_plain[OF assms(1)] assms(2) by (simp add: int_str_def)

lemma parse_int_str: "parse_int (int_str i) = Some i"
proof -
  have "parse_int (nat_str n) = Some (int n)" for n
  proof (cases "nat_str n")
    case (Cons c cs)
    then have "c \<noteq> CHR ''-''" "c \<noteq> CHR ''+''"
      using nat_str_plain[of "CHR ''-''" n] nat_str_plain[of "CHR ''+''" n] by auto
    with Cons digits_value_0[of n] show ?thesis by (simp add: parse_int_def)
  qed simp
  moreover have "parse_int (CHR ''-'' # nat_str n) = Some (- int n)" for n
    using digits_value_0[of n] by (simp add: parse_int_def)
  ultimately show ?thesis by (simp add: int_str_def)
qed

end
