(* ===== verification/Secrets.thy ===== *)
theory Secrets
  imports Share_Routes Decimals
begin

text \<open>
  Secrets: \<open>secret_manager/secret_manager.py\<close> and the endpoints of \<open>routes/secrets.py\<close> that change them. A
  secret is an item of type \<open>secret\<close> whose text is the ciphertext.

  HKDF and Fernet are the record \<open>crypto\<close>: the derivation of a key from the text \<open>user-<id>\<close>, the master key,
  encryption and decryption (\<open>None\<close> when the token is invalid). The
  mirror of the names of secrets in a project is not modelled.
\<close>

section \<open>Ciphertexts\<close>

record crypto =
  cr_derive :: "string \<Rightarrow> string"
  cr_master :: string
  cr_encrypt :: "string \<Rightarrow> string \<Rightarrow> string"
  cr_decrypt :: "string \<Rightarrow> string \<Rightarrow> string option"

definition derive_user_key :: "crypto \<Rightarrow> int \<Rightarrow> string" where
  "derive_user_key C u = cr_derive C (''user-'' @ int_str u)"

definition secret_format_prefix :: string where
  "secret_format_prefix = ''$ffsec$1$''"

definition encrypt_secret :: "crypto \<Rightarrow> string \<Rightarrow> int \<Rightarrow> string" where
  "encrypt_secret C v u = secret_format_prefix @ int_str u @ ''$'' @ cr_encrypt C (derive_user_key C u) v"

text \<open>\<open>remainder.split("$", 1)\<close>: the parts before and after the first separator, if there is one.\<close>

fun split_dollar :: "string \<Rightarrow> (string \<times> string) option" where
  "split_dollar [] = None"
| "split_dollar (c # cs) =
     (if c = CHR ''$'' then Some ([], cs) else map_option (\<lambda>(a, b). (c # a, b)) (split_dollar cs))"

datatype decrypt_error = InvalidFormat | BadUserId | InvalidToken

definition token_result :: "string option \<Rightarrow> decrypt_error + string" where
  "token_result r = (case r of None \<Rightarrow> Inl InvalidToken | Some v \<Rightarrow> Inr v)"

definition decrypt_secret :: "crypto \<Rightarrow> string \<Rightarrow> int option \<Rightarrow> decrypt_error + string" where
  "decrypt_secret C s u =
     (if take (length secret_format_prefix) s = secret_format_prefix
      then (case split_dollar (drop (length secret_format_prefix) s) of
              None \<Rightarrow> Inl InvalidFormat
            | Some (i, token) \<Rightarrow>
                (case parse_int i of
                   None \<Rightarrow> Inl BadUserId
                 | Some owner \<Rightarrow> token_result (cr_decrypt C (derive_user_key C owner) token)))
      else (case u of
              Some i \<Rightarrow> token_result (cr_decrypt C (derive_user_key C i) s)
            | None \<Rightarrow> token_result (cr_decrypt C (cr_master C) s)))"

lemma split_dollar_first: "CHR ''$'' \<notin> set a \<Longrightarrow> split_dollar (a @ CHR ''$'' # b) = Some (a, b)"
  by (induction a) auto

text \<open>
  A stored secret is decrypted for whoever resolves it, with the key of its owner.\<close>

theorem secret_roundtrip:
  assumes "\<And>k v. cr_decrypt C k (cr_encrypt C k v) = Some v"
  shows "decrypt_secret C (encrypt_secret C v owner) u = Inr v"
proof -
  have "drop (length secret_format_prefix) (encrypt_secret C v owner)
      = int_str owner @ CHR ''$'' # cr_encrypt C (derive_user_key C owner) v"
    by (simp add: encrypt_secret_def)
  then have "split_dollar (drop (length secret_format_prefix) (encrypt_secret C v owner))
      = Some (int_str owner, cr_encrypt C (derive_user_key C owner) v)"
    using split_dollar_first[OF int_str_plain[of "CHR ''$''"]] by simp
  moreover have "take (length secret_format_prefix) (encrypt_secret C v owner) = secret_format_prefix"
    by (simp add: encrypt_secret_def)
  ultimately show ?thesis
    by (simp add: decrypt_secret_def parse_int_str assms token_result_def)
qed

section \<open>The store\<close>

definition secret_rows :: "share_db \<Rightarrow> string \<Rightarrow> (int \<times> item) list" where
  "secret_rows d name =
     sort_key fst (map (\<lambda>((t, i), x). (i, x)) (filter (\<lambda>((t, i), x). t = ''secret'' \<and> it_name x = name) (sd_items d)))"

text \<open>\<open>.first()\<close> of the rows in the order of the ids.\<close>

definition own_secret :: "share_db \<Rightarrow> int \<Rightarrow> string \<Rightarrow> (int \<times> item) option" where
  "own_secret d u name = find (\<lambda>(i, x). it_owner x = Some u) (secret_rows d name)"

definition get_encrypted_secret :: "string option \<Rightarrow> share_db \<Rightarrow> int \<Rightarrow> string \<Rightarrow> string option" where
  "get_encrypted_secret m d u name =
     (case own_secret d u name of
        Some (i, x) \<Rightarrow> Some (it_text x)
      | None \<Rightarrow>
          (let granted_ids = granted_resource_ids m d u ''secret'' ''use'' None None in
           if granted_ids = {} then None
           else map_option (\<lambda>(i, x). it_text x) (find (\<lambda>(i, x). i \<in> granted_ids) (secret_rows d name))))"

definition secret_ids :: "share_db \<Rightarrow> int list" where
  "secret_ids d = map (\<lambda>((t, i), x). i) (filter (\<lambda>((t, i), x). t = ''secret'') (sd_items d))"

definition store_secret :: "crypto \<Rightarrow> string \<Rightarrow> string \<Rightarrow> int \<Rightarrow> share_db \<Rightarrow> share_db" where
  "store_secret C name v u d =
     d\<lparr>sd_items := dict_set (''secret'', next_row_id (secret_ids d))
         \<lparr>it_owner = Some u, it_space = None, it_name = name, it_text = encrypt_secret C v u\<rparr> (sd_items d)\<rparr>"

definition upsert_secret :: "crypto \<Rightarrow> string \<Rightarrow> string \<Rightarrow> int \<Rightarrow> share_db \<Rightarrow> share_db" where
  "upsert_secret C name v u d =
     (case own_secret d u name of
        None \<Rightarrow> store_secret C name v u d
      | Some (i, x) \<Rightarrow> d\<lparr>sd_items := dict_set (''secret'', i) (x\<lparr>it_text := encrypt_secret C v u\<rparr>) (sd_items d)\<rparr>)"

definition delete_secret :: "string \<Rightarrow> int \<Rightarrow> share_db \<Rightarrow> http_error + share_db" where
  "delete_secret name u d =
     (case own_secret d u name of
        None \<Rightarrow> Inl (HTTP 404 ''Secret not found'')
      | Some (i, x) \<Rightarrow> Inr (drop_item ''secret'' i d))"

text \<open>
  Secrets that belong to the settings of the application or to a connection are deleted by a query. That passes by the
  hook of the session, so their grants stay (\<open>deleted_secret_is_inherited\<close> in \<open>Share_System\<close>).
\<close>

definition delete_user_secret :: "string \<Rightarrow> int \<Rightarrow> share_db \<Rightarrow> share_db" where
  "delete_user_secret name u d =
     d\<lparr>sd_items := filter (\<lambda>((t, i), x). \<not> (t = ''secret'' \<and> it_name x = name \<and> it_owner x = Some u)) (sd_items d)\<rparr>"

definition delete_connection_secrets :: "int list \<Rightarrow> share_db \<Rightarrow> share_db" where
  "delete_connection_secrets ids d =
     d\<lparr>sd_items := filter (\<lambda>((t, i), x). \<not> (t = ''secret'' \<and> i \<in> set ids)) (sd_items d)\<rparr>"

definition secret_user :: "string option \<Rightarrow> principal \<Rightarrow> int" where
  "secret_user m p = (if m = Some ''electron'' then 1 else pr_id p)"

definition create_secret ::
  "crypto \<Rightarrow> string option \<Rightarrow> string option \<Rightarrow> string \<Rightarrow> string \<Rightarrow> share_db \<Rightarrow> http_error + share_db" where
  "create_secret C m sub name v d =
     with_user (get_current_user m d sub) (\<lambda>p.
       guard (own_secret d (secret_user m p) name = None) 400 ''Secret with this name already exists''
         (Inr (store_secret C name v (secret_user m p) d)))"

definition remove_secret :: "string option \<Rightarrow> string option \<Rightarrow> string \<Rightarrow> share_db \<Rightarrow> http_error + share_db" where
  "remove_secret m sub name d =
     with_user (get_current_user m d sub) (\<lambda>p. delete_secret name (secret_user m p) d)"

subsection \<open>What a name resolves to\<close>

lemma in_secret_rows:
  assumes "dict_ok (sd_items d)"
  shows "(i, x) \<in> set (secret_rows d name) \<longleftrightarrow> dict_get (sd_items d) (''secret'', i) = Some x \<and> it_name x = name"
  by (force simp: secret_rows_def dict_get_in_iff[OF assms, symmetric])

lemma own_secretD:
  assumes "dict_ok (sd_items d)" and "own_secret d u name = Some (i, x)"
  shows "dict_get (sd_items d) (''secret'', i) = Some x" and "it_name x = name" and "it_owner x = Some u"
  using find_SomeD[OF assms(2)[unfolded own_secret_def]] by (simp_all add: in_secret_rows[OF assms(1)])

lemma own_secret_NoneD:
  assumes "dict_ok (sd_items d)" and "own_secret d u name = None"
    and "dict_get (sd_items d) (''secret'', i) = Some x" and "it_name x = name"
  shows "it_owner x \<noteq> Some u"
  using assms(2) find_None_iff[of "\<lambda>(i, x). it_owner x = Some u" "secret_rows d name"] in_secret_rows[OF assms(1), of i x name] assms(3,4)
  by (auto simp: own_secret_def)

lemma not_scoped_secret: "''secret'' \<notin> set namespace_scoped_types"
  by (simp add: namespace_scoped_types_def)

lemma granted_secret_iff:
  "i \<in> granted_resource_ids m d u ''secret'' ''use'' None None \<longleftrightarrow> sharing_enabled m \<and> granted d u ''use'' ''secret'' i"
  by (cases "sharing_enabled m") (simp_all add: granted_resource_ids_def not_scoped_secret direct_granted_ids_iff Let_def)

text \<open>
  C31: A name resolves to the user's own secret if there is one, else to a secret shared with the user, and to
  nothing exactly when there is neither.
\<close>

theorem secret_resolution:
  assumes items: "dict_ok (sd_items d)"
  shows "case get_encrypted_secret m d u name of
      Some c \<Rightarrow> (\<exists>i x. dict_get (sd_items d) (''secret'', i) = Some x \<and> it_name x = name \<and> it_text x = c
        \<and> (it_owner x = Some u
           \<or> own_secret d u name = None \<and> sharing_enabled m \<and> granted d u ''use'' ''secret'' i))
    | None \<Rightarrow> (\<forall>i x. dict_get (sd_items d) (''secret'', i) = Some x \<longrightarrow> it_name x = name \<longrightarrow>
        it_owner x \<noteq> Some u \<and> \<not> (sharing_enabled m \<and> granted d u ''use'' ''secret'' i))"
proof (cases "own_secret d u name")
  case (Some ix)
  obtain i x where ix: "ix = (i, x)" by (cases ix)
  with Some own_secretD[OF items, of u name i x] show ?thesis
    by (simp add: get_encrypted_secret_def) blast
next
  case None
  let ?g = "granted_resource_ids m d u ''secret'' ''use'' None None"
  let ?f = "find (\<lambda>(i, x). i \<in> ?g) (secret_rows d name)"
  have eq: "get_encrypted_secret m d u name = map_option (\<lambda>(i, x). it_text x) ?f"
  proof (cases "?g = {}")
    case True
    then have "?f = None" by (simp add: find_None_iff split: prod.splits)
    with True None show ?thesis by (simp add: get_encrypted_secret_def)
  next
    case False
    with None show ?thesis by (simp add: get_encrypted_secret_def Let_def)
  qed
  show ?thesis
  proof (cases ?f)
    case (Some ix)
    obtain i x where ix: "ix = (i, x)" by (cases ix)
    from find_SomeD[OF Some] have "(i, x) \<in> set (secret_rows d name)" and "i \<in> ?g" by (simp_all add: ix)
    then have "dict_get (sd_items d) (''secret'', i) = Some x \<and> it_name x = name" and "sharing_enabled m \<and> granted d u ''use'' ''secret'' i"
      by (simp_all add: in_secret_rows[OF items] granted_secret_iff)
    with None show ?thesis by (simp add: eq Some ix) blast
  next
    case none: None
    have "\<not> (sharing_enabled m \<and> granted d u ''use'' ''secret'' i)"
      if "dict_get (sd_items d) (''secret'', i) = Some x" "it_name x = name" for i x
    proof -
      from that have "(i, x) \<in> set (secret_rows d name)" by (simp add: in_secret_rows[OF items])
      with none have "i \<notin> ?g" by (auto simp: find_None_iff)
      then show ?thesis by (simp add: granted_secret_iff)
    qed
    with own_secret_NoneD[OF items None] show ?thesis by (simp add: eq none)
  qed
qed


definition sample_crypto :: crypto where
  "sample_crypto =
     \<lparr>cr_derive = (\<lambda>s. rev s), cr_master = ''master'', cr_encrypt = (\<lambda>k v. k @ ''|'' @ v),
      cr_decrypt = (\<lambda>k s. if take (length k + 1) s = k @ ''|'' then Some (drop (length k + 1) s) else None)\<rparr>"

theorem secret_roundtrip_witness:
  "encrypt_secret sample_crypto ''p$ss'' 42 = ''$ffsec$1$42$24-resu|p$ss''
   \<and> decrypt_secret sample_crypto (encrypt_secret sample_crypto ''p$ss'' 42) (Some 7) = Inr ''p$ss''"
proof
  show "encrypt_secret sample_crypto ''p$ss'' 42 = ''$ffsec$1$42$24-resu|p$ss''" by code_simp
  show "decrypt_secret sample_crypto (encrypt_secret sample_crypto ''p$ss'' 42) (Some 7) = Inr ''p$ss''"
    by (rule secret_roundtrip) (simp add: sample_crypto_def)
qed

text \<open>A secret of another user that is shared with the group of the user who asks.\<close>

definition sample_secrets :: share_db where
  "sample_secrets = sample_share\<lparr>sd_grants :=
     [\<lparr>gr_id = 1, gr_type = ''secret'', gr_resource = 1, gr_group = 1, gr_perm = ''use'', gr_by = 2\<rparr>]\<rparr>"

theorem secret_resolution_witness:
  "get_encrypted_secret (Some ''docker'') sample_secrets 3 ''key'' = Some ''x''
   \<and> own_secret sample_secrets 3 ''key'' = None \<and> granted sample_secrets 3 ''use'' ''secret'' 1"
proof -
  have "dict_ok (sd_items sample_secrets)" by code_simp
  note r = secret_resolution[OF this, where u = 3 and name = "''key''" and m = "Some ''docker''"]
  have none: "own_secret sample_secrets 3 ''key'' = None" and some: "get_encrypted_secret (Some ''docker'') sample_secrets 3 ''key'' = Some ''x''"
    and "\<forall>((t, i), x) \<in> set (sd_items sample_secrets). t = ''secret'' \<longrightarrow> i = 1 \<and> it_owner x = Some 2"
    by code_simp+
  with r show ?thesis by (auto simp: dest!: map_of_SomeD)
qed

end
