(* ===== verification/Share_System.thy ===== *)
theory Share_System
  imports Namespaces Secrets
begin

text \<open>
  The sharing system as a whole: every request that changes users, groups, grants, secrets or namespaces, and the
  invariant they keep.

  \<open>api\<close> gives the outcome of a request; a request that fails leaves the tables as they are, because nothing of
  it was committed. Rows of the other resources come and go through \<open>AddItem\<close> (an owned row with the id the
  database assigns) and \<open>DropItem\<close> (\<open>_on_delete\<close> of \<open>auth/sharing.py\<close>).
\<close>

record api_env =
  ae_mode :: "string option"
  ae_hash :: "string \<Rightarrow> string"
  ae_verify :: "string \<Rightarrow> string \<Rightarrow> bool"
  ae_crypto :: crypto
  ae_cloud :: "string \<Rightarrow> int \<Rightarrow> string option"
  ae_storage :: "string option \<times> string option"

datatype request =
    CreateUser string string "string option" "string option" bool
  | UpdateUser int user_update
  | DeleteUser int
  | ChangePassword string string
  | CreateGroup string "string option"
  | UpdateGroup int "string option" "string option"
  | DeleteGroup int
  | AddMember int int string
  | UpdateMember int int string
  | RemoveMember int int
  | CreateShare string int int string
  | UpdateShare int string
  | DeleteShare int
  | CreateSecret string string
  | DeleteSecret string
  | CreateNamespace string "int option" "string option" "string option" "string option"
  | UpdateNamespace int "string option" "string option" "string option option" "string option option"
  | DeleteNamespace int
  | AddItem string item
  | DropItem string int

definition of_catalog :: "space_error + 'a \<Rightarrow> http_error + 'a" where
  "of_catalog r = (case r of Inl e \<Rightarrow> Inl (HTTP 422 []) | Inr x \<Rightarrow> Inr x)"

lemma of_catalog_Inr [simp]: "of_catalog r = Inr x \<longleftrightarrow> r = Inr x"
  by (simp add: of_catalog_def split: sum.splits)

text \<open>The ids of the rows of a type, and the types that \<open>AddItem\<close> and \<open>DropItem\<close> stand for.\<close>

definition item_ids :: "share_db \<Rightarrow> string \<Rightarrow> int list" where
  "item_ids d t = map (\<lambda>((t', i), x). i) (filter (\<lambda>((t', i), x). t' = t) (sd_items d))"

definition item_types :: "string list" where
  "item_types = filter (\<lambda>t. t \<noteq> ''catalog_namespace'') (map fst resource_registry)"

definition add_item :: "string \<Rightarrow> item \<Rightarrow> share_db \<Rightarrow> share_db" where
  "add_item t x d = d\<lparr>sd_items := dict_set (t, next_row_id (item_ids d t)) x (sd_items d)\<rparr>"

fun api :: "api_env \<Rightarrow> string option \<Rightarrow> request \<Rightarrow> share_db \<Rightarrow> http_error + share_db" where
  "api E sub (CreateUser n pw e f a) d = create_user (ae_hash E) (ae_mode E) sub n pw e f a d"
| "api E sub (UpdateUser i c) d = update_user (ae_hash E) (ae_mode E) sub i c d"
| "api E sub (DeleteUser i) d = delete_user (ae_mode E) sub i d"
| "api E sub (ChangePassword c pw) d = change_own_password (ae_hash E) (ae_verify E) (ae_mode E) sub c pw d"
| "api E sub (CreateGroup n desc) d = create_user_group (ae_mode E) sub n desc d"
| "api E sub (UpdateGroup g n desc) d = update_user_group (ae_mode E) sub g n desc d"
| "api E sub (DeleteGroup g) d = delete_user_group (ae_mode E) sub g d"
| "api E sub (AddMember g u r) d = add_member (ae_mode E) sub g u r d"
| "api E sub (UpdateMember g u r) d = update_member (ae_mode E) sub g u r d"
| "api E sub (RemoveMember g u) d = remove_member (ae_mode E) sub g u d"
| "api E sub (CreateShare t r g p) d = create_share (ae_mode E) sub t r g p d"
| "api E sub (UpdateShare i p) d = update_share (ae_mode E) sub i p d"
| "api E sub (DeleteShare i) d = delete_share (ae_mode E) sub i d"
| "api E sub (CreateSecret n v) d = create_secret (ae_crypto E) (ae_mode E) sub n v d"
| "api E sub (DeleteSecret n) d = remove_secret (ae_mode E) sub n d"
| "api E sub (CreateNamespace n parent desc uri conn) d =
     with_user (get_current_user (ae_mode E) d sub) (\<lambda>p. of_catalog
       (service_create_namespace (ae_mode E) (Some (access_resolver (ae_mode E) d p)) (ae_cloud E) (ae_storage E)
          n (pr_id p) parent desc uri conn d))"
| "api E sub (UpdateNamespace i n desc uri conn) d =
     with_user (get_current_user (ae_mode E) d sub) (\<lambda>p. of_catalog
       (service_update_namespace (ae_mode E) (Some (access_resolver (ae_mode E) d p)) (ae_cloud E) i n desc uri conn d))"
| "api E sub (DeleteNamespace i) d =
     with_user (get_current_user (ae_mode E) d sub) (\<lambda>p. of_catalog
       (service_delete_namespace (ae_mode E) (Some (access_resolver (ae_mode E) d p)) i d))"
| "api E sub (AddItem t x) d = guard (t \<in> set item_types) 422 [] (Inr (add_item t x d))"
| "api E sub (DropItem t i) d = guard (t \<in> set item_types) 404 [] (Inr (drop_item t i d))"

definition perform :: "api_env \<Rightarrow> string option \<times> request \<Rightarrow> share_db \<Rightarrow> share_db" where
  "perform E c d = (case api E (fst c) (snd c) d of Inl e \<Rightarrow> d | Inr d' \<Rightarrow> d')"

definition perform_all :: "api_env \<Rightarrow> (string option \<times> request) list \<Rightarrow> share_db \<Rightarrow> share_db" where
  "perform_all E cs d = fold (perform E) cs d"

section \<open>The invariant\<close>

definition users_ok :: "share_db \<Rightarrow> bool" where
  "users_ok d \<longleftrightarrow>
     dict_ok (sd_users d) \<and> unique_by us_name (sd_users d)
     \<and> (\<forall>(i, us) \<in> set (sd_users d). us_name us \<noteq> internal_service_username)"

definition user_groups_ok :: "share_db \<Rightarrow> bool" where
  "user_groups_ok d \<longleftrightarrow> dict_ok (sd_groups d) \<and> unique_by gp_name (sd_groups d)"

definition members_ok :: "share_db \<Rightarrow> bool" where
  "members_ok d \<longleftrightarrow>
     distinct (map (\<lambda>b. (mb_group b, mb_user b)) (sd_members d))
     \<and> (\<forall>b \<in> set (sd_members d). dict_get (sd_groups d) (mb_group b) \<noteq> None \<and> dict_get (sd_users d) (mb_user b) \<noteq> None
          \<and> mb_role b \<in> set group_roles)"

definition grant_ok :: "share_db \<Rightarrow> resource_grant \<Rightarrow> bool" where
  "grant_ok d g \<longleftrightarrow>
     dict_get (sd_groups d) (gr_group g) \<noteq> None \<and> owner_of d (gr_type g) (gr_resource g) \<noteq> None
     \<and> gr_perm g \<in> {''use'', ''manage''} \<and> (gr_type g \<in> set manage_disallowed_types \<longrightarrow> gr_perm g = ''use'')"

definition grants_ok :: "share_db \<Rightarrow> bool" where
  "grants_ok d \<longleftrightarrow>
     distinct (map gr_id (sd_grants d)) \<and> distinct (map (\<lambda>g. (gr_type g, gr_resource g, gr_group g)) (sd_grants d))
     \<and> (\<forall>g \<in> set (sd_grants d). grant_ok d g)"

definition share_ok :: "share_db \<Rightarrow> bool" where
  "share_ok d \<longleftrightarrow>
     users_ok d \<and> user_groups_ok d \<and> members_ok d \<and> grants_ok d \<and> spaces_ok d \<and> dict_ok (sd_items d)
     \<and> (\<forall>((t, i), x) \<in> set (sd_items d). t \<noteq> ''catalog_namespace'')"

lemma users_ok_iff:
  "users_ok d \<longleftrightarrow> dict_ok (sd_users d) \<and> unique_by us_name (sd_users d)
     \<and> (\<forall>i us. dict_get (sd_users d) i = Some us \<longrightarrow> us_name us \<noteq> internal_service_username)"
  by (cases "dict_ok (sd_users d)") (simp_all only: users_ok_def forall_dict simp_thms)

lemma owner_of_exists:
  "owner_of d t r \<noteq> None \<longleftrightarrow>
     (if t = ''catalog_namespace'' then dict_get (sd_spaces d) r \<noteq> None else dict_get (sd_items d) (t, r) \<noteq> None)"
  by (simp add: owner_of_def)

lemma owner_of_cong: "sd_spaces d' = sd_spaces d \<Longrightarrow> sd_items d' = sd_items d \<Longrightarrow> owner_of d' t r = owner_of d t r"
  by (simp add: owner_of_def)

lemma members_ok_filter:
  assumes "members_ok d" and "sd_members d' = filter P (sd_members d)"
    and "\<And>b. b \<in> set (sd_members d') \<Longrightarrow>
      dict_get (sd_groups d') (mb_group b) \<noteq> None \<and> dict_get (sd_users d') (mb_user b) \<noteq> None"
  shows "members_ok d'"
  using assms(1) assms(3) unfolding members_ok_def assms(2) by (auto intro: distinct_map_filter)

lemma grants_ok_filter:
  assumes "grants_ok d" and "sd_grants d' = filter P (sd_grants d)"
    and "\<And>g. g \<in> set (sd_grants d') \<Longrightarrow>
      dict_get (sd_groups d') (gr_group g) \<noteq> None \<and> owner_of d' (gr_type g) (gr_resource g) \<noteq> None"
  shows "grants_ok d'"
  using assms(1) assms(3) unfolding grants_ok_def grant_ok_def assms(2) by (auto intro: distinct_map_filter)

text \<open>The parts that a request does not touch.\<close>

lemma members_ok_same:
  assumes "members_ok d" and "sd_members d' = sd_members d" and "dom (map_of (sd_groups d)) \<subseteq> dom (map_of (sd_groups d'))"
    and "dom (map_of (sd_users d)) \<subseteq> dom (map_of (sd_users d'))"
  shows "members_ok d'"
proof (rule members_ok_filter[OF assms(1), where P = "\<lambda>_. True"])
  show "sd_members d' = filter (\<lambda>_. True) (sd_members d)" using assms(2) by simp
  fix b
  assume "b \<in> set (sd_members d')"
  with assms(1,2) have "mb_group b \<in> dom (map_of (sd_groups d))" "mb_user b \<in> dom (map_of (sd_users d))"
    by (auto simp: members_ok_def)
  with assms(3,4) show "dict_get (sd_groups d') (mb_group b) \<noteq> None \<and> dict_get (sd_users d') (mb_user b) \<noteq> None"
    by blast
qed

lemma grants_ok_same:
  assumes "grants_ok d" and "sd_grants d' = sd_grants d" and "dom (map_of (sd_groups d)) \<subseteq> dom (map_of (sd_groups d'))"
    and "dom (map_of (sd_spaces d)) \<subseteq> dom (map_of (sd_spaces d'))" and "dom (map_of (sd_items d)) \<subseteq> dom (map_of (sd_items d'))"
  shows "grants_ok d'"
proof (rule grants_ok_filter[OF assms(1), where P = "\<lambda>_. True"])
  show "sd_grants d' = filter (\<lambda>_. True) (sd_grants d)" using assms(2) by simp
  fix g
  assume "g \<in> set (sd_grants d')"
  with assms(1,2) have "gr_group g \<in> dom (map_of (sd_groups d))" "owner_of d (gr_type g) (gr_resource g) \<noteq> None"
    by (auto simp: grants_ok_def grant_ok_def)
  with assms(3-5) show "dict_get (sd_groups d') (gr_group g) \<noteq> None \<and> owner_of d' (gr_type g) (gr_resource g) \<noteq> None"
    unfolding owner_of_exists by (auto simp: subset_eq split: if_splits)
qed

lemma user_groups_ok_same: "user_groups_ok d \<Longrightarrow> sd_groups d' = sd_groups d \<Longrightarrow> user_groups_ok d'"
  by (simp add: user_groups_ok_def)

lemma users_ok_same: "users_ok d \<Longrightarrow> sd_users d' = sd_users d \<Longrightarrow> users_ok d'"
  by (simp add: users_ok_def)

lemma share_okD:
  assumes "share_ok d"
  shows "users_ok d" "user_groups_ok d" "members_ok d" "grants_ok d" "spaces_ok d" "dict_ok (sd_items d)"
    "\<forall>((t, i), x) \<in> set (sd_items d). t \<noteq> ''catalog_namespace''" "dict_ok (sd_users d)" "dict_ok (sd_groups d)"
  using assms by (simp_all add: share_ok_def users_ok_def user_groups_ok_def)

lemma group_role_None: "group_role d g u = None \<longleftrightarrow> \<not> (\<exists>b \<in> set (sd_members d). mb_group b = g \<and> mb_user b = u)"
  by (auto simp: group_role_def find_None_iff)

lemma current_user_row:
  assumes "get_current_user m d sub = Inr p" and "m \<noteq> Some ''electron''" and "users_ok d"
  obtains us where "dict_get (sd_users d) (pr_id p) = Some us" and "p = principal_of (pr_id p) us"
    and "\<not> us_disabled us" and "sub = Some (us_name us)" and "\<not> is_synthetic_principal p"
proof -
  from assms(1,2) obtain n i us where n: "sub = Some n" "user_named d n = Some (i, us)" "\<not> us_disabled us"
    "p = principal_of i us"
    by (auto simp: get_current_user_def split: option.splits if_splits)
  from find_SomeD[OF n(2)[unfolded user_named_def]] assms(3) have us: "dict_get (sd_users d) i = Some us" "us_name us = n"
    by (simp_all add: users_ok_def dict_get_in_iff)
  moreover have "us_name us \<noteq> internal_service_username" using us(1) assms(3) by (simp add: users_ok_iff)
  ultimately show ?thesis using n by (intro that[of us]) (simp_all add: principal_of_def is_synthetic_principal_def)
qed

section \<open>Every request keeps the invariant\<close>

lemma sharing_user_Inr [simp]: "sharing_user m d sub = Inr p \<longleftrightarrow> get_current_user m d sub = Inr p \<and> sharing_enabled m"
  by (auto simp: sharing_user_def)

lemma sharing_not_electron: "sharing_enabled m \<Longrightarrow> m \<noteq> Some ''electron''"
  by (auto simp: sharing_enabled_def)

lemma admin_user_Inr [simp]:
  "get_current_admin_user m d sub = Inr p \<longleftrightarrow> get_current_user m d sub = Inr p \<and> pr_admin p"
  by (auto simp: get_current_admin_user_def)

lemma require_group_admin_Inr [simp]:
  "require_group_admin d g p ow k = Inr x \<longleftrightarrow> group_admin d g p ow \<and> k = Inr x"
  by (simp add: require_group_admin_def)

lemma require_manageable_Inr [simp]:
  "require_manageable m d p t r k = Inr x \<longleftrightarrow> can_manage m d p t r None \<and> k = Inr x"
  by (simp add: require_manageable_def)

lemma group_name_free:
  assumes "\<not> group_name_taken d n" and "dict_get (sd_groups d) j = Some gp"
  shows "gp_name gp \<noteq> n"
  using assms map_of_SomeD[OF assms(2)] by (force simp: group_name_taken_def dict_values_def)

lemma members_ok_add:
  assumes ok: "members_ok d" and b: "sd_members d' = sd_members d @ [b]"
    and sub: "dom (map_of (sd_groups d)) \<subseteq> dom (map_of (sd_groups d'))" "dom (map_of (sd_users d)) \<subseteq> dom (map_of (sd_users d'))"
    and new: "dict_get (sd_groups d') (mb_group b) \<noteq> None" "dict_get (sd_users d') (mb_user b) \<noteq> None" "mb_role b \<in> set group_roles"
    and fresh: "\<not> (\<exists>x \<in> set (sd_members d). mb_group x = mb_group b \<and> mb_user x = mb_user b)"
  shows "members_ok d'"
proof -
  let ?d = "d'\<lparr>sd_members := sd_members d\<rparr>"
  have "members_ok ?d" by (rule members_ok_same[OF ok]) (use sub in simp_all)
  with b new fresh show ?thesis unfolding members_ok_def by (auto simp: eq_commute)
qed

lemma create_user_group_ok:
  assumes "create_user_group m sub name desc d = Inr d'" and ok: "share_ok d"
  shows "share_ok d'"
proof -
  let ?i = "next_row_id (dict_keys (sd_groups d))"
  from assms(1) obtain p where p: "get_current_user m d sub = Inr p" "sharing_enabled m" and free: "\<not> group_name_taken d name"
    and d': "d' = d\<lparr>sd_groups := dict_set ?i \<lparr>gp_name = name, gp_description = desc, gp_creator = pr_id p\<rparr> (sd_groups d),
      sd_members := sd_members d @ [\<lparr>mb_group = ?i, mb_user = pr_id p, mb_role = ''owner''\<rparr>]\<rparr>"
    by (auto simp: create_user_group_def Let_def)
  note k = share_okD[OF ok]
  have new: "dict_get (sd_groups d) ?i = None" by (rule next_row_id_new)
  from current_user_row[OF p(1) sharing_not_electron[OF p(2)] k(1)] obtain us where "dict_get (sd_users d) (pr_id p) = Some us" .
  moreover have "mb_group b \<noteq> ?i" if "b \<in> set (sd_members d)" for b using k(3) that new by (auto simp: members_ok_def)
  ultimately have "members_ok d'"
    using new by (intro members_ok_add[OF k(3)]) (auto simp: d' group_roles_def)
  moreover have "user_groups_ok d'"
    using k(2) group_name_free[OF free] by (auto simp: d' user_groups_ok_def intro!: unique_by_set)
  moreover have "grants_ok d'" by (rule grants_ok_same[OF k(4)]) (auto simp: d')
  ultimately show ?thesis using k by (simp add: share_ok_def users_ok_def d' spaces_ok_cong[of d d'])
qed

lemma update_user_group_ok:
  assumes "update_user_group m sub g name desc d = Inr d'" and ok: "share_ok d"
  shows "share_ok d'"
proof -
  note k = share_okD[OF ok]
  from assms(1) obtain gp gp' where gp: "dict_get (sd_groups d) g = Some gp"
    and d': "d' = d\<lparr>sd_groups := dict_set g gp' (sd_groups d)\<rparr>"
    and name: "gp_name gp' = gp_name gp \<or> \<not> group_name_taken d (gp_name gp')"
    by (auto simp: update_user_group_def Let_def split: option.splits if_splits)
  have "gp_name b \<noteq> gp_name gp'" if b: "dict_get (sd_groups d) j = Some b" "j \<noteq> g" for j b
    using name
  proof
    assume "gp_name gp' = gp_name gp"
    with k(2) gp b show ?thesis by (auto simp: user_groups_ok_def unique_by_iff)
  next
    assume "\<not> group_name_taken d (gp_name gp')"
    from group_name_free[OF this b(1)] show ?thesis .
  qed
  with k(2) have "user_groups_ok d'" by (auto simp: d' user_groups_ok_def intro!: unique_by_set)
  moreover have "members_ok d'" by (rule members_ok_same[OF k(3)]) (auto simp: d')
  moreover have "grants_ok d'" by (rule grants_ok_same[OF k(4)]) (auto simp: d')
  ultimately show ?thesis using k by (simp add: share_ok_def users_ok_def d' spaces_ok_cong[of d d'])
qed

lemma delete_user_group_ok:
  assumes "delete_user_group m sub g d = Inr d'" and ok: "share_ok d"
  shows "share_ok d'"
proof -
  note k = share_okD[OF ok]
  from assms(1) have d': "d' = d\<lparr>sd_groups := dict_pop g (sd_groups d), sd_members := filter (\<lambda>b. mb_group b \<noteq> g) (sd_members d),
      sd_grants := filter (\<lambda>x. gr_group x \<noteq> g) (sd_grants d)\<rparr>"
    by (auto simp: delete_user_group_def Let_def delete_memberships_for_group_def delete_grants_for_group_def)
  have "user_groups_ok d'" using k(2) by (simp add: d' user_groups_ok_def unique_by_pop)
  moreover have "members_ok d'"
    by (rule members_ok_filter[OF k(3), where P = "\<lambda>b. mb_group b \<noteq> g"]) (use k(3) in \<open>auto simp: d' members_ok_def\<close>)
  moreover have "grants_ok d'"
    by (rule grants_ok_filter[OF k(4), where P = "\<lambda>x. gr_group x \<noteq> g"])
      (use k(4) in \<open>auto simp: d' grants_ok_def grant_ok_def owner_of_cong[of d d']\<close>)
  ultimately show ?thesis using k by (simp add: share_ok_def users_ok_def d' spaces_ok_cong[of d d'])
qed

lemma add_member_ok:
  assumes "add_member m sub g u role d = Inr d'" and ok: "share_ok d"
  shows "share_ok d'"
proof -
  note k = share_okD[OF ok]
  from assms(1) have d': "d' = d\<lparr>sd_members := sd_members d @ [\<lparr>mb_group = g, mb_user = u, mb_role = role\<rparr>]\<rparr>"
    and new: "dict_get (sd_groups d) g \<noteq> None" "dict_get (sd_users d) u \<noteq> None" "role \<in> set group_roles"
    and fresh: "group_role d g u = None"
    by (auto simp: add_member_def)
  have "members_ok d'"
    by (rule members_ok_add[OF k(3), where b = "\<lparr>mb_group = g, mb_user = u, mb_role = role\<rparr>"])
      (use new fresh in \<open>simp_all add: d' group_role_None\<close>)
  moreover have "grants_ok d'" by (rule grants_ok_same[OF k(4)]) (auto simp: d')
  ultimately show ?thesis using k by (simp add: share_ok_def users_ok_def user_groups_ok_def d' spaces_ok_cong[of d d'])
qed

lemma set_role_key [simp]: "map (\<lambda>b. (mb_group b, mb_user b)) (set_role g u role bs) = map (\<lambda>b. (mb_group b, mb_user b)) bs"
  by (simp add: set_role_def)

lemma update_member_ok:
  assumes "update_member m sub g u role d = Inr d'" and ok: "share_ok d"
  shows "share_ok d'"
proof -
  note k = share_okD[OF ok]
  from assms(1) have d': "d' = d\<lparr>sd_members := set_role g u role (sd_members d)\<rparr>" and role: "role \<in> set group_roles"
    by (auto simp: update_member_def split: option.splits)
  have "b' \<in> set (set_role g u role (sd_members d)) \<Longrightarrow>
      \<exists>b \<in> set (sd_members d). mb_group b' = mb_group b \<and> mb_user b' = mb_user b \<and> (mb_role b' = role \<or> mb_role b' = mb_role b)" for b'
    by (auto simp: set_role_def)
  then have "members_ok d'" using k(3) role by (fastforce simp: d' members_ok_def)
  moreover have "grants_ok d'" by (rule grants_ok_same[OF k(4)]) (auto simp: d')
  ultimately show ?thesis using k by (simp add: share_ok_def users_ok_def user_groups_ok_def d' spaces_ok_cong[of d d'])
qed

lemma remove_member_ok:
  assumes "remove_member m sub g u d = Inr d'" and ok: "share_ok d"
  shows "share_ok d'"
proof -
  note k = share_okD[OF ok]
  from assms(1) have d': "d' = d\<lparr>sd_members := filter (\<lambda>b. \<not> (mb_group b = g \<and> mb_user b = u)) (sd_members d)\<rparr>"
    by (auto simp: remove_member_def split: option.splits)
  have "members_ok d'"
    by (rule members_ok_filter[OF k(3), where P = "\<lambda>b. \<not> (mb_group b = g \<and> mb_user b = u)"])
      (use k(3) in \<open>auto simp: d' members_ok_def\<close>)
  moreover have "grants_ok d'" by (rule grants_ok_same[OF k(4)]) (auto simp: d')
  ultimately show ?thesis using k by (simp add: share_ok_def users_ok_def user_groups_ok_def d' spaces_ok_cong[of d d'])
qed

lemma can_manage_exists:
  assumes "can_manage m d p t r None" and "dict_ok (sd_spaces d)" and "dict_ok (sd_items d)"
  shows "owner_of d t r \<noteq> None"
  using assms by (auto simp: can_manage_def has_access_def resolve_owner split: option.splits)

lemma spaces_dict: "spaces_ok d \<Longrightarrow> dict_ok (sd_spaces d)"
  by (simp add: spaces_ok_def)

lemma get_grantD: "get_grant d i = Some x \<Longrightarrow> x \<in> set (sd_grants d) \<and> gr_id x = i"
  using find_SomeD[of "\<lambda>x. gr_id x = i"] by (simp add: get_grant_def)

lemma create_share_ok:
  assumes "create_share m sub t r g perm d = Inr d'" and ok: "share_ok d"
  shows "share_ok d'"
proof -
  note k = share_okD[OF ok]
  from assms(1) obtain p where d': "d' = d\<lparr>sd_grants := sd_grants d @
        [\<lparr>gr_id = next_row_id (map gr_id (sd_grants d)), gr_type = t, gr_resource = r, gr_group = g, gr_perm = perm, gr_by = pr_id p\<rparr>]\<rparr>"
    and c: "can_manage m d p t r None" and g: "dict_get (sd_groups d) g \<noteq> None" and perm: "perm \<in> {''use'', ''manage''}"
    and secret: "\<not> (perm = ''manage'' \<and> t \<in> set manage_disallowed_types)"
    and fresh: "\<not> (\<exists>x \<in> set (sd_grants d). gr_type x = t \<and> gr_resource x = r \<and> gr_group x = g)"
    by (auto simp: create_share_def Let_def)
  have id: "next_row_id (map gr_id (sd_grants d)) \<notin> gr_id ` set (sd_grants d)"
    using next_row_id_notin[of "map gr_id (sd_grants d)"] by simp
  have "grants_ok d'"
    using k(4) g perm secret fresh id can_manage_exists[OF c spaces_dict[OF k(5)] k(6)]
    by (auto simp: d' grants_ok_def grant_ok_def owner_of_cong[of d d'])
  then show ?thesis using k by (simp add: share_ok_def users_ok_def user_groups_ok_def members_ok_def d' spaces_ok_cong[of d d'])
qed

lemma update_share_ok:
  assumes "update_share m sub i perm d = Inr d'" and ok: "share_ok d"
  shows "share_ok d'"
proof -
  note k = share_okD[OF ok]
  from assms(1) obtain x where d': "d' = d\<lparr>sd_grants := map (\<lambda>y. if gr_id y = i then y\<lparr>gr_perm := perm\<rparr> else y) (sd_grants d)\<rparr>"
    and x: "get_grant d i = Some x" and perm: "perm \<in> {''use'', ''manage''}"
    and secret: "\<not> (perm = ''manage'' \<and> gr_type x \<in> set manage_disallowed_types)"
    by (auto simp: update_share_def split: option.splits)
  have same: "y = x" if "y \<in> set (sd_grants d)" "gr_id y = i" for y
    using k(4) get_grantD[OF x] that by (auto simp: grants_ok_def distinct_map dest: inj_onD)
  have each: "grant_ok d' (if gr_id y = i then y\<lparr>gr_perm := perm\<rparr> else y)" if "y \<in> set (sd_grants d)" for y
    using k(4) that same[OF that] perm secret by (auto simp: grants_ok_def grant_ok_def d' owner_of_cong[of d d'])
  have grants: "sd_grants d' = map (\<lambda>y. if gr_id y = i then y\<lparr>gr_perm := perm\<rparr> else y) (sd_grants d)" by (simp add: d')
  have "\<forall>y \<in> set (sd_grants d'). grant_ok d' y" unfolding grants set_map using each by blast
  moreover have "map gr_id (sd_grants d') = map gr_id (sd_grants d)"
    "map (\<lambda>g. (gr_type g, gr_resource g, gr_group g)) (sd_grants d') = map (\<lambda>g. (gr_type g, gr_resource g, gr_group g)) (sd_grants d)"
    by (simp_all add: d')
  ultimately have "grants_ok d'" using k(4) by (simp add: grants_ok_def)
  then show ?thesis using k by (simp add: share_ok_def users_ok_def user_groups_ok_def members_ok_def d' spaces_ok_cong[of d d'])
qed

lemma delete_share_ok:
  assumes "delete_share m sub i d = Inr d'" and ok: "share_ok d"
  shows "share_ok d'"
proof -
  note k = share_okD[OF ok]
  from assms(1) have d': "d' = d\<lparr>sd_grants := filter (\<lambda>y. gr_id y \<noteq> i) (sd_grants d)\<rparr>"
    by (auto simp: delete_share_def split: option.splits)
  have "grants_ok d'"
    by (rule grants_ok_filter[OF k(4), where P = "\<lambda>y. gr_id y \<noteq> i"])
      (use k(4) in \<open>auto simp: d' grants_ok_def grant_ok_def owner_of_cong[of d d']\<close>)
  then show ?thesis using k by (simp add: share_ok_def users_ok_def user_groups_ok_def members_ok_def d' spaces_ok_cong[of d d'])
qed

text \<open>Users.\<close>

lemma user_named_None:
  assumes "user_named d n = None" and "dict_get (sd_users d) i = Some us"
  shows "us_name us \<noteq> n"
  using find_NoneD[OF assms(1)[unfolded user_named_def] map_of_SomeD[OF assms(2)]] by simp

lemma put_user_ok:
  assumes ok: "share_ok d" and d': "d' = d\<lparr>sd_users := dict_set i us (sd_users d)\<rparr>"
    and name: "us_name us \<noteq> internal_service_username"
    and unique: "\<And>j b. dict_get (sd_users d) j = Some b \<Longrightarrow> j \<noteq> i \<Longrightarrow> us_name b \<noteq> us_name us"
  shows "share_ok d'"
proof -
  note k = share_okD[OF ok]
  have "users_ok d'" using k(1) name unique by (auto simp: d' users_ok_iff intro!: unique_by_set)
  moreover have "members_ok d'" by (rule members_ok_same[OF k(3)]) (auto simp: d')
  moreover have "grants_ok d'" by (rule grants_ok_same[OF k(4)]) (auto simp: d')
  ultimately show ?thesis using k by (simp add: share_ok_def user_groups_ok_def d' spaces_ok_cong[of d d'])
qed

lemma create_user_ok:
  assumes "create_user hash m sub name pw email full admin d = Inr d'" and ok: "share_ok d"
  shows "share_ok d'"
proof -
  from assms(1) obtain us where d': "d' = d\<lparr>sd_users := dict_set (next_row_id (dict_keys (sd_users d))) us (sd_users d)\<rparr>"
    and us: "us_name us = name" "name \<noteq> internal_service_username" "user_named d name = None"
    by (simp add: create_user_def Let_def) (metis user_row.select_convs(1))
  show ?thesis by (rule put_user_ok[OF ok d']) (use us user_named_None[OF us(3)] in auto)
qed

lemma apply_user_update_name [simp]: "us_name (apply_user_update hash c us) = us_name us"
  by (simp add: apply_user_update_def Let_def split: option.splits)

text \<open>Writing back the row of a user under the same name.\<close>

lemma rewrite_user_ok:
  assumes ok: "share_ok d" and us: "dict_get (sd_users d) i = Some us" and name: "us_name us' = us_name us"
  shows "share_ok (d\<lparr>sd_users := dict_set i us' (sd_users d)\<rparr>)"
proof (rule put_user_ok[OF ok refl])
  note k = share_okD[OF ok]
  show "us_name us' \<noteq> internal_service_username" using k(1) us name by (simp add: users_ok_iff)
  show "us_name b \<noteq> us_name us'" if "dict_get (sd_users d) j = Some b" "j \<noteq> i" for j b
    using k(1) us that name by (auto simp: users_ok_def unique_by_iff)
qed

lemma update_user_ok:
  assumes "update_user hash m sub i c d = Inr d'" and ok: "share_ok d"
  shows "share_ok d'"
  using assms(1) rewrite_user_ok[OF ok] by (auto simp: update_user_def split: option.splits)

lemma change_own_password_ok:
  assumes "change_own_password hash verify m sub cur pw d = Inr d'" and ok: "share_ok d"
  shows "share_ok d'"
  using assms(1) rewrite_user_ok[OF ok] by (auto simp: change_own_password_def split: option.splits)

text \<open>Removing rows of items together with the grants on them.\<close>

definition without_items :: "(string \<Rightarrow> int \<Rightarrow> bool) \<Rightarrow> share_db \<Rightarrow> share_db" where
  "without_items Q d =
     d\<lparr>sd_grants := filter (\<lambda>g. \<not> Q (gr_type g) (gr_resource g)) (sd_grants d),
       sd_items := filter (\<lambda>((t, i), x). \<not> Q t i) (sd_items d)\<rparr>"

lemma map_of_filter_keys: "map_of (filter (\<lambda>((t, i), x). \<not> Q t i) d) (t, i) = (if Q t i then None else map_of d (t, i))"
  by (induction d) auto

lemma without_items_ok:
  assumes ok: "share_ok d" and Q: "\<And>i. \<not> Q ''catalog_namespace'' i"
  shows "share_ok (without_items Q d)"
proof -
  note k = share_okD[OF ok]
  let ?d = "without_items Q d"
  have same: "sd_users ?d = sd_users d" "sd_groups ?d = sd_groups d" "sd_members ?d = sd_members d" "sd_spaces ?d = sd_spaces d"
    by (simp_all add: without_items_def)
  have "dict_ok (sd_items ?d)" using k(6) by (simp add: without_items_def dict_ok_def distinct_map_filter)
  moreover have "\<forall>((t, i), x) \<in> set (sd_items ?d). t \<noteq> ''catalog_namespace''" using k(7) by (auto simp: without_items_def)
  moreover have "grants_ok ?d"
  proof (rule grants_ok_filter[OF k(4)])
    show "sd_grants ?d = filter (\<lambda>g. \<not> Q (gr_type g) (gr_resource g)) (sd_grants d)" by (simp add: without_items_def)
    fix g
    assume "g \<in> set (sd_grants ?d)"
    then have g: "g \<in> set (sd_grants d)" "\<not> Q (gr_type g) (gr_resource g)" by (simp_all add: without_items_def)
    with k(4) have "grant_ok d g" by (simp add: grants_ok_def)
    with g(2) show "dict_get (sd_groups ?d) (gr_group g) \<noteq> None \<and> owner_of ?d (gr_type g) (gr_resource g) \<noteq> None"
      unfolding owner_of_exists grant_ok_def same by (auto simp: without_items_def map_of_filter_keys split: if_splits)
  qed
  ultimately show ?thesis
    using k by (simp add: share_ok_def users_ok_def user_groups_ok_def members_ok_def same spaces_ok_cong[of d ?d])
qed

lemma dict_pop_filter: "dict_pop k d = filter (\<lambda>(j, x). j \<noteq> k) d"
  by (induction d) (auto simp: dict_pop_def)

lemma drop_item_without: "drop_item t i d = without_items (\<lambda>t' i'. t' = t \<and> i' = i) d"
  by (simp add: drop_item_def without_items_def delete_grants_for_resource_def dict_pop_filter case_prod_unfold prod_eq_iff)

lemma drop_item_ok: "share_ok d \<Longrightarrow> t \<noteq> ''catalog_namespace'' \<Longrightarrow> share_ok (drop_item t i d)"
  unfolding drop_item_without by (rule without_items_ok) auto

lemma remove_personal_ok:
  assumes "share_ok d" and "t \<noteq> ''catalog_namespace''"
  shows "share_ok (remove_personal u t d)"
proof -
  have "remove_personal u t d = d \<or> remove_personal u t d = without_items (\<lambda>t' i'. t' = t \<and> i' \<in> set (personal_ids d t u)) d"
    by (simp add: remove_personal_def Let_def without_items_def)
  then show ?thesis
  proof
    assume "remove_personal u t d = without_items (\<lambda>t' i'. t' = t \<and> i' \<in> set (personal_ids d t u)) d"
    with assms show ?thesis by (simp add: without_items_ok)
  qed (simp add: assms)
qed

lemma remove_personal_fields [simp]:
  "sd_users (remove_personal u t d) = sd_users d" "sd_groups (remove_personal u t d) = sd_groups d"
  "sd_members (remove_personal u t d) = sd_members d" "sd_spaces (remove_personal u t d) = sd_spaces d"
  by (simp_all add: remove_personal_def Let_def)

lemma remove_all_personal_ok:
  assumes "share_ok d" and "''catalog_namespace'' \<notin> set ts"
  shows "share_ok (fold (remove_personal u) ts d)"
  by (rule fold_invariant[where P = share_ok]) (use assms in \<open>auto intro: remove_personal_ok\<close>)

lemma personal_types_plain: "''catalog_namespace'' \<notin> set personal_types"
  by code_simp

lemma remove_all_personal_fields:
  "sd_users (fold (remove_personal u) ts d) = sd_users d \<and> sd_groups (fold (remove_personal u) ts d) = sd_groups d
   \<and> sd_members (fold (remove_personal u) ts d) = sd_members d \<and> sd_spaces (fold (remove_personal u) ts d) = sd_spaces d"
  by (induction ts arbitrary: d) auto

lemma delete_user_ok:
  assumes "delete_user m sub i d = Inr d'" and ok: "share_ok d"
  shows "share_ok d'"
proof -
  let ?e = "fold (remove_personal i) personal_types d"
  from assms(1) have d': "d' = ?e\<lparr>sd_members := filter (\<lambda>b. mb_user b \<noteq> i) (sd_members ?e), sd_users := dict_pop i (sd_users ?e)\<rparr>"
    by (auto simp: delete_user_def Let_def delete_memberships_for_user_def)
  have "share_ok ?e" by (rule remove_all_personal_ok[OF ok personal_types_plain])
  note k = share_okD[OF this]
  have "users_ok d'" using k(1) by (auto simp: d' users_ok_iff unique_by_pop)
  moreover have "members_ok d'"
    by (rule members_ok_filter[OF k(3), where P = "\<lambda>b. mb_user b \<noteq> i"]) (use k(3) in \<open>auto simp: d' members_ok_def\<close>)
  moreover have "grants_ok d'" by (rule grants_ok_same[OF k(4)]) (auto simp: d')
  ultimately show ?thesis using k by (simp add: share_ok_def user_groups_ok_def d' spaces_ok_cong[of ?e d'])
qed

text \<open>Writing a row of an item.\<close>

lemma put_item_ok:
  assumes ok: "share_ok d" and t: "t \<noteq> ''catalog_namespace''"
  shows "share_ok (d\<lparr>sd_items := dict_set (t, i) x (sd_items d)\<rparr>)" (is "share_ok ?d")
proof -
  note k = share_okD[OF ok]
  have "grants_ok ?d" by (rule grants_ok_same[OF k(4)]) auto
  moreover have "\<forall>((t, i), x) \<in> set (sd_items ?d). t \<noteq> ''catalog_namespace''"
  proof -
    have "set (dict_keys (sd_items ?d)) \<subseteq> insert (t, i) (set (dict_keys (sd_items d)))" by (auto simp: dict_keys_set)
    moreover have "fst k' \<noteq> ''catalog_namespace''" if "k' \<in> set (dict_keys (sd_items d))" for k'
      using k(7) that by (auto simp: dict_keys_def)
    ultimately have "\<forall>k' \<in> set (dict_keys (sd_items ?d)). fst k' \<noteq> ''catalog_namespace''" using t by auto
    then show ?thesis by (auto simp: dict_keys_def)
  qed
  ultimately show ?thesis
    using k by (simp add: share_ok_def users_ok_def user_groups_ok_def members_ok_def spaces_ok_cong[of d ?d])
qed

lemma create_secret_ok: "create_secret C m sub n v d = Inr d' \<Longrightarrow> share_ok d \<Longrightarrow> share_ok d'"
  by (auto simp: create_secret_def store_secret_def intro: put_item_ok)

lemma remove_secret_ok: "remove_secret m sub n d = Inr d' \<Longrightarrow> share_ok d \<Longrightarrow> share_ok d'"
  by (auto simp: remove_secret_def delete_secret_def split: option.splits intro: drop_item_ok)

lemma upsert_secret_ok: "share_ok d \<Longrightarrow> share_ok (upsert_secret C n v u d)"
  by (auto simp: upsert_secret_def store_secret_def split: option.splits intro: put_item_ok)

text \<open>Namespaces.\<close>

lemma put_space_ok:
  assumes ok: "share_ok d" and d': "d' = d\<lparr>sd_spaces := dict_set i n (sd_spaces d)\<rparr>" and sp: "spaces_ok d'"
  shows "share_ok d'"
proof -
  note k = share_okD[OF ok]
  have "grants_ok d'" by (rule grants_ok_same[OF k(4)]) (auto simp: d')
  with k sp show ?thesis
    by (simp add: share_ok_def users_ok_def user_groups_ok_def members_ok_def d')
qed

lemma create_namespace_ok:
  assumes "create_namespace cloud env name owner parent desc uri conn d = Inr d'" and ok: "share_ok d"
  shows "share_ok d'"
proof -
  note k = share_okD[OF ok]
  from assms(1) k(5) obtain n where "d' = d\<lparr>sd_spaces := dict_set (next_row_id (dict_keys (sd_spaces d))) n (sd_spaces d)\<rparr>"
    by (rule create_namespace_cases)
  then show ?thesis by (rule put_space_ok[OF ok _ create_keeps_spaces[OF assms(1) k(5)]])
qed

lemma update_namespace_ok:
  assumes "update_namespace cloud i name desc uri conn d = Inr d'" and ok: "share_ok d"
  shows "share_ok d'"
proof -
  note k = share_okD[OF ok]
  from assms(1) obtain n n' where s: "saved_row d i n' d'" by (rule update_namespace_saved)
  then have "d' = d\<lparr>sd_spaces := dict_set i n' (sd_spaces d)\<rparr>" by (simp add: saved_row_def)
  then show ?thesis by (rule put_space_ok[OF ok _ update_keeps_spaces[OF assms(1) k(5)]])
qed

lemma delete_namespace_ok:
  assumes "delete_namespace i d = Inr d'" and ok: "share_ok d"
  shows "share_ok d'"
proof -
  note k = share_okD[OF ok]
  from assms(1) have d': "d' = drop_space i d" by (auto elim!: delete_namespace_cases)
  have "grants_ok d'"
  proof (rule grants_ok_filter[OF k(4)])
    show "sd_grants d' = filter (\<lambda>g. \<not> (gr_type g = ''catalog_namespace'' \<and> gr_resource g = i)) (sd_grants d)" by (simp add: d')
    fix g
    assume "g \<in> set (sd_grants d')"
    then have g: "g \<in> set (sd_grants d)" "\<not> (gr_type g = ''catalog_namespace'' \<and> gr_resource g = i)" by (simp_all add: d')
    with k(4) have "grant_ok d g" by (simp add: grants_ok_def)
    with g(2) show "dict_get (sd_groups d') (gr_group g) \<noteq> None \<and> owner_of d' (gr_type g) (gr_resource g) \<noteq> None"
      unfolding owner_of_exists grant_ok_def by (auto simp: d' split: if_splits)
  qed
  with k delete_keeps_spaces[OF assms(1) k(5)] show ?thesis
    by (simp add: share_ok_def users_ok_def user_groups_ok_def members_ok_def d')
qed

lemma api_ok:
  assumes "api E sub c d = Inr d'" and ok: "share_ok d"
  shows "share_ok d'"
proof (cases c)
  case (CreateNamespace n parent desc uri conn)
  with assms show ?thesis
    by (auto simp: service_create_namespace_def require_namespace_writable_def intro: create_namespace_ok)
next
  case (UpdateNamespace i n desc uri conn)
  with assms show ?thesis
    by (auto simp: service_update_namespace_def require_manage_def require_namespace_owner_def Let_def
        split: if_splits intro: update_namespace_ok)
next
  case (DeleteNamespace i)
  with assms show ?thesis
    by (auto simp: service_delete_namespace_def require_manage_def intro: delete_namespace_ok)
next
  case (AddItem t x)
  with assms show ?thesis by (auto simp: item_types_def add_item_def intro: put_item_ok)
next
  case (DropItem t i)
  with assms show ?thesis by (auto simp: item_types_def intro: drop_item_ok)
qed (use assms create_user_ok update_user_ok delete_user_ok change_own_password_ok create_user_group_ok update_user_group_ok
    delete_user_group_ok add_member_ok update_member_ok remove_member_ok create_share_ok update_share_ok delete_share_ok
    create_secret_ok remove_secret_ok in simp_all)

lemma perform_ok: "share_ok d \<Longrightarrow> share_ok (perform E c d)"
  by (auto simp: perform_def split: sum.splits intro: api_ok)

lemma perform_all_ok: "share_ok d \<Longrightarrow> share_ok (perform_all E cs d)"
  unfolding perform_all_def by (rule fold_invariant) (auto intro: perform_ok)

text \<open>
  C17: Every modelled request keeps users, groups, memberships, grants, namespaces and items consistent: a grant is on a
  row that exists, of a group that exists, none is stored twice, and a secret is only granted for use. Rows are deleted
  one by one through the session here, which also deletes their grants; the queries that delete the secrets of settings
  and connections do not, and are no requests of this system (\<open>deleted_secret_is_inherited\<close>).
\<close>

theorem sharing_tables_stay_valid:
  assumes "share_ok d"
  shows "share_ok (perform_all E cs d)
    \<and> (\<forall>g \<in> set (sd_grants (perform_all E cs d)). owner_of (perform_all E cs d) (gr_type g) (gr_resource g) \<noteq> None
         \<and> (gr_type g = ''secret'' \<longrightarrow> gr_perm g = ''use''))"
proof
  show ok: "share_ok (perform_all E cs d)" using assms by (rule perform_all_ok)
  show "\<forall>g \<in> set (sd_grants (perform_all E cs d)). owner_of (perform_all E cs d) (gr_type g) (gr_resource g) \<noteq> None \<and>
      (gr_type g = ''secret'' \<longrightarrow> gr_perm g = ''use'')"
    using share_okD(4)[OF ok] by (simp add: grants_ok_def grant_ok_def manage_disallowed_types_def)
qed


definition sample_api :: api_env where
  "sample_api =
     \<lparr>ae_mode = Some ''docker'', ae_hash = (\<lambda>s. s), ae_verify = (\<lambda>s h. s = h), ae_crypto = sample_crypto,
      ae_cloud = (\<lambda>c o'. None), ae_storage = (None, None)\<rparr>"

lemma sample_share_ok: "share_ok sample_share"
  by code_simp

theorem sharing_tables_stay_valid_witness:
  "map gr_id (sd_grants (perform_all sample_api [(Some ''alice'', CreateShare ''secret'' 1 1 ''use'')] sample_share)) = [1, 2]
   \<and> share_ok (perform_all sample_api [(Some ''alice'', CreateShare ''secret'' 1 1 ''use'')] sample_share)"
proof
  show "map gr_id (sd_grants (perform_all sample_api [(Some ''alice'', CreateShare ''secret'' 1 1 ''use'')] sample_share)) = [1, 2]"
    by code_simp
qed (use sharing_tables_stay_valid[OF sample_share_ok] in blast)

text \<open>
  A secret that is deleted by a query leaves its grants, and the database hands its id out again: the next secret, of
  whatever user, is shared with the group of the old one.
\<close>

definition shared_key :: share_db where
  "shared_key = perform_all sample_api [(Some ''alice'', CreateShare ''secret'' 1 1 ''use'')] sample_share"

lemma deleted_secret_is_inherited:
  "\<not> grants_ok (delete_user_secret ''key'' 2 shared_key)"
  "delete_connection_secrets [1] shared_key = delete_user_secret ''key'' 2 shared_key"
  "let d = perform_all sample_api [(Some ''carol'', CreateSecret ''mine'' ''v'')] (delete_user_secret ''key'' 2 shared_key)
   in owner_of d ''secret'' 1 = Some (Some 4) \<and> get_encrypted_secret (Some ''docker'') d 3 ''mine'' \<noteq> None"
  by code_simp+

end
