(* ===== verification/Share_Safety.thy ===== *)
theory Share_Safety
  imports Share_System
begin

text \<open>
  What holds however the requests of \<open>Share_System\<close> are combined: an administrator and an owner of every
  group remain, and users who share among themselves stay within what they could reach; and what the
  requests do allow although the documentation says otherwise.
\<close>

section \<open>Nobody is locked out\<close>

definition has_admin :: "share_db \<Rightarrow> bool" where
  "has_admin d \<longleftrightarrow> (\<exists>(i, us) \<in> set (sd_users d). us_admin us \<and> \<not> us_disabled us)"

definition active_admin :: "share_db \<Rightarrow> int \<Rightarrow> bool" where
  "active_admin d i \<longleftrightarrow> (case dict_get (sd_users d) i of None \<Rightarrow> False | Some us \<Rightarrow> us_admin us \<and> \<not> us_disabled us)"

lemma has_admin_iff: "dict_ok (sd_users d) \<Longrightarrow> has_admin d \<longleftrightarrow> (\<exists>i. active_admin d i)"
  using forall_dict[of "sd_users d" "\<lambda>i us. \<not> (us_admin us \<and> \<not> us_disabled us)"]
  by (auto simp: has_admin_def active_admin_def split: option.splits)

text \<open>An administrator who makes a request is an active administrator before and after it.\<close>

lemma admin_caller:
  assumes "get_current_user m d sub = Inr p" and "m \<noteq> Some ''electron''" and "users_ok d" and "pr_admin p"
  shows "active_admin d (pr_id p)"
proof -
  from current_user_row[OF assms(1-3)] obtain us
    where "dict_get (sd_users d) (pr_id p) = Some us" "p = principal_of (pr_id p) us" "\<not> us_disabled us" .
  moreover from calculation(2) have "pr_admin p = us_admin us" by (metis principal_of_def principal.select_convs(3))
  ultimately show ?thesis using assms(4) by (simp add: active_admin_def)
qed

lemma active_admin_other: "sd_users d' = dict_set i us (sd_users d) \<Longrightarrow> j \<noteq> i \<Longrightarrow> active_admin d' j = active_admin d j"
  by (simp add: active_admin_def)

lemma create_user_admin:
  assumes "create_user hash m sub name pw email full admin d = Inr d'" and "active_admin d i"
  shows "active_admin d' i"
proof -
  from assms(1) obtain us where "sd_users d' = dict_set (next_row_id (dict_keys (sd_users d))) us (sd_users d)"
    by (auto simp: create_user_def Let_def)
  moreover have "i \<noteq> next_row_id (dict_keys (sd_users d))"
    using assms(2) next_row_id_new[of "sd_users d"] by (auto simp: active_admin_def)
  ultimately show ?thesis using assms(2) by (simp add: active_admin_def)
qed

lemma update_user_admin:
  assumes "update_user hash m sub i c d = Inr d'" and "m \<noteq> Some ''electron''" and "users_ok d"
  shows "\<exists>j. active_admin d' j"
proof -
  from assms(1) obtain p us where p: "get_current_user m d sub = Inr p" "pr_admin p"
    and us: "dict_get (sd_users d) i = Some us"
    and own: "\<not> (i = pr_id p \<and> uu_disabled c = Some True)" "\<not> (i = pr_id p \<and> uu_admin c = Some False)"
    and d': "d' = d\<lparr>sd_users := dict_set i (apply_user_update hash c us) (sd_users d)\<rparr>"
    by (auto simp: update_user_def split: option.splits)
  from admin_caller[OF p(1) assms(2,3) p(2)] have a: "active_admin d (pr_id p)" .
  have "active_admin d' (pr_id p)"
  proof (cases "i = pr_id p")
    case True
    with a us own show ?thesis
      by (auto simp: active_admin_def d' apply_user_update_def Let_def split: option.splits)
  next
    case False
    with a show ?thesis by (simp add: active_admin_def d')
  qed
  then show ?thesis ..
qed

lemma delete_user_admin:
  assumes "delete_user m sub i d = Inr d'" and "m \<noteq> Some ''electron''" and "users_ok d"
  shows "\<exists>j. active_admin d' j"
proof -
  from assms(1) obtain p where p: "get_current_user m d sub = Inr p" "pr_admin p" "i \<noteq> pr_id p"
    and d': "sd_users d' = dict_pop i (sd_users d)"
    using remove_all_personal_fields[of i personal_types d]
    by (auto simp: delete_user_def delete_memberships_for_user_def Let_def)
  from admin_caller[OF p(1) assms(2,3) p(2)] p(3) have "active_admin d' (pr_id p)" by (simp add: active_admin_def d')
  then show ?thesis ..
qed

lemma change_password_admin:
  assumes "change_own_password hash verify m sub cur pw d = Inr d'" and "active_admin d i"
  shows "active_admin d' i"
proof -
  from assms(1) obtain p where p: "get_current_user m d sub = Inr p" by (auto simp: change_own_password_def)
  with assms(1) obtain us where us: "dict_get (sd_users d) (pr_id p) = Some us"
    by (auto simp: change_own_password_def split: option.splits)
  with assms p show ?thesis by (cases "i = pr_id p") (auto simp: active_admin_def change_own_password_def)
qed


text \<open>The remaining requests leave the table of users alone.\<close>

fun account_request :: "request \<Rightarrow> bool" where
  "account_request (CreateUser n pw e f a) = True"
| "account_request (UpdateUser i c) = True"
| "account_request (DeleteUser i) = True"
| "account_request (ChangePassword c pw) = True"
| "account_request _ = False"

definition same_people :: "share_db \<Rightarrow> share_db \<Rightarrow> bool" where
  "same_people d d' \<longleftrightarrow> sd_users d' = sd_users d \<and> sd_groups d' = sd_groups d \<and> sd_members d' = sd_members d"

lemma create_namespace_people:
  assumes "create_namespace cloud env name owner parent desc uri conn d = Inr d'" and "spaces_ok d"
  shows "same_people d d'"
proof -
  from assms obtain n where "d' = d\<lparr>sd_spaces := dict_set (next_row_id (dict_keys (sd_spaces d))) n (sd_spaces d)\<rparr>"
    by (rule create_namespace_cases)
  then show ?thesis by (simp add: same_people_def)
qed

lemma update_namespace_people:
  assumes "update_namespace cloud i n desc uri conn d = Inr d'"
  shows "same_people d d'"
proof -
  from assms obtain a a' where "saved_row d i a' d'" by (rule update_namespace_saved)
  then show ?thesis by (simp add: saved_row_def same_people_def)
qed

lemma delete_namespace_people:
  assumes "delete_namespace i d = Inr d'"
  shows "same_people d d'"
proof -
  from assms have "d' = drop_space i d" by (auto elim: delete_namespace_cases)
  then show ?thesis by (simp add: same_people_def)
qed

lemma create_share_people: "create_share m sub t r g perm d = Inr d' \<Longrightarrow> same_people d d'"
  by (clarsimp simp: create_share_def Let_def same_people_def)

lemma update_share_people: "update_share m sub i perm d = Inr d' \<Longrightarrow> same_people d d'"
  by (clarsimp simp: update_share_def same_people_def split: option.splits)

lemma delete_share_people: "delete_share m sub i d = Inr d' \<Longrightarrow> same_people d d'"
  by (clarsimp simp: delete_share_def same_people_def split: option.splits)

lemma create_secret_people: "create_secret C m sub n v d = Inr d' \<Longrightarrow> same_people d d'"
  by (clarsimp simp: create_secret_def store_secret_def same_people_def Let_def)

lemma remove_secret_people: "remove_secret m sub n d = Inr d' \<Longrightarrow> same_people d d'"
  by (clarsimp simp: remove_secret_def delete_secret_def same_people_def drop_item_def delete_grants_for_resource_def
      split: option.splits)

lemma item_people: "same_people d (add_item t x d)" "same_people d (drop_item t i d)"
  by (simp_all add: same_people_def add_item_def drop_item_def delete_grants_for_resource_def)

fun group_request :: "request \<Rightarrow> bool" where
  "group_request (CreateGroup n desc) = True"
| "group_request (UpdateGroup g n desc) = True"
| "group_request (DeleteGroup g) = True"
| "group_request (AddMember g u r) = True"
| "group_request (UpdateMember g u r) = True"
| "group_request (RemoveMember g u) = True"
| "group_request _ = False"

lemma api_people:
  assumes "api E sub c d = Inr d'" and "\<not> account_request c" and "\<not> group_request c" and "spaces_ok d"
  shows "same_people d d'"
proof (cases c)
  case (CreateNamespace n parent desc uri conn)
  with assms show ?thesis
    by (auto simp: service_create_namespace_def require_namespace_writable_def intro: create_namespace_people)
next
  case (UpdateNamespace i n desc uri conn)
  with assms show ?thesis
    by (auto simp: service_update_namespace_def require_manage_def require_namespace_owner_def Let_def
        split: if_splits intro: update_namespace_people)
next
  case (DeleteNamespace i)
  with assms show ?thesis
    by (auto simp: service_delete_namespace_def require_manage_def intro: delete_namespace_people)
qed (use assms create_share_people update_share_people delete_share_people create_secret_people remove_secret_people
    item_people in auto)

lemma group_request_users:
  assumes "api E sub c d = Inr d'" and "group_request c"
  shows "sd_users d' = sd_users d"
  using assms(2)
  by (cases c) (use assms(1) in \<open>auto simp: create_user_group_def update_user_group_def delete_user_group_def add_member_def
    update_member_def remove_member_def Let_def delete_memberships_for_group_def delete_grants_for_group_def
    split: option.splits\<close>)

lemma api_users:
  assumes "api E sub c d = Inr d'" and "\<not> account_request c" and "spaces_ok d"
  shows "sd_users d' = sd_users d"
  using assms api_people[of E sub c d d'] group_request_users[of E sub c d d']
  by (cases "group_request c") (simp_all add: same_people_def)


text \<open>The caller of a sharing request stays an administrator or an ordinary user; groups keep an owner.\<close>

definition groups_owned :: "share_db \<Rightarrow> bool" where
  "groups_owned d \<longleftrightarrow> (\<forall>g \<in> set (dict_keys (sd_groups d)). 0 < owner_count d g)"

lemma owner_count_pos: "0 < owner_count d g \<longleftrightarrow> (\<exists>b \<in> set (sd_members d). mb_group b = g \<and> mb_role b = ''owner'')"
  by (auto simp: owner_count_def filter_empty_conv)

lemma groups_owned_iff:
  "groups_owned d \<longleftrightarrow>
     (\<forall>g. dict_get (sd_groups d) g \<noteq> None \<longrightarrow> (\<exists>b \<in> set (sd_members d). mb_group b = g \<and> mb_role b = ''owner''))"
  by (auto simp: groups_owned_def owner_count_pos)

lemma groups_owned_same:
  "groups_owned d \<Longrightarrow> sd_members d' = sd_members d \<Longrightarrow> dom (map_of (sd_groups d')) \<subseteq> dom (map_of (sd_groups d))
   \<Longrightarrow> groups_owned d'"
  unfolding groups_owned_iff by (auto simp: domIff subset_eq)

lemma role_of_row:
  assumes ok: "members_ok d" and b: "b \<in> set (sd_members d)" "mb_group b = g" "mb_user b = u"
    and role: "group_role d g u = Some old"
  shows "mb_role b = old"
proof -
  from role obtain b' where b': "find (\<lambda>b. mb_group b = g \<and> mb_user b = u) (sd_members d) = Some b'" "mb_role b' = old"
    by (auto simp: group_role_def)
  from ok have "inj_on (\<lambda>b. (mb_group b, mb_user b)) (set (sd_members d))" by (simp add: members_ok_def distinct_map)
  with find_SomeD[OF b'(1)] b have "b' = b" by (auto dest: inj_onD)
  with b' show ?thesis by simp
qed

text \<open>A group with two owner rows keeps one when the rows of one user go.\<close>

lemma another_owner:
  assumes ok: "members_ok d" and two: "1 < owner_count d g"
  shows "\<exists>b \<in> set (sd_members d). mb_group b = g \<and> mb_role b = ''owner'' \<and> mb_user b \<noteq> u"
proof (rule ccontr)
  assume none: "\<not> ?thesis"
  let ?os = "filter (\<lambda>b. mb_group b = g \<and> mb_role b = ''owner'') (sd_members d)"
  let ?ks = "map (\<lambda>b. (mb_group b, mb_user b)) ?os"
  have "distinct ?ks" using ok by (simp add: members_ok_def distinct_map_filter)
  then have "length ?ks = card (set ?ks)" by (simp only: distinct_card)
  also have "\<dots> \<le> card {(g, u)}" by (rule card_mono) (use none in auto)
  finally show False using two by (simp add: owner_count_def)
qed

lemma owner_remains:
  assumes ok: "members_ok d" and own: "groups_owned d" and old: "group_role d g u = Some old"
    and keep: "\<not> (old = ''owner'' \<and> \<not> P \<and> owner_count d g \<le> 1)" and h: "dict_get (sd_groups d) h \<noteq> None"
  shows "\<exists>b \<in> set (sd_members d). mb_group b = h \<and> mb_role b = ''owner'' \<and> (mb_group b = g \<and> mb_user b = u \<longrightarrow> P)"
proof -
  from own h obtain b where b: "b \<in> set (sd_members d)" "mb_group b = h" "mb_role b = ''owner''"
    unfolding groups_owned_iff by blast
  show ?thesis
  proof (cases "mb_group b = g \<and> mb_user b = u \<and> \<not> P")
    case True
    then have key: "mb_group b = g" "mb_user b = u" by simp_all
    from role_of_row[OF ok b(1) key old] b(3) True keep have "1 < owner_count d g" by simp
    from another_owner[OF ok this, of u] obtain b' where "b' \<in> set (sd_members d)" "mb_group b' = g"
      "mb_role b' = ''owner''" "mb_user b' \<noteq> u" by blast
    with key b(2) show ?thesis by auto
  next
    case False
    with b show ?thesis by blast
  qed
qed

lemma update_member_owned:
  assumes "update_member m sub g u role d = Inr d'" and ok: "members_ok d" and own: "groups_owned d"
  shows "groups_owned d'"
proof -
  from assms(1) obtain old where old: "group_role d g u = Some old"
    and keep: "\<not> (old = ''owner'' \<and> role \<noteq> ''owner'' \<and> owner_count d g \<le> 1)"
    and d': "d' = d\<lparr>sd_members := set_role g u role (sd_members d)\<rparr>"
    by (auto simp: update_member_def split: option.splits)
  show ?thesis unfolding groups_owned_iff
  proof (intro allI impI)
    fix h
    assume "dict_get (sd_groups d') h \<noteq> None"
    then have "dict_get (sd_groups d) h \<noteq> None" by (simp add: d')
    from owner_remains[OF ok own old keep this] obtain b where b: "b \<in> set (sd_members d)" "mb_group b = h"
      "mb_role b = ''owner''" "mb_group b = g \<and> mb_user b = u \<longrightarrow> role = ''owner''" by blast
    let ?b = "if mb_group b = g \<and> mb_user b = u then b\<lparr>mb_role := role\<rparr> else b"
    have "?b \<in> set (sd_members d')" using b(1) by (simp add: d' set_role_def del: if_split)
    moreover have "mb_group ?b = h \<and> mb_role ?b = ''owner''" using b by simp
    ultimately show "\<exists>b \<in> set (sd_members d'). mb_group b = h \<and> mb_role b = ''owner''" by blast
  qed
qed

lemma remove_member_owned:
  assumes "remove_member m sub g u d = Inr d'" and ok: "members_ok d" and own: "groups_owned d"
  shows "groups_owned d'"
proof -
  from assms(1) obtain old where old: "group_role d g u = Some old"
    and keep: "\<not> (old = ''owner'' \<and> \<not> False \<and> owner_count d g \<le> 1)"
    and d': "d' = d\<lparr>sd_members := filter (\<lambda>b. \<not> (mb_group b = g \<and> mb_user b = u)) (sd_members d)\<rparr>"
    by (auto simp: remove_member_def split: option.splits)
  show ?thesis unfolding groups_owned_iff
  proof (intro allI impI)
    fix h
    assume "dict_get (sd_groups d') h \<noteq> None"
    then have "dict_get (sd_groups d) h \<noteq> None" by (simp add: d')
    from owner_remains[OF ok own old keep this] show "\<exists>b \<in> set (sd_members d'). mb_group b = h \<and> mb_role b = ''owner''"
      by (auto simp: d')
  qed
qed


lemma new_group_owned:
  assumes "groups_owned d" and "sd_groups d' = dict_set i gp (sd_groups d)" and "sd_members d' = sd_members d @ [b]"
    and "mb_group b = i" and "mb_role b = ''owner''"
  shows "groups_owned d'"
  using assms unfolding groups_owned_iff by auto

lemma create_user_group_owned:
  assumes "create_user_group m sub name desc d = Inr d'" and own: "groups_owned d"
  shows "groups_owned d'"
proof -
  let ?i = "next_row_id (dict_keys (sd_groups d))"
  from assms(1) obtain p where "get_current_user m d sub = Inr p"
    and "d' = d\<lparr>sd_groups := dict_set ?i \<lparr>gp_name = name, gp_description = desc, gp_creator = pr_id p\<rparr> (sd_groups d),
      sd_members := sd_members d @ [\<lparr>mb_group = ?i, mb_user = pr_id p, mb_role = ''owner''\<rparr>]\<rparr>"
    by (auto simp: create_user_group_def Let_def)
  then show ?thesis
    by (intro new_group_owned[OF own, where b = "\<lparr>mb_group = ?i, mb_user = pr_id p, mb_role = ''owner''\<rparr>"]) simp_all
qed

lemma update_user_group_owned:
  assumes "update_user_group m sub g name desc d = Inr d'" and own: "groups_owned d"
  shows "groups_owned d'"
proof -
  from assms(1) obtain gp gp' where gp: "dict_get (sd_groups d) g = Some gp"
    and d': "d' = d\<lparr>sd_groups := dict_set g gp' (sd_groups d)\<rparr>"
    by (auto simp: update_user_group_def Let_def split: option.splits if_splits)
  show ?thesis by (rule groups_owned_same[OF own]) (use gp in \<open>auto simp: d'\<close>)
qed

lemma delete_user_group_owned:
  assumes "delete_user_group m sub g d = Inr d'" and own: "groups_owned d"
  shows "groups_owned d'"
proof -
  from assms(1) have d': "sd_groups d' = dict_pop g (sd_groups d)" "sd_members d' = filter (\<lambda>b. mb_group b \<noteq> g) (sd_members d)"
    by (auto simp: delete_user_group_def Let_def delete_memberships_for_group_def delete_grants_for_group_def)
  from own show ?thesis unfolding groups_owned_iff by (auto simp: d')
qed

lemma add_member_owned:
  assumes "add_member m sub g u role d = Inr d'" and own: "groups_owned d"
  shows "groups_owned d'"
proof -
  from assms(1) have "d' = d\<lparr>sd_members := sd_members d @ [\<lparr>mb_group = g, mb_user = u, mb_role = role\<rparr>]\<rparr>"
    by (auto simp: add_member_def)
  with own show ?thesis unfolding groups_owned_iff by auto
qed


lemma api_keeps_admin:
  assumes "api E sub c d = Inr d'" and on: "ae_mode E \<noteq> Some ''electron''" and ok: "share_ok d" and admin: "has_admin d"
  shows "has_admin d'"
proof -
  note k = share_okD[OF ok]
  from share_okD(8)[OF api_ok[OF assms(1) ok]] have ok': "dict_ok (sd_users d')" .
  from admin k(8) obtain i where i: "active_admin d i" by (auto simp: has_admin_iff)
  have "\<exists>j. active_admin d' j"
  proof (cases c)
    case (CreateUser n pw e f a)
    with assms(1) create_user_admin[OF _ i] show ?thesis by (intro exI[of _ i]) simp
  next
    case (UpdateUser j x)
    with assms(1) update_user_admin[OF _ on k(1)] show ?thesis by simp
  next
    case (DeleteUser j)
    with assms(1) delete_user_admin[OF _ on k(1)] show ?thesis by simp
  next
    case (ChangePassword x pw)
    with assms(1) change_password_admin[OF _ i] show ?thesis by (intro exI[of _ i]) simp
  qed (use i api_users[OF assms(1) _ k(5)] in \<open>auto simp: active_admin_def\<close>)
  then show ?thesis using ok' by (simp add: has_admin_iff)
qed

lemma api_keeps_owners:
  assumes "api E sub c d = Inr d'" and "\<forall>i. c \<noteq> DeleteUser i" and ok: "share_ok d" and own: "groups_owned d"
  shows "groups_owned d'"
proof -
  note k = share_okD[OF ok]
  have same: "same_people d d' \<Longrightarrow> groups_owned d'" by (rule groups_owned_same[OF own]) (simp_all add: same_people_def)
  show ?thesis
  proof (cases c)
    case (CreateUser n pw e f a)
    then show ?thesis using assms(1)
      by (intro groups_owned_same[OF own]) (auto simp: create_user_def Let_def split: option.splits list.splits)
  next
    case (UpdateUser j x)
    then show ?thesis using assms(1)
      by (intro groups_owned_same[OF own]) (auto simp: update_user_def Let_def split: option.splits list.splits)
  next
    case (ChangePassword x pw)
    then show ?thesis using assms(1)
      by (intro groups_owned_same[OF own]) (auto simp: change_own_password_def split: option.splits)
  qed (use assms create_user_group_owned[OF _ own] update_user_group_owned[OF _ own] delete_user_group_owned[OF _ own]
      add_member_owned[OF _ own] update_member_owned[OF _ k(3) own] remove_member_owned[OF _ k(3) own]
      same[OF api_people[OF assms(1) _ _ k(5)]] in \<open>simp_all\<close>)
qed

lemma perform_all_keeps_admin:
  assumes "ae_mode E \<noteq> Some ''electron''" and "share_ok d" and "has_admin d"
  shows "has_admin (perform_all E cs d)"
proof -
  have "share_ok (perform_all E cs d) \<and> has_admin (perform_all E cs d)"
    unfolding perform_all_def
  proof (rule fold_invariant)
    show "share_ok d \<and> has_admin d" using assms by simp
    show "share_ok (perform E c d') \<and> has_admin (perform E c d')" if "share_ok d' \<and> has_admin d'" for c d'
      using that api_keeps_admin[OF _ assms(1), of "fst c" "snd c" d'] perform_ok[of d' E c]
      by (auto simp: perform_def split: sum.splits)
  qed
  then show ?thesis ..
qed

lemma perform_all_keeps_owners:
  assumes "\<forall>(sub, c) \<in> set cs. \<forall>i. c \<noteq> DeleteUser i" and "share_ok d" and "groups_owned d"
  shows "groups_owned (perform_all E cs d)"
proof -
  have "share_ok (perform_all E cs d) \<and> groups_owned (perform_all E cs d)"
    unfolding perform_all_def
  proof (rule fold_invariant)
    show "share_ok d \<and> groups_owned d" using assms by simp
    show "share_ok (perform E c d') \<and> groups_owned (perform E c d')"
      if "c \<in> set cs" "share_ok d' \<and> groups_owned d'" for c d'
      using that api_keeps_owners[of E "fst c" "snd c" d'] perform_ok[of d' E c] assms(1)
      by (auto simp: perform_def split: sum.splits)
  qed
  then show ?thesis ..
qed

text \<open>
  C9: No sequence of requests removes the last active administrator, and without a deletion of a user every
  group keeps an owner.
\<close>

theorem nobody_is_locked_out:
  assumes "share_ok d"
  shows "(ae_mode E \<noteq> Some ''electron'' \<longrightarrow> has_admin d \<longrightarrow> has_admin (perform_all E cs d))
    \<and> ((\<forall>(sub, c) \<in> set cs. \<forall>i. c \<noteq> DeleteUser i) \<longrightarrow> groups_owned d \<longrightarrow> groups_owned (perform_all E cs d))"
  using assms perform_all_keeps_admin perform_all_keeps_owners by blast


section \<open>What a set of users can reach\<close>

definition direct_reach :: "share_db \<Rightarrow> int set \<Rightarrow> string \<Rightarrow> string \<Rightarrow> int \<Rightarrow> bool" where
  "direct_reach d A perm t r \<longleftrightarrow>
     (\<exists>a \<in> A. owner_of d t r = Some (Some a)) \<or> (\<exists>a \<in> A. granted d a perm t r)"

text \<open>An item is also reached through its namespace and the parent of that, by owning or by a grant.\<close>

definition coalition_reach :: "share_db \<Rightarrow> int set \<Rightarrow> string \<Rightarrow> string \<Rightarrow> int \<Rightarrow> bool" where
  "coalition_reach d A perm t r \<longleftrightarrow>
     direct_reach d A perm t r
     \<or> t \<in> set namespace_scoped_types
       \<and> (\<exists>x k. dict_get (sd_items d) (t, r) = Some x \<and> it_space x = Some k
            \<and> (direct_reach d A perm ''catalog_namespace'' k
               \<or> (\<exists>n k'. dict_get (sd_spaces d) k = Some n \<and> ns_parent n = Some k'
                    \<and> direct_reach d A perm ''catalog_namespace'' k')))"

definition own_groups :: "share_db \<Rightarrow> int set \<Rightarrow> int set" where
  "own_groups d A = {mb_group b |b. b \<in> set (sd_members d) \<and> mb_user b \<in> A}"

fun sharing_request :: "request \<Rightarrow> bool" where
  "sharing_request (CreateShare t r g p) = True"
| "sharing_request (UpdateShare i p) = True"
| "sharing_request (DeleteShare i) = True"
| "sharing_request c = (account_request c \<or> group_request c)"

definition account_of :: "share_db \<Rightarrow> int \<Rightarrow> (string \<times> bool) option" where
  "account_of d i = map_option (\<lambda>us. (us_name us, us_admin us)) (dict_get (sd_users d) i)"

definition ordinary :: "share_db \<Rightarrow> int set \<Rightarrow> bool" where
  "ordinary d A \<longleftrightarrow> (\<forall>a \<in> A. case account_of d a of None \<Rightarrow> False | Some (n, admin) \<Rightarrow> \<not> admin)"

text \<open>A grant at the level \<open>manage\<close> was there at the start, or is on a resource that a user of \<open>A\<close> owns.\<close>

definition may_manage_by :: "share_db \<Rightarrow> int set \<Rightarrow> resource_grant \<Rightarrow> bool" where
  "may_manage_by d A g \<longleftrightarrow>
     gr_perm g \<noteq> ''manage''
     \<or> (\<exists>a \<in> A. owner_of d (gr_type g) (gr_resource g) = Some (Some a))
     \<or> (\<exists>x \<in> set (sd_grants d). gr_type x = gr_type g \<and> gr_resource x = gr_resource g \<and> gr_group x = gr_group g
          \<and> gr_perm x = ''manage'')"

text \<open>The invariant: what the groups of \<open>A\<close> are granted was within its reach at the start.\<close>

definition confined :: "share_db \<Rightarrow> int set \<Rightarrow> share_db \<Rightarrow> bool" where
  "confined d A e \<longleftrightarrow>
     share_ok e \<and> sd_spaces e = sd_spaces d \<and> sd_items e = sd_items d \<and> (\<forall>i. account_of e i = account_of d i)
     \<and> own_groups e A \<subseteq> own_groups d A
     \<and> (\<forall>g \<in> set (sd_grants e). gr_group g \<in> own_groups d A \<longrightarrow> coalition_reach d A (gr_perm g) (gr_type g) (gr_resource g))
     \<and> (\<forall>g \<in> set (sd_grants e). may_manage_by d A g)"

lemma direct_reach_use: "direct_reach d A perm t r \<Longrightarrow> direct_reach d A ''use'' t r"
  by (auto simp: direct_reach_def granted_def)

lemma coalition_reach_use: "coalition_reach d A perm t r \<Longrightarrow> coalition_reach d A ''use'' t r"
  unfolding coalition_reach_def by (meson direct_reach_use)

lemma coalition_reach_weaken:
  assumes "coalition_reach d A q t r" and "perm = ''use'' \<or> perm = ''manage''" and "perm = ''manage'' \<longrightarrow> q = ''manage''"
  shows "coalition_reach d A perm t r"
  using assms(2)
proof
  assume "perm = ''use''"
  with coalition_reach_use[OF assms(1)] show ?thesis by simp
next
  assume "perm = ''manage''"
  with assms(1,3) show ?thesis by simp
qed

lemma coalition_reach_space: "coalition_reach d A perm ''catalog_namespace'' k = direct_reach d A perm ''catalog_namespace'' k"
  by (simp add: coalition_reach_def namespace_scoped_types_def)

lemma confined_start:
  assumes ok: "share_ok d"
  shows "confined d A d"
proof -
  have "coalition_reach d A (gr_perm g) (gr_type g) (gr_resource g)"
    if "g \<in> set (sd_grants d)" "gr_group g \<in> own_groups d A" for g
  proof -
    from that obtain b where b: "b \<in> set (sd_members d)" "mb_user b \<in> A" "mb_group b = gr_group g"
      by (auto simp: own_groups_def)
    with that(1) have "granted d (mb_user b) (gr_perm g) (gr_type g) (gr_resource g)" unfolding granted_def by blast
    with b(2) show ?thesis unfolding coalition_reach_def direct_reach_def by blast
  qed
  moreover have "may_manage_by d A g" if "g \<in> set (sd_grants d)" for g using that by (auto simp: may_manage_by_def)
  ultimately show ?thesis using ok by (simp add: confined_def)
qed

lemma confined_granted:
  assumes "confined d A e" and a: "a \<in> A" and g: "granted e a perm t r" and perm: "perm = ''use'' \<or> perm = ''manage''"
  shows "coalition_reach d A perm t r"
proof -
  from g obtain x b where x: "x \<in> set (sd_grants e)" "gr_type x = t" "gr_resource x = r" "perm = ''manage'' \<longrightarrow> gr_perm x = ''manage''"
    and b: "b \<in> set (sd_members e)" "mb_user b = a" "mb_group b = gr_group x"
    unfolding granted_def by blast
  from b a have "gr_group x \<in> own_groups e A" unfolding own_groups_def by (auto intro!: exI[of _ b])
  with assms(1) x have "coalition_reach d A (gr_perm x) t r" unfolding confined_def by blast
  from coalition_reach_weaken[OF this perm x(4)] show ?thesis .
qed

lemma confined_access:
  assumes c: "confined d A e" and p: "pr_id p \<in> A" "\<not> pr_admin p" and perm: "perm = ''use'' \<or> perm = ''manage''"
    and acc: "has_access m e p t r None perm"
  shows "coalition_reach d A perm t r"
proof -
  from c have ok: "share_ok e" and same: "sd_spaces e = sd_spaces d" "sd_items e = sd_items d" by (simp_all add: confined_def)
  note k = share_okD[OF ok]
  from acc obtain ow where ow: "owner_of e t r = Some ow" "may m e p perm t r ow"
    unfolding has_access_may[OF spaces_ok_two_levels[OF k(5)] k(6) perm] by (auto split: option.splits)
  from ow(2) p(2) consider "ow = Some (pr_id p)" | "reaches e (pr_id p) perm t r" by (auto simp: may_def)
  then show ?thesis
  proof cases
    case 1
    with ow(1) p(1) same show ?thesis
      by (auto simp: coalition_reach_def direct_reach_def owner_of_cong[of e d])
  next
    case 2
    note g = confined_granted[OF c p(1) _ perm]
    from 2 consider "granted e (pr_id p) perm t r"
      | x k where "t \<in> set namespace_scoped_types" "dict_get (sd_items d) (t, r) = Some x" "it_space x = Some k"
          "space_granted e (pr_id p) perm k"
      by (auto simp: reaches_def same split: option.splits)
    then show ?thesis
    proof cases
      case 1
      then show ?thesis by (rule g)
    next
      case 2
      from 2(4) consider "granted e (pr_id p) perm ''catalog_namespace'' k"
        | n k' where "dict_get (sd_spaces d) k = Some n" "ns_parent n = Some k'" "granted e (pr_id p) perm ''catalog_namespace'' k'"
        by (auto simp: space_granted_def same split: option.splits)
      then show ?thesis
      proof cases
        case 1
        from g[OF this] 2(1-3) show ?thesis by (auto simp: coalition_reach_def namespace_scoped_types_def)
      next
        case (2 n k')
        from g[OF 2(3)] 2(1,2) \<open>t \<in> _\<close> \<open>dict_get (sd_items d) (t, r) = Some x\<close> \<open>it_space x = Some k\<close>
        show ?thesis unfolding coalition_reach_space by (auto simp: coalition_reach_def)
      qed
    qed
  qed
qed


text \<open>A request of a user in \<open>A\<close> is made by an ordinary user.\<close>

lemma confined_caller:
  assumes c: "confined d A e" and ord: "ordinary d A" and a: "a \<in> A" "account_of d a = Some (n, admin)"
    and on: "m \<noteq> Some ''electron''" and p: "get_current_user m e (Some n) = Inr p"
  shows "pr_id p = a \<and> \<not> pr_admin p"
proof -
  from c have ok: "share_ok e" and acc: "\<And>i. account_of e i = account_of d i" by (simp_all add: confined_def)
  note k = share_okD[OF ok]
  from current_user_row[OF p on k(1)] obtain us where us: "dict_get (sd_users e) (pr_id p) = Some us"
    "p = principal_of (pr_id p) us" "us_name us = n" by auto
  from a(2) acc[of a] obtain ua where ua: "dict_get (sd_users e) a = Some ua" "us_name ua = n" "us_admin ua = admin"
    by (auto simp: account_of_def)
  from k(1) have "unique_by us_name (sd_users e)" by (simp add: users_ok_def)
  with us ua have id: "pr_id p = a" unfolding unique_by_iff[OF k(8)] by metis
  with us ua have "us = ua" by simp
  moreover from arg_cong[OF us(2), of pr_admin] have "pr_admin p = us_admin us" by (simp add: principal_of_def)
  moreover from ord a have "\<not> admin" by (auto simp: ordinary_def)
  ultimately show ?thesis using id ua(3) by simp
qed

lemma own_groups_mono: "set (sd_members e') \<subseteq> set (sd_members e) \<Longrightarrow> own_groups e' A \<subseteq> own_groups e A"
  unfolding own_groups_def by blast

text \<open>A request that leaves accounts alone, and whose new grants are within reach.\<close>

lemma confined_next:
  assumes c: "confined d A e" and ok: "share_ok e'" and same: "sd_spaces e' = sd_spaces e" "sd_items e' = sd_items e"
    and users: "\<And>i. account_of e' i = account_of e i" and groups: "own_groups e' A \<subseteq> own_groups d A"
    and grants: "\<And>g. g \<in> set (sd_grants e') \<Longrightarrow>
      g \<in> set (sd_grants e) \<or> coalition_reach d A (gr_perm g) (gr_type g) (gr_resource g) \<and> may_manage_by d A g"
  shows "confined d A e'"
proof -
  have old: "(gr_group g \<in> own_groups d A \<longrightarrow> coalition_reach d A (gr_perm g) (gr_type g) (gr_resource g)) \<and> may_manage_by d A g"
    if "g \<in> set (sd_grants e)" for g
    using c that by (simp add: confined_def)
  have "(gr_group g \<in> own_groups d A \<longrightarrow> coalition_reach d A (gr_perm g) (gr_type g) (gr_resource g)) \<and> may_manage_by d A g"
    if "g \<in> set (sd_grants e')" for g
    using grants[OF that] old by blast
  with c ok same users groups show ?thesis by (simp add: confined_def)
qed

lemma confined_shrink:
  assumes c: "confined d A e" and ok: "share_ok e'" and same: "sd_spaces e' = sd_spaces e" "sd_items e' = sd_items e"
    and users: "sd_users e' = sd_users e" and members: "set (sd_members e') \<subseteq> set (sd_members e)"
    and grants: "set (sd_grants e') \<subseteq> set (sd_grants e)"
  shows "confined d A e'"
proof (rule confined_next[OF c ok same])
  show "own_groups e' A \<subseteq> own_groups d A" using own_groups_mono[OF members, of A] c by (auto simp: confined_def)
qed (use users grants in \<open>auto simp: account_of_def\<close>)

text \<open>The caller may share what it manages; it hands on \<open>manage\<close> only as the owner.\<close>

lemma confined_new_grant:
  assumes c: "confined d A e" and p: "pr_id p \<in> A" "\<not> pr_admin p"
    and man: "can_manage m e p (gr_type g) (gr_resource g) None" and perm: "gr_perm g \<in> {''use'', ''manage''}"
    and own: "gr_perm g = ''manage'' \<longrightarrow> is_resource_owner e p (gr_type g) (gr_resource g)"
  shows "coalition_reach d A (gr_perm g) (gr_type g) (gr_resource g) \<and> may_manage_by d A g"
proof -
  from c have ok: "share_ok e" and same: "sd_spaces e = sd_spaces d" "sd_items e = sd_items d" by (simp_all add: confined_def)
  note k = share_okD[OF ok]
  have "coalition_reach d A ''manage'' (gr_type g) (gr_resource g)"
    by (rule confined_access[OF c p _ man[unfolded can_manage_def]]) simp
  moreover from perm have "gr_perm g = ''use'' \<or> gr_perm g = ''manage''" by blast
  ultimately have "coalition_reach d A (gr_perm g) (gr_type g) (gr_resource g)" by (rule coalition_reach_weaken) simp
  moreover have "may_manage_by d A g"
    using own p(1) resolve_owner[OF spaces_dict[OF k(5)] k(6)] owner_of_cong[of e d] same
    by (auto simp: may_manage_by_def is_resource_owner_def)
  ultimately show ?thesis ..
qed


text \<open>The requests one by one.\<close>

lemma confined_password:
  assumes s: "change_own_password hash verify m sub cur pw e = Inr e'" and c: "confined d A e" and ok: "share_ok e'"
  shows "confined d A e'"
proof -
  from s obtain p where p: "get_current_user m e sub = Inr p" by (auto simp: change_own_password_def)
  with s obtain us where us: "dict_get (sd_users e) (pr_id p) = Some us"
    and e': "e' = e\<lparr>sd_users := dict_set (pr_id p) (us\<lparr>us_hash := hash pw, us_must_change := False\<rparr>) (sd_users e)\<rparr>"
    by (auto simp: change_own_password_def split: option.splits)
  have "account_of e' i = account_of e i" for i by (simp add: e' account_of_def us)
  then show ?thesis using c by (intro confined_next[OF c ok]) (auto simp: e' own_groups_def confined_def)
qed

lemma confined_add_member:
  assumes s: "add_member m sub g u role e = Inr e'" and c: "confined d A e" and ok: "share_ok e'"
    and p: "get_current_user m e sub = Inr p" "pr_id p \<in> A" "\<not> pr_admin p"
  shows "confined d A e'"
proof -
  from s p have e': "e' = e\<lparr>sd_members := sd_members e @ [\<lparr>mb_group = g, mb_user = u, mb_role = role\<rparr>]\<rparr>"
    and adm: "group_admin e g p (role = ''owner'')"
    by (auto simp: add_member_def)
  from adm p(3) have "group_role e g (pr_id p) \<noteq> None"
    by (cases "group_role e g (pr_id p)") (simp_all add: group_admin_def)
  then obtain b where b: "b \<in> set (sd_members e)" "mb_group b = g" "mb_user b = pr_id p" unfolding group_role_None by blast
  have "mb_group b \<in> own_groups e A" unfolding own_groups_def mem_Collect_eq by (rule exI[of _ b]) (simp add: b p)
  with b(2) have "g \<in> own_groups e A" by simp
  then have "own_groups e' A \<subseteq> own_groups e A" by (auto simp: e' own_groups_def)
  then have "own_groups e' A \<subseteq> own_groups d A" using c by (auto simp: confined_def)
  then show ?thesis by (intro confined_next[OF c ok]) (simp_all add: e' account_of_def)
qed

lemma confined_update_member:
  assumes s: "update_member m sub g u role e = Inr e'" and c: "confined d A e" and ok: "share_ok e'"
  shows "confined d A e'"
proof -
  from s have e': "e' = e\<lparr>sd_members := set_role g u role (sd_members e)\<rparr>"
    by (auto simp: update_member_def split: option.splits)
  have "own_groups e' A \<subseteq> own_groups e A" by (auto simp: e' own_groups_def set_role_def)
  then show ?thesis using c by (intro confined_next[OF c ok]) (auto simp: e' account_of_def confined_def)
qed

lemma confined_remove_member:
  assumes s: "remove_member m sub g u e = Inr e'" and c: "confined d A e" and ok: "share_ok e'"
  shows "confined d A e'"
proof -
  from s have e': "e' = e\<lparr>sd_members := filter (\<lambda>b. \<not> (mb_group b = g \<and> mb_user b = u)) (sd_members e)\<rparr>"
    by (auto simp: remove_member_def split: option.splits)
  show ?thesis by (rule confined_shrink[OF c ok]) (auto simp: e')
qed

lemma confined_update_group:
  assumes s: "update_user_group m sub g name desc e = Inr e'" and c: "confined d A e" and ok: "share_ok e'"
  shows "confined d A e'"
proof -
  from s obtain gp where e': "e' = e\<lparr>sd_groups := dict_set g gp (sd_groups e)\<rparr>"
    by (auto simp: update_user_group_def Let_def split: option.splits if_splits)
  show ?thesis by (rule confined_shrink[OF c ok]) (auto simp: e')
qed

lemma confined_delete_group:
  assumes s: "delete_user_group m sub g e = Inr e'" and c: "confined d A e" and ok: "share_ok e'"
  shows "confined d A e'"
proof -
  from s have e': "e' = e\<lparr>sd_groups := dict_pop g (sd_groups e), sd_members := filter (\<lambda>b. mb_group b \<noteq> g) (sd_members e),
      sd_grants := filter (\<lambda>x. gr_group x \<noteq> g) (sd_grants e)\<rparr>"
    by (auto simp: delete_user_group_def Let_def delete_memberships_for_group_def delete_grants_for_group_def)
  show ?thesis by (rule confined_shrink[OF c ok]) (auto simp: e')
qed

lemma confined_create_share:
  assumes s: "create_share m sub t r g perm e = Inr e'" and c: "confined d A e" and ok: "share_ok e'"
    and p: "get_current_user m e sub = Inr p" "pr_id p \<in> A" "\<not> pr_admin p"
  shows "confined d A e'"
proof -
  let ?g = "\<lparr>gr_id = next_row_id (map gr_id (sd_grants e)), gr_type = t, gr_resource = r, gr_group = g, gr_perm = perm, gr_by = pr_id p\<rparr>"
  from s p(1) have e': "e' = e\<lparr>sd_grants := sd_grants e @ [?g]\<rparr>" and man: "can_manage m e p t r None"
    and perm: "perm \<in> {''use'', ''manage''}"
    by (clarsimp simp: create_share_def Let_def)+
  from s p have own: "perm = ''manage'' \<longrightarrow> is_resource_owner e p t r" by (clarsimp simp: create_share_def Let_def)
  have "coalition_reach d A (gr_perm ?g) (gr_type ?g) (gr_resource ?g) \<and> may_manage_by d A ?g"
    by (rule confined_new_grant[OF c p(2,3)]) (use man perm own in simp_all)
  then show ?thesis using c by (intro confined_next[OF c ok]) (auto simp: e' account_of_def own_groups_def confined_def)
qed

lemma confined_update_share:
  assumes s: "update_share m sub i perm e = Inr e'" and c: "confined d A e" and ok: "share_ok e'"
    and p: "get_current_user m e sub = Inr p" "pr_id p \<in> A" "\<not> pr_admin p"
  shows "confined d A e'"
proof -
  from c have "share_ok e" by (simp add: confined_def)
  note k = share_okD[OF this]
  from s p obtain x where x: "get_grant e i = Some x" and man: "can_manage m e p (gr_type x) (gr_resource x) None"
    and perm: "perm \<in> {''use'', ''manage''}" and own: "perm = ''manage'' \<longrightarrow> is_resource_owner e p (gr_type x) (gr_resource x)"
    and e': "e' = e\<lparr>sd_grants := map (\<lambda>y. if gr_id y = i then y\<lparr>gr_perm := perm\<rparr> else y) (sd_grants e)\<rparr>"
    by (auto simp: update_share_def split: option.splits)
  from k(4) have inj: "inj_on gr_id (set (sd_grants e))" by (simp add: grants_ok_def distinct_map)
  have new: "coalition_reach d A perm (gr_type x) (gr_resource x) \<and> may_manage_by d A (x\<lparr>gr_perm := perm\<rparr>)"
    using confined_new_grant[OF c p(2,3), of m "x\<lparr>gr_perm := perm\<rparr>"] man perm own by simp
  show ?thesis
  proof (rule confined_next[OF c ok])
    fix g
    assume "g \<in> set (sd_grants e')"
    then obtain y where y: "y \<in> set (sd_grants e)" "g = (if gr_id y = i then y\<lparr>gr_perm := perm\<rparr> else y)" by (auto simp: e')
    show "g \<in> set (sd_grants e) \<or> coalition_reach d A (gr_perm g) (gr_type g) (gr_resource g) \<and> may_manage_by d A g"
    proof (cases "gr_id y = i")
      case True
      with inj y(1) get_grantD[OF x] have "y = x" by (auto dest: inj_onD)
      with y(2) True new show ?thesis by simp
    next
      case False
      with y show ?thesis by simp
    qed
  qed (use c in \<open>auto simp: e' account_of_def own_groups_def confined_def\<close>)
qed

lemma confined_delete_share:
  assumes s: "delete_share m sub i e = Inr e'" and c: "confined d A e" and ok: "share_ok e'"
  shows "confined d A e'"
proof -
  from s have e': "e' = e\<lparr>sd_grants := filter (\<lambda>y. gr_id y \<noteq> i) (sd_grants e)\<rparr>"
    by (auto simp: delete_share_def split: option.splits)
  show ?thesis by (rule confined_shrink[OF c ok]) (auto simp: e')
qed

lemma confined_step:
  assumes c: "confined d A e" and ord: "ordinary d A" and a: "a \<in> A" "account_of d a = Some (n, admin)"
    and on: "ae_mode E \<noteq> Some ''electron''" and req: "sharing_request x" and s: "api E (Some n) x e = Inr e'"
  shows "confined d A e'"
proof -
  from c have "share_ok e" by (simp add: confined_def)
  note ok = api_ok[OF s this]
  have caller: "pr_id p \<in> A" "\<not> pr_admin p" if "get_current_user (ae_mode E) e (Some n) = Inr p" for p
    using confined_caller[OF c ord a on that] a(1) by simp_all
  show ?thesis
  proof (cases x)
    case (CreateUser v1 v2 v3 v4 v5)
    with s caller show ?thesis by (auto simp: create_user_def)
  next
    case (UpdateUser v1 v2)
    with s caller show ?thesis by (auto simp: update_user_def)
  next
    case (DeleteUser v1)
    with s caller show ?thesis by (auto simp: delete_user_def)
  next
    case (ChangePassword v1 v2)
    with s show ?thesis by (auto intro: confined_password[OF _ c ok])
  next
    case (CreateGroup v1 v2)
    with s caller show ?thesis by (auto simp: create_user_group_def)
  next
    case (UpdateGroup v1 v2 v3)
    with s show ?thesis by (auto intro: confined_update_group[OF _ c ok])
  next
    case (DeleteGroup v1)
    with s show ?thesis by (auto intro: confined_delete_group[OF _ c ok])
  next
    case (AddMember v1 v2 v3)
    with s obtain p where p: "get_current_user (ae_mode E) e (Some n) = Inr p" by (auto simp: add_member_def)
    with s AddMember caller[OF p] show ?thesis by (auto intro: confined_add_member[OF _ c ok p])
  next
    case (UpdateMember v1 v2 v3)
    with s show ?thesis by (auto intro: confined_update_member[OF _ c ok])
  next
    case (RemoveMember v1 v2)
    with s show ?thesis by (auto intro: confined_remove_member[OF _ c ok])
  next
    case (CreateShare v1 v2 v3 v4)
    with s obtain p where p: "get_current_user (ae_mode E) e (Some n) = Inr p" by (auto simp: create_share_def)
    with s CreateShare caller[OF p] show ?thesis by (auto intro: confined_create_share[OF _ c ok p])
  next
    case (UpdateShare v1 v2)
    with s obtain p where p: "get_current_user (ae_mode E) e (Some n) = Inr p" by (auto simp: update_share_def)
    with s UpdateShare caller[OF p] show ?thesis by (auto intro: confined_update_share[OF _ c ok p])
  next
    case (DeleteShare v1)
    with s show ?thesis by (auto intro: confined_delete_share[OF _ c ok])
  qed (use req in simp_all)
qed


lemma confined_all:
  assumes ok: "share_ok d" and ord: "ordinary d A" and on: "ae_mode E \<noteq> Some ''electron''"
    and reqs: "\<forall>(sub, c) \<in> set cs. sharing_request c \<and> (\<exists>a \<in> A. \<exists>n admin. account_of d a = Some (n, admin) \<and> sub = Some n)"
  shows "confined d A (perform_all E cs d)"
  unfolding perform_all_def
proof (rule fold_invariant)
  show "confined d A d" by (rule confined_start[OF ok])
  fix x e
  assume x: "x \<in> set cs" and c: "confined d A e"
  obtain sub q where x': "x = (sub, q)" by (cases x)
  with reqs x obtain a n admin where "a \<in> A" "account_of d a = Some (n, admin)" "sub = Some n" "sharing_request q" by blast
  with confined_step[OF c ord _ _ on] c show "confined d A (perform E x e)"
    by (auto simp: perform_def x' split: sum.splits)
qed

text \<open>
  C7: Ordinary users who share among themselves, whatever they request and in whatever order, gain no access
  that one of them did not own or hold, by itself or through the namespace, and hand on manage access only to
  what one of them owns.
\<close>

theorem sharing_stays_within_reach:
  assumes "share_ok d" and "ordinary d A" and "ae_mode E \<noteq> Some ''electron''"
    and "\<forall>(sub, c) \<in> set cs. sharing_request c \<and> (\<exists>a \<in> A. \<exists>n admin. account_of d a = Some (n, admin) \<and> sub = Some n)"
  shows "(\<forall>a \<in> A. \<forall>us perm t r. dict_get (sd_users (perform_all E cs d)) a = Some us \<longrightarrow> perm \<in> {''use'', ''manage''} \<longrightarrow>
      has_access (ae_mode E) (perform_all E cs d) (principal_of a us) t r None perm \<longrightarrow> coalition_reach d A perm t r)
    \<and> (\<forall>g \<in> set (sd_grants (perform_all E cs d)). may_manage_by d A g)"
proof -
  note c = confined_all[OF assms]
  have "coalition_reach d A perm t r"
    if a: "a \<in> A" "dict_get (sd_users (perform_all E cs d)) a = Some us" and perm: "perm \<in> {''use'', ''manage''}"
      and acc: "has_access (ae_mode E) (perform_all E cs d) (principal_of a us) t r None perm"
    for a us perm t r
  proof (rule confined_access[OF c _ _ _ acc])
    show "perm = ''use'' \<or> perm = ''manage''" using perm by blast
    show "pr_id (principal_of a us) \<in> A" using a(1) by (simp add: principal_of_def)
    from c have "account_of (perform_all E cs d) a = account_of d a" by (simp add: confined_def)
    with a(2) assms(2) a(1) show "\<not> pr_admin (principal_of a us)"
      by (auto simp: ordinary_def account_of_def principal_of_def split: option.splits)
  qed
  moreover have "\<forall>g \<in> set (sd_grants (perform_all E cs d)). may_manage_by d A g" using c by (simp add: confined_def)
  ultimately show ?thesis by blast
qed


text \<open>The administrator tries to lock itself out, and the owner of a group to leave it.\<close>

definition leaving :: "(string option \<times> request) list" where
  "leaving =
     [(Some ''root'', UpdateUser 1 \<lparr>uu_email = None, uu_full = None, uu_disabled = Some True, uu_admin = None,
         uu_password = None, uu_must_change = None\<rparr>),
      (Some ''alice'', RemoveMember 1 2), (Some ''root'', UpdateMember 1 2 ''member'')]"

theorem nobody_is_locked_out_witness:
  "has_admin (perform_all sample_api leaving sample_share) \<and> groups_owned (perform_all sample_api leaving sample_share)"
proof -
  have "has_admin sample_share" "groups_owned sample_share" "ae_mode sample_api \<noteq> Some ''electron''" by code_simp+
  moreover have "\<forall>(sub, c) \<in> set leaving. \<forall>i. c \<noteq> DeleteUser i" by (simp add: leaving_def)
  ultimately show ?thesis
    using nobody_is_locked_out[OF sample_share_ok, of sample_api leaving] by blast
qed

text \<open>Alice and Bob share what they have, and try to take more.\<close>

definition scheme :: "(string option \<times> request) list" where
  "scheme =
     [(Some ''alice'', CreateShare ''secret'' 1 1 ''use''), (Some ''bob'', CreateShare ''catalog_table'' 1 1 ''manage''),
      (Some ''bob'', UpdateMember 1 3 ''owner''), (Some ''alice'', AddMember 1 4 ''member'')]"

lemma ordinary_sample: "ordinary sample_share {2, 3}"
  by (simp add: ordinary_def account_of_def sample_share_def sample_user_def)

theorem sharing_stays_within_reach_witness:
  "can_use (Some ''docker'') (perform_all sample_api scheme sample_share) (principal_of 3 (sample_user ''bob'' False)) ''secret'' 1 None
   \<and> coalition_reach sample_share {2, 3} ''use'' ''secret'' 1"
proof
  let ?d = "perform_all sample_api scheme sample_share"
  show use: "can_use (Some ''docker'') ?d (principal_of 3 (sample_user ''bob'' False)) ''secret'' 1 None" by code_simp
  have reqs: "\<forall>(sub, c) \<in> set scheme. sharing_request c
      \<and> (\<exists>a \<in> {2, 3}. \<exists>n admin. account_of sample_share a = Some (n, admin) \<and> sub = Some n)"
    by (simp add: scheme_def account_of_def sample_share_def sample_user_def)
  have mode: "ae_mode sample_api \<noteq> Some ''electron''" by (simp add: sample_api_def)
  have row: "dict_get (sd_users ?d) 3 = Some (sample_user ''bob'' False)" by code_simp
  show "coalition_reach sample_share {2, 3} ''use'' ''secret'' 1"
    using sharing_stays_within_reach[OF sample_share_ok ordinary_sample mode reqs] row use
    by (simp add: can_use_def sample_api_def)
qed

section \<open>What the requests allow\<close>

text \<open>
  Catalog content stays when its owner is deleted. The next user gets the same id and with it everything
  that the deleted user owned.
\<close>

definition heir :: share_db where
  "heir = perform_all sample_api
     [(Some ''root'', DeleteUser 4), (Some ''root'', CreateUser ''mallory'' ''passw0rd!'' None None False)] sample_share"

lemma new_user_inherits:
  "dict_get (sd_users heir) 4 = Some ((sample_user ''mallory'' False)\<lparr>us_hash := ''passw0rd!'', us_must_change := True\<rparr>)"
  "can_manage (Some ''docker'') heir (principal_of 4 (sample_user ''mallory'' False)) ''catalog_table'' 1 None"
  by code_simp+

text \<open>A grant on a catalog reaches the tables of its schemas, but not the schemas as containers.\<close>

lemma granted_child_invisible:
  "visible_namespace_ids (Some ''docker'') sample_share
     (access_resolver (Some ''docker'') sample_share (principal_of 3 (sample_user ''bob'' False))) = {1}"
  "2 \<in> expand_namespace_grants (Some ''docker'') sample_share 3 ''use'' None None"
  by code_simp+

text \<open>
  The owner of a namespace cannot manage what others put there, until it grants the namespace to a group
  of its own.
\<close>

definition guest_table :: share_db where
  "guest_table = sample_share\<lparr>sd_grants := [], sd_spaces := map (\<lambda>(i, n). (i, n\<lparr>ns_owner := 2\<rparr>)) (sd_spaces sample_share)\<rparr>"

lemma owner_takes_manage:
  "\<not> can_manage (Some ''docker'') guest_table (principal_of 2 (sample_user ''alice'' False)) ''catalog_table'' 1 None"
  "can_manage (Some ''docker'')
     (perform_all sample_api [(Some ''alice'', CreateShare ''catalog_namespace'' 1 1 ''manage'')] guest_table)
     (principal_of 2 (sample_user ''alice'' False)) ''catalog_table'' 1 None"
  by code_simp+

text \<open>One type of the registry cannot be named in a request to share.\<close>

lemma notebook_not_shareable:
  "''catalog_notebook'' \<in> fst ` set resource_registry"
  "create_share m sub ''catalog_notebook'' r g perm d \<noteq> Inr d'"
  by (auto simp: resource_registry_def create_share_def share_types_def)

end
