(* ===== verification/Select_Inputs.thy ===== *)
theory Select_Inputs
  imports Prelude
begin

text \<open>
  Column selections and join settings of \<open>schemas/transform_schema.py\<close>: \<open>SelectInput\<close> with its validators and its
  YAML form, the queries of \<open>SelectInputsManager\<close> and \<open>JoinInputsManager\<close>, and the joint renaming
  \<open>auto_rename\<close> of the join managers.

  The managers copy their input and change the copy, so a manager is the changed input. After validation
  \<open>new_name\<close> is never missing.
\<close>

record select_input =
  si_old :: string
  si_new :: string
  si_type :: "string option"
  si_type_change :: bool
  si_key :: bool
  si_altered :: bool
  si_available :: bool
  si_keep :: bool

text \<open>
  The constructor with its two validators. \<open>change = None\<close> means that \<open>data_type_change\<close> was not given.
\<close>

definition make_select ::
  "string \<Rightarrow> string option \<Rightarrow> string option \<Rightarrow> bool option \<Rightarrow> bool \<Rightarrow> bool \<Rightarrow> bool \<Rightarrow> select_input" where
  "make_select old new ty change altered key keep =
     (let ch = (case change of Some b \<Rightarrow> b | None \<Rightarrow> ty \<noteq> None);
          n = (case new of Some x \<Rightarrow> x | None \<Rightarrow> old) in
      \<lparr>si_old = old, si_new = n, si_type = ty, si_type_change = ch, si_key = key,
       si_altered = (altered \<or> old \<noteq> n \<or> ch), si_available = True, si_keep = keep\<rparr>)"

abbreviation select_col :: "string \<Rightarrow> select_input" where
  "select_col old \<equiv> make_select old None None None False False True"

section \<open>YAML\<close>

text \<open>The dictionary of a selection; a field is \<open>None\<close> when its key is absent.\<close>

record select_yaml =
  sy_old :: string
  sy_new :: "string option"
  sy_keep :: "bool option"
  sy_type :: "string option"

definition select_to_yaml :: "select_input \<Rightarrow> select_yaml" where
  "select_to_yaml c =
     \<lparr>sy_old = si_old c,
      sy_new = (if si_new c \<noteq> si_old c then Some (si_new c) else None),
      sy_keep = (if \<not> si_keep c then Some (si_keep c) else None),
      sy_type = (if si_type c = Some [] then None else si_type c)\<rparr>"

definition select_from_yaml :: "select_yaml \<Rightarrow> select_input" where
  "select_from_yaml y =
     (let new = (case sy_new y of Some n \<Rightarrow> n | None \<Rightarrow> sy_old y) in
      make_select (sy_old y) (Some new) (sy_type y) (Some (sy_type y \<noteq> None)) (sy_old y \<noteq> new \<or> sy_type y \<noteq> None) False
        (case sy_keep y of Some b \<Rightarrow> b | None \<Rightarrow> True))"

text \<open>What a selection does to a table: the column it takes, its new name and type, and whether it stays.\<close>

definition select_effect :: "select_input \<Rightarrow> string \<times> string \<times> string option \<times> bool" where
  "select_effect c = (si_old c, si_new c, if si_type c = Some [] then None else si_type c, si_keep c)"

lemma select_yaml_roundtrip:
  "select_effect (select_from_yaml (select_to_yaml c)) = select_effect c"
  "select_to_yaml (select_from_yaml (select_to_yaml c)) = select_to_yaml c"
  by (simp_all add: select_effect_def select_from_yaml_def select_to_yaml_def make_select_def Let_def)

section \<open>Queries\<close>

definition get_old_cols :: "select_input list \<Rightarrow> string list" where
  "get_old_cols rs = map si_old (filter si_keep rs)"

definition get_new_cols :: "select_input list \<Rightarrow> string list" where
  "get_new_cols rs = map si_new (filter si_keep rs)"

definition selected :: "select_input \<Rightarrow> bool" where
  "selected c \<longleftrightarrow> si_keep c \<or> si_key c"

text \<open>A dictionary comprehension: a later entry with the same key wins.\<close>

definition dict_of :: "('k \<times> 'v) list \<Rightarrow> ('k, 'v) dict" where
  "dict_of kvs = fold (\<lambda>(k, v). dict_set k v) kvs []"

definition get_rename_table :: "select_input list \<Rightarrow> (string, string) dict" where
  "get_rename_table rs = dict_of (map (\<lambda>c. (si_old c, si_new c)) (filter (\<lambda>c. si_available c \<and> selected c) rs))"

definition get_select_cols :: "select_input list \<Rightarrow> string list" where
  "get_select_cols rs = map si_old (filter selected rs)"

definition construct_join_key_name :: "bool \<Rightarrow> string \<Rightarrow> string" where
  "construct_join_key_name left n = ''_FLOWFILE_JOIN_KEY_'' @ (if left then ''LEFT'' else ''RIGHT'') @ ''_'' @ n"

definition get_join_key_renames :: "bool \<Rightarrow> bool \<Rightarrow> select_input list \<Rightarrow> (string \<times> string) list" where
  "get_join_key_renames left filter_drop rs =
     map (\<lambda>c. (si_new c, construct_join_key_name left (si_new c)))
       (filter (\<lambda>c. si_key c \<and> (si_keep c \<or> \<not> filter_drop)) rs)"

definition get_join_key_rename_mapping :: "bool \<Rightarrow> select_input list \<Rightarrow> (string, string) dict" where
  "get_join_key_rename_mapping left rs = dict_of (get_join_key_renames left False rs)"

lemma dict_of_append: "dict_of (xs @ [(k, v)]) = dict_set k v (dict_of xs)"
  by (simp add: dict_of_def)

lemma dict_of_get: "dict_get (dict_of kvs) k = map_of (rev kvs) k"
proof (induction kvs rule: rev_induct)
  case Nil
  show ?case by (simp add: dict_of_def)
next
  case (snoc kv kvs)
  then show ?case by (cases kv) (simp add: dict_of_append)
qed

text \<open>With distinct keys the order does not matter.\<close>

lemma dict_of_distinct: "distinct (map fst kvs) \<Longrightarrow> dict_get (dict_of kvs) k = map_of kvs k"
  using map_of_inject_set[of "rev kvs" kvs] by (simp add: dict_of_get rev_map[symmetric])

section \<open>Renaming the right side\<close>

datatype rename_mode = Prefix | Suffix

definition bump :: "rename_mode \<Rightarrow> string \<Rightarrow> string" where
  "bump md s = (case md of Prefix \<Rightarrow> ''right_'' @ s | Suffix \<Rightarrow> s @ ''_right'')"

definition get_overlapping_columns :: "select_input list \<Rightarrow> select_input list \<Rightarrow> string set" where
  "get_overlapping_columns L R = set (get_new_cols L) \<inter> set (get_new_cols R)"

definition rename_in :: "rename_mode \<Rightarrow> string set \<Rightarrow> select_input list \<Rightarrow> select_input list" where
  "rename_in md X R = map (\<lambda>c. if si_new c \<in> X then c\<lparr>si_new := bump md (si_new c)\<rparr> else c) R"

text \<open>
  How far the kept names on the right are from being longer than every kept name on the left. A round of
  the loop makes every overlapping name longer.
\<close>

definition slack :: "select_input list \<Rightarrow> select_input list \<Rightarrow> nat" where
  "slack L R = sum_list (map (\<lambda>c. Suc (Max (insert 0 (length ` set (get_new_cols L)))) - length (si_new c)) (filter si_keep R))"

lemma bump_longer: "length s < length (bump md s)"
  by (cases md) (simp_all add: bump_def)

lemma rename_in_keep: "filter si_keep (rename_in md X R) = rename_in md X (filter si_keep R)"
  by (induction R) (auto simp: rename_in_def)

lemma sum_list_decreases:
  fixes f g :: "'a \<Rightarrow> nat"
  assumes "x \<in> set xs" and "f x < g x" and "\<And>y. f y \<le> g y"
  shows "sum_list (map f xs) < sum_list (map g xs)"
  using assms(1)
proof (induction xs)
  case (Cons y xs)
  have "sum_list (map f xs) \<le> sum_list (map g xs)" by (rule sum_list_mono) (rule assms(3))
  with Cons assms(2) assms(3)[of y] show ?case by (cases "x = y") (auto simp: add_less_le_mono add_le_less_mono)
qed simp

lemma slack_decreases:
  assumes "get_overlapping_columns L R \<noteq> {}"
  shows "slack L (rename_in md (get_overlapping_columns L R) R) < slack L R"
proof -
  let ?X = "get_overlapping_columns L R"
  define N where "N = Suc (Max (insert 0 (length ` set (get_new_cols L))))"
  define g where "g c = (if si_new c \<in> ?X then c\<lparr>si_new := bump md (si_new c)\<rparr> else c)" for c :: select_input
  have short: "length x < N" if "x \<in> ?X" for x
  proof -
    from that have "length x \<le> Max (insert 0 (length ` set (get_new_cols L)))"
      by (intro Max_ge) (auto simp: get_overlapping_columns_def)
    then show ?thesis by (simp add: N_def)
  qed
  have le: "N - length (si_new (g c)) \<le> N - length (si_new c)" for c :: select_input
    using bump_longer[of "si_new c" md] by (auto simp: g_def intro: diff_le_mono2)
  have less: "N - length (si_new (g c)) < N - length (si_new c)" if "si_new c \<in> ?X" for c :: select_input
    using that short[OF that] bump_longer[of "si_new c" md] by (simp add: g_def diff_less_mono2)
  from assms obtain x where x: "x \<in> ?X" by blast
  then have "x \<in> si_new ` set (filter si_keep R)" by (simp add: get_overlapping_columns_def get_new_cols_def)
  with x obtain c where c: "c \<in> set (filter si_keep R)" "si_new c \<in> ?X" by blast
  from c(1) less[OF c(2)] le
  have "sum_list (map (\<lambda>c. N - length (si_new (g c))) (filter si_keep R)) < sum_list (map (\<lambda>c. N - length (si_new c)) (filter si_keep R))"
    by (rule sum_list_decreases)
  then show ?thesis unfolding slack_def rename_in_keep by (simp add: rename_in_def g_def N_def comp_def)
qed

function auto_rename :: "rename_mode \<Rightarrow> select_input list \<Rightarrow> select_input list \<Rightarrow> select_input list" where
  "auto_rename md L R =
     (if get_overlapping_columns L R = {} then R
      else auto_rename md L (rename_in md (get_overlapping_columns L R) R))"
  by pat_completeness auto

termination
  by (relation "measure (\<lambda>(md, L, R). slack L R)") (simp_all add: slack_decreases)

declare auto_rename.simps [simp del]


text \<open>The name a column ends up with: the first one that is not a kept name of the left side.\<close>

function free_name :: "rename_mode \<Rightarrow> string set \<Rightarrow> string \<Rightarrow> string" where
  "free_name md X s = (if finite X \<and> s \<in> X then free_name md X (bump md s) else s)"
  by pat_completeness auto

termination
proof (relation "measure (\<lambda>(md, X, s). Suc (Max (insert 0 (length ` X))) - length s)", goal_cases)
  case 1
  show ?case by simp
next
  case (2 md X s)
  then have "length s \<le> Max (insert 0 (length ` X))" by (intro Max_ge) auto
  with bump_longer[of s md] show ?case by simp
qed

declare free_name.simps [simp del]

lemma free_name_free: "finite X \<Longrightarrow> free_name md X s \<notin> X"
  by (induction md X s rule: free_name.induct) (metis free_name.simps)

lemma free_name_id: "s \<notin> X \<Longrightarrow> free_name md X s = s"
  by (simp add: free_name.simps)

lemma free_name_bump: "finite X \<Longrightarrow> s \<in> X \<Longrightarrow> free_name md X s = free_name md X (bump md s)"
  by (subst free_name.simps) simp

definition renamed :: "rename_mode \<Rightarrow> select_input list \<Rightarrow> select_input list \<Rightarrow> select_input list" where
  "renamed md L R = map (\<lambda>c. if si_keep c then c\<lparr>si_new := free_name md (set (get_new_cols L)) (si_new c)\<rparr> else c) R"

text \<open>
  \<open>auto_rename\<close> ends, leaves no kept name on both sides, and gives every kept column on the right the first
  free name. A column that is not kept is renamed only along with a kept one of the same name.
\<close>

lemma auto_rename_no_overlap: "get_overlapping_columns L (auto_rename md L R) = {}"
  by (induction md L R rule: auto_rename.induct) (metis auto_rename.simps)

lemma auto_rename_kept: "filter si_keep (auto_rename md L R) = filter si_keep (renamed md L R)"
proof (induction md L R rule: auto_rename.induct)
  case (1 md L R)
  let ?N = "set (get_new_cols L)" and ?X = "get_overlapping_columns L R"
  have kept: "filter si_keep (renamed md L R) =
      map (\<lambda>c. c\<lparr>si_new := free_name md ?N (si_new c)\<rparr>) (filter si_keep R)" for R
    by (induction R) (simp_all add: renamed_def)
  show ?case
  proof (cases "?X = {}")
    case True
    then have "si_new c \<notin> ?N" if "c \<in> set (filter si_keep R)" for c
      using that by (auto simp: get_overlapping_columns_def get_new_cols_def)
    then have "c\<lparr>si_new := free_name md ?N (si_new c)\<rparr> = c" if "c \<in> set (filter si_keep R)" for c
      using that by (simp add: free_name_id)
    then have "filter si_keep (renamed md L R) = filter si_keep R" unfolding kept by (intro map_idI) blast
    with True show ?thesis by (simp add: auto_rename.simps)
  next
    case False
    have same: "free_name md ?N (si_new (if si_new c \<in> ?X then c\<lparr>si_new := bump md (si_new c)\<rparr> else c)) = free_name md ?N (si_new c)" for c
      using free_name_bump[of ?N "si_new c" md] by (simp add: get_overlapping_columns_def)
    have "filter si_keep (renamed md L (rename_in md ?X R)) = filter si_keep (renamed md L R)"
      unfolding kept rename_in_keep by (auto simp: rename_in_def same intro!: map_cong)
    with 1[OF False] False show ?thesis by (simp add: auto_rename.simps[of md L R])
  qed
qed


lemma auto_rename_names: "get_new_cols (auto_rename md L R) = map (free_name md (set (get_new_cols L))) (get_new_cols R)"
proof -
  have "filter si_keep (renamed md L R) =
      map (\<lambda>c. c\<lparr>si_new := free_name md (set (get_new_cols L)) (si_new c)\<rparr>) (filter si_keep R)"
    by (induction R) (simp_all add: renamed_def)
  then show ?thesis by (simp add: get_new_cols_def auto_rename_kept comp_def)
qed

text \<open>Apart from the new names the selections stay as they are.\<close>

definition same_but_name :: "select_input \<Rightarrow> select_input \<Rightarrow> bool" where
  "same_but_name c c' \<longleftrightarrow> c' = c\<lparr>si_new := si_new c'\<rparr>"

lemma same_but_name_trans: "same_but_name a b \<Longrightarrow> same_but_name b c \<Longrightarrow> same_but_name a c"
  unfolding same_but_name_def by (cases a, cases b, cases c) simp

lemma auto_rename_rest: "list_all2 same_but_name R (auto_rename md L R)"
proof (induction md L R rule: auto_rename.induct)
  case (1 md L R)
  show ?case
  proof (cases "get_overlapping_columns L R = {}")
    case True
    then show ?thesis by (simp add: auto_rename.simps[of md L R] same_but_name_def list_all2_refl)
  next
    case False
    have "list_all2 same_but_name R (rename_in md X R)" for X
      by (induction R) (auto simp: rename_in_def same_but_name_def)
    then have "list_all2 same_but_name R (auto_rename md L (rename_in md (get_overlapping_columns L R) R))"
      using 1[OF False] by (rule list_all2_trans[rotated]) (rule same_but_name_trans)
    with False show ?thesis by (simp add: auto_rename.simps[of md L R])
  qed
qed

text \<open>
  The names on the right that move: those that a kept column has or passes on its way to a free one. All columns with
  such a name are renamed, also those that are not kept.
\<close>

inductive moving :: "rename_mode \<Rightarrow> select_input list \<Rightarrow> select_input list \<Rightarrow> string \<Rightarrow> bool" for md L R where
  clash: "c \<in> set R \<Longrightarrow> si_keep c \<Longrightarrow> si_new c \<in> set (get_new_cols L) \<Longrightarrow> moving md L R (si_new c)"
| pass: "moving md L R s \<Longrightarrow> bump md s \<in> set (get_new_cols L) \<Longrightarrow> moving md L R (bump md s)"

lemma overlapping_iff: "x \<in> get_overlapping_columns L R \<longleftrightarrow> x \<in> set (get_new_cols L) \<and> (\<exists>c \<in> set R. si_keep c \<and> si_new c = x)"
  by (auto simp: get_overlapping_columns_def get_new_cols_def image_iff)

lemma overlapping_moving: "x \<in> get_overlapping_columns L R \<Longrightarrow> moving md L R x"
  using moving.clash by (auto simp: overlapping_iff)

lemma bumped_overlap:
  assumes "x \<in> get_overlapping_columns L R" and "bump md x \<in> set (get_new_cols L)"
  shows "moving md L (rename_in md (get_overlapping_columns L R) R) (bump md x)"
proof -
  let ?R = "rename_in md (get_overlapping_columns L R) R"
  from assms(1) obtain c where c: "c \<in> set R" "si_keep c" "si_new c = x" by (auto simp: overlapping_iff)
  then have "c\<lparr>si_new := bump md x\<rparr> \<in> set ?R" using assms(1) by (force simp: rename_in_def)
  from moving.clash[OF this, of L md] c(2) assms(2) show ?thesis by simp
qed

text \<open>One round of the loop: what moves afterwards moved before, and what moved before is renamed now or moves later.\<close>

lemma moving_round:
  "moving md L (rename_in md (get_overlapping_columns L R) R) s \<Longrightarrow> moving md L R s"
proof (induction rule: moving.induct)
  case (clash c)
  let ?X = "get_overlapping_columns L R"
  from clash(1) obtain b where b: "b \<in> set R" "c = (if si_new b \<in> ?X then b\<lparr>si_new := bump md (si_new b)\<rparr> else b)"
    by (auto simp: rename_in_def)
  show ?case
  proof (cases "si_new b \<in> ?X")
    case True
    with b clash(3) moving.pass[OF overlapping_moving[OF True, of md]] show ?thesis by simp
  next
    case False
    with b clash(2,3) moving.clash[of b R L md] show ?thesis by simp
  qed
qed (rule moving.pass)

lemma moving_before:
  "moving md L R s \<Longrightarrow> s \<in> get_overlapping_columns L R \<or> moving md L (rename_in md (get_overlapping_columns L R) R) s"
proof (induction rule: moving.induct)
  case (clash c)
  then show ?case by (auto simp: overlapping_iff)
next
  case (pass s)
  then show ?case using bumped_overlap[of s L R md] moving.pass[of md L "rename_in md (get_overlapping_columns L R) R" s] by blast
qed

lemma auto_rename_moving:
  "auto_rename md L R =
     map (\<lambda>c. if moving md L R (si_new c) then c\<lparr>si_new := free_name md (set (get_new_cols L)) (si_new c)\<rparr> else c) R"
proof (induction md L R rule: auto_rename.induct)
  case (1 md L R)
  let ?N = "set (get_new_cols L)" and ?X = "get_overlapping_columns L R"
  show ?case
  proof (cases "?X = {}")
    case True
    then have none: "x \<notin> get_overlapping_columns L R" for x by simp
    have "\<not> moving md L R s" for s
    proof
      assume "moving md L R s"
      then show False by (induction rule: moving.induct) (use none overlapping_iff[of _ L R] in blast)+
    qed
    with True show ?thesis by (simp add: auto_rename.simps[of md L R])
  next
    case False
    let ?R = "rename_in md ?X R"
    let ?g = "\<lambda>c. if moving md L ?R (si_new c) then c\<lparr>si_new := free_name md ?N (si_new c)\<rparr> else c"
    let ?h = "\<lambda>c. if si_new c \<in> ?X then c\<lparr>si_new := bump md (si_new c)\<rparr> else c"
    have step: "?g (?h c)
        = (if moving md L R (si_new c) then c\<lparr>si_new := free_name md ?N (si_new c)\<rparr> else c)" for c
    proof (cases "si_new c \<in> ?X")
      case True
      then have "free_name md ?N (si_new c) = free_name md ?N (bump md (si_new c))"
        by (intro free_name_bump) (simp_all add: overlapping_iff)
      moreover have "free_name md ?N (bump md (si_new c)) = bump md (si_new c)" if "\<not> moving md L ?R (bump md (si_new c))"
        using that bumped_overlap[OF True, of md] free_name_id by blast
      ultimately show ?thesis using True overlapping_moving[OF True, of md] by simp
    next
      case False
      then show ?thesis using moving_round[of md L R "si_new c"] moving_before[of md L R "si_new c"] by auto
    qed
    have rounds: "?R = map ?h R" by (rule rename_in_def)
    have "map ?g (map ?h R) = map (\<lambda>c. if moving md L R (si_new c) then c\<lparr>si_new := free_name md ?N (si_new c)\<rparr> else c) R"
      unfolding list.map_comp comp_def by (rule map_cong[OF refl step])
    with 1[OF False] False show ?thesis unfolding rounds[symmetric] by (simp add: auto_rename.simps[of md L R])
  qed
qed

text \<open>
  C22: auto_rename ends with no kept name on both sides. Each kept column on the right gets its first free name, and all
  that happens is that the columns on the right, kept or not, whose name moves (\<open>moving\<close>: a kept column on the right
  has it, or passes it on its way to a free name, and a kept column on the left has it too) get the first free name; no
  other name and no other field changes.
\<close>

theorem auto_rename_separates:
  "get_overlapping_columns L (auto_rename md L R) = {}
   \<and> get_new_cols (auto_rename md L R) = map (free_name md (set (get_new_cols L))) (get_new_cols R)
   \<and> auto_rename md L R =
       map (\<lambda>c. if moving md L R (si_new c) then c\<lparr>si_new := free_name md (set (get_new_cols L)) (si_new c)\<rparr> else c) R"
  by (intro conjI auto_rename_no_overlap auto_rename_names auto_rename_moving)

text \<open>
  The renaming does not look at the other names of the right side. Names that do not yet carry the added
  text stay distinct; otherwise two columns can get the same name.
\<close>

lemma bump_inj: "bump md s = bump md t \<longleftrightarrow> s = t"
  by (cases md) (simp_all add: bump_def)

lemma free_name_pow: "finite X \<Longrightarrow> \<exists>k. free_name md X s = (bump md ^^ k) s"
proof (induction md X s rule: free_name.induct)
  case (1 md X s)
  show ?case
  proof (cases "s \<in> X")
    case True
    with 1 obtain k where "free_name md X (bump md s) = (bump md ^^ k) (bump md s)" by blast
    with 1(2) True have "free_name md X s = (bump md ^^ Suc k) s" by (simp add: free_name_bump funpow_swap1)
    then show ?thesis by blast
  next
    case False
    then have "free_name md X s = (bump md ^^ 0) s" by (simp add: free_name_id)
    then show ?thesis by blast
  qed
qed

lemma bump_pow_inj:
  assumes "\<And>u. s \<noteq> bump md u" and "\<And>u. t \<noteq> bump md u"
  shows "(bump md ^^ i) s = (bump md ^^ j) t \<Longrightarrow> s = t"
proof (induction i arbitrary: j)
  case 0
  with assms(1) show ?case by (cases j) auto
next
  case (Suc i)
  with assms(2) show ?case by (cases j) (auto simp: bump_inj)
qed

lemma auto_rename_distinct:
  assumes "distinct (get_new_cols R)" and "\<And>s u. s \<in> set (get_new_cols R) \<Longrightarrow> s \<noteq> bump md u"
  shows "distinct (get_new_cols (auto_rename md L R))"
proof -
  have "inj_on (free_name md (set (get_new_cols L))) (set (get_new_cols R))"
  proof (rule inj_onI)
    fix s t
    assume s: "s \<in> set (get_new_cols R)" "t \<in> set (get_new_cols R)"
      and eq: "free_name md (set (get_new_cols L)) s = free_name md (set (get_new_cols L)) t"
    obtain i j where "free_name md (set (get_new_cols L)) s = (bump md ^^ i) s"
      "free_name md (set (get_new_cols L)) t = (bump md ^^ j) t" using free_name_pow by (metis finite_set)
    with eq have "(bump md ^^ i) s = (bump md ^^ j) t" by simp
    with s assms(2) show "s = t" by (blast intro: bump_pow_inj)
  qed
  with assms(1) show ?thesis by (simp add: auto_rename_names distinct_map)
qed

lemma auto_rename_collides:
  "get_new_cols (auto_rename Suffix [select_col ''a''] [select_col ''a'', select_col ''a_right'']) = [''a_right'', ''a_right'']"
  unfolding auto_rename_names by (simp add: get_new_cols_def make_select_def Let_def free_name.simps bump_def)

end
