(* ===== verification/Joins.thy ===== *)
theory Joins
  imports Select_Inputs
begin

text \<open>
  Joins: \<open>FlowDataEngine.join\<close> and \<open>do_cross_join\<close> of \<open>flow_data_engine/flow_data_engine.py\<close> with
  \<open>flow_data_engine/join/\<close>, the join managers of \<open>schemas/transform_schema.py\<close>, and the prediction of the output
  columns in \<open>schema_callbacks.py\<close>, which the editor shows before anything is run.

  The data frame library is the record \<open>frames\<close>: a frame has columns with types, and the operations that
  the code calls return a frame or raise (\<open>None\<close>). \<open>frames_ok\<close> states what their documentation says about
  the columns of the result.
\<close>

datatype join_how = Inner | LeftJoin | RightJoin | FullJoin | Semi | Anti | Outer | Cross

section \<open>The data frame library\<close>

record 'f frames =
  fr_cols :: "'f \<Rightarrow> string list"
  fr_type :: "'f \<Rightarrow> string \<Rightarrow> string"
  fr_select :: "'f \<Rightarrow> string list \<Rightarrow> 'f option"
  fr_rename :: "'f \<Rightarrow> (string, string) dict \<Rightarrow> 'f option"
  fr_copy :: "'f \<Rightarrow> (string \<times> string) list \<Rightarrow> 'f option"
  fr_drop :: "'f \<Rightarrow> string list \<Rightarrow> 'f option"
  fr_join :: "join_how \<Rightarrow> 'f \<Rightarrow> 'f \<Rightarrow> string option list \<Rightarrow> string option list \<Rightarrow> 'f option"

definition rename_col :: "(string, string) dict \<Rightarrow> string \<Rightarrow> string" where
  "rename_col d c = (case dict_get d c of Some n \<Rightarrow> n | None \<Rightarrow> c)"

text \<open>The columns of a join. The right key columns disappear from an inner and a left join only.\<close>

definition joined_cols :: "join_how \<Rightarrow> string list \<Rightarrow> string list \<Rightarrow> string list \<Rightarrow> string list" where
  "joined_cols how l r ron =
     (if how = Semi \<or> how = Anti then l
      else if how = Inner \<or> how = LeftJoin then l @ filter (\<lambda>c. c \<notin> set ron) r
      else l @ r)"

definition select_law :: "'f frames \<Rightarrow> bool" where
  "select_law P \<longleftrightarrow>
     (\<forall>f xs. distinct xs \<longrightarrow> set xs \<subseteq> set (fr_cols P f) \<longrightarrow> (\<exists>g. fr_select P f xs = Some g \<and> fr_cols P g = xs))"

definition rename_law :: "'f frames \<Rightarrow> bool" where
  "rename_law P \<longleftrightarrow>
     (\<forall>f d. set (dict_keys d) \<subseteq> set (fr_cols P f) \<longrightarrow> distinct (map (rename_col d) (fr_cols P f)) \<longrightarrow>
        (\<exists>g. fr_rename P f d = Some g \<and> fr_cols P g = map (rename_col d) (fr_cols P f)))"

definition copy_law :: "'f frames \<Rightarrow> bool" where
  "copy_law P \<longleftrightarrow>
     (\<forall>f cs. fst ` set cs \<subseteq> set (fr_cols P f) \<longrightarrow> distinct (fr_cols P f @ map snd cs) \<longrightarrow>
        (\<exists>g. fr_copy P f cs = Some g \<and> fr_cols P g = fr_cols P f @ map snd cs))"

definition drop_law :: "'f frames \<Rightarrow> bool" where
  "drop_law P \<longleftrightarrow>
     (\<forall>f xs. set xs \<subseteq> set (fr_cols P f) \<longrightarrow>
        (\<exists>g. fr_drop P f xs = Some g \<and> fr_cols P g = filter (\<lambda>c. c \<notin> set xs) (fr_cols P f)))"

definition join_law :: "'f frames \<Rightarrow> bool" where
  "join_law P \<longleftrightarrow>
     (\<forall>how l r lon ron. how \<in> {Inner, LeftJoin, FullJoin, Semi, Anti} \<longrightarrow>
        lon \<noteq> [] \<and> length lon = length ron \<and> distinct lon \<and> distinct ron \<longrightarrow>
        set lon \<subseteq> set (fr_cols P l) \<and> set ron \<subseteq> set (fr_cols P r) \<longrightarrow>
        distinct (joined_cols how (fr_cols P l) (fr_cols P r) ron) \<longrightarrow>
        (\<exists>g. fr_join P how l r (map Some lon) (map Some ron) = Some g
           \<and> fr_cols P g = joined_cols how (fr_cols P l) (fr_cols P r) ron))"

definition cross_law :: "'f frames \<Rightarrow> bool" where
  "cross_law P \<longleftrightarrow>
     (\<forall>l r. distinct (fr_cols P l @ fr_cols P r) \<longrightarrow>
        (\<exists>g. fr_join P Cross l r [] [] = Some g \<and> fr_cols P g = fr_cols P l @ fr_cols P r))"

definition frames_ok :: "'f frames \<Rightarrow> bool" where
  "frames_ok P \<longleftrightarrow>
     (\<forall>f. distinct (fr_cols P f)) \<and> select_law P \<and> rename_law P \<and> copy_law P \<and> drop_law P \<and> join_law P \<and> cross_law P"

text \<open>\<open>outer\<close> is the deprecated name of \<open>full\<close>.\<close>

definition outer_law :: "'f frames \<Rightarrow> bool" where
  "outer_law P \<longleftrightarrow> (\<forall>l r lon ron. fr_join P Outer l r lon ron = fr_join P FullJoin l r lon ron)"

section \<open>Join settings\<close>

record join_input =
  ji_map :: "(string \<times> string) list"
  ji_left :: "select_input list"
  ji_right :: "select_input list"
  ji_how :: join_how

definition mark_keys :: "string list \<Rightarrow> select_input list \<Rightarrow> select_input list" where
  "mark_keys ks rs = map (\<lambda>c. c\<lparr>si_key := si_old c \<in> set ks\<rparr>) rs"

definition set_join_keys :: "join_input \<Rightarrow> join_input" where
  "set_join_keys J =
     J\<lparr>ji_left := mark_keys (map fst (ji_map J)) (ji_left J), ji_right := mark_keys (map snd (ji_map J)) (ji_right J)\<rparr>"

definition ensure_cols :: "string list \<Rightarrow> select_input list \<Rightarrow> select_input list" where
  "ensure_cols cols rs = rs @ map select_col (filter (\<lambda>c. c \<notin> set (map si_old rs)) cols)"

definition ensure_all_columns_have_select :: "string list \<Rightarrow> string list \<Rightarrow> join_input \<Rightarrow> join_input" where
  "ensure_all_columns_have_select lcols rcols J =
     J\<lparr>ji_left := ensure_cols lcols (ji_left J), ji_right := ensure_cols rcols (ji_right J)\<rparr>"

definition ensure_right_unselect :: "join_input \<Rightarrow> join_input" where
  "ensure_right_unselect J =
     (if ji_how J \<in> {Semi, Anti} then J\<lparr>ji_right := map (\<lambda>c. c\<lparr>si_keep := False\<rparr>) (ji_right J)\<rparr> else J)"

definition add_key :: "string \<Rightarrow> select_input list \<Rightarrow> select_input list" where
  "add_key k rs = (if k \<notin> set (map si_old rs) then rs @ [make_select k None None None False False False] else rs)"

definition add_missing_keys :: "join_input \<Rightarrow> join_input" where
  "add_missing_keys J =
     fold (\<lambda>(a, b) J. J\<lparr>ji_left := add_key a (ji_left J), ji_right := add_key b (ji_right J)\<rparr>) (ji_map J) J"

definition check_available :: "string list \<Rightarrow> select_input list \<Rightarrow> select_input list" where
  "check_available cols rs = map (\<lambda>c. c\<lparr>si_available := si_old c \<in> set cols\<rparr>) rs"

definition verify_join_select_integrity :: "string list \<Rightarrow> string list \<Rightarrow> join_input \<Rightarrow> join_input" where
  "verify_join_select_integrity lcols rcols J =
     J\<lparr>ji_left := check_available lcols (ji_left J), ji_right := check_available rcols (ji_right J)\<rparr>"

text \<open>A schema is a list of names with generic data types.\<close>

definition verify_join_map_integrity ::
  "(string \<times> string) list \<Rightarrow> (string \<times> string) list \<Rightarrow> (string \<times> string) list \<Rightarrow> bool" where
  "verify_join_map_integrity ls rs jm =
     list_all (\<lambda>(a, b). case (dict_get (dict_of ls) a, dict_get (dict_of rs) b) of
        (Some x, Some y) \<Rightarrow> x = y | _ \<Rightarrow> False) jm"

definition join_auto_rename :: "join_input \<Rightarrow> join_input" where
  "join_auto_rename J = (let K = set_join_keys J in K\<lparr>ji_right := auto_rename Suffix (ji_left K) (ji_right K)\<rparr>)"

text \<open>\<open>JoinMap(left_col=.., right_col=..)\<close>: a missing right column becomes the left one.\<close>

definition join_map :: "string option \<Rightarrow> string option \<Rightarrow> string option \<times> string option" where
  "join_map l r = (l, if r = None then l else r)"

text \<open>A right key without an entry in the rename table falls back to the name of the \<^emph>\<open>left\<close> key, as in the code.\<close>

definition get_used_join_mapping :: "join_input \<Rightarrow> (string option \<times> string option) list" where
  "get_used_join_mapping J =
     (let lt = get_rename_table (ji_left J); rt = get_rename_table (ji_right J);
          lk = get_join_key_rename_mapping True (ji_left J); rk = get_join_key_rename_mapping False (ji_right J) in
      map (\<lambda>(a, b).
        (let lc = rename_col lt a; rc = (case dict_get rt b of Some n \<Rightarrow> n | None \<Rightarrow> a) in
         join_map (dict_get lk lc) (dict_get rk rc))) (ji_map J))"

section \<open>The join of the engine\<close>

datatype join_error = InvalidJoin | FrameError

definition try_frame :: "'f option \<Rightarrow> ('f \<Rightarrow> join_error + 'a) \<Rightarrow> join_error + 'a" where
  "try_frame x k = (case x of None \<Rightarrow> Inl FrameError | Some f \<Rightarrow> k f)"

definition temp_name :: "string \<Rightarrow> string" where
  "temp_name c = ''__FL_TEMP__'' @ c"

definition key_copies :: "select_input list \<Rightarrow> (string \<times> string) list" where
  "key_copies rs = map (\<lambda>c. (si_new c, temp_name (si_new c))) (filter si_key rs)"

definition reverse_actions :: "bool \<Rightarrow> select_input list \<Rightarrow> (string, string) dict" where
  "reverse_actions left rs =
     dict_of (map (\<lambda>c. (temp_name (si_new c), construct_join_key_name left (si_new c))) (filter si_key rs))"

definition handle_duplication_join_keys ::
  "'f frames \<Rightarrow> join_input \<Rightarrow> 'f \<Rightarrow> 'f \<Rightarrow> join_error + 'f \<times> 'f \<times> (string, string) dict" where
  "handle_duplication_join_keys P J l r =
     (if ji_how J = RightJoin
      then try_frame (fr_copy P l (key_copies (ji_left J))) (\<lambda>l'. Inr (l', r, reverse_actions True (ji_left J)))
      else if ji_how J \<in> {LeftJoin, Inner}
      then try_frame (fr_copy P r (key_copies (ji_right J))) (\<lambda>r'. Inr (l, r', reverse_actions False (ji_right J)))
      else Inr (l, r, []))"

definition get_col_name_to_delete :: "bool \<Rightarrow> select_input \<Rightarrow> string" where
  "get_col_name_to_delete left c = (if \<not> si_key c then si_new c else construct_join_key_name left (si_new c))"

definition dropped_keys :: "select_input list \<Rightarrow> select_input list" where
  "dropped_keys rs = filter (\<lambda>c. \<not> si_keep c \<and> si_available c \<and> si_key c) rs"

definition cols_to_delete :: "join_input \<Rightarrow> string list" where
  "cols_to_delete J =
     map (get_col_name_to_delete True) (dropped_keys (ji_left J))
     @ (if ji_how J \<in> {LeftJoin, RightJoin, Inner, Cross, Outer}
        then map (get_col_name_to_delete False) (dropped_keys (ji_right J)) else [])"

definition undo_rename_mapping :: "join_input \<Rightarrow> (string, string) dict" where
  "undo_rename_mapping J =
     dict_of (map (\<lambda>(a, b). (b, a)) (get_join_key_renames False True (ji_right J) @ get_join_key_renames True True (ji_left J)))"

definition prepare_join :: "bool \<Rightarrow> string list \<Rightarrow> string list \<Rightarrow> join_input \<Rightarrow> join_input" where
  "prepare_join auto lcols rcols J =
     (let K = verify_join_select_integrity lcols rcols
                (add_missing_keys (ensure_right_unselect (set_join_keys (ensure_all_columns_have_select lcols rcols (set_join_keys J))))) in
      if auto then join_auto_rename K else K)"

definition frame_schema :: "'f frames \<Rightarrow> 'f \<Rightarrow> (string \<times> string) list" where
  "frame_schema P f = map (\<lambda>c. (c, fr_type P f c)) (fr_cols P f)"

definition select_rename :: "'f frames \<Rightarrow> 'f \<Rightarrow> select_input list \<Rightarrow> 'f option" where
  "select_rename P f rs =
     (case fr_select P f (get_select_cols rs) of None \<Rightarrow> None | Some g \<Rightarrow> fr_rename P g (get_rename_table rs))"

definition drop_if_any :: "'f frames \<Rightarrow> 'f \<Rightarrow> string list \<Rightarrow> 'f option" where
  "drop_if_any P f xs = (if xs \<noteq> [] then fr_drop P f xs else Some f)"

definition raw_join :: "'f frames \<Rightarrow> join_input \<Rightarrow> 'f \<Rightarrow> 'f \<Rightarrow> 'f option" where
  "raw_join P J l r =
     (let lk = map fst (get_used_join_mapping J); rk = map snd (get_used_join_mapping J) in
      if ji_how J = RightJoin then fr_join P LeftJoin r l rk lk else fr_join P (ji_how J) l r lk rk)"

definition engine_join :: "'f frames \<Rightarrow> bool \<Rightarrow> join_input \<Rightarrow> 'f \<Rightarrow> 'f \<Rightarrow> join_error + 'f" where
  "engine_join P auto J0 fl fr =
     (let J = prepare_join auto (fr_cols P fl) (fr_cols P fr) J0 in
      if \<not> verify_join_map_integrity (frame_schema P fl) (frame_schema P fr) (ji_map J) then Inl InvalidJoin
      else try_frame (select_rename P fl (ji_left J)) (\<lambda>l.
           try_frame (select_rename P fr (ji_right J)) (\<lambda>r.
           case handle_duplication_join_keys P J l r of
             Inl e \<Rightarrow> Inl e
           | Inr (l', r', back) \<Rightarrow>
               try_frame (fr_rename P l' (dict_of (get_join_key_renames True False (ji_left J)))) (\<lambda>l2.
               try_frame (fr_rename P r' (dict_of (get_join_key_renames False False (ji_right J)))) (\<lambda>r2.
               try_frame (raw_join P J l2 r2) (\<lambda>j0.
               try_frame (fr_rename P j0 back) (\<lambda>j.
               try_frame (drop_if_any P j (cols_to_delete J)) (\<lambda>j1.
               try_frame (fr_rename P j1 (undo_rename_mapping J)) Inr))))))))"

section \<open>The prediction\<close>

definition order_by_cols :: "string list \<Rightarrow> select_input list \<Rightarrow> select_input list" where
  "order_by_cols cols rs =
     (let m = dict_of (map (\<lambda>c. (si_old c, c)) rs) in
      concat (map (\<lambda>x. case dict_get m x of Some c \<Rightarrow> [c] | None \<Rightarrow> []) cols))"

definition predicted_side :: "(string \<times> string) list \<Rightarrow> select_input list \<Rightarrow> (string \<times> string) list" where
  "predicted_side schema rs =
     concat (map (\<lambda>c. case dict_get (dict_of schema) (si_old c) of
        Some ty \<Rightarrow> (if si_keep c then [(si_new c, ty)] else []) | None \<Rightarrow> []) rs)"

text \<open>Missing keys are looked up in the names before the loop, and marked as keys.\<close>

definition add_predicted_keys :: "string list \<Rightarrow> select_input list \<Rightarrow> select_input list" where
  "add_predicted_keys ks rs =
     rs @ map (\<lambda>k. make_select k None None None False True False) (filter (\<lambda>k. k \<notin> set (map si_old rs)) ks)"

definition calculate_join_schema ::
  "join_input \<Rightarrow> (string \<times> string) list \<Rightarrow> (string \<times> string) list \<Rightarrow> bool \<Rightarrow> (string \<times> string) list" where
  "calculate_join_schema J0 ls rs auto =
     (let lcols = map fst ls; rcols = map fst rs;
          J1 = ensure_right_unselect (set_join_keys (ensure_all_columns_have_select lcols rcols (set_join_keys J0)));
          J2 = J1\<lparr>ji_left := order_by_cols lcols (add_predicted_keys (map fst (ji_map J1)) (ji_left J1)),
                  ji_right := order_by_cols rcols (add_predicted_keys (map snd (ji_map J1)) (ji_right J1))\<rparr>;
          J = (if auto then join_auto_rename J2 else J2) in
      predicted_side ls (ji_left J) @ predicted_side rs (ji_right J))"

end
