(* ===== verification/Join_Columns.thy ===== *)
theory Join_Columns
  imports Joins
begin

text \<open>
  The columns of a join: the engine produces the columns that the prediction shows, whatever the strategy,
  if the settings are ready (\<open>join_ready\<close>); and where the two differ.
\<close>

section \<open>Names\<close>

definition plain :: "string \<Rightarrow> bool" where
  "plain n \<longleftrightarrow> \<not> startswith n ''_FLOWFILE_JOIN_KEY_'' \<and> \<not> startswith n ''__FL_TEMP__''"

abbreviation tag :: "bool \<Rightarrow> select_input \<Rightarrow> string" where
  "tag \<equiv> get_col_name_to_delete"

lemma key_name_eq [simp]: "construct_join_key_name s x = construct_join_key_name s' y \<longleftrightarrow> s = s' \<and> x = y"
  by (auto simp: construct_join_key_name_def split: if_splits)

lemma temp_name_eq [simp]: "temp_name x = temp_name y \<longleftrightarrow> x = y"
  by (simp add: temp_name_def)

lemma key_not_temp [simp]: "construct_join_key_name s x \<noteq> temp_name y" "temp_name y \<noteq> construct_join_key_name s x"
  by (auto simp: construct_join_key_name_def temp_name_def)

lemma key_not_plain [simp]: "\<not> plain (construct_join_key_name s x)"
  using startswith_append[of "''_FLOWFILE_JOIN_KEY_''"] by (simp add: plain_def construct_join_key_name_def)

lemma temp_not_plain [simp]: "\<not> plain (temp_name x)"
  using startswith_append[of "''__FL_TEMP__''"] by (simp add: plain_def temp_name_def)

text \<open>Renaming by a list of pairs.\<close>

lemma rename_col_in:
  assumes "distinct (map fst kvs)" and "(k, v) \<in> set kvs"
  shows "rename_col (dict_of kvs) k = v"
  using assms by (simp add: rename_col_def dict_of_distinct)

lemma rename_col_fun:
  assumes "(k, v) \<in> set kvs" and "\<And>v'. (k, v') \<in> set kvs \<Longrightarrow> v' = v"
  shows "rename_col (dict_of kvs) k = v"
proof (cases "map_of (rev kvs) k")
  case None
  with assms(1) show ?thesis by (force simp: map_of_eq_None_iff)
next
  case (Some v')
  from map_of_SomeD[OF this] assms(2) have "v' = v" by simp
  with Some show ?thesis by (simp add: rename_col_def dict_of_get)
qed

lemma rename_col_out: "k \<notin> fst ` set kvs \<Longrightarrow> rename_col (dict_of kvs) k = k"
  by (simp add: rename_col_def dict_of_get map_of_eq_None_iff[THEN iffD2])

lemma dict_of_keys: "set (dict_keys (dict_of kvs)) = fst ` set kvs"
proof -
  have "dict_get (dict_of kvs) k \<noteq> None \<longleftrightarrow> k \<in> fst ` set kvs" for k
    by (simp add: dict_of_get map_of_eq_None_iff)
  then show ?thesis by (auto simp: domIff)
qed

section \<open>One side\<close>

definition names_ok :: "select_input list \<Rightarrow> bool" where
  "names_ok rs \<longleftrightarrow> distinct (map si_new (filter selected rs)) \<and> (\<forall>c \<in> set rs. selected c \<longrightarrow> plain (si_new c))"

definition side_ok :: "string list \<Rightarrow> string list \<Rightarrow> select_input list \<Rightarrow> bool" where
  "side_ok cols ks rs \<longleftrightarrow>
     distinct (map si_old rs) \<and> names_ok rs
     \<and> (\<forall>c \<in> set rs. (si_available c \<longleftrightarrow> si_old c \<in> set cols) \<and> (selected c \<longrightarrow> si_available c)
          \<and> (si_key c \<longleftrightarrow> si_old c \<in> set ks))
     \<and> set ks \<subseteq> set (map si_old rs)"

lemma selected_key: "si_key c \<Longrightarrow> selected c"
  by (simp add: selected_def)

lemma new_inj:
  assumes "side_ok cols ks rs" and "c \<in> set rs" "selected c" and "d \<in> set rs" "selected d" and "si_new c = si_new d"
  shows "c = d"
proof -
  from assms(1) have "inj_on si_new (set (filter selected rs))" by (simp add: side_ok_def names_ok_def distinct_map)
  with assms(2-) show ?thesis by (auto dest: inj_onD)
qed

lemma tag_eq:
  assumes "side_ok cols ks rs" "c \<in> set rs" "selected c" and "side_ok cols' ks' rs'" "d \<in> set rs'" "selected d"
    and "si_key c \<or> si_key d"
  shows "tag s c = tag s' d \<longleftrightarrow> si_key c \<and> si_key d \<and> s = s' \<and> si_new c = si_new d"
proof -
  have "plain (si_new c)" "plain (si_new d)" using assms by (auto simp: side_ok_def names_ok_def)
  with assms(7) show ?thesis by (auto simp: get_col_name_to_delete_def) (metis key_not_plain)+
qed

lemma tag_inj:
  assumes "side_ok cols ks rs"
  shows "inj_on (tag s) (set (filter selected rs))"
proof (rule inj_onI)
  fix c d
  assume c: "c \<in> set (filter selected rs)" "d \<in> set (filter selected rs)" and eq: "tag s c = tag s d"
  show "c = d"
  proof (cases "si_key c \<or> si_key d")
    case True
    with eq tag_eq[OF assms _ _ assms, of c d s s] c have "si_new c = si_new d" by simp
    with new_inj[OF assms] c show ?thesis by simp
  next
    case False
    with eq new_inj[OF assms] c show ?thesis by (simp add: get_col_name_to_delete_def)
  qed
qed

lemma tags_distinct: "side_ok cols ks rs \<Longrightarrow> distinct (map (tag s) (filter selected rs))"
  using tag_inj[of cols ks rs s] by (auto simp: side_ok_def distinct_map intro!: distinct_filter)


section \<open>Frames\<close>

lemma frames_distinct: "frames_ok P \<Longrightarrow> distinct (fr_cols P f)"
  by (simp add: frames_ok_def)

lemma frames_select:
  "frames_ok P \<Longrightarrow> distinct xs \<Longrightarrow> set xs \<subseteq> set (fr_cols P f) \<Longrightarrow> \<exists>g. fr_select P f xs = Some g \<and> fr_cols P g = xs"
  by (simp add: frames_ok_def select_law_def)

lemma frames_rename:
  assumes "frames_ok P" and "fst ` set kvs \<subseteq> set (fr_cols P f)"
    and "map (rename_col (dict_of kvs)) (fr_cols P f) = ys" and "distinct ys"
  shows "\<exists>g. fr_rename P f (dict_of kvs) = Some g \<and> fr_cols P g = ys"
proof -
  from assms(1) have "rename_law P" by (simp add: frames_ok_def)
  from this[unfolded rename_law_def, rule_format, of "dict_of kvs" f] show ?thesis using assms(2-4) by (simp only: dict_of_keys)
qed

lemma frames_copy:
  assumes "frames_ok P" and "fst ` set cs \<subseteq> set (fr_cols P f)" and "distinct (fr_cols P f @ map snd cs)"
  shows "\<exists>g. fr_copy P f cs = Some g \<and> fr_cols P g = fr_cols P f @ map snd cs"
proof -
  from assms(1) have "copy_law P" by (simp add: frames_ok_def)
  from this[unfolded copy_law_def, rule_format, OF assms(2,3)] show ?thesis .
qed

lemma frames_drop:
  assumes "frames_ok P" and "set xs \<subseteq> set (fr_cols P f)"
  shows "\<exists>g. drop_if_any P f xs = Some g \<and> fr_cols P g = filter (\<lambda>c. c \<notin> set xs) (fr_cols P f)"
proof -
  from assms(1) have "drop_law P" by (simp add: frames_ok_def)
  from this[unfolded drop_law_def, rule_format, OF assms(2)] show ?thesis by (cases "xs = []") (simp_all add: drop_if_any_def)
qed

lemma frames_join:
  assumes "frames_ok P" and "how \<in> {Inner, LeftJoin, FullJoin, Semi, Anti}"
    and "lon \<noteq> [] \<and> length lon = length ron \<and> distinct lon \<and> distinct ron"
    and "set lon \<subseteq> set (fr_cols P l) \<and> set ron \<subseteq> set (fr_cols P r)"
    and "joined_cols how (fr_cols P l) (fr_cols P r) ron = ys" and "distinct ys"
  shows "\<exists>g. fr_join P how l r (map Some lon) (map Some ron) = Some g \<and> fr_cols P g = ys"
proof -
  from assms(1) have "join_law P" by (simp add: frames_ok_def)
  from this[unfolded join_law_def, rule_format, OF assms(2-4)] show ?thesis using assms(5,6) by simp
qed

lemma old_inj:
  assumes "side_ok cols ks rs" and "c \<in> set rs" and "d \<in> set rs" and "si_old c = si_old d"
  shows "c = d"
proof -
  from assms(1) have "inj_on si_old (set rs)" by (simp add: side_ok_def distinct_map)
  with assms(2-) show ?thesis by (auto dest: inj_onD)
qed

text \<open>The rename table of a side that is ready.\<close>

lemma rename_table:
  assumes ok: "side_ok cols ks rs" and c: "c \<in> set rs" "selected c"
  shows "dict_get (get_rename_table rs) (si_old c) = Some (si_new c)"
    and "rename_col (get_rename_table rs) (si_old c) = si_new c"
proof -
  let ?kvs = "map (\<lambda>c. (si_old c, si_new c)) (filter (\<lambda>c. si_available c \<and> selected c) rs)"
  from ok have "distinct (map si_old rs)" by (simp add: side_ok_def)
  then have "distinct (map fst ?kvs)" by (simp add: comp_def distinct_map_filter)
  moreover have "(si_old c, si_new c) \<in> set ?kvs" using ok c by (auto simp: side_ok_def)
  ultimately show get: "dict_get (get_rename_table rs) (si_old c) = Some (si_new c)"
    unfolding get_rename_table_def by (simp add: dict_of_distinct)
  then show "rename_col (get_rename_table rs) (si_old c) = si_new c" by (simp add: rename_col_def)
qed

lemma select_rename_ok:
  assumes P: "frames_ok P" and ok: "side_ok (fr_cols P f) ks rs"
  shows "\<exists>g. select_rename P f rs = Some g \<and> fr_cols P g = map si_new (filter selected rs)"
proof -
  let ?s = "filter selected rs"
  let ?kvs = "map (\<lambda>c. (si_old c, si_new c)) (filter (\<lambda>c. si_available c \<and> selected c) rs)"
  have "distinct (map si_old ?s)" using ok by (simp add: side_ok_def distinct_map_filter)
  moreover have "set (map si_old ?s) \<subseteq> set (fr_cols P f)" using ok by (auto simp: side_ok_def)
  ultimately obtain g where g: "fr_select P f (get_select_cols rs) = Some g" "fr_cols P g = map si_old ?s"
    using frames_select[OF P] unfolding get_select_cols_def by blast
  have "map (rename_col (get_rename_table rs)) (map si_old ?s) = map si_new ?s" using rename_table(2)[OF ok] by simp
  moreover have "fst ` set ?kvs \<subseteq> set (map si_old ?s)" by auto
  moreover have "distinct (map si_new ?s)" using ok by (simp add: side_ok_def names_ok_def)
  ultimately have "\<exists>h. fr_rename P g (dict_of ?kvs) = Some h \<and> fr_cols P h = map si_new ?s"
    using g(2) unfolding get_rename_table_def by (intro frames_rename[OF P]) simp_all
  with g(1) show ?thesis by (auto simp: select_rename_def get_rename_table_def)
qed

text \<open>Key columns get their temporary names; columns with names of another kind stay.\<close>

lemma key_renames_distinct:
  assumes ok: "side_ok cols ks rs"
  shows "distinct (map fst (get_join_key_renames s False rs))"
proof -
  have eq: "filter si_key rs = filter si_key (filter selected rs)" by (induction rs) (auto simp: selected_key)
  show ?thesis using ok by (simp add: get_join_key_renames_def comp_def side_ok_def names_ok_def eq distinct_map_filter del: filter_filter)
qed

lemma key_rename_cols:
  assumes ok: "side_ok cols ks rs" and c: "c \<in> set rs" "selected c"
  shows "rename_col (dict_of (get_join_key_renames s False rs)) (si_new c) = tag s c"
proof (cases "si_key c")
  case True
  note key_renames_distinct[OF ok]
  moreover have "(si_new c, tag s c) \<in> set (get_join_key_renames s False rs)"
    using True c by (auto simp: get_join_key_renames_def get_col_name_to_delete_def)
  ultimately show ?thesis by (rule rename_col_in)
next
  case False
  have "si_new c \<notin> fst ` set (get_join_key_renames s False rs)"
  proof
    assume "si_new c \<in> fst ` set (get_join_key_renames s False rs)"
    then obtain d where "d \<in> set rs" "si_key d" "si_new c = si_new d" by (auto simp: get_join_key_renames_def)
    with new_inj[OF ok c, of d] False selected_key show False by auto
  qed
  with False show ?thesis by (simp add: rename_col_out get_col_name_to_delete_def)
qed

lemma key_rename_ok:
  assumes P: "frames_ok P" and ok: "side_ok cols ks rs" and f: "fr_cols P f = map si_new (filter selected rs) @ map temp_name ts"
    and ts: "distinct ts"
  shows "\<exists>g. fr_rename P f (dict_of (get_join_key_renames s False rs)) = Some g
    \<and> fr_cols P g = map (tag s) (filter selected rs) @ map temp_name ts"
proof (rule frames_rename[OF P])
  show "fst ` set (get_join_key_renames s False rs) \<subseteq> set (fr_cols P f)"
    by (auto simp: get_join_key_renames_def f selected_key)
  have plain: "plain (si_new c)" if "c \<in> set rs" "selected c" for c using ok that by (simp add: side_ok_def names_ok_def)
  have "temp_name t \<notin> fst ` set (get_join_key_renames s False rs)" for t
    using plain selected_key by (auto simp: get_join_key_renames_def) (metis temp_not_plain)
  then show "map (rename_col (dict_of (get_join_key_renames s False rs))) (fr_cols P f)
      = map (tag s) (filter selected rs) @ map temp_name ts"
    using key_rename_cols[OF ok] by (simp add: f rename_col_out)
  have "tag s c \<noteq> temp_name t" if "c \<in> set rs" "selected c" for c t
    using plain[OF that] by (auto simp: get_col_name_to_delete_def)
  then show "distinct (map (tag s) (filter selected rs) @ map temp_name ts)"
    using tags_distinct[OF ok] ts by (auto simp: distinct_map intro!: inj_onI)
qed


section \<open>The keys\<close>

definition key_names :: "bool \<Rightarrow> string list \<Rightarrow> select_input list \<Rightarrow> string list" where
  "key_names s ks rs = map (\<lambda>k. construct_join_key_name s (rename_col (get_rename_table rs) k)) ks"

lemma key_names_len [simp]: "length (key_names s ks rs) = length ks" "key_names s ks rs = [] \<longleftrightarrow> ks = []"
  by (simp_all add: key_names_def)

lemma key_row:
  assumes ok: "side_ok cols ks rs" and k: "k \<in> set ks"
  obtains c where "c \<in> set rs" and "si_key c" and "si_old c = k"
proof -
  from ok k have "k \<in> set (map si_old rs)" by (auto simp: side_ok_def)
  then obtain c where "c \<in> set rs" "si_old c = k" by auto
  with ok k show ?thesis by (intro that[of c]) (auto simp: side_ok_def)
qed

lemma key_names_ok:
  assumes ok: "side_ok cols ks rs" and ks: "distinct ks"
  shows "distinct (key_names s ks rs)" and "set (key_names s ks rs) = tag s ` {c \<in> set rs. si_key c}"
proof -
  have row: "\<exists>c \<in> set rs. si_key c \<and> si_old c = k \<and> rename_col (get_rename_table rs) k = si_new c" if "k \<in> set ks" for k
  proof -
    from key_row[OF ok that] obtain c where c: "c \<in> set rs" "si_key c" "si_old c = k" .
    with rename_table(2)[OF ok c(1) selected_key[OF c(2)]] show ?thesis by blast
  qed
  have "inj_on (\<lambda>k. rename_col (get_rename_table rs) k) (set ks)"
  proof (rule inj_onI)
    fix k k'
    assume k: "k \<in> set ks" "k' \<in> set ks" and eq: "rename_col (get_rename_table rs) k = rename_col (get_rename_table rs) k'"
    from row[OF k(1)] row[OF k(2)] obtain c c' where c: "c \<in> set rs" "si_key c" "si_old c = k" "c' \<in> set rs" "si_key c'" "si_old c' = k'"
      "rename_col (get_rename_table rs) k = si_new c" "rename_col (get_rename_table rs) k' = si_new c'" by blast
    with new_inj[OF ok c(1) selected_key[OF c(2)] c(4) selected_key[OF c(5)]] eq show "k = k'" by simp
  qed
  then have "inj_on (\<lambda>k. construct_join_key_name s (rename_col (get_rename_table rs) k)) (set ks)"
    by (auto simp: inj_on_def)
  with ks show "distinct (key_names s ks rs)" by (simp add: key_names_def distinct_map)
  show "set (key_names s ks rs) = tag s ` {c \<in> set rs. si_key c}"
  proof
    show "set (key_names s ks rs) \<subseteq> tag s ` {c \<in> set rs. si_key c}"
      using row by (force simp: key_names_def get_col_name_to_delete_def)
    show "tag s ` {c \<in> set rs. si_key c} \<subseteq> set (key_names s ks rs)"
    proof
      fix x
      assume "x \<in> tag s ` {c \<in> set rs. si_key c}"
      then obtain c where c: "c \<in> set rs" "si_key c" "x = construct_join_key_name s (si_new c)"
        by (auto simp: get_col_name_to_delete_def)
      with ok have "si_old c \<in> set ks" by (auto simp: side_ok_def)
      with rename_table(2)[OF ok c(1) selected_key[OF c(2)]] c(3) show "x \<in> set (key_names s ks rs)"
        by (auto simp: key_names_def intro!: image_eqI[of _ _ "si_old c"])
    qed
  qed
qed

text \<open>Settings whose two sides are ready.\<close>

definition sides_ok :: "string list \<Rightarrow> string list \<Rightarrow> join_input \<Rightarrow> bool" where
  "sides_ok lcols rcols J \<longleftrightarrow>
     side_ok lcols (map fst (ji_map J)) (ji_left J) \<and> side_ok rcols (map snd (ji_map J)) (ji_right J)
     \<and> ji_map J \<noteq> [] \<and> distinct (map fst (ji_map J)) \<and> distinct (map snd (ji_map J))
     \<and> get_overlapping_columns (ji_left J) (ji_right J) = {}"

lemma key_lookup:
  assumes ok: "side_ok cols ks rs" and k: "k \<in> set ks"
  shows "dict_get (get_rename_table rs) k \<noteq> None"
    and "dict_get (get_join_key_rename_mapping s rs) (rename_col (get_rename_table rs) k)
      = Some (construct_join_key_name s (rename_col (get_rename_table rs) k))"
proof -
  from key_row[OF ok k] obtain c where c: "c \<in> set rs" "si_key c" "si_old c = k" .
  note t = rename_table[OF ok c(1) selected_key[OF c(2)], unfolded c(3)]
  show "dict_get (get_rename_table rs) k \<noteq> None" using t(1) by simp
  have "(si_new c, construct_join_key_name s (si_new c)) \<in> set (get_join_key_renames s False rs)"
    using c by (auto simp: get_join_key_renames_def)
  with key_renames_distinct[OF ok, of s]
  show "dict_get (get_join_key_rename_mapping s rs) (rename_col (get_rename_table rs) k)
      = Some (construct_join_key_name s (rename_col (get_rename_table rs) k))"
    by (simp add: t(2) get_join_key_rename_mapping_def dict_of_distinct)
qed

lemma used_join_mapping:
  assumes ok: "sides_ok lcols rcols J"
  shows "map fst (get_used_join_mapping J) = map Some (key_names True (map fst (ji_map J)) (ji_left J))"
    and "map snd (get_used_join_mapping J) = map Some (key_names False (map snd (ji_map J)) (ji_right J))"
proof -
  from ok have l: "side_ok lcols (map fst (ji_map J)) (ji_left J)" and r: "side_ok rcols (map snd (ji_map J)) (ji_right J)"
    by (simp_all add: sides_ok_def)
  have each: "a \<in> set (map fst (ji_map J)) \<and> b \<in> set (map snd (ji_map J))" if "(a, b) \<in> set (ji_map J)" for a b
    using that by force
  have fall: "(case dict_get (get_rename_table (ji_right J)) b of Some n \<Rightarrow> n | None \<Rightarrow> a) = rename_col (get_rename_table (ji_right J)) b"
    if "(a, b) \<in> set (ji_map J)" for a b
    using key_lookup(1)[OF r, of b] each[OF that] by (cases "dict_get (get_rename_table (ji_right J)) b") (simp_all add: rename_col_def)
  show "map fst (get_used_join_mapping J) = map Some (key_names True (map fst (ji_map J)) (ji_left J))"
    using key_lookup(2)[OF l] each by (auto simp: get_used_join_mapping_def key_names_def join_map_def Let_def split: prod.splits)
  show "map snd (get_used_join_mapping J) = map Some (key_names False (map snd (ji_map J)) (ji_right J))"
    using key_lookup(2)[OF r] each fall by (auto simp: get_used_join_mapping_def key_names_def join_map_def Let_def split: prod.splits)
qed


section \<open>The raw join\<close>

definition tagged :: "(bool \<times> select_input) list \<Rightarrow> string list" where
  "tagged xs = map (\<lambda>(s, c). tag s c) xs"

lemma tagged_append [simp]: "tagged (xs @ ys) = tagged xs @ tagged ys"
  by (simp add: tagged_def)

lemma tagged_side [simp]: "tagged (map (Pair s) cs) = map (tag s) cs"
  by (simp add: tagged_def)

abbreviation others :: "select_input list \<Rightarrow> select_input list" where
  "others rs \<equiv> filter (\<lambda>c. selected c \<and> \<not> si_key c) rs"

lemma side_plain: "side_ok cols ks rs \<Longrightarrow> c \<in> set rs \<Longrightarrow> selected c \<Longrightarrow> plain (si_new c)"
  by (simp add: side_ok_def names_ok_def)

lemma tag_other: "\<not> si_key c \<Longrightarrow> tag s c = si_new c"
  by (simp add: get_col_name_to_delete_def)

lemma tag_not_temp:
  assumes "side_ok cols ks rs" and "c \<in> set rs" and "selected c"
  shows "tag s c \<noteq> temp_name x" and "temp_name x \<noteq> tag s c"
proof -
  show "tag s c \<noteq> temp_name x" using side_plain[OF assms] by (auto simp: get_col_name_to_delete_def)
  then show "temp_name x \<noteq> tag s c" by (rule not_sym)
qed

text \<open>Two sides whose kept names are apart have their temporary names apart.\<close>

lemma tags_apart:
  assumes A: "side_ok colsA ksA rsA" and B: "side_ok colsB ksB rsB"
    and apart: "set (get_new_cols rsA) \<inter> set (get_new_cols rsB) = {}"
  shows "tag s ` {c \<in> set rsA. selected c} \<inter> tag (\<not> s) ` {c \<in> set rsB. selected c} = {}"
proof -
  have "tag s c \<noteq> tag (\<not> s) d" if c: "c \<in> set rsA" "selected c" and d: "d \<in> set rsB" "selected d" for c d
  proof (cases "si_key c \<or> si_key d")
    case True
    then show ?thesis using tag_eq[OF A c B d, of s "\<not> s"] by simp
  next
    case False
    with c d have "si_keep c" "si_keep d" by (simp_all add: selected_def)
    with c d have "si_new c \<in> set (get_new_cols rsA)" "si_new d \<in> set (get_new_cols rsB)" by (auto simp: get_new_cols_def)
    with apart have "si_new c \<noteq> si_new d" by auto
    with False show ?thesis by (simp add: tag_other)
  qed
  then show ?thesis by auto
qed

lemma coalescing_join:
  assumes P: "frames_ok P" and A: "side_ok colsA ksA rsA" and B: "side_ok colsB ksB rsB"
    and ks: "ksA \<noteq> []" "length ksA = length ksB" "distinct ksA" "distinct ksB"
    and apart: "set (get_new_cols rsA) \<inter> set (get_new_cols rsB) = {}"
    and a: "fr_cols P a = map (tag s) (filter selected rsA)"
    and b: "fr_cols P b = map (tag (\<not> s)) (filter selected rsB) @ map temp_name (map si_new (filter si_key rsB))"
    and how: "how \<in> {Inner, LeftJoin}"
  shows "\<exists>j0 j. fr_join P how a b (map Some (key_names s ksA rsA)) (map Some (key_names (\<not> s) ksB rsB)) = Some j0
    \<and> fr_rename P j0 (reverse_actions (\<not> s) rsB) = Some j
    \<and> fr_cols P j = tagged (map (Pair s) (filter selected rsA) @ map (Pair (\<not> s)) (others rsB @ filter si_key rsB))"
proof -
  let ?A = "filter selected rsA" and ?K = "filter si_key rsB"
  let ?temps = "map temp_name (map si_new ?K)"
  let ?ys = "map (tag s) ?A @ map (tag (\<not> s)) (others rsB) @ ?temps"
  note kA = key_names_ok[OF A ks(3), of s] and kB = key_names_ok[OF B ks(4), of "\<not> s"]
  have ron: "tag (\<not> s) c \<in> set (key_names (\<not> s) ksB rsB) \<longleftrightarrow> si_key c" if c: "c \<in> set rsB" "selected c" for c
  proof
    assume "tag (\<not> s) c \<in> set (key_names (\<not> s) ksB rsB)"
    then obtain d where d: "d \<in> set rsB" "si_key d" "tag (\<not> s) c = tag (\<not> s) d" unfolding kB(2) by blast
    then show "si_key c" using tag_eq[OF B c B d(1) selected_key[OF d(2)], of "\<not> s" "\<not> s"] by simp
  qed (use c kB(2) in blast)
  have temps: "x \<notin> set (key_names (\<not> s) ksB rsB)" if "x \<in> set ?temps" for x
    using that selected_key tag_not_temp(2)[OF B] unfolding kB(2) by auto
  have f1: "filter (\<lambda>x. x \<notin> set (key_names (\<not> s) ksB rsB)) (map (tag (\<not> s)) (filter selected rsB)) = map (tag (\<not> s)) (others rsB)"
  proof -
    have "filter (\<lambda>c. tag (\<not> s) c \<notin> set (key_names (\<not> s) ksB rsB)) (filter selected rsB) = filter (\<lambda>c. \<not> si_key c) (filter selected rsB)"
      by (rule filter_cong) (use ron in auto)
    then show ?thesis by (simp only: filter_map comp_def filter_filter)
  qed
  have f2: "filter (\<lambda>x. x \<notin> set (key_names (\<not> s) ksB rsB)) ?temps = ?temps" using temps by (intro filter_True) blast
  have cols: "joined_cols how (fr_cols P a) (fr_cols P b) (key_names (\<not> s) ksB rsB) = ?ys"
    using how unfolding joined_cols_def a b filter_append f1 f2 by auto
  have selB: "set (others rsB) \<subseteq> {c \<in> set rsB. selected c}" "set ?K \<subseteq> {c \<in> set rsB. selected c}"
    using selected_key by auto
  have dk: "distinct (map si_new ?K)"
    using key_renames_distinct[OF B, of s] by (simp add: get_join_key_renames_def comp_def)
  have dB: "distinct (map (tag (\<not> s)) (others rsB @ ?K))"
  proof -
    have "distinct rsB" using B by (auto simp: side_ok_def distinct_map)
    then have "distinct (others rsB @ ?K)" by auto
    moreover have "inj_on (tag (\<not> s)) (set (others rsB @ ?K))"
      by (rule inj_on_subset[OF tag_inj[OF B]]) (use selB in auto)
    ultimately show ?thesis unfolding distinct_map by blast
  qed
  have ap: "set (map (tag s) ?A) \<inter> set (map (tag (\<not> s)) (others rsB @ ?K)) = {}"
    using tags_apart[OF A B apart, of s] selB by auto
  have nt: "x \<noteq> temp_name y" if "x \<in> set (map (tag s) ?A) \<or> x \<in> set (map (tag (\<not> s)) (others rsB @ ?K))" for x y
    using that selB tag_not_temp[OF A] tag_not_temp[OF B] by auto
  have dys: "distinct ?ys"
    using tags_distinct[OF A, of s] dB dk ap nt by (auto simp: distinct_map inj_on_def)
  have "set (key_names s ksA rsA) \<subseteq> set (fr_cols P a) \<and> set (key_names (\<not> s) ksB rsB) \<subseteq> set (fr_cols P b)"
    unfolding kA(2) kB(2) a b using selected_key by auto
  moreover have "key_names s ksA rsA \<noteq> [] \<and> length (key_names s ksA rsA) = length (key_names (\<not> s) ksB rsB)
      \<and> distinct (key_names s ksA rsA) \<and> distinct (key_names (\<not> s) ksB rsB)"
    using kA(1) kB(1) ks(1,2) by (simp del: distinct_map add: key_names_len)
  moreover have "how \<in> {Inner, LeftJoin, FullJoin, Semi, Anti}" using how by blast
  ultimately obtain j0 where j0: "fr_join P how a b (map Some (key_names s ksA rsA)) (map Some (key_names (\<not> s) ksB rsB)) = Some j0"
    "fr_cols P j0 = ?ys"
    using frames_join[OF P _ _ _ cols dys] by blast
  let ?kvs = "map (\<lambda>c. (temp_name (si_new c), construct_join_key_name (\<not> s) (si_new c))) ?K"
  have dkv: "distinct (map fst ?kvs)" using dk by (simp add: comp_def distinct_map inj_on_def)
  have r1: "rename_col (dict_of ?kvs) x = x" if "x \<in> set (map (tag s) ?A) \<or> x \<in> set (map (tag (\<not> s)) (others rsB @ ?K))" for x
  proof (rule rename_col_out, rule notI)
    assume "x \<in> fst ` set ?kvs"
    then obtain y where "x = temp_name y" by auto
    with nt[OF that] show False by blast
  qed
  have r2: "rename_col (dict_of ?kvs) (temp_name (si_new c)) = tag (\<not> s) c" if "c \<in> set ?K" for c
  proof -
    have "rename_col (dict_of ?kvs) (temp_name (si_new c)) = construct_join_key_name (\<not> s) (si_new c)"
      by (rule rename_col_in[OF dkv]) (use that in auto)
    with that show ?thesis by (simp add: get_col_name_to_delete_def)
  qed
  have "\<exists>j. fr_rename P j0 (dict_of ?kvs) = Some j \<and> fr_cols P j = map (tag s) ?A @ map (tag (\<not> s)) (others rsB @ ?K)"
  proof (rule frames_rename[OF P])
    show "fst ` set ?kvs \<subseteq> set (fr_cols P j0)" by (auto simp: j0(2))
    show "map (rename_col (dict_of ?kvs)) (fr_cols P j0) = map (tag s) ?A @ map (tag (\<not> s)) (others rsB @ ?K)"
      unfolding j0(2) map_append map_map comp_def using r1 r2 by auto
    show "distinct (map (tag s) ?A @ map (tag (\<not> s)) (others rsB @ ?K))"
      using tags_distinct[OF A, of s] dB ap by (simp only: distinct_append)
  qed
  with j0(1) show ?thesis by (auto simp: reverse_actions_def)
qed


text \<open>After the join: unwanted keys are dropped and the others get their names back.\<close>

lemma finish_join:
  assumes P: "frames_ok P" and ok: "sides_ok lcols rcols J" and j: "fr_cols P j = tagged xs"
    and xs: "\<And>s c. (s, c) \<in> set xs \<Longrightarrow> selected c \<and> c \<in> set (if s then ji_left J else ji_right J)"
    and left: "\<And>c. c \<in> set (ji_left J) \<Longrightarrow> selected c \<Longrightarrow> (True, c) \<in> set xs"
    and right: "\<And>c. c \<in> set (ji_right J) \<Longrightarrow> si_key c \<Longrightarrow> ji_how J \<in> {LeftJoin, RightJoin, Inner, Cross, Outer} \<or> si_keep c
      \<Longrightarrow> (False, c) \<in> set xs"
    and right_kept: "\<And>c. (False, c) \<in> set xs \<Longrightarrow> si_keep c \<or> ji_how J \<in> {LeftJoin, RightJoin, Inner, Cross, Outer}"
  shows "\<exists>j1 j2. drop_if_any P j (cols_to_delete J) = Some j1 \<and> fr_rename P j1 (undo_rename_mapping J) = Some j2
    \<and> fr_cols P j2 = map (\<lambda>(s, c). si_new c) (filter (\<lambda>(s, c). si_keep c) xs)"
proof -
  let ?side = "\<lambda>s. if s then ji_left J else ji_right J"
  obtain cols ks where ok': "\<And>s. side_ok (cols s) (ks s) (?side s)"
    using ok that[of "\<lambda>s. if s then lcols else rcols" "\<lambda>s. if s then map fst (ji_map J) else map snd (ji_map J)"]
    by (simp add: sides_ok_def)
  have apart: "set (get_new_cols (ji_left J)) \<inter> set (get_new_cols (ji_right J)) = {}"
    using ok by (simp add: sides_ok_def get_overlapping_columns_def)
  have inj: "(s, c) = (s', d)" if "tag s c = tag s' d" "(s, c) \<in> set xs" "d \<in> set (?side s')" "si_key d" for s c s' d
    using that xs[OF that(2)] tag_eq[OF ok' _ _ ok' that(3) selected_key[OF that(4)], of c s s s'] new_inj[OF ok', of c s d] selected_key
    by auto
  have avail: "si_available c" if "c \<in> set (?side s)" "si_key c" for s c
    using ok'[of s] that selected_key unfolding side_ok_def by blast
  have del: "tag s c \<in> set (cols_to_delete J) \<longleftrightarrow> \<not> si_keep c" if sc: "(s, c) \<in> set xs" for s c
  proof
    assume "tag s c \<in> set (cols_to_delete J)"
    then obtain s' d where "d \<in> set (?side s')" "si_key d" "\<not> si_keep d" "tag s c = tag s' d"
      by (auto simp: cols_to_delete_def dropped_keys_def split: if_splits) (metis (full_types))+
    with inj[OF _ sc] show "\<not> si_keep c" by auto
  next
    assume "\<not> si_keep c"
    with xs[OF sc] have "si_key c" "c \<in> set (?side s)" by (auto simp: selected_def)
    with avail[of c s] \<open>\<not> si_keep c\<close> right_kept[of c] sc show "tag s c \<in> set (cols_to_delete J)"
      by (cases s) (auto simp: cols_to_delete_def dropped_keys_def)
  qed
  have "set (cols_to_delete J) \<subseteq> set (fr_cols P j)"
  proof
    fix x
    assume "x \<in> set (cols_to_delete J)"
    then obtain s c where "x = tag s c" "(s, c) \<in> set xs"
      using left right selected_key by (auto simp: cols_to_delete_def dropped_keys_def split: if_splits)
    then show "x \<in> set (fr_cols P j)" by (force simp: j tagged_def)
  qed
  then obtain j1 where j1: "drop_if_any P j (cols_to_delete J) = Some j1"
    and "fr_cols P j1 = filter (\<lambda>c. c \<notin> set (cols_to_delete J)) (fr_cols P j)"
    using frames_drop[OF P] by blast
  moreover have "filter (\<lambda>c. c \<notin> set (cols_to_delete J)) (tagged ys) = tagged (filter (\<lambda>(s, c). si_keep c) ys)"
    if "set ys \<subseteq> set xs" for ys
    using that by (induction ys) (auto simp: tagged_def del)
  ultimately have cols1: "fr_cols P j1 = tagged (filter (\<lambda>(s, c). si_keep c) xs)" by (simp add: j)
  let ?ys = "filter (\<lambda>(s, c). si_keep c) xs"
  let ?kvs = "map (\<lambda>(a, b). (b, a)) (get_join_key_renames False True (ji_right J) @ get_join_key_renames True True (ji_left J))"
  have kvs: "(x, n) \<in> set ?kvs \<longleftrightarrow> (\<exists>s c. c \<in> set (?side s) \<and> si_key c \<and> si_keep c \<and> x = tag s c \<and> n = si_new c)" for x n
    by (auto simp: get_join_key_renames_def get_col_name_to_delete_def ex_bool_eq)
  have in_xs: "(s, c) \<in> set xs" if "c \<in> set (?side s)" "si_key c" "si_keep c" for s c
    using that left right selected_key by (cases s) auto
  have new: "rename_col (dict_of ?kvs) (tag s c) = si_new c" if sc: "(s, c) \<in> set ?ys" for s c
  proof (cases "si_key c")
    case True
    have c: "(s, c) \<in> set xs" "si_keep c" "c \<in> set (?side s)" using sc xs by auto
    show ?thesis
    proof (rule rename_col_fun)
      show "(tag s c, si_new c) \<in> set ?kvs" unfolding kvs using True c by blast
      show "n = si_new c" if "(tag s c, n) \<in> set ?kvs" for n
        using that inj[OF _ c(1)] unfolding kvs by blast
    qed
  next
    case False
    have "tag s c \<notin> fst ` set ?kvs"
    proof
      assume "tag s c \<in> fst ` set ?kvs"
      then obtain n where "(tag s c, n) \<in> set ?kvs" by force
      then obtain s' d where "d \<in> set (?side s')" "si_key d" "tag s c = tag s' d" unfolding kvs by blast
      with inj[of s c s' d] sc False show False by auto
    qed
    then show ?thesis by (rule trans[OF rename_col_out tag_other[OF False]])
  qed
  have "distinct (tagged xs)" using frames_distinct[OF P, of j] by (simp add: j)
  then have "distinct xs" unfolding tagged_def by (simp add: distinct_map)
  moreover have "inj_on (\<lambda>(s, c). si_new c) (set ?ys)"
  proof (rule inj_onI, clarify)
    fix s c s' d
    assume c: "(s, c) \<in> set ?ys" and d: "(s', d) \<in> set ?ys" and eq: "si_new c = si_new d"
    then have cd: "si_keep c" "si_keep d" "c \<in> set (?side s)" "d \<in> set (?side s')" "selected c" "selected d"
      using xs by auto
    then have "si_new c \<in> set (get_new_cols (?side s))" "si_new d \<in> set (get_new_cols (?side s'))" by (auto simp: get_new_cols_def)
    with eq apart have "s = s'" by (cases s; cases s') auto
    with cd eq new_inj[OF ok', of c s d] show "s = s' \<and> c = d" by simp
  qed
  ultimately have "distinct (map (\<lambda>(s, c). si_new c) ?ys)" by (simp add: distinct_map)
  moreover have "map (rename_col (dict_of ?kvs)) (fr_cols P j1) = map (\<lambda>(s, c). si_new c) ?ys"
    using new by (auto simp: cols1 tagged_def)
  moreover have "fst ` set ?kvs \<subseteq> set (fr_cols P j1)"
  proof
    fix x
    assume "x \<in> fst ` set ?kvs"
    then obtain n where "(x, n) \<in> set ?kvs" by force
    then obtain s c where "c \<in> set (?side s)" "si_key c" "si_keep c" "x = tag s c" unfolding kvs by blast
    with in_xs[of c s] show "x \<in> set (fr_cols P j1)" by (force simp: cols1 tagged_def)
  qed
  ultimately have "\<exists>j2. fr_rename P j1 (dict_of ?kvs) = Some j2 \<and> fr_cols P j2 = map (\<lambda>(s, c). si_new c) ?ys"
    by (intro frames_rename[OF P]) simp_all
  with j1 show ?thesis by (auto simp: undo_rename_mapping_def)
qed

end
