(* ===== verification/Join_Match.thy ===== *)
theory Join_Match
  imports Join_Columns "HOL-Library.Multiset"
begin

text \<open>
  The columns of a join, end to end: what the engine produces for every strategy (\<open>joined_rows\<close>), and that the
  editor's prediction names the same columns when the settings are ready (\<open>join_ready\<close>).
\<close>

section \<open>The engine, strategy by strategy\<close>















section \<open>What the settings become before the join\<close>




lemma old_check [simp]: "map si_old (check_available cols rs) = map si_old rs"
  by (simp add: check_available_def comp_def)












section \<open>The prediction\<close>






section \<open>The prediction is what the engine produces\<close>
















text \<open>Frames that are lists of names, for concrete runs.\<close>

definition list_frames :: "string list frames" where
  "list_frames =
     \<lparr>fr_cols = remdups, fr_type = (\<lambda>f c. ''Integer''),
      fr_select = (\<lambda>f xs. if distinct xs \<and> set xs \<subseteq> set f then Some xs else None),
      fr_rename = (\<lambda>f d. let ys = map (rename_col d) (remdups f) in
        if set (dict_keys d) \<subseteq> set f \<and> distinct ys then Some ys else None),
      fr_copy = (\<lambda>f cs. let ys = remdups f @ map snd cs in if fst ` set cs \<subseteq> set f \<and> distinct ys then Some ys else None),
      fr_drop = (\<lambda>f xs. if set xs \<subseteq> set f then Some (filter (\<lambda>c. c \<notin> set xs) (remdups f)) else None),
      fr_join = (\<lambda>how l r lon ron. let ys = joined_cols how (remdups l) (remdups r) (map the ron) in
        if distinct ys \<and> set (map the lon) \<subseteq> set l \<and> set (map the ron) \<subseteq> set r then Some ys else None)\<rparr>"



text \<open>Orders and customers share a key and a name; the second name becomes \<open>name_right\<close>.\<close>

definition orders_customers :: "join_how \<Rightarrow> join_input" where
  "orders_customers how =
     \<lparr>ji_map = [(''id'', ''id'')], ji_left = [select_col ''name''], ji_right = [make_select ''id'' None None None False False False],
      ji_how = how\<rparr>"

definition orders :: "string list" where "orders = [''name'', ''id'', ''amount'']"
definition customers :: "string list" where "customers = [''id'', ''name'']"


section \<open>Where the two differ\<close>

text \<open>A full join does not drop a right key that the user did not keep; it stays under the engine's own name.\<close>

lemma full_join_leaves_key:
  "engine_join list_frames True (orders_customers FullJoin) orders customers
    = Inr [''name'', ''id'', ''amount'', ''_FLOWFILE_JOIN_KEY_RIGHT_id'', ''name_right'']"
  "map fst (calculate_join_schema (orders_customers FullJoin) (frame_schema list_frames orders) (frame_schema list_frames customers) True)
    = [''name'', ''id'', ''amount'', ''name_right'']"
  by code_simp+

text \<open>A kept column that the frame no longer has makes the join fail; the prediction leaves it out.\<close>

lemma stale_column_fails:
  "engine_join list_frames True (orders_customers Inner) [''id'', ''amount''] customers = Inl FrameError"
  "map fst (calculate_join_schema (orders_customers Inner) (frame_schema list_frames [''id'', ''amount'']) (frame_schema list_frames customers) True)
    = [''id'', ''amount'', ''name'']"
  by code_simp+

text \<open>The columns are the same, but after a right join not in the predicted order.\<close>

lemma right_join_other_order:
  "engine_join list_frames True (orders_customers RightJoin) orders customers = Inr [''name_right'', ''name'', ''amount'', ''id'']"
  "map fst (calculate_join_schema (orders_customers RightJoin) (frame_schema list_frames orders) (frame_schema list_frames customers) True)
    = [''name'', ''id'', ''amount'', ''name_right'']"
  by code_simp+

end
