(* ===== verification/Cross_Join.thy ===== *)
theory Cross_Join
  imports Join_Match
begin

text \<open>
  The cross join: \<open>FlowDataEngine.do_cross_join\<close> and its prediction \<open>calculate_cross_join_schema\<close> of
  \<open>schema_callbacks.py\<close>. The settings are the selections of the two sides.
\<close>

definition cross_settings ::
  "string list \<Rightarrow> string list \<Rightarrow> select_input list \<times> select_input list \<Rightarrow> select_input list \<times> select_input list" where
  "cross_settings lcols rcols S =
     (check_available lcols (ensure_cols lcols (fst S)), check_available rcols (ensure_cols rcols (snd S)))"

definition cross_select :: "select_input list \<Rightarrow> string list" where
  "cross_select rs = map si_old (filter (\<lambda>c. selected c \<and> si_available c) rs)"

definition cross_to_delete :: "select_input list \<Rightarrow> string list" where
  "cross_to_delete rs = map si_new (filter (\<lambda>c. si_key c \<and> \<not> si_keep c \<and> si_available c) rs)"

definition do_cross_join :: "'f frames \<Rightarrow> select_input list \<times> select_input list \<Rightarrow> 'f \<Rightarrow> 'f \<Rightarrow> join_error + 'f" where
  "do_cross_join P S fl fr =
     (let (L, R) = cross_settings (fr_cols P fl) (fr_cols P fr) S; R' = auto_rename Suffix L R in
      try_frame (fr_select P fl (cross_select L)) (\<lambda>l.
      try_frame (fr_rename P l (get_rename_table L)) (\<lambda>l2.
      try_frame (fr_select P fr (cross_select R)) (\<lambda>r.
      try_frame (fr_rename P r (get_rename_table R')) (\<lambda>r2.
      try_frame (fr_join P Cross l2 r2 [] []) (\<lambda>j.
      try_frame (fr_drop P j (cross_to_delete (L @ R'))) Inr))))))"

definition calculate_cross_join_schema ::
  "select_input list \<times> select_input list \<Rightarrow> (string \<times> string) list \<Rightarrow> (string \<times> string) list \<Rightarrow> (string \<times> string) list" where
  "calculate_cross_join_schema S ls rs =
     (let L = order_by_cols (map fst ls) (ensure_cols (map fst ls) (fst S));
          R = order_by_cols (map fst rs) (ensure_cols (map fst rs) (snd S)) in
      predicted_side ls L @ predicted_side rs (auto_rename Suffix L R))"








text \<open>
  The engine renames against every kept name of the left selection, also of columns that are gone; the
  prediction leaves those out first. The names then differ.
\<close>

lemma stale_name_predicted_differently:
  "do_cross_join list_frames ([select_col ''id'', select_col ''name''], []) [''id''] [''name''] = Inr [''id'', ''name_right'']"
  "map fst (calculate_cross_join_schema ([select_col ''id'', select_col ''name''], []) (frame_schema list_frames [''id'']) (frame_schema list_frames [''name'']))
    = [''id'', ''name'']"
  by code_simp+

end
