(* ===== verification/Blob_Storage.thy ===== *)
theory Blob_Storage
  imports Decimals
begin

text \<open>
  \<open>shared/artifact_storage.py\<close>: the interface \<open>ArtifactStorageBackend\<close> as the record \<open>backend\<close>, and its two
  implementations, on a shared file system and on S3.

  Contents are values of any type; the record \<open>digest\<close> gives their hash and their size. Paths are strings
  relative to the directories of the backend, and two different strings are two different files. The kernel
  writes to the path that it is given (\<open>be_put\<close>) and reads the blob of a key (\<open>be_get\<close>).
\<close>

record 'b digest =
  dg_sha :: "'b \<Rightarrow> string"
  dg_size :: "'b \<Rightarrow> nat"

record upload_target =
  ut_method :: string
  ut_path :: string
  ut_key :: string

datatype store_error = FileNotFound | InvalidBlob

record ('s, 'b) backend =
  be_prepare :: "int \<Rightarrow> string \<Rightarrow> upload_target"
  be_finalize :: "'s \<Rightarrow> string \<Rightarrow> string \<Rightarrow> 's \<times> (store_error + nat)"
  be_download :: "string \<Rightarrow> string \<times> string"
  be_delete :: "'s \<Rightarrow> string \<Rightarrow> 's"
  be_exists :: "'s \<Rightarrow> string \<Rightarrow> bool"
  be_put :: "'s \<Rightarrow> string \<Rightarrow> 'b \<Rightarrow> 's"
  be_get :: "'s \<Rightarrow> string \<Rightarrow> 'b option"

text \<open>The key of a blob is the id of its artifact, a slash, and the name of the file.\<close>

definition storage_key :: "int \<Rightarrow> string \<Rightarrow> string" where
  "storage_key i f = int_str i @ ''/'' @ f"

text \<open>\<open>storage_key.split("/", 1)\<close> with two targets: a key without a slash raises \<open>ValueError\<close>.\<close>

fun split_key :: "string \<Rightarrow> (string \<times> string) option" where
  "split_key [] = None"
| "split_key (c # cs) = (if c = CHR ''/'' then Some ([], cs) else map_option (\<lambda>(a, f). (c # a, f)) (split_key cs))"

section \<open>The shared file system\<close>

record 'b file_store =
  fs_staging :: "(string, 'b) dict"
  fs_permanent :: "(string, 'b) dict"

definition staging_path :: "string \<Rightarrow> string \<Rightarrow> string" where
  "staging_path a f = a @ ''_'' @ f"

definition fs_prepare_upload :: "int \<Rightarrow> string \<Rightarrow> upload_target" where
  "fs_prepare_upload i f = \<lparr>ut_method = ''file'', ut_path = staging_path (int_str i) f, ut_key = storage_key i f\<rparr>"

definition fs_finalize_upload ::
  "'b digest \<Rightarrow> 'b file_store \<Rightarrow> string \<Rightarrow> string \<Rightarrow> 'b file_store \<times> (store_error + nat)" where
  "fs_finalize_upload D s key sha =
     (case split_key key of
        None \<Rightarrow> (s, Inl InvalidBlob)
      | Some (a, f) \<Rightarrow>
          (let p = staging_path a f in
           case dict_get (fs_staging s) p of
             None \<Rightarrow> (s, Inl FileNotFound)
           | Some b \<Rightarrow>
               if dg_sha D b \<noteq> sha then (s\<lparr>fs_staging := dict_pop p (fs_staging s)\<rparr>, Inl InvalidBlob)
               else (s\<lparr>fs_staging := dict_pop p (fs_staging s), fs_permanent := dict_set key b (fs_permanent s)\<rparr>,
                     Inr (dg_size D b))))"

definition fs_delete :: "'b file_store \<Rightarrow> string \<Rightarrow> 'b file_store" where
  "fs_delete s key = s\<lparr>fs_permanent := dict_pop key (fs_permanent s)\<rparr>"

definition fs_exists :: "'b file_store \<Rightarrow> string \<Rightarrow> bool" where
  "fs_exists s key = (dict_get (fs_permanent s) key \<noteq> None)"

definition file_backend :: "'b digest \<Rightarrow> ('b file_store, 'b) backend" where
  "file_backend D =
     \<lparr>be_prepare = fs_prepare_upload, be_finalize = fs_finalize_upload D, be_download = (\<lambda>key. (''file'', key)),
      be_delete = fs_delete, be_exists = fs_exists,
      be_put = (\<lambda>s p b. s\<lparr>fs_staging := dict_set p b (fs_staging s)\<rparr>),
      be_get = (\<lambda>s key. dict_get (fs_permanent s) key)\<rparr>"

section \<open>S3\<close>

text \<open>
  An object store is a dictionary; \<open>generate_presigned_url\<close> is the identity, so that a presigned link names the
  object it is for. The link stays valid for an hour and \<open>finalize_upload\<close> does not end that.
\<close>

type_synonym 'b object_store = "(string, 'b) dict"

definition s3_prepare_upload :: "string \<Rightarrow> int \<Rightarrow> string \<Rightarrow> upload_target" where
  "s3_prepare_upload pre i f = \<lparr>ut_method = ''s3_presigned'', ut_path = pre @ storage_key i f, ut_key = storage_key i f\<rparr>"

definition s3_finalize_upload ::
  "'b digest \<Rightarrow> string \<Rightarrow> 'b object_store \<Rightarrow> string \<Rightarrow> string \<Rightarrow> 'b object_store \<times> (store_error + nat)" where
  "s3_finalize_upload D pre s key sha =
     (s, case dict_get s (pre @ key) of None \<Rightarrow> Inl FileNotFound | Some b \<Rightarrow> Inr (dg_size D b))"

definition s3_delete :: "string \<Rightarrow> 'b object_store \<Rightarrow> string \<Rightarrow> 'b object_store" where
  "s3_delete pre s key = dict_pop (pre @ key) s"

definition s3_exists :: "string \<Rightarrow> 'b object_store \<Rightarrow> string \<Rightarrow> bool" where
  "s3_exists pre s key = (dict_get s (pre @ key) \<noteq> None)"

definition s3_backend :: "'b digest \<Rightarrow> string \<Rightarrow> ('b object_store, 'b) backend" where
  "s3_backend D pre =
     \<lparr>be_prepare = s3_prepare_upload pre, be_finalize = s3_finalize_upload D pre,
      be_download = (\<lambda>key. (''s3_presigned'', pre @ key)), be_delete = s3_delete pre, be_exists = s3_exists pre,
      be_put = (\<lambda>s p b. dict_set p b s), be_get = (\<lambda>s key. dict_get s (pre @ key))\<rparr>"

section \<open>The interface\<close>

text \<open>What every backend promises: where blobs go, and that operations on one key leave the others alone.\<close>

locale blob_backend =
  fixes B :: "('s, 'b) backend" and D :: "'b digest"
  assumes prepare_key: "ut_key (be_prepare B i f) = storage_key i f"
    and finalize_size: "be_finalize B s k h = (s', Inr n) \<Longrightarrow> \<exists>b. be_get B s' k = Some b \<and> dg_size D b = n"
    and finalize_frame: "be_finalize B s k h = (s', r) \<Longrightarrow> k' \<noteq> k \<Longrightarrow> be_get B s' k' = be_get B s k'"
    and delete_frame: "k' \<noteq> k \<Longrightarrow> be_get B (be_delete B s k) k' = be_get B s k'"
    and delete_gone: "be_get B (be_delete B s k) k = None"
    and exists_get: "be_exists B s k \<longleftrightarrow> be_get B s k \<noteq> None"
    and upload: "\<exists>s'. be_finalize B (be_put B s (ut_path (be_prepare B i f)) b) (storage_key i f) (dg_sha D b) = (s', Inr (dg_size D b))
      \<and> be_get B s' (storage_key i f) = Some b"

text \<open>A backend that checks the hash, and whose blobs the kernel cannot write directly.\<close>

locale verifying_backend = blob_backend +
  assumes finalize_sha: "be_finalize B s k h = (s', Inr n) \<Longrightarrow> be_get B s' k = Some b \<Longrightarrow> dg_sha D b = h"
    and put_frame: "be_get B (be_put B s p b) k = be_get B s k"
    and finalize_error: "be_finalize B s k h = (s', Inl e) \<Longrightarrow> be_get B s' k' = be_get B s k'"

lemma split_key_str: "CHR ''/'' \<notin> set a \<Longrightarrow> split_key (a @ CHR ''/'' # f) = Some (a, f)"
  by (induction a) auto

lemma split_storage_key: "split_key (storage_key i f) = Some (int_str i, f)"
  using split_key_str[OF int_str_plain[of "CHR ''/''"]] by (simp add: storage_key_def)

lemma storage_key_inj: "storage_key i f = storage_key j g \<longleftrightarrow> i = j \<and> f = g"
proof
  assume "storage_key i f = storage_key j g"
  then have "split_key (storage_key i f) = split_key (storage_key j g)" by simp
  then have "int_str i = int_str j" "f = g" by (simp_all add: split_storage_key)
  then have "parse_int (int_str i) = parse_int (int_str j)" by simp
  then show "i = j \<and> f = g" using \<open>f = g\<close> by (simp add: parse_int_str)
qed simp

lemma storage_key_nonempty [simp]: "storage_key i f \<noteq> []"
  by (simp add: storage_key_def)

interpretation s3: blob_backend "s3_backend D pre" D
  by unfold_locales
    (auto simp: s3_backend_def s3_prepare_upload_def s3_finalize_upload_def s3_delete_def s3_exists_def split: option.splits)

lemma fs_finalize_cases:
  obtains "split_key k = None" "fs_finalize_upload D s k h = (s, Inl InvalidBlob)"
  | a f where "split_key k = Some (a, f)" "dict_get (fs_staging s) (staging_path a f) = None"
      "fs_finalize_upload D s k h = (s, Inl FileNotFound)"
  | a f b where "split_key k = Some (a, f)" "dict_get (fs_staging s) (staging_path a f) = Some b" "dg_sha D b \<noteq> h"
      "fs_finalize_upload D s k h = (s\<lparr>fs_staging := dict_pop (staging_path a f) (fs_staging s)\<rparr>, Inl InvalidBlob)"
  | a f b where "split_key k = Some (a, f)" "dict_get (fs_staging s) (staging_path a f) = Some b" "dg_sha D b = h"
      "fs_finalize_upload D s k h =
        (s\<lparr>fs_staging := dict_pop (staging_path a f) (fs_staging s), fs_permanent := dict_set k b (fs_permanent s)\<rparr>, Inr (dg_size D b))"
proof (cases "split_key k")
  case None
  then show ?thesis by (intro that(1)) (simp_all add: fs_finalize_upload_def)
next
  case (Some af)
  then obtain a f where af: "split_key k = Some (a, f)" by (cases af) simp
  show ?thesis
  proof (cases "dict_get (fs_staging s) (staging_path a f)")
    case None
    with af show ?thesis by (intro that(2)) (simp_all add: fs_finalize_upload_def Let_def)
  next
    case (Some b)
    with af show ?thesis
      by (cases "dg_sha D b = h") (rule that(4) that(3); simp add: fs_finalize_upload_def Let_def)+
  qed
qed

interpretation files: verifying_backend "file_backend D" D
proof unfold_locales
  fix s :: "'a file_store" and k h s' n b k' r e i f
  show "ut_key (be_prepare (file_backend D) i f) = storage_key i f" by (simp add: file_backend_def fs_prepare_upload_def)
  show "be_finalize (file_backend D) s k h = (s', Inr n) \<Longrightarrow> \<exists>b. be_get (file_backend D) s' k = Some b \<and> dg_size D b = n"
    by (rule fs_finalize_cases[of k D s h]) (auto simp: file_backend_def)
  show "be_finalize (file_backend D) s k h = (s', r) \<Longrightarrow> k' \<noteq> k \<Longrightarrow> be_get (file_backend D) s' k' = be_get (file_backend D) s k'"
    by (rule fs_finalize_cases[of k D s h]) (auto simp: file_backend_def)
  show "be_finalize (file_backend D) s k h = (s', Inr n) \<Longrightarrow> be_get (file_backend D) s' k = Some b \<Longrightarrow> dg_sha D b = h"
    by (rule fs_finalize_cases[of k D s h]) (auto simp: file_backend_def)
  show "be_finalize (file_backend D) s k h = (s', Inl e) \<Longrightarrow> be_get (file_backend D) s' k' = be_get (file_backend D) s k'"
    by (rule fs_finalize_cases[of k D s h]) (auto simp: file_backend_def)
  show "\<exists>s'. be_finalize (file_backend D) (be_put (file_backend D) s (ut_path (be_prepare (file_backend D) i f)) b) (storage_key i f) (dg_sha D b)
      = (s', Inr (dg_size D b)) \<and> be_get (file_backend D) s' (storage_key i f) = Some b"
    by (simp add: file_backend_def fs_prepare_upload_def fs_finalize_upload_def split_storage_key Let_def)
qed (auto simp: file_backend_def fs_delete_def fs_exists_def)

end
