(* ===== verification/Artifact_Service.thy ===== *)
theory Artifact_Service
  imports Blob_Storage "HOL-Library.List_Lexorder" "HOL-Library.Char_ord"
begin

text \<open>
  Global artifacts: \<open>ArtifactService\<close> of \<open>artifacts/service.py\<close> with the errors of \<open>artifacts/exceptions.py\<close>
  and the endpoints of \<open>artifacts/routes.py\<close>, over any storage backend.

  The tables are dictionaries from ids to rows. The lineage fields of an artifact that no operation reads
  (node, kernel, module, time stamps) are left out. SQLite gives a new row the id after the largest one in the table,
  and treats two missing namespaces as different in the constraint \<open>uq_artifact_name_ns_version\<close>. An exception
  that a method raises is the left side of its result, next to the database as it was left.
\<close>

section \<open>Rows\<close>

datatype artifact_status = Pending | Active | Failed | Deleted

record artifact =
  ga_name :: string
  ga_ns :: "int option"
  ga_version :: int
  ga_status :: artifact_status
  ga_owner :: int
  ga_flow :: int
  ga_type :: "string option"
  ga_format :: string
  ga_key :: "string option"
  ga_size :: "nat option"
  ga_sha :: "string option"
  ga_description :: "string option"
  ga_tags :: "string list"

record 's artifact_db =
  ad_rows :: "(int, artifact) dict"
  ad_flows :: "(int, int option) dict"
  ad_spaces :: "(int, string) dict"
  ad_grants :: "(string \<times> int) list"
  ad_store :: 's

datatype artifact_error =
    NoSuchFlow int
  | NoSuchNamespace
  | NoSuchArtifact
  | WrongState artifact_status
  | UploadFailed
  | ManyNamespaces "int option list"
  | FlowInUse

record upload_request =
  ur_name :: string
  ur_flow :: int
  ur_format :: string
  ur_description :: "string option"
  ur_tags :: "string list"
  ur_ns :: "int option"
  ur_type :: "string option"

definition upd_row :: "int \<Rightarrow> (artifact \<Rightarrow> artifact) \<Rightarrow> 's artifact_db \<Rightarrow> 's artifact_db" where
  "upd_row i f d = (case dict_get (ad_rows d) i of None \<Rightarrow> d | Some a \<Rightarrow> d\<lparr>ad_rows := dict_set i (f a) (ad_rows d)\<rparr>)"

section \<open>Upload\<close>

definition stale :: "string \<Rightarrow> int option \<Rightarrow> artifact \<Rightarrow> bool" where
  "stale name ns a \<longleftrightarrow> ga_name a = name \<and> ga_ns a = ns \<and> ga_status a \<in> {Pending, Failed}"

text \<open>\<open>delete_grants_for_resource\<close>; deleting a row through the session does the same.\<close>

definition drop_grants :: "int list \<Rightarrow> 's artifact_db \<Rightarrow> 's artifact_db" where
  "drop_grants is d = d\<lparr>ad_grants := filter (\<lambda>(t, i). \<not> (t = ''global_artifact'' \<and> i \<in> set is)) (ad_grants d)\<rparr>"

definition drop_stale :: "string \<Rightarrow> int option \<Rightarrow> 's artifact_db \<Rightarrow> 's artifact_db" where
  "drop_stale name ns d =
     drop_grants (map fst (filter (\<lambda>(i, a). stale name ns a) (ad_rows d)))
       (d\<lparr>ad_rows := filter (\<lambda>(i, a). \<not> stale name ns a) (ad_rows d)\<rparr>)"

definition versions_of :: "string \<Rightarrow> int option \<Rightarrow> 's artifact_db \<Rightarrow> int list" where
  "versions_of name ns d = map (ga_version \<circ> snd) (filter (\<lambda>(i, a). ga_name a = name \<and> ga_ns a = ns) (ad_rows d))"

definition next_version :: "string \<Rightarrow> int option \<Rightarrow> 's artifact_db \<Rightarrow> int" where
  "next_version name ns d = (let vs = versions_of name ns d in if vs = [] then 1 else Max (set vs) + 1)"

definition pending_artifact :: "upload_request \<Rightarrow> int option \<Rightarrow> int \<Rightarrow> int \<Rightarrow> artifact" where
  "pending_artifact r ns owner v =
     \<lparr>ga_name = ur_name r, ga_ns = ns, ga_version = v, ga_status = Pending, ga_owner = owner, ga_flow = ur_flow r,
      ga_type = ur_type r, ga_format = ur_format r, ga_key = None, ga_size = None, ga_sha = None,
      ga_description = ur_description r, ga_tags = ur_tags r\<rparr>"

definition version_taken :: "artifact \<Rightarrow> 's artifact_db \<Rightarrow> bool" where
  "version_taken a d \<longleftrightarrow>
     ga_ns a \<noteq> None \<and> list_ex (\<lambda>(i, b). ga_name b = ga_name a \<and> ga_ns b = ga_ns a \<and> ga_version b = ga_version a) (ad_rows d)"

text \<open>\<open>db.add\<close> and \<open>db.commit\<close>; \<open>None\<close> is the \<open>IntegrityError\<close>.\<close>

definition insert_artifact :: "artifact \<Rightarrow> 's artifact_db \<Rightarrow> ('s artifact_db \<times> int) option" where
  "insert_artifact a d =
     (if version_taken a d then None
      else let i = next_row_id (dict_keys (ad_rows d)) in Some (d\<lparr>ad_rows := dict_set i a (ad_rows d)\<rparr>, i))"

text \<open>
  The loop over the attempts. Other requests can commit between the query for the latest version and the commit
  of the new row; \<open>es\<close> is what they do, one function for each attempt.
\<close>

fun add_version ::
  "('s artifact_db \<Rightarrow> 's artifact_db) list \<Rightarrow> upload_request \<Rightarrow> int option \<Rightarrow> int \<Rightarrow> 's artifact_db
    \<Rightarrow> 's artifact_db \<times> (artifact_error + int \<times> int)" where
  "add_version [] r ns owner d = (d, Inl UploadFailed)"
| "add_version (e # es) r ns owner d =
     (let v = next_version (ur_name r) ns d; d' = e d in
      case insert_artifact (pending_artifact r ns owner v) d' of
        Some (d'', i) \<Rightarrow> (d'', Inr (i, v))
      | None \<Rightarrow> add_version es r ns owner d')"

definition max_retries :: nat where "max_retries = 3"

definition ext_map :: "(string \<times> string) list" where
  "ext_map = [(''parquet'', ''.parquet''), (''joblib'', ''.joblib''), (''pickle'', ''.pkl'')]"

definition upload_filename :: "upload_request \<Rightarrow> string" where
  "upload_filename r = ur_name r @ (case map_of ext_map (ur_format r) of Some e \<Rightarrow> e | None \<Rightarrow> ''.bin'')"

definition request_namespace :: "upload_request \<Rightarrow> int option \<Rightarrow> int option" where
  "request_namespace r flow_ns = (if ur_ns r = None then flow_ns else ur_ns r)"

definition prepare_upload ::
  "('s, 'b) backend \<Rightarrow> ('s artifact_db \<Rightarrow> 's artifact_db) list \<Rightarrow> upload_request \<Rightarrow> int \<Rightarrow> 's artifact_db
    \<Rightarrow> 's artifact_db \<times> (artifact_error + int \<times> int \<times> upload_target)" where
  "prepare_upload B es r owner d =
     (case dict_get (ad_flows d) (ur_flow r) of
        None \<Rightarrow> (d, Inl (NoSuchFlow (ur_flow r)))
      | Some flow_ns \<Rightarrow>
          (let ns = request_namespace r flow_ns in
           if (case ns of None \<Rightarrow> False | Some n \<Rightarrow> dict_get (ad_spaces d) n = None) then (d, Inl NoSuchNamespace)
           else case add_version (take max_retries es) r ns owner (drop_stale (ur_name r) ns d) of
             (d', Inl e) \<Rightarrow> (d', Inl e)
           | (d', Inr (i, v)) \<Rightarrow> (d', Inr (i, v, be_prepare B i (upload_filename r)))))"

text \<open>No other request in between.\<close>

abbreviation alone :: "('s artifact_db \<Rightarrow> 's artifact_db) list" where
  "alone \<equiv> [id, id, id]"

definition activate :: "string \<Rightarrow> string \<Rightarrow> nat \<Rightarrow> artifact \<Rightarrow> artifact" where
  "activate key sha n a = a\<lparr>ga_status := Active, ga_key := Some key, ga_sha := Some sha, ga_size := Some n\<rparr>"

definition finalize_upload ::
  "('s, 'b) backend \<Rightarrow> int \<Rightarrow> string \<Rightarrow> string \<Rightarrow> 's artifact_db \<Rightarrow> 's artifact_db \<times> (artifact_error + int \<times> int)" where
  "finalize_upload B i key sha d =
     (case dict_get (ad_rows d) i of
        None \<Rightarrow> (d, Inl NoSuchArtifact)
      | Some a \<Rightarrow>
          if ga_status a \<noteq> Pending then (d, Inl (WrongState (ga_status a)))
          else case be_finalize B (ad_store d) key sha of
            (s, Inl e) \<Rightarrow> (upd_row i (ga_status_update (\<lambda>_. Failed)) (d\<lparr>ad_store := s\<rparr>), Inl UploadFailed)
          | (s, Inr n) \<Rightarrow> (upd_row i (activate key sha n) (d\<lparr>ad_store := s\<rparr>), Inr (i, ga_version a)))"

section \<open>Retrieval\<close>

definition active_rows :: "'s artifact_db \<Rightarrow> (int \<times> artifact) list" where
  "active_rows d = filter (\<lambda>(i, a). ga_status a = Active) (ad_rows d)"

text \<open>The query for a name: all namespaces when none is given.\<close>

definition named :: "string \<Rightarrow> int option \<Rightarrow> 's artifact_db \<Rightarrow> (int \<times> artifact) list" where
  "named name ns d = filter (\<lambda>(i, a). ga_name a = name \<and> (ns = None \<or> ga_ns a = ns)) (active_rows d)"

definition ambiguous :: "string \<Rightarrow> int option \<Rightarrow> 's artifact_db \<Rightarrow> int option list" where
  "ambiguous name ns d =
     (if ns \<noteq> None then []
      else let nss = remdups (map (ga_ns \<circ> snd) (named name None d)) in if length nss > 1 then nss else [])"

definition newest_first :: "(int \<times> artifact) list \<Rightarrow> (int \<times> artifact) list" where
  "newest_first xs = sort_key (\<lambda>(i, a). - ga_version a) xs"

type_synonym artifact_out = "int \<times> artifact \<times> (string \<times> string) option"

definition artifact_to_out :: "('s, 'b) backend \<Rightarrow> int \<times> artifact \<Rightarrow> artifact_out" where
  "artifact_to_out B x =
     (fst x, snd x, case ga_key (snd x) of None \<Rightarrow> None | Some k \<Rightarrow> if k = [] then None else Some (be_download B k))"

definition first_out :: "('s, 'b) backend \<Rightarrow> (int \<times> artifact) list \<Rightarrow> artifact_error + artifact_out" where
  "first_out B xs = (case xs of [] \<Rightarrow> Inl NoSuchArtifact | x # _ \<Rightarrow> Inr (artifact_to_out B x))"

definition get_artifact_by_name ::
  "('s, 'b) backend \<Rightarrow> string \<Rightarrow> int option \<Rightarrow> int option \<Rightarrow> 's artifact_db \<Rightarrow> artifact_error + artifact_out" where
  "get_artifact_by_name B name ns version d =
     (if ambiguous name ns d \<noteq> [] then Inl (ManyNamespaces (ambiguous name ns d))
      else first_out B (case version of
             Some v \<Rightarrow> filter (\<lambda>(i, a). ga_version a = v) (named name ns d)
           | None \<Rightarrow> newest_first (named name ns d)))"

definition get_artifact_by_id :: "('s, 'b) backend \<Rightarrow> int \<Rightarrow> 's artifact_db \<Rightarrow> artifact_error + artifact_out" where
  "get_artifact_by_id B i d =
     (case dict_get (ad_rows d) i of
        None \<Rightarrow> Inl NoSuchArtifact
      | Some a \<Rightarrow> if ga_status a \<noteq> Active then Inl NoSuchArtifact else Inr (artifact_to_out B (i, a)))"

definition get_artifact_with_versions ::
  "('s, 'b) backend \<Rightarrow> string \<Rightarrow> int option \<Rightarrow> 's artifact_db
    \<Rightarrow> artifact_error + artifact_out \<times> (int \<times> int \<times> nat option \<times> string option) list" where
  "get_artifact_with_versions B name ns d =
     (if ambiguous name ns d \<noteq> [] then Inl (ManyNamespaces (ambiguous name ns d))
      else case newest_first (named name ns d) of
        [] \<Rightarrow> Inl NoSuchArtifact
      | x # xs \<Rightarrow> Inr (artifact_to_out B x, map (\<lambda>(i, a). (ga_version a, i, ga_size a, ga_sha a)) (x # xs)))"

definition resolve_namespace_id :: "string \<Rightarrow> 's artifact_db \<Rightarrow> artifact_error + int" where
  "resolve_namespace_id name d =
     (case map fst (filter (\<lambda>(i, n). n = name) (ad_spaces d)) of
        [] \<Rightarrow> Inl NoSuchNamespace
      | [i] \<Rightarrow> Inr i
      | is \<Rightarrow> Inl (ManyNamespaces (map Some is)))"

section \<open>Listing\<close>

text \<open>\<open>LIKE\<close> of SQLite: \<open>%\<close> stands for any text, \<open>_\<close> for any character, and the case of letters is ignored.\<close>

definition fold_case :: "char \<Rightarrow> char" where
  "fold_case c = (if c \<in> set ''ABCDEFGHIJKLMNOPQRSTUVWXYZ'' then char_of (of_char c + (32 :: nat)) else c)"

fun sql_like :: "string \<Rightarrow> string \<Rightarrow> bool" where
  "sql_like [] [] = True"
| "sql_like [] (c # cs) = False"
| "sql_like (p # ps) [] = (p = CHR ''%'' \<and> sql_like ps [])"
| "sql_like (p # ps) (c # cs) =
     (if p = CHR ''%'' then sql_like ps (c # cs) \<or> sql_like (p # ps) cs
      else (p = CHR ''_'' \<or> fold_case p = fold_case c) \<and> sql_like ps cs)"

definition sql_contains :: "string \<Rightarrow> string \<Rightarrow> bool" where
  "sql_contains t part = sql_like (''%'' @ part @ ''%'') t"

definition wanted :: "string option \<Rightarrow> string option \<Rightarrow> bool" where
  "wanted part t \<longleftrightarrow> (case part of None \<Rightarrow> True | Some p \<Rightarrow> p = [] \<or> (case t of None \<Rightarrow> False | Some x \<Rightarrow> sql_contains x p))"

definition list_matches ::
  "int option \<Rightarrow> string list \<Rightarrow> string option \<Rightarrow> string option \<Rightarrow> 's artifact_db \<Rightarrow> (int \<times> artifact) list" where
  "list_matches ns tags name_part type_part d =
     sort_key (\<lambda>(i, a). ga_name a) (newest_first (filter (\<lambda>(i, a).
       (ns = None \<or> ga_ns a = ns) \<and> wanted name_part (Some (ga_name a)) \<and> wanted type_part (ga_type a)
       \<and> list_all (\<lambda>t. t \<in> set (ga_tags a)) tags) (active_rows d)))"

definition list_artifacts ::
  "int option \<Rightarrow> string list \<Rightarrow> string option \<Rightarrow> string option \<Rightarrow> nat \<Rightarrow> nat \<Rightarrow> 's artifact_db \<Rightarrow> (int \<times> artifact) list" where
  "list_artifacts ns tags name_part type_part limit offset d = take limit (drop offset (list_matches ns tags name_part type_part d))"

definition list_artifact_names :: "int option \<Rightarrow> 's artifact_db \<Rightarrow> string list" where
  "list_artifact_names ns d = remdups (map (ga_name \<circ> snd) (filter (\<lambda>(i, a). ns = None \<or> ga_ns a = ns) (active_rows d)))"

section \<open>Deletion\<close>

definition delete_blob :: "('s, 'b) backend \<Rightarrow> artifact \<Rightarrow> 's artifact_db \<Rightarrow> 's artifact_db" where
  "delete_blob B a d =
     (case ga_key a of None \<Rightarrow> d | Some k \<Rightarrow> if k = [] then d else d\<lparr>ad_store := be_delete B (ad_store d) k\<rparr>)"

definition remove_version :: "('s, 'b) backend \<Rightarrow> int \<times> artifact \<Rightarrow> 's artifact_db \<Rightarrow> 's artifact_db" where
  "remove_version B x d =
     drop_grants [fst x] (upd_row (fst x) (ga_status_update (\<lambda>_. Deleted)) (delete_blob B (snd x) d))"

definition delete_artifact :: "('s, 'b) backend \<Rightarrow> int \<Rightarrow> 's artifact_db \<Rightarrow> 's artifact_db \<times> (artifact_error + nat)" where
  "delete_artifact B i d =
     (case dict_get (ad_rows d) i of
        None \<Rightarrow> (d, Inl NoSuchArtifact)
      | Some a \<Rightarrow> (remove_version B (i, a) d, Inr 1))"

definition delete_all_versions ::
  "('s, 'b) backend \<Rightarrow> string \<Rightarrow> int option \<Rightarrow> 's artifact_db \<Rightarrow> 's artifact_db \<times> (artifact_error + nat)" where
  "delete_all_versions B name ns d =
     (let xs = filter (\<lambda>(i, a). ga_name a = name \<and> ga_status a \<noteq> Deleted \<and> (ns = None \<or> ga_ns a = ns)) (ad_rows d) in
      if xs = [] then (d, Inl NoSuchArtifact) else (fold (remove_version B) xs d, Inr (length xs)))"

text \<open>
  The part of the deletion of a registered flow that concerns artifacts: it is refused while the flow has any,
  and removes the rows of those that were deleted (\<open>catalog/services/flows.py\<close>, \<open>catalog/repository.py\<close>).
\<close>

definition count_active_artifacts_for_flow :: "int \<Rightarrow> 's artifact_db \<Rightarrow> nat" where
  "count_active_artifacts_for_flow f d = length (filter (\<lambda>(i, a). ga_flow a = f \<and> ga_status a \<noteq> Deleted) (ad_rows d))"

definition delete_flow_artifacts :: "int \<Rightarrow> 's artifact_db \<Rightarrow> 's artifact_db \<times> (artifact_error + unit)" where
  "delete_flow_artifacts f d =
     (if dict_get (ad_flows d) f = None then (d, Inl (NoSuchFlow f))
      else if count_active_artifacts_for_flow f d > 0 then (d, Inl FlowInUse)
      else (d\<lparr>ad_rows := filter (\<lambda>(i, a). \<not> (ga_flow a = f \<and> ga_status a = Deleted)) (ad_rows d),
              ad_flows := dict_pop f (ad_flows d)\<rparr>, Inr ()))"

end
