(* ===== verification/Artifact_Safety.thy ===== *)
theory Artifact_Safety
  imports Artifact_Service
begin

text \<open>
  Global artifacts under every sequence of requests: what stays true of the rows and the blobs
  (\<open>artifacts_ok\<close>), that a published version does not change, that an upload can be fetched again, and what
  a lookup by name returns. Requests of several clients interleave; the cleanup, the query and the commit of one
  \<open>prepare_upload\<close> are steps of their own.
\<close>

section \<open>Requests\<close>

text \<open>
  A client finalizes with a key of its own artifact. \<open>Other_Tables\<close> is everything that happens to the other
  tables.
\<close>

datatype 'b artifact_op =
    Clean_Stale string "int option"
  | Insert_Version upload_request "int option" int int
  | Kernel_Writes string 'b
  | Finalize_Upload int string string
  | Delete_Artifact int
  | Delete_All string "int option"
  | Delete_Flow int
  | Other_Tables "(int, int option) dict" "(int, string) dict" "(string \<times> int) list"

fun apply_op :: "('s, 'b) backend \<Rightarrow> 'b artifact_op \<Rightarrow> 's artifact_db \<Rightarrow> 's artifact_db" where
  "apply_op B (Clean_Stale name ns) d = drop_stale name ns d"
| "apply_op B (Insert_Version r ns owner v) d =
     (case insert_artifact (pending_artifact r ns owner v) d of None \<Rightarrow> d | Some (d', i) \<Rightarrow> d')"
| "apply_op B (Kernel_Writes p b) d = d\<lparr>ad_store := be_put B (ad_store d) p b\<rparr>"
| "apply_op B (Finalize_Upload i f sha) d = fst (finalize_upload B i (storage_key i f) sha d)"
| "apply_op B (Delete_Artifact i) d = fst (delete_artifact B i d)"
| "apply_op B (Delete_All name ns) d = fst (delete_all_versions B name ns d)"
| "apply_op B (Delete_Flow f) d = fst (delete_flow_artifacts f d)"
| "apply_op B (Other_Tables flows spaces grants) d = d\<lparr>ad_flows := flows, ad_spaces := spaces, ad_grants := grants\<rparr>"

definition run_ops :: "('s, 'b) backend \<Rightarrow> 'b artifact_op list \<Rightarrow> 's artifact_db \<Rightarrow> 's artifact_db" where
  "run_ops B ops d = fold (apply_op B) ops d"

lemma run_ops_simps [simp]:
  "run_ops B [] d = d" "run_ops B (x # xs) d = run_ops B xs (apply_op B x d)"
  "run_ops B (xs @ ys) d = run_ops B ys (run_ops B xs d)"
  by (simp_all add: run_ops_def)

text \<open>An upload with other requests in between is such a sequence.\<close>

lemma add_version_run:
  assumes "\<And>e d. e \<in> set es \<Longrightarrow> \<exists>ops. e d = run_ops B ops d"
  shows "\<exists>ops. fst (add_version es r ns owner d) = run_ops B ops d"
  using assms
proof (induction es arbitrary: d)
  case Nil
  have "fst (add_version [] r ns owner d) = run_ops B [] d" by simp
  then show ?case by blast
next
  case (Cons e es)
  let ?a = "pending_artifact r ns owner (next_version (ur_name r) ns d)"
  from Cons.prems[of e d] obtain ops where ops: "e d = run_ops B ops d" by auto
  show ?case
  proof (cases "insert_artifact ?a (e d)")
    case None
    from Cons.IH[of "e d"] Cons.prems obtain ops' where "fst (add_version es r ns owner (e d)) = run_ops B ops' (e d)" by auto
    with None ops have "fst (add_version (e # es) r ns owner d) = run_ops B (ops @ ops') d" by (simp add: Let_def)
    then show ?thesis by blast
  next
    case (Some x)
    obtain d' i where x: "x = (d', i)" by (cases x)
    with Some ops have "fst (add_version (e # es) r ns owner d)
        = run_ops B (ops @ [Insert_Version r ns owner (next_version (ur_name r) ns d)]) d"
      by (simp add: Let_def)
    then show ?thesis by blast
  qed
qed

lemma prepare_upload_run:
  assumes "\<And>e d. e \<in> set es \<Longrightarrow> \<exists>ops. e d = run_ops B ops d"
  shows "\<exists>ops. fst (prepare_upload B es r owner d) = run_ops B ops d"
proof -
  let ?add = "\<lambda>ns. add_version (take max_retries es) r ns owner (drop_stale (ur_name r) ns d)"
  have "\<exists>ops. fst (?add ns) = run_ops B ops d" for ns
  proof -
    obtain ops where "fst (?add ns) = run_ops B ops (drop_stale (ur_name r) ns d)"
      using add_version_run[of "take max_retries es" B r ns owner "drop_stale (ur_name r) ns d"] assms in_set_takeD by metis
    then have "fst (?add ns) = run_ops B (Clean_Stale (ur_name r) ns # ops) d" by simp
    then show ?thesis by blast
  qed
  moreover have "fst (case x of (d', Inl e) \<Rightarrow> (d', Inl e) | (d', Inr (i, v)) \<Rightarrow> (d', Inr (i, v, f i))) = fst x"
    for x :: "'a artifact_db \<times> (artifact_error + int \<times> int)" and f :: "int \<Rightarrow> upload_target"
    by (auto split: prod.splits sum.splits)
  ultimately show ?thesis
    unfolding prepare_upload_def Let_def by (auto split: option.splits intro: exI[of _ "[]"])
qed

section \<open>The invariant\<close>

definition row_ok :: "('s, 'b) backend \<Rightarrow> 'b digest \<Rightarrow> 's \<Rightarrow> int \<Rightarrow> artifact \<Rightarrow> bool" where
  "row_ok B D s i a \<longleftrightarrow>
     (case ga_status a of
        Active \<Rightarrow> (\<exists>f b. ga_key a = Some (storage_key i f) \<and> be_get B s (storage_key i f) = Some b
                   \<and> ga_sha a = Some (dg_sha D b) \<and> ga_size a = Some (dg_size D b))
      | Deleted \<Rightarrow> (\<forall>k. ga_key a = Some k \<longrightarrow> (\<exists>f. k = storage_key i f))
      | _ \<Rightarrow> ga_key a = None)"

definition versions_ok :: "(int, artifact) dict \<Rightarrow> bool" where
  "versions_ok rows \<longleftrightarrow>
     (\<forall>i a j b. dict_get rows i = Some a \<longrightarrow> dict_get rows j = Some b \<longrightarrow> ga_ns a \<noteq> None \<longrightarrow>
        ga_name a = ga_name b \<longrightarrow> ga_ns a = ga_ns b \<longrightarrow> ga_version a = ga_version b \<longrightarrow> i = j)"

definition artifacts_ok :: "('s, 'b) backend \<Rightarrow> 'b digest \<Rightarrow> 's artifact_db \<Rightarrow> bool" where
  "artifacts_ok B D d \<longleftrightarrow>
     dict_ok (ad_rows d) \<and> versions_ok (ad_rows d) \<and> (\<forall>i a. dict_get (ad_rows d) i = Some a \<longrightarrow> row_ok B D (ad_store d) i a)"

lemma dict_get_filter:
  "dict_ok d \<Longrightarrow> dict_get (filter (\<lambda>(i, a). P i a) d) i = (case dict_get d i of None \<Rightarrow> None | Some a \<Rightarrow> if P i a then Some a else None)"
proof (induction d)
  case (Cons x d)
  obtain j a where x: "x = (j, a)" by (cases x)
  with Cons have "i = j \<Longrightarrow> dict_get d i = None" by (simp add: dict_ok_def map_of_eq_None_iff)
  with Cons x show ?case by (auto simp: dict_ok_def)
qed simp

declare dict_ok_filter [simp]

lemma upd_row_rows: "dict_get (ad_rows (upd_row i f d)) j = (if j = i then map_option f (dict_get (ad_rows d) i) else dict_get (ad_rows d) j)"
  by (auto simp: upd_row_def split: option.splits)

lemma upd_row_rest [simp]: "ad_store (upd_row i f d) = ad_store d" "dict_ok (ad_rows d) \<Longrightarrow> dict_ok (ad_rows (upd_row i f d))"
  by (auto simp: upd_row_def split: option.splits)

lemma drop_grants_rest [simp]: "ad_rows (drop_grants is d) = ad_rows d" "ad_store (drop_grants is d) = ad_store d"
  by (simp_all add: drop_grants_def)

text \<open>Fewer rows, or rows that change neither name nor namespace nor version, keep the versions unique.\<close>

lemma versions_ok_less:
  assumes "versions_ok rows" and "\<And>i a. dict_get rows' i = Some a \<Longrightarrow>
    \<exists>b. dict_get rows i = Some b \<and> ga_name a = ga_name b \<and> ga_ns a = ga_ns b \<and> ga_version a = ga_version b"
  shows "versions_ok rows'"
  unfolding versions_ok_def
proof (intro allI impI)
  fix i a j b
  assume a: "dict_get rows' i = Some a" and b: "dict_get rows' j = Some b" and eq: "ga_ns a \<noteq> None"
    "ga_name a = ga_name b" "ga_ns a = ga_ns b" "ga_version a = ga_version b"
  from assms(2)[OF a] assms(2)[OF b] obtain a' b' where "dict_get rows i = Some a'" "dict_get rows j = Some b'"
    "ga_name a = ga_name a'" "ga_ns a = ga_ns a'" "ga_version a = ga_version a'"
    "ga_name b = ga_name b'" "ga_ns b = ga_ns b'" "ga_version b = ga_version b'" by blast
  with assms(1) eq show "i = j" unfolding versions_ok_def by metis
qed

lemma versions_ok_upd:
  assumes "versions_ok (ad_rows d)" and "\<And>a. ga_name (f a) = ga_name a \<and> ga_ns (f a) = ga_ns a \<and> ga_version (f a) = ga_version a"
  shows "versions_ok (ad_rows (upd_row i f d))"
  using assms(1) by (rule versions_ok_less) (use assms(2) in \<open>auto simp: upd_row_rows split: if_splits\<close>)

lemma versions_ok_filter: "dict_ok rows \<Longrightarrow> versions_ok rows \<Longrightarrow> versions_ok (filter (\<lambda>(i, a). P i a) rows)"
  by (erule versions_ok_less) (auto simp: dict_get_filter split: option.splits if_splits)

lemma insert_artifact_cases:
  assumes "insert_artifact a d = Some (d', i)"
  shows "\<not> version_taken a d" and "i = next_row_id (dict_keys (ad_rows d))" and "d' = d\<lparr>ad_rows := dict_set i a (ad_rows d)\<rparr>"
    and "dict_get (ad_rows d) i = None"
  using assms by (auto simp: insert_artifact_def Let_def next_row_id_new split: if_splits)

lemma versions_ok_insert:
  assumes ok: "dict_ok (ad_rows d)" "versions_ok (ad_rows d)" and ins: "insert_artifact a d = Some (d', i)"
  shows "versions_ok (ad_rows d')"
proof -
  note c = insert_artifact_cases[OF ins]
  have new: "\<not> (ga_ns b \<noteq> None \<and> ga_name b = ga_name a \<and> ga_ns b = ga_ns a \<and> ga_version b = ga_version a)"
    if "dict_get (ad_rows d) j = Some b" for j b
    using c(1) that by (auto simp: version_taken_def list_ex_iff dest: map_of_SomeD)
  show ?thesis
    unfolding versions_ok_def
  proof (intro allI impI)
    fix k x j y
    assume "dict_get (ad_rows d') k = Some x" "dict_get (ad_rows d') j = Some y" "ga_ns x \<noteq> None"
      "ga_name x = ga_name y" "ga_ns x = ga_ns y" "ga_version x = ga_version y"
    then show "k = j"
      using new[of k x] new[of j y] ok(2)[unfolded versions_ok_def, rule_format, of k x j y]
      by (auto simp: c(3) split: if_splits)
  qed
qed

text \<open>Requests that do not delete the version \<open>i\<close> of \<open>name\<close>.\<close>

fun spares :: "int \<Rightarrow> string \<Rightarrow> 'b artifact_op \<Rightarrow> bool" where
  "spares i name (Delete_Artifact j) = (j \<noteq> i)"
| "spares i name (Delete_All n ns) = (n \<noteq> name)"
| "spares i name x = True"

text \<open>One lemma for each operation, for every backend that checks what it stores.\<close>

context verifying_backend begin

lemma row_ok_frame:
  assumes "row_ok B D s i a" and "\<And>f. be_get B s' (storage_key i f) = be_get B s (storage_key i f)"
  shows "row_ok B D s' i a"
  using assms by (auto simp: row_ok_def split: artifact_status.splits)

lemma okI:
  assumes "dict_ok (ad_rows d)" and "versions_ok (ad_rows d)"
    and "\<And>i a. dict_get (ad_rows d) i = Some a \<Longrightarrow> row_ok B D (ad_store d) i a"
  shows "artifacts_ok B D d"
  using assms by (simp add: artifacts_ok_def)

lemma okD:
  assumes "artifacts_ok B D d"
  shows "dict_ok (ad_rows d)" and "versions_ok (ad_rows d)"
    and "\<And>i a. dict_get (ad_rows d) i = Some a \<Longrightarrow> row_ok B D (ad_store d) i a"
  using assms by (simp_all add: artifacts_ok_def)

lemma clean_keeps: "artifacts_ok B D d \<Longrightarrow> artifacts_ok B D (drop_stale name ns d)"
  by (rule okI) (auto simp: drop_stale_def okD versions_ok_filter dict_get_filter split: option.splits if_splits dest: okD)

lemma flow_deletion_keeps: "artifacts_ok B D d \<Longrightarrow> artifacts_ok B D (fst (delete_flow_artifacts f d))"
  by (rule okI) (auto simp: delete_flow_artifacts_def okD versions_ok_filter dict_get_filter split: option.splits if_splits dest: okD)

lemma insert_keeps:
  assumes ok: "artifacts_ok B D d" and ins: "insert_artifact (pending_artifact r ns owner v) d = Some (d', i)"
  shows "artifacts_ok B D d'"
proof (rule okI)
  note c = insert_artifact_cases[OF ins]
  show "dict_ok (ad_rows d')" using okD(1)[OF ok] by (simp add: c(3))
  show "versions_ok (ad_rows d')" by (rule versions_ok_insert[OF okD(1,2)[OF ok] ins])
  show "row_ok B D (ad_store d') j a" if "dict_get (ad_rows d') j = Some a" for j a
    using that okD(3)[OF ok, of j a] by (auto simp: c(3) row_ok_def pending_artifact_def split: if_splits)
qed

lemma put_keeps: "artifacts_ok B D d \<Longrightarrow> artifacts_ok B D (d\<lparr>ad_store := be_put B (ad_store d) p b\<rparr>)"
  by (rule okI) (auto simp: okD put_frame intro: row_ok_frame dest: okD)

lemma finalize_keeps:
  assumes ok: "artifacts_ok B D d"
  shows "artifacts_ok B D (fst (finalize_upload B i (storage_key i f) sha d))"
proof (cases "\<exists>a. dict_get (ad_rows d) i = Some a \<and> ga_status a = Pending")
  case False
  then have "fst (finalize_upload B i (storage_key i f) sha d) = d"
    by (auto simp: finalize_upload_def split: option.splits)
  with ok show ?thesis by simp
next
  case True
  then obtain a where a: "dict_get (ad_rows d) i = Some a" "ga_status a = Pending" by blast
  obtain s x where fin: "be_finalize B (ad_store d) (storage_key i f) sha = (s, x)" by (cases "be_finalize B (ad_store d) (storage_key i f) sha") auto
  have frame: "be_get B s (storage_key j g) = be_get B (ad_store d) (storage_key j g)" if "j \<noteq> i" for j g
    using finalize_frame[OF fin] that by (simp add: storage_key_inj)
  define g where "g = (case x of Inl e \<Rightarrow> ga_status_update (\<lambda>_. Failed) | Inr n \<Rightarrow> activate (storage_key i f) sha n)"
  have eq: "fst (finalize_upload B i (storage_key i f) sha d) = upd_row i g (d\<lparr>ad_store := s\<rparr>)"
    by (simp add: finalize_upload_def a fin g_def split: sum.splits)
  have same: "ga_name (g b) = ga_name b \<and> ga_ns (g b) = ga_ns b \<and> ga_version (g b) = ga_version b" for b
    by (simp add: g_def activate_def split: sum.splits)
  have new: "row_ok B D s i (g a)"
  proof (cases x)
    case (Inl e)
    then show ?thesis using okD(3)[OF ok a(1)] by (simp add: g_def row_ok_def a(2))
  next
    case (Inr n)
    with finalize_size fin obtain b where b: "be_get B s (storage_key i f) = Some b" "dg_size D b = n" by blast
    with finalize_sha fin Inr have "dg_sha D b = sha" by blast
    with b Inr show ?thesis by (auto simp: g_def row_ok_def activate_def)
  qed
  show ?thesis
    unfolding eq
  proof (rule okI)
    show "dict_ok (ad_rows (upd_row i g (d\<lparr>ad_store := s\<rparr>)))" using okD(1)[OF ok] by simp
    show "versions_ok (ad_rows (upd_row i g (d\<lparr>ad_store := s\<rparr>)))" using okD(2)[OF ok] same by (intro versions_ok_upd) simp_all
    show "row_ok B D (ad_store (upd_row i g (d\<lparr>ad_store := s\<rparr>))) j c"
      if "dict_get (ad_rows (upd_row i g (d\<lparr>ad_store := s\<rparr>))) j = Some c" for j c
    proof (cases "j = i")
      case True
      with that a(1) new show ?thesis by (simp add: upd_row_rows)
    next
      case False
      with that have "row_ok B D (ad_store d) j c" using okD(3)[OF ok] by (simp add: upd_row_rows)
      then show ?thesis using frame[OF False] by (auto intro: row_ok_frame)
    qed
  qed
qed

lemma row_key: "artifacts_ok B D d \<Longrightarrow> dict_get (ad_rows d) i = Some a \<Longrightarrow> ga_key a = Some k \<Longrightarrow> \<exists>f. k = storage_key i f"
  using okD(3)[of d i a] by (auto simp: row_ok_def split: artifact_status.splits)

lemma remove_keeps:
  assumes ok: "artifacts_ok B D d" and key: "\<And>k. ga_key a = Some k \<Longrightarrow> \<exists>f. k = storage_key i f"
  shows "artifacts_ok B D (remove_version B (i, a) d)"
proof (rule okI)
  let ?e = "delete_blob B a d"
  have rows [simp]: "ad_rows ?e = ad_rows d" by (simp add: delete_blob_def split: option.splits)
  have frame: "be_get B (ad_store ?e) (storage_key j g) = be_get B (ad_store d) (storage_key j g)" if "j \<noteq> i" for j g
  proof (cases "ga_key a")
    case (Some k)
    with key obtain f where "k = storage_key i f" by blast
    with Some that show ?thesis by (simp add: delete_blob_def delete_frame storage_key_inj)
  qed (simp add: delete_blob_def)
  show "dict_ok (ad_rows (remove_version B (i, a) d))" using okD(1)[OF ok] by (simp add: remove_version_def)
  show "versions_ok (ad_rows (remove_version B (i, a) d))"
    using versions_ok_upd[of ?e] okD(2)[OF ok] by (simp add: remove_version_def)
  show "row_ok B D (ad_store (remove_version B (i, a) d)) j c" if c: "dict_get (ad_rows (remove_version B (i, a) d)) j = Some c" for j c
  proof (cases "j = i")
    case True
    with c obtain b where "dict_get (ad_rows d) i = Some b" "c = b\<lparr>ga_status := Deleted\<rparr>" by (auto simp: remove_version_def upd_row_rows)
    with row_key[OF ok, of i b] True show ?thesis by (auto simp: row_ok_def)
  next
    case False
    with c have "row_ok B D (ad_store d) j c" using okD(3)[OF ok] by (simp add: remove_version_def upd_row_rows)
    with frame[OF False] show ?thesis by (auto simp: remove_version_def intro: row_ok_frame)
  qed
qed

lemma delete_keeps: "artifacts_ok B D d \<Longrightarrow> artifacts_ok B D (fst (delete_artifact B i d))"
  using remove_keeps row_key by (auto simp: delete_artifact_def split: option.splits)

lemma delete_all_keeps:
  assumes ok: "artifacts_ok B D d"
  shows "artifacts_ok B D (fst (delete_all_versions B name ns d))"
proof -
  let ?xs = "filter (\<lambda>(i, a). ga_name a = name \<and> ga_status a \<noteq> Deleted \<and> (ns = None \<or> ga_ns a = ns)) (ad_rows d)"
  have "artifacts_ok B D (fold (remove_version B) ?xs d)"
  proof (rule fold_invariant[of "artifacts_ok B D", OF ok])
    fix x d'
    assume x: "x \<in> set ?xs" and d': "artifacts_ok B D d'"
    obtain i a where ia: "x = (i, a)" by (cases x)
    with x okD(1)[OF ok] have "dict_get (ad_rows d) i = Some a" by (simp add: dict_get_in_iff)
    from row_key[OF ok this] show "artifacts_ok B D (remove_version B x d')" unfolding ia by (intro remove_keeps[OF d'])
  qed
  with ok show ?thesis by (simp add: delete_all_versions_def Let_def)
qed

lemma apply_keeps: "artifacts_ok B D d \<Longrightarrow> artifacts_ok B D (apply_op B x d)"
proof (cases x)
  case (Insert_Version r ns owner v)
  assume ok: "artifacts_ok B D d"
  show ?thesis
  proof (cases "insert_artifact (pending_artifact r ns owner v) d")
    case (Some y)
    then show ?thesis using insert_keeps[OF ok] Insert_Version by (cases y) simp
  qed (simp add: ok Insert_Version)
next
  case (Other_Tables flows spaces grants)
  assume "artifacts_ok B D d"
  then show ?thesis by (simp add: Other_Tables artifacts_ok_def)
qed (simp_all add: clean_keeps flow_deletion_keeps put_keeps finalize_keeps delete_keeps delete_all_keeps)

lemma run_keeps: "artifacts_ok B D d \<Longrightarrow> artifacts_ok B D (run_ops B ops d)"
  by (induction ops arbitrary: d) (simp_all add: apply_keeps)

lemma start_ok: "ad_rows d = [] \<Longrightarrow> artifacts_ok B D d"
  by (simp add: artifacts_ok_def versions_ok_def)

text \<open>A published version stays what it is until it is deleted itself.\<close>

lemma remove_frame:
  assumes "j \<noteq> i" and "\<And>k. ga_key b = Some k \<Longrightarrow> \<exists>f. k = storage_key j f"
  shows "dict_get (ad_rows (remove_version B (j, b) d)) i = dict_get (ad_rows d) i"
    and "be_get B (ad_store (remove_version B (j, b) d)) (storage_key i f) = be_get B (ad_store d) (storage_key i f)"
proof -
  have rows: "ad_rows (delete_blob B b d) = ad_rows d" by (simp add: delete_blob_def split: option.splits)
  show "dict_get (ad_rows (remove_version B (j, b) d)) i = dict_get (ad_rows d) i"
    using assms(1) by (simp add: remove_version_def upd_row_rows rows)
  show "be_get B (ad_store (remove_version B (j, b) d)) (storage_key i f) = be_get B (ad_store d) (storage_key i f)"
  proof (cases "ga_key b")
    case (Some k)
    with assms obtain g where "k = storage_key j g" by blast
    with Some assms(1) show ?thesis by (simp add: remove_version_def delete_blob_def delete_frame storage_key_inj)
  qed (simp add: remove_version_def delete_blob_def)
qed

lemma finalize_frame_row:
  assumes row: "dict_get (ad_rows d) i = Some a" "ga_status a = Active"
  shows "dict_get (ad_rows (fst (finalize_upload B j (storage_key j g) sha d))) i = Some a
    \<and> be_get B (ad_store (fst (finalize_upload B j (storage_key j g) sha d))) (storage_key i f) = be_get B (ad_store d) (storage_key i f)"
proof (cases "j = i")
  case True
  with row show ?thesis by (simp add: finalize_upload_def)
next
  case False
  show ?thesis
  proof (cases "dict_get (ad_rows d) j")
    case (Some b)
    obtain s x where fin: "be_finalize B (ad_store d) (storage_key j g) sha = (s, x)" by (cases "be_finalize B (ad_store d) (storage_key j g) sha") auto
    have "be_get B s (storage_key i f) = be_get B (ad_store d) (storage_key i f)"
      using finalize_frame[OF fin] False by (simp add: storage_key_inj)
    with Some fin False row show ?thesis by (simp add: finalize_upload_def upd_row_rows split: sum.splits)
  qed (simp add: finalize_upload_def row)
qed

lemma apply_spares:
  assumes ok: "artifacts_ok B D d" and row: "dict_get (ad_rows d) i = Some a" "ga_status a = Active"
    and spares: "spares i (ga_name a) x"
  shows "dict_get (ad_rows (apply_op B x d)) i = Some a
    \<and> be_get B (ad_store (apply_op B x d)) (storage_key i f) = be_get B (ad_store d) (storage_key i f)"
proof (cases x)
  case (Clean_Stale n ns)
  then show ?thesis using okD(1)[OF ok] row by (simp add: drop_stale_def dict_get_filter stale_def)
next
  case (Insert_Version r ns owner v)
  show ?thesis
  proof (cases "insert_artifact (pending_artifact r ns owner v) d")
    case (Some y)
    obtain d' j where y: "y = (d', j)" by (cases y)
    from insert_artifact_cases[OF Some[unfolded y]] row have "i \<noteq> j" by auto
    with insert_artifact_cases(3)[OF Some[unfolded y]] Some y row show ?thesis by (simp add: Insert_Version)
  qed (simp add: Insert_Version row)
next
  case (Kernel_Writes p b)
  then show ?thesis by (simp add: row put_frame)
next
  case (Finalize_Upload j g sha)
  then show ?thesis using finalize_frame_row[OF row] by simp
next
  case (Delete_Artifact j)
  show ?thesis
  proof (cases "dict_get (ad_rows d) j")
    case (Some b)
    with remove_frame[of j i b d] row_key[OF ok Some] spares Delete_Artifact row show ?thesis by (simp add: delete_artifact_def)
  qed (simp add: Delete_Artifact delete_artifact_def row)
next
  case (Delete_All n ns)
  let ?xs = "filter (\<lambda>(i, a). ga_name a = n \<and> ga_status a \<noteq> Deleted \<and> (ns = None \<or> ga_ns a = ns)) (ad_rows d)"
  let ?P = "\<lambda>d' :: 'a artifact_db. dict_get (ad_rows d') i = Some a \<and> be_get B (ad_store d') (storage_key i f) = be_get B (ad_store d) (storage_key i f)"
  have "?P (fold (remove_version B) ?xs d)"
  proof (rule fold_invariant[of ?P])
    show "?P d" by (simp add: row)
    fix x and d' :: "'a artifact_db"
    assume x: "x \<in> set ?xs" and d': "?P d'"
    obtain j b where jb: "x = (j, b)" by (cases x)
    with x okD(1)[OF ok] have b: "dict_get (ad_rows d) j = Some b" "ga_name b = n" by (auto simp: dict_get_in_iff)
    with row spares Delete_All have "j \<noteq> i" by auto
    with remove_frame[of j i b d'] row_key[OF ok b(1)] d' show "?P (remove_version B x d')" unfolding jb by simp
  qed
  with row show ?thesis by (simp add: Delete_All delete_all_versions_def Let_def)
next
  case (Delete_Flow fl)
  then show ?thesis using okD(1)[OF ok] row by (auto simp: delete_flow_artifacts_def dict_get_filter)
qed (simp add: row)

lemma run_spares:
  assumes "artifacts_ok B D d" and "dict_get (ad_rows d) i = Some a" "ga_status a = Active"
    and "list_all (spares i (ga_name a)) ops"
  shows "dict_get (ad_rows (run_ops B ops d)) i = Some a
    \<and> be_get B (ad_store (run_ops B ops d)) (storage_key i f) = be_get B (ad_store d) (storage_key i f)"
  using assms
proof (induction ops arbitrary: d)
  case (Cons x ops)
  from Cons.prems have s: "spares i (ga_name a) x" "list_all (spares i (ga_name a)) ops" by simp_all
  note step = apply_spares[OF Cons.prems(1-3) s(1), of f]
  from Cons.IH[OF apply_keeps[OF Cons.prems(1)] conjunct1[OF step] Cons.prems(3) s(2)] step show ?case by simp
qed simp

end

section \<open>Lookups\<close>

lemma newest_first_set [simp]: "set (newest_first xs) = set xs" "newest_first xs = [] \<longleftrightarrow> xs = []"
  by (simp_all add: newest_first_def) (metis set_empty set_sort)

lemma newest_first_head:
  assumes "newest_first xs = (i, a) # ys"
  shows "(i, a) \<in> set xs" and "(j, b) \<in> set xs \<Longrightarrow> ga_version b \<le> ga_version a"
proof -
  from assms have "set xs = set ((i, a) # ys)" using newest_first_set(1)[of xs] by simp
  then show "(i, a) \<in> set xs" by simp
  have "sorted (map (\<lambda>(i, a). - ga_version a) ((i, a) # ys))" unfolding assms[symmetric] newest_first_def by simp
  with \<open>set xs = _\<close> show "(j, b) \<in> set xs \<Longrightarrow> ga_version b \<le> ga_version a" by auto
qed

definition matches :: "string \<Rightarrow> int option \<Rightarrow> int option \<Rightarrow> artifact \<Rightarrow> bool" where
  "matches name ns version a \<longleftrightarrow>
     ga_status a = Active \<and> ga_name a = name \<and> (ns = None \<or> ga_ns a = ns) \<and> (version = None \<or> version = Some (ga_version a))"

lemma named_iff: "(i, a) \<in> set (named name ns d) \<longleftrightarrow> (i, a) \<in> set (ad_rows d) \<and> matches name ns None a"
  by (auto simp: named_def active_rows_def matches_def)

lemma not_ambiguous:
  assumes "ambiguous name None d = []" and "(i, a) \<in> set (named name None d)" and "(j, b) \<in> set (named name None d)"
  shows "ga_ns a = ga_ns b"
proof -
  let ?nss = "remdups (map (ga_ns \<circ> snd) (named name None d))"
  have "length ?nss \<le> 1" using assms(1) by (auto simp: ambiguous_def Let_def split: if_splits)
  moreover have "ga_ns a \<in> set ?nss" "ga_ns b \<in> set ?nss" using assms(2,3) by force+
  ultimately show ?thesis by (cases ?nss) auto
qed

lemma is_ambiguous:
  assumes "ambiguous name ns d \<noteq> []"
  shows "ns = None \<and> (\<exists>i a j b. (i, a) \<in> set (named name None d) \<and> (j, b) \<in> set (named name None d) \<and> ga_ns a \<noteq> ga_ns b)"
proof -
  let ?nss = "remdups (map (ga_ns \<circ> snd) (named name None d))"
  from assms have ns: "ns = None" and "length ?nss > 1" by (auto simp: ambiguous_def Let_def split: if_splits)
  then obtain x y zs where "?nss = x # y # zs" by (cases ?nss; cases "tl ?nss") auto
  then have "x \<noteq> y" "x \<in> set ?nss" "y \<in> set ?nss" using distinct_remdups[of "map (ga_ns \<circ> snd) (named name None d)"] by auto
  then obtain i a j b where "(i, a) \<in> set (named name None d)" "(j, b) \<in> set (named name None d)" "ga_ns a \<noteq> ga_ns b"
    by (auto simp: comp_def)
  with ns show ?thesis by blast
qed

text \<open>Without a namespace a name is ambiguous when it is active in several, whatever version is asked for.\<close>

definition in_several_spaces :: "string \<Rightarrow> int option \<Rightarrow> 's artifact_db \<Rightarrow> bool" where
  "in_several_spaces name ns d \<longleftrightarrow>
     ns = None \<and> (\<exists>(i, a) \<in> set (ad_rows d). \<exists>(j, b) \<in> set (ad_rows d).
       matches name None None a \<and> matches name None None b \<and> ga_ns a \<noteq> ga_ns b)"

lemma ambiguous_iff: "ambiguous name ns d \<noteq> [] \<longleftrightarrow> in_several_spaces name ns d"
proof
  assume "ambiguous name ns d \<noteq> []"
  from is_ambiguous[OF this] show "in_several_spaces name ns d" by (auto simp: in_several_spaces_def named_iff)
next
  assume "in_several_spaces name ns d"
  then obtain i a j b where "ns = None" "(i, a) \<in> set (named name None d)" "(j, b) \<in> set (named name None d)" "ga_ns a \<noteq> ga_ns b"
    by (auto simp: in_several_spaces_def named_iff)
  with not_ambiguous[of name d i a j b] show "ambiguous name ns d \<noteq> []" by blast
qed

lemma ambiguous_spaces:
  assumes "ambiguous name ns d \<noteq> []"
  shows "set (ambiguous name ns d) = {ga_ns a |i a. (i, a) \<in> set (ad_rows d) \<and> matches name None None a}"
proof -
  have "set (ambiguous name ns d) = (\<lambda>x. ga_ns (snd x)) ` set (named name None d)"
    using assms by (simp add: ambiguous_def Let_def comp_def split: if_splits)
  moreover have "set (named name None d) = {(i, a). (i, a) \<in> set (ad_rows d) \<and> matches name None None a}"
    using named_iff by blast
  moreover have "(\<lambda>x. ga_ns (snd x)) ` {(i, a). Q i a} = {ga_ns a |i a. Q i a}" for Q :: "int \<Rightarrow> artifact \<Rightarrow> bool"
    by force
  ultimately show ?thesis by simp
qed

text \<open>
  C26: a lookup by name refuses exactly a name without namespace that is active in several, also when a version is
  given, and names these namespaces. Otherwise it returns an active version with that name, in the namespace that
  was asked for, the newest one unless a version was given, and finds nothing exactly when nothing matches.
\<close>

theorem lookup_by_name:
  "if in_several_spaces name ns d
   then \<exists>nss. get_artifact_by_name B name ns version d = Inl (ManyNamespaces nss)
          \<and> set nss = {ga_ns a |i a. (i, a) \<in> set (ad_rows d) \<and> matches name None None a}
   else case get_artifact_by_name B name ns version d of
          Inr (i, a, src) \<Rightarrow> (i, a) \<in> set (ad_rows d) \<and> matches name ns version a
            \<and> (\<forall>(j, b) \<in> set (ad_rows d). matches name ns version b \<longrightarrow> ga_version b \<le> ga_version a \<and> ga_ns b = ga_ns a)
        | Inl e \<Rightarrow> e = NoSuchArtifact \<and> (\<forall>(j, b) \<in> set (ad_rows d). \<not> matches name ns version b)"
proof (cases "ambiguous name ns d = []")
  case False
  with ambiguous_iff[of name ns d] ambiguous_spaces[OF False] show ?thesis by (simp add: get_artifact_by_name_def)
next
  case True
  have one: "ga_ns a = ga_ns b" if "(i, a) \<in> set (named name ns d)" "(j, b) \<in> set (named name ns d)" for i a j b
    using that not_ambiguous[of name d i a j b] True by (cases ns) (auto simp: named_iff matches_def)
  let ?xs = "case version of Some v \<Rightarrow> filter (\<lambda>(i, a). ga_version a = v) (named name ns d) | None \<Rightarrow> newest_first (named name ns d)"
  have xs: "(i, a) \<in> set ?xs \<longleftrightarrow> (i, a) \<in> set (ad_rows d) \<and> matches name ns version a" for i a
    by (auto simp: named_iff matches_def split: option.splits)
  have unique: "\<not> in_several_spaces name ns d" using True ambiguous_iff[of name ns d] by simp
  show ?thesis
  proof (cases ?xs)
    case Nil
    with True have get: "get_artifact_by_name B name ns version d = Inl NoSuchArtifact"
      by (simp add: get_artifact_by_name_def first_out_def)
    have "\<forall>(j, b) \<in> set (ad_rows d). \<not> matches name ns version b" using xs Nil by auto
    with get unique show ?thesis by simp
  next
    case (Cons x ys)
    obtain i a where x: "x = (i, a)" by (cases x)
    from Cons x True have get: "get_artifact_by_name B name ns version d = Inr (artifact_to_out B (i, a))"
      by (simp add: get_artifact_by_name_def first_out_def)
    have ia: "(i, a) \<in> set (ad_rows d)" "matches name ns version a" using xs[of i a] Cons x by auto
    have "ga_version b \<le> ga_version a \<and> ga_ns b = ga_ns a" if "(j, b) \<in> set (ad_rows d)" "matches name ns version b" for j b
    proof
      have in': "(j, b) \<in> set (named name ns d)" "(i, a) \<in> set (named name ns d)"
        using that ia by (auto simp: named_iff matches_def)
      show "ga_ns b = ga_ns a" by (rule one[OF in'])
      show "ga_version b \<le> ga_version a"
      proof (cases version)
        case None
        with Cons x in'(1) newest_first_head(2)[of "named name ns d" i a ys j b] show ?thesis by simp
      next
        case (Some v)
        with that ia show ?thesis by (simp add: matches_def)
      qed
    qed
    then have "\<forall>(j, b) \<in> set (ad_rows d). matches name ns version b \<longrightarrow> ga_version b \<le> ga_version a \<and> ga_ns b = ga_ns a"
      by blast
    with ia unique show ?thesis unfolding get artifact_to_out_def by simp
  qed
qed

section \<open>Listing\<close>

lemma listing_exact:
  "(i, a) \<in> set (list_matches ns tags name_part type_part d) \<longleftrightarrow>
     (i, a) \<in> set (ad_rows d) \<and> ga_status a = Active \<and> (ns = None \<or> ga_ns a = ns) \<and> wanted name_part (Some (ga_name a))
     \<and> wanted type_part (ga_type a) \<and> set tags \<subseteq> set (ga_tags a)"
  by (auto simp: list_matches_def active_rows_def list_all_iff)

text \<open>Pages of one size, one after the other, are the list.\<close>

lemma listing_pages:
  "concat (map (\<lambda>k. list_artifacts ns tags name_part type_part n (k * n) d) [0..<m])
    = take (m * n) (list_matches ns tags name_part type_part d)"
proof (induction m)
  case (Suc m)
  have "take (Suc m * n) xs = take (m * n) xs @ take n (drop (m * n) xs)" for xs :: "(int \<times> artifact) list"
    by (metis add.commute mult_Suc take_add)
  with Suc show ?case by (simp add: list_artifacts_def)
qed simp

end
