(* ===== verification/Artifact_Upload.thy ===== *)
theory Artifact_Upload
  imports Artifact_Safety
begin

text \<open>
  Global artifacts, end to end: the properties of the uploads on a shared file system, what does not hold for
  them, and what does not hold on S3.
\<close>

section \<open>One upload\<close>

lemma next_version_above:
  assumes "(j, c) \<in> set (ad_rows d)" and "ga_name c = name" and "ga_ns c = ns"
  shows "ga_version c < next_version name ns d"
proof -
  from assms have "ga_version c \<in> set (versions_of name ns d)" by (force simp: versions_of_def)
  then have "ga_version c \<le> Max (set (versions_of name ns d))" "versions_of name ns d \<noteq> []" by (auto intro: Max_ge)
  then show ?thesis by (simp add: next_version_def Let_def)
qed

text \<open>Alone, the first attempt succeeds.\<close>

lemma add_version_alone:
  "add_version (take max_retries alone) r ns owner d =
     (let i = next_row_id (dict_keys (ad_rows d)); v = next_version (ur_name r) ns d in
      (d\<lparr>ad_rows := dict_set i (pending_artifact r ns owner v) (ad_rows d)\<rparr>, Inr (i, v)))"
proof -
  have "\<not> version_taken (pending_artifact r ns owner (next_version (ur_name r) ns d)) d"
    using next_version_above[of _ _ d "ur_name r" ns] by (fastforce simp: version_taken_def list_ex_iff pending_artifact_def)
  then show ?thesis by (simp add: max_retries_def numeral_3_eq_3 insert_artifact_def Let_def)
qed

lemma prepare_alone:
  assumes prep: "prepare_upload B alone r owner d = (d1, Inr (i, v, t))" and flow: "dict_get (ad_flows d) (ur_flow r) = Some fns"
  defines "d0 \<equiv> drop_stale (ur_name r) (request_namespace r fns) d"
  shows "i = next_row_id (dict_keys (ad_rows d0))" and "v = next_version (ur_name r) (request_namespace r fns) d0"
    and "d1 = d0\<lparr>ad_rows := dict_set i (pending_artifact r (request_namespace r fns) owner v) (ad_rows d0)\<rparr>"
    and "t = be_prepare B i (upload_filename r)"
  using prep by (auto simp: prepare_upload_def flow Let_def add_version_alone d0_def split: if_splits)

lemma drop_stale_active: "active_rows (drop_stale name ns d) = active_rows d"
  by (auto simp: active_rows_def drop_stale_def stale_def filter_filter intro!: filter_cong)

lemma active_rows_set: "dict_ok (ad_rows d) \<Longrightarrow> (j, c) \<in> set (active_rows d) \<longleftrightarrow> dict_get (ad_rows d) j = Some c \<and> ga_status c = Active"
  by (auto simp: active_rows_def dict_get_in_iff)

context blob_backend begin

lemma upload_fetch:
  assumes rows: "dict_ok (ad_rows d)" and prep: "prepare_upload B alone r owner d = (d1, Inr (i, v, t))"
    and flow: "dict_get (ad_flows d) (ur_flow r) = Some fns" and ns: "request_namespace r fns = Some n"
    and fin: "finalize_upload B i (ut_key t) (dg_sha D b) (d1\<lparr>ad_store := be_put B (ad_store d1) (ut_path t) b\<rparr>) = (d3, res)"
  shows "res = Inr (i, v)
    \<and> (\<exists>a. get_artifact_by_name B (ur_name r) (Some n) None d3 = Inr (i, a, Some (be_download B (ut_key t)))
         \<and> ga_version a = v \<and> ga_owner a = owner \<and> be_get B (ad_store d3) (ut_key t) = Some b)
    \<and> (\<forall>(j, c) \<in> set (active_rows d). ga_name c = ur_name r \<and> ga_ns c = Some n \<longrightarrow> ga_version c < v)"
proof -
  let ?d0 = "drop_stale (ur_name r) (Some n) d"
  let ?p = "pending_artifact r (Some n) owner v"
  note p = prepare_alone[OF prep flow, unfolded ns]
  have key: "ut_key t = storage_key i (upload_filename r)" by (simp add: p(4) prepare_key)
  let ?k = "storage_key i (upload_filename r)"
  let ?d2 = "d1\<lparr>ad_store := be_put B (ad_store d1) (ut_path t) b\<rparr>"
  have row: "dict_get (ad_rows d1) i = Some ?p" unfolding p(3) by simp
  obtain s where s: "be_finalize B (be_put B (ad_store d1) (ut_path t) b) ?k (dg_sha D b) = (s, Inr (dg_size D b))" "be_get B s ?k = Some b"
    using upload[of "ad_store d1" i "upload_filename r" b] p(4) by auto
  let ?a = "activate ?k (dg_sha D b) (dg_size D b) ?p"
  have res: "res = Inr (i, v)" and d3: "d3 = upd_row i (activate ?k (dg_sha D b) (dg_size D b)) (?d2\<lparr>ad_store := s\<rparr>)"
    using fin by (simp_all add: finalize_upload_def key row s(1) pending_artifact_def)
  have rows0: "dict_ok (ad_rows ?d0)" using rows by (simp add: drop_stale_def)
  have rows3: "dict_ok (ad_rows d3)" using rows0 by (simp add: d3 p(3))
  have get3: "dict_get (ad_rows d3) j = (if j = i then Some ?a else dict_get (ad_rows ?d0) j)" for j
    by (simp add: d3 upd_row_rows row) (simp add: p(3))
  have above: "ga_version c < v" if "dict_get (ad_rows ?d0) j = Some c" "ga_name c = ur_name r" "ga_ns c = Some n" for j c
    using next_version_above[of j c ?d0 "ur_name r" "Some n"] that rows0 by (simp add: p(2) dict_get_in_iff)
  have a: "ga_status ?a = Active" "ga_name ?a = ur_name r" "ga_ns ?a = Some n" "ga_version ?a = v" "ga_owner ?a = owner" "ga_key ?a = Some ?k"
    by (simp_all add: activate_def pending_artifact_def)
  have in3: "(j, c) \<in> set (named (ur_name r) (Some n) d3) \<longleftrightarrow>
      dict_get (ad_rows d3) j = Some c \<and> ga_status c = Active \<and> ga_name c = ur_name r \<and> ga_ns c = Some n" for j c
    using rows3 by (auto simp: named_iff matches_def dict_get_in_iff)
  have "(i, ?a) \<in> set (named (ur_name r) (Some n) d3)" by (simp add: in3 get3 a)
  moreover obtain j c ys where hd: "newest_first (named (ur_name r) (Some n) d3) = (j, c) # ys"
    using calculation by (cases "newest_first (named (ur_name r) (Some n) d3)") auto
  ultimately have "v \<le> ga_version c" using newest_first_head(2)[OF hd, of i ?a] a by simp
  moreover from newest_first_head(1)[OF hd] have jc: "dict_get (ad_rows d3) j = Some c" "ga_name c = ur_name r" "ga_ns c = Some n"
    by (simp_all add: in3)
  ultimately have "j = i" using above[of j c] by (cases "j = i") (simp_all add: get3)
  with jc have "c = ?a" by (simp add: get3)
  with hd \<open>j = i\<close> have "get_artifact_by_name B (ur_name r) (Some n) None d3 = Inr (i, ?a, Some (be_download B ?k))"
    by (simp add: get_artifact_by_name_def ambiguous_def first_out_def artifact_to_out_def a)
  moreover have "be_get B (ad_store d3) ?k = Some b" by (simp add: d3 s(2))
  moreover have "\<forall>(j, c) \<in> set (active_rows d). ga_name c = ur_name r \<and> ga_ns c = Some n \<longrightarrow> ga_version c < v"
    using above active_rows_set[OF rows0] unfolding drop_stale_active by blast
  ultimately show ?thesis using res a by (auto simp: key)
qed

end

section \<open>The properties on a shared file system\<close>

text \<open>
  C23: on a shared file system, whatever is requested in whatever order, as long as uploads are finalized with a key of
  their own artifact, as the preparation gives out, an active artifact has a blob, with the hash and the size that
  its row says; and no two versions in a namespace have the same number. With the key of another artifact or on S3 the
  first part fails (\<open>foreign_key_shares_blob\<close>, \<open>s3_trusts_the_kernel\<close>).
\<close>

theorem artifacts_stay_consistent:
  assumes "ad_rows d0 = []"
  shows "let d = run_ops (file_backend D) ops d0 in
    (\<forall>i a. dict_get (ad_rows d) i = Some a \<longrightarrow> ga_status a = Active \<longrightarrow>
       (\<exists>k b. ga_key a = Some k \<and> be_get (file_backend D) (ad_store d) k = Some b
          \<and> ga_sha a = Some (dg_sha D b) \<and> ga_size a = Some (dg_size D b)))
    \<and> (\<forall>i a j b. dict_get (ad_rows d) i = Some a \<longrightarrow> dict_get (ad_rows d) j = Some b \<longrightarrow> ga_ns a \<noteq> None \<longrightarrow>
         ga_name a = ga_name b \<longrightarrow> ga_ns a = ga_ns b \<longrightarrow> ga_version a = ga_version b \<longrightarrow> i = j)"
proof -
  let ?d = "run_ops (file_backend D) ops d0"
  have ok: "artifacts_ok (file_backend D) D ?d" by (rule files.run_keeps[OF files.start_ok[OF assms]])
  have blob: "\<exists>k b. ga_key a = Some k \<and> be_get (file_backend D) (ad_store ?d) k = Some b
      \<and> ga_sha a = Some (dg_sha D b) \<and> ga_size a = Some (dg_size D b)"
    if "dict_get (ad_rows ?d) i = Some a" "ga_status a = Active" for i a
    using files.okD(3)[OF ok that(1)] that(2) by (auto simp: row_ok_def)
  show ?thesis using blob files.okD(2)[OF ok] unfolding Let_def versions_ok_def by blast
qed

text \<open>
  C24: on a shared file system an active version and its blob stay exactly as they are, whatever is requested, as long as
  neither this version nor all versions of its name are deleted and uploads are finalized with a key of their own
  artifact, as the preparation gives out (\<open>foreign_key_shares_blob\<close> shows the other case).
\<close>

theorem published_versions_are_immutable:
  assumes "ad_rows d0 = []" and "d = run_ops (file_backend D) ops d0"
    and "dict_get (ad_rows d) i = Some a" and "ga_status a = Active" and "ga_key a = Some k"
    and "list_all (spares i (ga_name a)) later"
  shows "dict_get (ad_rows (run_ops (file_backend D) later d)) i = Some a
    \<and> be_get (file_backend D) (ad_store (run_ops (file_backend D) later d)) k = be_get (file_backend D) (ad_store d) k"
proof -
  have ok: "artifacts_ok (file_backend D) D d" unfolding assms(2) by (rule files.run_keeps[OF files.start_ok[OF assms(1)]])
  from files.row_key[OF ok assms(3,5)] obtain f where "k = storage_key i f" by blast
  with files.run_spares[OF ok assms(3,4,6), of f] show ?thesis by simp
qed

text \<open>
  C25: after a preparation, the write of the kernel and the finalization, the name leads to the new version, its
  blob is what was written, and its number is above every version that was there.
\<close>

theorem upload_roundtrip:
  assumes "ad_rows d0 = []" and "d = run_ops (file_backend D) ops d0"
    and "prepare_upload (file_backend D) alone r owner d = (d1, Inr (i, v, t))"
    and "dict_get (ad_flows d) (ur_flow r) = Some fns" and "request_namespace r fns = Some n"
    and "finalize_upload (file_backend D) i (ut_key t) (dg_sha D b)
           (d1\<lparr>ad_store := be_put (file_backend D) (ad_store d1) (ut_path t) b\<rparr>) = (d3, res)"
  shows "res = Inr (i, v)
    \<and> (\<exists>a. get_artifact_by_name (file_backend D) (ur_name r) (Some n) None d3 = Inr (i, a, Some (be_download (file_backend D) (ut_key t)))
         \<and> ga_version a = v \<and> ga_owner a = owner \<and> be_get (file_backend D) (ad_store d3) (ut_key t) = Some b)
    \<and> (\<forall>(j, c) \<in> set (active_rows d). ga_name c = ur_name r \<and> ga_ns c = Some n \<longrightarrow> ga_version c < v)"
proof -
  have "artifacts_ok (file_backend D) D d" unfolding assms(2) by (rule files.run_keeps[OF files.start_ok[OF assms(1)]])
  from files.upload_fetch[OF files.okD(1)[OF this] assms(3-6)] show ?thesis .
qed

section \<open>A run\<close>

text \<open>Two uploads of a model by one flow; contents are texts, and a text is its own hash.\<close>

definition text_digest :: "string digest" where
  "text_digest = \<lparr>dg_sha = (\<lambda>b. b), dg_size = length\<rparr>"

definition no_artifacts :: "string file_store artifact_db" where
  "no_artifacts = \<lparr>ad_rows = [], ad_flows = [(7, Some 3), (8, None)], ad_spaces = [(3, ''default'')], ad_grants = [],
     ad_store = \<lparr>fs_staging = [], fs_permanent = []\<rparr>\<rparr>"

definition upload_of :: "string \<Rightarrow> int \<Rightarrow> string \<Rightarrow> upload_request" where
  "upload_of name flow format =
     \<lparr>ur_name = name, ur_flow = flow, ur_format = format, ur_description = None, ur_tags = [], ur_ns = None, ur_type = None\<rparr>"

definition first_upload :: "string artifact_op list" where
  "first_upload =
     [Insert_Version (upload_of ''m'' 7 ''joblib'') (Some 3) 5 1, Kernel_Writes ''1_m.joblib'' ''v1'', Finalize_Upload 1 ''m.joblib'' ''v1'']"

abbreviation texts :: "(string file_store, string) backend" where
  "texts \<equiv> file_backend text_digest"

definition model_v1 :: artifact where
  "model_v1 = activate ''1/m.joblib'' ''v1'' 2 (pending_artifact (upload_of ''m'' 7 ''joblib'') (Some 3) 5 1)"

definition after_first :: "string file_store artifact_db" where
  "after_first = run_ops texts first_upload no_artifacts"

lemma after_first_row: "dict_get (ad_rows after_first) 1 = Some model_v1"
  by code_simp

lemma artifacts_stay_consistent_witness:
  "\<exists>k b. ga_key model_v1 = Some k \<and> be_get texts (ad_store after_first) k = Some b
     \<and> ga_sha model_v1 = Some (dg_sha text_digest b) \<and> ga_size model_v1 = Some (dg_size text_digest b)"
proof -
  have start: "ad_rows no_artifacts = []" by (simp add: no_artifacts_def)
  have "ga_status model_v1 = Active" by code_simp
  with artifacts_stay_consistent[OF start, of text_digest first_upload] after_first_row show ?thesis
    unfolding Let_def after_first_def[symmetric] by blast
qed

lemma lookup_by_name_witness:
  "(1, model_v1) \<in> set (ad_rows after_first) \<and> matches ''m'' None None model_v1"
proof -
  have "get_artifact_by_name texts ''m'' None None after_first = Inr (1, model_v1, Some (''file'', ''1/m.joblib''))" by code_simp
  with lookup_by_name[where B = texts and name = "''m''" and ns = None and version = None and d = after_first] show ?thesis
    by (simp split: if_splits)
qed

definition second_upload :: "string artifact_op list" where
  "second_upload =
     [Insert_Version (upload_of ''m'' 7 ''joblib'') (Some 3) 6 2, Kernel_Writes ''2_m.joblib'' ''v2'', Finalize_Upload 2 ''m.joblib'' ''v2'',
      Delete_Artifact 2, Delete_All ''k'' None, Delete_Flow 7]"

lemma published_versions_are_immutable_witness:
  "dict_get (ad_rows (run_ops texts second_upload (run_ops texts first_upload no_artifacts))) 1 = Some model_v1
    \<and> be_get texts (ad_store (run_ops texts second_upload (run_ops texts first_upload no_artifacts))) ''1/m.joblib''
      = be_get texts (ad_store (run_ops texts first_upload no_artifacts)) ''1/m.joblib''"
proof (rule published_versions_are_immutable[OF _ refl])
  show "ad_rows no_artifacts = []" by (simp add: no_artifacts_def)
  show "dict_get (ad_rows (run_ops texts first_upload no_artifacts)) 1 = Some model_v1" by code_simp
  show "ga_status model_v1 = Active" by code_simp
  show "ga_key model_v1 = Some ''1/m.joblib''" by code_simp
  show "list_all (spares 1 (ga_name model_v1)) second_upload" by code_simp
qed

definition second_target :: upload_target where
  "second_target = be_prepare texts 2 ''m.pkl''"

definition second_prepared :: "string file_store artifact_db \<times> (artifact_error + int \<times> int \<times> upload_target)" where
  "second_prepared = prepare_upload texts alone (upload_of ''m'' 7 ''pickle'') 6 after_first"

definition second_final :: "string file_store artifact_db \<times> (artifact_error + int \<times> int)" where
  "second_final =
     finalize_upload texts 2 (ut_key second_target) (dg_sha text_digest ''v2'')
       (fst second_prepared\<lparr>ad_store := be_put texts (ad_store (fst second_prepared)) (ut_path second_target) ''v2''\<rparr>)"

lemma second_prepared_is: "prepare_upload texts alone (upload_of ''m'' 7 ''pickle'') 6 after_first = (fst second_prepared, Inr (2, 2, second_target))"
proof -
  have "snd second_prepared = Inr (2, 2, second_target)" by code_simp
  then show ?thesis unfolding second_prepared_def by (metis prod.collapse)
qed

lemma upload_roundtrip_witness:
  "snd second_final = Inr (2, 2)
    \<and> (\<exists>a. get_artifact_by_name texts (ur_name (upload_of ''m'' 7 ''pickle'')) (Some 3) None (fst second_final)
            = Inr (2, a, Some (be_download texts (ut_key second_target)))
         \<and> ga_version a = 2 \<and> ga_owner a = 6 \<and> be_get texts (ad_store (fst second_final)) (ut_key second_target) = Some ''v2'')
    \<and> ga_version model_v1 < 2"
proof -
  have start: "ad_rows no_artifacts = []" by (simp add: no_artifacts_def)
  have run: "after_first = run_ops texts first_upload no_artifacts" by (rule after_first_def)
  have prep: "prepare_upload texts alone (upload_of ''m'' 7 ''pickle'') 6 after_first = (fst second_prepared, Inr (2, 2, second_target))"
    by (rule second_prepared_is)
  have flow: "dict_get (ad_flows after_first) (ur_flow (upload_of ''m'' 7 ''pickle'')) = Some (Some 3)" by code_simp
  have ns: "request_namespace (upload_of ''m'' 7 ''pickle'') (Some 3) = Some 3" by code_simp
  have fin: "finalize_upload texts 2 (ut_key second_target) (dg_sha text_digest ''v2'')
      (fst second_prepared\<lparr>ad_store := be_put texts (ad_store (fst second_prepared)) (ut_path second_target) ''v2''\<rparr>)
    = (fst second_final, snd second_final)"
    by (simp add: second_final_def)
  have old: "(1, model_v1) \<in> set (active_rows after_first)" "ga_name model_v1 = ur_name (upload_of ''m'' 7 ''pickle'')" "ga_ns model_v1 = Some 3"
    by code_simp+
  note all = upload_roundtrip[OF start run prep flow ns fin]
  from all old have "ga_version model_v1 < 2" by blast
  with all show ?thesis by blast
qed

section \<open>What does not hold\<close>

text \<open>
  A preparation removes every unfinished upload of the name, also one that is under way, and the database gives the
  freed id again. The first client then finalizes the second client's artifact: its blob is a joblib file, the
  row says pickle, and the second client is refused.
\<close>

definition both_prepared :: "string file_store artifact_db" where
  "both_prepared =
     fst (prepare_upload texts alone (upload_of ''m'' 7 ''pickle'') 6
       (fst (prepare_upload texts alone (upload_of ''m'' 7 ''joblib'') 5 no_artifacts)))"

definition first_finalizes :: "string file_store artifact_db" where
  "first_finalizes = fst (finalize_upload texts 1 ''1/m.joblib'' ''v1'' (apply_op texts (Kernel_Writes ''1_m.joblib'' ''v1'') both_prepared))"

lemma superseded_upload_takes_over:
  "snd (prepare_upload texts alone (upload_of ''m'' 7 ''joblib'') 5 no_artifacts) = Inr (1, 1, be_prepare texts 1 ''m.joblib'')"
  "map_option (\<lambda>a. (ga_owner a, ga_format a, ga_status a, ga_key a)) (dict_get (ad_rows first_finalizes) 1)
    = Some (6, ''pickle'', Active, Some ''1/m.joblib'')"
  "snd (finalize_upload texts 1 ''1/m.pkl'' ''v2'' (apply_op texts (Kernel_Writes ''1_m.pkl'' ''v2'') first_finalizes)) = Inl (WrongState Active)"
  by code_simp+

text \<open>
  Finalizing takes the key from the request. With the key of another artifact the two share a blob, and the later
  upload of the other changes the first one.
\<close>

definition shared_blob :: "string file_store artifact_db" where
  "shared_blob =
     fst (finalize_upload texts 2 ''2/k.pkl'' ''new'' (apply_op texts (Kernel_Writes ''2_k.pkl'' ''new'')
       (fst (finalize_upload texts 1 ''2/k.pkl'' ''old'' (apply_op texts (Kernel_Writes ''2_k.pkl'' ''old'')
         (run_ops texts [Insert_Version (upload_of ''m'' 7 ''pickle'') (Some 3) 5 1, Insert_Version (upload_of ''k'' 7 ''pickle'') (Some 3) 6 1]
            no_artifacts))))))"

lemma foreign_key_shares_blob:
  "map_option (\<lambda>a. (ga_status a, ga_key a, ga_sha a)) (dict_get (ad_rows shared_blob) 1) = Some (Active, Some ''2/k.pkl'', Some ''old'')"
  "be_get texts (ad_store shared_blob) ''2/k.pkl'' = Some ''new''"
  by code_simp+

text \<open>Without a namespace the unique constraint does not apply, and two uploads at once get the same version.\<close>

lemma same_version_without_namespace:
  "map (\<lambda>(i, a). (i, ga_version a)) (ad_rows (fst (prepare_upload texts
      [\<lambda>d. fst (prepare_upload texts alone (upload_of ''m'' 8 ''pickle'') 5 d), id, id] (upload_of ''m'' 8 ''joblib'') 6 no_artifacts)))
    = [(1, 1), (2, 1)]"
  by code_simp

text \<open>The search for a part of a name passes wildcards of the database through.\<close>

lemma search_has_wildcards: "sql_contains ''model'' ''_'' \<and> sql_contains ''model'' ''m%l'' \<and> \<not> sql_contains ''model'' ''x''"
  by code_simp

text \<open>On S3 the hash is not checked, and the link for the upload still writes the blob of the active artifact.\<close>

definition on_s3 :: "string object_store artifact_db" where
  "on_s3 = \<lparr>ad_rows = [], ad_flows = [(7, Some 3)], ad_spaces = [(3, ''default'')], ad_grants = [], ad_store = []\<rparr>"

definition s3_active :: "string object_store artifact_db" where
  "s3_active = run_ops (s3_backend text_digest ''p/'')
     [Insert_Version (upload_of ''m'' 7 ''pickle'') (Some 3) 5 1, Kernel_Writes ''p/1/m.pkl'' ''v1'', Finalize_Upload 1 ''m.pkl'' ''wrong''] on_s3"

lemma s3_trusts_the_kernel:
  "map_option (\<lambda>a. (ga_status a, ga_sha a)) (dict_get (ad_rows s3_active) 1) = Some (Active, Some ''wrong'')"
  "be_get (s3_backend text_digest ''p/'') (ad_store (apply_op (s3_backend text_digest ''p/'') (Kernel_Writes ''p/1/m.pkl'' ''v2'') s3_active)) ''1/m.pkl''
    = Some ''v2''"
  by code_simp+

end
