(* ===== verification/Kernel_Images.thy ===== *)
theory Kernel_Images
  imports Decimals "HOL-Library.List_Lexorder"
begin

text \<open>
  The images that kernels run: the helper functions at the top of \<open>kernel/manager.py\<close> and
  \<open>_resolve_installed_versions\<close>.

  The answers of the Docker daemon to queries about images are the record \<open>image_store\<close>: whether a tag is present,
  or that the daemon fails, and the images of a repository with the time of their creation and their tags.
  Case conversion is that of ASCII. White space around a text, which some functions strip, is the blank.
\<close>

datatype image_flavour = Base_Image | ML_Image | Lite_Image | Custom_Image

datatype lookup = Present | Missing | Broken

record image_store =
  im_get :: "string \<Rightarrow> lookup"
  im_list :: "string \<Rightarrow> (string \<times> string list) list option"

section \<open>Text\<close>

definition low :: "char \<Rightarrow> char" where
  "low c = (if c \<in> set ''ABCDEFGHIJKLMNOPQRSTUVWXYZ'' then char_of (of_char c + (32 :: nat)) else c)"

definition letters :: string where
  "letters = ''ABCDEFGHIJKLMNOPQRSTUVWXYZabcdefghijklmnopqrstuvwxyz''"

definition digits :: string where
  "digits = ''0123456789''"

definition strip_blanks :: "string \<Rightarrow> string" where
  "strip_blanks s = rev (dropWhile (\<lambda>c. c = CHR '' '') (rev (dropWhile (\<lambda>c. c = CHR '' '') s)))"

text \<open>\<open>s.rsplit(c, 1)[1]\<close> for a text that contains \<open>c\<close>, and \<open>s.split(c, 1)[1]\<close>.\<close>

definition after_last :: "char \<Rightarrow> string \<Rightarrow> string" where
  "after_last c s = rev (takeWhile (\<lambda>x. x \<noteq> c) (rev s))"

definition after_sep :: "char \<Rightarrow> string \<Rightarrow> string" where
  "after_sep c s = tl (dropWhile (\<lambda>x. x \<noteq> c) s)"

fun split_all :: "char \<Rightarrow> string \<Rightarrow> string list" where
  "split_all c [] = [[]]"
| "split_all c (x # xs) =
     (if x = c then [] # split_all c xs else case split_all c xs of [] \<Rightarrow> [[x]] | p # ps \<Rightarrow> (x # p) # ps)"

section \<open>Names\<close>

definition safe_id :: "string \<Rightarrow> string" where
  "safe_id k = map (\<lambda>c. if c \<in> set (''abcdefghijklmnopqrstuvwxyz._-'' @ digits) then c else CHR ''-'') (map low k)"

definition derived_image_tag :: "string \<Rightarrow> string" where
  "derived_image_tag k = ''flowfile-kernel-derived-'' @ safe_id k @ '':latest''"

definition valid_package_spec :: "string \<Rightarrow> bool" where
  "valid_package_spec p \<longleftrightarrow> p \<noteq> [] \<and> list_all (\<lambda>c. c \<in> set (letters @ digits @ ''_.-+[]<>=!~,'')) p"

definition validate_packages :: "string list \<Rightarrow> bool" where
  "validate_packages ps \<longleftrightarrow> list_all valid_package_spec ps"

text \<open>Runs of separators become one dash.\<close>

function (sequential) collapse :: "string \<Rightarrow> string" where
  "collapse [] = []"
| "collapse (c # cs) =
     (if c \<in> set ''-_.'' then CHR ''-'' # collapse (dropWhile (\<lambda>x. x \<in> set ''-_.'') cs) else c # collapse cs)"
  by pat_completeness auto
termination
  by (relation "measure length") (auto simp: le_imp_less_Suc length_dropWhile_le)

definition spec_to_name :: "string \<Rightarrow> string" where
  "spec_to_name spec =
     (let s = strip_blanks spec; m = takeWhile (\<lambda>c. c \<in> set (letters @ digits @ ''_.-'')) s in
      if m = [] then map low s else collapse (map low m))"

section \<open>Choosing an image\<close>

definition hex_digits :: string where
  "hex_digits = ''0123456789abcdefABCDEF''"

text \<open>\<open>@sha256:\<close> and at least twelve hexadecimal digits at the end.\<close>

definition has_digest :: "string \<Rightarrow> bool" where
  "has_digest s \<longleftrightarrow>
     (let h = rev (takeWhile (\<lambda>c. c \<in> set hex_digits) (rev s)); rest = take (length s - length h) s in
      length h \<ge> 12 \<and> startswith (rev rest) (rev ''@sha256:''))"

definition valid_tag :: "string \<Rightarrow> bool" where
  "valid_tag t \<longleftrightarrow>
     (case t of [] \<Rightarrow> False
      | c # cs \<Rightarrow> c \<in> set (letters @ digits @ ''_'') \<and> length cs \<le> 127 \<and> list_all (\<lambda>x. x \<in> set (letters @ digits @ ''_.-'')) cs)"

definition validate_custom_image :: "string \<Rightarrow> bool" where
  "validate_custom_image uri \<longleftrightarrow>
     (let r = strip_blanks uri; seg = after_last (CHR ''/'') r in
      r \<noteq> [] \<and> (has_digest r \<or> CHR '':'' \<in> set seg \<and> valid_tag (after_sep (CHR '':'') seg)))"

definition flavour_value :: "image_flavour \<Rightarrow> string" where
  "flavour_value f = (case f of Base_Image \<Rightarrow> ''base'' | ML_Image \<Rightarrow> ''ml'' | Lite_Image \<Rightarrow> ''lite'' | Custom_Image \<Rightarrow> ''custom'')"

definition resolve_local_image :: "image_store \<Rightarrow> image_flavour \<Rightarrow> string \<Rightarrow> string option" where
  "resolve_local_image I f dflt =
     (case im_get I dflt of
        Present \<Rightarrow> Some dflt
      | Broken \<Rightarrow> None
      | Missing \<Rightarrow>
          (let repo = ''flowfile-kernel-'' @ flavour_value f in
           case im_list I repo of
             None \<Rightarrow> None
           | Some imgs \<Rightarrow>
               if list_ex (\<lambda>(t, tags). repo @ '':local'' \<in> set tags) imgs then Some (repo @ '':local'')
               else find (\<lambda>t. startswith t (repo @ '':''))
                      (concat (map snd (rev (sort_key (map of_char \<circ> fst :: _ \<Rightarrow> nat list) (rev imgs)))))))"

definition resolve_image :: "image_store \<Rightarrow> (image_flavour \<Rightarrow> string) \<Rightarrow> image_flavour \<Rightarrow> string option \<Rightarrow> string option" where
  "resolve_image I defaults f custom =
     (if f = Custom_Image
      then (case custom of None \<Rightarrow> None | Some u \<Rightarrow> if u \<noteq> [] \<and> validate_custom_image u then Some u else None)
      else Some (case resolve_local_image I f (defaults f) of Some t \<Rightarrow> t | None \<Rightarrow> defaults f))"

section \<open>Versions\<close>

fun all_some :: "'a option list \<Rightarrow> 'a list option" where
  "all_some [] = Some []"
| "all_some (None # xs) = None"
| "all_some (Some x # xs) = map_option ((#) x) (all_some xs)"

definition parse_image_version :: "string \<Rightarrow> int list option" where
  "parse_image_version t =
     (if CHR '':'' \<notin> set t then None else all_some (map parse_int (split_all (CHR ''.'') (after_last (CHR '':'') t))))"

definition better :: "string \<Rightarrow> string \<Rightarrow> (string \<times> int list) option \<Rightarrow> (string \<times> int list) option" where
  "better repo t best =
     (if \<not> startswith t (repo @ '':'') then best
      else case parse_image_version t of
        None \<Rightarrow> best
      | Some v \<Rightarrow> (case best of None \<Rightarrow> Some (t, v) | Some (t', v') \<Rightarrow> if v' < v then Some (t, v) else best))"

definition newest_installed_version :: "image_store \<Rightarrow> string \<Rightarrow> (string \<times> int list) option" where
  "newest_installed_version I repo =
     (case im_list I repo of None \<Rightarrow> None | Some imgs \<Rightarrow> fold (better repo) (concat (map snd imgs)) None)"

definition pull_reference :: "string \<Rightarrow> string \<times> string" where
  "pull_reference t =
     (takeWhile (\<lambda>c. c \<noteq> CHR '':'') t,
      (let v = tl (dropWhile (\<lambda>c. c \<noteq> CHR '':'') t) in if v = [] then ''latest'' else v))"

text \<open>The versions of the requested packages, from what \<open>pip list\<close> prints in the image.\<close>

definition resolved_package :: "(string \<times> string) list \<Rightarrow> string list \<Rightarrow> string \<Rightarrow> (string \<times> string) list" where
  "resolved_package installed specs spec =
     (let name = spec_to_name spec in
      case map_of (rev (map (\<lambda>(n, v). (collapse (map low n), v)) installed)) name of
        None \<Rightarrow> []
      | Some v \<Rightarrow>
          if v = [] then []
          else (case find (\<lambda>(n, w). collapse (map low n) = name) installed of
                  Some (n, w) \<Rightarrow> [(n, v)]
                | None \<Rightarrow> (case map_of (rev (map (\<lambda>s. (spec_to_name s, s)) specs)) name of
                     Some s \<Rightarrow> [(takeWhile (\<lambda>c. c \<noteq> CHR ''['') s, v)]
                   | None \<Rightarrow> [])))"

definition resolve_installed_versions :: "(string \<times> string) list option \<Rightarrow> string list \<Rightarrow> (string \<times> string) list" where
  "resolve_installed_versions pip specs =
     (case pip of None \<Rightarrow> [] | Some installed \<Rightarrow> concat (map (resolved_package installed specs) specs))"

section \<open>Lemmas\<close>

text \<open>The newest version is that of a tag of the repository, and no tag has a larger one.\<close>

lemma fold_better:
  "case fold (better repo) ts best of
     None \<Rightarrow> best = None \<and> (\<forall>t \<in> set ts. startswith t (repo @ '':'') \<longrightarrow> parse_image_version t = None)
   | Some (t, v) \<Rightarrow> (best = Some (t, v) \<or> t \<in> set ts \<and> startswith t (repo @ '':'') \<and> parse_image_version t = Some v)
       \<and> (\<forall>t' v'. best = Some (t', v') \<longrightarrow> v' \<le> v)
       \<and> (\<forall>t' \<in> set ts. \<forall>v'. startswith t' (repo @ '':'') \<longrightarrow> parse_image_version t' = Some v' \<longrightarrow> v' \<le> v)"
proof (induction ts arbitrary: best)
  case (Cons x ts)
  show ?case
  proof (cases "startswith x (repo @ '':'') \<and> (\<exists>v. parse_image_version x = Some v)")
    case False
    then have "better repo x best = best" by (auto simp: better_def split: option.splits)
    with Cons[of best] False show ?thesis by (auto split: option.splits)
  next
    case True
    then obtain v where v: "startswith x (repo @ '':'')" "parse_image_version x = Some v" by blast
    show ?thesis
    proof (cases "\<exists>t' v'. best = Some (t', v') \<and> \<not> v' < v")
      case True
      then obtain t' v' where b: "best = Some (t', v')" "v \<le> v'" by (auto simp: not_less)
      with v have "better repo x best = best" by (simp add: better_def leD)
      with Cons[of best] b v show ?thesis by (auto split: option.splits intro: order_trans)
    next
      case False
      with v have "better repo x best = Some (x, v)" by (cases best) (auto simp: better_def)
      moreover have "v' \<le> v" if "best = Some (t', v')" for t' v' using False that by (auto simp: not_less)
      ultimately show ?thesis using Cons[of "Some (x, v)"] v by (auto split: option.splits intro: order_trans)
    qed
  qed
qed (auto split: option.splits)

lemma newest_installed_spec:
  assumes "im_list I repo = Some imgs"
  shows "case newest_installed_version I repo of
     None \<Rightarrow> \<forall>t \<in> set (concat (map snd imgs)). startswith t (repo @ '':'') \<longrightarrow> parse_image_version t = None
   | Some (t, v) \<Rightarrow> t \<in> set (concat (map snd imgs)) \<and> startswith t (repo @ '':'') \<and> parse_image_version t = Some v
       \<and> (\<forall>t' \<in> set (concat (map snd imgs)). \<forall>v'. startswith t' (repo @ '':'') \<longrightarrow> parse_image_version t' = Some v' \<longrightarrow> v' \<le> v)"
  using fold_better[where repo = repo and ts = "concat (map snd imgs)" and best = None] assms
  by (auto simp: newest_installed_version_def split: option.splits)

text \<open>Two kernels whose ids differ in case or in an odd character share a tag.\<close>

lemma derived_tags_collide: "derived_image_tag ''etl.Job'' = derived_image_tag ''etl.job'' \<and> derived_image_tag ''a b'' = derived_image_tag ''a-b''"
  by code_simp

text \<open>Tags of a kernel are tags of the repository of derived images, so that no user input leaves it.\<close>

definition tag_chars :: string where
  "tag_chars = ''abcdefghijklmnopqrstuvwxyz._-:0123456789''"

lemma derived_tag_safe: "list_all (\<lambda>c. c \<in> set tag_chars) (derived_image_tag k)"
proof -
  have "list_all (\<lambda>c. c \<in> set tag_chars) ''flowfile-kernel-derived-''" "list_all (\<lambda>c. c \<in> set tag_chars) '':latest''" by code_simp+
  moreover have "(if c \<in> set (''abcdefghijklmnopqrstuvwxyz._-'' @ digits) then c else CHR ''-'') \<in> set tag_chars" for c
    by (simp add: tag_chars_def digits_def)
  ultimately show ?thesis by (simp only: derived_image_tag_def safe_id_def list_all_append list.pred_map comp_def) (simp only: list_all_iff simp_thms ball_triv)
qed

lemma validated_package_safe:
  assumes "validate_packages ps" "p \<in> set ps"
  shows "p \<noteq> [] \<and> CHR '' '' \<notin> set p \<and> CHR '';'' \<notin> set p \<and> CHR ''$'' \<notin> set p"
proof -
  have "list_all (\<lambda>c. c \<in> set (letters @ digits @ ''_.-+[]<>=!~,'')) p" "p \<noteq> []"
    using assms by (auto simp: validate_packages_def valid_package_spec_def list_all_iff)
  moreover have "CHR '' '' \<notin> set (letters @ digits @ ''_.-+[]<>=!~,'')" "CHR '';'' \<notin> set (letters @ digits @ ''_.-+[]<>=!~,'')"
    "CHR ''$'' \<notin> set (letters @ digits @ ''_.-+[]<>=!~,'')" by code_simp+
  ultimately show ?thesis unfolding list_all_iff by blast
qed

text \<open>
  What is reported was installed under that name, with the version that the last entry of the same normal name has.
\<close>

lemma resolved_package_installed:
  assumes "(n, v) \<in> set (resolved_package installed specs spec)"
  shows "collapse (map low n) = spec_to_name spec \<and> n \<in> fst ` set installed
    \<and> (\<exists>m. (m, v) \<in> set installed \<and> collapse (map low m) = spec_to_name spec)"
proof -
  let ?table = "rev (map (\<lambda>(n, v). (collapse (map low n), v)) installed)"
  obtain w where w: "map_of ?table (spec_to_name spec) = Some w" "w \<noteq> []"
  proof (cases "map_of ?table (spec_to_name spec)")
    case None
    with assms show ?thesis by (simp add: resolved_package_def)
  next
    case (Some w)
    with assms have "w \<noteq> []" by (auto simp: resolved_package_def)
    with Some show ?thesis by (rule that)
  qed
  from map_of_SomeD[OF w(1)] obtain m where m: "(m, w) \<in> set installed" "collapse (map low m) = spec_to_name spec" by auto
  then obtain n' w' where f: "find (\<lambda>(n, w). collapse (map low n) = spec_to_name spec) installed = Some (n', w')"
    by (cases "find (\<lambda>(n, w). collapse (map low n) = spec_to_name spec) installed") (auto simp: find_None_iff)
  from assms w f have "n = n'" "v = w" by (auto simp: resolved_package_def)
  moreover have "(n', w') \<in> set installed" "collapse (map low n') = spec_to_name spec" using find_SomeD[OF f] by auto
  ultimately show ?thesis using m by force
qed

lemma resolved_were_installed:
  assumes "(n, v) \<in> set (resolve_installed_versions (Some installed) specs)"
  shows "\<exists>spec \<in> set specs. collapse (map low n) = spec_to_name spec \<and> n \<in> fst ` set installed"
  using assms resolved_package_installed by (fastforce simp: resolve_installed_versions_def)

lemma pulls_break_on_registry_ports:
  "pull_reference ''registry:5000/kernel:1.2'' = (''registry'', ''5000/kernel:1.2'') \<and> pull_reference ''me/kernel:1.2'' = (''me/kernel'', ''1.2'')"
  by code_simp

text \<open>A name that is already normal stays.\<close>

lemma spec_names: "spec_to_name '' Scikit_Learn[extra]>=1.2'' = ''scikit-learn'' \<and> spec_to_name ''a..b__c'' = ''a-b-c''"
  by code_simp

end
