(* ===== verification/Kernel_Store.thy ===== *)
theory Kernel_Store
  imports Kernel_Images Complex_Main
begin

text \<open>
  The registry of kernels and its table: \<open>kernel/models.py\<close>, \<open>kernel/persistence.py\<close> and the methods of
  \<open>KernelManager\<close> that load, reconcile and persist kernels and that keep their scratch flows.

  A row holds the values that its JSON columns encode. The registry is a dictionary from ids to kernel objects; an
  object that is no longer registered is not seen by any operation. What Docker and the operating system answer during
  one operation is the record \<open>kernel_env\<close>; the requests that change something in Docker are the list \<open>km_calls\<close>.
  Messages of errors are represented by the kind of the error, the time of creation of a kernel is left out.
\<close>

section \<open>Data\<close>

datatype kernel_state = K_Stopped | K_Starting | K_Idle | K_Executing | K_Error

datatype recovery_mode = Lazy_Recovery | Eager_Recovery | Clear_Recovery

datatype kernel_error =
    KernelExists
  | NoSuchKernel
  | BadKernelValue
  | NoFreePort
  | ImageNotFound
  | BuildFailed
  | DockerFailed
  | NotHealthy
  | KernelBusy
  | OutOfMemory

record kernel_config =
  kc_id :: string
  kc_name :: string
  kc_packages :: "string list"
  kc_cpu :: rat
  kc_memory :: rat
  kc_gpu :: bool
  kc_timeout :: int
  kc_flavour :: image_flavour
  kc_custom :: "string option"
  kc_persistence :: bool
  kc_recovery :: recovery_mode

record kernel_info =
  ki_name :: string
  ki_state :: kernel_state
  ki_container :: "string option"
  ki_port :: "int option"
  ki_packages :: "string list"
  ki_resolved :: "(string \<times> string) list"
  ki_cpu :: rat
  ki_memory :: rat
  ki_gpu :: bool
  ki_timeout :: int
  ki_flavour :: image_flavour
  ki_custom :: "string option"
  ki_image :: "string option"
  ki_error :: "kernel_error option"
  ki_version :: "string option"
  ki_persistence :: bool
  ki_recovery :: recovery_mode

record kernel_row =
  kr_name :: string
  kr_user :: int
  kr_packages :: "string list"
  kr_resolved :: "(string \<times> string) list"
  kr_cpu :: rat
  kr_memory :: rat
  kr_gpu :: bool
  kr_flavour :: string
  kr_custom :: "string option"
  kr_scratch :: "int option"

text \<open>A derived image: the kernel of its label, the image it is built from, and the packages that were installed.\<close>

record derived_image =
  di_label :: string
  di_base :: string
  di_packages :: "string list"

datatype docker_call =
    Run_Container string string string "int option"
  | Stop_Container string
  | Build_Image string
  | Remove_Image string

record manager =
  km_kernels :: "(string, kernel_info) dict"
  km_owners :: "(string, int) dict"
  km_scratch :: "(string, int) dict"
  km_pulls :: "(string, string) dict"
  km_rows :: "(string, kernel_row) dict"
  km_flows :: "(int, string \<times> int) dict"
  km_images :: "(string, derived_image) dict"
  km_calls :: "docker_call list"

datatype build_answer = Built | Build_Refused | Build_Broken

record kernel_env =
  ke_volume :: bool
  ke_store :: image_store
  ke_defaults :: "image_flavour \<Rightarrow> string"
  ke_port_free :: "int \<Rightarrow> bool"
  ke_build :: "string \<Rightarrow> string list \<Rightarrow> build_answer"
  ke_pip :: "(string \<times> string) list option"
  ke_rmi :: "string \<Rightarrow> bool"
  ke_run :: "string option"
  ke_health :: "string option option"
  ke_running :: "(string \<times> string \<times> int option) list option"
  ke_db :: bool

definition set_kernel :: "string \<Rightarrow> (kernel_info \<Rightarrow> kernel_info) \<Rightarrow> manager \<Rightarrow> manager" where
  "set_kernel k f s =
     (case dict_get (km_kernels s) k of None \<Rightarrow> s | Some i \<Rightarrow> s\<lparr>km_kernels := dict_set k (f i) (km_kernels s)\<rparr>)"

definition docker :: "docker_call \<Rightarrow> manager \<Rightarrow> manager" where
  "docker c s = s\<lparr>km_calls := km_calls s @ [c]\<rparr>"

definition cleanup_container :: "string \<Rightarrow> manager \<Rightarrow> manager" where
  "cleanup_container k s =
     (case dict_get (km_kernels s) k of
        None \<Rightarrow> s
      | Some i \<Rightarrow> (case ki_container i of None \<Rightarrow> s | Some c \<Rightarrow> docker (Stop_Container c) s))"

section \<open>The table\<close>

definition flavour_of :: "string \<Rightarrow> image_flavour" where
  "flavour_of v =
     (if v = ''ml'' then ML_Image else if v = ''lite'' then Lite_Image else if v = ''custom'' then Custom_Image else Base_Image)"

lemma flavour_of_value [simp]: "flavour_of (flavour_value f) = f"
  by (cases f) (simp_all add: flavour_of_def flavour_value_def)

definition save_kernel :: "string \<Rightarrow> kernel_info \<Rightarrow> int \<Rightarrow> (string, kernel_row) dict \<Rightarrow> (string, kernel_row) dict" where
  "save_kernel k i u rows =
     dict_set k \<lparr>kr_name = ki_name i, kr_user = u, kr_packages = ki_packages i, kr_resolved = ki_resolved i,
       kr_cpu = ki_cpu i, kr_memory = ki_memory i, kr_gpu = ki_gpu i, kr_flavour = flavour_value (ki_flavour i),
       kr_custom = ki_custom i,
       kr_scratch = (case dict_get rows k of None \<Rightarrow> None | Some r \<Rightarrow> kr_scratch r)\<rparr> rows"

definition row_to_config :: "string \<Rightarrow> kernel_row \<Rightarrow> kernel_config" where
  "row_to_config k r =
     \<lparr>kc_id = k, kc_name = kr_name r, kc_packages = kr_packages r, kc_cpu = kr_cpu r, kc_memory = kr_memory r,
      kc_gpu = kr_gpu r, kc_timeout = 120, kc_flavour = flavour_of (kr_flavour r), kc_custom = kr_custom r,
      kc_persistence = True, kc_recovery = Lazy_Recovery\<rparr>"

definition get_all_kernels :: "(string, kernel_row) dict \<Rightarrow> (kernel_config \<times> (string \<times> string) list \<times> int) list" where
  "get_all_kernels rows = map (\<lambda>(k, r). (row_to_config k r, kr_resolved r, kr_user r)) rows"

definition get_kernels_for_user :: "int \<Rightarrow> (string, kernel_row) dict \<Rightarrow> kernel_config list" where
  "get_kernels_for_user u rows = map (\<lambda>(k, r). row_to_config k r) (filter (\<lambda>(k, r). kr_user r = u) rows)"

definition set_kernel_scratch_flow_id :: "string \<Rightarrow> int option \<Rightarrow> (string, kernel_row) dict \<Rightarrow> (string, kernel_row) dict" where
  "set_kernel_scratch_flow_id k f rows =
     (case dict_get rows k of None \<Rightarrow> rows | Some r \<Rightarrow> dict_set k (r\<lparr>kr_scratch := f\<rparr>) rows)"

definition persist_kernel :: "kernel_env \<Rightarrow> string \<Rightarrow> kernel_info \<Rightarrow> int \<Rightarrow> manager \<Rightarrow> manager" where
  "persist_kernel e k i u s = (if ke_db e then s\<lparr>km_rows := save_kernel k i u (km_rows s)\<rparr> else s)"

definition remove_kernel_from_db :: "kernel_env \<Rightarrow> string \<Rightarrow> manager \<Rightarrow> manager" where
  "remove_kernel_from_db e k s = (if ke_db e then s\<lparr>km_rows := dict_pop k (km_rows s)\<rparr> else s)"

section \<open>Loading and reconciling\<close>

definition stopped_kernel :: "kernel_config \<Rightarrow> (string \<times> string) list \<Rightarrow> kernel_info" where
  "stopped_kernel c res =
     \<lparr>ki_name = kc_name c, ki_state = K_Stopped, ki_container = None, ki_port = None, ki_packages = kc_packages c,
      ki_resolved = res, ki_cpu = kc_cpu c, ki_memory = kc_memory c, ki_gpu = kc_gpu c, ki_timeout = 120,
      ki_flavour = kc_flavour c, ki_custom = kc_custom c, ki_image = None, ki_error = None, ki_version = None,
      ki_persistence = True, ki_recovery = Lazy_Recovery\<rparr>"

definition restore_row :: "kernel_config \<times> (string \<times> string) list \<times> int \<Rightarrow> manager \<Rightarrow> manager" where
  "restore_row row s =
     (case row of (c, res, u) \<Rightarrow>
        if kc_id c \<in> set (dict_keys (km_kernels s)) then s
        else s\<lparr>km_kernels := dict_set (kc_id c) (stopped_kernel c res) (km_kernels s),
               km_owners := dict_set (kc_id c) u (km_owners s)\<rparr>)"

definition restore_scratch :: "string \<times> kernel_row \<Rightarrow> manager \<Rightarrow> manager" where
  "restore_scratch row s =
     (case row of (k, r) \<Rightarrow> case kr_scratch r of None \<Rightarrow> s | Some f \<Rightarrow> s\<lparr>km_scratch := dict_set k f (km_scratch s)\<rparr>)"

definition restore_kernels_from_db :: "kernel_env \<Rightarrow> manager \<Rightarrow> manager" where
  "restore_kernels_from_db e s =
     (if ke_db e then fold restore_scratch (km_rows s) (fold restore_row (get_all_kernels (km_rows s)) s) else s)"

definition drop_kernel :: "string \<Rightarrow> manager \<Rightarrow> manager" where
  "drop_kernel k s =
     (cleanup_container k s)
       \<lparr>km_kernels := dict_pop k (km_kernels s), km_owners := dict_pop k (km_owners s), km_scratch := dict_pop k (km_scratch s)\<rparr>"

definition refresh_config :: "kernel_config \<Rightarrow> (string \<times> string) list \<Rightarrow> kernel_info \<Rightarrow> kernel_info" where
  "refresh_config c res i =
     i\<lparr>ki_name := kc_name c, ki_packages := kc_packages c, ki_resolved := res, ki_memory := kc_memory c,
       ki_cpu := kc_cpu c, ki_gpu := kc_gpu c, ki_flavour := kc_flavour c, ki_custom := kc_custom c\<rparr>"

definition reconcile_row :: "string \<times> kernel_row \<Rightarrow> manager \<Rightarrow> manager" where
  "reconcile_row row s =
     (case row of (k, r) \<Rightarrow>
        let c = row_to_config k r in
        case dict_get (km_kernels s) k of
          None \<Rightarrow> s\<lparr>km_kernels := dict_set k (stopped_kernel c (kr_resolved r)) (km_kernels s),
                    km_owners := dict_set k (kr_user r) (km_owners s)\<rparr>
        | Some i \<Rightarrow>
            if ki_state i = K_Stopped
            then s\<lparr>km_kernels := dict_set k (refresh_config c (kr_resolved r) i) (km_kernels s),
                   km_owners := dict_set k (kr_user r) (km_owners s)\<rparr>
            else s)"

definition pruned :: "int option \<Rightarrow> manager \<Rightarrow> string \<Rightarrow> bool" where
  "pruned owner s k =
     (case owner of
        None \<Rightarrow> dict_get (km_rows s) k = None
      | Some u \<Rightarrow> dict_get (km_owners s) k = Some u
          \<and> (case dict_get (km_rows s) k of None \<Rightarrow> True | Some r \<Rightarrow> kr_user r \<noteq> u))"

definition reconcile_rows :: "int option \<Rightarrow> manager \<Rightarrow> (string, kernel_row) dict" where
  "reconcile_rows owner s = (case owner of None \<Rightarrow> km_rows s | Some u \<Rightarrow> filter (\<lambda>(k, r). kr_user r = u) (km_rows s))"

definition reconcile_configs_from_db :: "kernel_env \<Rightarrow> int option \<Rightarrow> manager \<Rightarrow> manager" where
  "reconcile_configs_from_db e owner s =
     (if ke_db e
      then fold reconcile_row (reconcile_rows owner s)
             (fold drop_kernel (filter (pruned owner s) (dict_keys (km_kernels s))) s)
      else s)"

section \<open>Scratch flows\<close>

text \<open>The producer of artifacts that the cells of a kernel publish, by its id: its name and its owner.\<close>

definition provision_scratch_flow :: "kernel_env \<Rightarrow> string \<Rightarrow> int \<Rightarrow> manager \<Rightarrow> manager" where
  "provision_scratch_flow e k u s =
     (if k \<in> set (dict_keys (km_scratch s)) \<or> \<not> ke_db e then s
      else let f = next_row_id (dict_keys (km_flows s)) in
        s\<lparr>km_flows := dict_set f (''_kernel_scratch_'' @ k, u) (km_flows s),
          km_rows := set_kernel_scratch_flow_id k (Some f) (km_rows s),
          km_scratch := dict_set k f (km_scratch s)\<rparr>)"

text \<open>SQLite does not enforce foreign keys here, so a row that points to a deleted registration keeps the reference.\<close>

definition discard_scratch_flow :: "kernel_env \<Rightarrow> string \<Rightarrow> manager \<Rightarrow> manager" where
  "discard_scratch_flow e k s =
     (case dict_get (km_scratch s) k of
        None \<Rightarrow> s
      | Some f \<Rightarrow>
          let s1 = s\<lparr>km_scratch := dict_pop k (km_scratch s)\<rparr> in
          if ke_db e then s1\<lparr>km_flows := dict_pop f (km_flows s1)\<rparr> else s1)"

definition get_scratch_flow_id :: "kernel_env \<Rightarrow> string \<Rightarrow> manager \<Rightarrow> manager \<times> int option" where
  "get_scratch_flow_id e k s =
     (case dict_get (km_scratch s) k of
        Some f \<Rightarrow> (s, Some f)
      | None \<Rightarrow>
          (case dict_get (km_owners s) k of
             None \<Rightarrow> (s, None)
           | Some u \<Rightarrow> let s1 = provision_scratch_flow e k u s in (s1, dict_get (km_scratch s1) k)))"

end
