(* ===== verification/Kernel_Manager.thy ===== *)
theory Kernel_Manager
  imports Kernel_Store
begin

text \<open>
  The operations of \<open>KernelManager\<close> in \<open>kernel/manager.py\<close> and the owner check of \<open>kernel/routes.py\<close>.

  An operation runs without interruption, as its synchronous variant does in one thread. Creation and execution,
  which wait for a build and for the cell, are also given by their parts before and after the wait, so that two of them
  can overlap. An operation that raises returns the left side of its result, next to the state as it was left.
\<close>

section \<open>Ports and images\<close>

definition used_ports :: "manager \<Rightarrow> int list" where
  "used_ports s = List.map_filter ki_port (dict_values (km_kernels s))"

fun first_port :: "(int \<Rightarrow> bool) \<Rightarrow> int \<Rightarrow> nat \<Rightarrow> int option" where
  "first_port ok p 0 = None"
| "first_port ok p (Suc n) = (if ok p then Some p else first_port ok (p + 1) n)"

definition allocate_port :: "kernel_env \<Rightarrow> manager \<Rightarrow> int option" where
  "allocate_port e s = first_port (\<lambda>p. p \<notin> set (used_ports s) \<and> ke_port_free e p) 19000 1000"

definition kernel_image :: "kernel_env \<Rightarrow> kernel_info \<Rightarrow> string option" where
  "kernel_image e i = resolve_image (ke_store e) (ke_defaults e) (ki_flavour i) (ki_custom i)"

definition build_derived_image :: "kernel_env \<Rightarrow> string \<Rightarrow> kernel_info \<Rightarrow> manager \<Rightarrow> manager \<times> (kernel_error + string)" where
  "build_derived_image e k i s =
     (if \<not> validate_packages (ki_packages i) then (s, Inl BadKernelValue)
      else case kernel_image e i of
        None \<Rightarrow> (s, Inl BadKernelValue)
      | Some base \<Rightarrow>
          if derived_image_tag k \<in> set (dict_keys (km_images s)) then (s, Inr (derived_image_tag k))
          else (case im_get (ke_store e) base of
                  Missing \<Rightarrow> (s, Inl ImageNotFound)
                | Broken \<Rightarrow> (s, Inl DockerFailed)
                | Present \<Rightarrow>
                    (case ke_build e base (ki_packages i) of
                       Build_Refused \<Rightarrow> (s, Inl BuildFailed)
                     | Build_Broken \<Rightarrow> (s, Inl DockerFailed)
                     | Built \<Rightarrow>
                         (docker (Build_Image (derived_image_tag k))
                            (s\<lparr>km_images := dict_set (derived_image_tag k)
                                  \<lparr>di_label = safe_id k, di_base = base, di_packages = ki_packages i\<rparr> (km_images s)\<rparr>),
                          Inr (derived_image_tag k)))))"

definition remove_image :: "kernel_env \<Rightarrow> string \<Rightarrow> manager \<Rightarrow> manager" where
  "remove_image e t s = (if ke_rmi e t then docker (Remove_Image t) (s\<lparr>km_images := dict_pop t (km_images s)\<rparr>) else s)"

definition remove_derived_image :: "kernel_env \<Rightarrow> string \<Rightarrow> manager \<Rightarrow> manager" where
  "remove_derived_image e k s = remove_image e (derived_image_tag k) s"

text \<open>A build that fails with one of the two errors that the callers catch.\<close>

definition caught :: "kernel_error \<Rightarrow> bool" where
  "caught x \<longleftrightarrow> x \<noteq> DockerFailed"

section \<open>Creation\<close>

definition new_kernel :: "kernel_config \<Rightarrow> int option \<Rightarrow> kernel_info" where
  "new_kernel c p =
     \<lparr>ki_name = kc_name c, ki_state = K_Stopped, ki_container = None, ki_port = p, ki_packages = kc_packages c,
      ki_resolved = [], ki_cpu = kc_cpu c, ki_memory = kc_memory c, ki_gpu = kc_gpu c, ki_timeout = kc_timeout c,
      ki_flavour = kc_flavour c, ki_custom = kc_custom c, ki_image = None, ki_error = None, ki_version = None,
      ki_persistence = kc_persistence c, ki_recovery = kc_recovery c\<rparr>"

definition create_begin :: "kernel_env \<Rightarrow> kernel_config \<Rightarrow> manager \<Rightarrow> kernel_error + kernel_info" where
  "create_begin e c s =
     (if kc_id c \<in> set (dict_keys (km_kernels s)) then Inl KernelExists
      else if \<not> ke_volume e \<and> allocate_port e s = None then Inl NoFreePort
      else if resolve_image (ke_store e) (ke_defaults e) (kc_flavour c) (kc_custom c) = None \<or> \<not> validate_packages (kc_packages c)
      then Inl BadKernelValue
      else Inr (new_kernel c (if ke_volume e then None else allocate_port e s)))"

definition create_build :: "kernel_env \<Rightarrow> string \<Rightarrow> kernel_info \<Rightarrow> manager \<Rightarrow> manager \<times> (kernel_error + kernel_info)" where
  "create_build e k i s =
     (if ki_packages i = [] then (s, Inr i)
      else case build_derived_image e k i s of
        (s1, Inl x) \<Rightarrow> (s1, Inl (if caught x then BadKernelValue else x))
      | (s1, Inr t) \<Rightarrow> (s1, Inr (i\<lparr>ki_resolved := resolve_installed_versions (ke_pip e) (ki_packages i)\<rparr>)))"

definition create_finish :: "kernel_env \<Rightarrow> string \<Rightarrow> kernel_info \<Rightarrow> int \<Rightarrow> manager \<Rightarrow> manager \<times> (kernel_error + kernel_info)" where
  "create_finish e k i u s =
     (if k \<in> set (dict_keys (km_kernels s)) then (s, Inl KernelExists)
      else let s1 = s\<lparr>km_kernels := dict_set k i (km_kernels s), km_owners := dict_set k u (km_owners s)\<rparr>;
               s2 = persist_kernel e k i u s1;
               s3 = provision_scratch_flow e k u s2
           in (s3, Inr i))"

definition create_kernel :: "kernel_env \<Rightarrow> kernel_config \<Rightarrow> int \<Rightarrow> manager \<Rightarrow> manager \<times> (kernel_error + kernel_info)" where
  "create_kernel e c u s =
     (case create_begin e c s of
        Inl x \<Rightarrow> (s, Inl x)
      | Inr i \<Rightarrow>
          (case create_build e (kc_id c) i s of
             (s1, Inl x) \<Rightarrow> (s1, Inl x)
           | (s1, Inr i1) \<Rightarrow> create_finish e (kc_id c) i1 u s1))"

section \<open>Starting and stopping\<close>

definition fail_kernel :: "string \<Rightarrow> kernel_error \<Rightarrow> manager \<Rightarrow> manager" where
  "fail_kernel k x = set_kernel k (\<lambda>i. i\<lparr>ki_state := K_Error, ki_error := Some x\<rparr>)"

text \<open>The part of a start from the container on: the port, the container, and the wait for its health.\<close>

definition launch :: "kernel_env \<Rightarrow> string \<Rightarrow> string \<Rightarrow> manager \<Rightarrow> manager \<times> (kernel_error + unit)" where
  "launch e k img s =
     (let s1 = set_kernel k (\<lambda>i. i\<lparr>ki_state := K_Starting, ki_error := None\<rparr>) s in
      case ke_run e of
        None \<Rightarrow> (cleanup_container k (fail_kernel k DockerFailed s1), Inl DockerFailed)
      | Some c \<Rightarrow>
          let p = (case dict_get (km_kernels s1) k of None \<Rightarrow> None | Some i \<Rightarrow> ki_port i);
              s2 = set_kernel k (\<lambda>i. i\<lparr>ki_container := Some c\<rparr>)
                     (docker (Run_Container (''flowfile-kernel-'' @ k) c img (if ke_volume e then None else p)) s1)
          in (case ke_health e of
                None \<Rightarrow> (cleanup_container k (fail_kernel k NotHealthy s2), Inl NotHealthy)
              | Some v \<Rightarrow> (set_kernel k (\<lambda>i. i\<lparr>ki_version := v, ki_state := K_Idle\<rparr>) s2, Inr ())))"

definition start_image :: "kernel_env \<Rightarrow> string \<Rightarrow> kernel_info \<Rightarrow> string \<Rightarrow> manager \<Rightarrow> manager \<times> (kernel_error + string)" where
  "start_image e k i base s =
     (if ki_packages i = [] then (s, Inr base)
      else case build_derived_image e k i s of
        (s1, Inl x) \<Rightarrow> (if caught x then fail_kernel k x s1 else s1, Inl x)
      | (s1, Inr t) \<Rightarrow> (s1, Inr t))"

definition start_kernel :: "kernel_env \<Rightarrow> string \<Rightarrow> manager \<Rightarrow> manager \<times> (kernel_error + unit)" where
  "start_kernel e k s =
     (case dict_get (km_kernels s) k of
        None \<Rightarrow> (s, Inl NoSuchKernel)
      | Some i \<Rightarrow>
          if ki_state i = K_Idle then (s, Inr ())
          else (case kernel_image e i of
            None \<Rightarrow> (s, Inl BadKernelValue)
          | Some base \<Rightarrow>
              (case im_get (ke_store e) base of
                 Missing \<Rightarrow> (fail_kernel k ImageNotFound s, Inl ImageNotFound)
               | Broken \<Rightarrow> (s, Inl DockerFailed)
               | Present \<Rightarrow>
                   (case start_image e k i base s of
                      (s1, Inl x) \<Rightarrow> (s1, Inl x)
                    | (s1, Inr img) \<Rightarrow>
                        let s2 = set_kernel k (\<lambda>i. i\<lparr>ki_image := Some img\<rparr>) s1 in
                        if ki_port i = None \<and> \<not> ke_volume e
                        then (case allocate_port e s2 of
                                None \<Rightarrow> (s2, Inl NoFreePort)
                              | Some p \<Rightarrow> launch e k img (set_kernel k (\<lambda>i. i\<lparr>ki_port := Some p\<rparr>) s2))
                        else launch e k img s2))))"

definition stop_kernel :: "string \<Rightarrow> manager \<Rightarrow> manager \<times> (kernel_error + unit)" where
  "stop_kernel k s =
     (case dict_get (km_kernels s) k of
        None \<Rightarrow> (s, Inl NoSuchKernel)
      | Some i \<Rightarrow> (set_kernel k (\<lambda>i. i\<lparr>ki_state := K_Stopped, ki_container := None\<rparr>) (cleanup_container k s), Inr ()))"

section \<open>Changing packages and deleting\<close>

definition restore_image :: "kernel_env \<Rightarrow> string \<Rightarrow> manager \<Rightarrow> manager" where
  "restore_image e k s = (case dict_get (km_kernels s) k of None \<Rightarrow> s | Some i \<Rightarrow> fst (build_derived_image e k i s))"

definition persist_owned :: "kernel_env \<Rightarrow> string \<Rightarrow> manager \<Rightarrow> manager" where
  "persist_owned e k s =
     (case dict_get (km_owners s) k of
        None \<Rightarrow> s
      | Some u \<Rightarrow> (case dict_get (km_kernels s) k of None \<Rightarrow> s | Some i \<Rightarrow> persist_kernel e k i u s))"

definition update_kernel :: "kernel_env \<Rightarrow> string \<Rightarrow> string list \<Rightarrow> manager \<Rightarrow> manager \<times> (kernel_error + unit)" where
  "update_kernel e k ps s =
     (case dict_get (km_kernels s) k of
        None \<Rightarrow> (s, Inl NoSuchKernel)
      | Some i \<Rightarrow>
          if ki_state i \<in> {K_Idle, K_Executing, K_Starting} then (s, Inl KernelBusy)
          else if \<not> validate_packages ps then (s, Inl BadKernelValue)
          else if ps = ki_packages i then (s, Inr ())
          else
            let s1 = set_kernel k (\<lambda>j. j\<lparr>ki_packages := ps, ki_resolved := []\<rparr>) s;
                s2 = (if ki_packages i \<noteq> [] then remove_derived_image e k s1 else s1)
            in if ps = [] then (persist_owned e k s2, Inr ())
               else (case build_derived_image e k (i\<lparr>ki_packages := ps, ki_resolved := []\<rparr>) s2 of
                 (s3, Inl x) \<Rightarrow>
                   if caught x
                   then let s4 = set_kernel k (\<lambda>j. j\<lparr>ki_packages := ki_packages i, ki_resolved := ki_resolved i\<rparr>) s3
                        in (if ki_packages i \<noteq> [] then restore_image e k s4 else s4, Inl BadKernelValue)
                   else (s3, Inl x)
               | (s3, Inr t) \<Rightarrow>
                   (persist_owned e k
                      (set_kernel k (\<lambda>j. j\<lparr>ki_resolved := resolve_installed_versions (ke_pip e) ps\<rparr>) s3), Inr ())))"

definition delete_kernel :: "kernel_env \<Rightarrow> string \<Rightarrow> manager \<Rightarrow> manager \<times> (kernel_error + unit)" where
  "delete_kernel e k s =
     (case dict_get (km_kernels s) k of
        None \<Rightarrow> (s, Inl NoSuchKernel)
      | Some i \<Rightarrow>
          let s1 = (if ki_state i = K_Idle \<or> ki_state i = K_Executing then fst (stop_kernel k s) else s);
              s2 = discard_scratch_flow e k s1;
              s3 = s2\<lparr>km_kernels := dict_pop k (km_kernels s2), km_owners := dict_pop k (km_owners s2)\<rparr>;
              s4 = remove_kernel_from_db e k s3
          in (if ki_packages i \<noteq> [] then remove_derived_image e k s4 else s4, Inr ()))"

definition shut_down :: "string \<Rightarrow> manager \<Rightarrow> manager" where
  "shut_down k s =
     (case dict_get (km_kernels s) k of
        None \<Rightarrow> s
      | Some i \<Rightarrow>
          if ki_state i \<in> {K_Idle, K_Executing, K_Starting}
          then set_kernel k (\<lambda>i. i\<lparr>ki_state := K_Stopped, ki_container := None\<rparr>) (cleanup_container k s) else s)"

definition shutdown_all :: "manager \<Rightarrow> manager" where
  "shutdown_all s = fold shut_down (dict_keys (km_kernels s)) s"

section \<open>Execution\<close>

definition ensure_running :: "kernel_env \<Rightarrow> string \<Rightarrow> manager \<Rightarrow> manager \<times> (kernel_error + unit)" where
  "ensure_running e k s =
     (case dict_get (km_kernels s) k of
        None \<Rightarrow> (s, Inl NoSuchKernel)
      | Some i \<Rightarrow>
          (case ki_state i of
             K_Idle \<Rightarrow> (s, Inr ())
           | K_Executing \<Rightarrow> (s, Inr ())
           | K_Starting \<Rightarrow>
               (case ke_health e of
                  None \<Rightarrow> (s, Inl NotHealthy)
                | Some v \<Rightarrow> (set_kernel k (\<lambda>i. i\<lparr>ki_version := v, ki_state := K_Idle\<rparr>) s, Inr ()))
           | _ \<Rightarrow> start_kernel e k (set_kernel k (\<lambda>i. i\<lparr>ki_container := None\<rparr>) (cleanup_container k s))))"

text \<open>
  The answer to the request that runs a cell: a result, no answer in time, another failure of the connection, or
  an answer that cannot be read. After a failure Docker tells whether the container was killed for its memory and
  whether it still runs.
\<close>

datatype cell_answer = Cell_Result | Cell_Timeout | Cell_Failed | Cell_Unreadable

record cell_env =
  ce_answer :: cell_answer
  ce_oom :: bool
  ce_running :: bool
  ce_interrupt :: bool
  ce_kill :: bool

datatype cell_result = Executed | Ran_Out_Of_Memory | Kernel_Down | Interrupted_After_Limit | Raised

definition interrupt_execution :: "kernel_env \<Rightarrow> bool \<Rightarrow> cell_env \<Rightarrow> string \<Rightarrow> manager \<Rightarrow> bool" where
  "interrupt_execution e network ce k s =
     (case dict_get (km_kernels s) k of
        None \<Rightarrow> False
      | Some i \<Rightarrow>
          if ki_container i = None \<or> ki_state i \<noteq> K_Executing then False
          else (network \<or> ki_port i \<noteq> None) \<and> ce_interrupt ce \<or> ce_kill ce)"

definition execute_begin :: "kernel_env \<Rightarrow> string \<Rightarrow> int option \<Rightarrow> manager \<Rightarrow> manager \<times> (kernel_error + int option)" where
  "execute_begin e k src s =
     (case dict_get (km_kernels s) k of
        None \<Rightarrow> (s, Inl NoSuchKernel)
      | Some i \<Rightarrow>
          (case (if ki_state i = K_Idle \<or> ki_state i = K_Executing then (s, Inr ()) else ensure_running e k s) of
             (s1, Inl x) \<Rightarrow> (s1, Inl x)
           | (s1, Inr _) \<Rightarrow>
               (case (case src of Some f \<Rightarrow> (s1, Some f) | None \<Rightarrow> get_scratch_flow_id e k s1) of
                  (s2, f) \<Rightarrow> (set_kernel k (\<lambda>i. i\<lparr>ki_state := K_Executing\<rparr>) s2, Inr f))))"

definition leave_execution :: "string \<Rightarrow> manager \<Rightarrow> manager" where
  "leave_execution k = set_kernel k (\<lambda>i. if ki_state i = K_Executing then i\<lparr>ki_state := K_Idle\<rparr> else i)"

definition execute_finish :: "cell_env \<Rightarrow> string \<Rightarrow> manager \<Rightarrow> manager \<times> cell_result" where
  "execute_finish ce k s =
     (let has_container = (case dict_get (km_kernels s) k of None \<Rightarrow> False | Some i \<Rightarrow> ki_container i \<noteq> None);
          failed = (ce_answer ce = Cell_Timeout \<or> ce_answer ce = Cell_Failed) in
      if \<not> failed then (leave_execution k s, if ce_answer ce = Cell_Result then Executed else Raised)
      else if has_container \<and> ce_oom ce
      then (fail_kernel k OutOfMemory s, Ran_Out_Of_Memory)
      else if \<not> ce_running ce
      then (set_kernel k (\<lambda>i. i\<lparr>ki_state := K_Stopped, ki_container := None\<rparr>) s, Kernel_Down)
      else (leave_execution k s, if ce_answer ce = Cell_Timeout then Interrupted_After_Limit else Raised))"

definition execute_cell :: "kernel_env \<Rightarrow> cell_env \<Rightarrow> string \<Rightarrow> int option \<Rightarrow> manager \<Rightarrow> manager \<times> (kernel_error + cell_result)" where
  "execute_cell e ce k src s =
     (case execute_begin e k src s of
        (s1, Inl x) \<Rightarrow> (s1, Inl x)
      | (s1, Inr f) \<Rightarrow> (case execute_finish ce k s1 of (s2, r) \<Rightarrow> (s2, Inr r)))"

text \<open>
  Requests about artifacts. Some start the kernel when it does not run; the others refuse. In both cases the kernel
  is asked only when it runs; the editor's requests do neither and answer with nothing.
\<close>

definition starting_request :: "kernel_env \<Rightarrow> string \<Rightarrow> manager \<Rightarrow> manager \<times> (kernel_error + unit)" where
  "starting_request e k s =
     (case dict_get (km_kernels s) k of
        None \<Rightarrow> (s, Inl NoSuchKernel)
      | Some i \<Rightarrow> if ki_state i = K_Idle \<or> ki_state i = K_Executing then (s, Inr ()) else ensure_running e k s)"

definition running_request :: "string \<Rightarrow> manager \<Rightarrow> kernel_error + unit" where
  "running_request k s =
     (case dict_get (km_kernels s) k of
        None \<Rightarrow> Inl NoSuchKernel
      | Some i \<Rightarrow> if ki_state i = K_Idle \<or> ki_state i = K_Executing then Inr () else Inl KernelBusy)"

definition lsp_request :: "'a option \<Rightarrow> string \<Rightarrow> manager \<Rightarrow> 'a option" where
  "lsp_request answer k s = (if running_request k s = Inr () then answer else None)"

section \<open>The start of the core\<close>

definition container_prefix :: string where
  "container_prefix = ''flowfile-kernel-''"

definition reclaim :: "kernel_env \<Rightarrow> string \<times> string \<times> int option \<Rightarrow> manager \<Rightarrow> manager" where
  "reclaim e r s =
     (case r of (name, c, p) \<Rightarrow>
        if \<not> startswith name container_prefix then s
        else let k = drop (length container_prefix) name in
          if k \<in> set (dict_keys (km_kernels s))
          then set_kernel k (\<lambda>i. i\<lparr>ki_container := Some c,
                 ki_port := (if \<not> ke_volume e \<and> p \<noteq> None then p else ki_port i), ki_state := K_Idle\<rparr>) s
          else docker (Stop_Container c) s)"

definition reclaim_running_containers :: "kernel_env \<Rightarrow> manager \<Rightarrow> manager" where
  "reclaim_running_containers e s = (case ke_running e of None \<Rightarrow> s | Some cs \<Rightarrow> fold (reclaim e) cs s)"

definition remove_orphan :: "kernel_env \<Rightarrow> string list \<Rightarrow> string \<times> derived_image \<Rightarrow> manager \<Rightarrow> manager" where
  "remove_orphan e expected r s = (case r of (t, d) \<Rightarrow> if di_label d \<in> set expected then s else remove_image e t s)"

definition remove_orphan_derived_images :: "kernel_env \<Rightarrow> manager \<Rightarrow> manager" where
  "remove_orphan_derived_images e s =
     fold (remove_orphan e (map safe_id (dict_keys (km_kernels s)))) (km_images s) s"

definition start_core :: "kernel_env \<Rightarrow> manager \<Rightarrow> manager" where
  "start_core e s =
     remove_orphan_derived_images e
       (reclaim_running_containers e
         (restore_kernels_from_db e (s\<lparr>km_kernels := [], km_owners := [], km_scratch := [], km_pulls := []\<rparr>)))"

section \<open>Pulling images\<close>

definition start_image_pull :: "(image_flavour \<Rightarrow> string) \<Rightarrow> image_flavour \<Rightarrow> manager \<Rightarrow> manager \<times> (kernel_error + string \<times> bool)" where
  "start_image_pull defaults f s =
     (if f = Custom_Image then (s, Inl BadKernelValue)
      else if dict_get (km_pulls s) (defaults f) = Some ''pulling'' then (s, Inr (''pulling'', False))
      else (s\<lparr>km_pulls := dict_set (defaults f) ''pulling'' (km_pulls s)\<rparr>, Inr (''pulling'', True)))"

definition finish_pull :: "string \<Rightarrow> string option \<Rightarrow> manager \<Rightarrow> manager" where
  "finish_pull t failure s =
     (case failure of
        None \<Rightarrow> s\<lparr>km_pulls := dict_pop t (km_pulls s)\<rparr>
      | Some msg \<Rightarrow> s\<lparr>km_pulls := dict_set t (''error:'' @ msg) (km_pulls s)\<rparr>)"

section \<open>The routes\<close>

datatype route_check = Allowed | Not_Found | Forbidden

definition check_owner :: "int \<Rightarrow> string \<Rightarrow> manager \<Rightarrow> route_check" where
  "check_owner u k s =
     (if dict_get (km_kernels s) k = None then Not_Found
      else if dict_get (km_owners s) k \<noteq> Some u then Forbidden else Allowed)"

definition list_kernels :: "int option \<Rightarrow> manager \<Rightarrow> (string \<times> kernel_info) list" where
  "list_kernels u s =
     (case u of None \<Rightarrow> km_kernels s | Some v \<Rightarrow> filter (\<lambda>(k, i). dict_get (km_owners s) k = Some v) (km_kernels s))"

end
