(* ===== verification/Kernel_Safety.thy ===== *)
theory Kernel_Safety
  imports Kernel_Manager
begin

text \<open>
  What the registry of kernels keeps over any sequence of operations: distinct ports, agreement with the table, and
  derived images that hold the packages of their kernel.
\<close>

section \<open>Frames\<close>

lemma km_kernels_set_kernel [simp]:
  "dict_get (km_kernels (set_kernel k f s)) = (dict_get (km_kernels s))(k := map_option f (dict_get (km_kernels s) k))"
  by (auto simp: set_kernel_def fun_eq_iff split: option.splits)

lemma set_kernel_frame [simp]:
  "km_owners (set_kernel k f s) = km_owners s" "km_scratch (set_kernel k f s) = km_scratch s"
  "km_pulls (set_kernel k f s) = km_pulls s" "km_rows (set_kernel k f s) = km_rows s"
  "km_flows (set_kernel k f s) = km_flows s" "km_images (set_kernel k f s) = km_images s"
  "km_calls (set_kernel k f s) = km_calls s"
  by (simp_all add: set_kernel_def split: option.splits)

lemma docker_frame [simp]:
  "km_kernels (docker c s) = km_kernels s" "km_owners (docker c s) = km_owners s" "km_scratch (docker c s) = km_scratch s"
  "km_pulls (docker c s) = km_pulls s" "km_rows (docker c s) = km_rows s" "km_flows (docker c s) = km_flows s"
  "km_images (docker c s) = km_images s" "km_calls (docker c s) = km_calls s @ [c]"
  by (simp_all add: docker_def)

lemma cleanup_container_frame [simp]:
  "km_kernels (cleanup_container k s) = km_kernels s" "km_owners (cleanup_container k s) = km_owners s"
  "km_scratch (cleanup_container k s) = km_scratch s" "km_pulls (cleanup_container k s) = km_pulls s"
  "km_rows (cleanup_container k s) = km_rows s" "km_flows (cleanup_container k s) = km_flows s"
  "km_images (cleanup_container k s) = km_images s"
  by (simp_all add: cleanup_container_def split: option.splits)

lemma persist_kernel_frame [simp]:
  "km_kernels (persist_kernel e k i u s) = km_kernels s" "km_owners (persist_kernel e k i u s) = km_owners s"
  "km_scratch (persist_kernel e k i u s) = km_scratch s" "km_images (persist_kernel e k i u s) = km_images s"
  "km_flows (persist_kernel e k i u s) = km_flows s" "km_calls (persist_kernel e k i u s) = km_calls s"
  by (simp_all add: persist_kernel_def)

lemma persist_owned_frame [simp]:
  "km_kernels (persist_owned e k s) = km_kernels s" "km_owners (persist_owned e k s) = km_owners s"
  "km_scratch (persist_owned e k s) = km_scratch s" "km_images (persist_owned e k s) = km_images s"
  "km_flows (persist_owned e k s) = km_flows s" "km_calls (persist_owned e k s) = km_calls s"
  by (simp_all add: persist_owned_def split: option.splits)

lemma remove_kernel_from_db_frame [simp]:
  "km_kernels (remove_kernel_from_db e k s) = km_kernels s" "km_owners (remove_kernel_from_db e k s) = km_owners s"
  "km_images (remove_kernel_from_db e k s) = km_images s" "km_scratch (remove_kernel_from_db e k s) = km_scratch s"
  by (simp_all add: remove_kernel_from_db_def)

lemma provision_scratch_flow_frame [simp]:
  "km_kernels (provision_scratch_flow e k u s) = km_kernels s" "km_owners (provision_scratch_flow e k u s) = km_owners s"
  "km_images (provision_scratch_flow e k u s) = km_images s" "km_calls (provision_scratch_flow e k u s) = km_calls s"
  by (simp_all add: provision_scratch_flow_def Let_def)

lemma get_scratch_flow_id_frame [simp]:
  "km_kernels (fst (get_scratch_flow_id e k s)) = km_kernels s" "km_owners (fst (get_scratch_flow_id e k s)) = km_owners s"
  "km_images (fst (get_scratch_flow_id e k s)) = km_images s" "km_calls (fst (get_scratch_flow_id e k s)) = km_calls s"
  by (simp_all add: get_scratch_flow_id_def Let_def split: option.splits)

lemma discard_scratch_flow_frame [simp]:
  "km_kernels (discard_scratch_flow e k s) = km_kernels s" "km_owners (discard_scratch_flow e k s) = km_owners s"
  "km_images (discard_scratch_flow e k s) = km_images s" "km_rows (discard_scratch_flow e k s) = km_rows s"
  by (simp_all add: discard_scratch_flow_def Let_def split: option.splits)

lemma remove_image_frame [simp]:
  "km_kernels (remove_image e t s) = km_kernels s" "km_owners (remove_image e t s) = km_owners s"
  "km_scratch (remove_image e t s) = km_scratch s" "km_rows (remove_image e t s) = km_rows s"
  by (simp_all add: remove_image_def)

lemma remove_derived_image_frame [simp]:
  "km_kernels (remove_derived_image e k s) = km_kernels s" "km_owners (remove_derived_image e k s) = km_owners s"
  "km_scratch (remove_derived_image e k s) = km_scratch s" "km_rows (remove_derived_image e k s) = km_rows s"
  by (simp_all add: remove_derived_image_def)

lemma build_derived_image_frame [simp]:
  "km_kernels (fst (build_derived_image e k i s)) = km_kernels s" "km_owners (fst (build_derived_image e k i s)) = km_owners s"
  "km_scratch (fst (build_derived_image e k i s)) = km_scratch s" "km_rows (fst (build_derived_image e k i s)) = km_rows s"
  by (simp_all add: build_derived_image_def split: option.splits lookup.splits build_answer.splits)

lemma restore_image_frame [simp]:
  "km_kernels (restore_image e k s) = km_kernels s" "km_owners (restore_image e k s) = km_owners s"
  "km_scratch (restore_image e k s) = km_scratch s" "km_rows (restore_image e k s) = km_rows s"
  by (simp_all add: restore_image_def split: option.splits)

section \<open>Operations on one kernel\<close>

text \<open>\<open>touches k R s s'\<close>: only the kernel \<open>k\<close> may change, and \<open>R\<close> relates what it was to what it is.\<close>

definition touches :: "string \<Rightarrow> (kernel_info \<Rightarrow> kernel_info \<Rightarrow> bool) \<Rightarrow> manager \<Rightarrow> manager \<Rightarrow> bool" where
  "touches k R s s' \<longleftrightarrow>
     (\<forall>j. j \<noteq> k \<longrightarrow> dict_get (km_kernels s') j = dict_get (km_kernels s) j) \<and>
     rel_option R (dict_get (km_kernels s) k) (dict_get (km_kernels s') k)"

lemma touches_set_kernel: "(\<And>i. dict_get (km_kernels s) k = Some i \<Longrightarrow> R i (f i)) \<Longrightarrow> touches k R s (set_kernel k f s)"
  by (cases "dict_get (km_kernels s) k") (simp_all add: touches_def)

lemma touches_same: "km_kernels s' = km_kernels s \<Longrightarrow> reflp R \<Longrightarrow> touches k R s s'"
  by (simp add: touches_def option.rel_reflp reflpD)

lemma touches_trans: "touches k R s s1 \<Longrightarrow> touches k R s1 s2 \<Longrightarrow> transp R \<Longrightarrow> touches k R s s2"
  unfolding touches_def using transpD[OF option.rel_transp] by metis

lemma touches_mono: "touches k R s s' \<Longrightarrow> (\<And>i i'. R i i' \<Longrightarrow> Q i i') \<Longrightarrow> touches k Q s s'"
  by (auto simp: touches_def intro: option.rel_mono_strong)

lemma touches_left: "touches k R s s' \<Longrightarrow> km_kernels s0 = km_kernels s \<Longrightarrow> touches k R s0 s'"
  by (simp add: touches_def)

lemma touches_right: "touches k R s s1 \<Longrightarrow> km_kernels s' = km_kernels s1 \<Longrightarrow> touches k R s s'"
  by (simp add: touches_def)

definition settings :: "kernel_info \<Rightarrow> _" where
  "settings i =
     (ki_name i, ki_packages i, ki_resolved i, ki_cpu i, ki_memory i, ki_gpu i, ki_timeout i, ki_flavour i, ki_custom i,
      ki_persistence i, ki_recovery i)"

text \<open>Settings stay, and a port is kept or is outside a set of ports.\<close>

definition keeps_settings :: "int set \<Rightarrow> kernel_info \<Rightarrow> kernel_info \<Rightarrow> bool" where
  "keeps_settings P i i' \<longleftrightarrow> settings i' = settings i \<and> (ki_port i' = ki_port i \<or> (\<exists>p. ki_port i' = Some p \<and> p \<notin> P))"

lemma reflp_runs [simp]: "reflp (keeps_settings P)"
  by (simp add: reflp_def keeps_settings_def)

lemma transp_runs [simp]: "transp (keeps_settings P)"
  by (auto simp: transp_def keeps_settings_def)

lemmas touches_runs_trans = touches_trans[where R = "keeps_settings P" for P, OF _ _ transp_runs]

definition port_of :: "manager \<Rightarrow> string \<Rightarrow> int option" where
  "port_of s k = Option.bind (dict_get (km_kernels s) k) ki_port"

definition port_set :: "manager \<Rightarrow> int set" where
  "port_set s = {p. \<exists>k. port_of s k = Some p}"

lemma port_set_used: "port_set s \<subseteq> set (used_ports s)"
proof
  fix p assume "p \<in> port_set s"
  then obtain k i where "dict_get (km_kernels s) k = Some i" "ki_port i = Some p"
    by (auto simp: port_set_def port_of_def bind_eq_Some_conv)
  from map_of_SomeD[OF this(1)] this(2) show "p \<in> set (used_ports s)"
    by (force simp: used_ports_def dict_values_def List.map_filter_def)
qed

lemma port_set_set_kernel:
  assumes "\<And>i. ki_port (f i) = ki_port i"
  shows "port_set (set_kernel k f s) = port_set s"
proof -
  have "port_of (set_kernel k f s) j = port_of s j" for j
    by (cases "dict_get (km_kernels s) k") (simp_all add: port_of_def assms)
  then show ?thesis by (simp add: port_set_def)
qed

lemma port_set_cong: "km_kernels s = km_kernels s' \<Longrightarrow> port_set s = port_set s'"
  by (simp add: port_set_def port_of_def)

lemma first_port_SomeD: "first_port ok p n = Some q \<Longrightarrow> ok q \<and> p \<le> q \<and> q < p + int n"
  by (induction ok p n rule: first_port.induct) (auto split: if_splits)

lemma allocate_port_fresh: "allocate_port e s = Some p \<Longrightarrow> p \<notin> port_set s"
  using port_set_used first_port_SomeD unfolding allocate_port_def by blast

lemma touches_runtime:
  "(\<And>i. settings (f i) = settings i) \<Longrightarrow> (\<And>i. ki_port (f i) = ki_port i) \<Longrightarrow> touches k (keeps_settings P) s (set_kernel k f s)"
  by (rule touches_set_kernel) (simp add: keeps_settings_def)

lemma touches_fail_kernel: "touches k (keeps_settings P) s (fail_kernel k x s)"
  unfolding fail_kernel_def by (rule touches_runtime) (simp_all add: settings_def)

lemma launch_touches: "touches k (keeps_settings P) s (fst (launch e k img s))"
proof -
  let ?s = "set_kernel k (\<lambda>i. i\<lparr>ki_state := K_Starting, ki_error := None\<rparr>) s"
  have start: "touches k (keeps_settings P) s ?s" by (rule touches_runtime) (simp_all add: settings_def)
  show ?thesis
  proof (cases "ke_run e")
    case None
    have "touches k (keeps_settings P) ?s (cleanup_container k (fail_kernel k DockerFailed ?s))"
      by (rule touches_right[OF touches_fail_kernel]) simp
    with start None show ?thesis by (simp add: launch_def Let_def touches_runs_trans)
  next
    case (Some c)
    let ?p = "case dict_get (km_kernels ?s) k of None \<Rightarrow> None | Some i \<Rightarrow> ki_port i"
    let ?d = "docker (Run_Container (''flowfile-kernel-'' @ k) c img (if ke_volume e then None else ?p)) ?s"
    let ?t = "set_kernel k (\<lambda>i. i\<lparr>ki_container := Some c\<rparr>) ?d"
    have "touches k (keeps_settings P) ?d ?t" by (rule touches_runtime) (simp_all add: settings_def)
    then have "touches k (keeps_settings P) ?s ?t" by (rule touches_left) simp
    with start have run: "touches k (keeps_settings P) s ?t" by (rule touches_runs_trans)
    show ?thesis
    proof (cases "ke_health e")
      case None
      have "touches k (keeps_settings P) ?t (cleanup_container k (fail_kernel k NotHealthy ?t))"
        by (rule touches_right[OF touches_fail_kernel]) simp
      with run have "touches k (keeps_settings P) s (cleanup_container k (fail_kernel k NotHealthy ?t))" by (rule touches_runs_trans)
      with Some None show ?thesis by (simp add: launch_def Let_def)
    next
      case (Some v)
      have "touches k (keeps_settings P) ?t (set_kernel k (\<lambda>i. i\<lparr>ki_version := v, ki_state := K_Idle\<rparr>) ?t)"
        by (rule touches_runtime) (simp_all add: settings_def)
      with run have "touches k (keeps_settings P) s (set_kernel k (\<lambda>i. i\<lparr>ki_version := v, ki_state := K_Idle\<rparr>) ?t)" by (rule touches_runs_trans)
      with \<open>ke_run e = Some c\<close> Some show ?thesis by (simp add: launch_def Let_def)
    qed
  qed
qed

lemma start_image_kernels:
  "touches k (keeps_settings P) s (fst (start_image e k i base s))"
proof (cases "build_derived_image e k i s")
  case (Pair s1 r)
  have s1: "km_kernels s1 = km_kernels s" using build_derived_image_frame(1)[of e k i s] Pair by simp
  show ?thesis
  proof (cases "ki_packages i = []")
    case True
    then show ?thesis by (simp add: start_image_def touches_same)
  next
    case False
    then show ?thesis
      using Pair s1 touches_same[of s1 s "keeps_settings P" k] touches_left[OF touches_fail_kernel, of s s1 k P]
      by (auto simp: start_image_def split: sum.splits)
  qed
qed

lemma start_image_ok: "start_image e k i base s = (s1, Inr img) \<Longrightarrow> km_kernels s1 = km_kernels s"
  using build_derived_image_frame(1)[of e k i s]
  by (cases "build_derived_image e k i s") (auto simp: start_image_def split: if_splits sum.splits)

lemma start_kernel_touches: "touches k (keeps_settings (port_set s)) s (fst (start_kernel e k s))"
proof (cases "dict_get (km_kernels s) k")
  case None
  then show ?thesis by (simp add: start_kernel_def touches_same)
next
  case (Some i)
  let ?R = "keeps_settings (port_set s)"
  have refl: "touches k ?R s s" by (simp add: touches_same)
  show ?thesis
  proof (cases "ki_state i \<noteq> K_Idle \<and> (\<exists>base. kernel_image e i = Some base \<and> im_get (ke_store e) base = Present)")
    case False
    with Some refl touches_fail_kernel[of k "port_set s" s ImageNotFound] show ?thesis
      by (auto simp: start_kernel_def split: option.splits lookup.splits)
  next
    case True
    then obtain base where base: "ki_state i \<noteq> K_Idle" "kernel_image e i = Some base" "im_get (ke_store e) base = Present" by blast
    obtain s1 r where si: "start_image e k i base s = (s1, r)" by (cases "start_image e k i base s")
    show ?thesis
    proof (cases r)
      case (Inl x)
      with Some base si start_image_kernels[of k "port_set s" s e i base] show ?thesis by (simp add: start_kernel_def)
    next
      case (Inr img)
      let ?s2 = "set_kernel k (\<lambda>i. i\<lparr>ki_image := Some img\<rparr>) s1"
      have s1: "km_kernels s1 = km_kernels s" using start_image_ok si Inr by blast
      have s2: "touches k ?R s ?s2"
        by (rule touches_left[OF touches_runtime]) (simp_all add: settings_def s1)
      have ports: "port_set ?s2 = port_set s"
        using port_set_set_kernel[of "\<lambda>i. i\<lparr>ki_image := Some img\<rparr>" k s1] port_set_cong[OF s1] by simp
      show ?thesis
      proof (cases "ki_port i = None \<and> \<not> ke_volume e")
        case False
        then have "fst (start_kernel e k s) = fst (launch e k img ?s2)"
          using Some base si Inr by (auto simp: start_kernel_def Let_def)
        with touches_runs_trans[OF s2 launch_touches] show ?thesis by simp
      next
        case True
        show ?thesis
        proof (cases "allocate_port e ?s2")
          case None
          with True Some base si Inr s2 show ?thesis by (simp add: start_kernel_def Let_def)
        next
          case (Some p)
          with allocate_port_fresh ports have p: "p \<notin> port_set s" by blast
          let ?s3 = "set_kernel k (\<lambda>i. i\<lparr>ki_port := Some p\<rparr>) ?s2"
          have "touches k ?R ?s2 ?s3"
            by (rule touches_set_kernel) (simp add: keeps_settings_def settings_def p)
          from touches_runs_trans[OF touches_runs_trans[OF s2 this] launch_touches] True Some base si Inr \<open>dict_get (km_kernels s) k = Some i\<close>
          show ?thesis by (simp add: start_kernel_def Let_def)
        qed
      qed
    qed
  qed
qed

lemma runs_set_kernel:
  "(\<And>i. settings (f i) = settings i) \<Longrightarrow> (\<And>i. ki_port (f i) = ki_port i) \<Longrightarrow> km_kernels s0 = km_kernels s
     \<Longrightarrow> touches k (keeps_settings P) s (set_kernel k f s0)"
  by (rule touches_left[OF touches_runtime]) simp_all

lemma touches_refl: "touches k (keeps_settings P) s s"
  by (simp add: touches_same)

lemma stop_kernel_touches: "touches k (keeps_settings P) s (fst (stop_kernel k s))"
  by (auto simp: stop_kernel_def settings_def intro!: touches_refl runs_set_kernel split: option.split)

lemma shut_down_touches: "touches k (keeps_settings P) s (shut_down k s)"
  by (auto simp: shut_down_def settings_def intro!: touches_refl runs_set_kernel split: option.split)

lemma ensure_running_touches: "touches k (keeps_settings (port_set s)) s (fst (ensure_running e k s))"
proof (cases "dict_get (km_kernels s) k")
  case None
  then show ?thesis by (simp add: ensure_running_def touches_same)
next
  case (Some i)
  let ?s1 = "set_kernel k (\<lambda>i. i\<lparr>ki_container := None\<rparr>) (cleanup_container k s)"
  have first: "touches k (keeps_settings (port_set s)) s ?s1" by (rule runs_set_kernel) (simp_all add: settings_def)
  have "port_set ?s1 = port_set (cleanup_container k s)" by (rule port_set_set_kernel) simp
  also have "\<dots> = port_set s" by (rule port_set_cong) simp
  finally have restart: "touches k (keeps_settings (port_set s)) s (fst (start_kernel e k ?s1))"
    using touches_runs_trans[OF first] start_kernel_touches[of k ?s1 e] by simp
  show ?thesis
  proof (cases "ki_state i")
    case K_Starting
    with Some show ?thesis
      by (cases "ke_health e") (auto simp: ensure_running_def settings_def intro!: touches_refl runs_set_kernel)
  qed (use Some restart in \<open>simp_all add: ensure_running_def touches_same\<close>)
qed

lemma starting_request_touches: "touches k (keeps_settings (port_set s)) s (fst (starting_request e k s))"
  by (auto simp: starting_request_def intro: touches_same ensure_running_touches split: option.split)

lemma execute_begin_touches: "touches k (keeps_settings (port_set s)) s (fst (execute_begin e k src s))"
proof (cases "dict_get (km_kernels s) k")
  case None
  then show ?thesis by (simp add: execute_begin_def touches_same)
next
  case (Some i)
  obtain s1 r where first: "(if ki_state i = K_Idle \<or> ki_state i = K_Executing then (s, Inr ()) else ensure_running e k s) = (s1, r)"
    by (cases "if ki_state i = K_Idle \<or> ki_state i = K_Executing then (s, Inr ()) else ensure_running e k s") blast
  then have t1: "touches k (keeps_settings (port_set s)) s s1"
    using ensure_running_touches[of k s e] by (auto split: if_splits intro: touches_same)
  show ?thesis
  proof (cases r)
    case (Inl x)
    with Some first t1 show ?thesis by (simp add: execute_begin_def)
  next
    case (Inr u)
    obtain s2 f where src: "(case src of Some f \<Rightarrow> (s1, Some f) | None \<Rightarrow> get_scratch_flow_id e k s1) = (s2, f)" by fastforce
    then have "km_kernels s2 = km_kernels s1"
      using get_scratch_flow_id_frame(1)[of e k s1] by (cases "get_scratch_flow_id e k s1") (auto split: option.splits)
    then have "touches k (keeps_settings (port_set s)) s1 (set_kernel k (\<lambda>i. i\<lparr>ki_state := K_Executing\<rparr>) s2)"
      by (intro runs_set_kernel) (simp_all add: settings_def)
    from touches_runs_trans[OF t1 this] Some first Inr src show ?thesis by (simp add: execute_begin_def)
  qed
qed

lemma execute_finish_touches: "touches k (keeps_settings P) s (fst (execute_finish ce k s))"
  by (auto simp: execute_finish_def Let_def leave_execution_def fail_kernel_def settings_def intro!: runs_set_kernel)

lemma execute_touches: "touches k (keeps_settings (port_set s)) s (fst (execute_cell e ce k src s))"
proof (cases "execute_begin e k src s")
  case (Pair s1 r)
  have t1: "touches k (keeps_settings (port_set s)) s s1" using execute_begin_touches[of k s e src] Pair by simp
  show ?thesis
    using t1 touches_runs_trans[OF t1 execute_finish_touches[of k "port_set s" s1 ce]] Pair
    by (auto simp: execute_cell_def split: sum.split prod.splits)
qed

section \<open>Ports\<close>

definition ports_distinct :: "manager \<Rightarrow> bool" where
  "ports_distinct s \<longleftrightarrow> (\<forall>k j p. port_of s k = Some p \<longrightarrow> port_of s j = Some p \<longrightarrow> k = j)"

definition moves :: "int set \<Rightarrow> kernel_info \<Rightarrow> kernel_info \<Rightarrow> bool" where
  "moves P i i' \<longleftrightarrow> ki_port i' = ki_port i \<or> (\<exists>p. ki_port i' = Some p \<and> p \<notin> P)"

lemma runs_moves: "touches k (keeps_settings P) s s' \<Longrightarrow> touches k (moves P) s s'"
  by (erule touches_mono) (auto simp: keeps_settings_def moves_def)

lemma ports_distinct_touches:
  assumes "ports_distinct s" and t: "touches k (moves (port_set s)) s s'"
  shows "ports_distinct s'"
proof -
  have other: "port_of s' j = port_of s j" if "j \<noteq> k" for j using t that by (simp add: touches_def port_of_def)
  have self: "port_of s' k = port_of s k \<or> (\<exists>p. port_of s' k = Some p \<and> p \<notin> port_set s)"
    using t by (cases "dict_get (km_kernels s) k"; cases "dict_get (km_kernels s') k") (auto simp: touches_def port_of_def moves_def)
  have fresh: "port_of s' k \<noteq> port_of s' j" if "j \<noteq> k" "port_of s' j = Some p" for j p
  proof
    assume eq: "port_of s' k = port_of s' j"
    with that other have "p \<in> port_set s" "port_of s j = Some p" by (auto simp: port_set_def)
    with self eq that assms(1) show False unfolding ports_distinct_def by (metis option.inject)
  qed
  show ?thesis unfolding ports_distinct_def
  proof (intro allI impI)
    fix a b p assume "port_of s' a = Some p" "port_of s' b = Some p"
    with fresh[of a p] fresh[of b p] other assms(1) show "a = b"
      by (cases "a = k"; cases "b = k") (auto simp: ports_distinct_def)
  qed
qed

text \<open>Kernels that are added without a port, or with a fresh one, and kernels that are removed.\<close>

lemma port_of_add [simp]:
  "port_of (s\<lparr>km_kernels := dict_set k i (km_kernels s)\<rparr>) = (port_of s)(k := ki_port i)"
  by (simp add: port_of_def fun_eq_iff)

lemma port_of_pop [simp]: "port_of (s\<lparr>km_kernels := dict_pop k (km_kernels s)\<rparr>) = (port_of s)(k := None)"
  by (simp add: port_of_def fun_eq_iff)

lemma port_of_cong: "km_kernels s = km_kernels s' \<Longrightarrow> port_of s = port_of s'"
  by (simp add: port_of_def fun_eq_iff)

lemma ports_distinct_cong: "port_of s' = port_of s \<Longrightarrow> ports_distinct s' = ports_distinct s"
  by (simp add: ports_distinct_def)

lemma ports_distinct_fewer:
  assumes "ports_distinct s" and "\<And>k. port_of s' k = port_of s k \<or> port_of s' k = None"
  shows "ports_distinct s'"
  using assms unfolding ports_distinct_def by (metis option.distinct(1))

lemma ports_distinct_add:
  assumes "ports_distinct s" and "port_of s' = (port_of s)(k := p)" and "\<And>q. p = Some q \<Longrightarrow> q \<notin> port_set s"
  shows "ports_distinct s'"
  using assms by (auto simp: ports_distinct_def port_set_def)

lemma create_build_kernels:
  assumes "create_build e k i s = (s1, r)"
  shows "km_kernels s1 = km_kernels s \<and> (\<forall>i1. r = Inr i1 \<longrightarrow> ki_port i1 = ki_port i)"
  using assms build_derived_image_frame(1)[of e k i s]
  by (cases "build_derived_image e k i s") (auto simp: create_build_def split: if_splits sum.splits)

lemma create_finish_kernels:
  "km_kernels (fst (create_finish e k i u s)) =
     (if k \<in> dom (dict_get (km_kernels s)) then km_kernels s else dict_set k i (km_kernels s))"
  by (simp add: create_finish_def Let_def)

lemma create_kernel_ports:
  assumes "ports_distinct s"
  shows "ports_distinct (fst (create_kernel e c u s))"
proof (cases "create_begin e c s")
  case (Inl x)
  then show ?thesis using assms by (simp add: create_kernel_def)
next
  case (Inr i)
  then have fresh: "ki_port i = Some q \<Longrightarrow> q \<notin> port_set s" for q
    using allocate_port_fresh[of e s q] by (auto simp: create_begin_def new_kernel_def split: if_splits)
  obtain s1 r where b: "create_build e (kc_id c) i s = (s1, r)" by fastforce
  note kernels = create_build_kernels[OF b]
  show ?thesis
  proof (cases r)
    case (Inl x)
    then show ?thesis
      using assms Inr b kernels ports_distinct_cong[OF port_of_cong, of s1 s] by (simp add: create_kernel_def)
  next
    case Inr_r: (Inr i1)
    let ?s2 = "fst (create_finish e (kc_id c) i1 u s1)"
    have "port_of ?s2 = (if kc_id c \<in> dom (dict_get (km_kernels s)) then port_of s else (port_of s)(kc_id c := ki_port i1))"
      using create_finish_kernels[of e "kc_id c" i1 u s1] kernels by (auto simp: port_of_def fun_eq_iff)
    then have "ports_distinct ?s2"
      using assms ports_distinct_cong[of ?s2 s] ports_distinct_add[OF assms, of ?s2 "kc_id c" "ki_port i1"] fresh kernels Inr_r
      by (auto split: if_splits)
    then show ?thesis using Inr b Inr_r by (simp add: create_kernel_def)
  qed
qed

lemma delete_kernel_kernels:
  "dict_get (km_kernels (fst (delete_kernel e k s))) = (dict_get (km_kernels s))(k := None)"
  by (auto simp: delete_kernel_def stop_kernel_def Let_def fun_eq_iff split: option.splits)

lemma update_kernel_touches: "touches k (\<lambda>i i'. ki_port i' = ki_port i) s (fst (update_kernel e k ps s))"
proof (cases "dict_get (km_kernels s) k")
  case None
  then show ?thesis by (simp add: update_kernel_def touches_def)
next
  case (Some i)
  let ?R = "\<lambda>i i'. ki_port i' = ki_port i"
  have same: "touches k ?R s s" by (rule touches_same) (auto simp: reflp_def)
  let ?i = "i\<lparr>ki_packages := ps, ki_resolved := []\<rparr>"
  let ?s1 = "set_kernel k (\<lambda>j. j\<lparr>ki_packages := ps, ki_resolved := []\<rparr>) s"
  let ?s2 = "if ki_packages i \<noteq> [] then remove_derived_image e k ?s1 else ?s1"
  obtain s3 r where b: "build_derived_image e k ?i ?s2 = (s3, r)" by fastforce
  have s3: "km_kernels s3 = km_kernels ?s1" using build_derived_image_frame(1)[of e k ?i ?s2] b by (simp split: if_splits)
  show ?thesis
    using Some b s3
    by (cases r) (auto simp: update_kernel_def Let_def touches_def split: if_splits)
qed

lemma drop_kernel_ports: "port_of (drop_kernel k s) = (port_of s)(k := None)"
  by (simp add: drop_kernel_def port_of_def fun_eq_iff)

lemma reconcile_row_ports: "port_of (reconcile_row r s) = port_of s"
  by (cases r) (auto simp: reconcile_row_def refresh_config_def stopped_kernel_def port_of_def fun_eq_iff Let_def
      split: option.splits)

lemma reconcile_ports:
  assumes "ports_distinct s"
  shows "ports_distinct (reconcile_configs_from_db e owner s)"
proof -
  have drop: "ports_distinct (fold drop_kernel ks s)" for ks
    by (rule fold_invariant[where P = ports_distinct, OF assms], erule ports_distinct_fewer) (simp add: drop_kernel_ports)
  have "ports_distinct (fold reconcile_row rows t)" if "ports_distinct t" for rows t
    by (rule fold_invariant[where P = ports_distinct, OF that]) (simp add: ports_distinct_cong[OF reconcile_row_ports])
  with drop assms show ?thesis by (simp add: reconcile_configs_from_db_def)
qed

text \<open>
  Docker's side of a restart: containers that run are published on different ports of the host.
\<close>

definition host_ports :: "(string \<times> string \<times> int option) list \<Rightarrow> int list" where
  "host_ports cs = concat (map (\<lambda>(n, c, p). case p of None \<Rightarrow> [] | Some q \<Rightarrow> [q]) cs)"

definition containers_ok :: "kernel_env \<Rightarrow> bool" where
  "containers_ok e \<longleftrightarrow>
     (case ke_running e of None \<Rightarrow> True | Some cs \<Rightarrow> distinct (host_ports cs))"

lemma restore_scratch_kernels: "km_kernels (restore_scratch r s) = km_kernels s \<and> km_owners (restore_scratch r s) = km_owners s
    \<and> km_rows (restore_scratch r s) = km_rows s \<and> km_images (restore_scratch r s) = km_images s"
  by (cases r) (simp add: restore_scratch_def split: option.split)

lemma fold_restore_scratch: "km_kernels (fold restore_scratch rs s) = km_kernels s \<and> km_owners (fold restore_scratch rs s) = km_owners s
    \<and> km_rows (fold restore_scratch rs s) = km_rows s \<and> km_images (fold restore_scratch rs s) = km_images s"
  by (induction rs arbitrary: s) (simp_all add: restore_scratch_kernels)

lemma restore_row_ports: "\<forall>k. port_of s k = None \<Longrightarrow> port_of (restore_row r s) k = None"
  by (cases r) (auto simp: restore_row_def port_of_def stopped_kernel_def)

lemma fold_restore_row_ports:
  assumes "\<forall>k. port_of s k = None"
  shows "\<forall>k. port_of (fold restore_row rs s) k = None"
  by (rule fold_invariant[where P = "\<lambda>s. \<forall>k. port_of s k = None", OF assms]) (simp add: restore_row_ports)

text \<open>A port after a restart is that of a container with the name of its kernel.\<close>

lemma reclaim_ports:
  "port_of (reclaim e (n, c, p) s) k =
     (if n = container_prefix @ k \<and> k \<in> dom (dict_get (km_kernels s)) \<and> \<not> ke_volume e \<and> p \<noteq> None then p else port_of s k)"
proof (cases "startswith n container_prefix")
  case False
  then have "n \<noteq> container_prefix @ k" by (metis startswith_append)
  with False show ?thesis by (simp add: reclaim_def)
next
  case True
  then have n: "n = container_prefix @ drop (length container_prefix) n"
    unfolding startswith_def by (metis append_take_drop_id)
  let ?k = "drop (length container_prefix) n"
  have eq: "n = container_prefix @ k \<longleftrightarrow> k = ?k" using n by (metis same_append_eq)
  show ?thesis
  proof (cases "?k \<in> dom (dict_get (km_kernels s))")
    case False
    then have "port_of (reclaim e (n, c, p) s) k = port_of s k" using True by (simp add: reclaim_def port_of_def)
    with False eq show ?thesis by auto
  next
    case True
    with \<open>startswith n container_prefix\<close> eq show ?thesis by (auto simp: reclaim_def port_of_def)
  qed
qed

lemma fold_reclaim_ports:
  assumes "\<forall>k. port_of s k = None" and "port_of (fold (reclaim e) cs s) k = Some p"
  shows "\<exists>c. (container_prefix @ k, c, Some p) \<in> set cs"
proof -
  have "\<forall>k p. port_of (fold (reclaim e) cs s) k = Some p \<longrightarrow> (\<exists>c. (container_prefix @ k, c, Some p) \<in> set cs)"
  proof (rule fold_invariant[where P = "\<lambda>t. \<forall>k p. port_of t k = Some p \<longrightarrow> (\<exists>c. (container_prefix @ k, c, Some p) \<in> set cs)"])
    fix r t
    assume r: "r \<in> set cs" and t: "\<forall>k p. port_of t k = Some p \<longrightarrow> (\<exists>c. (container_prefix @ k, c, Some p) \<in> set cs)"
    obtain n c q where "r = (n, c, q)" by (cases r) auto
    with r t show "\<forall>k p. port_of (reclaim e r t) k = Some p \<longrightarrow> (\<exists>c. (container_prefix @ k, c, Some p) \<in> set cs)"
      by (auto simp: reclaim_ports split: if_splits)
  qed (use assms(1) in simp)
  with assms(2) show ?thesis by blast
qed

lemma ports_of_containers:
  "distinct (host_ports cs) \<Longrightarrow> (a, c, Some p) \<in> set cs \<Longrightarrow> (b, d, Some p) \<in> set cs \<Longrightarrow> a = b"
  by (induction cs) (fastforce simp: host_ports_def split: option.splits)+

lemma orphans_frame:
  "km_kernels (remove_orphan_derived_images e s) = km_kernels s \<and> km_owners (remove_orphan_derived_images e s) = km_owners s
    \<and> km_rows (remove_orphan_derived_images e s) = km_rows s"
proof -
  let ?P = "\<lambda>t. km_kernels t = km_kernels s \<and> km_owners t = km_owners s \<and> km_rows t = km_rows s"
  have "?P (fold (remove_orphan e L) rs s)" for L rs
    by (rule fold_invariant[where P = ?P]) (auto simp: remove_orphan_def split: prod.splits)
  then show ?thesis by (simp add: remove_orphan_derived_images_def)
qed

lemma start_core_ports:
  assumes "containers_ok e"
  shows "ports_distinct (start_core e s)"
proof -
  let ?s0 = "s\<lparr>km_kernels := [], km_owners := [], km_scratch := [], km_pulls := []\<rparr>"
  let ?s1 = "restore_kernels_from_db e ?s0"
  have "\<forall>k. port_of ?s0 k = None" by (simp add: port_of_def)
  then have none: "\<forall>k. port_of ?s1 k = None"
    using fold_restore_row_ports[of ?s0] fold_restore_scratch
    by (auto simp: restore_kernels_from_db_def port_of_def)
  have "ports_distinct (reclaim_running_containers e ?s1)"
  proof (cases "ke_running e")
    case None
    with none show ?thesis by (simp add: reclaim_running_containers_def ports_distinct_def)
  next
    case (Some cs)
    with assms have "distinct (host_ports cs)" by (simp add: containers_ok_def)
    note ports_of_containers[OF this]
    with Some none fold_reclaim_ports[of ?s1 e cs] show ?thesis
      unfolding ports_distinct_def reclaim_running_containers_def by (auto) (metis append_same_eq same_append_eq)
  qed
  then show ?thesis
    using ports_distinct_cong[OF port_of_cong] orphans_frame unfolding start_core_def by metis
qed

section \<open>Operations\<close>

datatype kernel_op =
    Op_Create kernel_config int
  | Op_Start string
  | Op_Stop string
  | Op_Update string "string list"
  | Op_Delete string
  | Op_Execute cell_env string "int option"
  | Op_Serve string
  | Op_Shutdown
  | Op_Reconcile "int option"
  | Op_Restart

definition kernel_step :: "kernel_env \<times> kernel_op \<Rightarrow> manager \<Rightarrow> manager" where
  "kernel_step a s =
     (case a of (e, op) \<Rightarrow>
        (case op of
           Op_Create c u \<Rightarrow> fst (create_kernel e c u s)
         | Op_Start k \<Rightarrow> fst (start_kernel e k s)
         | Op_Stop k \<Rightarrow> fst (stop_kernel k s)
         | Op_Update k ps \<Rightarrow> fst (update_kernel e k ps s)
         | Op_Delete k \<Rightarrow> fst (delete_kernel e k s)
         | Op_Execute ce k f \<Rightarrow> fst (execute_cell e ce k f s)
         | Op_Serve k \<Rightarrow> fst (starting_request e k s)
         | Op_Shutdown \<Rightarrow> shutdown_all s
         | Op_Reconcile u \<Rightarrow> reconcile_configs_from_db e u s
         | Op_Restart \<Rightarrow> start_core e s))"

definition kernel_run :: "(kernel_env \<times> kernel_op) list \<Rightarrow> manager \<Rightarrow> manager" where
  "kernel_run steps s = fold kernel_step steps s"

lemma shutdown_all_ports:
  assumes "ports_distinct s"
  shows "ports_distinct (shutdown_all s)"
  unfolding shutdown_all_def
  by (rule fold_invariant[where P = ports_distinct, OF assms]) (rule ports_distinct_touches[OF _ runs_moves[OF shut_down_touches]])

lemma kernel_step_ports:
  assumes "ports_distinct s" and "containers_ok e"
  shows "ports_distinct (kernel_step (e, op) s)"
proof (cases op)
  case (Op_Update k ps)
  have "touches k (moves (port_set s)) s (fst (update_kernel e k ps s))"
    by (rule touches_mono[OF update_kernel_touches]) (simp add: moves_def)
  from ports_distinct_touches[OF assms(1) this] Op_Update show ?thesis by (simp add: kernel_step_def)
next
  case (Op_Delete k)
  have "ports_distinct (fst (delete_kernel e k s))"
    by (rule ports_distinct_fewer[OF assms(1)]) (simp add: port_of_def delete_kernel_kernels)
  with Op_Delete show ?thesis by (simp add: kernel_step_def)
qed (use assms in \<open>simp_all add: kernel_step_def create_kernel_ports shutdown_all_ports reconcile_ports start_core_ports
  ports_distinct_touches[OF assms(1) runs_moves] start_kernel_touches
  ports_distinct_touches[OF assms(1) runs_moves[OF start_kernel_touches]]
  ports_distinct_touches[OF assms(1) runs_moves[OF stop_kernel_touches]]
  ports_distinct_touches[OF assms(1) runs_moves[OF execute_touches]]
  ports_distinct_touches[OF assms(1) runs_moves[OF starting_request_touches]]\<close>)

end
