(* ===== verification/Kernel_Sync.thy ===== *)
theory Kernel_Sync
  imports Kernel_Safety
begin

text \<open>
  The registry and the table of kernels agree while only this core changes them, so that a restart loses no kernel; and
  every derived image holds the packages of the kernel whose tag it has.
\<close>

section \<open>Agreement\<close>

definition kernel_view :: "kernel_info \<Rightarrow> int \<Rightarrow> _" where
  "kernel_view i u =
     (ki_name i, ki_packages i, ki_resolved i, ki_cpu i, ki_memory i, ki_gpu i, ki_flavour i, ki_custom i, u)"

definition row_view :: "kernel_row \<Rightarrow> _" where
  "row_view r =
     (kr_name r, kr_packages r, kr_resolved r, kr_cpu r, kr_memory r, kr_gpu r, flavour_of (kr_flavour r), kr_custom r,
      kr_user r)"

definition registry_view :: "manager \<Rightarrow> string \<Rightarrow> _" where
  "registry_view s k =
     (case dict_get (km_kernels s) k of
        None \<Rightarrow> None
      | Some i \<Rightarrow> map_option (kernel_view i) (dict_get (km_owners s) k))"

definition table_view :: "manager \<Rightarrow> string \<Rightarrow> _" where
  "table_view s k = map_option row_view (dict_get (km_rows s) k)"

definition in_sync :: "manager \<Rightarrow> bool" where
  "in_sync s \<longleftrightarrow>
     registry_view s = table_view s \<and> dom (dict_get (km_kernels s)) = dom (dict_get (km_owners s))"

text \<open>The services answer: the database commits, images can be removed, and builds succeed or fail as builds do.\<close>

definition steady :: "kernel_env \<Rightarrow> bool" where
  "steady e \<longleftrightarrow>
     ke_db e \<and> (\<forall>t. ke_rmi e t) \<and> (\<forall>b ps. ke_build e b ps \<noteq> Build_Broken) \<and> (\<forall>t. im_get (ke_store e) t \<noteq> Broken)"

text \<open>All operations but those that follow an import, which writes the table from outside.\<close>

definition own_op :: "kernel_op \<Rightarrow> bool" where
  "own_op op \<longleftrightarrow> (case op of Op_Reconcile u \<Rightarrow> False | _ \<Rightarrow> True)"

definition settings_of :: "manager \<Rightarrow> string \<Rightarrow> _" where
  "settings_of s k = map_option settings (dict_get (km_kernels s) k)"

lemma settings_of_touches: "touches k (keeps_settings P) s s' \<Longrightarrow> settings_of s' = settings_of s"
proof
  fix j assume t: "touches k (keeps_settings P) s s'"
  show "settings_of s' j = settings_of s j"
    using t by (cases "j = k"; cases "dict_get (km_kernels s) k"; cases "dict_get (km_kernels s') k")
      (auto simp: touches_def settings_of_def keeps_settings_def)
qed

lemma in_sync_settings:
  assumes "in_sync s" and k: "settings_of s' = settings_of s" and o: "km_owners s' = km_owners s" and r: "table_view s' = table_view s"
  shows "in_sync s'"
proof -
  have k': "map_option settings (dict_get (km_kernels s') j) = map_option settings (dict_get (km_kernels s) j)" for j
    using fun_cong[OF k, of j] by (simp add: settings_of_def)
  have view: "registry_view s' j = registry_view s j" for j
    using k'[of j] by (cases "dict_get (km_owners s) j"; cases "dict_get (km_kernels s) j"; cases "dict_get (km_kernels s') j")
      (auto simp: registry_view_def settings_def kernel_view_def o)
  have "dict_get (km_kernels s') j = None \<longleftrightarrow> dict_get (km_kernels s) j = None" for j
    using k'[of j] by (metis option.map_disc_iff)
  then have "dom (dict_get (km_kernels s')) = dom (dict_get (km_kernels s))" by (auto simp: dom_def)
  with assms(1) view o r show ?thesis by (simp add: in_sync_def fun_eq_iff)
qed

lemmas in_sync_runs = in_sync_settings[OF _ settings_of_touches]

lemma table_view_cong: "km_rows s' = km_rows s \<Longrightarrow> table_view s' = table_view s"
  by (simp add: table_view_def fun_eq_iff)

lemma provision_table [simp]: "table_view (provision_scratch_flow e k u s) = table_view s"
  by (auto simp: table_view_def provision_scratch_flow_def set_kernel_scratch_flow_id_def row_view_def Let_def fun_eq_iff
      split: option.splits)

lemma get_scratch_table: "table_view (fst (get_scratch_flow_id e k s)) = table_view s"
  by (simp add: get_scratch_flow_id_def Let_def split: option.split)

lemma launch_rows: "km_rows (fst (launch e k img s)) = km_rows s \<and> km_owners (fst (launch e k img s)) = km_owners s
    \<and> km_images (fst (launch e k img s)) = km_images s"
  by (auto simp: launch_def fail_kernel_def Let_def split: option.split)

lemma start_image_rows:
  "km_rows (fst (start_image e k i base s)) = km_rows s \<and> km_owners (fst (start_image e k i base s)) = km_owners s"
  using build_derived_image_frame[of e k i s]
  by (cases "build_derived_image e k i s") (auto simp: start_image_def fail_kernel_def split: sum.split)

lemma start_kernel_rows:
  "km_rows (fst (start_kernel e k s)) = km_rows s \<and> km_owners (fst (start_kernel e k s)) = km_owners s"
proof (cases "dict_get (km_kernels s) k")
  case (Some i)
  have "km_rows (fst (start_image e k i base s)) = km_rows s" "km_owners (fst (start_image e k i base s)) = km_owners s" for base
    using start_image_rows by auto
  with Some show ?thesis
    by (auto simp: start_kernel_def fail_kernel_def Let_def launch_rows
        split: option.split lookup.split sum.split prod.split)
      (metis fst_conv)+
qed (simp add: start_kernel_def)

lemma ensure_running_rows:
  "km_rows (fst (ensure_running e k s)) = km_rows s \<and> km_owners (fst (ensure_running e k s)) = km_owners s"
  by (auto simp: ensure_running_def start_kernel_rows split: option.split kernel_state.split)

lemma execute_begin_table:
  "table_view (fst (execute_begin e k src s)) = table_view s \<and> km_owners (fst (execute_begin e k src s)) = km_owners s"
proof (cases "dict_get (km_kernels s) k")
  case (Some i)
  obtain s1 r where first: "(if ki_state i = K_Idle \<or> ki_state i = K_Executing then (s, Inr ()) else ensure_running e k s) = (s1, r)"
    by (cases "if ki_state i = K_Idle \<or> ki_state i = K_Executing then (s, Inr ()) else ensure_running e k s") blast
  then have s1: "km_rows s1 = km_rows s" "km_owners s1 = km_owners s"
    using ensure_running_rows[of e k s] by (auto split: if_splits)
  obtain s2 f where src: "(case src of Some f \<Rightarrow> (s1, Some f) | None \<Rightarrow> get_scratch_flow_id e k s1) = (s2, f)" by fastforce
  then have "table_view s2 = table_view s1" "km_owners s2 = km_owners s1"
    using get_scratch_table[of e k s1] get_scratch_flow_id_frame(2)[of e k s1]
    by (cases "get_scratch_flow_id e k s1"; auto split: option.splits)+
  with s1 table_view_cong[OF s1(1)] Some first src show ?thesis
    by (cases r) (auto simp: execute_begin_def intro: table_view_cong[THEN trans])
qed (simp add: execute_begin_def)

lemma execute_finish_rows:
  "km_rows (fst (execute_finish ce k s)) = km_rows s \<and> km_owners (fst (execute_finish ce k s)) = km_owners s"
  by (simp add: execute_finish_def Let_def leave_execution_def fail_kernel_def)

lemma execute_table:
  "table_view (fst (execute_cell e ce k src s)) = table_view s \<and> km_owners (fst (execute_cell e ce k src s)) = km_owners s"
proof (cases "execute_begin e k src s")
  case (Pair s1 r)
  with execute_begin_table[of e k src s] have b: "table_view s1 = table_view s" "km_owners s1 = km_owners s" by simp_all
  show ?thesis
    using b execute_finish_rows[of ce k s1] table_view_cong[of "fst (execute_finish ce k s1)" s1] Pair
    by (cases r) (auto simp: execute_cell_def split: prod.splits)
qed

section \<open>Each operation keeps the agreement\<close>

lemma registry_view_cong:
  "dict_get (km_kernels s') = dict_get (km_kernels s) \<Longrightarrow> dict_get (km_owners s') = dict_get (km_owners s) \<Longrightarrow> registry_view s' = registry_view s"
  by (simp add: registry_view_def fun_eq_iff split: option.split)

lemma save_kernel_view:
  "map_option row_view (dict_get (save_kernel k i u rows) j) =
     (if j = k then Some (kernel_view i u) else map_option row_view (dict_get rows j))"
  by (simp add: save_kernel_def row_view_def kernel_view_def)

lemma in_sync_saved:
  assumes "in_sync s" and "dict_get (km_kernels s') = (dict_get (km_kernels s))(k \<mapsto> i)"
    and "dict_get (km_owners s') = (dict_get (km_owners s))(k \<mapsto> u)"
    and "table_view s' = (table_view s)(k \<mapsto> kernel_view i u)"
  shows "in_sync s'"
proof -
  have "registry_view s' = (registry_view s)(k \<mapsto> kernel_view i u)"
    using assms(2,3) by (auto simp: registry_view_def fun_eq_iff split: option.split)
  moreover have "dom (dict_get (km_kernels s')) = dom (dict_get (km_owners s'))"
    using assms(1) by (simp only: assms(2,3) dom_fun_upd in_sync_def) simp
  ultimately show ?thesis using assms by (simp add: in_sync_def)
qed

lemma create_build_rows:
  "create_build e k i s = (s1, r) \<Longrightarrow> km_rows s1 = km_rows s \<and> km_owners s1 = km_owners s \<and> km_kernels s1 = km_kernels s"
  using build_derived_image_frame[of e k i s]
  by (cases "build_derived_image e k i s") (auto simp: create_build_def split: if_splits sum.splits)

lemma create_kernel_sync:
  assumes "in_sync s" and "ke_db e"
  shows "in_sync (fst (create_kernel e c u s))"
proof (cases "create_begin e c s")
  case (Inr i)
  obtain s1 r where b: "create_build e (kc_id c) i s = (s1, r)" by fastforce
  note frame = create_build_rows[OF b]
  have s1: "in_sync s1"
    using assms(1) frame table_view_cong[of s1 s] registry_view_cong[of s1 s] by (simp add: in_sync_def)
  show ?thesis
  proof (cases r)
    case (Inl x)
    with Inr b s1 show ?thesis by (simp add: create_kernel_def)
  next
    case ok: (Inr i1)
    have "in_sync (fst (create_finish e (kc_id c) i1 u s1))"
    proof (cases "kc_id c \<in> set (dict_keys (km_kernels s1))")
      case True
      with s1 show ?thesis by (simp add: create_finish_def)
    next
      case False
      let ?s2 = "s1\<lparr>km_kernels := dict_set (kc_id c) i1 (km_kernels s1), km_owners := dict_set (kc_id c) u (km_owners s1)\<rparr>"
      have "table_view (persist_kernel e (kc_id c) i1 u ?s2) = (table_view s1)(kc_id c \<mapsto> kernel_view i1 u)"
        using assms(2) by (simp add: persist_kernel_def table_view_def save_kernel_view fun_eq_iff)
      with False show ?thesis
        by (intro in_sync_saved[OF s1, of _ "kc_id c" i1 u]) (auto simp: create_finish_def Let_def)
    qed
    with Inr b ok show ?thesis by (simp add: create_kernel_def)
  qed
qed (use assms in \<open>simp add: create_kernel_def\<close>)

lemma delete_kernel_sync:
  assumes "in_sync s" and "ke_db e"
  shows "in_sync (fst (delete_kernel e k s))"
proof (cases "dict_get (km_kernels s) k")
  case None
  with assms show ?thesis by (simp add: delete_kernel_def)
next
  case (Some i)
  let ?s = "fst (delete_kernel e k s)"
  have owners: "dict_get (km_owners ?s) = (dict_get (km_owners s))(k := None)"
    and rows: "dict_get (km_rows ?s) = (dict_get (km_rows s))(k := None)"
    using Some assms(2) by (auto simp: delete_kernel_def stop_kernel_def remove_kernel_from_db_def Let_def)
  have "registry_view ?s = (registry_view s)(k := None)"
    by (auto simp: registry_view_def delete_kernel_kernels owners fun_eq_iff split: option.split)
  moreover have "table_view ?s = (table_view s)(k := None)" by (simp add: table_view_def rows fun_eq_iff)
  moreover have "dom (dict_get (km_kernels ?s)) = dom (dict_get (km_owners ?s))"
    using assms(1) by (simp only: delete_kernel_kernels owners dom_fun_upd in_sync_def) simp
  ultimately show ?thesis using assms(1) by (simp add: in_sync_def)
qed

text \<open>An update that fails leaves the packages as they were; one that succeeds stores the new ones.\<close>

lemma update_kernel_outcome:
  assumes k: "dict_get (km_kernels s) k = Some i" and "update_kernel e k ps s = (s', r)" and "steady e"
  shows "km_owners s' = km_owners s \<and>
     (r \<noteq> Inr () \<or> ps = ki_packages i \<longrightarrow> dict_get (km_kernels s') = dict_get (km_kernels s) \<and> km_rows s' = km_rows s) \<and>
     (r = Inr () \<longrightarrow> ps \<noteq> ki_packages i \<longrightarrow>
        (\<exists>res. dict_get (km_kernels s') = (dict_get (km_kernels s))(k \<mapsto> i\<lparr>ki_packages := ps, ki_resolved := res\<rparr>) \<and>
           (\<forall>u. dict_get (km_owners s) k = Some u \<longrightarrow>
              km_rows s' = save_kernel k (i\<lparr>ki_packages := ps, ki_resolved := res\<rparr>) u (km_rows s))))"
proof -
  have db: "ke_db e" using assms(3) by (simp add: steady_def)
  let ?i = "i\<lparr>ki_packages := ps, ki_resolved := []\<rparr>"
  let ?s1 = "set_kernel k (\<lambda>j. j\<lparr>ki_packages := ps, ki_resolved := []\<rparr>) s"
  let ?s2 = "if ki_packages i \<noteq> [] then remove_derived_image e k ?s1 else ?s1"
  obtain s3 b where b: "build_derived_image e k ?i ?s2 = (s3, b)" by fastforce
  have s3: "km_kernels s3 = km_kernels ?s1" "km_owners s3 = km_owners s" "km_rows s3 = km_rows s"
    using build_derived_image_frame[of e k ?i ?s2] b by (simp_all split: if_splits)
  have c: "b = Inl x \<Longrightarrow> caught x" for x
    using b assms(3) by (auto simp: build_derived_image_def steady_def caught_def split: if_splits option.splits lookup.splits build_answer.splits)
  show ?thesis
  proof (cases "ki_state i \<in> {K_Idle, K_Executing, K_Starting} \<or> \<not> validate_packages ps \<or> ps = ki_packages i")
    case True
    with assms(2) k show ?thesis by (auto simp: update_kernel_def split: if_splits)
  next
    case False
    note guards = this
    show ?thesis
    proof (cases "ps = []")
      case True
      with guards assms(2) k db show ?thesis
        by (auto simp: update_kernel_def Let_def persist_owned_def persist_kernel_def split: option.split intro: exI[of _ "[]"])
    next
      case False
      show ?thesis
      proof (cases b)
        case (Inl x)
        with c[OF Inl] guards False assms(2) k b s3 show ?thesis
          by (auto simp: update_kernel_def Let_def fun_eq_iff)
      next
        case (Inr t)
        with guards False assms(2) k b s3 db show ?thesis
          by (auto simp: update_kernel_def Let_def persist_owned_def persist_kernel_def fun_eq_iff split: option.split)
      qed
    qed
  qed
qed

lemma update_kernel_sync:
  assumes s: "in_sync s" and "steady e"
  shows "in_sync (fst (update_kernel e k ps s))"
proof (cases "dict_get (km_kernels s) k")
  case None
  with s show ?thesis by (simp add: update_kernel_def)
next
  case (Some i)
  obtain s' r where u: "update_kernel e k ps s = (s', r)" by fastforce
  note out = update_kernel_outcome[OF Some u assms(2)]
  show ?thesis
  proof (cases "r \<noteq> Inr () \<or> ps = ki_packages i")
    case True
    with out have "dict_get (km_kernels s') = dict_get (km_kernels s)" "km_rows s' = km_rows s" "km_owners s' = km_owners s" by auto
    with s u registry_view_cong[of s' s] table_view_cong[of s' s] show ?thesis by (simp add: in_sync_def)
  next
    case False
    with out obtain res where res: "dict_get (km_kernels s') = (dict_get (km_kernels s))(k \<mapsto> i\<lparr>ki_packages := ps, ki_resolved := res\<rparr>)"
      "\<forall>u. dict_get (km_owners s) k = Some u \<longrightarrow> km_rows s' = save_kernel k (i\<lparr>ki_packages := ps, ki_resolved := res\<rparr>) u (km_rows s)"
      "km_owners s' = km_owners s" by blast
    from s Some obtain u where o: "dict_get (km_owners s) k = Some u" by (force simp: in_sync_def)
    have "in_sync s'"
      by (rule in_sync_saved[OF s res(1)]) (use o res in \<open>auto simp: table_view_def save_kernel_view fun_eq_iff\<close>)
    with u show ?thesis by simp
  qed
qed

text \<open>A restart loads what the table holds.\<close>

lemma get_all_kernels_Cons:
  "get_all_kernels ((j, r) # rows) = (row_to_config j r, kr_resolved r, kr_user r) # get_all_kernels rows"
  by (simp add: get_all_kernels_def)

lemma restore_row_at:
  "dict_get (km_kernels (restore_row (row_to_config j r, res, u) s)) k =
     (if k = j \<and> dict_get (km_kernels s) j = None then Some (stopped_kernel (row_to_config j r) res) else dict_get (km_kernels s) k)"
  "dict_get (km_owners (restore_row (row_to_config j r, res, u) s)) k =
     (if k = j \<and> dict_get (km_kernels s) j = None then Some u else dict_get (km_owners s) k)"
  by (auto simp: restore_row_def row_to_config_def)

lemma fold_restore_row:
  "dict_get (km_kernels (fold restore_row (get_all_kernels rows) s)) k =
     (case dict_get (km_kernels s) k of
        Some i \<Rightarrow> Some i
      | None \<Rightarrow> map_option (\<lambda>r. stopped_kernel (row_to_config k r) (kr_resolved r)) (dict_get rows k))"
proof (induction rows arbitrary: s)
  case (Cons r rows)
  then show ?case by (cases r) (simp add: get_all_kernels_Cons restore_row_at split: option.split)
qed (simp add: get_all_kernels_def split: option.split)

lemma fold_restore_row_owners:
  assumes "\<And>k. dict_get (km_kernels s) k = None \<longleftrightarrow> dict_get (km_owners s) k = None"
  shows "dict_get (km_owners (fold restore_row (get_all_kernels rows) s)) k =
     (case dict_get (km_owners s) k of Some u \<Rightarrow> Some u | None \<Rightarrow> map_option kr_user (dict_get rows k))"
  using assms
proof (induction rows arbitrary: s)
  case (Cons r rows)
  obtain j x where r: "r = (j, x)" by (cases r)
  let ?s = "restore_row (row_to_config j x, kr_resolved x, kr_user x) s"
  have "dict_get (km_kernels ?s) k = None \<longleftrightarrow> dict_get (km_owners ?s) k = None" for k
    using Cons.prems[of k] by (simp add: restore_row_at)
  from Cons.IH[OF this] Cons.prems show ?case
    by (simp add: r get_all_kernels_Cons restore_row_at split: option.split)
qed (simp add: get_all_kernels_def split: option.split)

lemma fold_restore_row_frame:
  "km_rows (fold restore_row rs s) = km_rows s \<and> km_images (fold restore_row rs s) = km_images s"
  by (rule fold_invariant[where P = "\<lambda>t. km_rows t = km_rows s \<and> km_images t = km_images s"])
    (auto simp: restore_row_def split: prod.splits)

definition fresh_core :: "manager \<Rightarrow> manager" where
  "fresh_core s = s\<lparr>km_kernels := [], km_owners := [], km_scratch := [], km_pulls := []\<rparr>"

lemma restored:
  assumes "ke_db e"
  shows "dict_get (km_kernels (restore_kernels_from_db e (fresh_core s))) k =
      map_option (\<lambda>r. stopped_kernel (row_to_config k r) (kr_resolved r)) (dict_get (km_rows s) k)"
    and "dict_get (km_owners (restore_kernels_from_db e (fresh_core s))) k = map_option kr_user (dict_get (km_rows s) k)"
    and "km_rows (restore_kernels_from_db e (fresh_core s)) = km_rows s"
    and "km_images (restore_kernels_from_db e (fresh_core s)) = km_images s"
  using assms fold_restore_row[where rows = "km_rows s" and s = "fresh_core s" and k = k]
    fold_restore_row_owners[where rows = "km_rows s" and s = "fresh_core s" and k = k] fold_restore_row_frame[of "get_all_kernels (km_rows s)" "fresh_core s"]
  by (simp_all add: restore_kernels_from_db_def fold_restore_scratch fresh_core_def)

lemma settings_of_set_kernel: "(\<And>i. settings (f i) = settings i) \<Longrightarrow> settings_of (set_kernel k f s) = settings_of s"
  by (cases "dict_get (km_kernels s) k") (auto simp: settings_of_def fun_eq_iff)

lemma settings_of_docker: "settings_of (docker c s) = settings_of s"
  by (simp add: settings_of_def fun_eq_iff)

lemma reclaim_frame:
  "settings_of (reclaim e r s) = settings_of s \<and> km_owners (reclaim e r s) = km_owners s
    \<and> km_rows (reclaim e r s) = km_rows s \<and> km_images (reclaim e r s) = km_images s"
  by (cases r) (simp add: reclaim_def Let_def settings_of_docker settings_of_set_kernel settings_def)

lemma start_core_frame:
  assumes "ke_db e"
  shows "settings_of (start_core e s) k =
      map_option (\<lambda>r. settings (stopped_kernel (row_to_config k r) (kr_resolved r))) (dict_get (km_rows s) k)"
    and "dict_get (km_owners (start_core e s)) k = map_option kr_user (dict_get (km_rows s) k)"
    and "km_rows (start_core e s) = km_rows s"
proof -
  let ?t = "restore_kernels_from_db e (fresh_core s)"
  let ?P = "\<lambda>u. settings_of u = settings_of ?t \<and> km_owners u = km_owners ?t \<and> km_rows u = km_rows ?t"
  have "?P (fold (reclaim e) cs ?t)" for cs
    by (rule fold_invariant[where P = ?P]) (simp_all add: reclaim_frame)
  then have "?P (reclaim_running_containers e ?t)" by (simp add: reclaim_running_containers_def split: option.split)
  then have "?P (start_core e s)"
    using orphans_frame[of e "reclaim_running_containers e ?t"]
    by (simp add: start_core_def fresh_core_def settings_of_def fun_eq_iff)
  then show "settings_of (start_core e s) k =
      map_option (\<lambda>r. settings (stopped_kernel (row_to_config k r) (kr_resolved r))) (dict_get (km_rows s) k)"
    and "dict_get (km_owners (start_core e s)) k = map_option kr_user (dict_get (km_rows s) k)"
    and "km_rows (start_core e s) = km_rows s"
    using restored(1,2)[OF assms, of s k] restored(3)[OF assms, of s] by (simp_all add: settings_of_def option.map_comp comp_def)
qed

lemma start_core_sync:
  assumes "ke_db e"
  shows "in_sync (start_core e s)"
proof -
  have view: "registry_view (start_core e s) k = table_view (start_core e s) k" for k
  proof (cases "dict_get (km_rows s) k")
    case None
    with start_core_frame(1,2)[OF assms, of s k] start_core_frame(3)[OF assms, of s]
    show ?thesis by (simp add: registry_view_def table_view_def settings_of_def)
  next
    case (Some r)
    with start_core_frame(1,2)[OF assms, of s k] obtain i where
      "dict_get (km_kernels (start_core e s)) k = Some i" "settings i = settings (stopped_kernel (row_to_config k r) (kr_resolved r))"
      "dict_get (km_owners (start_core e s)) k = Some (kr_user r)"
      by (auto simp: settings_of_def)
    with Some show ?thesis
      by (simp add: registry_view_def table_view_def start_core_frame(3)[OF assms] kernel_view_def row_view_def settings_def
          stopped_kernel_def row_to_config_def)
  qed
  have "dict_get (km_kernels (start_core e s)) k = None \<longleftrightarrow> dict_get (km_owners (start_core e s)) k = None" for k
    using start_core_frame(1,2)[OF assms, of s k] by (cases "dict_get (km_rows s) k") (auto simp: settings_of_def)
  with view show ?thesis by (auto simp: in_sync_def fun_eq_iff dom_def)
qed

section \<open>Operations that change only how a kernel runs\<close>

text \<open>
  The contract of the operations that start, use and stop the container of one kernel. The registry may rely on it,
  whatever they ask of Docker.
\<close>

locale runtime_operation =
  fixes act :: "manager \<Rightarrow> manager" and k :: string
  assumes only_runtime: "touches k (keeps_settings (port_set s)) s (act s)"
    and same_table: "table_view (act s) = table_view s"
    and same_owners: "km_owners (act s) = km_owners s"
begin

lemma same_settings: "settings_of (act s) = settings_of s"
  by (rule settings_of_touches[OF only_runtime])

lemma sync: "in_sync s \<Longrightarrow> in_sync (act s)"
  by (rule in_sync_settings[OF _ same_settings same_owners same_table])

lemma ports: "ports_distinct s \<Longrightarrow> ports_distinct (act s)"
  by (rule ports_distinct_touches[OF _ runs_moves[OF only_runtime]])

lemma others: "j \<noteq> k \<Longrightarrow> dict_get (km_kernels (act s)) j = dict_get (km_kernels s) j"
  using only_runtime[of s] by (simp add: touches_def)

end

interpretation starting: runtime_operation "\<lambda>s. fst (start_kernel e k s)" k for e k
  by unfold_locales (simp_all add: start_kernel_touches start_kernel_rows table_view_def fun_eq_iff)

interpretation serving: runtime_operation "\<lambda>s. fst (starting_request e k s)" k for e k
proof
  fix s
  have "km_rows (fst (starting_request e k s)) = km_rows s \<and> km_owners (fst (starting_request e k s)) = km_owners s"
    by (simp add: starting_request_def ensure_running_rows split: option.split)
  then show "table_view (fst (starting_request e k s)) = table_view s" "km_owners (fst (starting_request e k s)) = km_owners s"
    by (simp_all add: table_view_def fun_eq_iff)
qed (rule starting_request_touches)

interpretation executing: runtime_operation "\<lambda>s. fst (execute_cell e ce k f s)" k for e ce k f
  by unfold_locales (simp_all add: execute_touches execute_table)

interpretation stopping: runtime_operation "\<lambda>s. fst (stop_kernel k s)" k for k
  by unfold_locales (simp_all add: stop_kernel_touches, auto simp: stop_kernel_def table_view_def fun_eq_iff split: option.split)

interpretation shutting: runtime_operation "shut_down k" k for k
  by unfold_locales (simp_all add: shut_down_touches, auto simp: shut_down_def table_view_def fun_eq_iff split: option.split)

lemma shutdown_all_sync: "in_sync s \<Longrightarrow> in_sync (shutdown_all s)"
  unfolding shutdown_all_def by (rule fold_invariant[where P = in_sync]) (assumption | rule shutting.sync)+

lemma kernel_step_sync:
  assumes "in_sync s" and "steady e" and "own_op op"
  shows "in_sync (kernel_step (e, op) s)"
proof -
  have db: "ke_db e" using assms(2) by (simp add: steady_def)
  show ?thesis
    using assms(3)
    by (cases op) (simp_all add: kernel_step_def own_op_def assms(1) starting.sync serving.sync executing.sync stopping.sync shutdown_all_sync
        create_kernel_sync[OF assms(1) db] delete_kernel_sync[OF assms(1) db] update_kernel_sync[OF assms(1,2)] start_core_sync[OF db])
qed

definition own_run :: "(kernel_env \<times> kernel_op) list \<Rightarrow> bool" where
  "own_run steps \<longleftrightarrow> list_all (\<lambda>(e, op). steady e \<and> own_op op) steps"

lemma kernel_run_sync: "in_sync s \<Longrightarrow> own_run steps \<Longrightarrow> in_sync (kernel_run steps s)"
  unfolding kernel_run_def
  by (rule fold_invariant[where P = in_sync]) (auto simp: own_run_def list_all_iff kernel_step_sync)

end
