(* ===== verification/Kernel_Packages.thy ===== *)
theory Kernel_Packages
  imports Kernel_Sync
begin

text \<open>
  Derived images: while only this core changes kernels, and no two ids have the same tag, an image with the tag of a
  kernel was built from the packages that the kernel has, so that a start never reuses a stale one.
\<close>

lemma derived_image_tag_eq: "derived_image_tag k = derived_image_tag j \<longleftrightarrow> safe_id k = safe_id j"
  by (simp add: derived_image_tag_def)

definition images_match :: "manager \<Rightarrow> bool" where
  "images_match s \<longleftrightarrow>
     (\<forall>t d. dict_get (km_images s) t = Some d \<longrightarrow>
        (\<exists>k i. dict_get (km_kernels s) k = Some i \<and> t = derived_image_tag k \<and> di_label d = safe_id k
           \<and> di_packages d = ki_packages i \<and> ki_packages i \<noteq> []))"

lemma images_matchD:
  assumes "images_match s" and "dict_get (km_images s) t = Some d"
  obtains k i where "dict_get (km_kernels s) k = Some i" "t = derived_image_tag k" "di_label d = safe_id k"
    "di_packages d = ki_packages i" "ki_packages i \<noteq> []"
  using assms unfolding images_match_def by blast

text \<open>The image of a kernel itself.\<close>

lemma own_image:
  assumes "images_match s" and "inj_on safe_id K" and "dom (dict_get (km_kernels s)) \<subseteq> K" and "k \<in> K"
    and "dict_get (km_images s) (derived_image_tag k) = Some d"
  shows "\<exists>i. dict_get (km_kernels s) k = Some i \<and> di_packages d = ki_packages i \<and> ki_packages i \<noteq> []"
proof -
  obtain j i where j: "dict_get (km_kernels s) j = Some i" "derived_image_tag k = derived_image_tag j"
    "di_packages d = ki_packages i" "ki_packages i \<noteq> []"
    using images_matchD[OF assms(1,5)] by metis
  then have "j \<in> K" using assms(3) by auto
  with j(2) assms(2,4) have "j = k" by (simp add: derived_image_tag_eq inj_on_def)
  with j show ?thesis by blast
qed

section \<open>Building\<close>

lemma build_derived_image_images:
  assumes "build_derived_image e k i s = (s1, r)"
  shows "dict_get (km_images s1) = dict_get (km_images s) \<or>
     (\<exists>base. derived_image_tag k \<notin> dom (dict_get (km_images s)) \<and>
        dict_get (km_images s1) = (dict_get (km_images s))(derived_image_tag k \<mapsto>
          \<lparr>di_label = safe_id k, di_base = base, di_packages = ki_packages i\<rparr>))"
    and "r = Inr t \<Longrightarrow> t = derived_image_tag k \<and> t \<in> dom (dict_get (km_images s1))"
  using assms by (auto simp: build_derived_image_def split: if_splits option.splits lookup.splits build_answer.splits)

text \<open>An operation on the kernel \<open>k\<close> changes no image but that of the kernel, which it builds from its packages.\<close>

definition builds :: "string \<Rightarrow> manager \<Rightarrow> manager \<Rightarrow> bool" where
  "builds k s s' \<longleftrightarrow>
     dict_get (km_images s') = dict_get (km_images s) \<or>
     (\<exists>i base. dict_get (km_kernels s) k = Some i \<and> ki_packages i \<noteq> [] \<and>
        dict_get (km_images s') = (dict_get (km_images s))(derived_image_tag k \<mapsto>
          \<lparr>di_label = safe_id k, di_base = base, di_packages = ki_packages i\<rparr>))"

lemma builds_same: "km_images s' = km_images s \<Longrightarrow> builds k s s'"
  by (simp add: builds_def)

lemma settings_of_packages:
  "settings_of s' = settings_of s \<Longrightarrow> dict_get (km_kernels s) k = Some i \<Longrightarrow>
     \<exists>i'. dict_get (km_kernels s') k = Some i' \<and> ki_packages i' = ki_packages i"
  by (drule fun_cong[of _ _ k]) (auto simp: settings_of_def settings_def)

lemma settings_of_dom: "settings_of s' = settings_of s \<Longrightarrow> dom (dict_get (km_kernels s')) = dom (dict_get (km_kernels s))"
  unfolding dom_def by (metis option.map_disc_iff settings_of_def)

lemma images_match_builds:
  assumes "images_match s" and b: "builds k s s'" and "settings_of s' = settings_of s"
  shows "images_match s'"
  unfolding images_match_def
proof (intro allI impI)
  fix t d assume d: "dict_get (km_images s') t = Some d"
  let ?goal = "\<exists>k i. dict_get (km_kernels s') k = Some i \<and> t = derived_image_tag k \<and> di_label d = safe_id k
           \<and> di_packages d = ki_packages i \<and> ki_packages i \<noteq> []"
  show ?goal
  proof (cases "dict_get (km_images s) t = Some d")
    case True
    then obtain j i where "dict_get (km_kernels s) j = Some i" "t = derived_image_tag j" "di_label d = safe_id j"
      "di_packages d = ki_packages i" "ki_packages i \<noteq> []"
      using images_matchD[OF assms(1)] by blast
    with settings_of_packages[OF assms(3)] show ?goal by metis
  next
    case False
    with b d obtain i base where "dict_get (km_kernels s) k = Some i" "ki_packages i \<noteq> []" "t = derived_image_tag k"
      "d = \<lparr>di_label = safe_id k, di_base = base, di_packages = ki_packages i\<rparr>"
      unfolding builds_def by (auto split: if_splits)
    with settings_of_packages[OF assms(3), of k i] obtain i' where "dict_get (km_kernels s') k = Some i'" "ki_packages i' = ki_packages i"
      "ki_packages i' \<noteq> []" "t = derived_image_tag k" "di_label d = safe_id k" "di_packages d = ki_packages i'" by auto
    then show ?goal by blast
  qed
qed

lemma builds_trans:
  assumes "builds k s1 s2" and "km_images s1 = km_images s" and "settings_of s1 = settings_of s" and "km_images s' = km_images s2"
  shows "builds k s s'"
proof -
  have "\<exists>j. dict_get (km_kernels s) k = Some j \<and> ki_packages j = ki_packages i" if "dict_get (km_kernels s1) k = Some i" for i
    using settings_of_packages[OF assms(3)[symmetric] that] .
  with assms(1,2,4) show ?thesis unfolding builds_def by metis
qed

lemma start_image_builds:
  assumes "start_image e k i base s = (s1, r)" and "dict_get (km_kernels s) k = Some i"
  shows "builds k s s1"
    and "r = Inr img \<Longrightarrow> ki_packages i \<noteq> [] \<Longrightarrow> img = derived_image_tag k \<and> img \<in> dom (dict_get (km_images s1))"
proof -
  obtain s2 b where b: "build_derived_image e k i s = (s2, b)" by fastforce
  have images: "km_images (fail_kernel k x u) = km_images u" for x u by (simp add: fail_kernel_def)
  show "builds k s s1"
  proof (cases "ki_packages i = []")
    case True
    with assms show ?thesis by (simp add: start_image_def builds_same)
  next
    case False
    with assms b images have "km_images s1 = km_images s2" by (auto simp: start_image_def split: sum.splits if_splits)
    with build_derived_image_images(1)[OF b] assms(2) False show ?thesis by (auto simp: builds_def)
  qed
  assume "r = Inr img" "ki_packages i \<noteq> []"
  with assms b build_derived_image_images(2)[OF b, of img] show "img = derived_image_tag k \<and> img \<in> dom (dict_get (km_images s1))"
    by (auto simp: start_image_def split: sum.splits)
qed

text \<open>A start that launches a container leaves the image it used.\<close>

lemma launch_images: "km_images (fst (launch e k img s)) = km_images s"
  using launch_rows by blast

lemma launch_image_of:
  assumes "dict_get (km_kernels s) k = Some j"
  shows "map_option ki_image (dict_get (km_kernels (fst (launch e k img s))) k) = Some (ki_image j)"
  using assms by (auto simp: launch_def fail_kernel_def Let_def split: option.split)

lemma start_kernel_cases:
  assumes "dict_get (km_kernels s) k = Some i"
  shows "(builds k s (fst (start_kernel e k s)) \<and> settings_of (fst (start_kernel e k s)) = settings_of s) \<and>
     (snd (start_kernel e k s) = Inr () \<longrightarrow> ki_state i \<noteq> K_Idle \<longrightarrow> ki_packages i \<noteq> [] \<longrightarrow>
        map_option ki_image (dict_get (km_kernels (fst (start_kernel e k s))) k) = Some (Some (derived_image_tag k)) \<and>
        derived_image_tag k \<in> dom (dict_get (km_images (fst (start_kernel e k s)))))"
proof -
  have settings: "settings_of (fst (start_kernel e k s)) = settings_of s" by (rule settings_of_touches[OF start_kernel_touches])
  show ?thesis
  proof (cases "ki_state i \<noteq> K_Idle \<and> (\<exists>base. kernel_image e i = Some base \<and> im_get (ke_store e) base = Present)")
    case False
    with assms settings show ?thesis
      by (auto simp: start_kernel_def fail_kernel_def intro!: builds_same split: option.split lookup.split)
  next
    case True
    then obtain base where base: "ki_state i \<noteq> K_Idle" "kernel_image e i = Some base" "im_get (ke_store e) base = Present" by blast
    obtain s1 r where si: "start_image e k i base s = (s1, r)" by fastforce
    note b = start_image_builds[OF si assms]
    show ?thesis
    proof (cases r)
      case (Inl x)
      with assms base si b settings show ?thesis by (simp add: start_kernel_def)
    next
      case (Inr img)
      let ?s2 = "set_kernel k (\<lambda>i. i\<lparr>ki_image := Some img\<rparr>) s1"
      have k1: "dict_get (km_kernels s1) k = Some i" using start_image_ok si Inr assms by metis
      have images: "km_images (fst (start_kernel e k s)) = km_images s1"
        using assms base si Inr by (auto simp: start_kernel_def Let_def launch_images split: option.split)
      have "snd (start_kernel e k s) = Inr () \<Longrightarrow>
          map_option ki_image (dict_get (km_kernels (fst (start_kernel e k s))) k) = Some (Some img)"
      proof (cases "ki_port i = None \<and> \<not> ke_volume e")
        case True
        assume ok: "snd (start_kernel e k s) = Inr ()"
        show ?thesis
        proof (cases "allocate_port e ?s2")
          case None
          with True ok assms base si Inr show ?thesis by (simp add: start_kernel_def Let_def)
        next
          case (Some p)
          let ?s3 = "set_kernel k (\<lambda>i. i\<lparr>ki_port := Some p\<rparr>) ?s2"
          have "fst (start_kernel e k s) = fst (launch e k img ?s3)"
            using Some True assms base si Inr by (simp add: start_kernel_def Let_def)
          then show ?thesis using launch_image_of[of ?s3 k "i\<lparr>ki_image := Some img, ki_port := Some p\<rparr>" e img] k1 by simp
        qed
      next
        case False
        then have "fst (start_kernel e k s) = fst (launch e k img ?s2)"
          using assms base si Inr by (auto simp: start_kernel_def Let_def)
        then show ?thesis using launch_image_of[of ?s2 k "i\<lparr>ki_image := Some img\<rparr>" e img] k1 by simp
      qed
      with b images settings Inr show ?thesis using builds_trans[OF b(1) refl refl images] by auto
    qed
  qed
qed

lemma start_kernel_builds: "builds k s (fst (start_kernel e k s))"
  by (cases "dict_get (km_kernels s) k") (use start_kernel_cases in \<open>auto simp: start_kernel_def builds_same\<close>)

lemma ensure_running_builds: "builds k s (fst (ensure_running e k s))"
proof (cases "dict_get (km_kernels s) k")
  case None
  then show ?thesis by (simp add: ensure_running_def builds_same)
next
  case (Some i)
  let ?s1 = "set_kernel k (\<lambda>i. i\<lparr>ki_container := None\<rparr>) (cleanup_container k s)"
  have "settings_of ?s1 = settings_of (cleanup_container k s)" by (rule settings_of_set_kernel) (simp add: settings_def)
  then have "settings_of ?s1 = settings_of s" by (simp add: settings_of_def fun_eq_iff)
  then have "builds k s (fst (start_kernel e k ?s1))" by (intro builds_trans[OF start_kernel_builds]) simp_all
  with Some show ?thesis by (auto simp: ensure_running_def intro!: builds_same split: kernel_state.split option.split)
qed

lemma starting_request_builds: "builds k s (fst (starting_request e k s))"
  by (auto simp: starting_request_def intro: builds_same ensure_running_builds split: option.split)

lemma execute_builds: "builds k s (fst (execute_cell e ce k src s))"
proof (cases "dict_get (km_kernels s) k")
  case None
  then show ?thesis by (simp add: execute_cell_def execute_begin_def builds_same)
next
  case (Some i)
  obtain s1 r where first: "(if ki_state i = K_Idle \<or> ki_state i = K_Executing then (s, Inr ()) else ensure_running e k s) = (s1, r)"
    by (cases "if ki_state i = K_Idle \<or> ki_state i = K_Executing then (s, Inr ()) else ensure_running e k s") blast
  then have b: "builds k s s1" using ensure_running_builds[of k s e] by (auto split: if_splits intro: builds_same)
  have started: "km_images (fst (execute_begin e k src s)) = km_images s1"
  proof (cases r)
    case (Inl x)
    with Some first show ?thesis by (simp add: execute_begin_def)
  next
    case (Inr u)
    obtain s2 f where src: "(case src of Some f \<Rightarrow> (s1, Some f) | None \<Rightarrow> get_scratch_flow_id e k s1) = (s2, f)" by fastforce
    then have "km_images s2 = km_images s1"
      using get_scratch_flow_id_frame(3)[of e k s1] by (cases "get_scratch_flow_id e k s1") (auto split: option.splits)
    with Some first Inr src show ?thesis by (simp add: execute_begin_def)
  qed
  have "km_images (fst (execute_finish ce k t)) = km_images t" for t
    by (simp add: execute_finish_def Let_def leave_execution_def fail_kernel_def)
  with started have "km_images (fst (execute_cell e ce k src s)) = km_images s1"
    by (auto simp: execute_cell_def split: prod.split sum.split) (metis fst_conv)+
  then show ?thesis by (intro builds_trans[OF b]) simp_all
qed

section \<open>Each operation\<close>

text \<open>What an operation does to the image of one kernel, while it leaves every other kernel and image alone.\<close>

lemma images_match_at:
  assumes "images_match s" and "inj_on safe_id K" and "dom (dict_get (km_kernels s)) \<subseteq> K" and "k \<in> K"
    and kernels: "\<And>j. j \<noteq> k \<Longrightarrow> dict_get (km_kernels s') j = dict_get (km_kernels s) j"
    and images: "\<And>t. t \<noteq> derived_image_tag k \<Longrightarrow> dict_get (km_images s') t = dict_get (km_images s) t"
    and own: "\<And>d. dict_get (km_images s') (derived_image_tag k) = Some d \<Longrightarrow>
        di_label d = safe_id k \<and> di_packages d \<noteq> [] \<and> map_option ki_packages (dict_get (km_kernels s') k) = Some (di_packages d)"
  shows "images_match s'"
  unfolding images_match_def
proof (intro allI impI)
  fix t d assume d: "dict_get (km_images s') t = Some d"
  show "\<exists>k i. dict_get (km_kernels s') k = Some i \<and> t = derived_image_tag k \<and> di_label d = safe_id k
           \<and> di_packages d = ki_packages i \<and> ki_packages i \<noteq> []"
  proof (cases "t = derived_image_tag k")
    case True
    with own[of d] d obtain i where "dict_get (km_kernels s') k = Some i" "di_label d = safe_id k" "di_packages d = ki_packages i" "ki_packages i \<noteq> []"
      by auto
    with True show ?thesis by blast
  next
    case False
    with d images have "dict_get (km_images s) t = Some d" by simp
    from images_matchD[OF assms(1) this] obtain j i where j: "dict_get (km_kernels s) j = Some i" "t = derived_image_tag j"
      "di_label d = safe_id j" "di_packages d = ki_packages i" "ki_packages i \<noteq> []" .
    with False have "j \<noteq> k" by blast
    with kernels j show ?thesis by metis
  qed
qed

lemma create_kernel_images:
  assumes m: "images_match s" and "inj_on safe_id K" and "dom (dict_get (km_kernels s)) \<subseteq> K" and "kc_id c \<in> K"
  shows "images_match (fst (create_kernel e c u s))"
proof (cases "create_begin e c s")
  case (Inl x)
  with m show ?thesis by (simp add: create_kernel_def)
next
  case (Inr i)
  then have new: "dict_get (km_kernels s) (kc_id c) = None" by (auto simp: create_begin_def split: if_splits)
  have none: "dict_get (km_images s) (derived_image_tag (kc_id c)) = None"
    using own_image[OF assms(1-4)] new by (cases "dict_get (km_images s) (derived_image_tag (kc_id c))") auto
  obtain s1 b where bd: "build_derived_image e (kc_id c) i s = (s1, b)" by fastforce
  have s1: "km_kernels s1 = km_kernels s" using build_derived_image_frame(1)[of e "kc_id c" i s] bd by simp
  note built = build_derived_image_images[OF bd]
  show ?thesis
  proof (cases "ki_packages i \<noteq> [] \<and> (\<exists>x. b = Inl x)")
    case True
    with bd have "dict_get (km_images s1) = dict_get (km_images s)"
      by (auto simp: build_derived_image_def split: if_splits option.splits lookup.splits build_answer.splits)
    with m s1 have "images_match s1" by (simp add: images_match_def)
    moreover have "fst (create_kernel e c u s) = s1" using True Inr bd by (auto simp: create_kernel_def create_build_def)
    ultimately show ?thesis by simp
  next
    case False
    let ?s = "fst (create_kernel e c u s)"
    have absent: "kc_id c \<notin> dom (dict_get (km_kernels s))" using new by (simp add: domIff)
    have finish: "create_finish e (kc_id c) i' u t = (fst (create_finish e (kc_id c) i' u t), Inr i') \<and>
        km_kernels (fst (create_finish e (kc_id c) i' u t)) = dict_set (kc_id c) i' (km_kernels s) \<and>
        km_images (fst (create_finish e (kc_id c) i' u t)) = km_images t" if "km_kernels t = km_kernels s" for t i'
      using that absent by (simp add: create_finish_def Let_def)
    obtain i1 where i1: "km_kernels ?s = dict_set (kc_id c) i1 (km_kernels s)" "ki_packages i1 = ki_packages i"
      and images: "km_images ?s = (if ki_packages i = [] then km_images s else km_images s1)"
    proof (cases "ki_packages i = []")
      case True
      have eq: "?s = fst (create_finish e (kc_id c) i u s)" using True Inr by (simp add: create_kernel_def create_build_def)
      show ?thesis by (rule that[of i]) (use True finish[of s i] in \<open>simp_all add: eq\<close>)
    next
      case pk: False
      with False obtain t where t: "b = Inr t" by (cases b) auto
      let ?i = "i\<lparr>ki_resolved := resolve_installed_versions (ke_pip e) (ki_packages i)\<rparr>"
      have eq: "?s = fst (create_finish e (kc_id c) ?i u s1)" using pk t Inr bd by (simp add: create_kernel_def create_build_def)
      show ?thesis by (rule that[of ?i]) (use pk finish[of s1 ?i] s1 in \<open>simp_all add: eq\<close>)
    qed
    show ?thesis
    proof (rule images_match_at[OF assms])
      fix d assume d: "dict_get (km_images ?s) (derived_image_tag (kc_id c)) = Some d"
      with none images have "ki_packages i \<noteq> []" "dict_get (km_images s1) (derived_image_tag (kc_id c)) = Some d" by (auto split: if_splits)
      with built(1) none i1 show "di_label d = safe_id (kc_id c) \<and> di_packages d \<noteq> [] \<and>
          map_option ki_packages (dict_get (km_kernels ?s) (kc_id c)) = Some (di_packages d)"
        by auto
    next
      fix t assume "t \<noteq> derived_image_tag (kc_id c)"
      with built(1) images show "dict_get (km_images ?s) t = dict_get (km_images s) t" by auto
    qed (use i1 in simp)
  qed
qed

lemma remove_derived_images:
  "ke_rmi e (derived_image_tag k) \<Longrightarrow> dict_get (km_images (remove_derived_image e k s)) = (dict_get (km_images s))(derived_image_tag k := None)"
  by (simp add: remove_derived_image_def remove_image_def fun_eq_iff)

lemma delete_kernel_images:
  assumes "images_match s" and "inj_on safe_id K" and "dom (dict_get (km_kernels s)) \<subseteq> K" and "steady e"
  shows "images_match (fst (delete_kernel e k s))"
proof (cases "dict_get (km_kernels s) k")
  case None
  with assms show ?thesis by (simp add: delete_kernel_def)
next
  case (Some i)
  let ?s = "fst (delete_kernel e k s)"
  have k: "k \<in> K" using Some assms(3) by auto
  have images: "dict_get (km_images ?s) = (if ki_packages i \<noteq> [] then (dict_get (km_images s))(derived_image_tag k := None) else dict_get (km_images s))"
    using Some assms(4) by (simp add: delete_kernel_def stop_kernel_def Let_def steady_def remove_derived_images fun_eq_iff)
  have gone: "dict_get (km_images ?s) (derived_image_tag k) = None"
    using own_image[OF assms(1-3) k] Some images by (cases "dict_get (km_images s) (derived_image_tag k)") auto
  show ?thesis
    by (rule images_match_at[OF assms(1-3) k]) (use images gone in \<open>auto simp: delete_kernel_kernels\<close>)
qed

text \<open>An update removes the image of the old packages before it builds that of the new ones.\<close>

lemma build_fresh:
  assumes "build_derived_image e k i s = (s1, r)" and "dict_get (km_images s) (derived_image_tag k) = None" and "ki_packages i \<noteq> []"
    and "dict_get (km_images s1) (derived_image_tag k) = Some d"
  shows "di_label d = safe_id k \<and> di_packages d = ki_packages i \<and> (\<exists>t. r = Inr t)"
  using assms by (auto simp: build_derived_image_def split: if_splits option.splits lookup.splits build_answer.splits)

lemma build_others:
  assumes "build_derived_image e k i s = (s1, r)" and "t \<noteq> derived_image_tag k"
  shows "dict_get (km_images s1) t = dict_get (km_images s) t"
  using build_derived_image_images(1)[OF assms(1)] assms(2) by auto

lemma build_failed:
  "build_derived_image e k i s = (s1, Inl x) \<Longrightarrow> km_images s1 = km_images s"
  by (auto simp: build_derived_image_def split: if_splits option.splits lookup.splits build_answer.splits)

lemma restore_image_at:
  "dict_get (km_kernels s) k = Some i \<Longrightarrow> build_derived_image e k i s = (s1, r) \<Longrightarrow> restore_image e k s = s1"
  by (simp add: restore_image_def)

lemma update_kernel_images:
  assumes "images_match s" and "inj_on safe_id K" and "dom (dict_get (km_kernels s)) \<subseteq> K" and "steady e"
  shows "images_match (fst (update_kernel e k ps s))"
proof (cases "dict_get (km_kernels s) k")
  case None
  with assms show ?thesis by (simp add: update_kernel_def)
next
  case (Some i)
  have k: "k \<in> K" using Some assms(3) by auto
  obtain s' r where u: "update_kernel e k ps s = (s', r)" by fastforce
  note out = update_kernel_outcome[OF Some u assms(4)]
  show ?thesis
  proof (cases "ki_state i \<in> {K_Idle, K_Executing, K_Starting} \<or> \<not> validate_packages ps \<or> ps = ki_packages i")
    case True
    with u Some assms(1) show ?thesis by (auto simp: update_kernel_def split: if_splits)
  next
    case False
    note guards = this
    let ?i = "i\<lparr>ki_packages := ps, ki_resolved := []\<rparr>"
    let ?s1 = "set_kernel k (\<lambda>j. j\<lparr>ki_packages := ps, ki_resolved := []\<rparr>) s"
    let ?s2 = "if ki_packages i \<noteq> [] then remove_derived_image e k ?s1 else ?s1"
    have rmi: "ke_rmi e t" for t using assms(4) by (simp add: steady_def)
    have old: "ki_packages i = [] \<Longrightarrow> dict_get (km_images s) (derived_image_tag k) = None"
      using own_image[OF assms(1-3) k] Some by (cases "dict_get (km_images s) (derived_image_tag k)") auto
    have gone: "dict_get (km_images ?s2) (derived_image_tag k) = None"
      using old rmi by (simp add: remove_derived_images)
    have others: "dict_get (km_images ?s2) t = dict_get (km_images s) t" if "t \<noteq> derived_image_tag k" for t
      using that rmi by (simp add: remove_derived_images)
    show ?thesis
    proof (cases "ps = []")
      case True
      with guards u Some have s': "s' = persist_owned e k ?s2" by (auto simp: update_kernel_def Let_def)
      show ?thesis unfolding u fst_conv
        by (rule images_match_at[OF assms(1-3) k]) (use gone others in \<open>simp_all add: s'\<close>)
    next
      case False
      obtain s3 b where b: "build_derived_image e k ?i ?s2 = (s3, b)" by fastforce
      show ?thesis
      proof (cases b)
        case (Inr t)
        let ?s4 = "set_kernel k (\<lambda>j. j\<lparr>ki_resolved := resolve_installed_versions (ke_pip e) ps\<rparr>) s3"
        have s': "s' = persist_owned e k ?s4" "r = Inr ()" using guards False u Some b Inr by (auto simp: update_kernel_def Let_def)
        with out guards obtain res where "dict_get (km_kernels s') = (dict_get (km_kernels s))(k \<mapsto> i\<lparr>ki_packages := ps, ki_resolved := res\<rparr>)" by blast
        moreover have "km_images s' = km_images s3" by (simp add: s')
        ultimately show ?thesis unfolding u fst_conv
          using False build_fresh[OF b gone] build_others[OF b] others
          by (intro images_match_at[OF assms(1-3) k]) auto
      next
        case (Inl x)
        have "caught x"
          using b Inl assms(4) by (auto simp: build_derived_image_def steady_def caught_def
              split: if_splits option.splits lookup.splits build_answer.splits)
        let ?s4 = "set_kernel k (\<lambda>j. j\<lparr>ki_packages := ki_packages i, ki_resolved := ki_resolved i\<rparr>) s3"
        have s': "s' = (if ki_packages i \<noteq> [] then restore_image e k ?s4 else ?s4)" "r = Inl BadKernelValue"
          using guards False u Some b Inl \<open>caught x\<close> by (auto simp: update_kernel_def Let_def)
        have kernels: "dict_get (km_kernels s') = dict_get (km_kernels s)" using out s'(2) by auto
        have s3: "km_images ?s4 = km_images ?s2" using build_failed b Inl by simp
        have k4: "dict_get (km_kernels ?s4) k = Some i"
          using Some build_derived_image_frame(1)[of e k ?i ?s2] b by (simp split: if_splits)
        obtain s5 b5 where b5: "build_derived_image e k i ?s4 = (s5, b5)" by fastforce
        have s5: "s' = (if ki_packages i \<noteq> [] then s5 else ?s4)" using restore_image_at[OF k4 b5] s'(1) by argo
        have gone4: "dict_get (km_images ?s4) (derived_image_tag k) = None" using gone s3 by simp
        show ?thesis unfolding u fst_conv
        proof (rule images_match_at[OF assms(1-3) k])
          fix t assume "t \<noteq> derived_image_tag k"
          with build_others[OF b5] others s3 show "dict_get (km_images s') t = dict_get (km_images s) t" by (simp add: s5)
        next
          fix d assume d: "dict_get (km_images s') (derived_image_tag k) = Some d"
          with gone4 s5 have "ki_packages i \<noteq> []" "s' = s5" by (auto split: if_splits)
          with build_fresh[OF b5 gone4] d Some kernels
          show "di_label d = safe_id k \<and> di_packages d \<noteq> [] \<and> map_option ki_packages (dict_get (km_kernels s') k) = Some (di_packages d)"
            by simp
        qed (simp add: kernels)
      qed
    qed
  qed
qed

text \<open>A restart removes images, and kernels keep their packages, since the table has them.\<close>

lemma start_core_image_subset:
  assumes "ke_db e"
  shows "dict_get (km_images (start_core e s)) \<subseteq>\<^sub>m dict_get (km_images s)"
proof -
  let ?t = "restore_kernels_from_db e (fresh_core s)"
  let ?P = "\<lambda>u. dict_get (km_images u) \<subseteq>\<^sub>m dict_get (km_images s)"
  have "km_images (fold (reclaim e) cs ?t) = km_images s" for cs
    by (rule fold_invariant[where P = "\<lambda>u. km_images u = km_images s"]) (simp_all add: reclaim_frame restored(4)[OF assms])
  then have "km_images (reclaim_running_containers e ?t) = km_images s"
    by (simp add: reclaim_running_containers_def restored(4)[OF assms] split: option.split)
  moreover have "?P (fold (remove_orphan e L) rs u)" if "?P u" for L rs u
    by (rule fold_invariant[where P = ?P, OF that])
      (auto simp: remove_orphan_def remove_image_def map_le_def split: prod.splits if_splits)
  ultimately show ?thesis by (simp add: start_core_def fresh_core_def remove_orphan_derived_images_def)
qed

lemma start_core_packages:
  assumes "in_sync s" and "ke_db e"
  shows "map_option ki_packages (dict_get (km_kernels (start_core e s)) k) = map_option ki_packages (dict_get (km_kernels s) k)"
proof -
  have table: "registry_view s k = table_view s k" using assms(1) by (simp add: in_sync_def)
  have dom: "dict_get (km_kernels s) k = None \<longleftrightarrow> dict_get (km_owners s) k = None"
    using assms(1) domIff[of k "dict_get (km_kernels s)"] domIff[of k "dict_get (km_owners s)"] unfolding in_sync_def by blast
  have after: "map_option settings (dict_get (km_kernels (start_core e s)) k) =
      map_option (\<lambda>r. settings (stopped_kernel (row_to_config k r) (kr_resolved r))) (dict_get (km_rows s) k)"
    using start_core_frame(1)[OF assms(2), of s k] by (simp add: settings_of_def)
  show ?thesis
    using table dom after
    by (cases "dict_get (km_kernels s) k"; cases "dict_get (km_rows s) k"; cases "dict_get (km_owners s) k"; cases "dict_get (km_kernels (start_core e s)) k")
      (auto simp: registry_view_def table_view_def kernel_view_def row_view_def settings_def stopped_kernel_def row_to_config_def)
qed

lemma start_core_images:
  assumes "images_match s" and "in_sync s" and "ke_db e"
  shows "images_match (start_core e s)"
  unfolding images_match_def
proof (intro allI impI)
  fix t d assume "dict_get (km_images (start_core e s)) t = Some d"
  then have "dict_get (km_images s) t = Some d" using start_core_image_subset[OF assms(3), of s] by (auto simp: map_le_def dom_def)
  from images_matchD[OF assms(1) this] obtain k i where k: "dict_get (km_kernels s) k = Some i" "t = derived_image_tag k"
    "di_label d = safe_id k" "di_packages d = ki_packages i" "ki_packages i \<noteq> []" .
  with start_core_packages[OF assms(2,3), of k] obtain i' where "dict_get (km_kernels (start_core e s)) k = Some i'" "ki_packages i' = ki_packages i"
    by auto
  with k show "\<exists>k i. dict_get (km_kernels (start_core e s)) k = Some i \<and> t = derived_image_tag k \<and> di_label d = safe_id k
           \<and> di_packages d = ki_packages i \<and> ki_packages i \<noteq> []" by metis
qed

section \<open>Any sequence of operations\<close>

definition created :: "(kernel_env \<times> kernel_op) list \<Rightarrow> string list" where
  "created steps = concat (map (\<lambda>(e, op). case op of Op_Create c u \<Rightarrow> [kc_id c] | _ \<Rightarrow> []) steps)"

definition no_kernels :: manager where
  "no_kernels =
     \<lparr>km_kernels = [], km_owners = [], km_scratch = [], km_pulls = [], km_rows = [], km_flows = [], km_images = [], km_calls = []\<rparr>"

definition kernels_ok :: "string set \<Rightarrow> manager \<Rightarrow> bool" where
  "kernels_ok K s \<longleftrightarrow> in_sync s \<and> dom (dict_get (km_kernels s)) \<subseteq> K \<and> images_match s"

lemma kernels_ok_empty: "kernels_ok K no_kernels"
  by (simp add: kernels_ok_def no_kernels_def in_sync_def registry_view_def table_view_def images_match_def fun_eq_iff)

text \<open>An operation of the contract that also builds at most the image of its kernel keeps the whole invariant.\<close>

locale building_operation = runtime_operation +
  assumes only_builds: "builds k s (act s)"
begin

lemma keeps_ok: "kernels_ok K s \<Longrightarrow> kernels_ok K (act s)"
  using sync[of s] images_match_builds[OF _ only_builds same_settings, of s] settings_of_dom[OF same_settings, of s]
  by (simp add: kernels_ok_def)

end

interpretation starting: building_operation "\<lambda>s. fst (start_kernel e k s)" k for e k
  by unfold_locales (rule start_kernel_builds)

interpretation serving: building_operation "\<lambda>s. fst (starting_request e k s)" k for e k
  by unfold_locales (rule starting_request_builds)

interpretation executing: building_operation "\<lambda>s. fst (execute_cell e ce k f s)" k for e ce k f
  by unfold_locales (rule execute_builds)

interpretation stopping: building_operation "\<lambda>s. fst (stop_kernel k s)" k for k
  by unfold_locales (simp add: stop_kernel_def builds_same split: option.split)

interpretation shutting: building_operation "shut_down k" k for k
  by unfold_locales (simp add: shut_down_def builds_same split: option.split)

lemma shutdown_all_ok: "kernels_ok K s \<Longrightarrow> kernels_ok K (shutdown_all s)"
  unfolding shutdown_all_def by (rule fold_invariant[where P = "kernels_ok K"]) (assumption | rule shutting.keeps_ok)+

lemma create_kernel_dom: "dom (dict_get (km_kernels (fst (create_kernel e c u s)))) \<subseteq> insert (kc_id c) (dom (dict_get (km_kernels s)))"
proof (cases "create_begin e c s")
  case (Inr i)
  obtain s1 r where b: "create_build e (kc_id c) i s = (s1, r)" by fastforce
  with create_build_kernels[OF b] Inr show ?thesis
    by (cases r) (auto simp: create_kernel_def create_finish_kernels split: if_splits)
qed (auto simp: create_kernel_def)

lemma update_kernel_dom: "dom (dict_get (km_kernels (fst (update_kernel e k ps s)))) = dom (dict_get (km_kernels s))"
proof -
  note t = update_kernel_touches[of k s e ps]
  have "dict_get (km_kernels (fst (update_kernel e k ps s))) j = None \<longleftrightarrow> dict_get (km_kernels s) j = None" for j
    using t by (cases "j = k"; cases "dict_get (km_kernels s) k"; cases "dict_get (km_kernels (fst (update_kernel e k ps s))) k")
      (auto simp: touches_def)
  then show ?thesis by (auto simp: dom_def)
qed

lemma kernel_step_ok:
  assumes ok: "kernels_ok K s" and e: "steady e" and own: "own_op op" and K: "inj_on safe_id K" "set (created [(e, op)]) \<subseteq> K"
  shows "kernels_ok K (kernel_step (e, op) s)"
proof -
  have sync: "in_sync (kernel_step (e, op) s)" using kernel_step_sync e own ok by (simp add: kernels_ok_def)
  have parts: "images_match s" "dom (dict_get (km_kernels s)) \<subseteq> K" "in_sync s" using ok by (simp_all add: kernels_ok_def)
  have db: "ke_db e" using e by (simp add: steady_def)
  show ?thesis
  proof (cases op)
    case (Op_Create c u)
    with K have c: "kc_id c \<in> K" by (simp add: created_def)
    then have "dom (dict_get (km_kernels (fst (create_kernel e c u s)))) \<subseteq> K"
      using create_kernel_dom[of e c u s] parts(2) by blast
    with Op_Create create_kernel_images[OF parts(1) K(1) parts(2) c] sync show ?thesis
      by (simp add: kernels_ok_def kernel_step_def)
  next
    case (Op_Update k ps)
    with update_kernel_images[OF parts(1) K(1) parts(2) e] update_kernel_dom[of e k ps s] parts(2) sync show ?thesis
      by (simp add: kernels_ok_def kernel_step_def)
  next
    case (Op_Delete k)
    with delete_kernel_images[OF parts(1) K(1) parts(2) e] parts(2) sync show ?thesis
      by (auto simp: kernels_ok_def kernel_step_def delete_kernel_kernels split: if_splits)
  next
    case (Op_Reconcile u)
    with own show ?thesis by (simp add: own_op_def)
  next
    case Op_Restart
    have "dict_get (km_kernels (start_core e s)) k = None \<longleftrightarrow> dict_get (km_kernels s) k = None" for k
      using start_core_packages[OF parts(3) db, of k] by (metis option.map_disc_iff)
    then have "dom (dict_get (km_kernels (start_core e s))) = dom (dict_get (km_kernels s))" by (auto simp: dom_def)
    with Op_Restart start_core_images[OF parts(1,3) db] parts(2) sync show ?thesis by (simp add: kernels_ok_def kernel_step_def)
  qed (simp_all add: kernel_step_def ok starting.keeps_ok serving.keeps_ok executing.keeps_ok stopping.keeps_ok shutdown_all_ok)
qed

lemma kernel_run_ok:
  assumes "own_run steps" and "inj_on safe_id K" and "set (created steps) \<subseteq> K"
  shows "kernels_ok K (kernel_run steps no_kernels)"
  unfolding kernel_run_def
proof (rule fold_invariant[where P = "kernels_ok K", OF kernels_ok_empty])
  fix a s assume a: "a \<in> set steps" and s: "kernels_ok K s"
  obtain e op where eq: "a = (e, op)" by (cases a)
  with a assms(1) have "steady e" "own_op op" by (auto simp: own_run_def list_all_iff)
  moreover have "set (created [(e, op)]) \<subseteq> K" using a eq assms(3) by (force simp: created_def)
  ultimately show "kernels_ok K (kernel_step a s)" using kernel_step_ok[OF s] assms(2) eq by simp
qed

end
