(* ===== verification/Kernel_Claims.thy ===== *)
theory Kernel_Claims
  imports Kernel_Packages
begin

text \<open>
  The properties of the registry of kernels, and what goes wrong outside of their hypotheses: overlapping operations,
  imports, containers that died, and fields that are not stored.
\<close>

definition sample_config :: "string \<Rightarrow> string list \<Rightarrow> kernel_config" where
  "sample_config k ps =
     \<lparr>kc_id = k, kc_name = k, kc_packages = ps, kc_cpu = 2, kc_memory = 4, kc_gpu = False, kc_timeout = 300,
      kc_flavour = Base_Image, kc_custom = None, kc_persistence = False, kc_recovery = Eager_Recovery\<rparr>"

definition sample_docker :: kernel_env where
  "sample_docker =
     \<lparr>ke_volume = False, ke_store = \<lparr>im_get = (\<lambda>t. Present), im_list = (\<lambda>r. Some [])\<rparr>, ke_defaults = (\<lambda>f. ''me/kernel-'' @ flavour_value f @ '':1.2''),
      ke_port_free = (\<lambda>p. True), ke_build = (\<lambda>b ps. Built), ke_pip = Some [(''polars'', ''1.2'')], ke_rmi = (\<lambda>t. True),
      ke_run = Some ''c1'', ke_health = Some (Some ''0.4''), ke_running = Some [], ke_db = True\<rparr>"

lemma sample_docker_steady: "steady sample_docker"
  by (simp add: steady_def sample_docker_def)

lemma own_run_Cons: "own_run ((e, op) # steps) \<longleftrightarrow> steady e \<and> own_op op \<and> own_run steps"
  by (simp add: own_run_def)

lemma own_run_Nil: "own_run []"
  by (simp add: own_run_def)

section \<open>Ports\<close>

text \<open>
  C30: no sequence of operations gives two kernels the same port.\<close>

theorem ports_stay_distinct:
  assumes "ports_distinct s" and "list_all (\<lambda>(e, op). containers_ok e) steps"
  shows "ports_distinct (kernel_run steps s)"
  unfolding kernel_run_def
  by (rule fold_invariant[where P = ports_distinct, OF assms(1)])
    (use assms(2) in \<open>auto simp: list_all_iff intro: kernel_step_ports\<close>)

theorem ports_stay_distinct_witness:
  "ports_distinct (kernel_run [(sample_docker, Op_Create (sample_config ''a'' []) 1), (sample_docker, Op_Create (sample_config ''b'' []) 2)] no_kernels)"
  by (rule ports_stay_distinct)
    (simp_all add: ports_distinct_def port_of_def no_kernels_def containers_ok_def host_ports_def sample_docker_def)

text \<open>Two creations that overlap do get the same port: it is taken from the registry before the build, and registered after it.\<close>

lemma concurrent_creates_share_port:
  "(case (create_begin sample_docker (sample_config ''a'' [''polars'']) no_kernels, create_begin sample_docker (sample_config ''b'' [''polars'']) no_kernels) of
      (Inr i, Inr j) \<Rightarrow>
        (let s = fst (create_finish sample_docker ''b'' j 1 (fst (create_finish sample_docker ''a'' i 1 no_kernels))) in
         (port_of s ''a'', port_of s ''b''))
    | _ \<Rightarrow> (None, None)) = (Some 19000, Some 19000)"
  by code_simp

section \<open>Restarts\<close>

text \<open>What is not stored: the container, the port, the image, and three settings, which fall back to their defaults.\<close>

definition as_stored :: "kernel_info \<Rightarrow> kernel_info" where
  "as_stored i =
     i\<lparr>ki_state := K_Stopped, ki_container := None, ki_port := None, ki_timeout := 120, ki_image := None, ki_error := None,
       ki_version := None, ki_persistence := True, ki_recovery := Lazy_Recovery\<rparr>"

lemma restored_kernel:
  assumes "row_view r = kernel_view i u"
  shows "stopped_kernel (row_to_config k r) (kr_resolved r) = as_stored i"
  using assms by (simp add: row_view_def kernel_view_def stopped_kernel_def row_to_config_def as_stored_def)

text \<open>
  C28: after any sequence of complete operations without an import, during which the services are steady (the database
  commits, images can be removed, and builds succeed or fail as builds do), a restart without running containers loads
  every kernel as it was, but for what is not stored (\<open>as_stored\<close>). \<open>broken_build_is_not_rolled_back\<close> shows a service that
  is not steady.
\<close>

theorem restart_restores_kernels:
  assumes "in_sync s" and "own_run steps" and "ke_db e" and "ke_running e = Some []"
  shows "dict_get (km_kernels (start_core e (kernel_run steps s))) k = map_option as_stored (dict_get (km_kernels (kernel_run steps s)) k)"
proof -
  let ?s = "kernel_run steps s"
  let ?t = "restore_kernels_from_db e (fresh_core ?s)"
  have sync: "in_sync ?s" by (rule kernel_run_sync[OF assms(1,2)])
  then have table: "registry_view ?s k = table_view ?s k" by (simp add: in_sync_def)
  have dom: "dict_get (km_kernels ?s) k = None \<longleftrightarrow> dict_get (km_owners ?s) k = None"
    using sync domIff[of k "dict_get (km_kernels ?s)"] domIff[of k "dict_get (km_owners ?s)"] unfolding in_sync_def by blast
  have "km_kernels (start_core e ?s) = km_kernels ?t"
    using assms(4) orphans_frame[of e ?t] by (simp add: start_core_def fresh_core_def reclaim_running_containers_def)
  then have "dict_get (km_kernels (start_core e ?s)) k =
      map_option (\<lambda>r. stopped_kernel (row_to_config k r) (kr_resolved r)) (dict_get (km_rows ?s) k)"
    using restored(1)[OF assms(3), of ?s k] by simp
  with table dom show ?thesis
    by (cases "dict_get (km_kernels ?s) k"; cases "dict_get (km_rows ?s) k"; cases "dict_get (km_owners ?s) k")
      (auto simp: registry_view_def table_view_def intro: restored_kernel[OF sym])
qed

lemma restart_resets_settings:
  "(let s = start_core sample_docker (fst (create_kernel sample_docker (sample_config ''a'' []) 1 no_kernels)) in
    map_option (\<lambda>i. (ki_timeout i, ki_persistence i, ki_recovery i)) (dict_get (km_kernels s) ''a'')) = Some (120, True, Lazy_Recovery)"
  by code_simp

lemma restart_restores_kernels_witness:
  "dict_get (km_kernels (start_core sample_docker (kernel_run [(sample_docker, Op_Create (sample_config ''a'' [''polars'']) 1)] no_kernels))) ''a'' =
     map_option as_stored (dict_get (km_kernels (kernel_run [(sample_docker, Op_Create (sample_config ''a'' [''polars'']) 1)] no_kernels)) ''a'')"
proof (rule restart_restores_kernels)
  show "in_sync no_kernels" using kernels_ok_empty[of "{}"] by (simp add: kernels_ok_def)
  show "own_run [(sample_docker, Op_Create (sample_config ''a'' [''polars'']) 1)]"
    by (simp add: own_run_Cons own_run_Nil sample_docker_steady own_op_def)
qed (simp_all add: sample_docker_def)

section \<open>Packages\<close>

text \<open>
  C27: a container that is started for a kernel with packages runs an image in which exactly the packages that the kernel
  has now were installed, after any sequence of complete operations and restarts of one core, as long as no two kernels
  have ids with the same tag (\<open>similar_id_takes_image\<close>), nothing is imported (\<open>import_keeps_stale_image\<close>), and the services
  are steady: the database commits, images can be removed, and builds succeed or fail as builds do.
\<close>

theorem started_image_has_packages:
  assumes "own_run steps" and "inj_on safe_id (set (created steps))"
    and "dict_get (km_kernels (kernel_run steps no_kernels)) k = Some i" and "ki_state i \<noteq> K_Idle" and "ki_packages i \<noteq> []"
    and "snd (start_kernel e k (kernel_run steps no_kernels)) = Inr ()"
  shows "Option.bind (Option.bind (dict_get (km_kernels (fst (start_kernel e k (kernel_run steps no_kernels)))) k) ki_image)
      (\<lambda>t. map_option di_packages (dict_get (km_images (fst (start_kernel e k (kernel_run steps no_kernels)))) t)) = Some (ki_packages i)"
proof -
  let ?s = "kernel_run steps no_kernels" and ?K = "set (created steps)"
  let ?t = "fst (start_kernel e k ?s)"
  note start = start_kernel_cases[OF assms(3), of e]
  have ok: "kernels_ok ?K ?s" by (rule kernel_run_ok[OF assms(1,2)]) simp
  have settings: "settings_of ?t = settings_of ?s" and builds: "builds k ?s ?t" using start by simp_all
  have match: "images_match ?t" using ok images_match_builds[OF _ builds settings] by (simp add: kernels_ok_def)
  have dom: "dom (dict_get (km_kernels ?t)) \<subseteq> ?K" using ok settings_of_dom[OF settings] by (simp add: kernels_ok_def)
  from settings_of_packages[OF settings assms(3)] obtain i' where i': "dict_get (km_kernels ?t) k = Some i'" "ki_packages i' = ki_packages i"
    by blast
  with start assms(4-6) have image: "ki_image i' = Some (derived_image_tag k)" "derived_image_tag k \<in> dom (dict_get (km_images ?t))"
    by simp_all
  then obtain d where d: "dict_get (km_images ?t) (derived_image_tag k) = Some d" by blast
  have "k \<in> ?K" using dom i' by auto
  from own_image[OF match assms(2) dom this d] i' have "di_packages d = ki_packages i" by auto
  with i' image d show ?thesis by simp
qed

lemma started_image_has_packages_witness:
  "\<exists>i. dict_get (km_kernels (kernel_run [(sample_docker, Op_Create (sample_config ''a'' [''polars'']) 1)] no_kernels)) ''a'' = Some i \<and>
   Option.bind (Option.bind (dict_get (km_kernels (fst (start_kernel sample_docker ''a'' (kernel_run [(sample_docker, Op_Create (sample_config ''a'' [''polars'']) 1)] no_kernels)))) ''a'') ki_image)
      (\<lambda>t. map_option di_packages (dict_get (km_images (fst (start_kernel sample_docker ''a'' (kernel_run [(sample_docker, Op_Create (sample_config ''a'' [''polars'']) 1)] no_kernels)))) t)) = Some (ki_packages i)"
proof -
  let ?steps = "[(sample_docker, Op_Create (sample_config ''a'' [''polars'']) 1)]"
  have "map_option (\<lambda>i. (ki_state i, ki_packages i)) (dict_get (km_kernels (kernel_run ?steps no_kernels)) ''a'') = Some (K_Stopped, [''polars''])"
    by code_simp
  then obtain i where i: "dict_get (km_kernels (kernel_run ?steps no_kernels)) ''a'' = Some i" "ki_state i \<noteq> K_Idle" "ki_packages i \<noteq> []"
    by (cases "dict_get (km_kernels (kernel_run ?steps no_kernels)) ''a''") auto
  have "own_run ?steps" by (simp add: own_run_Cons own_run_Nil sample_docker_steady own_op_def)
  moreover have "inj_on safe_id (set (created ?steps))" by (simp add: created_def)
  moreover have "snd (start_kernel sample_docker ''a'' (kernel_run ?steps no_kernels)) = Inr ()" by code_simp
  ultimately show ?thesis using started_image_has_packages[of ?steps "''a''" i sample_docker] i by blast
qed

text \<open>
  After an import the image of the old packages is still there and is taken for the new ones; so is the image of
  another kernel whose id differs only in case.
\<close>

definition imported :: "manager \<Rightarrow> manager" where
  "imported s = s\<lparr>km_rows := map (\<lambda>(k, r). (k, r\<lparr>kr_packages := [''pandas'']\<rparr>)) (km_rows s)\<rparr>"

definition start_packages :: "string \<Rightarrow> manager \<Rightarrow> string list option \<times> string list option" where
  "start_packages k s =
     (let t = fst (start_kernel sample_docker k s) in
      (map_option ki_packages (dict_get (km_kernels t) k),
       Option.bind (Option.bind (dict_get (km_kernels t) k) ki_image) (\<lambda>t'. map_option di_packages (dict_get (km_images t) t'))))"

lemma import_keeps_stale_image:
  "start_packages ''a'' (reconcile_configs_from_db sample_docker (Some 1)
     (imported (fst (create_kernel sample_docker (sample_config ''a'' [''polars'']) 1 no_kernels)))) = (Some [''pandas''], Some [''polars''])"
  by code_simp

lemma similar_id_takes_image:
  "start_packages ''A'' (fst (create_kernel sample_docker (sample_config ''A'' [''pandas'']) 1
     (fst (create_kernel sample_docker (sample_config ''a'' [''polars'']) 1 no_kernels)))) = (Some [''pandas''], Some [''polars''])"
  by code_simp

section \<open>Imports\<close>

definition entry_of :: "string \<Rightarrow> manager \<Rightarrow> kernel_info option \<times> int option \<times> int option" where
  "entry_of k s = (dict_get (km_kernels s) k, dict_get (km_owners s) k, dict_get (km_scratch s) k)"

lemma drop_kernel_other: "k \<noteq> j \<Longrightarrow> entry_of k (drop_kernel j s) = entry_of k s"
  by (simp add: drop_kernel_def entry_of_def)

lemma fold_drop_other:
  assumes "k \<notin> set ks"
  shows "entry_of k (fold drop_kernel ks s) = entry_of k s"
proof (rule fold_invariant[where P = "\<lambda>t. entry_of k t = entry_of k s"])
  fix j t assume "j \<in> set ks" "entry_of k t = entry_of k s"
  with assms drop_kernel_other[of k j t] show "entry_of k (drop_kernel j t) = entry_of k s" by metis
qed simp

lemma reconcile_row_other: "k \<noteq> j \<Longrightarrow> entry_of k (reconcile_row (j, r) s) = entry_of k s"
  by (auto simp: reconcile_row_def entry_of_def Let_def split: option.split)

lemma fold_reconcile_other:
  assumes "k \<notin> fst ` set rows"
  shows "entry_of k (fold reconcile_row rows s) = entry_of k s"
proof (rule fold_invariant[where P = "\<lambda>t. entry_of k t = entry_of k s"])
  fix row :: "string \<times> kernel_row" and t
  assume row: "row \<in> set rows" and t: "entry_of k t = entry_of k s"
  obtain j r where "row = (j, r)" by (cases row)
  moreover with row assms have "k \<noteq> j" by force
  ultimately show "entry_of k (reconcile_row row t) = entry_of k s"
    using reconcile_row_other[of k j r t] t by simp
qed simp

text \<open>
  C29: the reconciliation that follows an import of one user leaves the kernels of every other user as they are, with their
  containers, owners and scratch flows.
\<close>

theorem import_leaves_other_owners:
  assumes "dict_ok (km_rows s)" and "dict_get (km_owners s) k \<noteq> Some u" and "map_option kr_user (dict_get (km_rows s) k) \<noteq> Some u"
  shows "entry_of k (reconcile_configs_from_db e (Some u) s) = entry_of k s"
proof -
  have "k \<notin> set (filter (pruned (Some u) s) (dict_keys (km_kernels s)))" using assms(2) by (simp add: pruned_def)
  moreover have "k \<notin> fst ` set (reconcile_rows (Some u) s)"
    using assms(1,3) by (auto simp: reconcile_rows_def dict_get_in_iff)
  ultimately show ?thesis
    using fold_drop_other fold_reconcile_other by (simp add: reconcile_configs_from_db_def)
qed

lemma import_leaves_other_owners_witness:
  "let s = fst (create_kernel sample_docker (sample_config ''b'' []) 2 (fst (create_kernel sample_docker (sample_config ''a'' []) 1 no_kernels))) in
    entry_of ''b'' (reconcile_configs_from_db sample_docker (Some 1) s) = entry_of ''b'' s"
  unfolding Let_def
proof (rule import_leaves_other_owners)
  let ?s = "fst (create_kernel sample_docker (sample_config ''b'' []) 2 (fst (create_kernel sample_docker (sample_config ''a'' []) 1 no_kernels)))"
  show "dict_ok (km_rows ?s)" by code_simp
  show "dict_get (km_owners ?s) ''b'' \<noteq> Some 1" by code_simp
  show "map_option kr_user (dict_get (km_rows ?s) ''b'') \<noteq> Some 1" by code_simp
qed

text \<open>The containers that it stops are those of kernels of that user.\<close>

lemma import_stops_own_containers:
  "\<exists>cs. km_calls (fold drop_kernel ks s) = km_calls s @ map Stop_Container cs \<and>
     set cs \<subseteq> {c. \<exists>k \<in> set ks. Option.bind (dict_get (km_kernels s) k) ki_container = Some c}"
proof (induction ks arbitrary: s)
  case (Cons k ks)
  let ?t = "drop_kernel k s"
  from Cons obtain cs where cs: "km_calls (fold drop_kernel ks ?t) = km_calls ?t @ map Stop_Container cs"
    "set cs \<subseteq> {c. \<exists>k \<in> set ks. Option.bind (dict_get (km_kernels ?t) k) ki_container = Some c}" by blast
  have sub: "\<exists>j \<in> set (k # ks). Option.bind (dict_get (km_kernels s) j) ki_container = Some c" if "c \<in> set cs" for c
    using cs(2) that by (fastforce simp: drop_kernel_def split: if_splits)
  show ?case
  proof (cases "Option.bind (dict_get (km_kernels s) k) ki_container")
    case None
    then have "km_calls ?t = km_calls s"
      by (auto simp: drop_kernel_def cleanup_container_def split: option.splits)
    with cs(1) sub show ?thesis by (intro exI[of _ cs]) auto
  next
    case (Some c)
    then have "km_calls ?t = km_calls s @ [Stop_Container c]"
      by (auto simp: drop_kernel_def cleanup_container_def bind_eq_Some_conv)
    with cs(1) sub Some show ?thesis by (intro exI[of _ "c # cs"]) auto
  qed
qed simp

section \<open>Overlapping cells and dead containers\<close>

definition cell :: "cell_answer \<Rightarrow> bool \<Rightarrow> cell_env" where
  "cell a running = \<lparr>ce_answer = a, ce_oom = False, ce_running = running, ce_interrupt = True, ce_kill = True\<rparr>"

text \<open>After a cell a kernel is never left executing.\<close>

lemma leave_execution_state: "map_option ki_state (dict_get (km_kernels (leave_execution k s)) k) \<noteq> Some K_Executing"
  by (cases "dict_get (km_kernels s) k") (auto simp: leave_execution_def)

lemma execute_leaves_executing:
  "map_option ki_state (dict_get (km_kernels (fst (execute_finish ce k s))) k) \<noteq> Some K_Executing"
proof -
  have "map_option ki_state (dict_get (km_kernels (set_kernel k (\<lambda>i. i\<lparr>ki_state := K_Stopped, ki_container := None\<rparr>) s)) k) \<noteq> Some K_Executing"
    "map_option ki_state (dict_get (km_kernels (fail_kernel k OutOfMemory s)) k) \<noteq> Some K_Executing"
    by (cases "dict_get (km_kernels s) k"; simp add: fail_kernel_def)+
  with leave_execution_state[of k s] show ?thesis unfolding execute_finish_def Let_def by (simp only: fst_conv split: if_split) simp
qed

text \<open>When the first of two overlapping cells ends, the other one can no longer be interrupted.\<close>

lemma second_cell_not_interrupted:
  assumes "dict_get (km_kernels s) k = Some i" and "ki_state i = K_Executing" and "ce_answer ce = Cell_Result"
  shows "\<not> interrupt_execution e network ce' k (fst (execute_finish ce k s))"
  using assms by (simp add: execute_finish_def leave_execution_def interrupt_execution_def)

text \<open>
  A container that is found not to run is forgotten without being removed, and the next start asks for a container of
  the same name.
\<close>

lemma dead_container_forgotten:
  "(let s = fst (execute_cell sample_docker (cell Cell_Failed False) ''a'' None (fst (create_kernel sample_docker (sample_config ''a'' []) 1 no_kernels)));
        t = fst (ensure_running sample_docker ''a'' s)
    in (map_option ki_container (dict_get (km_kernels s) ''a''), km_calls t)) =
   (Some None, [Run_Container ''flowfile-kernel-a'' ''c1'' ''me/kernel-base:1.2'' (Some 19000),
                Run_Container ''flowfile-kernel-a'' ''c1'' ''me/kernel-base:1.2'' (Some 19000)])"
  by code_simp

text \<open>A kernel that is starting is deleted without its container being stopped.\<close>

lemma delete_starting_kernel:
  assumes "dict_get (km_kernels s) k = Some i" and "ki_state i = K_Starting" and "ki_packages i = []"
  shows "km_calls (fst (delete_kernel e k s)) = km_calls s"
  using assms by (simp add: delete_kernel_def Let_def remove_kernel_from_db_def discard_scratch_flow_def split: option.split)

text \<open>A restart stops the containers of kernels that this core does not know, whoever started them.\<close>

lemma restart_stops_foreign_containers:
  "startswith name container_prefix \<Longrightarrow> drop (length container_prefix) name \<notin> dom (dict_get (km_kernels s)) \<Longrightarrow>
     km_calls (reclaim e (name, c, p) s) = km_calls s @ [Stop_Container c]"
  by (simp add: reclaim_def)

text \<open>A failed update changes nothing that is stored.\<close>

lemma failed_update_keeps_kernel:
  assumes "dict_get (km_kernels s) k = Some i" and "update_kernel e k ps s = (s', Inl x)" and "steady e"
  shows "dict_get (km_kernels s') = dict_get (km_kernels s) \<and> km_rows s' = km_rows s"
  using update_kernel_outcome[OF assms] by simp

text \<open>An error of the daemon in a build is not caught: the new packages stay in memory and are not stored.\<close>

lemma broken_build_is_not_rolled_back:
  "(let s = fst (update_kernel (sample_docker\<lparr>ke_build := (\<lambda>b ps. Build_Broken)\<rparr>) ''a'' [''pandas'']
              (fst (create_kernel sample_docker (sample_config ''a'' [''polars'']) 1 no_kernels)))
    in (map_option ki_packages (dict_get (km_kernels s) ''a''), map_option kr_packages (dict_get (km_rows s) ''a''))) =
   (Some [''pandas''], Some [''polars''])"
  by code_simp

end
