(* ===== verification/Kernel_Paths.thy ===== *)
theory Kernel_Paths
  imports Kernel_Images
begin

text \<open>
  The paths that a kernel sees: \<open>_rebase_to_posix\<close>, \<open>to_kernel_path\<close> and \<open>resolve_node_paths\<close> of \<open>kernel/manager.py\<close>.
  The manager runs on a system with slashes in paths; texts of numbers consist of decimal digits.
\<close>

definition to_posix :: "string \<Rightarrow> string" where
  "to_posix p = rev (dropWhile (\<lambda>c. c = CHR ''/'') (rev (map (\<lambda>c. if c = CHR 0x5C then CHR ''/'' else c) p)))"

definition rebase_to_posix :: "string \<Rightarrow> string \<Rightarrow> string \<Rightarrow> string option" where
  "rebase_to_posix local host container =
     (let p = to_posix local; base = to_posix host in
      if p = base then Some container
      else if startswith p (base @ ''/'') then Some (container @ ''/'' @ drop (length base + 1) p) else None)"

record kernel_mounts =
  mo_volume :: bool
  mo_shared :: string
  mo_tables :: string

definition to_kernel_path :: "kernel_mounts \<Rightarrow> string \<Rightarrow> string" where
  "to_kernel_path m p =
     (if mo_volume m then p
      else case rebase_to_posix p (mo_tables m) ''/catalog_tables'' of
        Some q \<Rightarrow> q
      | None \<Rightarrow> (case rebase_to_posix p (mo_shared m) ''/shared'' of Some q \<Rightarrow> q | None \<Rightarrow> p))"

definition node_dir :: "kernel_mounts \<Rightarrow> int \<Rightarrow> int \<Rightarrow> string \<Rightarrow> string" where
  "node_dir m flow node kind = mo_shared m @ ''/'' @ int_str flow @ ''/'' @ int_str node @ ''/'' @ kind"

definition ends_with :: "string \<Rightarrow> string \<Rightarrow> bool" where
  "ends_with s e \<longleftrightarrow> startswith (rev s) (rev e)"

text \<open>The name of an input from the name of its file, \<open>name_index.parquet\<close>.\<close>

definition input_name :: "string \<Rightarrow> string" where
  "input_name f =
     (let stem = take (length f - 8) f; i = after_last (CHR ''_'') stem in
      if CHR ''_'' \<in> set stem \<and> i \<noteq> [] \<and> list_all (\<lambda>c. c \<in> set digits) i then take (length stem - length i - 1) stem
      else ''main'')"

definition add_input :: "kernel_mounts \<Rightarrow> string \<Rightarrow> string \<Rightarrow> (string, string list) dict \<Rightarrow> (string, string list) dict" where
  "add_input m dir f d =
     (let n = input_name f; p = to_kernel_path m (dir @ ''/'' @ f) in
      dict_set n ((case dict_get d n of None \<Rightarrow> [] | Some ps \<Rightarrow> ps) @ [p]) d)"

definition parquet_files :: "string list \<Rightarrow> string list" where
  "parquet_files fs = sort_key (map of_char :: _ \<Rightarrow> nat list) (filter (\<lambda>f. ends_with f ''.parquet'') fs)"

record node_request =
  nr_flow :: int
  nr_node :: int
  nr_inputs :: "(string, string list) dict"
  nr_output :: string

definition resolve_node_paths :: "kernel_mounts \<Rightarrow> (string \<Rightarrow> string list option) \<Rightarrow> node_request \<Rightarrow> node_request" where
  "resolve_node_paths m listdir r =
     (if nr_inputs r \<noteq> [] \<or> nr_flow r = 0 \<or> nr_node r = 0 then r
      else
        let dir = node_dir m (nr_flow r) (nr_node r) ''inputs'';
            files = (case listdir dir of None \<Rightarrow> [] | Some fs \<Rightarrow> parquet_files fs);
            named = fold (add_input m dir) files [];
            inputs = (if files = [] \<or> ''main'' \<in> set (dict_keys named) then named
                      else dict_set ''main'' (map (\<lambda>f. to_kernel_path m (dir @ ''/'' @ f)) files) named)
        in r\<lparr>nr_inputs := (if files = [] then nr_inputs r else inputs),
             nr_output := to_kernel_path m (node_dir m (nr_flow r) (nr_node r) ''outputs'')\<rparr>)"

section \<open>Lemmas\<close>

text \<open>Paths below the shared directory stay apart inside the container.\<close>

lemma rebase_inj:
  assumes "rebase_to_posix p h c = Some q" and "rebase_to_posix p' h c = Some q"
  shows "to_posix p = to_posix p'"
proof -
  have shape: "to_posix x = to_posix h \<and> q = c \<or> (\<exists>rest. to_posix x = to_posix h @ ''/'' @ rest \<and> q = c @ ''/'' @ rest)"
    if "rebase_to_posix x h c = Some q" for x
  proof (cases "to_posix x = to_posix h")
    case False
    with that have s: "startswith (to_posix x) (to_posix h @ ''/'')" and q: "q = c @ ''/'' @ drop (length (to_posix h) + 1) (to_posix x)"
      by (auto simp: rebase_to_posix_def Let_def split: if_splits)
    from s have "to_posix x = (to_posix h @ ''/'') @ drop (length (to_posix h @ ''/'')) (to_posix x)"
      unfolding startswith_def by (metis append_take_drop_id)
    with q show ?thesis by auto
  qed (use that in \<open>simp add: rebase_to_posix_def\<close>)
  from shape[OF assms(1)] shape[OF assms(2)] show ?thesis by auto
qed

text \<open>A path that is rebased lies in the container's directory and has no backslash that the directory does not have.\<close>

lemma rebase_in_container:
  assumes "rebase_to_posix p h c = Some q"
  shows "startswith q c \<and> (CHR 0x5C \<in> set q \<longrightarrow> CHR 0x5C \<in> set c)"
proof -
  have clean: "CHR 0x5C \<notin> set (to_posix p)" by (auto simp: to_posix_def dest!: set_dropWhileD split: if_splits)
  then have "CHR 0x5C \<notin> set (drop n (to_posix p))" for n by (meson in_set_dropD)
  with assms show ?thesis
    by (auto simp: rebase_to_posix_def Let_def split: if_splits) (simp_all add: startswith_def)
qed

text \<open>The files of an input are in the order of their names, so that the eleventh comes third.\<close>

lemma input_files_out_of_order:
  "parquet_files [''orders_2.parquet'', ''orders_10.parquet'', ''orders_1.parquet''] = [''orders_1.parquet'', ''orders_10.parquet'', ''orders_2.parquet'']"
  by code_simp

end
