(* ===== verification/Kernel_Artifacts.thy ===== *)
theory Kernel_Artifacts
  imports Kernel_Store
begin

text \<open>
  The artifacts inside a kernel: \<open>ArtifactStore\<close> of \<open>kernel_runtime/artifact_store.py\<close>, \<open>ArtifactPersistence\<close> of
  \<open>kernel_runtime/artifact_persistence.py\<close> and the start of the runtime in \<open>kernel_runtime/main.py\<close>.

  The store uses any object with the methods of a persistence, which is a record of functions; the files on disk are one.
  Serialization and digests are the record \<open>pickler\<close>. An operation holds the lock of the store while it changes the
  store, and the files are written after the lock is released: \<open>ks_publish\<close> is given by its two parts as well. The locks
  for loading have no other effect and are left out. Names are ASCII. Time is in any unit.
\<close>

section \<open>Files\<close>

type_synonym artifact_key = "int \<times> string"

record artifact_meta =
  me_name :: string
  me_type :: string
  me_module :: string
  me_node :: int
  me_flow :: int
  me_created :: int
  me_size :: int

record disk_meta =
  dk_meta :: artifact_meta
  dk_checksum :: string
  dk_at :: int
  dk_bytes :: int

record ('o, 'b) pickler =
  pk_dumps :: "'o \<Rightarrow> 'b option"
  pk_loads :: "'b \<Rightarrow> 'o option"
  pk_sha :: "'b \<Rightarrow> string"
  pk_length :: "'b \<Rightarrow> int"

record 'b disk_entry =
  de_data :: "'b option"
  de_meta :: "disk_meta option"

text \<open>The files of an artifact, by flow and name of the directory; the data can be written and the metadata not.\<close>

type_synonym 'b disk = "(int \<times> string, 'b disk_entry) dict"

datatype io_outcome = Io_Done | Io_Failed | Io_Data_Only

definition word_chars :: string where
  "word_chars = letters @ digits @ ''_-.''"

definition safe_dirname :: "string \<Rightarrow> string" where
  "safe_dirname n = dropWhile (\<lambda>c. c = CHR ''.'') (map (\<lambda>c. if c \<in> set word_chars then c else CHR ''_'') n)"

definition dir_of :: "artifact_key \<Rightarrow> int \<times> string" where
  "dir_of k = (fst k, safe_dirname (snd k))"

definition disk_save :: "('o, 'b) pickler \<Rightarrow> io_outcome \<Rightarrow> artifact_key \<Rightarrow> 'o \<Rightarrow> artifact_meta \<Rightarrow> int \<Rightarrow> 'b disk \<Rightarrow> 'b disk \<times> bool" where
  "disk_save P io k x m now d =
     (case pk_dumps P x of
        None \<Rightarrow> (d, False)
      | Some b \<Rightarrow>
          let dm = \<lparr>dk_meta = m, dk_checksum = pk_sha P b, dk_at = now, dk_bytes = pk_length P b\<rparr>;
              old = (case dict_get d (dir_of k) of None \<Rightarrow> None | Some e \<Rightarrow> de_meta e) in
          (case io of
             Io_Failed \<Rightarrow> (d, False)
           | Io_Data_Only \<Rightarrow> (dict_set (dir_of k) \<lparr>de_data = Some b, de_meta = old\<rparr> d, False)
           | Io_Done \<Rightarrow> (dict_set (dir_of k) \<lparr>de_data = Some b, de_meta = Some dm\<rparr> d, True)))"

definition disk_load :: "('o, 'b) pickler \<Rightarrow> 'b disk \<Rightarrow> artifact_key \<Rightarrow> 'o option" where
  "disk_load P d k =
     (case dict_get d (dir_of k) of
        None \<Rightarrow> None
      | Some e \<Rightarrow>
          (case de_data e of
             None \<Rightarrow> None
           | Some b \<Rightarrow>
               (case de_meta e of
                  None \<Rightarrow> pk_loads P b
                | Some m \<Rightarrow> if dk_checksum m \<noteq> [] \<and> pk_sha P b \<noteq> dk_checksum m then None else pk_loads P b)))"

text \<open>The directory of a name that is empty after the replacement is that of its flow.\<close>

definition disk_delete :: "io_outcome \<Rightarrow> artifact_key \<Rightarrow> 'b disk \<Rightarrow> 'b disk \<times> bool" where
  "disk_delete io k d =
     (if io \<noteq> Io_Done then (d, False)
      else if snd (dir_of k) = [] then (filter (\<lambda>(i, e). fst i \<noteq> fst k) d, True)
      else (dict_pop (dir_of k) d, True))"

definition disk_clear :: "io_outcome \<Rightarrow> int option \<Rightarrow> 'b disk \<Rightarrow> 'b disk \<times> bool" where
  "disk_clear io f d =
     (if io \<noteq> Io_Done then (d, False)
      else (case f of None \<Rightarrow> [] | Some i \<Rightarrow> filter (\<lambda>(j, e). fst j \<noteq> i) d, True))"

definition list_entry :: "(int \<times> string) \<times> 'b disk_entry \<Rightarrow> (artifact_key, disk_meta) dict \<Rightarrow> (artifact_key, disk_meta) dict" where
  "list_entry i r =
     (case i of (dir, e) \<Rightarrow>
        if snd dir = [] then r
        else case de_meta e of None \<Rightarrow> r | Some m \<Rightarrow> dict_set (fst dir, me_name (dk_meta m)) m r)"

definition list_persisted :: "'b disk \<Rightarrow> (artifact_key, disk_meta) dict" where
  "list_persisted d = fold list_entry d []"

record ('d, 'o) persistence =
  ps_save :: "artifact_key \<Rightarrow> 'o \<Rightarrow> artifact_meta \<Rightarrow> int \<Rightarrow> 'd \<Rightarrow> 'd \<times> bool"
  ps_load :: "'d \<Rightarrow> artifact_key \<Rightarrow> 'o option"
  ps_delete :: "artifact_key \<Rightarrow> 'd \<Rightarrow> 'd \<times> bool"
  ps_clear :: "int option \<Rightarrow> 'd \<Rightarrow> 'd \<times> bool"
  ps_list :: "'d \<Rightarrow> (artifact_key, disk_meta) dict"

definition disk_persistence :: "('o, 'b) pickler \<Rightarrow> io_outcome \<Rightarrow> ('b disk, 'o) persistence" where
  "disk_persistence P io =
     \<lparr>ps_save = disk_save P io, ps_load = disk_load P, ps_delete = disk_delete io, ps_clear = disk_clear io, ps_list = list_persisted\<rparr>"

definition cleanup_old :: "('d, 'o) persistence \<Rightarrow> int \<Rightarrow> 'd \<Rightarrow> 'd" where
  "cleanup_old B cutoff d =
     fold (\<lambda>(k, m) d. if dk_at m < cutoff then fst (ps_delete B k d) else d) (ps_list B d) d"

definition cleanup_names :: "('d, 'o) persistence \<Rightarrow> artifact_key list \<Rightarrow> 'd \<Rightarrow> 'd" where
  "cleanup_names B ks d = fold (\<lambda>k d. fst (ps_delete B k d)) ks d"

section \<open>The store\<close>

record 'o held =
  he_object :: 'o
  he_meta :: artifact_meta
  he_persisted :: bool
  he_pending :: bool
  he_recovered :: bool

record ('o, 'd) kernel_store =
  as_memory :: "(artifact_key, 'o held) dict"
  as_lazy :: "(artifact_key, disk_meta) dict"
  as_disk :: 'd

datatype store_error = Already_Exists int | Not_Found_Key | Load_Failed

definition recovered :: "artifact_key \<Rightarrow> 'o \<Rightarrow> disk_meta \<Rightarrow> 'o held" where
  "recovered k x m =
     \<lparr>he_object = x, he_meta = (dk_meta m)\<lparr>me_name := snd k, me_flow := fst k\<rparr>, he_persisted = True, he_pending = False, he_recovered = True\<rparr>"

definition recover_one :: "('d, 'o) persistence \<Rightarrow> artifact_key \<times> disk_meta \<Rightarrow> ('o, 'd) kernel_store \<Rightarrow> ('o, 'd) kernel_store" where
  "recover_one B e s =
     (case e of (k, m) \<Rightarrow>
        if k \<in> set (dict_keys (as_memory s)) then s
        else case ps_load B (as_disk s) k of
          None \<Rightarrow> s
        | Some x \<Rightarrow> s\<lparr>as_memory := dict_set k (recovered k x m) (as_memory s)\<rparr>)"

definition ks_recover_all :: "('d, 'o) persistence option \<Rightarrow> ('o, 'd) kernel_store \<Rightarrow> ('o, 'd) kernel_store" where
  "ks_recover_all p s = (case p of None \<Rightarrow> s | Some B \<Rightarrow> fold (recover_one B) (ps_list B (as_disk s)) s)"

definition index_one :: "artifact_key \<times> disk_meta \<Rightarrow> ('o, 'd) kernel_store \<Rightarrow> ('o, 'd) kernel_store" where
  "index_one e s =
     (case e of (k, m) \<Rightarrow> if k \<in> set (dict_keys (as_memory s)) then s else s\<lparr>as_lazy := dict_set k m (as_lazy s)\<rparr>)"

definition ks_build_lazy_index :: "('d, 'o) persistence option \<Rightarrow> ('o, 'd) kernel_store \<Rightarrow> ('o, 'd) kernel_store" where
  "ks_build_lazy_index p s = (case p of None \<Rightarrow> s | Some B \<Rightarrow> fold index_one (ps_list B (as_disk s)) s)"

definition ks_try_lazy_load :: "('d, 'o) persistence option \<Rightarrow> artifact_key \<Rightarrow> ('o, 'd) kernel_store \<Rightarrow> ('o, 'd) kernel_store \<times> bool" where
  "ks_try_lazy_load p k s =
     (case p of
        None \<Rightarrow> (s, False)
      | Some B \<Rightarrow>
          if k \<in> set (dict_keys (as_memory s)) then (s, True)
          else case dict_get (as_lazy s) k of
            None \<Rightarrow> (s, False)
          | Some m \<Rightarrow>
              (case ps_load B (as_disk s) k of
                 None \<Rightarrow> (s\<lparr>as_lazy := dict_set k m (dict_pop k (as_lazy s))\<rparr>, False)
               | Some x \<Rightarrow>
                   (s\<lparr>as_lazy := dict_pop k (as_lazy s), as_memory := dict_set k (recovered k x m) (as_memory s)\<rparr>, True)))"

text \<open>What Python reports of an object when it is published: its type, module and size, and the time.\<close>

record report =
  rp_type :: string
  rp_module :: string
  rp_created :: int
  rp_size :: int

definition new_meta :: "artifact_key \<Rightarrow> int \<Rightarrow> report \<Rightarrow> artifact_meta" where
  "new_meta k n r =
     \<lparr>me_name = snd k, me_type = rp_type r, me_module = rp_module r, me_node = n, me_flow = fst k, me_created = rp_created r, me_size = rp_size r\<rparr>"

definition publish_begin :: "('d, 'o) persistence option \<Rightarrow> artifact_key \<Rightarrow> 'o \<Rightarrow> artifact_meta \<Rightarrow> ('o, 'd) kernel_store \<Rightarrow> store_error + ('o, 'd) kernel_store" where
  "publish_begin p k x m s =
     (case dict_get (as_memory s) k of
        Some h \<Rightarrow> Inl (Already_Exists (me_node (he_meta h)))
      | None \<Rightarrow>
          Inr (s\<lparr>as_memory := dict_set k \<lparr>he_object = x, he_meta = m, he_persisted = False, he_pending = (p \<noteq> None), he_recovered = False\<rparr> (as_memory s),
                 as_lazy := dict_pop k (as_lazy s)\<rparr>))"

definition publish_save :: "('d, 'o) persistence option \<Rightarrow> artifact_key \<Rightarrow> 'o \<Rightarrow> artifact_meta \<Rightarrow> int \<Rightarrow> ('o, 'd) kernel_store \<Rightarrow> ('o, 'd) kernel_store" where
  "publish_save p k x m now s =
     (case p of
        None \<Rightarrow> s
      | Some B \<Rightarrow>
          (case ps_save B k x m now (as_disk s) of
             (d, done) \<Rightarrow>
               (case dict_get (as_memory s) k of
                  None \<Rightarrow> s\<lparr>as_disk := d\<rparr>
                | Some h \<Rightarrow> s\<lparr>as_disk := d, as_memory := dict_set k (h\<lparr>he_persisted := done, he_pending := False\<rparr>) (as_memory s)\<rparr>)))"

definition ks_publish :: "('d, 'o) persistence option \<Rightarrow> artifact_key \<Rightarrow> 'o \<Rightarrow> int \<Rightarrow> report \<Rightarrow> int \<Rightarrow> ('o, 'd) kernel_store \<Rightarrow> ('o, 'd) kernel_store \<times> (store_error + unit)" where
  "ks_publish p k x n r now s =
     (case publish_begin p k x (new_meta k n r) s of
        Inl err \<Rightarrow> (s, Inl err)
      | Inr s1 \<Rightarrow> (publish_save p k x (new_meta k n r) now s1, Inr ()))"

definition ks_delete :: "('d, 'o) persistence option \<Rightarrow> artifact_key \<Rightarrow> ('o, 'd) kernel_store \<Rightarrow> ('o, 'd) kernel_store \<times> (store_error + unit)" where
  "ks_delete p k s =
     (if k \<notin> set (dict_keys (as_memory s)) \<and> k \<notin> set (dict_keys (as_lazy s)) then (s, Inl Not_Found_Key)
      else (s\<lparr>as_memory := dict_pop k (as_memory s), as_lazy := dict_pop k (as_lazy s),
             as_disk := (case p of None \<Rightarrow> as_disk s | Some B \<Rightarrow> fst (ps_delete B k (as_disk s)))\<rparr>, Inr ()))"

definition ks_get :: "('d, 'o) persistence option \<Rightarrow> artifact_key \<Rightarrow> ('o, 'd) kernel_store \<Rightarrow> ('o, 'd) kernel_store \<times> (store_error + 'o)" where
  "ks_get p k s =
     (case dict_get (as_memory s) k of
        Some h \<Rightarrow> (s, Inr (he_object h))
      | None \<Rightarrow>
          if k \<notin> set (dict_keys (as_lazy s)) then (s, Inl Not_Found_Key)
          else case ks_try_lazy_load p k s of
            (s1, True) \<Rightarrow> (case dict_get (as_memory s1) k of Some h \<Rightarrow> (s1, Inr (he_object h)) | None \<Rightarrow> (s1, Inl Load_Failed))
          | (s1, False) \<Rightarrow> (s1, Inl Load_Failed))"

text \<open>What a listing tells of an artifact: its metadata, whether it is on disk, and whether it is in memory.\<close>

definition in_flow :: "int option \<Rightarrow> artifact_key \<Rightarrow> bool" where
  "in_flow f k \<longleftrightarrow> f = None \<or> f = Some (fst k)"

definition list_where :: "(int \<Rightarrow> bool) \<Rightarrow> int option \<Rightarrow> ('o, 'd) kernel_store \<Rightarrow> (string, artifact_meta \<times> bool \<times> bool) dict" where
  "list_where Q f s =
     (let held = fold (\<lambda>(k, h) r. if in_flow f k \<and> Q (me_node (he_meta h)) then dict_set (me_name (he_meta h)) (he_meta h, he_persisted h, True) r else r)
                   (as_memory s) [] in
      fold (\<lambda>(k, m) r. if in_flow f k \<and> Q (me_node (dk_meta m)) \<and> me_name (dk_meta m) \<notin> set (dict_keys r)
                         then dict_set (me_name (dk_meta m)) (dk_meta m, True, False) r else r) (as_lazy s) held)"

definition ks_list_all :: "int option \<Rightarrow> ('o, 'd) kernel_store \<Rightarrow> (string, artifact_meta \<times> bool \<times> bool) dict" where
  "ks_list_all = list_where (\<lambda>n. True)"

definition ks_list_by_node_id :: "int \<Rightarrow> int option \<Rightarrow> ('o, 'd) kernel_store \<Rightarrow> (string, artifact_meta \<times> bool \<times> bool) dict" where
  "ks_list_by_node_id n = list_where (\<lambda>m. m = n)"

definition ks_clear :: "('d, 'o) persistence option \<Rightarrow> int option \<Rightarrow> ('o, 'd) kernel_store \<Rightarrow> ('o, 'd) kernel_store" where
  "ks_clear p f s =
     s\<lparr>as_memory := filter (\<lambda>(k, h). \<not> in_flow f k) (as_memory s), as_lazy := filter (\<lambda>(k, m). \<not> in_flow f k) (as_lazy s),
       as_disk := (case p of None \<Rightarrow> as_disk s | Some B \<Rightarrow> fst (ps_clear B f (as_disk s)))\<rparr>"

definition of_nodes :: "int list \<Rightarrow> int option \<Rightarrow> artifact_key \<Rightarrow> int \<Rightarrow> bool" where
  "of_nodes ns f k n \<longleftrightarrow> n \<in> set ns \<and> in_flow f k"

definition ks_clear_by_node_ids :: "('d, 'o) persistence option \<Rightarrow> int list \<Rightarrow> int option \<Rightarrow> ('o, 'd) kernel_store \<Rightarrow> ('o, 'd) kernel_store \<times> string list" where
  "ks_clear_by_node_ids p ns f s =
     (let gone = filter (\<lambda>(k, h). of_nodes ns f k (me_node (he_meta h))) (as_memory s);
          lazy = filter (\<lambda>(k, m). of_nodes ns f k (me_node (dk_meta m))) (as_lazy s);
          held = map (\<lambda>(k, h). me_name (he_meta h)) gone;
          names = fold (\<lambda>(k, m) r. if me_name (dk_meta m) \<in> set r then r else r @ [me_name (dk_meta m)]) lazy held
      in (s\<lparr>as_memory := filter (\<lambda>(k, h). \<not> of_nodes ns f k (me_node (he_meta h))) (as_memory s),
            as_lazy := filter (\<lambda>(k, m). \<not> of_nodes ns f k (me_node (dk_meta m))) (as_lazy s),
            as_disk := (case p of None \<Rightarrow> as_disk s | Some B \<Rightarrow> cleanup_names B (map fst gone @ map fst lazy) (as_disk s))\<rparr>, names))"

section \<open>The start of the runtime\<close>

definition new_store :: "'d \<Rightarrow> ('o, 'd) kernel_store" where
  "new_store d = \<lparr>as_memory = [], as_lazy = [], as_disk = d\<rparr>"

definition setup_persistence :: "('d, 'o) persistence option \<Rightarrow> recovery_mode \<Rightarrow> int \<Rightarrow> int \<Rightarrow> 'd \<Rightarrow> ('o, 'd) kernel_store" where
  "setup_persistence p mode max_age now d =
     (case p of
        None \<Rightarrow> new_store d
      | Some B \<Rightarrow>
          let s = new_store (if max_age > 0 then cleanup_old B (now - max_age) d else d) in
          (case mode of
             Eager_Recovery \<Rightarrow> ks_recover_all p s
           | Lazy_Recovery \<Rightarrow> ks_build_lazy_index p s
           | Clear_Recovery \<Rightarrow> s\<lparr>as_disk := fst (ps_clear B None (as_disk s))\<rparr>))"

definition cleanup_artifacts :: "('d, 'o) persistence option \<Rightarrow> artifact_key list \<Rightarrow> int option \<Rightarrow> ('o, 'd) kernel_store \<Rightarrow> ('o, 'd) kernel_store" where
  "cleanup_artifacts p ks cutoff s =
     (case p of
        None \<Rightarrow> s
      | Some B \<Rightarrow>
          let d = cleanup_names B ks (as_disk s);
              d1 = (case cutoff of None \<Rightarrow> d | Some c \<Rightarrow> cleanup_old B c d)
          in ks_build_lazy_index p (s\<lparr>as_disk := d1\<rparr>))"

end
