(* ===== verification/Kernel_Recovery.thy ===== *)
theory Kernel_Recovery
  imports Kernel_Artifacts
begin

text \<open>
  The store of artifacts as a map. The specification forgets memory, index and files: it is a map from flow and name to
  the object, the node that published it, the time it was written, and whether it is loaded. The store implements it for
  every persistence that keeps the laws of the locale \<open>durable\<close>; \<open>Kernel_Disk\<close> shows that the files keep them.
\<close>

section \<open>The specification\<close>

type_synonym 'o artifact_map = "artifact_key \<Rightarrow> ('o \<times> int \<times> int \<times> bool) option"

datatype 'o store_op =
    S_Publish artifact_key 'o int report int
  | S_Delete artifact_key
  | S_Get artifact_key
  | S_Clear "int option"
  | S_Clear_Nodes "int list" "int option"
  | S_Recover
  | S_Restart recovery_mode int int

datatype 'o store_out = Out_Done | Out_Object 'o | Out_Exists | Out_Missing | Out_Load_Failed

definition set_loaded :: "bool \<Rightarrow> 'o artifact_map \<Rightarrow> 'o artifact_map" where
  "set_loaded b m k = map_option (\<lambda>(x, n, t, l). (x, n, t, b)) (m k)"

definition spec_step :: "'o store_op \<Rightarrow> 'o artifact_map \<Rightarrow> 'o artifact_map \<times> 'o store_out" where
  "spec_step op m =
     (case op of
        S_Publish k x n r now \<Rightarrow>
          (case m k of
             Some (y, j, t, True) \<Rightarrow> (m, Out_Exists)
           | _ \<Rightarrow> (m(k \<mapsto> (x, n, now, True)), Out_Done))
      | S_Delete k \<Rightarrow> if m k = None then (m, Out_Missing) else (m(k := None), Out_Done)
      | S_Get k \<Rightarrow>
          (case m k of None \<Rightarrow> (m, Out_Missing) | Some (x, n, t, l) \<Rightarrow> (m(k \<mapsto> (x, n, t, True)), Out_Object x))
      | S_Clear f \<Rightarrow> (\<lambda>k. if in_flow f k then None else m k, Out_Done)
      | S_Clear_Nodes ns f \<Rightarrow>
          (\<lambda>k. case m k of None \<Rightarrow> None | Some (x, n, t, l) \<Rightarrow> if of_nodes ns f k n then None else Some (x, n, t, l), Out_Done)
      | S_Recover \<Rightarrow> (set_loaded True m, Out_Done)
      | S_Restart mode age now \<Rightarrow>
          (let kept = (\<lambda>k. case m k of None \<Rightarrow> None | Some (x, n, t, l) \<Rightarrow> if age > 0 \<and> t < now - age then None else Some (x, n, t, l))
           in (case mode of
                 Eager_Recovery \<Rightarrow> set_loaded True kept
               | Lazy_Recovery \<Rightarrow> set_loaded False kept
               | Clear_Recovery \<Rightarrow> (\<lambda>k. None), Out_Done)))"

definition store_step :: "('d, 'o) persistence option \<Rightarrow> 'o store_op \<Rightarrow> ('o, 'd) kernel_store \<Rightarrow> ('o, 'd) kernel_store \<times> 'o store_out" where
  "store_step p op s =
     (case op of
        S_Publish k x n r now \<Rightarrow> (case ks_publish p k x n r now s of (s1, Inl e) \<Rightarrow> (s1, Out_Exists) | (s1, Inr u) \<Rightarrow> (s1, Out_Done))
      | S_Delete k \<Rightarrow> (case ks_delete p k s of (s1, Inl e) \<Rightarrow> (s1, Out_Missing) | (s1, Inr u) \<Rightarrow> (s1, Out_Done))
      | S_Get k \<Rightarrow>
          (case ks_get p k s of
             (s1, Inl Load_Failed) \<Rightarrow> (s1, Out_Load_Failed)
           | (s1, Inl e) \<Rightarrow> (s1, Out_Missing)
           | (s1, Inr x) \<Rightarrow> (s1, Out_Object x))
      | S_Clear f \<Rightarrow> (ks_clear p f s, Out_Done)
      | S_Clear_Nodes ns f \<Rightarrow> (fst (ks_clear_by_node_ids p ns f s), Out_Done)
      | S_Recover \<Rightarrow> (ks_recover_all p s, Out_Done)
      | S_Restart mode age now \<Rightarrow> (setup_persistence p mode age now (as_disk s), Out_Done))"

fun outputs :: "('a \<Rightarrow> 's \<Rightarrow> 's \<times> 'b) \<Rightarrow> 'a list \<Rightarrow> 's \<Rightarrow> 'b list" where
  "outputs f [] s = []"
| "outputs f (a # as) s = (case f a s of (s1, b) \<Rightarrow> b # outputs f as s1)"

lemma outputs_simulation:
  assumes "I s" and "h s = t" and "list_all Q as"
    and step: "\<And>a s. I s \<Longrightarrow> Q a \<Longrightarrow> I (fst (f a s)) \<and> g a (h s) = (h (fst (f a s)), snd (f a s))"
  shows "outputs f as s = outputs g as t"
  using assms(1-3)
proof (induction as arbitrary: s t)
  case (Cons a as)
  then have "I s" "Q a" by simp_all
  note st = step[OF this]
  obtain s1 b where f: "f a s = (s1, b)" by fastforce
  with st Cons show ?case by auto
qed simp

section \<open>The contract of a persistence\<close>

definition stamp :: "disk_meta \<Rightarrow> artifact_meta \<times> int" where
  "stamp m = (dk_meta m, dk_at m)"

definition listing :: "('d, 'o) persistence \<Rightarrow> 'd \<Rightarrow> artifact_key \<Rightarrow> (artifact_meta \<times> int) option" where
  "listing B d k = map_option stamp (dict_get (ps_list B d) k)"

text \<open>
  What is saved is listed and loaded until it is deleted, and no other artifact is touched. The names \<open>K\<close> and the objects
  \<open>storable\<close> are those that the persistence can keep apart and serialize.
\<close>

locale durable =
  fixes B :: "('d, 'o) persistence" and ok :: "'d \<Rightarrow> bool" and K :: "artifact_key set" and storable :: "'o \<Rightarrow> bool"
  assumes distinct_listing: "ok d \<Longrightarrow> dict_ok (ps_list B d)"
    and listed_names: "ok d \<Longrightarrow> listing B d k = Some (m, t) \<Longrightarrow> k \<in> K \<and> (me_flow m, me_name m) = k"
    and listed_loads: "ok d \<Longrightarrow> listing B d k \<noteq> None \<Longrightarrow> ps_load B d k \<noteq> None"
    and save: "ok d \<Longrightarrow> k \<in> K \<Longrightarrow> storable x \<Longrightarrow> (me_flow m, me_name m) = k \<Longrightarrow>
      ok (fst (ps_save B k x m now d)) \<and> snd (ps_save B k x m now d)
      \<and> listing B (fst (ps_save B k x m now d)) = (listing B d)(k \<mapsto> (m, now))
      \<and> ps_load B (fst (ps_save B k x m now d)) k = Some x
      \<and> (\<forall>j. listing B d j \<noteq> None \<longrightarrow> j \<noteq> k \<longrightarrow> ps_load B (fst (ps_save B k x m now d)) j = ps_load B d j)"
    and delete: "ok d \<Longrightarrow> k \<in> K \<Longrightarrow>
      ok (fst (ps_delete B k d)) \<and> listing B (fst (ps_delete B k d)) = (listing B d)(k := None)
      \<and> (\<forall>j. listing B d j \<noteq> None \<longrightarrow> j \<noteq> k \<longrightarrow> ps_load B (fst (ps_delete B k d)) j = ps_load B d j)"
    and clear: "ok d \<Longrightarrow>
      ok (fst (ps_clear B f d)) \<and> listing B (fst (ps_clear B f d)) = (\<lambda>k. if in_flow f k then None else listing B d k)
      \<and> (\<forall>j. listing B d j \<noteq> None \<longrightarrow> \<not> in_flow f j \<longrightarrow> ps_load B (fst (ps_clear B f d)) j = ps_load B d j)"
begin

definition content :: "'d \<Rightarrow> artifact_key \<Rightarrow> ('o \<times> artifact_meta \<times> int) option" where
  "content d k = (case listing B d k of None \<Rightarrow> None | Some i \<Rightarrow> map_option (\<lambda>x. (x, i)) (ps_load B d k))"

lemma content_None: "ok d \<Longrightarrow> content d k = None \<longleftrightarrow> listing B d k = None"
  using listed_loads[of d k] by (auto simp: content_def split: option.splits)

lemma content_keys: "ok d \<Longrightarrow> content d k = Some (x, m, t) \<Longrightarrow> k \<in> K \<and> (me_flow m, me_name m) = k"
  using listed_names[of d k m t] by (auto simp: content_def split: option.splits)

lemma content_names: "ok d \<Longrightarrow> content d k = Some i \<Longrightarrow> k \<in> K"
  by (cases i) (use content_keys[of d k] in auto)

lemma recovered_content: "ok d \<Longrightarrow> content d k = Some (x, stamp m) \<Longrightarrow> he_meta (recovered k y m) = dk_meta m \<and> he_object (recovered k y m) = y"
  using content_keys[of d k x "dk_meta m" "dk_at m"] by (cases k) (simp add: recovered_def stamp_def)

lemma content_Some: "content d k = Some (x, i) \<Longrightarrow> ps_load B d k = Some x \<and> listing B d k = Some i"
  by (auto simp: content_def split: option.splits)

lemma content_save:
  assumes "ok d" "k \<in> K" "storable x" "(me_flow m, me_name m) = k"
  shows "content (fst (ps_save B k x m now d)) = (content d)(k \<mapsto> (x, m, now))"
proof
  fix j
  show "content (fst (ps_save B k x m now d)) j = ((content d)(k \<mapsto> (x, m, now))) j"
    using save[OF assms, of now] by (cases "listing B d j") (auto simp: content_def simp del: split_paired_All split_paired_Ex)
qed

lemma content_delete:
  assumes "ok d" "k \<in> K"
  shows "content (fst (ps_delete B k d)) = (content d)(k := None)"
proof
  fix j
  show "content (fst (ps_delete B k d)) j = ((content d)(k := None)) j"
    using delete[OF assms] by (cases "listing B d j") (auto simp: content_def simp del: split_paired_All split_paired_Ex)
qed

lemma content_clear:
  assumes "ok d"
  shows "content (fst (ps_clear B f d)) = (\<lambda>k. if in_flow f k then None else content d k)"
proof
  fix j
  show "content (fst (ps_clear B f d)) j = (if in_flow f j then None else content d j)"
    using clear[OF assms, of f] by (cases "listing B d j") (auto simp: content_def simp del: split_paired_All split_paired_Ex)
qed

text \<open>The map that a store stands for, and what ties memory, index and files together.\<close>

definition view :: "('o, 'd) kernel_store \<Rightarrow> 'o artifact_map" where
  "view s k = map_option (\<lambda>(x, m, t). (x, me_node m, t, k \<in> dom (dict_get (as_memory s)))) (content (as_disk s) k)"

definition sound :: "('o, 'd) kernel_store \<Rightarrow> bool" where
  "sound s \<longleftrightarrow>
     ok (as_disk s) \<and> dict_ok (as_memory s) \<and> dict_ok (as_lazy s) \<and>
     (\<forall>k. content (as_disk s) k \<noteq> None \<longrightarrow> k \<in> dom (dict_get (as_memory s)) \<union> dom (dict_get (as_lazy s))) \<and>
     (\<forall>k h. dict_get (as_memory s) k = Some h \<longrightarrow> (\<exists>t. content (as_disk s) k = Some (he_object h, he_meta h, t))) \<and>
     (\<forall>k m. dict_get (as_lazy s) k = Some m \<longrightarrow> (\<exists>x. content (as_disk s) k = Some (x, stamp m)))"

lemma soundD:
  assumes "sound s"
  shows "ok (as_disk s)" "dict_ok (as_memory s)" "dict_ok (as_lazy s)"
    and "content (as_disk s) k = Some i \<Longrightarrow> dict_get (as_memory s) k = None \<Longrightarrow> \<exists>m. dict_get (as_lazy s) k = Some m"
    and "dict_get (as_memory s) k = Some h \<Longrightarrow> \<exists>t. content (as_disk s) k = Some (he_object h, he_meta h, t)"
    and "dict_get (as_lazy s) k = Some m \<Longrightarrow> \<exists>x. content (as_disk s) k = Some (x, stamp m)"
  using assms unfolding sound_def by (blast intro: domI)+

lemma soundI:
  assumes "ok (as_disk s)" and "dict_ok (as_memory s)" and "dict_ok (as_lazy s)"
    and "\<And>k i. content (as_disk s) k = Some i \<Longrightarrow> dict_get (as_memory s) k = None \<Longrightarrow> \<exists>m. dict_get (as_lazy s) k = Some m"
    and "\<And>k h. dict_get (as_memory s) k = Some h \<Longrightarrow> \<exists>t. content (as_disk s) k = Some (he_object h, he_meta h, t)"
    and "\<And>k m. dict_get (as_lazy s) k = Some m \<Longrightarrow> \<exists>x. content (as_disk s) k = Some (x, stamp m)"
  shows "sound s"
  unfolding sound_def
proof (intro conjI allI impI)
  fix k assume "content (as_disk s) k \<noteq> None"
  then obtain i where "content (as_disk s) k = Some i" by blast
  with assms(4)[of k i] show "k \<in> dom (dict_get (as_memory s)) \<union> dom (dict_get (as_lazy s))"
    by (cases "dict_get (as_memory s) k") auto
qed (use assms in simp_all)

lemma view_None: "sound s \<Longrightarrow> view s k = None \<longleftrightarrow> k \<notin> dom (dict_get (as_memory s)) \<and> k \<notin> dom (dict_get (as_lazy s))"
  using soundD(4)[of s k] soundD(5)[of s k] soundD(6)[of s k]
  by (cases "content (as_disk s) k"; cases "dict_get (as_memory s) k"; cases "dict_get (as_lazy s) k") (auto simp: view_def)

definition good_op :: "'o store_op \<Rightarrow> bool" where
  "good_op op \<longleftrightarrow> (case op of S_Publish k x n r now \<Rightarrow> k \<in> K \<and> storable x | _ \<Rightarrow> True)"

definition simulates :: "'o store_op \<Rightarrow> ('o, 'd) kernel_store \<Rightarrow> bool" where
  "simulates op s \<longleftrightarrow>
     sound (fst (store_step (Some B) op s)) \<and> spec_step op (view s) = (view (fst (store_step (Some B) op s)), snd (store_step (Some B) op s))"

lemma publish_simulates:
  assumes "sound s" and "k \<in> K" "storable x"
  shows "simulates (S_Publish k x n r now) s"
proof (cases "dict_get (as_memory s) k")
  case (Some h)
  with soundD(5)[OF assms(1) Some] assms(1) show ?thesis
    by (auto simp: simulates_def store_step_def ks_publish_def publish_begin_def spec_step_def view_def split: bool.split)
next
  case None
  note d = soundD(1)[OF assms(1)]
  let ?m = "new_meta k n r"
  have m: "(me_flow ?m, me_name ?m) = k" and node: "me_node ?m = n" by (simp_all add: new_meta_def)
  let ?d = "fst (ps_save B k x ?m now (as_disk s))"
  note law = save[OF d assms(2,3) m, of now] and c = content_save[OF d assms(2,3) m, of now]
  let ?h = "\<lparr>he_object = x, he_meta = ?m, he_persisted = True, he_pending = False, he_recovered = False\<rparr>"
  let ?s = "s\<lparr>as_memory := dict_set k ?h (dict_set k (?h\<lparr>he_persisted := False, he_pending := True\<rparr>) (as_memory s)), as_lazy := dict_pop k (as_lazy s), as_disk := ?d\<rparr>"
  have step: "store_step (Some B) (S_Publish k x n r now) s = (?s, Out_Done)"
    using None law
    by (cases "ps_save B k x ?m now (as_disk s)") (simp add: store_step_def ks_publish_def publish_begin_def publish_save_def)
  have inv: "sound ?s"
    using assms(1) law c unfolding sound_def by (auto simp del: split_paired_All split_paired_Ex split: if_splits)
  have "view ?s = (view s)(k \<mapsto> (x, n, now, True))"
    by (auto simp: view_def c node fun_eq_iff domIff simp del: split_paired_All split_paired_Ex)
  moreover have "spec_step (S_Publish k x n r now) (view s) = ((view s)(k \<mapsto> (x, n, now, True)), Out_Done)"
    using None by (auto simp: spec_step_def view_def domIff split: option.split bool.split)
  ultimately show ?thesis using step inv by (simp add: simulates_def)
qed

lemma delete_simulates:
  assumes "sound s"
  shows "simulates (S_Delete k) s"
proof (cases "view s k")
  case None
  with view_None[OF assms, of k] assms show ?thesis
    by (simp add: simulates_def store_step_def ks_delete_def spec_step_def)
next
  case (Some i)
  note d = soundD(1)[OF assms]
  have k: "k \<in> K" using Some content_names[OF d, of k] by (auto simp: view_def)
  let ?d = "fst (ps_delete B k (as_disk s))"
  let ?s = "s\<lparr>as_memory := dict_pop k (as_memory s), as_lazy := dict_pop k (as_lazy s), as_disk := ?d\<rparr>"
  have step: "store_step (Some B) (S_Delete k) s = (?s, Out_Done)"
    using Some view_None[OF assms, of k] by (auto simp: store_step_def ks_delete_def)
  have "sound ?s" using assms delete[OF d k] content_delete[OF d k] unfolding sound_def by (auto simp del: split_paired_All split_paired_Ex split: if_splits)
  moreover have "view ?s = (view s)(k := None)" by (auto simp: view_def content_delete[OF d k] fun_eq_iff domIff simp del: split_paired_All split_paired_Ex)
  ultimately show ?thesis using step Some by (simp add: simulates_def spec_step_def)
qed

lemma get_simulates:
  assumes "sound s"
  shows "simulates (S_Get k) s"
proof (cases "dict_get (as_memory s) k")
  case (Some h)
  with soundD(5)[OF assms Some] assms show ?thesis
    by (auto simp: simulates_def store_step_def ks_get_def spec_step_def view_def fun_eq_iff domIff simp del: split_paired_All split_paired_Ex)
next
  case None
  show ?thesis
  proof (cases "dict_get (as_lazy s) k")
    case lazy: None
    with None view_None[OF assms, of k] assms show ?thesis
      by (simp add: simulates_def store_step_def ks_get_def spec_step_def domIff)
  next
    case (Some m)
    from soundD(6)[OF assms Some] obtain x where x: "content (as_disk s) k = Some (x, stamp m)" by blast
    then have load: "ps_load B (as_disk s) k = Some x" using content_Some by blast
    let ?s = "s\<lparr>as_lazy := dict_pop k (as_lazy s), as_memory := dict_set k (recovered k x m) (as_memory s)\<rparr>"
    have step: "store_step (Some B) (S_Get k) s = (?s, Out_Object x)"
      using None Some load by (auto simp: store_step_def ks_get_def ks_try_lazy_load_def recovered_def)
    note same = recovered_content[OF soundD(1)[OF assms] x, of x]
    have "sound ?s" using assms x same unfolding sound_def by (auto simp: stamp_def simp del: split_paired_All split_paired_Ex split: if_splits)
    moreover have "view s k = Some (x, me_node (dk_meta m), dk_at m, False)" using x None by (simp add: view_def stamp_def domIff)
    moreover have "view ?s = (view s)(k \<mapsto> (x, me_node (dk_meta m), dk_at m, True))"
      using x by (auto simp: view_def stamp_def fun_eq_iff domIff simp del: split_paired_All split_paired_Ex)
    ultimately show ?thesis using step by (simp add: simulates_def spec_step_def)
  qed
qed

text \<open>Deleting several artifacts, as the removal by node and the removal by age do.\<close>

lemma content_names_dropped:
  "ok d \<Longrightarrow> set ks \<subseteq> K \<Longrightarrow> ok (cleanup_names B ks d) \<and> content (cleanup_names B ks d) = (\<lambda>k. if k \<in> set ks then None else content d k)"
proof (induction ks arbitrary: d)
  case (Cons k ks)
  then have k: "k \<in> K" "set ks \<subseteq> K" by simp_all
  let ?d = "fst (ps_delete B k d)"
  have "ok ?d" using delete[OF Cons.prems(1) k(1)] by simp
  from Cons.IH[OF this k(2)] content_delete[OF Cons.prems(1) k(1)] show ?case
    by (auto simp: cleanup_names_def fun_eq_iff simp del: split_paired_All)
qed (simp add: cleanup_names_def)

lemma cleanup_old_names:
  "cleanup_old B c d = cleanup_names B (map fst (filter (\<lambda>(k, m). dk_at m < c) (ps_list B d))) d"
proof -
  have "fold (\<lambda>(k, m) d. if dk_at m < c then fst (ps_delete B k d) else d) L e =
      fold (\<lambda>k d. fst (ps_delete B k d)) (map fst (filter (\<lambda>(k, m). dk_at m < c) L)) e" for L e
    by (induction L arbitrary: e) auto
  then show ?thesis by (simp add: cleanup_old_def cleanup_names_def)
qed

lemma listed_content:
  assumes "ok d"
  shows "(k, m) \<in> set (ps_list B d) \<longleftrightarrow> (\<exists>x. content d k = Some (x, stamp m)) \<and> dict_get (ps_list B d) k = Some m"
proof
  assume "(k, m) \<in> set (ps_list B d)"
  then have m: "dict_get (ps_list B d) k = Some m" using dict_get_in_iff[OF distinct_listing[OF assms]] by metis
  then have "listing B d k = Some (stamp m)" by (simp add: listing_def)
  moreover from this listed_loads[OF assms, of k] obtain x where "ps_load B d k = Some x" by auto
  ultimately show "(\<exists>x. content d k = Some (x, stamp m)) \<and> dict_get (ps_list B d) k = Some m" using m by (simp add: content_def)
qed (use dict_get_in_iff[OF distinct_listing[OF assms]] in blast)

lemma content_listed: "content d k = Some (x, i) \<Longrightarrow> \<exists>m. dict_get (ps_list B d) k = Some m \<and> i = stamp m"
  by (auto dest!: content_Some simp: listing_def)

lemma content_cleanup_old:
  assumes "ok d"
  shows "ok (cleanup_old B c d) \<and> content (cleanup_old B c d) =
    (\<lambda>k. case content d k of None \<Rightarrow> None | Some (x, m, t) \<Rightarrow> if t < c then None else Some (x, m, t))"
proof -
  let ?ks = "map fst (filter (\<lambda>(k, m). dk_at m < c) (ps_list B d))"
  have ks: "k \<in> set ?ks \<longleftrightarrow> (\<exists>x m t. content d k = Some (x, m, t) \<and> t < c)" for k
  proof
    assume "k \<in> set ?ks"
    then obtain m where "(k, m) \<in> set (ps_list B d)" "dk_at m < c" by auto
    then show "\<exists>x m t. content d k = Some (x, m, t) \<and> t < c" using listed_content[OF assms, of k m] by (auto simp: stamp_def)
  next
    assume "\<exists>x m t. content d k = Some (x, m, t) \<and> t < c"
    then obtain x m t where x: "content d k = Some (x, m, t)" "t < c" by blast
    from content_listed[OF this(1)] obtain dm where dm: "dict_get (ps_list B d) k = Some dm" "(m, t) = stamp dm" by blast
    with x listed_content[OF assms, of k dm] have "(k, dm) \<in> set (ps_list B d)" "dk_at dm < c" by (auto simp: stamp_def)
    then show "k \<in> set ?ks" by force
  qed
  then have "set ?ks \<subseteq> K" using content_names[OF assms] by blast
  from content_names_dropped[OF assms this] ks show ?thesis
    unfolding cleanup_old_names by (auto simp: fun_eq_iff simp del: split_paired_All split: option.split)
qed

lemma clear_simulates:
  assumes "sound s"
  shows "simulates (S_Clear f) s"
proof -
  note d = soundD(1)[OF assms]
  let ?s = "ks_clear (Some B) f s"
  have mem: "dict_get (as_memory ?s) k = (if in_flow f k then None else dict_get (as_memory s) k)" for k
    using map_of_filter_dict[OF soundD(2)[OF assms], of "\<lambda>k v. \<not> in_flow f k" k] by (auto simp: ks_clear_def split: option.split)
  have lazy: "dict_get (as_lazy ?s) k = (if in_flow f k then None else dict_get (as_lazy s) k)" for k
    using map_of_filter_dict[OF soundD(3)[OF assms], of "\<lambda>k v. \<not> in_flow f k" k] by (auto simp: ks_clear_def split: option.split)
  have disk: "content (as_disk ?s) k = (if in_flow f k then None else content (as_disk s) k)" "ok (as_disk ?s)" for k
    using content_clear[OF d, of f] clear[OF d, of f] by (simp_all add: ks_clear_def)
  have dicts: "dict_ok (as_memory ?s)" "dict_ok (as_lazy ?s)"
    using assms by (simp_all add: ks_clear_def sound_def dict_ok_filter)
  have "sound ?s"
    by (rule soundI[OF disk(2) dicts]; unfold mem lazy disk(1))
      (use soundD(4-6)[OF assms] in \<open>auto split: if_splits simp del: split_paired_All split_paired_Ex\<close>)
  moreover have "view ?s k = (if in_flow f k then None else view s k)" for k
    by (auto simp: view_def mem disk(1) domIff)
  ultimately show ?thesis by (auto simp: simulates_def store_step_def spec_step_def)
qed

lemma clear_nodes_simulates:
  assumes "sound s"
  shows "simulates (S_Clear_Nodes ns f) s"
proof -
  note d = soundD(1)[OF assms] and dicts = soundD(2,3)[OF assms]
  let ?Q = "\<lambda>k h. of_nodes ns f k (me_node (he_meta h))" and ?R = "\<lambda>k m. of_nodes ns f k (me_node (dk_meta m))"
  let ?ks = "map fst (filter (\<lambda>(k, h). ?Q k h) (as_memory s)) @ map fst (filter (\<lambda>(k, m). ?R k m) (as_lazy s))"
  let ?s = "fst (ks_clear_by_node_ids (Some B) ns f s)"
  have ks: "k \<in> set ?ks \<longleftrightarrow> (\<exists>x m t. content (as_disk s) k = Some (x, m, t) \<and> of_nodes ns f k (me_node m))" for k
  proof
    assume "k \<in> set ?ks"
    then consider h where "dict_get (as_memory s) k = Some h" "?Q k h" | m where "dict_get (as_lazy s) k = Some m" "?R k m"
      using dict_get_in_iff[OF dicts(1)] dict_get_in_iff[OF dicts(2)] by auto
    then show "\<exists>x m t. content (as_disk s) k = Some (x, m, t) \<and> of_nodes ns f k (me_node m)"
      using soundD(5,6)[OF assms, of k] by cases (fastforce simp: stamp_def)+
  next
    assume "\<exists>x m t. content (as_disk s) k = Some (x, m, t) \<and> of_nodes ns f k (me_node m)"
    then obtain x m t where x: "content (as_disk s) k = Some (x, m, t)" "of_nodes ns f k (me_node m)" by blast
    show "k \<in> set ?ks"
    proof (cases "dict_get (as_memory s) k")
      case (Some h)
      with soundD(5)[OF assms Some] x have "?Q k h" by auto
      with Some have "(k, h) \<in> set (filter (\<lambda>(k, h). ?Q k h) (as_memory s))" by (simp add: map_of_SomeD)
      then show ?thesis by force
    next
      case None
      from soundD(4)[OF assms x(1) None] obtain m' where m': "dict_get (as_lazy s) k = Some m'" by blast
      with soundD(6)[OF assms m'] x have "?R k m'" by (auto simp: stamp_def)
      with m' have "(k, m') \<in> set (filter (\<lambda>(k, m). ?R k m) (as_lazy s))" by (simp add: map_of_SomeD)
      then show ?thesis by force
    qed
  qed
  have "set ?ks \<subseteq> K" using ks content_names[OF d] by blast
  note drop = content_names_dropped[OF d this]
  have disk: "content (as_disk ?s) k = (case content (as_disk s) k of None \<Rightarrow> None
      | Some (x, m, t) \<Rightarrow> if of_nodes ns f k (me_node m) then None else Some (x, m, t))" "ok (as_disk ?s)" for k
    using drop ks[of k] by (auto simp: ks_clear_by_node_ids_def Let_def split: option.split simp del: set_append)
  have mem: "dict_get (as_memory ?s) k = (case dict_get (as_memory s) k of None \<Rightarrow> None | Some h \<Rightarrow> if ?Q k h then None else Some h)" for k
    using map_of_filter_dict[OF dicts(1), of "\<lambda>k h. \<not> ?Q k h" k] by (auto simp: ks_clear_by_node_ids_def Let_def split: option.split)
  have lazy: "dict_get (as_lazy ?s) k = (case dict_get (as_lazy s) k of None \<Rightarrow> None | Some m \<Rightarrow> if ?R k m then None else Some m)" for k
    using map_of_filter_dict[OF dicts(2), of "\<lambda>k m. \<not> ?R k m" k] by (auto simp: ks_clear_by_node_ids_def Let_def split: option.split)
  have "dict_ok (as_memory ?s)" "dict_ok (as_lazy ?s)" using dicts by (simp_all add: ks_clear_by_node_ids_def Let_def dict_ok_filter)
  then have sound: "sound ?s"
  proof (rule soundI[OF disk(2)])
    fix k i assume i: "content (as_disk ?s) k = Some i" and none: "dict_get (as_memory ?s) k = None"
    obtain x m t where x: "content (as_disk s) k = Some (x, m, t)" "\<not> of_nodes ns f k (me_node m)"
      using i unfolding disk(1) by (auto split: option.splits if_splits)
    have "dict_get (as_memory s) k = None"
    proof (cases "dict_get (as_memory s) k")
      case (Some h)
      with soundD(5)[OF assms Some] x none show ?thesis unfolding mem by auto
    qed
    from soundD(4)[OF assms x(1) this] obtain m' where m': "dict_get (as_lazy s) k = Some m'" by blast
    with soundD(6)[OF assms m'] x show "\<exists>m. dict_get (as_lazy ?s) k = Some m" unfolding lazy by (auto simp: stamp_def)
  next
    fix k h assume "dict_get (as_memory ?s) k = Some h"
    then have "dict_get (as_memory s) k = Some h" "\<not> ?Q k h" unfolding mem by (auto split: option.splits if_splits)
    with soundD(5)[OF assms this(1)] show "\<exists>t. content (as_disk ?s) k = Some (he_object h, he_meta h, t)" unfolding disk(1) by auto
  next
    fix k m assume "dict_get (as_lazy ?s) k = Some m"
    then have "dict_get (as_lazy s) k = Some m" "\<not> ?R k m" unfolding lazy by (auto split: option.splits if_splits)
    with soundD(6)[OF assms this(1)] show "\<exists>x. content (as_disk ?s) k = Some (x, stamp m)" unfolding disk(1) by (auto simp: stamp_def)
  qed
  have "view ?s k = (case view s k of None \<Rightarrow> None | Some (x, n, t, l) \<Rightarrow> if of_nodes ns f k n then None else Some (x, n, t, l))" for k
  proof (cases "content (as_disk s) k")
    case None
    then show ?thesis by (simp add: view_def disk(1))
  next
    case (Some i)
    obtain x m t where i: "i = (x, m, t)" by (cases i)
    show ?thesis
    proof (cases "dict_get (as_memory s) k")
      case None
      with Some i show ?thesis by (simp add: view_def disk(1) domIff mem)
    next
      case h: (Some h)
      with soundD(5)[OF assms h] Some i have "he_meta h = m" by auto
      with Some i h show ?thesis by (simp add: view_def disk(1) domIff mem)
    qed
  qed
  with sound show ?thesis by (auto simp: simulates_def store_step_def spec_step_def)
qed

text \<open>Loading everything, and the start of the runtime.\<close>

lemma fold_recover_one:
  "as_disk (fold (recover_one B) L s) = as_disk s \<and> as_lazy (fold (recover_one B) L s) = as_lazy s
   \<and> (dict_ok (as_memory s) \<longrightarrow> dict_ok (as_memory (fold (recover_one B) L s)))
   \<and> dict_get (as_memory (fold (recover_one B) L s)) k =
     (case dict_get (as_memory s) k of
        Some h \<Rightarrow> Some h
      | None \<Rightarrow>
          (case map_of L k of None \<Rightarrow> None | Some m \<Rightarrow> map_option (\<lambda>x. recovered k x m) (ps_load B (as_disk s) k)))"
proof (induction L arbitrary: s)
  case (Cons e L)
  obtain j m where e: "e = (j, m)" by (cases e)
  show ?case
  proof (cases "j \<in> dom (dict_get (as_memory s)) \<or> ps_load B (as_disk s) j = None")
    case True
    then have "recover_one B e s = s" by (auto simp: recover_one_def e)
    with Cons[of s] True show ?thesis by (auto simp: e split: option.splits)
  next
    case False
    then obtain x where x: "ps_load B (as_disk s) j = Some x" "dict_get (as_memory s) j = None" by auto
    then have "recover_one B e s = s\<lparr>as_memory := dict_set j (recovered j x m) (as_memory s)\<rparr>" by (simp add: recover_one_def e domIff)
    with Cons[of "s\<lparr>as_memory := dict_set j (recovered j x m) (as_memory s)\<rparr>"] x show ?thesis by (auto simp: e split: option.splits)
  qed
qed (simp split: option.split)

lemma recover_all_sound:
  assumes d: "ok (as_disk s)" and dicts: "dict_ok (as_memory s)" "dict_ok (as_lazy s)"
    and mem: "\<And>k h. dict_get (as_memory s) k = Some h \<Longrightarrow> \<exists>t. content (as_disk s) k = Some (he_object h, he_meta h, t)"
    and lazy: "\<And>k m. dict_get (as_lazy s) k = Some m \<Longrightarrow> \<exists>x. content (as_disk s) k = Some (x, stamp m)"
  shows "sound (ks_recover_all (Some B) s) \<and> as_disk (ks_recover_all (Some B) s) = as_disk s
    \<and> dom (dict_get (as_memory (ks_recover_all (Some B) s))) = dom (content (as_disk s))"
proof -
  let ?s = "ks_recover_all (Some B) s"
  have frame: "as_disk ?s = as_disk s" "as_lazy ?s = as_lazy s" "dict_ok (as_memory ?s)"
    using fold_recover_one[of "ps_list B (as_disk s)" s] dicts by (simp_all add: ks_recover_all_def)
  have get: "dict_get (as_memory ?s) k = (case dict_get (as_memory s) k of Some h \<Rightarrow> Some h
      | None \<Rightarrow> (case dict_get (ps_list B (as_disk s)) k of None \<Rightarrow> None | Some m \<Rightarrow> map_option (\<lambda>x. recovered k x m) (ps_load B (as_disk s) k)))" for k
    using fold_recover_one[of "ps_list B (as_disk s)" s k] by (simp add: ks_recover_all_def)
  have held: "\<exists>h. dict_get (as_memory ?s) k = Some h" if "content (as_disk s) k = Some i" for k i
  proof -
    obtain x j where "i = (x, j)" by (cases i)
    with that content_listed[of "as_disk s" k x j] content_Some[of "as_disk s" k x j] show ?thesis
      unfolding get by (auto split: option.split)
  qed
  have held_content: "\<exists>t. content (as_disk s) k = Some (he_object h, he_meta h, t)" if "dict_get (as_memory ?s) k = Some h" for k h
  proof (cases "dict_get (as_memory s) k")
    case (Some g)
    with that mem[OF Some] show ?thesis unfolding get by simp
  next
    case None
    with that obtain m x where "dict_get (ps_list B (as_disk s)) k = Some m" "ps_load B (as_disk s) k = Some x" "h = recovered k x m"
      unfolding get by (auto split: option.splits)
    then have c: "content (as_disk s) k = Some (x, stamp m)" and h: "h = recovered k x m"
      by (simp_all add: content_def listing_def)
    from recovered_content[OF d c, of x] c show ?thesis by (simp add: h stamp_def)
  qed
  have "sound ?s"
  proof (rule soundI)
    fix k i assume "content (as_disk ?s) k = Some i" and none: "dict_get (as_memory ?s) k = None"
    then have "content (as_disk s) k = Some i" unfolding frame(1) by simp
    from held[OF this] none show "\<exists>m. dict_get (as_lazy ?s) k = Some m" by simp
  next
    fix k h assume "dict_get (as_memory ?s) k = Some h"
    then show "\<exists>t. content (as_disk ?s) k = Some (he_object h, he_meta h, t)" unfolding frame(1) by (rule held_content)
  next
    fix k m assume "dict_get (as_lazy ?s) k = Some m"
    then show "\<exists>x. content (as_disk ?s) k = Some (x, stamp m)" unfolding frame(1,2) by (rule lazy)
  qed (simp_all add: frame d dicts)
  moreover have "dom (dict_get (as_memory ?s)) = dom (content (as_disk s))"
  proof (intro set_eqI iffI)
    fix k assume "k \<in> dom (dict_get (as_memory ?s))"
    then obtain h where "dict_get (as_memory ?s) k = Some h" by blast
    from held_content[OF this] show "k \<in> dom (content (as_disk s))" by blast
  next
    fix k assume "k \<in> dom (content (as_disk s))"
    then obtain i where "content (as_disk s) k = Some i" by blast
    from held[OF this] show "k \<in> dom (dict_get (as_memory ?s))" by blast
  qed
  ultimately show ?thesis using frame by simp
qed

lemma recover_simulates:
  assumes "sound s"
  shows "simulates S_Recover s"
proof -
  note r = recover_all_sound[OF soundD(1-3)[OF assms] soundD(5,6)[OF assms]]
  have "view (ks_recover_all (Some B) s) k = set_loaded True (view s) k" for k
    using r by (cases "content (as_disk s) k") (auto simp: view_def set_loaded_def)
  with r show ?thesis by (auto simp: simulates_def store_step_def spec_step_def)
qed

lemma fold_index_one:
  assumes "as_memory s = []"
  shows "as_disk (fold index_one L s) = as_disk s \<and> as_memory (fold index_one L s) = []
    \<and> (dict_ok (as_lazy s) \<longrightarrow> dict_ok (as_lazy (fold index_one L s)))
    \<and> dict_get (as_lazy (fold index_one L s)) k = (case map_of (rev L) k of Some m \<Rightarrow> Some m | None \<Rightarrow> dict_get (as_lazy s) k)"
  using assms
proof (induction L arbitrary: s)
  case (Cons e L)
  obtain j m where e: "e = (j, m)" by (cases e)
  from Cons.IH[of "s\<lparr>as_lazy := dict_set j m (as_lazy s)\<rparr>"] Cons.prems show ?case
    by (auto simp: e index_one_def map_add_def split: option.splits)
qed simp

lemma restart_simulates:
  assumes "sound s"
  shows "simulates (S_Restart mode age now) s"
proof -
  let ?d = "if age > 0 then cleanup_old B (now - age) (as_disk s) else as_disk s"
  let ?n = "new_store ?d :: ('o, 'd) kernel_store"
  let ?kept = "\<lambda>k. case view s k of None \<Rightarrow> None | Some (x, n, t, l) \<Rightarrow> if age > 0 \<and> t < now - age then None else Some (x, n, t, l)"
  note d = soundD(1)[OF assms]
  have ok: "ok ?d" using d content_cleanup_old[OF d] by simp
  have content: "content ?d k = (case content (as_disk s) k of None \<Rightarrow> None
      | Some (x, m, t) \<Rightarrow> if age > 0 \<and> t < now - age then None else Some (x, m, t))" for k
    using content_cleanup_old[OF d, of "now - age"] by (auto split: option.split)
  show ?thesis
  proof (cases mode)
    case Lazy_Recovery
    let ?s = "ks_build_lazy_index (Some B) ?n"
    have frame: "as_disk ?s = ?d" "as_memory ?s = []" "dict_ok (as_lazy ?s)"
      using fold_index_one[of ?n "ps_list B ?d"] by (simp_all add: ks_build_lazy_index_def new_store_def)
    have lazy: "dict_get (as_lazy ?s) k = dict_get (ps_list B ?d) k" for k
      using fold_index_one[of ?n "ps_list B ?d" k] distinct_listing[OF ok]
      by (simp add: ks_build_lazy_index_def new_store_def dict_ok_def map_of_rev_dict split: option.split)
    have "sound ?s"
    proof (rule soundI)
      fix k i assume "content (as_disk ?s) k = Some i"
      then show "\<exists>m. dict_get (as_lazy ?s) k = Some m" using content_listed[of ?d k] unfolding lazy frame(1) by (cases i) auto
    next
      fix k m assume "dict_get (as_lazy ?s) k = Some m"
      then have "(k, m) \<in> set (ps_list B ?d)" unfolding lazy by (rule map_of_SomeD)
      then show "\<exists>x. content (as_disk ?s) k = Some (x, stamp m)" unfolding frame(1) using listed_content[OF ok] by blast
    qed (simp_all add: frame ok)
    moreover have "view ?s k = set_loaded False ?kept k" for k
      unfolding view_def frame(1,2) content by (cases "content (as_disk s) k") (auto simp: set_loaded_def split: if_splits)
    ultimately show ?thesis
      using Lazy_Recovery by (auto simp: simulates_def store_step_def spec_step_def setup_persistence_def Let_def)
  next
    case Eager_Recovery
    let ?s = "ks_recover_all (Some B) ?n"
    have r: "sound ?s \<and> as_disk ?s = ?d \<and> dom (dict_get (as_memory ?s)) = dom (content ?d)"
      using recover_all_sound[of ?n] ok by (simp add: new_store_def)
    then have "view ?s k = set_loaded True ?kept k" for k
      using content[of k] by (cases "content (as_disk s) k") (auto simp: view_def set_loaded_def domIff split: if_splits)
    with r show ?thesis
      using Eager_Recovery by (auto simp: simulates_def store_step_def spec_step_def setup_persistence_def Let_def)
  next
    case Clear_Recovery
    let ?s = "?n\<lparr>as_disk := fst (ps_clear B None ?d)\<rparr>"
    have empty: "content (as_disk ?s) k = None" "ok (as_disk ?s)" for k
      using content_clear[OF ok, of None] clear[OF ok, of None] by (simp_all add: in_flow_def)
    have "sound ?s" by (rule soundI) (use empty in \<open>simp_all add: new_store_def\<close>)
    moreover have "view ?s = (\<lambda>k. None)" unfolding view_def empty(1) by simp
    moreover have "setup_persistence (Some B) mode age now (as_disk s) = ?s"
      using Clear_Recovery by (simp add: setup_persistence_def Let_def new_store_def)
    ultimately show ?thesis using Clear_Recovery by (simp only: simulates_def store_step_def spec_step_def Let_def store_op.case recovery_mode.case fst_conv snd_conv simp_thms)
  qed
qed

lemma every_op_simulates: "sound s \<Longrightarrow> good_op op \<Longrightarrow> simulates op s"
  by (cases op) (auto simp: good_op_def publish_simulates delete_simulates get_simulates clear_simulates clear_nodes_simulates
      recover_simulates restart_simulates)

text \<open>Any sequence of operations and restarts gives the results that the map gives.\<close>

lemma refines_map:
  assumes "ok d" and "\<And>k. listing B d k = None" and "list_all good_op ops"
  shows "outputs (store_step (Some B)) ops (new_store d) = outputs spec_step ops (\<lambda>k. None)"
proof (rule outputs_simulation[where I = sound and h = view])
  show "sound (new_store d)" by (rule soundI) (simp_all add: new_store_def assms(1,2) content_def)
  show "view (new_store d) = (\<lambda>k. None)" by (simp add: view_def new_store_def content_def assms(2) fun_eq_iff)
  show "list_all good_op ops" by (rule assms(3))
next
  fix op s assume "sound s" "good_op op"
  with every_op_simulates[of s op] show "sound (fst (store_step (Some B) op s)) \<and>
      spec_step op (view s) = (view (fst (store_step (Some B) op s)), snd (store_step (Some B) op s))"
    by (simp add: simulates_def)
qed

end

end
