(* ===== verification/Kernel_Disk.thy ===== *)
theory Kernel_Disk
  imports Kernel_Recovery
begin

text \<open>
  The artifacts of a kernel on disk: the files of \<open>kernel_runtime/artifact_persistence.py\<close> keep the contract \<open>durable\<close>,
  so that the store of a kernel behaves like a map through every restart, and what happens to names, writes and
  requests outside that contract.
\<close>

section \<open>The files keep the contract\<close>

text \<open>
  A plain name is its own directory. On a disk of such names every entry has its data, the digest of the data and the
  metadata of its name.
\<close>

definition plain_name :: "string \<Rightarrow> bool" where
  "plain_name n \<longleftrightarrow> n \<noteq> [] \<and> hd n \<noteq> CHR ''.'' \<and> set n \<subseteq> set word_chars"

definition picklable :: "('o, 'b) pickler \<Rightarrow> 'o \<Rightarrow> bool" where
  "picklable P x \<longleftrightarrow> (case pk_dumps P x of None \<Rightarrow> False | Some b \<Rightarrow> pk_loads P b = Some x)"

definition entry_ok :: "('o, 'b) pickler \<Rightarrow> artifact_key \<Rightarrow> 'b disk_entry \<Rightarrow> bool" where
  "entry_ok P k e \<longleftrightarrow>
     plain_name (snd k) \<and>
     (case (de_data e, de_meta e) of
        (Some b, Some m) \<Rightarrow> dk_checksum m = pk_sha P b \<and> (me_flow (dk_meta m), me_name (dk_meta m)) = k \<and> pk_loads P b \<noteq> None
      | _ \<Rightarrow> False)"

definition disk_ok :: "('o, 'b) pickler \<Rightarrow> 'b disk \<Rightarrow> bool" where
  "disk_ok P d \<longleftrightarrow> dict_ok d \<and> (\<forall>k e. dict_get d k = Some e \<longrightarrow> entry_ok P k e)"

lemma plain_dir: "plain_name (snd k) \<Longrightarrow> dir_of k = k"
proof -
  assume n: "plain_name (snd k)"
  then have "map (\<lambda>c. if c \<in> set word_chars then c else CHR ''_'') (snd k) = snd k"
    unfolding plain_name_def by (intro map_idI) auto
  moreover have "dropWhile (\<lambda>c. c = CHR ''.'') (snd k) = snd k" using n by (cases "snd k") (simp_all add: plain_name_def)
  ultimately show ?thesis by (simp add: dir_of_def safe_dirname_def)
qed

lemma entry_okE:
  assumes "disk_ok P d" and "dict_get d k = Some e"
  obtains b m where "e = \<lparr>de_data = Some b, de_meta = Some m\<rparr>" "plain_name (snd k)" "dk_checksum m = pk_sha P b"
    "(me_flow (dk_meta m), me_name (dk_meta m)) = k" "pk_loads P b \<noteq> None"
proof -
  have "entry_ok P k e" using assms by (simp add: disk_ok_def del: split_paired_All)
  then show ?thesis using that by (cases e) (auto simp: entry_ok_def split: option.splits)
qed

lemma fold_list_entry:
  assumes "\<And>k e. (k, e) \<in> set d \<Longrightarrow> entry_ok P k e" and "dict_ok r"
  shows "dict_ok (fold list_entry d r) \<and> dict_get (fold list_entry d r) k =
    (case map_of (rev d) k of Some e \<Rightarrow> de_meta e | None \<Rightarrow> dict_get r k)"
  using assms
proof (induction d arbitrary: r)
  case (Cons i d)
  obtain j e where i: "i = (j, e)" by (cases i)
  with Cons.prems(1)[of j e] obtain m where m: "de_meta e = Some m" "me_name (dk_meta m) = snd j" "snd j \<noteq> []"
    by (auto simp: entry_ok_def plain_name_def split: option.splits)
  then have "list_entry i r = dict_set j m r" by (simp add: i list_entry_def)
  with Cons.IH[of "dict_set j m r"] Cons.prems m show ?case
    by (auto simp: i map_add_def split: option.splits)
qed simp

lemma listed_files:
  assumes "disk_ok P d"
  shows "dict_ok (list_persisted d)" and "dict_get (list_persisted d) k = (case dict_get d k of None \<Rightarrow> None | Some e \<Rightarrow> de_meta e)"
proof -
  have "dict_ok d" and "\<And>k e. (k, e) \<in> set d \<Longrightarrow> entry_ok P k e"
    using assms dict_get_in_iff[of d] by (auto simp: disk_ok_def simp del: split_paired_All)
  with fold_list_entry[of d P "[]" k] show "dict_ok (list_persisted d)"
    and "dict_get (list_persisted d) k = (case dict_get d k of None \<Rightarrow> None | Some e \<Rightarrow> de_meta e)"
    by (simp_all add: list_persisted_def map_of_rev_dict dict_ok_def split: option.split)
qed

lemma listing_files:
  "disk_ok P d \<Longrightarrow> listing (disk_persistence P Io_Done) d k =
    (case dict_get d k of None \<Rightarrow> None | Some e \<Rightarrow> map_option stamp (de_meta e))"
  by (simp add: listing_def disk_persistence_def listed_files split: option.split)

lemma disk_ok_set: "disk_ok P d \<Longrightarrow> entry_ok P k e \<Longrightarrow> disk_ok P (dict_set k e d)"
  by (auto simp: disk_ok_def simp del: split_paired_All)

lemma disk_ok_filter:
  assumes "disk_ok P d"
  shows "disk_ok P (filter (\<lambda>(k, e). Q k) d)"
    and "dict_get (filter (\<lambda>(k, e). Q k) d) k = (if Q k then dict_get d k else None)"
proof -
  have d: "dict_ok d" using assms by (simp add: disk_ok_def)
  show get: "dict_get (filter (\<lambda>(k, e). Q k) d) k = (if Q k then dict_get d k else None)" for k
    using map_of_filter_dict[OF d, of "\<lambda>k e. Q k" k] by (simp split: option.split)
  show "disk_ok P (filter (\<lambda>(k, e). Q k) d)"
    using assms by (auto simp: disk_ok_def get dict_ok_filter simp del: split_paired_All split: if_splits)
qed

lemma save_files:
  assumes "disk_ok P d" and "plain_name (snd k)" and "picklable P x" and "(me_flow m, me_name m) = k"
  obtains b where "pk_loads P b = Some x"
    and "disk_save P Io_Done k x m now d = (dict_set k \<lparr>de_data = Some b, de_meta = Some \<lparr>dk_meta = m, dk_checksum = pk_sha P b, dk_at = now, dk_bytes = pk_length P b\<rparr>\<rparr> d, True)"
    and "disk_ok P (fst (disk_save P Io_Done k x m now d))"
proof -
  obtain b where b: "pk_dumps P x = Some b" "pk_loads P b = Some x" using assms(3) by (auto simp: picklable_def split: option.splits)
  have save: "disk_save P Io_Done k x m now d = (dict_set k \<lparr>de_data = Some b, de_meta = Some \<lparr>dk_meta = m, dk_checksum = pk_sha P b, dk_at = now, dk_bytes = pk_length P b\<rparr>\<rparr> d, True)"
    by (simp add: disk_save_def b(1) plain_dir[OF assms(2)] Let_def)
  have "disk_ok P (fst (disk_save P Io_Done k x m now d))"
    unfolding save fst_conv using b(2) assms(2,4) by (intro disk_ok_set[OF assms(1)]) (simp add: entry_ok_def)
  with that b save show thesis by blast
qed

lemma load_files:
  assumes "disk_ok P d" and "plain_name (snd k)"
  shows "disk_load P d k = (case dict_get d k of None \<Rightarrow> None | Some e \<Rightarrow> Option.bind (de_data e) (pk_loads P))"
proof (cases "dict_get d k")
  case (Some e)
  from entry_okE[OF assms(1) Some] obtain b m where "e = \<lparr>de_data = Some b, de_meta = Some m\<rparr>" "dk_checksum m = pk_sha P b" by metis
  with Some show ?thesis by (simp add: disk_load_def plain_dir[OF assms(2)])
qed (simp add: disk_load_def plain_dir[OF assms(2)])

lemma listed_plain:
  assumes "disk_ok P d" and "listing (disk_persistence P Io_Done) d k \<noteq> None"
  obtains e b m where "e = \<lparr>de_data = Some b, de_meta = Some m\<rparr>" "dict_get d k = Some e" "plain_name (snd k)"
    "(me_flow (dk_meta m), me_name (dk_meta m)) = k" "disk_load P d k \<noteq> None"
proof -
  obtain e where e: "dict_get d k = Some e" using assms(2) unfolding listing_files[OF assms(1)] by (auto split: option.splits)
  from entry_okE[OF assms(1) e] obtain b m where i: "e = \<lparr>de_data = Some b, de_meta = Some m\<rparr>" "plain_name (snd k)" "pk_loads P b \<noteq> None"
    "(me_flow (dk_meta m), me_name (dk_meta m)) = k" by metis
  with e load_files[OF assms(1) i(2)] that show thesis by simp
qed

lemma delete_files: "plain_name (snd k) \<Longrightarrow> disk_delete Io_Done k d = (dict_pop k d, True)"
  by (simp add: disk_delete_def plain_dir) (simp add: plain_name_def)

lemma clear_files: "fst (disk_clear Io_Done f d) = filter (\<lambda>(k, e). \<not> in_flow f k) d"
  by (auto simp: disk_clear_def in_flow_def split: option.split intro!: filter_cong)

interpretation disk: durable "disk_persistence P Io_Done" "disk_ok P" "{k. plain_name (snd k)}" "picklable P" for P
proof
  fix d :: "'b disk" assume d: "disk_ok P d"
  let ?B = "disk_persistence P Io_Done"
  note files = listing_files[OF d] and simps = disk_persistence_def
  show "dict_ok (ps_list ?B d)" using listed_files(1)[OF d] by (simp add: simps)
  show "k \<in> {k. plain_name (snd k)} \<and> (me_flow m, me_name m) = k" if l: "listing ?B d k = Some (m, t)" for k m t
  proof -
    from l have "listing ?B d k \<noteq> None" by simp
    then obtain e b dm where e: "e = \<lparr>de_data = Some b, de_meta = Some dm\<rparr>" "dict_get d k = Some e" "plain_name (snd k)"
      "(me_flow (dk_meta dm), me_name (dk_meta dm)) = k" by (rule listed_plain[OF d]) blast
    with l show ?thesis unfolding files by (simp add: stamp_def)
  qed
  show "ps_load ?B d k \<noteq> None" if "listing ?B d k \<noteq> None" for k
    using listed_plain[OF d that] by (auto simp: simps)
  show "disk_ok P (fst (ps_save ?B k x m now d)) \<and> snd (ps_save ?B k x m now d)
      \<and> listing ?B (fst (ps_save ?B k x m now d)) = (listing ?B d)(k \<mapsto> (m, now))
      \<and> ps_load ?B (fst (ps_save ?B k x m now d)) k = Some x
      \<and> (\<forall>j. listing ?B d j \<noteq> None \<longrightarrow> j \<noteq> k \<longrightarrow> ps_load ?B (fst (ps_save ?B k x m now d)) j = ps_load ?B d j)"
    if k: "k \<in> {k. plain_name (snd k)}" and x: "picklable P x" and m: "(me_flow m, me_name m) = k" for k x m now
  proof -
    from k have plain: "plain_name (snd k)" by simp
    obtain b where b: "pk_loads P b = Some x"
      and save: "disk_save P Io_Done k x m now d = (dict_set k \<lparr>de_data = Some b, de_meta = Some \<lparr>dk_meta = m, dk_checksum = pk_sha P b, dk_at = now, dk_bytes = pk_length P b\<rparr>\<rparr> d, True)"
      and ok: "disk_ok P (fst (disk_save P Io_Done k x m now d))"
      by (rule save_files[OF d plain x m])
    let ?d = "fst (disk_save P Io_Done k x m now d)"
    have "listing ?B ?d = (listing ?B d)(k \<mapsto> (m, now))"
      by (rule ext) (unfold listing_files[OF ok] fun_upd_apply files, simp add: save stamp_def)
    moreover have "disk_load P ?d k = Some x" unfolding load_files[OF ok plain] by (simp add: save b)
    moreover have "disk_load P ?d j = disk_load P d j" if "listing ?B d j \<noteq> None" "j \<noteq> k" for j
    proof (rule listed_plain[OF d that(1)])
      fix e assume "plain_name (snd j)"
      with \<open>j \<noteq> k\<close> show "disk_load P ?d j = disk_load P d j" by (simp add: load_files[OF ok] load_files[OF d]) (simp add: save)
    qed
    ultimately show ?thesis using ok by (auto simp: simps save simp del: split_paired_All)
  qed
  show "disk_ok P (fst (ps_delete ?B k d)) \<and> listing ?B (fst (ps_delete ?B k d)) = (listing ?B d)(k := None)
      \<and> (\<forall>j. listing ?B d j \<noteq> None \<longrightarrow> j \<noteq> k \<longrightarrow> ps_load ?B (fst (ps_delete ?B k d)) j = ps_load ?B d j)"
    if k: "k \<in> {k. plain_name (snd k)}" for k
  proof -
    have del: "ps_delete ?B k d = (dict_pop k d, True)" using k by (simp add: simps delete_files)
    have ok: "disk_ok P (dict_pop k d)" using d by (auto simp: disk_ok_def simp del: split_paired_All)
    have "listing ?B (dict_pop k d) = (listing ?B d)(k := None)"
      by (rule ext) (unfold listing_files[OF ok] fun_upd_apply files, simp)
    moreover have "disk_load P (dict_pop k d) j = disk_load P d j" if "listing ?B d j \<noteq> None" "j \<noteq> k" for j
    proof (rule listed_plain[OF d that(1)])
      fix e assume "plain_name (snd j)"
      with \<open>j \<noteq> k\<close> show "disk_load P (dict_pop k d) j = disk_load P d j" by (simp add: load_files[OF ok] load_files[OF d])
    qed
    ultimately show ?thesis using ok del by (auto simp: simps simp del: split_paired_All)
  qed
  show "disk_ok P (fst (ps_clear ?B f d)) \<and> listing ?B (fst (ps_clear ?B f d)) = (\<lambda>k. if in_flow f k then None else listing ?B d k)
      \<and> (\<forall>j. listing ?B d j \<noteq> None \<longrightarrow> \<not> in_flow f j \<longrightarrow> ps_load ?B (fst (ps_clear ?B f d)) j = ps_load ?B d j)" for f
  proof -
    let ?d = "filter (\<lambda>(k, e). \<not> in_flow f k) d"
    have clr: "fst (ps_clear ?B f d) = ?d" by (simp add: simps clear_files)
    note ok = disk_ok_filter[OF d, of "\<lambda>k. \<not> in_flow f k"]
    have "listing ?B ?d = (\<lambda>k. if in_flow f k then None else listing ?B d k)"
      by (rule ext) (unfold listing_files[OF ok(1)] files ok(2), simp)
    moreover have "disk_load P ?d j = disk_load P d j" if "listing ?B d j \<noteq> None" "\<not> in_flow f j" for j
    proof (rule listed_plain[OF d that(1)])
      fix e assume "plain_name (snd j)"
      with that(2) show "disk_load P ?d j = disk_load P d j" by (simp add: load_files[OF ok(1)] load_files[OF d] ok(2))
    qed
    ultimately show ?thesis using ok(1) clr by (auto simp: simps simp del: split_paired_All)
  qed
qed


section \<open>The store of a kernel is a map\<close>



definition text_pickler :: "(string, string) pickler" where
  "text_pickler = \<lparr>pk_dumps = (\<lambda>x. if x = [] then None else Some x), pk_loads = (\<lambda>b. Some b), pk_sha = id, pk_length = (\<lambda>b. int (length b))\<rparr>"

definition no_report :: report where
  "no_report = \<lparr>rp_type = ''str'', rp_module = ''builtins'', rp_created = 0, rp_size = 0\<rparr>"



section \<open>Outside the contract\<close>

text \<open>Concrete runs, with strings as objects; the empty one cannot be serialized.\<close>

lemmas run_simps = store_step_def ks_publish_def publish_begin_def publish_save_def ks_delete_def ks_get_def ks_try_lazy_load_def
  ks_recover_all_def ks_build_lazy_index_def recover_one_def index_one_def recovered_def setup_persistence_def new_store_def new_meta_def
  disk_persistence_def disk_save_def disk_load_def disk_delete_def list_persisted_def list_entry_def dir_of_def safe_dirname_def
  word_chars_def letters_def digits_def text_pickler_def no_report_def cleanup_artifacts_def cleanup_names_def
  dict_set_def dict_pop_def dict_keys_def

abbreviation text_disk :: "(string disk, string) persistence option" where
  "text_disk \<equiv> Some (disk_persistence text_pickler Io_Done)"

text \<open>Characters that are replaced: the second artifact overwrites the files of the first one.\<close>

lemma similar_names_share_files:
  "outputs (store_step text_disk)
     [S_Publish (1, ''a/b'') ''x'' 1 no_report 0, S_Publish (1, ''a_b'') ''y'' 2 no_report 0, S_Restart Eager_Recovery 0 1, S_Get (1, ''a/b'')]
     (new_store []) = [Out_Done, Out_Done, Out_Done, Out_Missing]"
  by (simp add: run_simps)

text \<open>A name of dots is the directory of the flow: deleting the artifact deletes all files of the flow.\<close>

lemma dots_delete_the_flow:
  "outputs (store_step text_disk)
     [S_Publish (1, ''m'') ''x'' 1 no_report 0, S_Publish (1, ''..'') ''y'' 2 no_report 0, S_Delete (1, ''..''), S_Restart Lazy_Recovery 0 1, S_Get (1, ''m'')]
     (new_store []) = [Out_Done, Out_Done, Out_Done, Out_Done, Out_Missing]"
  by (simp add: run_simps)

lemma dotted_directory: "dir_of (f, replicate n CHR ''.'') = (f, [])"
  by (induction n) (simp_all add: dir_of_def safe_dirname_def word_chars_def)

text \<open>An artifact that cannot be serialized replaces a stored one until the restart, which brings back the old object.\<close>

lemma unsaved_overwrite_reverts:
  "outputs (store_step text_disk)
     [S_Publish (1, ''m'') ''old'' 1 no_report 0, S_Restart Lazy_Recovery 0 1, S_Publish (1, ''m'') '''' 2 no_report 2,
      S_Get (1, ''m''), S_Restart Lazy_Recovery 0 3, S_Get (1, ''m'')]
     (new_store []) = [Out_Done, Out_Done, Out_Done, Out_Object '''', Out_Done, Out_Object ''old'']"
  by (simp add: run_simps)

text \<open>
  The deletion of an artifact whose files are not yet written answers that it is done, and the publication then writes
  them: the artifact is back after a restart.
\<close>

lemma deleted_while_saving:
  fixes s :: "(string, string disk) kernel_store"
  assumes "publish_begin text_disk (1, ''m'') ''x'' (new_meta (1, ''m'') 1 no_report) (new_store []) = Inr s"
  shows "snd (ks_delete text_disk (1, ''m'') s) = Inr ()"
    and "outputs (store_step text_disk) [S_Get (1, ''m''), S_Restart Lazy_Recovery 0 1, S_Get (1, ''m'')]
           (publish_save text_disk (1, ''m'') ''x'' (new_meta (1, ''m'') 1 no_report) 0 (fst (ks_delete text_disk (1, ''m'') s)))
         = [Out_Missing, Out_Done, Out_Object ''x'']"
proof -
  have s: "dict_keys (as_memory s) = [(1, ''m'')]" "dict_pop (1, ''m'') (as_memory s) = []" "as_lazy s = []" "as_disk s = []"
    using assms by (auto simp: publish_begin_def new_store_def dict_set_def dict_pop_def dict_keys_def)
  show "snd (ks_delete text_disk (1, ''m'') s) = Inr ()" by (simp add: ks_delete_def s)
  have none: "fst (ps_delete (disk_persistence text_pickler Io_Done) (1, ''m'') []) = []" by (simp add: run_simps)
  have "fst (ks_delete text_disk (1, ''m'') s) = new_store []"
    using none s by (cases s) (simp add: ks_delete_def new_store_def dict_pop_def)
  moreover have "outputs (store_step text_disk) [S_Get (1, ''m''), S_Restart Lazy_Recovery 0 1, S_Get (1, ''m'')]
      (publish_save text_disk (1, ''m'') ''x'' (new_meta (1, ''m'') 1 no_report) 0 (new_store [])) = [Out_Missing, Out_Done, Out_Object ''x'']"
    by (simp add: run_simps)
  ultimately show "outputs (store_step text_disk) [S_Get (1, ''m''), S_Restart Lazy_Recovery 0 1, S_Get (1, ''m'')]
      (publish_save text_disk (1, ''m'') ''x'' (new_meta (1, ''m'') 1 no_report) 0 (fst (ks_delete text_disk (1, ''m'') s))) = [Out_Missing, Out_Done, Out_Object ''x'']"
    by simp
qed

text \<open>The request that removes files leaves the index of artifacts that are not loaded: they stay listed and cannot be fetched.\<close>

lemma cleanup_leaves_index:
  defines "s \<equiv> cleanup_artifacts text_disk [(1, ''m'')] None
    (fst (store_step text_disk (S_Restart Lazy_Recovery 0 1) (fst (store_step text_disk (S_Publish (1, ''m'') ''x'' 1 no_report 0) (new_store [])))))"
  shows "dict_keys (ks_list_all None s) = [''m'']" and "outputs (store_step text_disk) [S_Get (1, ''m'')] s = [Out_Load_Failed]"
  by (simp_all add: s_def run_simps ks_list_all_def list_where_def in_flow_def Let_def)

end
