(* ===== verification/Spec2Isabelle.thy ===== *)
theory Spec2Isabelle
  imports Exec_Order Visual_Groups Graph_Edit Parameters History Node_Executor Artifacts Run_Graph Schedules Share_Safety Cross_Join Artifact_Upload Kernel_Claims Kernel_Paths Kernel_Disk
begin

text \<open>
  Flowfile, a visual tool for data pipelines: the flow engine of \<open>flowfile_core\<close>, the scheduler, joins, and the
  sharing of resources between users.
  File names are relative to \<open>flowfile_core/flowfile_core/flowfile/\<close> unless they start with another
  package.

  \<^bold>\<open>The program.\<close> A flow is a graph of nodes. The user edits it on a canvas: nodes, connections
  and visual groups (\<open>flow_graph.py\<close>), with undo and redo (\<open>history_manager.py\<close>). A run asks the planner
  for stages (\<open>util/execution_orderer.py\<close>), starts the nodes of one stage after the other, substitutes the
  parameters of the flow into the settings of a node (\<open>parameter_resolver.py\<close>), lets the executor decide
  how and whether the node is computed (\<open>flow_node/executor.py\<close>), keeps track of the Python objects that
  script nodes exchange through kernels (\<open>artifacts.py\<close>), containers that \<open>kernel/manager.py\<close> keeps, and calls the completion callbacks of the
  sources. Objects that outlive a run are published as global
  artifacts with versions (\<open>artifacts/\<close>). The catalog (\<open>catalog/services/\<close>) stores schedules and runs, and a separate process
  (\<open>flowfile_scheduler/engine.py\<close>) launches the flows that are due. With several users, everything that is
  stored has an owner, and is shared with groups of users, directly or through the namespace it lies in
  (\<open>auth/sharing.py\<close>, \<open>catalog/services/namespaces.py\<close>, \<open>secret_manager/\<close>).

  \<^bold>\<open>Theories.\<close>

  \<^item> \<open>Prelude\<close>: Python dictionaries as association lists in insertion order, Python values, and the lemmas
    on lists and maps that the components share.
  \<^item> \<open>Node_State\<close>: \<open>SourceFileInfo\<close> and \<open>NodeExecutionState\<close> of \<open>flow_node/state.py\<close>, \<open>NodeStepStats\<close>,
    \<open>NodeResults\<close> and the strategies of \<open>flow_node/models.py\<close>.
  \<^item> \<open>Flow_Node\<close>: \<open>FlowNode\<close> of \<open>flow_node/flow_node.py\<close> with its inputs: construction, edges, hashing
    (\<open>utils.py\<close>), resetting. Nodes live in a heap \<open>node_heap\<close>, because the registry, the inputs and
    \<open>leads_to_nodes\<close> share them.
  \<^item> \<open>Exec_Order\<close>: \<open>util/node_skipper.py\<close> and \<open>util/execution_orderer.py\<close>. The locale \<open>edge_table\<close> states
    what the topological sort relies on and is interpreted on the tables that the planner builds.
  \<^item> \<open>Flow_Graph\<close>, \<open>Visual_Groups\<close>, \<open>Graph_Edit\<close>: \<open>FlowGraph\<close> of \<open>flow_graph.py\<close> as the record
    \<open>flow_graph\<close> next to the heap: the registry, the groups (creation, nesting, bounds, deletion), the
    edges with the cycle check.
  \<^item> \<open>History\<close>: \<open>HistoryManager\<close> with the wrapper \<open>_execute_with_history\<close>. The locale \<open>snapshots\<close> states
    what it relies on (restoring a snapshot and taking one again gives the same), and is interpreted on
    the visual groups.
  \<^item> \<open>Parameters\<close>: every function of \<open>parameter_resolver.py\<close> on trees of Python values.
  \<^item> \<open>Node_Executor\<close>: \<open>NodeExecutor\<close> and the execution methods of \<open>FlowNode\<close>. A state is a heap of nodes
    with the cache of the worker.
  \<^item> \<open>Artifacts\<close>: \<open>ArtifactContext\<close> with its three indices.
  \<^item> \<open>Run_Graph\<close>: \<open>run_graph\<close> and \<open>trigger_fetch_node\<close>, which compose the planner, the executor, the
    parameters and the artifacts.
  \<^item> \<open>Scheduler\<close>: \<open>flowfile_scheduler/engine.py\<close> and \<open>shared/run_completion.py\<close> over the tables of
    \<open>shared/models.py\<close>. The locale \<open>launch_guard\<close> is the contract of every way to start a run: nothing
    starts a run of a flow that has an active one. It is interpreted on the scheduler and on the catalog.
  \<^item> \<open>Schedules\<close>: \<open>catalog/services/schedules.py\<close>, the runs of \<open>catalog/services/runs.py\<close> and the rules of
    \<open>catalog/validators.py\<close>, on the same tables, and the system of all processes together.
  \<^item> \<open>Sharing\<close>: \<open>auth/sharing.py\<close> and \<open>catalog/access.py\<close> over the record \<open>share_db\<close> of the tables they read.
    The locale \<open>best_permission\<close> states what one iteration of the loops that collect permissions does; the
    three loops are its interpretations.
  \<^item> \<open>Share_Routes\<close>: the endpoints of \<open>routes/user_groups.py\<close>, \<open>routes/shares.py\<close> and \<open>routes/auth.py\<close>.
  \<^item> \<open>Namespaces\<close>: \<open>catalog/services/namespaces.py\<close> with the guards of \<open>catalog/service.py\<close>.
  \<^item> \<open>Secrets\<close>: \<open>secret_manager/secret_manager.py\<close> and \<open>routes/secrets.py\<close>.
  \<^item> \<open>Share_System\<close>, \<open>Share_Safety\<close>: all these requests together, the invariant \<open>share_ok\<close>, and what holds
    however requests are combined.

  \<^item> \<open>Select_Inputs\<close>, \<open>Joins\<close>, \<open>Join_Columns\<close>, \<open>Join_Match\<close>, \<open>Cross_Join\<close>: selections of columns and the settings
    of joins (\<open>schemas/transform_schema.py\<close>), the joins of \<open>flow_data_engine/\<close> and the columns that
    \<open>schema_callbacks.py\<close> predicts for them. The record \<open>frames\<close> is the data frame library.
  \<^item> \<open>Decimals\<close>, \<open>Blob_Storage\<close>, \<open>Artifact_Service\<close>, \<open>Artifact_Safety\<close>, \<open>Artifact_Upload\<close>: the global artifacts
    that scripts publish (\<open>artifacts/service.py\<close>, \<open>shared/artifact_storage.py\<close>). The locale \<open>blob_backend\<close> is the
    contract of the storage backends, \<open>verifying_backend\<close> that of one which checks what it stores; the shared file
    system is an interpretation of both, S3 of the first.
  \<^item> \<open>Kernel_Images\<close>, \<open>Kernel_Store\<close>, \<open>Kernel_Manager\<close>, \<open>Kernel_Paths\<close>: the containers in which scripts run, as
    the core manages them (\<open>kernel/manager.py\<close>, \<open>kernel/persistence.py\<close>): the images, the registry and its table, the
    operations, the paths. \<open>Kernel_Safety\<close>, \<open>Kernel_Sync\<close>, \<open>Kernel_Packages\<close>, \<open>Kernel_Claims\<close>: what holds over any
    sequence of operations. The locale \<open>runtime_operation\<close> is the contract of the operations that start, use and stop
    the container of one kernel, \<open>building_operation\<close> that of those which also build at most its image; both are
    interpreted on the five operations of that kind.
  \<^item> \<open>Kernel_Artifacts\<close>, \<open>Kernel_Recovery\<close>, \<open>Kernel_Disk\<close>: the objects that a kernel keeps in memory and on disk
    (\<open>kernel_runtime/artifact_store.py\<close>, \<open>artifact_persistence.py\<close> and the start in \<open>main.py\<close>). The locale \<open>durable\<close> is the
    contract of a persistence, under which the store refines a map; it is interpreted on the files.

  \<^bold>\<open>How the state corresponds.\<close> An object with fields is a record with the names of the source, a
  Python dictionary an association list without duplicate keys, an object that is shared by reference an
  address. An exception is a value: the left side of a sum, or a component next to the state, and what was
  mutated before the exception is kept. Python integers are unbounded and so are \<open>int\<close> and \<open>nat\<close>.
  Canvas coordinates, which are floats that the code adds, subtracts and compares, are integers. Time
  stamps are integers.

  \<^bold>\<open>What the lemmas show.\<close>

  \<^item> Planning: the order lists every node to be executed once and respects every edge; it is refused exactly
    for a cycle; the cycle check of the editor decides reachability.
  \<^item> Editing: each operation keeps the graph well formed (\<open>wf_graph\<close>, \<open>graph_ok\<close>) and acyclic; the groups keep
    existing parents, their counter and a nesting without cycles (\<open>groups_ok\<close>); bounds enclose their members.
  \<^item> Undo and redo refine a bounded timeline of snapshots (\<open>timeline\<close> and its steps).
  \<^item> Parameters: substitution replaces exactly the defined references and is undone exactly.
  \<^item> Execution: a node that succeeded is recorded, a recorded node is not computed again; every strategy
    comes back, whatever fails.
  \<^item> Runs: nothing behind a failure starts in a later stage, a callback reports success only when everything
    behind its source ran, and a run never leaves the flow marked as running.
  \<^item> Artifacts: the indices agree in every reachable state; the nodes to run again are a least fixed point.
  \<^item> Scheduling: one scheduler at a time, no overlapping runs, runs spaced by their interval, one run per cron
    slot, due flows run when their subprocess starts, and stored schedules stay valid; over every interleaving of the
    operations that the property lists. The spacing of a schedule holds until its own timing is changed (\<open>timed_step\<close>).
  \<^item> Sharing: the loops and queries decide the rules written as \<open>may\<close>, lists and single checks agree, the
    tables stay consistent as long as rows are deleted through the session, users who share among themselves stay within \<open>coalition_reach\<close>, an administrator
    and the owners of groups remain, the storage of a table is stable, and a secret resolves to the nearest one.
  \<^item> Joins: the engine produces the columns that the editor predicts, up to their order, for all strategies that a join
    node offers, when the settings are ready (\<open>join_ready\<close>, \<open>cross_ready\<close>); the automatic renaming ends, separates the
    two sides, and moves exactly the names in the way (\<open>moving\<close>).
  \<^item> Artifacts between flows: on a shared file system, and if uploads are finalized with a key of their own, rows and
    blobs agree and versions are unique in every reachable state and a published version does not change; an upload can
    be fetched again, and lookups return the newest version.
  \<^item> Kernels: ports differ; without imports and with services that answer, the registry and the table agree, so that a
    restart loses nothing that is stored, and an image holds the packages of its kernel; and an import of one user
    leaves the kernels of others alone.
  \<^item> Artifacts inside a kernel: memory, index and files together are a map (\<open>view\<close>), through every restart; the lemmas
    at the end of \<open>Kernel_Disk\<close> show what names, failures and overlapping requests outside the contract do.

  \<^bold>\<open>Fuel.\<close> Recursion along the edges of a graph has fuel, and \<open>None\<close> is the \<open>RecursionError\<close> of a cyclic
  graph. \<open>ranked h r N\<close> says that the edges of \<open>h\<close> lower the rank \<open>r\<close>, which is at most \<open>N\<close>; an acyclic heap has
  such a rank. Reading results and hashing need more than \<open>N\<close>, resetting needs \<open>2 * N + 2\<close>
  (\<open>hash_all_enough\<close>, \<open>results_all_enough\<close>, \<open>reset_all_enough\<close>); \<open>ee_fuel\<close> bounds both. A retry for a missing
  file descends along the inputs, so \<open>2 * r a + 2\<close> attempts are enough for the node \<open>a\<close>
  (\<open>execute_node_returns\<close>). The cycle check takes every node from its stack at most once: the number of
  nodes is enough (\<open>would_create_cycle_correct\<close>). \<open>run_graph_returns\<close> puts these together. Loops along parents
  of groups stop at a visited id and need no fuel argument from outside.

  \<^bold>\<open>Parameters of the model.\<close> Code outside \<open>src\<close> and the parts of the program that only call it are
  arguments: the digest of a hash (assumed injective nowhere), the node functions, the worker, \<open>os.stat\<close>, in a run
  the kernel manager, \<open>croniter\<close> with the time zone database, the start of a subprocess, the identity of a
  machine, access tokens (a request carries the user name that its token names), the hash of a password, and
  HKDF and Fernet, what Docker answers (\<open>kernel_env\<close>, without any assumption but those that a property names), and
  Polars, of which \<open>frames_ok\<close> states the columns that its operations return. Threads of
  one stage run one after the other, in any order; requests that write are atomic.

  \<^bold>\<open>Not modelled.\<close> The rest of the data engine (\<open>flow_data_engine/\<close>) and the frame API (\<open>flowfile_frame\<close>), which wrap
  Polars; the roughly sixty \<open>add_<node type>\<close> methods, which build a closure and call \<open>add_node_step\<close>; the predictions of
  other nodes, which run in a background thread; the worker process, the process inside a kernel
  container but for its artifacts, and the HTTP routes, which are processes, sockets and glue; the rest of the catalog (Delta tables on disk and database listings);
  the code generator, whose output is text for Polars; the AI assistant; projects on disk and in git; the
  encoding of tokens and the key files, which call cryptographic libraries; connectors to databases and brokers.
\<close>

end
